(* ===== verification/Prelude.thy ===== *)
theory Prelude
  imports Complex_Main "HOL-Library.Multiset" "HOL-Library.List_Lexorder" "HOL-Library.Char_ord"
    "HOL-Library.Word"
begin

text \<open>
  Shared vocabulary of the development.

  \<^item> Results: a Go function returning \<open>(value, error)\<close> is a sum whose left side is the error;
    \<open>res_bind\<close> is the \<open>if err != nil { return ..., err }\<close> idiom and \<open>res_map_list\<close> the
    loop that stops at the first error.
  \<^item> Machine integers: \<open>wrap64\<close> is two's-complement reduction to \<open>int64\<close>, so overflow is visible
    wherever the source adds or subtracts; epochs are \<open>64 word\<close>.
  \<^item> Contexts: a \<open>context.Context\<close> is the number of further \<open>ctx.Err()\<close> checks that still
    succeed (\<open>None\<close>: never cancelled), so a statement over all contexts covers every instant at which
    a cancellation can be observed.
  \<^item> \<open>sort.SliceStable\<close> is the insertion sort \<open>sort_by\<close>; the locale \<open>strict_weak_order\<close> is the
    contract a comparator must meet, and its lemmas are what the callers rely on.
  \<^item> Go strings are byte strings (\<open>string\<close>), ordered bytewise by \<open>List_Lexorder\<close>.
\<close>

named_theorems res_simps \<open>unfolding of error propagation\<close>

section \<open>Results\<close>

type_synonym ('e, 'a) res = "'e + 'a"

definition res_bind :: "('e, 'a) res \<Rightarrow> ('a \<Rightarrow> ('e, 'b) res) \<Rightarrow> ('e, 'b) res" where
  "res_bind r f = (case r of Inl e \<Rightarrow> Inl e | Inr a \<Rightarrow> f a)"

fun res_map_list :: "('a \<Rightarrow> ('e, 'b) res) \<Rightarrow> 'a list \<Rightarrow> ('e, 'b list) res" where
  "res_map_list f [] = Inr []"
| "res_map_list f (x # xs) =
    res_bind (f x) (\<lambda>y. res_bind (res_map_list f xs) (\<lambda>ys. Inr (y # ys)))"

abbreviation ok :: "('e, 'a) res \<Rightarrow> bool" where
  "ok r \<equiv> \<not> isl r"

lemma res_bind_simps [simp, res_simps]:
  "res_bind (Inl e) f = Inl e"
  "res_bind (Inr a) f = f a"
  by (simp_all add: res_bind_def)

lemma res_bind_Inr_iff [res_simps]:
  "res_bind r f = Inr b \<longleftrightarrow> (\<exists>a. r = Inr a \<and> f a = Inr b)"
  by (cases r) simp_all

lemma res_bind_Inl_iff [res_simps]:
  "res_bind r f = Inl e \<longleftrightarrow> r = Inl e \<or> (\<exists>a. r = Inr a \<and> f a = Inl e)"
  by (cases r) simp_all

lemma res_map_list_Inr:
  "res_map_list f xs = Inr ys \<Longrightarrow> list_all2 (\<lambda>x y. f x = Inr y) xs ys"
proof (induction xs arbitrary: ys)
  case (Cons x xs)
  then show ?case by (auto simp: res_bind_Inr_iff)
qed simp

lemma res_map_list_Inr_iff:
  "res_map_list f xs = Inr ys \<longleftrightarrow> list_all2 (\<lambda>x y. f x = Inr y) xs ys"
proof
  show "list_all2 (\<lambda>x y. f x = Inr y) xs ys \<Longrightarrow> res_map_list f xs = Inr ys"
    by (induction xs arbitrary: ys) (auto simp: list_all2_Cons1)
qed (rule res_map_list_Inr)

lemma res_map_list_length: "res_map_list f xs = Inr ys \<Longrightarrow> length ys = length xs"
  using res_map_list_Inr list_all2_lengthD by metis

section \<open>Machine integers\<close>

definition max_int64 :: int where "max_int64 = 9223372036854775807"
definition min_int64 :: int where "min_int64 = - 9223372036854775808"

definition wrap64 :: "int \<Rightarrow> int" where
  "wrap64 x = (x + 9223372036854775808) mod 18446744073709551616 - 9223372036854775808"

definition int64_range :: "int \<Rightarrow> bool" where
  "int64_range x \<longleftrightarrow> min_int64 \<le> x \<and> x \<le> max_int64"

lemma wrap64_range [simp]: "int64_range (wrap64 x)"
  unfolding wrap64_def int64_range_def max_int64_def min_int64_def
  using pos_mod_bound[of 18446744073709551616 "x + 9223372036854775808"]
    pos_mod_sign[of 18446744073709551616 "x + 9223372036854775808"] by simp

lemma wrap64_id: "int64_range x \<Longrightarrow> wrap64 x = x"
  unfolding wrap64_def int64_range_def max_int64_def min_int64_def by simp

lemma wrap64_idem [simp]: "wrap64 (wrap64 x) = wrap64 x"
  by (rule wrap64_id) simp

text \<open>Go's integer division truncates toward zero.\<close>

definition go_div :: "int \<Rightarrow> int \<Rightarrow> int" where
  "go_div a b = sgn a * sgn b * (\<bar>a\<bar> div \<bar>b\<bar>)"

definition go_mod :: "int \<Rightarrow> int \<Rightarrow> int" where
  "go_mod a b = a - b * go_div a b"

section \<open>Cancellation\<close>

type_synonym ctx = "nat option"

fun ctx_err :: "ctx \<Rightarrow> bool \<times> ctx" where
  "ctx_err None = (False, None)"
| "ctx_err (Some 0) = (True, Some 0)"
| "ctx_err (Some (Suc n)) = (False, Some n)"

lemma ctx_err_never [simp]: "ctx_err None = (False, None)"
  by simp

lemma ctx_err_True_iff: "fst (ctx_err c) \<longleftrightarrow> c = Some 0"
  by (cases c rule: ctx_err.cases) simp_all

section \<open>Stable sorting by a comparator\<close>

fun insert_by :: "('a \<Rightarrow> 'a \<Rightarrow> bool) \<Rightarrow> 'a \<Rightarrow> 'a list \<Rightarrow> 'a list" where
  "insert_by lt x [] = [x]"
| "insert_by lt x (y # ys) = (if lt y x then y # insert_by lt x ys else x # y # ys)"

fun sort_by :: "('a \<Rightarrow> 'a \<Rightarrow> bool) \<Rightarrow> 'a list \<Rightarrow> 'a list" where
  "sort_by lt [] = []"
| "sort_by lt (x # xs) = insert_by lt x (sort_by lt xs)"

lemma mset_insert_by [simp]: "mset (insert_by lt x ys) = add_mset x (mset ys)"
  by (induction ys) auto

lemma mset_sort_by [simp]: "mset (sort_by lt xs) = mset xs"
  by (induction xs) auto

lemma set_sort_by [simp]: "set (sort_by lt xs) = set xs"
  by (metis mset_sort_by set_mset_mset)

lemma length_sort_by [simp]: "length (sort_by lt xs) = length xs"
  by (metis mset_sort_by size_mset)

lemma distinct_sort_by [simp]: "distinct (sort_by lt xs) = distinct xs"
  by (metis mset_sort_by mset_eq_imp_distinct_iff)

lemma set_insert_by [simp]: "set (insert_by lt x ys) = insert x (set ys)"
  by (metis mset_insert_by set_mset_add_mset_insert set_mset_mset)

lemma distinct_map_sort_by [simp]: "distinct (map f (sort_by lt xs)) = distinct (map f xs)"
  by (metis mset_map mset_sort_by mset_eq_imp_distinct_iff)

lemma sum_list_insert_by:
  "sum_list (map f (insert_by lt x ys)) = f x + sum_list (map f ys :: 'b::comm_monoid_add list)"
  by (induction ys) (auto simp: ac_simps)

lemma sum_list_sort_by [simp]:
  "sum_list (map f (sort_by lt xs)) = sum_list (map f xs :: 'b::comm_monoid_add list)"
  by (induction xs) (simp_all add: sum_list_insert_by)

locale strict_weak_order =
  fixes lt :: "'a \<Rightarrow> 'a \<Rightarrow> bool"
  assumes lt_asym: "lt a b \<Longrightarrow> \<not> lt b a"
    and lt_negtrans: "\<not> lt a b \<Longrightarrow> \<not> lt b c \<Longrightarrow> \<not> lt a c"
begin

lemma lt_irrefl: "\<not> lt a a"
  using lt_asym by blast

lemma lt_trans: "lt a b \<Longrightarrow> lt b c \<Longrightarrow> lt a c"
  using lt_asym lt_negtrans by blast

lemma sorted_insert_by:
  "sorted_wrt (\<lambda>a b. \<not> lt b a) ys \<Longrightarrow> sorted_wrt (\<lambda>a b. \<not> lt b a) (insert_by lt x ys)"
proof (induction ys)
  case (Cons y ys)
  show ?case
  proof (cases "lt y x")
    case True
    with Cons show ?thesis by (auto dest: lt_asym)
  next
    case False
    with Cons.prems show ?thesis using lt_negtrans by fastforce
  qed
qed simp

lemma sorted_sort_by: "sorted_wrt (\<lambda>a b. \<not> lt b a) (sort_by lt xs)"
  by (induction xs) (simp_all add: sorted_insert_by)

lemma insert_by_filter_same:
  "\<lbrakk> sorted_wrt (\<lambda>a b. \<not> lt b a) ys; P x; \<And>a b. P a \<Longrightarrow> P b \<Longrightarrow> \<not> lt a b \<rbrakk>
    \<Longrightarrow> filter P (insert_by lt x ys) = x # filter P ys"
  by (induction ys) auto

lemma insert_by_filter_other:
  "\<not> P x \<Longrightarrow> filter P (insert_by lt x ys) = filter P ys"
  by (induction ys) auto

lemma sort_by_stable:
  assumes "\<And>a b. P a \<Longrightarrow> P b \<Longrightarrow> \<not> lt a b"
  shows "filter P (sort_by lt xs) = filter P xs"
  using assms
  by (induction xs)
    (auto simp: insert_by_filter_same[OF sorted_sort_by] insert_by_filter_other)

lemma insert_by_le_all:
  "(\<And>y. y \<in> set ys \<Longrightarrow> \<not> lt y x) \<Longrightarrow> insert_by lt x ys = x # ys"
  by (cases ys) auto

lemma sort_by_sorted_id: "sorted_wrt (\<lambda>a b. \<not> lt b a) xs \<Longrightarrow> sort_by lt xs = xs"
  by (induction xs) (simp_all add: insert_by_le_all)

lemma sort_by_idem: "sort_by lt (sort_by lt xs) = sort_by lt xs"
  by (rule sort_by_sorted_id) (rule sorted_sort_by)

lemma sorted_unique:
  assumes "sorted_wrt (\<lambda>a b. \<not> lt b a) xs" "sorted_wrt (\<lambda>a b. \<not> lt b a) ys" "mset xs = mset ys"
    and tot: "\<And>a b. a \<in> set xs \<Longrightarrow> b \<in> set xs \<Longrightarrow> \<not> lt a b \<Longrightarrow> \<not> lt b a \<Longrightarrow> a = b"
  shows "xs = ys"
  using assms
proof (induction xs arbitrary: ys)
  case (Cons x xs)
  then obtain y ys' where ys: "ys = y # ys'" by (cases ys) auto
  have sets: "set (x # xs) = set ys"
    using Cons.prems(3) by (metis set_mset_mset)
  have "x = y"
  proof (rule ccontr)
    assume ne: "x \<noteq> y"
    have "x \<in> set ys'" using ne sets ys by auto
    moreover have "y \<in> set xs" using ne sets ys by auto
    ultimately have "\<not> lt x y" "\<not> lt y x"
      using Cons.prems(1,2) ys by auto
    then show False using Cons.prems(4) ne \<open>y \<in> set xs\<close> by auto
  qed
  moreover have "xs = ys'"
    using Cons.IH[of ys'] Cons.prems ys \<open>x = y\<close> by auto
  ultimately show ?case using ys by simp
qed simp

lemma sort_by_perm:
  assumes "mset xs = mset ys"
    and "\<And>a b. a \<in> set xs \<Longrightarrow> b \<in> set xs \<Longrightarrow> \<not> lt a b \<Longrightarrow> \<not> lt b a \<Longrightarrow> a = b"
  shows "sort_by lt xs = sort_by lt ys"
  using assms by (intro sorted_unique sorted_sort_by) simp_all

end

text \<open>Comparators built from a key into a linear order, and their lexicographic combination.\<close>

lemma swo_key:
  fixes k :: "'a \<Rightarrow> 'b::linorder"
  shows "strict_weak_order (\<lambda>a b. k a < k b)"
  by unfold_locales auto

interpretation string_lt: strict_weak_order "(<) :: string \<Rightarrow> string \<Rightarrow> bool"
  using swo_key[where k = "\<lambda>x. x"] by simp

section \<open>Lists and association lists\<close>

fun lookup :: "('k \<times> 'v) list \<Rightarrow> 'k \<Rightarrow> 'v option" where
  "lookup [] k = None"
| "lookup ((k', v) # m) k = (if k = k' then Some v else lookup m k)"

fun find_first :: "('a \<Rightarrow> bool) \<Rightarrow> 'a list \<Rightarrow> 'a option" where
  "find_first P [] = None"
| "find_first P (x # xs) = (if P x then Some x else find_first P xs)"

lemma find_first_Some: "find_first P xs = Some x \<Longrightarrow> x \<in> set xs \<and> P x"
  by (induction xs) (auto split: if_splits)

lemma find_first_None_iff: "find_first P xs = None \<longleftrightarrow> (\<forall>x \<in> set xs. \<not> P x)"
  by (induction xs) auto

lemma list_all2_in_set2:
  assumes "list_all2 P xs ys" "y \<in> set ys"
  obtains x where "x \<in> set xs" "P x y"
  using assms by (induction rule: list_all2_induct) auto

lemma list_all2_in_set1:
  assumes "list_all2 P xs ys" "x \<in> set xs"
  obtains y where "y \<in> set ys" "P x y"
  using assms by (induction rule: list_all2_induct) auto

lemma filter_nth: "filter P xs = map ((!) xs) (filter (\<lambda>j. P (xs ! j)) [0..<length xs])"
proof -
  have "filter P xs = filter P (map ((!) xs) [0..<length xs])" by (simp add: map_nth)
  also have "\<dots> = map ((!) xs) (filter (P \<circ> (!) xs) [0..<length xs])" by (rule filter_map)
  finally show ?thesis by (simp add: comp_def)
qed

lemma distinct_map_sorted_wrt: "distinct (map f xs) \<Longrightarrow> sorted_wrt (\<lambda>a b. f a \<noteq> f b) xs"
  by (induction xs) auto

lemma sorted_wrt_combine:
  assumes "sorted_wrt P xs" "sorted_wrt Q xs" "\<And>a b. P a b \<Longrightarrow> Q a b \<Longrightarrow> R a b"
  shows "sorted_wrt R xs"
  using assms(1,2) by (induction xs) (auto intro: assms(3))

lemma lookup_map_of: "lookup m k = map_of m k"
  by (induction m) auto

definition has_prefix :: "string \<Rightarrow> string \<Rightarrow> bool" where
  "has_prefix s p \<longleftrightarrow> take (length p) s = p"

definition has_suffix :: "string \<Rightarrow> string \<Rightarrow> bool" where
  "has_suffix s p \<longleftrightarrow> length p \<le> length s \<and> drop (length s - length p) s = p"

fun str_contains :: "string \<Rightarrow> string \<Rightarrow> bool" where
  "str_contains [] p \<longleftrightarrow> p = []"
| "str_contains (c # s) p \<longleftrightarrow> has_prefix (c # s) p \<or> str_contains s p"

lemma has_prefix_iff: "has_prefix s p \<longleftrightarrow> (\<exists>t. s = p @ t)"
  unfolding has_prefix_def by (metis append_take_drop_id append_eq_conv_conj)

lemma has_suffix_iff: "has_suffix s p \<longleftrightarrow> (\<exists>t. s = t @ p)"
proof
  assume "has_suffix s p"
  then show "\<exists>t. s = t @ p" unfolding has_suffix_def by (metis append_take_drop_id)
qed (auto simp: has_suffix_def)

lemma str_contains_iff: "str_contains s p \<longleftrightarrow> (\<exists>a b. s = a @ p @ b)"
proof (induction s)
  case (Cons c s)
  have "(\<exists>a b. c # s = a @ p @ b) \<longleftrightarrow> (\<exists>b. c # s = p @ b) \<or> (\<exists>a b. s = a @ p @ b)"
    by (metis append_Cons append_Nil append_eq_Cons_conv)
  with Cons show ?case by (simp add: has_prefix_iff)
qed simp

section \<open>Decimal text\<close>

definition digit_char :: "nat \<Rightarrow> char" where
  "digit_char n = ''0123456789'' ! n"

fun show_nat :: "nat \<Rightarrow> string" where
  "show_nat n = (if n < 10 then [digit_char n] else show_nat (n div 10) @ [digit_char (n mod 10)])"

declare show_nat.simps [simp del]

definition show_int :: "int \<Rightarrow> string" where
  "show_int i = (if i < 0 then CHR ''-'' # show_nat (nat (- i)) else show_nat (nat i))"

definition is_digit :: "char \<Rightarrow> bool" where
  "is_digit c \<longleftrightarrow> CHR ''0'' \<le> c \<and> c \<le> CHR ''9''"

definition is_upper :: "char \<Rightarrow> bool" where
  "is_upper c \<longleftrightarrow> CHR ''A'' \<le> c \<and> c \<le> CHR ''Z''"

definition is_lower :: "char \<Rightarrow> bool" where
  "is_lower c \<longleftrightarrow> CHR ''a'' \<le> c \<and> c \<le> CHR ''z''"

definition digit_val :: "char \<Rightarrow> nat" where
  "digit_val c = of_char c - 48"

fun read_nat_acc :: "nat \<Rightarrow> string \<Rightarrow> nat" where
  "read_nat_acc a [] = a"
| "read_nat_acc a (c # s) = read_nat_acc (10 * a + digit_val c) s"

abbreviation read_nat :: "string \<Rightarrow> nat" where
  "read_nat \<equiv> read_nat_acc 0"

lemma is_digit_code [simp]: "is_digit c \<longleftrightarrow> 48 \<le> (of_char c :: nat) \<and> (of_char c :: nat) \<le> 57"
  by (simp add: is_digit_def less_eq_char_def)

lemma nat_less_10_cases:
  "(n :: nat) < 10 \<Longrightarrow> n = 0 \<or> n = 1 \<or> n = 2 \<or> n = 3 \<or> n = 4 \<or> n = 5 \<or> n = 6 \<or> n = 7 \<or> n = 8 \<or> n = 9"
  by presburger

lemma digit_char_props:
  assumes "n < 10"
  shows "is_digit (digit_char n)" "digit_val (digit_char n) = n"
  using nat_less_10_cases[OF assms] by (auto simp: digit_char_def digit_val_def)

lemma read_nat_acc_append: "read_nat_acc a (s @ t) = read_nat_acc (read_nat_acc a s) t"
  by (induction s arbitrary: a) auto

lemma show_nat_digits: "\<forall>c \<in> set (show_nat n). is_digit c"
proof (induction n rule: show_nat.induct)
  case (1 n)
  then show ?case
    by (cases "n < 10") (auto simp: show_nat.simps[of n] digit_char_props simp del: is_digit_code)
qed

lemma show_nat_nonempty [simp]: "show_nat n \<noteq> []"
  by (subst show_nat.simps) simp

lemma read_show_nat [simp]: "read_nat (show_nat n) = n"
proof (induction n rule: show_nat.induct)
  case (1 n)
  then show ?case
    by (cases "n < 10")
      (auto simp: show_nat.simps[of n] read_nat_acc_append digit_char_props)
qed

lemma show_nat_inject [simp]: "show_nat m = show_nat n \<longleftrightarrow> m = n"
  by (metis read_show_nat)

section \<open>Blank text\<close>

text \<open>\<open>strings.TrimSpace(s) == ""\<close>: the UTF-8 text consists of the characters \<open>unicode.IsSpace\<close> accepts.
  \<open>strip_space\<close> drops one such character from the front.\<close>

definition bytes_of :: "string \<Rightarrow> nat list" where
  "bytes_of s = map of_char s"

fun strip_space :: "nat list \<Rightarrow> nat list option" where
  "strip_space [] = None"
| "strip_space (a # s) =
    (if (9 \<le> a \<and> a \<le> 13) \<or> a = 32 then Some s
     else case s of
       [] \<Rightarrow> None
     | b # s2 \<Rightarrow>
        if a = 194 \<and> (b = 133 \<or> b = 160) then Some s2
        else case s2 of
          [] \<Rightarrow> None
        | c # s3 \<Rightarrow>
           if (a = 225 \<and> b = 154 \<and> c = 128) \<or>
              (a = 226 \<and> b = 128 \<and> (128 \<le> c \<and> c \<le> 138 \<or> c = 168 \<or> c = 169 \<or> c = 175)) \<or>
              (a = 226 \<and> b = 129 \<and> c = 159) \<or>
              (a = 227 \<and> b = 128 \<and> c = 128)
           then Some s3 else None)"

lemma strip_space_shorter: "strip_space s = Some t \<Longrightarrow> length t < length s"
  by (cases s) (auto split: if_splits list.splits)

function blank_bytes :: "nat list \<Rightarrow> bool" where
  "blank_bytes s = (if s = [] then True else
     case strip_space s of None \<Rightarrow> False | Some t \<Rightarrow> blank_bytes t)"
  by auto
termination
  by (relation "measure length") (auto dest: strip_space_shorter)

declare blank_bytes.simps [simp del]

definition trimmed_empty :: "string \<Rightarrow> bool" where
  "trimmed_empty s \<longleftrightarrow> blank_bytes (bytes_of s)"

end
