(* ===== verification/ApiTypes.thy ===== *)
theory ApiTypes
  imports Prelude
begin

text \<open>
  The public declarations (\<^verbatim>\<open>src/api/v1alpha1/facet_types.go\<close>,
  \<^verbatim>\<open>src/api/v1alpha1/facet_access_policy_types.go\<close>) and the small identity types that several
  packages exchange (\<^verbatim>\<open>discovery.Scope\<close>, \<^verbatim>\<open>types.NamespacedName\<close>).  Enumerations that the API
  declares as open strings stay strings, because the code has to handle values outside the
  enumeration; a nil slice that the code distinguishes from an empty one is an \<open>option\<close>.
\<close>

section \<open>Shared identities\<close>

type_synonym UID = string

record NamespacedName =
  nn_namespace :: string
  nn_name :: string

datatype Scope = ScopeNamespaced | ScopeCluster | ScopeOther int

fun Scope_Valid :: "Scope \<Rightarrow> bool" where
  "Scope_Valid ScopeNamespaced = True"
| "Scope_Valid ScopeCluster = True"
| "Scope_Valid (ScopeOther i) = False"

text \<open>The two name grammars of \<^verbatim>\<open>k8s.io/apimachinery/pkg/util/validation\<close> the packages call.\<close>

record K8sValidation =
  isDNS1123Label :: "string \<Rightarrow> bool"
  isDNS1123Subdomain :: "string \<Rightarrow> bool"

section \<open>Discovery contracts\<close>

record GroupVersionResource =
  gvr_group :: string
  gvr_version :: string
  gvr_resource :: string

record SourceDescriptor =
  sd_sourceID :: string
  sd_apiVersion :: string
  sd_kind :: string

record Resolution =
  res_sourceID :: string
  res_resource :: GroupVersionResource
  res_scope :: Scope

datatype ResolutionErrorReason =
    UnknownType | DiscoveryUnavailable | InvalidDescriptor | AmbiguousResource | InvalidScope

record ResolutionError =
  re_sourceID :: string
  re_reason :: ResolutionErrorReason

section \<open>Access policy declarations\<close>

record NamespacePolicy =
  np_mode :: string
  np_include :: "string list"
  np_exclude :: "string list"
  np_systemNamespaces :: "string list option"

record ResourceRule =
  rr_apiGroups :: "string list"
  rr_kinds :: "string list"

record FacetAccessPolicy =
  fap_name :: string
  fap_uid :: UID
  fap_generation :: int
  fap_namespaces :: NamespacePolicy
  fap_resources :: "ResourceRule list"
  fap_allowClusterScoped :: bool

section \<open>Facet declarations\<close>

record ResourceReference =
  ref_apiVersion :: string
  ref_kind :: string

record LabelSelectorRequirement =
  lsr_key :: string
  lsr_operator :: string
  lsr_values :: "string list"

record ResourceSelector =
  rs_name :: string
  rs_matchLabels :: "(string \<times> string) list"
  rs_matchExpressions :: "LabelSelectorRequirement list"
  rs_fieldSelector :: string

record FacetOperatorOperand =
  op_state :: string
  op_stringValue :: "string option"
  op_integerValue :: "int option"
  op_numberValue :: "string option"
  op_booleanValue :: "bool option"
  op_timestampValue :: "string option"
  op_durationValue :: "string option"
  op_quantityValue :: "string option"
  op_objectValue :: "string option"
  op_listValue :: "string option"

record FacetOperator =
  fo_operator :: string
  fo_value :: "FacetOperatorOperand option"
  fo_values :: "FacetOperatorOperand list"

record FacetField =
  ff_name :: string
  ff_path :: string
  ff_type :: string
  ff_operators :: "FacetOperator list"

record FacetAggregation =
  fa_name :: string
  fa_function :: string
  fa_field :: string
  fa_groupBy :: "string list"
  fa_includeProvenance :: bool
  fa_precision :: "int option"
  fa_roundingMode :: string

record FacetSource =
  fs_id :: string
  fs_resource :: ResourceReference
  fs_namespaces :: "string list option"
  fs_selector :: "ResourceSelector option"
  fs_fields :: "FacetField list"
  fs_aggregations :: "FacetAggregation list"

section \<open>Result structures\<close>

record FacetResultError =
  fre_reason :: string
  fre_message :: string

record FacetFieldError =
  ffe_name :: string
  ffe_reason :: string
  ffe_message :: string

record FacetDurationValue =
  fdv_canonical :: string
  fdv_nanoseconds :: int

record FacetQuantityValue =
  fqv_canonical :: string
  fqv_baseUnits :: string

record FacetTypedMatch =
  ftm_state :: string
  ftm_string :: "string option"
  ftm_integer :: "int option"
  ftm_number :: "string option"
  ftm_boolean :: "bool option"
  ftm_timestamp :: "int option"
  ftm_duration :: "FacetDurationValue option"
  ftm_quantity :: "FacetQuantityValue option"
  ftm_object :: "string option"
  ftm_list :: "string option"

record FacetFieldResult =
  ffr_name :: string
  ffr_type :: string
  ffr_state :: string
  ffr_matches :: "FacetTypedMatch list"
  ffr_error :: "FacetResultError option"

record FacetResourceProvenance =
  prov_apiVersion :: string
  prov_kind :: string
  prov_namespace :: string
  prov_name :: string
  prov_uid :: UID

record FacetResourceResult =
  frr_provenance :: FacetResourceProvenance
  frr_fields :: "FacetFieldResult list"
  frr_error :: "FacetResultError option"

record FacetAggregateKey =
  fak_field :: string
  fak_type :: string
  fak_value :: FacetTypedMatch

record FacetAggregateMatch =
  fam_value :: FacetTypedMatch
  fam_contributors :: "FacetResourceProvenance list"

record FacetAggregateValue =
  fav_type :: string
  fav_state :: string
  fav_matches :: "FacetAggregateMatch list"

record FacetAggregateGroup =
  fag_keys :: "FacetAggregateKey list"
  fag_value :: FacetAggregateValue
  fag_contributors :: "FacetResourceProvenance list"

record FacetAggregateResourceFailure =
  farf_provenance :: FacetResourceProvenance
  farf_error :: FacetResultError

record FacetAggregateResult =
  far_name :: string
  far_function :: string
  far_field :: string
  far_state :: string
  far_groups :: "FacetAggregateGroup list"
  far_failures :: "FacetAggregateResourceFailure list"
  far_error :: "FacetResultError option"

record FacetSourceResult =
  fsr_id :: string
  fsr_state :: string
  fsr_fieldErrors :: "FacetFieldError list"
  fsr_resources :: "FacetResourceResult list"
  fsr_aggregates :: "FacetAggregateResult list"
  fsr_error :: "FacetResultError option"

type_synonym FacetResult = "FacetSourceResult list"

record FacetSummary =
  sum_successfulSources :: int
  sum_failedSources :: int
  sum_matchedResources :: int

end
