(* ===== verification/AccessPolicy.thy ===== *)
theory AccessPolicy
  imports ApiTypes
begin

text \<open>
  The installation access ceiling (\<^verbatim>\<open>src/internal/accesspolicy\<close>): validation and compilation
  (\<^verbatim>\<open>compiler.go\<close>), the pure decision procedure over a snapshot (\<^verbatim>\<open>evaluator.go\<close>) and the
  fail-closed loader (\<^verbatim>\<open>loader.go\<close>).

  Go's private lookup maps are sets.  Decision messages keep the data they format
  (\<open>decision_message\<close>); the text around it is presentation.  The specification \<open>policy_permits\<close> reads
  a declaration directly; the refinement lemma says that validating, compiling and evaluating decides
  exactly it.
\<close>

section \<open>Types\<close>

datatype PolicyReason =
    NoReason
  | ReasonAllowed
  | ReasonPolicyMissing
  | ReasonPolicyInvalid
  | ReasonPolicyUnavailable
  | ReasonInvalidRequest
  | ReasonResourceDenied
  | ReasonClusterScopeDenied
  | ReasonNamespaceDenied

record PolicyIdentity =
  pi_name :: string
  pi_uid :: UID
  pi_generation :: int

record validationIssue =
  vi_field :: string
  vi_message :: string

record CompiledPolicy =
  namespaceMode :: string
  includedNamespaces :: "string set"
  excludedNamespaces :: "string set"
  systemNamespaces :: "string set"
  allowedResources :: "(string \<times> string) set"
  allowClusterScoped :: bool
  policyIdentity :: PolicyIdentity
  hasPolicyIdentity :: bool

record Request =
  rq_sourceID :: string
  rq_apiGroup :: string
  rq_kind :: string
  rq_namespace :: string
  rq_scope :: Scope

datatype decision_message =
    PlainMessage string
  | PolicyStateMessage PolicyReason
  | ResourceOutsideMessage string string
  | NamespaceExcludedMessage string
  | NamespaceOutsideMessage string

record Decision =
  dec_allowed :: bool
  dec_reason :: PolicyReason
  dec_message :: decision_message

record Snapshot =
  snap_policy :: "CompiledPolicy option"
  snap_terminalReason :: PolicyReason
  snap_terminalMessage :: string
  snap_policyIdentity :: "PolicyIdentity option"

section \<open>Validation and compilation\<close>

fun is_alnum :: "char \<Rightarrow> bool" where
  "is_alnum c \<longleftrightarrow> is_upper c \<or> is_lower c \<or> is_digit c"

fun kindPattern :: "string \<Rightarrow> bool" where
  "kindPattern [] = False"
| "kindPattern (c # cs) = (is_upper c \<and> list_all is_alnum cs)"

definition item_field :: "string \<Rightarrow> nat \<Rightarrow> string" where
  "item_field fld i = fld @ ''['' @ show_nat i @ '']''"

text \<open>The loop shared by the three set validators: the first index of every value is remembered, a
  later occurrence is a duplicate, and every value is checked by \<open>bad\<close>.\<close>

fun validate_items ::
  "(string \<Rightarrow> bool) \<Rightarrow> string \<Rightarrow> string \<Rightarrow> nat \<Rightarrow> (string \<times> nat) list \<Rightarrow> string list \<Rightarrow> validationIssue list" where
  "validate_items bad msg fld i seen [] = []"
| "validate_items bad msg fld i seen (v # vs) =
    (let dup = (case lookup seen v of
            Some prev \<Rightarrow> [\<lparr>vi_field = item_field fld i, vi_message = ''duplicates entry at index '' @ show_nat prev\<rparr>]
          | None \<Rightarrow> []);
         seen' = (case lookup seen v of Some prev \<Rightarrow> seen | None \<Rightarrow> (v, i) # seen);
         wrong = (if bad v then [\<lparr>vi_field = item_field fld i, vi_message = msg\<rparr>] else [])
     in dup @ wrong @ validate_items bad msg fld (Suc i) seen' vs)"

definition validateNamespaceSet :: "K8sValidation \<Rightarrow> string \<Rightarrow> string list \<Rightarrow> validationIssue list" where
  "validateNamespaceSet k fld vs =
     validate_items (\<lambda>v. \<not> isDNS1123Label k v) ''must be a valid DNS-1123 namespace name'' fld 0 [] vs"

definition validateResourceGroups :: "K8sValidation \<Rightarrow> string \<Rightarrow> string list \<Rightarrow> validationIssue list" where
  "validateResourceGroups k fld vs =
     validate_items (\<lambda>v. v \<noteq> [] \<and> \<not> isDNS1123Subdomain k v)
       ''must be empty for the core API group or a valid DNS-1123 subdomain'' fld 0 [] vs"

definition validateKinds :: "string \<Rightarrow> string list \<Rightarrow> validationIssue list" where
  "validateKinds fld vs =
     validate_items (\<lambda>v. length v > 63 \<or> \<not> kindPattern v)
       ''must be a CamelCase Kubernetes Kind without wildcards'' fld 0 [] vs"

definition issue_less :: "validationIssue \<Rightarrow> validationIssue \<Rightarrow> bool" where
  "issue_less a b =
     (if vi_field a \<noteq> vi_field b then vi_field a < vi_field b else vi_message a < vi_message b)"

fun validateRules :: "K8sValidation \<Rightarrow> nat \<Rightarrow> ResourceRule list \<Rightarrow> validationIssue list" where
  "validateRules k i [] = []"
| "validateRules k i (rule # rules) =
    (let prefix = ''spec.resources['' @ show_nat i @ '']'';
         groupsField = prefix @ ''.apiGroups''; kindsField = prefix @ ''.kinds'' in
     (if rr_apiGroups rule = []
        then [\<lparr>vi_field = groupsField, vi_message = ''must contain at least one API group''\<rparr>]
        else validateResourceGroups k groupsField (rr_apiGroups rule)) @
     (if rr_kinds rule = []
        then [\<lparr>vi_field = kindsField, vi_message = ''must contain at least one Kind''\<rparr>]
        else validateKinds kindsField (rr_kinds rule)) @
     validateRules k (Suc i) rules)"

definition validatePolicy :: "K8sValidation \<Rightarrow> FacetAccessPolicy option \<Rightarrow> validationIssue list" where
  "validatePolicy k policy = (case policy of
      None \<Rightarrow> [\<lparr>vi_field = ''policy'', vi_message = ''must not be nil''\<rparr>]
    | Some p \<Rightarrow>
       (let ns = fap_namespaces p in
        sort_by issue_less (
          (if fap_name p \<noteq> ''installation-access-ceiling''
             then [\<lparr>vi_field = ''metadata.name'', vi_message = ''must be installation-access-ceiling''\<rparr>] else []) @
          (if np_mode ns \<in> {''Explicit'', ''All'', ''AllNonSystem''} then []
             else [\<lparr>vi_field = ''spec.namespaces.mode'', vi_message = ''must be Explicit, All, or AllNonSystem''\<rparr>]) @
          validateNamespaceSet k ''spec.namespaces.include'' (np_include ns) @
          validateNamespaceSet k ''spec.namespaces.exclude'' (np_exclude ns) @
          (case np_systemNamespaces ns of
             None \<Rightarrow> []
           | Some sys \<Rightarrow> validateNamespaceSet k ''spec.namespaces.systemNamespaces'' sys) @
          validateRules k 0 (fap_resources p))))"

record PolicyError =
  pe_reason :: PolicyReason
  pe_field :: string
  pe_message :: string

definition Validate :: "K8sValidation \<Rightarrow> FacetAccessPolicy option \<Rightarrow> PolicyError list" where
  "Validate k policy =
     map (\<lambda>i. \<lparr>pe_reason = ReasonPolicyInvalid, pe_field = vi_field i, pe_message = vi_message i\<rparr>)
       (validatePolicy k policy)"

definition identity_of :: "FacetAccessPolicy \<Rightarrow> PolicyIdentity" where
  "identity_of p = \<lparr>pi_name = fap_name p, pi_uid = fap_uid p, pi_generation = fap_generation p\<rparr>"

definition compile_rules :: "ResourceRule list \<Rightarrow> (string \<times> string) set" where
  "compile_rules rules =
     set (concat (map (\<lambda>r. concat (map (\<lambda>g. map (\<lambda>kd. (g, kd)) (rr_kinds r)) (rr_apiGroups r))) rules))"

definition Compile :: "K8sValidation \<Rightarrow> FacetAccessPolicy option \<Rightarrow> (PolicyError, CompiledPolicy) res" where
  "Compile k policy = (case Validate k policy of
      e # es \<Rightarrow> Inl e
    | [] \<Rightarrow> (case policy of
         None \<Rightarrow> Inl \<lparr>pe_reason = ReasonPolicyInvalid, pe_field = ''policy'', pe_message = ''must not be nil''\<rparr>
       | Some p \<Rightarrow>
          (let ns = fap_namespaces p;
               sys = (case np_systemNamespaces ns of
                   None \<Rightarrow> [''kube-system'', ''kube-public'', ''kube-node-lease'']
                 | Some s \<Rightarrow> s) in
           Inr \<lparr>namespaceMode = np_mode ns, includedNamespaces = set (np_include ns),
                excludedNamespaces = set (np_exclude ns), systemNamespaces = set sys,
                allowedResources = compile_rules (fap_resources p),
                allowClusterScoped = fap_allowClusterScoped p,
                policyIdentity = identity_of p, hasPolicyIdentity = True\<rparr>)))"

section \<open>Snapshots and evaluation\<close>

definition denyAllSnapshot :: "PolicyReason \<Rightarrow> string \<Rightarrow> PolicyIdentity option \<Rightarrow> Snapshot" where
  "denyAllSnapshot reason msg ident =
     (let r = (if reason \<in> {ReasonPolicyMissing, ReasonPolicyInvalid, ReasonPolicyUnavailable} then reason
               else ReasonPolicyUnavailable) in
      \<lparr>snap_policy = None, snap_terminalReason = r, snap_terminalMessage = msg, snap_policyIdentity = ident\<rparr>)"

definition NewDenyAllSnapshot :: "PolicyReason \<Rightarrow> string \<Rightarrow> Snapshot" where
  "NewDenyAllSnapshot reason msg = denyAllSnapshot reason msg None"

definition NewDenyAllSnapshotWithIdentity :: "PolicyReason \<Rightarrow> string \<Rightarrow> PolicyIdentity \<Rightarrow> Snapshot" where
  "NewDenyAllSnapshotWithIdentity reason msg ident = denyAllSnapshot reason msg (Some ident)"

definition NewSnapshot :: "CompiledPolicy option \<Rightarrow> Snapshot" where
  "NewSnapshot policy = (case policy of
      None \<Rightarrow> NewDenyAllSnapshot ReasonPolicyInvalid ''compiled policy is unavailable''
    | Some cp \<Rightarrow> \<lparr>snap_policy = Some cp, snap_terminalReason = NoReason, snap_terminalMessage = [],
        snap_policyIdentity = (if hasPolicyIdentity cp then Some (policyIdentity cp) else None)\<rparr>)"

definition NewSnapshotWithIdentity :: "CompiledPolicy option \<Rightarrow> PolicyIdentity \<Rightarrow> Snapshot" where
  "NewSnapshotWithIdentity policy ident = (NewSnapshot policy)\<lparr>snap_policyIdentity := Some ident\<rparr>"

definition validateRequest :: "K8sValidation \<Rightarrow> Request \<Rightarrow> string" where
  "validateRequest k r =
    (if \<not> Scope_Valid (rq_scope r) then ''request scope must be namespaced or cluster''
     else if rq_kind r = [] \<or> \<not> kindPattern (rq_kind r) \<or> length (rq_kind r) > 63
       then ''request Kind is missing or not normalized''
     else if rq_apiGroup r \<noteq> [] \<and> \<not> isDNS1123Subdomain k (rq_apiGroup r)
       then ''request API group is not normalized''
     else if rq_scope r = ScopeNamespaced then
       (if rq_namespace r = [] then ''request namespace is required for a namespaced resource''
        else if \<not> isDNS1123Label k (rq_namespace r) then ''request namespace is not normalized''
        else [])
     else [])"

definition allowedDecision :: Decision where
  "allowedDecision = \<lparr>dec_allowed = True, dec_reason = ReasonAllowed,
     dec_message = PlainMessage ''request is allowed by the installation policy''\<rparr>"

abbreviation deny :: "PolicyReason \<Rightarrow> decision_message \<Rightarrow> Decision" where
  "deny r m \<equiv> \<lparr>dec_allowed = False, dec_reason = r, dec_message = m\<rparr>"

definition namespace_allowed :: "CompiledPolicy \<Rightarrow> string \<Rightarrow> bool" where
  "namespace_allowed p n =
    (if namespaceMode p = ''Explicit'' then n \<in> includedNamespaces p
     else if namespaceMode p = ''All'' then True
     else if namespaceMode p = ''AllNonSystem'' then
       (if n \<in> includedNamespaces p then True else n \<notin> systemNamespaces p)
     else False)"

definition Evaluate :: "K8sValidation \<Rightarrow> Snapshot \<Rightarrow> Request \<Rightarrow> Decision" where
  "Evaluate k s r =
    (if snap_terminalReason s \<noteq> NoReason then
       deny (snap_terminalReason s)
         (if snap_terminalMessage s = [] then PolicyStateMessage (snap_terminalReason s)
          else PlainMessage (snap_terminalMessage s))
     else case snap_policy s of
       None \<Rightarrow> deny ReasonPolicyInvalid
         (PlainMessage ''observation denied because policy state is PolicyInvalid'')
     | Some p \<Rightarrow>
        if validateRequest k r \<noteq> [] then deny ReasonInvalidRequest (PlainMessage (validateRequest k r))
        else if (rq_apiGroup r, rq_kind r) \<notin> allowedResources p then
          deny ReasonResourceDenied (ResourceOutsideMessage (rq_apiGroup r) (rq_kind r))
        else if rq_scope r = ScopeCluster then
          (if \<not> allowClusterScoped p then
             deny ReasonClusterScopeDenied
               (PlainMessage ''cluster-scoped access is disabled by the installation policy'')
           else allowedDecision)
        else if rq_namespace r \<in> excludedNamespaces p then
          deny ReasonNamespaceDenied (NamespaceExcludedMessage (rq_namespace r))
        else if \<not> namespace_allowed p (rq_namespace r) then
          deny ReasonNamespaceDenied (NamespaceOutsideMessage (rq_namespace r))
        else allowedDecision)"

section \<open>Loading\<close>

datatype source_error = SourceNotFound | SourceFailed

text \<open>The message of a \<^verbatim>\<open>PolicyError\<close>, as its \<^verbatim>\<open>Error\<close> method formats it for the only reason
  \<open>Compile\<close> produces.\<close>

definition PolicyError_Error :: "PolicyError \<Rightarrow> string" where
  "PolicyError_Error e =
    (if pe_field e = [] then ''policy: PolicyInvalid: '' @ pe_message e
     else ''policy PolicyInvalid at '' @ pe_field e @ '': '' @ pe_message e)"

text \<open>\<open>source\<close> is the outcome of \<^verbatim>\<open>PolicySource.Get\<close> (\<open>None\<close> when no source is configured, \<open>Inr None\<close> for a
  nil policy), \<open>validate\<close> the optional pre-compilation guard (\<open>True\<close>: it accepts).\<close>

definition LoadWithValidation ::
  "K8sValidation \<Rightarrow> (source_error, FacetAccessPolicy option) res option \<Rightarrow>
   (FacetAccessPolicy \<Rightarrow> bool) option \<Rightarrow> Snapshot" where
  "LoadWithValidation k source validate = (case source of
      None \<Rightarrow> NewDenyAllSnapshot ReasonPolicyUnavailable ''policy is unavailable; observation denied''
    | Some (Inl SourceNotFound) \<Rightarrow>
        NewDenyAllSnapshot ReasonPolicyMissing ''policy is missing; observation denied''
    | Some (Inl SourceFailed) \<Rightarrow>
        NewDenyAllSnapshot ReasonPolicyUnavailable ''policy is unavailable; observation denied''
    | Some (Inr None) \<Rightarrow>
        NewDenyAllSnapshot ReasonPolicyInvalid ''policy is invalid; observation denied''
    | Some (Inr (Some p)) \<Rightarrow>
        (if (case validate of None \<Rightarrow> False | Some f \<Rightarrow> \<not> f p) then
           NewDenyAllSnapshotWithIdentity ReasonPolicyInvalid
             ''policy is invalid; observation denied'' (identity_of p)
         else case Compile k (Some p) of
           Inl e \<Rightarrow> NewDenyAllSnapshotWithIdentity ReasonPolicyInvalid (PolicyError_Error e) (identity_of p)
         | Inr cp \<Rightarrow> NewSnapshotWithIdentity (Some cp) (identity_of p)))"

definition Load :: "K8sValidation \<Rightarrow> (source_error, FacetAccessPolicy option) res option \<Rightarrow> Snapshot" where
  "Load k source = LoadWithValidation k source None"

section \<open>Specification\<close>

definition rules_cover :: "ResourceRule list \<Rightarrow> string \<Rightarrow> string \<Rightarrow> bool" where
  "rules_cover rules g kd \<longleftrightarrow> (\<exists>r \<in> set rules. g \<in> set (rr_apiGroups r) \<and> kd \<in> set (rr_kinds r))"

definition namespace_permitted :: "NamespacePolicy \<Rightarrow> string \<Rightarrow> bool" where
  "namespace_permitted ns n \<longleftrightarrow>
     n \<notin> set (np_exclude ns) \<and>
     (np_mode ns = ''All''
      \<or> np_mode ns \<in> {''Explicit'', ''AllNonSystem''} \<and> n \<in> set (np_include ns)
      \<or> np_mode ns = ''AllNonSystem'' \<and>
        n \<notin> set (case np_systemNamespaces ns of
            None \<Rightarrow> [''kube-system'', ''kube-public'', ''kube-node-lease''] | Some s \<Rightarrow> s))"

definition policy_permits :: "FacetAccessPolicy \<Rightarrow> Request \<Rightarrow> bool" where
  "policy_permits p r \<longleftrightarrow>
     rules_cover (fap_resources p) (rq_apiGroup r) (rq_kind r) \<and>
     (if rq_scope r = ScopeCluster then fap_allowClusterScoped p
      else namespace_permitted (fap_namespaces p) (rq_namespace r))"

text \<open>A declaration that the validator accepts, stated without the issue lists.\<close>

definition well_formed_policy :: "K8sValidation \<Rightarrow> FacetAccessPolicy \<Rightarrow> bool" where
  "well_formed_policy k p \<longleftrightarrow>
     fap_name p = ''installation-access-ceiling'' \<and>
     np_mode (fap_namespaces p) \<in> {''Explicit'', ''All'', ''AllNonSystem''} \<and>
     (\<forall>ns \<in> {np_include (fap_namespaces p), np_exclude (fap_namespaces p)} \<union>
        set_option (np_systemNamespaces (fap_namespaces p)).
        distinct ns \<and> list_all (isDNS1123Label k) ns) \<and>
     (\<forall>r \<in> set (fap_resources p).
        rr_apiGroups r \<noteq> [] \<and> distinct (rr_apiGroups r) \<and>
        (\<forall>g \<in> set (rr_apiGroups r). g = [] \<or> isDNS1123Subdomain k g) \<and>
        rr_kinds r \<noteq> [] \<and> distinct (rr_kinds r) \<and>
        (\<forall>kd \<in> set (rr_kinds r). length kd \<le> 63 \<and> kindPattern kd))"

section \<open>Lemmas\<close>

interpretation issue_order: strict_weak_order issue_less
proof unfold_locales
  fix a b c
  show "issue_less a b \<Longrightarrow> \<not> issue_less b a"
    by (auto simp: issue_less_def split: if_splits)
  show "\<not> issue_less a b \<Longrightarrow> \<not> issue_less b c \<Longrightarrow> \<not> issue_less a c"
    by (auto simp: issue_less_def split: if_splits)
qed

lemma lookup_None_iff: "lookup m v = None \<longleftrightarrow> v \<notin> fst ` set m"
  by (simp add: lookup_map_of map_of_eq_None_iff)

lemma validate_items_empty_iff:
  "validate_items bad msg fld i seen vs = [] \<longleftrightarrow>
     distinct vs \<and> set vs \<inter> fst ` set seen = {} \<and> (\<forall>v \<in> set vs. \<not> bad v)"
proof (induction vs arbitrary: i seen)
  case (Cons v vs)
  show ?case
  proof (cases "lookup seen v")
    case None
    moreover from this have "v \<notin> fst ` set seen" by (simp add: lookup_None_iff)
    ultimately show ?thesis using Cons.IH[of "Suc i" "(v, i) # seen"] by (auto simp: Let_def)
  next
    case (Some prev)
    then have "v \<in> fst ` set seen" using lookup_None_iff[of seen v] by auto
    with Some show ?thesis by (auto simp: Let_def)
  qed
qed simp

lemma validateRules_empty_iff:
  "validateRules k i rules = [] \<longleftrightarrow>
     (\<forall>r \<in> set rules.
        rr_apiGroups r \<noteq> [] \<and> distinct (rr_apiGroups r) \<and>
        (\<forall>g \<in> set (rr_apiGroups r). g = [] \<or> isDNS1123Subdomain k g) \<and>
        rr_kinds r \<noteq> [] \<and> distinct (rr_kinds r) \<and>
        (\<forall>kd \<in> set (rr_kinds r). length kd \<le> 63 \<and> kindPattern kd))"
  by (induction rules arbitrary: i)
    (auto simp: Let_def validateResourceGroups_def validateKinds_def validate_items_empty_iff not_less)

lemma sort_by_empty_iff [simp]: "sort_by lt xs = [] \<longleftrightarrow> xs = []"
  by (metis length_0_conv length_sort_by)

lemma Validate_empty_iff: "Validate k (Some p) = [] \<longleftrightarrow> well_formed_policy k p"
  by (auto simp: Validate_def validatePolicy_def well_formed_policy_def Let_def
      validateNamespaceSet_def validate_items_empty_iff validateRules_empty_iff list_all_iff
      split: option.splits)

lemma Validate_None: "Validate k None \<noteq> []"
  by (simp add: Validate_def validatePolicy_def)

lemma Compile_Inr_iff:
  "(\<exists>cp. Compile k policy = Inr cp) \<longleftrightarrow> (\<exists>p. policy = Some p \<and> well_formed_policy k p)"
  using Validate_None[of k]
  by (cases policy; cases "Validate k policy")
    (auto simp: Compile_def Let_def simp flip: Validate_empty_iff)

lemma compile_rules_iff: "(g, kd) \<in> compile_rules rules \<longleftrightarrow> rules_cover rules g kd"
  by (auto simp: compile_rules_def rules_cover_def)

lemma Evaluate_allowed_iff:
  "dec_allowed (Evaluate k s r) \<longleftrightarrow>
    snap_terminalReason s = NoReason \<and>
    (\<exists>p. snap_policy s = Some p \<and> validateRequest k r = [] \<and>
      (rq_apiGroup r, rq_kind r) \<in> allowedResources p \<and>
      (if rq_scope r = ScopeCluster then allowClusterScoped p
       else rq_namespace r \<notin> excludedNamespaces p \<and> namespace_allowed p (rq_namespace r)))"
  by (auto simp: Evaluate_def allowedDecision_def split: option.splits)

lemma Evaluate_reason_allowed: "dec_reason (Evaluate k s r) = ReasonAllowed \<Longrightarrow>
    snap_terminalReason s \<noteq> ReasonAllowed \<Longrightarrow> dec_allowed (Evaluate k s r)"
  by (auto simp: Evaluate_def allowedDecision_def split: option.splits if_splits)

lemma Evaluate_allowed_reason: "dec_allowed (Evaluate k s r) \<Longrightarrow> dec_reason (Evaluate k s r) = ReasonAllowed"
  by (auto simp: Evaluate_def allowedDecision_def split: option.splits if_splits)

lemma Evaluate_compiled:
  assumes "Compile k (Some p) = Inr cp" "snap_policy s = Some cp" "snap_terminalReason s = NoReason"
  shows "dec_allowed (Evaluate k s r) \<longleftrightarrow> validateRequest k r = [] \<and> policy_permits p r"
proof -
  have "well_formed_policy k p" using assms(1) Compile_Inr_iff[of k "Some p"] by auto
  then have mode: "np_mode (fap_namespaces p) \<in> {''Explicit'', ''All'', ''AllNonSystem''}"
    by (simp add: well_formed_policy_def)
  have cp: "cp = \<lparr>namespaceMode = np_mode (fap_namespaces p),
      includedNamespaces = set (np_include (fap_namespaces p)),
      excludedNamespaces = set (np_exclude (fap_namespaces p)),
      systemNamespaces = set (case np_systemNamespaces (fap_namespaces p) of
          None \<Rightarrow> [''kube-system'', ''kube-public'', ''kube-node-lease''] | Some s \<Rightarrow> s),
      allowedResources = compile_rules (fap_resources p),
      allowClusterScoped = fap_allowClusterScoped p,
      policyIdentity = identity_of p, hasPolicyIdentity = True\<rparr>"
    using assms(1) by (auto simp: Compile_def Let_def split: list.splits)
  show ?thesis
    using mode assms(2,3) unfolding Evaluate_allowed_iff cp
    by (auto simp: compile_rules_iff policy_permits_def namespace_permitted_def namespace_allowed_def)
qed

lemma LoadWithValidation_allowed_iff:
  "dec_allowed (Evaluate k (LoadWithValidation k source validate) r) \<longleftrightarrow>
    (\<exists>p. source = Some (Inr (Some p)) \<and> (\<forall>f. validate = Some f \<longrightarrow> f p) \<and>
      well_formed_policy k p \<and> validateRequest k r = [] \<and> policy_permits p r)"
  (is "?lhs \<longleftrightarrow> ?rhs")
proof (cases "\<exists>p cp. source = Some (Inr (Some p)) \<and> (\<forall>f. validate = Some f \<longrightarrow> f p) \<and> Compile k (Some p) = Inr cp")
  case True
  then obtain p cp where p: "source = Some (Inr (Some p))" "\<forall>f. validate = Some f \<longrightarrow> f p"
    "Compile k (Some p) = Inr cp" by (elim exE conjE)
  have wf: "well_formed_policy k p" using p(3) Compile_Inr_iff[of k "Some p"] by auto
  have "LoadWithValidation k source validate = NewSnapshotWithIdentity (Some cp) (identity_of p)"
    using p by (auto simp: LoadWithValidation_def split: option.splits)
  then have "?lhs \<longleftrightarrow> validateRequest k r = [] \<and> policy_permits p r"
    using Evaluate_compiled[OF p(3)]
    by (simp add: NewSnapshotWithIdentity_def NewSnapshot_def)
  then show ?thesis using p wf by auto
next
  case False
  have "\<not> ?rhs"
  proof
    assume ?rhs
    then obtain p where p: "source = Some (Inr (Some p))" "\<forall>f. validate = Some f \<longrightarrow> f p"
      "well_formed_policy k p" by (elim exE conjE)
    from p(3) have "\<exists>cp. Compile k (Some p) = Inr cp" unfolding Compile_Inr_iff by simp
    with p(1,2) False show False by metis
  qed
  moreover have "snap_terminalReason (LoadWithValidation k source validate) \<noteq> NoReason"
    using False
    by (auto simp: LoadWithValidation_def NewDenyAllSnapshot_def NewDenyAllSnapshotWithIdentity_def
        denyAllSnapshot_def split: option.splits sum.splits source_error.splits)
  ultimately show ?thesis by (simp add: Evaluate_allowed_iff)
qed

section \<open>Properties\<close>

text \<open>C8: refinement of the declaration: for every outcome of the policy source, a request is allowed by the
  loaded snapshot exactly when the source returned a policy that the optional guard and the validator accept, the
  request is normalized, and the declaration itself permits the request.  All other outcomes deny.\<close>

theorem Load_refines_declaration:
  "dec_allowed (Evaluate k (LoadWithValidation k source validate) r) \<longleftrightarrow>
    (\<exists>p. source = Some (Inr (Some p)) \<and> (case validate of None \<Rightarrow> True | Some f \<Rightarrow> f p) \<and>
      well_formed_policy k p \<and> validateRequest k r = [] \<and> policy_permits p r)"
  unfolding LoadWithValidation_allowed_iff by (cases validate) auto

text \<open>Validation reports nothing exactly for the well-formed declarations, its issues come in (field,
  message) order, and the compiler returns the first of them.\<close>

theorem Validate_characterized:
  "(Validate k (Some p) = [] \<longleftrightarrow> well_formed_policy k p) \<and>
   sorted_wrt (\<lambda>a b. pe_field a < pe_field b \<or> pe_field a = pe_field b \<and> pe_message a \<le> pe_message b)
     (Validate k (Some p)) \<and>
   (case Validate k (Some p) of [] \<Rightarrow> ok (Compile k (Some p)) | e # _ \<Rightarrow> Compile k (Some p) = Inl e)"
proof (intro conjI)
  show "Validate k (Some p) = [] \<longleftrightarrow> well_formed_policy k p" by (rule Validate_empty_iff)
  have "sorted_wrt (\<lambda>a b. \<not> issue_less b a) (validatePolicy k (Some p))"
    by (simp add: validatePolicy_def Let_def issue_order.sorted_sort_by)
  then have "sorted_wrt (\<lambda>a b. vi_field a < vi_field b \<or> vi_field a = vi_field b \<and> vi_message a \<le> vi_message b)
    (validatePolicy k (Some p))"
    by (rule sorted_wrt_mono_rel[rotated]) (auto simp: issue_less_def split: if_splits)
  then show "sorted_wrt (\<lambda>a b. pe_field a < pe_field b \<or> pe_field a = pe_field b \<and> pe_message a \<le> pe_message b)
    (Validate k (Some p))"
    by (simp add: Validate_def sorted_wrt_map)
  show "case Validate k (Some p) of [] \<Rightarrow> ok (Compile k (Some p)) | e # _ \<Rightarrow> Compile k (Some p) = Inl e"
    by (simp add: Compile_def Let_def split: list.splits)
qed

end
