(* ===== verification/Authorization.thy ===== *)
theory Authorization
  imports AccessPolicy
begin

text \<open>
  Capabilities (\<^verbatim>\<open>src/internal/authorization\<close>): the subject of a reconciliation, the sanitized
  evidence records, and the enforcer that mints one opaque capability per allowed request
  (\<^verbatim>\<open>contracts.go\<close>, \<^verbatim>\<open>enforcer.go\<close>).  The recorder has no result, so its call is modelled by the
  records it receives.  Defensive copies are identities on values.
\<close>

section \<open>Types\<close>

record Subject =
  sub_key :: NamespacedName
  sub_uid :: UID
  sub_generation :: int
  sub_policyEpoch :: "64 word"

datatype subject_error = SubjectNameRequired | SubjectUIDRequired | SubjectGenerationNotPositive

datatype PolicyState = PolicyStateUnset | PolicyReady | PolicyMissing | PolicyInvalid | PolicyUnavailable

datatype RecordKind = RecordKindUnset | RecordPolicyDecision | RecordReadForbidden

datatype auth_outcome = OutcomeUnset | OutcomeAllowed | OutcomeDenied | OutcomeUnavailable | OutcomeForbidden

datatype record_reason = PolicyReasonText PolicyReason | ReadForbiddenText

record AuthRecord =
  rec_kind :: RecordKind
  rec_subject :: Subject
  rec_sourceID :: string
  rec_apiGroup :: string
  rec_kindName :: string
  rec_scope :: Scope
  rec_namespace :: string
  rec_policyState :: PolicyState
  rec_policyIdentity :: "PolicyIdentity option"
  rec_outcome :: auth_outcome
  rec_reason :: record_reason

record Capability =
  cap_subject :: Subject
  cap_request :: Request
  cap_record :: AuthRecord

record DecisionOutcome =
  do_request :: Request
  do_decision :: Decision
  do_record :: AuthRecord
  do_capability :: "Capability option"

datatype authorization_error = InvalidSubject subject_error | ContextCanceled

text \<open>Go's zero values, which a caller outside the package can always produce.\<close>

definition zero_request :: Request where
  "zero_request = \<lparr>rq_sourceID = [], rq_apiGroup = [], rq_kind = [], rq_namespace = [], rq_scope = ScopeNamespaced\<rparr>"

definition zero_subject :: Subject where
  "zero_subject = \<lparr>sub_key = \<lparr>nn_namespace = [], nn_name = []\<rparr>, sub_uid = [], sub_generation = 0, sub_policyEpoch = 0\<rparr>"

definition zero_record :: AuthRecord where
  "zero_record = \<lparr>rec_kind = RecordKindUnset, rec_subject = zero_subject, rec_sourceID = [], rec_apiGroup = [],
     rec_kindName = [], rec_scope = ScopeNamespaced, rec_namespace = [], rec_policyState = PolicyStateUnset,
     rec_policyIdentity = None, rec_outcome = OutcomeUnset, rec_reason = PolicyReasonText NoReason\<rparr>"

definition zero_capability :: Capability where
  "zero_capability = \<lparr>cap_subject = zero_subject, cap_request = zero_request, cap_record = zero_record\<rparr>"

section \<open>Operations\<close>

definition Subject_Validate :: "Subject \<Rightarrow> (subject_error, unit) res" where
  "Subject_Validate s =
    (if nn_namespace (sub_key s) = [] \<or> nn_name (sub_key s) = [] then Inl SubjectNameRequired
     else if sub_uid s = [] then Inl SubjectUIDRequired
     else if sub_generation s \<le> 0 then Inl SubjectGenerationNotPositive
     else Inr ())"

definition NewSubject :: "NamespacedName \<Rightarrow> UID \<Rightarrow> int \<Rightarrow> 64 word \<Rightarrow> (subject_error, Subject) res" where
  "NewSubject key uid gen epoch =
    (let s = \<lparr>sub_key = key, sub_uid = uid, sub_generation = gen, sub_policyEpoch = epoch\<rparr> in
     res_bind (Subject_Validate s) (\<lambda>_. Inr s))"

definition validRequest :: "Request \<Rightarrow> bool" where
  "validRequest r =
    (if rq_sourceID r = [] \<or> rq_kind r = [] \<or> \<not> Scope_Valid (rq_scope r) then False
     else if rq_scope r = ScopeNamespaced then rq_namespace r \<noteq> []
     else rq_namespace r = [])"

definition Capability_Valid :: "Capability \<Rightarrow> bool" where
  "Capability_Valid c \<longleftrightarrow>
     ok (Subject_Validate (cap_subject c)) \<and> validRequest (cap_request c) \<and>
     rec_kind (cap_record c) = RecordPolicyDecision \<and>
     rec_outcome (cap_record c) = OutcomeAllowed \<and>
     rec_reason (cap_record c) = PolicyReasonText ReasonAllowed"

text \<open>\<open>verifier\<close> is \<open>None\<close> for a nil verifier.\<close>

definition Capability_IsCurrent :: "Capability \<Rightarrow> (Subject \<Rightarrow> bool) option \<Rightarrow> bool" where
  "Capability_IsCurrent c verifier \<longleftrightarrow>
     Capability_Valid c \<and> (case verifier of None \<Rightarrow> False | Some is_current \<Rightarrow> is_current (cap_subject c))"

definition recordFor :: "Subject \<Rightarrow> Request \<Rightarrow> Snapshot \<Rightarrow> Decision \<Rightarrow> AuthRecord" where
  "recordFor subject r snapshot d =
     \<lparr>rec_kind = RecordPolicyDecision, rec_subject = subject,
      rec_sourceID = rq_sourceID r, rec_apiGroup = rq_apiGroup r, rec_kindName = rq_kind r,
      rec_scope = rq_scope r, rec_namespace = rq_namespace r,
      rec_policyState = (case snap_terminalReason snapshot of
          ReasonPolicyMissing \<Rightarrow> PolicyMissing
        | ReasonPolicyInvalid \<Rightarrow> PolicyInvalid
        | ReasonPolicyUnavailable \<Rightarrow> PolicyUnavailable
        | _ \<Rightarrow> PolicyReady),
      rec_policyIdentity = snap_policyIdentity snapshot,
      rec_outcome = (if dec_allowed d \<and> dec_reason d = ReasonAllowed then OutcomeAllowed
        else if dec_reason d = ReasonPolicyUnavailable then OutcomeUnavailable else OutcomeDenied),
      rec_reason = PolicyReasonText (dec_reason d)\<rparr>"

definition decide :: "K8sValidation \<Rightarrow> Subject \<Rightarrow> Snapshot \<Rightarrow> Request \<Rightarrow> DecisionOutcome" where
  "decide k subject snapshot r =
    (let d = Evaluate k snapshot r; rcd = recordFor subject r snapshot d in
     \<lparr>do_request = r, do_decision = d, do_record = rcd,
      do_capability = (if dec_allowed d \<and> dec_reason d = ReasonAllowed
        then Some \<lparr>cap_subject = subject, cap_request = r, cap_record = rcd\<rparr> else None)\<rparr>)"

fun decide_all ::
  "K8sValidation \<Rightarrow> Subject \<Rightarrow> Snapshot \<Rightarrow> ctx \<Rightarrow> Request list \<Rightarrow> (authorization_error, DecisionOutcome list) res" where
  "decide_all k subject snapshot c [] = Inr []"
| "decide_all k subject snapshot c (r # rs) =
    (case ctx_err c of
       (True, _) \<Rightarrow> Inl ContextCanceled
     | (False, c') \<Rightarrow> res_bind (decide_all k subject snapshot c' rs)
         (\<lambda>os. Inr (decide k subject snapshot r # os)))"

text \<open>The result and the records handed to the recorder (\<open>None\<close>: it is not called).\<close>

definition EvaluateBatch ::
  "K8sValidation \<Rightarrow> ctx \<Rightarrow> Subject \<Rightarrow> Snapshot \<Rightarrow> Request list \<Rightarrow>
   (authorization_error, DecisionOutcome list) res \<times> AuthRecord list option" where
  "EvaluateBatch k c subject snapshot requests =
    (case Subject_Validate subject of
       Inl e \<Rightarrow> (Inl (InvalidSubject e), None)
     | Inr _ \<Rightarrow> (case ctx_err c of
         (True, _) \<Rightarrow> (Inl ContextCanceled, None)
       | (False, c') \<Rightarrow> (case decide_all k subject snapshot c' requests of
           Inl e \<Rightarrow> (Inl e, None)
         | Inr os \<Rightarrow> (Inr os, Some (map do_record os)))))"

section \<open>Lemmas\<close>

lemma decide_all_Inr:
  "decide_all k subject snapshot c rs = Inr os \<Longrightarrow> os = map (decide k subject snapshot) rs"
  by (induction rs arbitrary: c os) (auto simp: res_bind_Inr_iff split: prod.splits bool.splits)

lemma decide_all_never_cancelled:
  "decide_all k subject snapshot None rs = Inr (map (decide k subject snapshot) rs)"
  by (induction rs) auto

lemma EvaluateBatch_Inr:
  assumes "EvaluateBatch k c subject snapshot rs = (Inr os, recorded)"
  shows "ok (Subject_Validate subject)" "os = map (decide k subject snapshot) rs"
    "recorded = Some (map do_record os)"
  using assms decide_all_Inr
  by (auto simp: EvaluateBatch_def split: sum.splits prod.splits bool.splits)

lemma decide_capability_iff:
  "do_capability (decide k subject snapshot r) = Some cap \<longleftrightarrow>
    dec_allowed (Evaluate k snapshot r) \<and>
    cap = \<lparr>cap_subject = subject, cap_request = r,
           cap_record = recordFor subject r snapshot (Evaluate k snapshot r)\<rparr>"
  using Evaluate_allowed_reason[of k snapshot r] by (auto simp: decide_def Let_def)

lemma decided_capability_valid_iff:
  assumes "do_capability (decide k subject snapshot r) = Some cap" and "ok (Subject_Validate subject)"
  shows "Capability_Valid cap \<longleftrightarrow> validRequest r"
  using assms Evaluate_allowed_reason[of k snapshot r]
  by (auto simp: decide_capability_iff Capability_Valid_def recordFor_def)

lemma zero_capability_invalid: "\<not> Capability_Valid zero_capability"
  by (simp add: Capability_Valid_def zero_capability_def zero_record_def)

lemma allowed_request_shape:
  assumes "dec_allowed (Evaluate k snapshot r)"
  shows "Scope_Valid (rq_scope r)" "rq_kind r \<noteq> []"
    "rq_scope r = ScopeNamespaced \<Longrightarrow> rq_namespace r \<noteq> []"
  using assms by (auto simp: Evaluate_allowed_iff validateRequest_def split: if_splits)

section \<open>Properties\<close>

text \<open>C12: whatever the instant of cancellation, a batch evaluation is all or nothing; when it succeeds there is
  one outcome per request in order, exactly the allowed requests carry a capability, that capability is bound to
  the evaluated subject and request, the evidence of every request is recorded, and the zero capability is never
  valid.\<close>

theorem EvaluateBatch_capabilities:
  assumes "EvaluateBatch k c subject snapshot requests = (Inr outs, recorded)"
  shows "map do_request outs = requests \<and>
    (\<forall>out \<in> set outs. (do_capability out \<noteq> None) = dec_allowed (Evaluate k snapshot (do_request out))) \<and>
    (\<forall>out \<in> set outs. \<forall>cap. do_capability out = Some cap \<longrightarrow>
       cap_subject cap = subject \<and> cap_request cap = do_request out \<and>
       Capability_Valid cap = validRequest (do_request out)) \<and>
    recorded = Some (map do_record outs) \<and> \<not> Capability_Valid zero_capability"
proof -
  note b = EvaluateBatch_Inr[OF assms]
  have req: "do_request (decide k subject snapshot r) = r" for r by (simp add: decide_def Let_def)
  have cap: "(do_capability (decide k subject snapshot r) \<noteq> None) = dec_allowed (Evaluate k snapshot r)" for r
    using decide_capability_iff[of k subject snapshot r] by (cases "do_capability (decide k subject snapshot r)") auto
  have val: "cap_subject cp = subject \<and> cap_request cp = r \<and> Capability_Valid cp = validRequest r"
    if "do_capability (decide k subject snapshot r) = Some cp" for r cp
    using that decided_capability_valid_iff[OF that b(1)] by (simp add: decide_capability_iff)
  show ?thesis using b(2,3) req cap val zero_capability_invalid by (auto simp: comp_def)
qed

theorem EvaluateBatch_capabilities_witness:
  "\<exists>subject. map do_request [] = [] \<and> EvaluateBatch \<lparr>isDNS1123Label = (\<lambda>_. True), isDNS1123Subdomain = (\<lambda>_. True)\<rparr>
      (Some 3) subject (NewDenyAllSnapshot ReasonPolicyMissing []) [zero_request] =
      (Inr [decide \<lparr>isDNS1123Label = (\<lambda>_. True), isDNS1123Subdomain = (\<lambda>_. True)\<rparr> subject
        (NewDenyAllSnapshot ReasonPolicyMissing []) zero_request],
       Some (map do_record [decide \<lparr>isDNS1123Label = (\<lambda>_. True), isDNS1123Subdomain = (\<lambda>_. True)\<rparr> subject
        (NewDenyAllSnapshot ReasonPolicyMissing []) zero_request])) \<and>
    \<not> Capability_Valid zero_capability"
proof -
  let ?k = "\<lparr>isDNS1123Label = (\<lambda>_. True), isDNS1123Subdomain = (\<lambda>_. True)\<rparr>"
  let ?s = "\<lparr>sub_key = \<lparr>nn_namespace = ''a'', nn_name = ''b''\<rparr>, sub_uid = ''u'', sub_generation = 1, sub_policyEpoch = 0\<rparr>"
  let ?d = "decide ?k ?s (NewDenyAllSnapshot ReasonPolicyMissing []) zero_request"
  have ev: "EvaluateBatch ?k (Some 3) ?s (NewDenyAllSnapshot ReasonPolicyMissing []) [zero_request] =
      (Inr [?d], Some (map do_record [?d]))"
    by (simp add: EvaluateBatch_def Subject_Validate_def numeral_3_eq_3)
  then show ?thesis using EvaluateBatch_capabilities[OF ev] by (intro exI[of _ ?s]) simp
qed

text \<open>The policy evaluator may allow a cluster-scoped request that names a namespace, but the capability
  minted for it is never valid, so no read can be made with it.\<close>

theorem cluster_request_with_namespace_unusable:
  assumes "rq_scope r = ScopeCluster" and "rq_namespace r \<noteq> []"
    and "do_capability (decide k subject snapshot r) = Some cap"
  shows "dec_allowed (Evaluate k snapshot r) \<and> \<not> Capability_Valid cap"
  using assms by (auto simp: decide_capability_iff Capability_Valid_def validRequest_def)

definition wit_cluster_request :: Request where
  "wit_cluster_request = \<lparr>rq_sourceID = ''s'', rq_apiGroup = [], rq_kind = ''Node'', rq_namespace = ''n'', rq_scope = ScopeCluster\<rparr>"

definition wit_cluster_snapshot :: Snapshot where
  "wit_cluster_snapshot = NewSnapshot (Some \<lparr>namespaceMode = ''All'', includedNamespaces = {}, excludedNamespaces = {},
     systemNamespaces = {}, allowedResources = {([], ''Node'')}, allowClusterScoped = True,
     policyIdentity = \<lparr>pi_name = [], pi_uid = [], pi_generation = 0\<rparr>, hasPolicyIdentity = False\<rparr>)"

theorem cluster_request_with_namespace_unusable_witness:
  "\<exists>cap. do_capability (decide \<lparr>isDNS1123Label = (\<lambda>_. True), isDNS1123Subdomain = (\<lambda>_. True)\<rparr> zero_subject
      wit_cluster_snapshot wit_cluster_request) = Some cap \<and>
    dec_allowed (Evaluate \<lparr>isDNS1123Label = (\<lambda>_. True), isDNS1123Subdomain = (\<lambda>_. True)\<rparr> wit_cluster_snapshot wit_cluster_request) \<and>
    \<not> Capability_Valid cap"
proof -
  let ?k = "\<lparr>isDNS1123Label = (\<lambda>_. True), isDNS1123Subdomain = (\<lambda>_. True)\<rparr>"
  have al: "dec_allowed (Evaluate ?k wit_cluster_snapshot wit_cluster_request)" by code_simp
  obtain cap where cap: "do_capability (decide ?k zero_subject wit_cluster_snapshot wit_cluster_request) = Some cap"
    using al decide_capability_iff by blast
  then show ?thesis
    using cluster_request_with_namespace_unusable[OF _ _ cap] by (auto simp: wit_cluster_request_def)
qed

end
