(* ===== verification/SelectionPlanning.thy ===== *)
theory SelectionPlanning
  imports Authorization
begin

text \<open>
  Source planning and capability binding (\<^verbatim>\<open>src/internal/selection/planner.go\<close>, \<^verbatim>\<open>binder.go\<close>,
  \<^verbatim>\<open>contracts.go\<close>).  The discovery resolver and the Kubernetes label and field selector libraries
  are parameters.  A selection error keeps its source, reason and message; its wrapped cause is only
  visible to \<^verbatim>\<open>errors.Is\<close>.
\<close>

section \<open>Types\<close>

datatype SelectionErrorReason =
    SelInvalidSource | SelInvalidNamespaceScope | SelInvalidSelector | SelAuthorizationMissing
  | SelAuthorizationDenied | SelAuthorizationMismatch | SelAuthorizationStale | SelReadForbidden
  | SelUnsupportedSelector | SelReadInterrupted | SelReadUnavailable | SelListExpired
  | SelInvalidObject | SelSelectionLimitExceeded

record SelectionError =
  se_sourceID :: string
  se_reason :: SelectionErrorReason
  se_message :: string

abbreviation NewSelectionError :: "string \<Rightarrow> SelectionErrorReason \<Rightarrow> string \<Rightarrow> SelectionError" where
  "NewSelectionError sid r m \<equiv> \<lparr>se_sourceID = sid, se_reason = r, se_message = m\<rparr>"

record ReadTarget =
  rt_sourceID :: string
  rt_gvr :: GroupVersionResource
  rt_kind :: string
  rt_scope :: Scope
  rt_namespace :: string

record SelectionPlan =
  pl_sourceID :: string
  pl_apiVersion :: string
  pl_kind :: string
  pl_targets :: "ReadTarget list"
  pl_labelSelector :: string
  pl_fieldSelector :: string

record AuthorizedRead =
  ar_target :: ReadTarget
  ar_capability :: Capability

record AuthorizedPlan =
  ap_plan :: SelectionPlan
  ap_reads :: "AuthorizedRead list"

datatype plan_error = PlanResolutionError ResolutionError | PlanSelectionError SelectionError

text \<open>The selector libraries: \<open>sel_label\<close> is \<^verbatim>\<open>LabelSelectorAsSelector\<close> followed by \<^verbatim>\<open>String\<close>,
  \<open>sel_parse_field\<close> is \<^verbatim>\<open>fields.ParseSelector\<close>.\<close>

record 'f SelectorLib =
  sel_label_everything :: string
  sel_field_everything :: string
  sel_label :: "(string \<times> string) list \<Rightarrow> LabelSelectorRequirement list \<Rightarrow> string option"
  sel_parse_field :: "string \<Rightarrow> 'f option"
  sel_field_string :: "'f \<Rightarrow> string"
  sel_one_term_equal :: "string \<Rightarrow> string \<Rightarrow> 'f"
  sel_and :: "'f \<Rightarrow> 'f \<Rightarrow> 'f"

section \<open>Planning\<close>

definition validateSource :: "K8sValidation \<Rightarrow> FacetSource \<Rightarrow> (SelectionError, unit) res" where
  "validateSource k source =
    (if fs_id source = [] \<or> length (fs_id source) > 63 \<or> \<not> isDNS1123Label k (fs_id source) then
       Inl (NewSelectionError (fs_id source) SelInvalidSource ''source ID must be a valid DNS-1123 label'')
     else if trimmed_empty (ref_apiVersion (fs_resource source)) then
       Inl (NewSelectionError (fs_id source) SelInvalidSource ''resource apiVersion must not be empty'')
     else if trimmed_empty (ref_kind (fs_resource source)) then
       Inl (NewSelectionError (fs_id source) SelInvalidSource ''resource Kind must not be empty'')
     else Inr ())"

definition canonicalSelectors :: "'f SelectorLib \<Rightarrow> FacetSource \<Rightarrow> (SelectionError, string \<times> string) res" where
  "canonicalSelectors lib source = (case fs_selector source of
      None \<Rightarrow> Inr (sel_label_everything lib, sel_field_everything lib)
    | Some selector \<Rightarrow>
       (case sel_label lib (rs_matchLabels selector) (rs_matchExpressions selector) of
          None \<Rightarrow> Inl (NewSelectionError (fs_id source) SelInvalidSelector ''label selector is invalid'')
        | Some labels \<Rightarrow>
           (case sel_parse_field lib (rs_fieldSelector selector) of
              None \<Rightarrow> Inl (NewSelectionError (fs_id source) SelInvalidSelector ''field selector is invalid'')
            | Some parsed \<Rightarrow>
               (let parsed' = (if rs_name selector \<noteq> [] then
                      (let nameSelector = sel_one_term_equal lib ''metadata.name'' (rs_name selector) in
                       if sel_field_string lib parsed = [] then nameSelector
                       else sel_and lib nameSelector parsed)
                    else parsed)
                in Inr (labels, sel_field_string lib parsed')))))"

fun checkNamespaces :: "K8sValidation \<Rightarrow> string \<Rightarrow> string list \<Rightarrow> string list \<Rightarrow> (SelectionError, unit) res" where
  "checkNamespaces k sid seen [] = Inr ()"
| "checkNamespaces k sid seen (n # ns) =
    (if \<not> isDNS1123Label k n then
       Inl (NewSelectionError sid SelInvalidNamespaceScope ''namespace must be a valid DNS-1123 label'')
     else if n \<in> set seen then
       Inl (NewSelectionError sid SelInvalidNamespaceScope ''namespace names must be distinct'')
     else checkNamespaces k sid (n # seen) ns)"

definition deriveTargets ::
  "K8sValidation \<Rightarrow> string \<Rightarrow> string \<Rightarrow> Resolution \<Rightarrow> string \<Rightarrow> string list option \<Rightarrow>
   (SelectionError, ReadTarget list) res" where
  "deriveTargets k sid kd resolution ownerNamespace selection =
    (if res_scope resolution = ScopeCluster then
       (if selection \<noteq> None then
          Inl (NewSelectionError sid SelInvalidNamespaceScope ''cluster-scoped resources cannot declare namespaces'')
        else Inr [\<lparr>rt_sourceID = sid, rt_gvr = res_resource resolution, rt_kind = kd,
                   rt_scope = res_scope resolution, rt_namespace = []\<rparr>])
     else if selection = Some [] then Inr []
     else
       (let namespaces = (case selection of None \<Rightarrow> [ownerNamespace] | Some names \<Rightarrow> names) in
        if namespaces = [] \<or> ownerNamespace = [] \<and> selection = None then
          Inl (NewSelectionError sid SelInvalidNamespaceScope ''namespaced resources require a containing namespace'')
        else res_bind (checkNamespaces k sid [] namespaces) (\<lambda>_.
          Inr (map (\<lambda>n. \<lparr>rt_sourceID = sid, rt_gvr = res_resource resolution, rt_kind = kd,
                 rt_scope = res_scope resolution, rt_namespace = n\<rparr>) (sort_by (<) namespaces)))))"

definition Plan ::
  "K8sValidation \<Rightarrow> 'f SelectorLib \<Rightarrow> (SourceDescriptor \<Rightarrow> (ResolutionError, Resolution) res) option \<Rightarrow>
   string \<Rightarrow> FacetSource \<Rightarrow> (plan_error, SelectionPlan) res" where
  "Plan k lib resolver ownerNamespace source =
    (case validateSource k source of
       Inl e \<Rightarrow> Inl (PlanSelectionError e)
     | Inr _ \<Rightarrow>
       (case resolver of
          None \<Rightarrow> Inl (PlanSelectionError
            (NewSelectionError (fs_id source) SelInvalidSource ''discovery resolver is not configured''))
        | Some resolve \<Rightarrow>
          (case resolve \<lparr>sd_sourceID = fs_id source, sd_apiVersion = ref_apiVersion (fs_resource source),
                         sd_kind = ref_kind (fs_resource source)\<rparr> of
             Inl e \<Rightarrow> Inl (PlanResolutionError e)
           | Inr resolution \<Rightarrow>
              if \<not> Scope_Valid (res_scope resolution) \<or> gvr_resource (res_resource resolution) = [] \<or>
                 gvr_version (res_resource resolution) = [] then
                Inl (PlanSelectionError (NewSelectionError (fs_id source) SelInvalidSource
                  ''discovery returned an incomplete resource resolution''))
              else case canonicalSelectors lib source of
                Inl e \<Rightarrow> Inl (PlanSelectionError e)
              | Inr (labelSel, fieldSel) \<Rightarrow>
                 (case deriveTargets k (fs_id source) (ref_kind (fs_resource source)) resolution
                         ownerNamespace (fs_namespaces source) of
                    Inl e \<Rightarrow> Inl (PlanSelectionError e)
                  | Inr targets \<Rightarrow>
                     Inr \<lparr>pl_sourceID = fs_id source, pl_apiVersion = ref_apiVersion (fs_resource source),
                          pl_kind = ref_kind (fs_resource source), pl_targets = targets,
                          pl_labelSelector = labelSel, pl_fieldSelector = fieldSel\<rparr>))))"

section \<open>Binding\<close>

definition RequestForTarget :: "ReadTarget \<Rightarrow> Request" where
  "RequestForTarget t = \<lparr>rq_sourceID = rt_sourceID t, rq_apiGroup = gvr_group (rt_gvr t), rq_kind = rt_kind t,
     rq_namespace = rt_namespace t, rq_scope = rt_scope t\<rparr>"

definition AuthorizedRead_Valid :: "AuthorizedRead \<Rightarrow> bool" where
  "AuthorizedRead_Valid r \<longleftrightarrow> Scope_Valid (rt_scope (ar_target r)) \<and> Capability_Valid (ar_capability r) \<and>
     cap_request (ar_capability r) = RequestForTarget (ar_target r)"

definition zero_read :: AuthorizedRead where
  "zero_read = \<lparr>ar_target = \<lparr>rt_sourceID = [], rt_gvr = \<lparr>gvr_group = [], gvr_version = [], gvr_resource = []\<rparr>,
     rt_kind = [], rt_scope = ScopeNamespaced, rt_namespace = []\<rparr>, ar_capability = zero_capability\<rparr>"

fun collectTargetKeys :: "string \<Rightarrow> Request list \<Rightarrow> ReadTarget list \<Rightarrow> (SelectionError, Request list) res" where
  "collectTargetKeys sid keys [] = Inr keys"
| "collectTargetKeys sid keys (t # ts) =
    (if RequestForTarget t \<in> set keys then
       Inl (NewSelectionError sid SelAuthorizationMismatch ''selection plan contains duplicate exact read targets'')
     else collectTargetKeys sid (RequestForTarget t # keys) ts)"

text \<open>\<^verbatim>\<open>authorizationIndexes\<close>: the indexes of the outcomes of each request, in order.\<close>

fun indexOutcomes ::
  "string \<Rightarrow> Request list \<Rightarrow> nat \<Rightarrow> (Request \<Rightarrow> nat list) \<Rightarrow> DecisionOutcome list \<Rightarrow>
   (SelectionError, Request \<Rightarrow> nat list) res" where
  "indexOutcomes sid keys i idx [] = Inr idx"
| "indexOutcomes sid keys i idx (out # outs) =
    (if do_request out \<notin> set keys then
       Inl (NewSelectionError sid SelAuthorizationMismatch
         ''authorization contains a target that does not match the selection plan'')
     else indexOutcomes sid keys (Suc i) (idx(do_request out := idx (do_request out) @ [i])) outs)"

fun index_of :: "'a \<Rightarrow> 'a list \<Rightarrow> nat" where
  "index_of x [] = 0"
| "index_of x (y # ys) = (if y = x then 0 else Suc (index_of x ys))"

definition bindTarget ::
  "string \<Rightarrow> DecisionOutcome list \<Rightarrow> (Request \<Rightarrow> nat list) \<Rightarrow> ReadTarget \<Rightarrow> (SelectionError, Capability) res" where
  "bindTarget sid outcomes idx target =
    (let want = RequestForTarget target in
     case idx want of
       [] \<Rightarrow> Inl (NewSelectionError sid SelAuthorizationMissing ''authorization is missing for an exact read target'')
     | i # js \<Rightarrow>
        if js \<noteq> [] then
          Inl (NewSelectionError sid SelAuthorizationMismatch
            ''multiple authorization decisions match one exact read target'')
        else
          (let out = outcomes ! i; d = do_decision out in
           if \<not> dec_allowed d \<or> dec_reason d \<noteq> ReasonAllowed then
             Inl (NewSelectionError sid SelAuthorizationDenied
               ''exact read target is not allowed by the installation policy'')
           else case do_capability out of
             None \<Rightarrow> Inl (NewSelectionError sid SelAuthorizationMismatch
               ''allowed decision has no matching authorization capability'')
           | Some cap \<Rightarrow>
              if \<not> Capability_Valid cap \<or> cap_request cap \<noteq> want then
                Inl (NewSelectionError sid SelAuthorizationMismatch
                  ''allowed decision has no matching authorization capability'')
              else Inr cap))"

fun bindLoop ::
  "string \<Rightarrow> DecisionOutcome list \<Rightarrow> (Request \<Rightarrow> nat list) \<Rightarrow> ReadTarget list \<Rightarrow> AuthorizedRead list \<Rightarrow>
   ReadTarget list \<Rightarrow> (SelectionError, AuthorizedRead list) res" where
  "bindLoop sid outcomes idx targets reads [] = Inr reads"
| "bindLoop sid outcomes idx targets reads (t # ts) =
    res_bind (bindTarget sid outcomes idx t) (\<lambda>cap.
      bindLoop sid outcomes idx targets
        (reads[index_of t targets := \<lparr>ar_target = t, ar_capability = cap\<rparr>]) ts)"

definition BindCapabilities :: "SelectionPlan \<Rightarrow> DecisionOutcome list \<Rightarrow> (SelectionError, AuthorizedPlan) res" where
  "BindCapabilities plan outcomes =
    (let targets = pl_targets plan; sid = pl_sourceID plan in
     res_bind (collectTargetKeys sid [] targets) (\<lambda>keys.
     res_bind (indexOutcomes sid keys 0 (\<lambda>_. []) outcomes) (\<lambda>idx.
     res_bind (bindLoop sid outcomes idx targets (replicate (length targets) zero_read) targets) (\<lambda>reads.
     Inr \<lparr>ap_plan = plan, ap_reads = reads\<rparr>))))"

section \<open>Lemmas: planning\<close>

lemma checkNamespaces_Inr_iff:
  "checkNamespaces k sid seen ns = Inr u \<longleftrightarrow>
     list_all (isDNS1123Label k) ns \<and> distinct ns \<and> set ns \<inter> set seen = {}"
  by (induction ns arbitrary: seen) auto

lemma sorted_string_sort: "sorted_wrt (\<le>) (sort_by (<) (xs :: string list))"
  using string_lt.sorted_sort_by[of xs] by (simp add: not_less)

lemma deriveTargets_namespaced:
  assumes "deriveTargets k sid kd resolution owner selection = Inr ts"
    and "res_scope resolution \<noteq> ScopeCluster"
  shows "map rt_namespace ts = sort_by (<) (case selection of None \<Rightarrow> [owner] | Some names \<Rightarrow> names)"
    and "distinct (map rt_namespace ts)"
    and "\<forall>t \<in> set ts. rt_sourceID t = sid \<and> rt_kind t = kd \<and> rt_gvr t = res_resource resolution \<and>
           rt_scope t = res_scope resolution \<and> isDNS1123Label k (rt_namespace t)"
  using assms
  by (auto simp: deriveTargets_def Let_def res_bind_Inr_iff checkNamespaces_Inr_iff comp_def list_all_iff
      split: if_splits option.splits)

lemma deriveTargets_cluster:
  assumes "deriveTargets k sid kd resolution owner selection = Inr ts"
    and "res_scope resolution = ScopeCluster"
  shows "ts = [\<lparr>rt_sourceID = sid, rt_gvr = res_resource resolution, rt_kind = kd,
                rt_scope = ScopeCluster, rt_namespace = []\<rparr>] \<and> selection = None"
  using assms by (auto simp: deriveTargets_def split: if_splits)

lemma Plan_Inr:
  assumes "Plan k lib (Some resolve) owner source = Inr plan"
  obtains resolution where
    "resolve \<lparr>sd_sourceID = fs_id source, sd_apiVersion = ref_apiVersion (fs_resource source),
       sd_kind = ref_kind (fs_resource source)\<rparr> = Inr resolution"
    "Scope_Valid (res_scope resolution)"
    "deriveTargets k (fs_id source) (ref_kind (fs_resource source)) resolution owner (fs_namespaces source)
       = Inr (pl_targets plan)"
    "pl_sourceID plan = fs_id source" "pl_kind plan = ref_kind (fs_resource source)"
    "canonicalSelectors lib source = Inr (pl_labelSelector plan, pl_fieldSelector plan)"
  using assms by (auto simp: Plan_def split: sum.splits if_splits prod.splits)

section \<open>Lemmas: binding\<close>

lemma index_of_nth: "distinct xs \<Longrightarrow> i < length xs \<Longrightarrow> index_of (xs ! i) xs = i"
  by (induction xs arbitrary: i) (auto simp: nth_Cons split: nat.splits)

lemma collectTargetKeys_Inr:
  "collectTargetKeys sid keys ts = Inr keys' \<Longrightarrow> distinct keys \<Longrightarrow>
     distinct (map RequestForTarget ts) \<and> set keys' = set keys \<union> RequestForTarget ` set ts \<and>
     set keys \<inter> RequestForTarget ` set ts = {}"
proof (induction ts arbitrary: keys)
  case (Cons t ts)
  then show ?case using Cons.IH[of "RequestForTarget t # keys"] by (auto split: if_splits)
qed simp

lemma indexOutcomes_Inr:
  "indexOutcomes sid keys i idx outs = Inr idx' \<Longrightarrow>
     (\<forall>out \<in> set outs. do_request out \<in> set keys) \<and>
     (\<forall>r. idx' r = idx r @ map (\<lambda>j. i + j) (filter (\<lambda>j. do_request (outs ! j) = r) [0..<length outs]))"
proof (induction outs arbitrary: i idx)
  case (Cons out outs)
  have split: "[0..<length (out # outs)] = 0 # map Suc [0..<length outs]"
    by (simp add: map_Suc_upt upt_conv_Cons del: upt_Suc)
  let ?idx = "idx(do_request out := idx (do_request out) @ [i])"
  have key: "do_request out \<in> set keys" and rest: "indexOutcomes sid keys (Suc i) ?idx outs = Inr idx'"
    using Cons.prems by (auto split: if_splits)
  have "idx' r = idx r @ map (\<lambda>j. i + j) (filter (\<lambda>j. do_request ((out # outs) ! j) = r) [0..<length (out # outs)])"
    for r
    using Cons.IH[OF rest] unfolding split by (simp add: filter_map comp_def)
  with key Cons.IH[OF rest] show ?case by simp
qed simp

lemma bindTarget_Inr:
  assumes "bindTarget sid outcomes idx t = Inr cap"
  obtains i where "idx (RequestForTarget t) = [i]" "do_capability (outcomes ! i) = Some cap"
    "Capability_Valid cap" "cap_request cap = RequestForTarget t"
    "dec_allowed (do_decision (outcomes ! i))"
  using assms by (auto simp: bindTarget_def Let_def split: list.splits if_splits option.splits)

text \<open>The loop writes each target's own slot: after processing a suffix of the targets, that suffix of the
  result pairs every target with the capability \<open>bindTarget\<close> found for it.\<close>

lemma bindLoop_Inr:
  assumes "bindLoop sid outcomes idx targets reads ts = Inr reads'" "distinct targets"
    "targets = done @ ts" "length reads = length targets"
  shows "length reads' = length targets \<and> take (length done) reads' = take (length done) reads \<and>
    list_all2 (\<lambda>t r. ar_target r = t \<and> bindTarget sid outcomes idx t = Inr (ar_capability r)) ts
      (drop (length done) reads')"
  using assms
proof (induction ts arbitrary: reads "done")
  case Nil
  then show ?case by auto
next
  case (Cons t ts)
  let ?n = "length done"
  obtain cap where cap: "bindTarget sid outcomes idx t = Inr cap"
    and rest: "bindLoop sid outcomes idx targets
      (reads[index_of t targets := \<lparr>ar_target = t, ar_capability = cap\<rparr>]) ts = Inr reads'"
    using Cons.prems(1) by (auto simp: res_bind_Inr_iff)
  have "targets ! ?n = t" "?n < length targets" using Cons.prems(3) by simp_all
  then have at: "index_of t targets = ?n" using index_of_nth Cons.prems(2) by metis
  let ?reads = "reads[?n := \<lparr>ar_target = t, ar_capability = cap\<rparr>]"
  have IH: "length reads' = length targets \<and> take (Suc ?n) reads' = take (Suc ?n) ?reads \<and>
    list_all2 (\<lambda>t r. ar_target r = t \<and> bindTarget sid outcomes idx t = Inr (ar_capability r)) ts
      (drop (Suc ?n) reads')"
    using Cons.IH[of ?reads "done @ [t]"] rest at Cons.prems by simp
  have len: "?n < length reads'" "?n < length ?reads" using IH Cons.prems(3,4) by simp_all
  have "reads' ! ?n = ?reads ! ?n"
    using IH nth_take[of ?n "Suc ?n" reads'] nth_take[of ?n "Suc ?n" ?reads] by simp
  then have slot: "reads' ! ?n = \<lparr>ar_target = t, ar_capability = cap\<rparr>" using len by simp
  have "take ?n reads' = take ?n ?reads"
    using IH by (metis Suc_n_not_le_n nat_le_linear take_take min.absorb1)
  then have "take ?n reads' = take ?n reads" by simp
  moreover have "drop ?n reads' = reads' ! ?n # drop (Suc ?n) reads'"
    using len by (simp add: Cons_nth_drop_Suc)
  ultimately show ?case using IH slot cap by simp
qed

lemma BindCapabilities_Inr:
  assumes "BindCapabilities plan outcomes = Inr ap"
  shows "ap_plan ap = plan"
    and "distinct (map RequestForTarget (pl_targets plan))"
    and "\<forall>out \<in> set outcomes. do_request out \<in> RequestForTarget ` set (pl_targets plan)"
    and "list_all2 (\<lambda>t r. ar_target r = t \<and> (\<exists>i < length outcomes.
           filter (\<lambda>j. do_request (outcomes ! j) = RequestForTarget t) [0..<length outcomes] = [i] \<and>
           do_capability (outcomes ! i) = Some (ar_capability r) \<and>
           dec_allowed (do_decision (outcomes ! i)) \<and>
           Capability_Valid (ar_capability r) \<and>
           cap_request (ar_capability r) = RequestForTarget t)) (pl_targets plan) (ap_reads ap)"
proof -
  let ?ts = "pl_targets plan" and ?sid = "pl_sourceID plan"
  obtain keys idx reads where
    keys: "collectTargetKeys ?sid [] ?ts = Inr keys" and
    idx: "indexOutcomes ?sid keys 0 (\<lambda>_. []) outcomes = Inr idx" and
    reads: "bindLoop ?sid outcomes idx ?ts (replicate (length ?ts) zero_read) ?ts = Inr reads" and
    ap: "ap = \<lparr>ap_plan = plan, ap_reads = reads\<rparr>"
    using assms by (auto simp: BindCapabilities_def Let_def res_bind_Inr_iff)
  have k: "distinct (map RequestForTarget ?ts)" "set keys = RequestForTarget ` set ?ts"
    using collectTargetKeys_Inr[OF keys] by simp_all
  have i: "\<And>r. idx r = filter (\<lambda>j. do_request (outcomes ! j) = r) [0..<length outcomes]"
    using indexOutcomes_Inr[OF idx] by simp
  show "ap_plan ap = plan" using ap by simp
  show "distinct (map RequestForTarget ?ts)" by (fact k)
  show "\<forall>out \<in> set outcomes. do_request out \<in> RequestForTarget ` set ?ts"
    using indexOutcomes_Inr[OF idx] k by simp
  have all: "list_all2 (\<lambda>t r. ar_target r = t \<and> bindTarget ?sid outcomes idx t = Inr (ar_capability r)) ?ts reads"
    using bindLoop_Inr[OF reads, of "[]"] k(1) by (simp add: distinct_map)
  show "list_all2 (\<lambda>t r. ar_target r = t \<and> (\<exists>i < length outcomes.
           filter (\<lambda>j. do_request (outcomes ! j) = RequestForTarget t) [0..<length outcomes] = [i] \<and>
           do_capability (outcomes ! i) = Some (ar_capability r) \<and>
           dec_allowed (do_decision (outcomes ! i)) \<and>
           Capability_Valid (ar_capability r) \<and>
           cap_request (ar_capability r) = RequestForTarget t)) ?ts (ap_reads ap)"
    unfolding ap AuthorizedPlan.simps
  proof (rule list_all2_mono[OF all])
    fix t r
    assume h: "ar_target r = t \<and> bindTarget ?sid outcomes idx t = Inr (ar_capability r)"
    then obtain j where j: "idx (RequestForTarget t) = [j]" "do_capability (outcomes ! j) = Some (ar_capability r)"
      "Capability_Valid (ar_capability r)" "cap_request (ar_capability r) = RequestForTarget t"
      "dec_allowed (do_decision (outcomes ! j))"
      using bindTarget_Inr by blast
    have "j \<in> set (idx (RequestForTarget t))" using j(1) by simp
    then have "j < length outcomes" unfolding i by simp
    with h j show "ar_target r = t \<and> (\<exists>i < length outcomes.
           filter (\<lambda>j. do_request (outcomes ! j) = RequestForTarget t) [0..<length outcomes] = [i] \<and>
           do_capability (outcomes ! i) = Some (ar_capability r) \<and>
           dec_allowed (do_decision (outcomes ! i)) \<and>
           Capability_Valid (ar_capability r) \<and>
           cap_request (ar_capability r) = RequestForTarget t)" unfolding i by blast
  qed
qed

lemma BindCapabilities_reads_valid:
  assumes "BindCapabilities plan outcomes = Inr ap" and "read \<in> set (ap_reads ap)"
  shows "ar_target read \<in> set (pl_targets plan)" "AuthorizedRead_Valid read"
    "\<exists>out \<in> set outcomes. do_capability out = Some (ar_capability read) \<and> dec_allowed (do_decision out)"
proof -
  obtain t where t: "t \<in> set (pl_targets plan)" and h: "ar_target read = t \<and> (\<exists>i < length outcomes.
           filter (\<lambda>j. do_request (outcomes ! j) = RequestForTarget t) [0..<length outcomes] = [i] \<and>
           do_capability (outcomes ! i) = Some (ar_capability read) \<and>
           dec_allowed (do_decision (outcomes ! i)) \<and>
           Capability_Valid (ar_capability read) \<and>
           cap_request (ar_capability read) = RequestForTarget t)"
    by (rule list_all2_in_set2[OF BindCapabilities_Inr(4)[OF assms(1)] assms(2)])
  then show "ar_target read \<in> set (pl_targets plan)" by simp
  have "Scope_Valid (rq_scope (cap_request (ar_capability read)))"
    using h by (auto simp: Capability_Valid_def validRequest_def split: if_splits)
  then show "AuthorizedRead_Valid read" using h by (auto simp: AuthorizedRead_Valid_def RequestForTarget_def)
  show "\<exists>out \<in> set outcomes. do_capability out = Some (ar_capability read) \<and> dec_allowed (do_decision out)"
    using h by (metis nth_mem)
qed

section \<open>Properties\<close>

text \<open>A successful plan reads exactly the declared namespaces, once each and in ascending order, or the
  Facet's own namespace when none are declared; a cluster-scoped source has the single namespace-free target.  Every
  target carries the resolved resource and the source's identity.\<close>

theorem Plan_targets:
  assumes "Plan k lib (Some resolve) owner source = Inr plan"
  shows "\<exists>resolution. resolve \<lparr>sd_sourceID = fs_id source, sd_apiVersion = ref_apiVersion (fs_resource source),
         sd_kind = ref_kind (fs_resource source)\<rparr> = Inr resolution \<and>
    (if res_scope resolution = ScopeCluster
     then fs_namespaces source = None \<and> map rt_namespace (pl_targets plan) = [[]]
     else set (map rt_namespace (pl_targets plan)) =
            set (case fs_namespaces source of None \<Rightarrow> [owner] | Some names \<Rightarrow> names) \<and>
          sorted_wrt (<) (map rt_namespace (pl_targets plan))) \<and>
    (\<forall>t \<in> set (pl_targets plan). rt_sourceID t = fs_id source \<and> rt_kind t = ref_kind (fs_resource source) \<and>
       rt_gvr t = res_resource resolution \<and> rt_scope t = res_scope resolution)"
  using assms
proof (rule Plan_Inr)
  fix resolution
  assume r: "resolve \<lparr>sd_sourceID = fs_id source, sd_apiVersion = ref_apiVersion (fs_resource source),
       sd_kind = ref_kind (fs_resource source)\<rparr> = Inr resolution"
    and d: "deriveTargets k (fs_id source) (ref_kind (fs_resource source)) resolution owner (fs_namespaces source)
       = Inr (pl_targets plan)"
  show ?thesis
  proof (cases "res_scope resolution = ScopeCluster")
    case True
    then show ?thesis using r deriveTargets_cluster[OF d] by auto
  next
    case False
    note ns = deriveTargets_namespaced[OF d False]
    have "sorted_wrt (\<le>) (map rt_namespace (pl_targets plan))"
      unfolding ns(1) by (rule sorted_string_sort)
    then have "sorted_wrt (<) (map rt_namespace (pl_targets plan))"
      using ns(2) by (simp add: strict_sorted_iff)
    then show ?thesis using r False ns(3) arg_cong[OF ns(1), of set] by auto
  qed
qed

definition wit_source :: FacetSource where
  "wit_source = \<lparr>fs_id = ''src'', fs_resource = \<lparr>ref_apiVersion = ''v1'', ref_kind = ''Pod''\<rparr>,
     fs_namespaces = Some [''b'', ''a''], fs_selector = None, fs_fields = [], fs_aggregations = []\<rparr>"

definition wit_resolution :: Resolution where
  "wit_resolution = \<lparr>res_sourceID = ''src'', res_resource = \<lparr>gvr_group = [], gvr_version = ''v1'', gvr_resource = ''pods''\<rparr>,
     res_scope = ScopeNamespaced\<rparr>"

definition wit_selector_lib :: "string SelectorLib" where
  "wit_selector_lib = \<lparr>sel_label_everything = [], sel_field_everything = [], sel_label = (\<lambda>_ _. Some []),
     sel_parse_field = Some, sel_field_string = (\<lambda>s. s), sel_one_term_equal = (\<lambda>k v. k @ ''='' @ v),
     sel_and = (\<lambda>a b. a @ '','' @ b)\<rparr>"

theorem Plan_targets_witness:
  "\<exists>plan. Plan \<lparr>isDNS1123Label = (\<lambda>_. True), isDNS1123Subdomain = (\<lambda>_. True)\<rparr> wit_selector_lib
      (Some (\<lambda>_. Inr wit_resolution)) ''own'' wit_source = Inr plan \<and>
    sorted_wrt (<) (map rt_namespace (pl_targets plan)) \<and> set (map rt_namespace (pl_targets plan)) = {''a'', ''b''}"
proof -
  let ?k = "\<lparr>isDNS1123Label = (\<lambda>_. True), isDNS1123Subdomain = (\<lambda>_. True)\<rparr>"
  have okp: "\<not> isl (Plan ?k wit_selector_lib (Some (\<lambda>_. Inr wit_resolution)) ''own'' wit_source)" by code_simp
  then obtain plan where p: "Plan ?k wit_selector_lib (Some (\<lambda>_. Inr wit_resolution)) ''own'' wit_source = Inr plan"
    by (cases "Plan ?k wit_selector_lib (Some (\<lambda>_. Inr wit_resolution)) ''own'' wit_source") auto
  have ns: "fs_namespaces wit_source = Some [''b'', ''a'']" "res_scope wit_resolution = ScopeNamespaced"
    by (simp_all add: wit_source_def wit_resolution_def)
  show ?thesis using Plan_targets[OF p] p ns by (auto simp: insert_commute)
qed

text \<open>C9: binding succeeds only with complete and exact coverage: the plan's targets are distinct requests, every
  outcome belongs to a target, and the reads are the targets in order, each paired with the valid capability
  of the only outcome for its request, which was allowed.\<close>

theorem BindCapabilities_exact:
  assumes "BindCapabilities plan outcomes = Inr ap"
  shows "map ar_target (ap_reads ap) = pl_targets plan \<and>
    distinct (map RequestForTarget (pl_targets plan)) \<and>
    (\<forall>out \<in> set outcomes. do_request out \<in> RequestForTarget ` set (pl_targets plan)) \<and>
    (\<forall>read \<in> set (ap_reads ap). AuthorizedRead_Valid read \<and>
       (\<exists>out. filter (\<lambda>out. do_request out = RequestForTarget (ar_target read)) outcomes = [out] \<and>
          dec_allowed (do_decision out) \<and> do_capability out = Some (ar_capability read)))"
proof (intro conjI ballI)
  note b = BindCapabilities_Inr[OF assms]
  show "map ar_target (ap_reads ap) = pl_targets plan"
    using b(4) by (induction rule: list_all2_induct) auto
  show "distinct (map RequestForTarget (pl_targets plan))" by (fact b(2))
  show "do_request out \<in> RequestForTarget ` set (pl_targets plan)" if "out \<in> set outcomes" for out
    using b(3) that by blast
  fix read assume read: "read \<in> set (ap_reads ap)"
  show "AuthorizedRead_Valid read" by (rule BindCapabilities_reads_valid(2)[OF assms read])
  obtain i where i: "filter (\<lambda>j. do_request (outcomes ! j) = RequestForTarget (ar_target read)) [0..<length outcomes] = [i]"
    "do_capability (outcomes ! i) = Some (ar_capability read)" "dec_allowed (do_decision (outcomes ! i))"
    using list_all2_in_set2[OF b(4) read] by metis
  have "filter (\<lambda>out. do_request out = RequestForTarget (ar_target read)) outcomes = [outcomes ! i]"
    unfolding filter_nth[of _ outcomes] i(1) by simp
  then show "\<exists>out. filter (\<lambda>out. do_request out = RequestForTarget (ar_target read)) outcomes = [out] \<and>
          dec_allowed (do_decision out) \<and> do_capability out = Some (ar_capability read)"
    using i by blast
qed

definition wit_bind_outcome :: DecisionOutcome where
  "wit_bind_outcome = decide \<lparr>isDNS1123Label = (\<lambda>_. True), isDNS1123Subdomain = (\<lambda>_. True)\<rparr>
     \<lparr>sub_key = \<lparr>nn_namespace = ''a'', nn_name = ''b''\<rparr>, sub_uid = ''u'', sub_generation = 1, sub_policyEpoch = 0\<rparr>
     (wit_cluster_snapshot\<lparr>snap_policyIdentity := None\<rparr>) (wit_cluster_request\<lparr>rq_namespace := []\<rparr>)"

definition wit_bind_plan :: SelectionPlan where
  "wit_bind_plan = \<lparr>pl_sourceID = ''s'', pl_apiVersion = ''v1'', pl_kind = ''Node'',
     pl_targets = [\<lparr>rt_sourceID = ''s'', rt_gvr = \<lparr>gvr_group = [], gvr_version = ''v1'', gvr_resource = ''nodes''\<rparr>,
        rt_kind = ''Node'', rt_scope = ScopeCluster, rt_namespace = []\<rparr>],
     pl_labelSelector = [], pl_fieldSelector = []\<rparr>"

theorem BindCapabilities_exact_witness:
  "\<exists>ap. BindCapabilities wit_bind_plan [wit_bind_outcome] = Inr ap \<and>
    map ar_target (ap_reads ap) = pl_targets wit_bind_plan \<and> (\<forall>read \<in> set (ap_reads ap). AuthorizedRead_Valid read)"
proof -
  have "\<not> isl (BindCapabilities wit_bind_plan [wit_bind_outcome])" by code_simp
  then obtain ap where ap: "BindCapabilities wit_bind_plan [wit_bind_outcome] = Inr ap"
    by (cases "BindCapabilities wit_bind_plan [wit_bind_outcome]") auto
  then show ?thesis using BindCapabilities_exact[OF ap] by blast
qed

end
