(* ===== verification/LimitProfile.thy ===== *)
theory LimitProfile
  imports Prelude
begin

text \<open>
  The performance-limit profile and the byte accountant (\<^verbatim>\<open>src/internal/limits/profile.go\<close>).

  Go's \<open>int\<close> and \<open>int64\<close> are both 64 bits wide here; an optional override (a pointer) is an
  \<open>option\<close>; durations are nanosecond counts.  \<open>Resolve\<close> keeps the source's order of checks, so the
  first invalid override decides the error.  The accountant's additions and subtractions are reduced
  by \<open>wrap64\<close>, and the lemmas show that the guards make the reduction the identity.
\<close>

section \<open>Profile\<close>

record AdmissionBudgets =
  MaxFacetSources :: int
  MaxSourceNamespaces :: int
  MaxSourceFields :: int
  MaxFieldOperators :: int
  MaxOperatorValues :: int
  MaxSourceAggregations :: int
  MaxAggregationGroupBy :: int
  MaxSelectorMatchExpressions :: int
  MaxSelectorExpressionValues :: int
  MaxSelectorMatchLabels :: int
  MaxPolicyNamespaceNames :: int
  MaxPolicyResourceRules :: int
  MaxPolicyAPIGroups :: int
  MaxPolicyKinds :: int
  MaxFacetSpecBytes :: int
  MaxAccessPolicySpecBytes :: int

record AggregationBudgets =
  MaxGroups :: int
  MaxContributions :: int
  MaxCollectedValues :: int
  MaxDistinctValues :: int
  MaxProvenanceEntries :: int

record Profile =
  pageSize :: int
  maxMatchedResources :: int
  maxSelectedInputBytes :: int
  maxProducedValueBytes :: int
  maxStatusBytes :: int
  evaluationTimeout :: int
  maxConcurrentReconciles :: int
  discoveryCacheEntries :: int
  discoveryCacheTTL :: int
  maxActiveWatches :: int
  maxPendingTriggers :: int
  admission :: AdmissionBudgets
  aggregation :: AggregationBudgets

record AdmissionOverrides =
  oMaxFacetSources :: "int option"
  oMaxSourceNamespaces :: "int option"
  oMaxSourceFields :: "int option"
  oMaxFieldOperators :: "int option"
  oMaxOperatorValues :: "int option"
  oMaxSourceAggregations :: "int option"
  oMaxAggregationGroupBy :: "int option"
  oMaxSelectorMatchExpressions :: "int option"
  oMaxSelectorExpressionValues :: "int option"
  oMaxSelectorMatchLabels :: "int option"
  oMaxPolicyNamespaceNames :: "int option"
  oMaxPolicyResourceRules :: "int option"
  oMaxPolicyAPIGroups :: "int option"
  oMaxPolicyKinds :: "int option"
  oMaxFacetSpecBytes :: "int option"
  oMaxAccessPolicySpecBytes :: "int option"

record AggregationOverrides =
  oMaxGroups :: "int option"
  oMaxContributions :: "int option"
  oMaxCollectedValues :: "int option"
  oMaxDistinctValues :: "int option"
  oMaxProvenanceEntries :: "int option"

record Overrides =
  oPageSize :: "int option"
  oMaxMatchedResources :: "int option"
  oMaxSelectedInputBytes :: "int option"
  oMaxProducedValueBytes :: "int option"
  oMaxStatusBytes :: "int option"
  oEvaluationTimeout :: "int option"
  oMaxConcurrentReconciles :: "int option"
  oDiscoveryCacheEntries :: "int option"
  oDiscoveryCacheTTL :: "int option"
  oMaxActiveWatches :: "int option"
  oMaxPendingTriggers :: "int option"
  oAdmission :: AdmissionOverrides
  oAggregation :: AggregationOverrides

datatype limit_cause = OverrideMustBePositive | OverrideExceedsCeiling

datatype InvalidConfigurationError =
  InvalidConfigurationError (ice_field: string) (ice_value: int) (ice_cause: limit_cause)

definition defaultAdmission :: AdmissionBudgets where
  "defaultAdmission = \<lparr>
     MaxFacetSources = 32, MaxSourceNamespaces = 64, MaxSourceFields = 64, MaxFieldOperators = 16,
     MaxOperatorValues = 128, MaxSourceAggregations = 32, MaxAggregationGroupBy = 16,
     MaxSelectorMatchExpressions = 64, MaxSelectorExpressionValues = 64, MaxSelectorMatchLabels = 64,
     MaxPolicyNamespaceNames = 256, MaxPolicyResourceRules = 128, MaxPolicyAPIGroups = 64,
     MaxPolicyKinds = 64, MaxFacetSpecBytes = 262144, MaxAccessPolicySpecBytes = 262144 \<rparr>"

definition defaultAggregation :: AggregationBudgets where
  "defaultAggregation = \<lparr>
     MaxGroups = 1000, MaxContributions = 10000, MaxCollectedValues = 10000,
     MaxDistinctValues = 10000, MaxProvenanceEntries = 10000 \<rparr>"

definition DefaultProfile :: Profile where
  "DefaultProfile = \<lparr>
     pageSize = 500, maxMatchedResources = 1000,
     maxSelectedInputBytes = 8 * 1024 * 1024, maxProducedValueBytes = 8 * 1024 * 1024,
     maxStatusBytes = 512 * 1024, evaluationTimeout = 30 * 1000000000,
     maxConcurrentReconciles = 4, discoveryCacheEntries = 1024,
     discoveryCacheTTL = 5 * 60 * 1000000000, maxActiveWatches = 1024, maxPendingTriggers = 4096,
     admission = defaultAdmission, aggregation = defaultAggregation \<rparr>"

definition invalid :: "string \<Rightarrow> int \<Rightarrow> InvalidConfigurationError" where
  "invalid fld v = InvalidConfigurationError fld v OverrideMustBePositive"

definition positiveInt :: "string \<Rightarrow> int option \<Rightarrow> int \<Rightarrow> (InvalidConfigurationError, int) res" where
  "positiveInt fld override fallback = (case override of
       None \<Rightarrow> Inr fallback
     | Some v \<Rightarrow> if v \<le> 0 then Inl (invalid fld v) else Inr v)"

definition boundedAdmission ::
  "string \<Rightarrow> int option \<Rightarrow> int \<Rightarrow> int \<Rightarrow> (InvalidConfigurationError, int) res" where
  "boundedAdmission fld override fallback ceil =
     res_bind (positiveInt fld override fallback) (\<lambda>v.
       if v > ceil then Inl (InvalidConfigurationError fld v OverrideExceedsCeiling) else Inr v)"

definition resolveAdmission ::
  "AdmissionOverrides \<Rightarrow> AdmissionBudgets \<Rightarrow> (InvalidConfigurationError, AdmissionBudgets) res" where
  "resolveAdmission o0 d =
    res_bind (boundedAdmission ''admission.maxFacetSources'' (oMaxFacetSources o0) (MaxFacetSources d) 32) (\<lambda>a1.
    res_bind (boundedAdmission ''admission.maxSourceNamespaces'' (oMaxSourceNamespaces o0) (MaxSourceNamespaces d) 64) (\<lambda>a2.
    res_bind (boundedAdmission ''admission.maxSourceFields'' (oMaxSourceFields o0) (MaxSourceFields d) 64) (\<lambda>a3.
    res_bind (boundedAdmission ''admission.maxFieldOperators'' (oMaxFieldOperators o0) (MaxFieldOperators d) 16) (\<lambda>a4.
    res_bind (boundedAdmission ''admission.maxOperatorValues'' (oMaxOperatorValues o0) (MaxOperatorValues d) 128) (\<lambda>a5.
    res_bind (boundedAdmission ''admission.maxSourceAggregations'' (oMaxSourceAggregations o0) (MaxSourceAggregations d) 32) (\<lambda>a6.
    res_bind (boundedAdmission ''admission.maxAggregationGroupBy'' (oMaxAggregationGroupBy o0) (MaxAggregationGroupBy d) 16) (\<lambda>a7.
    res_bind (boundedAdmission ''admission.maxSelectorMatchExpressions'' (oMaxSelectorMatchExpressions o0) (MaxSelectorMatchExpressions d) 64) (\<lambda>a8.
    res_bind (boundedAdmission ''admission.maxSelectorExpressionValues'' (oMaxSelectorExpressionValues o0) (MaxSelectorExpressionValues d) 64) (\<lambda>a9.
    res_bind (boundedAdmission ''admission.maxSelectorMatchLabels'' (oMaxSelectorMatchLabels o0) (MaxSelectorMatchLabels d) 64) (\<lambda>a10.
    res_bind (boundedAdmission ''admission.maxPolicyNamespaceNames'' (oMaxPolicyNamespaceNames o0) (MaxPolicyNamespaceNames d) 256) (\<lambda>a11.
    res_bind (boundedAdmission ''admission.maxPolicyResourceRules'' (oMaxPolicyResourceRules o0) (MaxPolicyResourceRules d) 128) (\<lambda>a12.
    res_bind (boundedAdmission ''admission.maxPolicyAPIGroups'' (oMaxPolicyAPIGroups o0) (MaxPolicyAPIGroups d) 64) (\<lambda>a13.
    res_bind (boundedAdmission ''admission.maxPolicyKinds'' (oMaxPolicyKinds o0) (MaxPolicyKinds d) 64) (\<lambda>a14.
    res_bind (boundedAdmission ''admission.maxFacetSpecBytes'' (oMaxFacetSpecBytes o0) (MaxFacetSpecBytes d) 262144) (\<lambda>a15.
    res_bind (boundedAdmission ''admission.maxAccessPolicySpecBytes'' (oMaxAccessPolicySpecBytes o0) (MaxAccessPolicySpecBytes d) 262144) (\<lambda>a16.
    Inr \<lparr> MaxFacetSources = a1, MaxSourceNamespaces = a2, MaxSourceFields = a3, MaxFieldOperators = a4,
          MaxOperatorValues = a5, MaxSourceAggregations = a6, MaxAggregationGroupBy = a7,
          MaxSelectorMatchExpressions = a8, MaxSelectorExpressionValues = a9, MaxSelectorMatchLabels = a10,
          MaxPolicyNamespaceNames = a11, MaxPolicyResourceRules = a12, MaxPolicyAPIGroups = a13,
          MaxPolicyKinds = a14, MaxFacetSpecBytes = a15, MaxAccessPolicySpecBytes = a16 \<rparr>))))))))))))))))"

definition resolveAggregation ::
  "AggregationOverrides \<Rightarrow> AggregationBudgets \<Rightarrow> (InvalidConfigurationError, AggregationBudgets) res" where
  "resolveAggregation o0 d =
    res_bind (positiveInt ''aggregation.maxGroups'' (oMaxGroups o0) (MaxGroups d)) (\<lambda>a1.
    res_bind (positiveInt ''aggregation.maxContributions'' (oMaxContributions o0) (MaxContributions d)) (\<lambda>a2.
    res_bind (positiveInt ''aggregation.maxCollectedValues'' (oMaxCollectedValues o0) (MaxCollectedValues d)) (\<lambda>a3.
    res_bind (positiveInt ''aggregation.maxDistinctValues'' (oMaxDistinctValues o0) (MaxDistinctValues d)) (\<lambda>a4.
    res_bind (positiveInt ''aggregation.maxProvenanceEntries'' (oMaxProvenanceEntries o0) (MaxProvenanceEntries d)) (\<lambda>a5.
    Inr \<lparr> MaxGroups = a1, MaxContributions = a2, MaxCollectedValues = a3, MaxDistinctValues = a4,
          MaxProvenanceEntries = a5 \<rparr>)))))"

definition Resolve :: "Overrides \<Rightarrow> (InvalidConfigurationError, Profile) res" where
  "Resolve ov = (let p = DefaultProfile in
    res_bind (positiveInt ''pageSize'' (oPageSize ov) (pageSize p)) (\<lambda>a1.
    res_bind (positiveInt ''maxMatchedResources'' (oMaxMatchedResources ov) (maxMatchedResources p)) (\<lambda>a2.
    res_bind (positiveInt ''maxSelectedInputBytes'' (oMaxSelectedInputBytes ov) (maxSelectedInputBytes p)) (\<lambda>a3.
    res_bind (positiveInt ''maxProducedValueBytes'' (oMaxProducedValueBytes ov) (maxProducedValueBytes p)) (\<lambda>a4.
    res_bind (positiveInt ''maxStatusBytes'' (oMaxStatusBytes ov) (maxStatusBytes p)) (\<lambda>a5.
    res_bind (positiveInt ''evaluationTimeout'' (oEvaluationTimeout ov) (evaluationTimeout p)) (\<lambda>a6.
    res_bind (positiveInt ''maxConcurrentReconciles'' (oMaxConcurrentReconciles ov) (maxConcurrentReconciles p)) (\<lambda>a7.
    res_bind (positiveInt ''discoveryCacheEntries'' (oDiscoveryCacheEntries ov) (discoveryCacheEntries p)) (\<lambda>a8.
    res_bind (positiveInt ''discoveryCacheTTL'' (oDiscoveryCacheTTL ov) (discoveryCacheTTL p)) (\<lambda>a9.
    res_bind (positiveInt ''maxActiveWatches'' (oMaxActiveWatches ov) (maxActiveWatches p)) (\<lambda>a10.
    res_bind (positiveInt ''maxPendingTriggers'' (oMaxPendingTriggers ov) (maxPendingTriggers p)) (\<lambda>a11.
    res_bind (resolveAdmission (oAdmission ov) (admission p)) (\<lambda>a12.
    res_bind (resolveAggregation (oAggregation ov) (aggregation p)) (\<lambda>a13.
    Inr \<lparr> pageSize = a1, maxMatchedResources = a2, maxSelectedInputBytes = a3,
          maxProducedValueBytes = a4, maxStatusBytes = a5, evaluationTimeout = a6,
          maxConcurrentReconciles = a7, discoveryCacheEntries = a8, discoveryCacheTTL = a9,
          maxActiveWatches = a10, maxPendingTriggers = a11, admission = a12,
          aggregation = a13 \<rparr>))))))))))))))"

definition Profile_Valid :: "Profile \<Rightarrow> bool" where
  "Profile_Valid p \<longleftrightarrow> pageSize p > 0 \<and> maxMatchedResources p > 0 \<and> maxSelectedInputBytes p > 0 \<and>
     maxProducedValueBytes p > 0 \<and> maxStatusBytes p > 0 \<and> evaluationTimeout p > 0 \<and>
     maxConcurrentReconciles p > 0 \<and> discoveryCacheEntries p > 0 \<and> discoveryCacheTTL p > 0 \<and>
     maxActiveWatches p > 0 \<and> maxPendingTriggers p > 0 \<and> MaxFacetSources (admission p) > 0 \<and>
     MaxGroups (aggregation p) > 0"

section \<open>Accountant\<close>

datatype limit_error = ErrLimitExceeded | ErrAccountingOverflow | ErrNotEncodable

record Accountant =
  acc_ceiling :: int
  acc_used :: int
  acc_dimension :: string

definition NewAccountant :: "int \<Rightarrow> string \<Rightarrow> (InvalidConfigurationError, Accountant) res" where
  "NewAccountant ceil dimension =
     (if ceil \<le> 0 then Inl (invalid (''accountant.'' @ dimension) ceil)
      else Inr \<lparr> acc_ceiling = ceil, acc_used = 0, acc_dimension = dimension \<rparr>)"

definition WouldExceedBytes :: "Accountant \<Rightarrow> int \<Rightarrow> (limit_error, bool) res" where
  "WouldExceedBytes a n =
     (if n < 0 \<or> acc_used a > wrap64 (max_int64 - n) then Inl ErrAccountingOverflow
      else Inr (wrap64 (acc_used a + n) > acc_ceiling a))"

definition AddBytes :: "Accountant \<Rightarrow> int \<Rightarrow> (limit_error, Accountant) res" where
  "AddBytes a n =
     res_bind (WouldExceedBytes a n) (\<lambda>exceeds.
       if exceeds then Inl ErrLimitExceeded
       else Inr (a\<lparr>acc_used := wrap64 (acc_used a + n)\<rparr>))"

definition ReleaseBytes :: "Accountant \<Rightarrow> int \<Rightarrow> (limit_error, Accountant) res" where
  "ReleaseBytes a n =
     (if n < 0 \<or> n > acc_used a then Inl ErrAccountingOverflow
      else Inr (a\<lparr>acc_used := wrap64 (acc_used a - n)\<rparr>))"

text \<open>\<open>CanonicalSize\<close> is \<open>encoding/json\<close>'s encoded length, a parameter: \<open>None\<close> is a marshalling
  error.\<close>

definition Add :: "('v \<Rightarrow> nat option) \<Rightarrow> Accountant \<Rightarrow> 'v \<Rightarrow> (limit_error, Accountant) res" where
  "Add canonicalSize a v = (case canonicalSize v of
       None \<Rightarrow> Inl ErrNotEncodable
     | Some n \<Rightarrow> AddBytes a (wrap64 (int n)))"

definition WouldExceed :: "('v \<Rightarrow> nat option) \<Rightarrow> Accountant \<Rightarrow> 'v \<Rightarrow> (limit_error, bool) res" where
  "WouldExceed canonicalSize a v = (case canonicalSize v of
       None \<Rightarrow> Inl ErrNotEncodable
     | Some n \<Rightarrow> WouldExceedBytes a (wrap64 (int n)))"

text \<open>The accountant's invariant: a positive 64-bit ceiling that the counter never passes.\<close>

definition accountant_inv :: "Accountant \<Rightarrow> bool" where
  "accountant_inv a \<longleftrightarrow> 0 < acc_ceiling a \<and> acc_ceiling a \<le> max_int64 \<and> 0 \<le> acc_used a \<and>
     acc_used a \<le> acc_ceiling a"

definition admission_within :: "AdmissionBudgets \<Rightarrow> AdmissionBudgets \<Rightarrow> bool" where
  "admission_within a d \<longleftrightarrow>
     (let inside = (\<lambda>f. 0 < f a \<and> f a \<le> f d) in
      inside MaxFacetSources \<and> inside MaxSourceNamespaces \<and> inside MaxSourceFields \<and>
      inside MaxFieldOperators \<and> inside MaxOperatorValues \<and> inside MaxSourceAggregations \<and>
      inside MaxAggregationGroupBy \<and> inside MaxSelectorMatchExpressions \<and>
      inside MaxSelectorExpressionValues \<and> inside MaxSelectorMatchLabels \<and>
      inside MaxPolicyNamespaceNames \<and> inside MaxPolicyResourceRules \<and> inside MaxPolicyAPIGroups \<and>
      inside MaxPolicyKinds \<and> inside MaxFacetSpecBytes \<and> inside MaxAccessPolicySpecBytes)"

definition aggregation_positive :: "AggregationBudgets \<Rightarrow> bool" where
  "aggregation_positive a \<longleftrightarrow> 0 < MaxGroups a \<and> 0 < MaxContributions a \<and> 0 < MaxCollectedValues a \<and>
     0 < MaxDistinctValues a \<and> 0 < MaxProvenanceEntries a"

section \<open>Lemmas\<close>

lemma positiveInt_pos:
  "positiveInt fld ov fb = Inr v \<Longrightarrow> 0 < fb \<Longrightarrow> 0 < v"
  by (auto simp: positiveInt_def split: option.splits if_splits)

lemma positiveInt_Inl_iff:
  "positiveInt fld ov fb = Inl e \<longleftrightarrow> (\<exists>v. ov = Some v \<and> v \<le> 0 \<and> e = invalid fld v)"
  by (auto simp: positiveInt_def split: option.splits)

lemma boundedAdmission_Inr:
  "boundedAdmission fld ov fb c = Inr v \<Longrightarrow> 0 < fb \<Longrightarrow> 0 < v \<and> v \<le> c"
  by (auto simp: boundedAdmission_def res_simps dest: positiveInt_pos split: if_splits)

lemma boundedAdmission_bindE:
  assumes "res_bind (boundedAdmission fld ov fb c) k = Inr b" and "0 < fb"
    and "\<And>v. 0 < v \<Longrightarrow> v \<le> c \<Longrightarrow> k v = Inr b \<Longrightarrow> P"
  shows P
  using assms boundedAdmission_Inr unfolding res_bind_Inr_iff by metis

lemma positiveInt_bindE:
  assumes "res_bind (positiveInt fld ov fb) k = Inr b" and "0 < fb"
    and "\<And>v. 0 < v \<Longrightarrow> k v = Inr b \<Longrightarrow> P"
  shows P
  using assms positiveInt_pos unfolding res_bind_Inr_iff by metis

lemma resolveAdmission_within:
  assumes "resolveAdmission ov defaultAdmission = Inr a"
  shows "admission_within a defaultAdmission"
  using assms unfolding resolveAdmission_def
  by (elim boundedAdmission_bindE) (auto simp: admission_within_def defaultAdmission_def)

lemma resolveAggregation_positive:
  assumes "resolveAggregation ov defaultAggregation = Inr a"
  shows "aggregation_positive a"
  using assms unfolding resolveAggregation_def
  by (elim positiveInt_bindE) (auto simp: aggregation_positive_def defaultAggregation_def)

lemma Resolve_Inr:
  assumes "Resolve ov = Inr p"
  shows "Profile_Valid p" "admission_within (admission p) defaultAdmission"
    "aggregation_positive (aggregation p)"
proof -
  have "Profile_Valid p \<and> admission_within (admission p) defaultAdmission \<and>
    aggregation_positive (aggregation p)"
    using assms unfolding Resolve_def Let_def
    by (elim positiveInt_bindE)
      (auto simp: DefaultProfile_def res_bind_Inr_iff Profile_Valid_def
        dest!: resolveAdmission_within resolveAggregation_positive,
        auto simp: admission_within_def aggregation_positive_def Let_def)
  then show "Profile_Valid p" "admission_within (admission p) defaultAdmission"
    "aggregation_positive (aggregation p)" by simp_all
qed

lemma NewAccountant_inv:
  "NewAccountant c d = Inr a \<Longrightarrow> int64_range c \<Longrightarrow> accountant_inv a \<and> acc_used a = 0 \<and> acc_ceiling a = c"
  by (auto simp: NewAccountant_def accountant_inv_def int64_range_def split: if_splits)

lemma AddBytes_eq:
  assumes "accountant_inv a" and "int64_range n"
  shows "AddBytes a n =
    (if n < 0 \<or> max_int64 < acc_used a + n then Inl ErrAccountingOverflow
     else if acc_ceiling a < acc_used a + n then Inl ErrLimitExceeded
     else Inr (a\<lparr>acc_used := acc_used a + n\<rparr>))"
proof (cases "n < 0")
  case True
  then show ?thesis by (simp add: AddBytes_def WouldExceedBytes_def)
next
  case False
  have w1: "wrap64 (max_int64 - n) = max_int64 - n"
    using False assms by (intro wrap64_id) (auto simp: int64_range_def min_int64_def max_int64_def)
  show ?thesis
  proof (cases "max_int64 < acc_used a + n")
    case True
    then show ?thesis by (simp add: AddBytes_def WouldExceedBytes_def w1)
  next
    case nover: False
    have "wrap64 (acc_used a + n) = acc_used a + n"
      using False nover assms
      by (intro wrap64_id) (auto simp: int64_range_def accountant_inv_def min_int64_def)
    then show ?thesis using False nover by (simp add: AddBytes_def WouldExceedBytes_def w1)
  qed
qed

lemma AddBytes_Inr:
  assumes "AddBytes a n = Inr a'" "accountant_inv a" "int64_range n"
  shows "0 \<le> n" "acc_used a' = acc_used a + n" "acc_ceiling a' = acc_ceiling a" "accountant_inv a'"
  using assms by (auto simp: AddBytes_eq accountant_inv_def split: if_splits)

lemma ReleaseBytes_eq:
  assumes "accountant_inv a"
  shows "ReleaseBytes a n =
    (if n < 0 \<or> acc_used a < n then Inl ErrAccountingOverflow
     else Inr (a\<lparr>acc_used := acc_used a - n\<rparr>))"
proof -
  have "\<not> (n < 0 \<or> acc_used a < n) \<Longrightarrow> wrap64 (acc_used a - n) = acc_used a - n"
    using assms by (intro wrap64_id) (auto simp: int64_range_def accountant_inv_def min_int64_def)
  then show ?thesis by (auto simp: ReleaseBytes_def)
qed

lemma ReleaseBytes_inv:
  "ReleaseBytes a n = Inr a' \<Longrightarrow> accountant_inv a \<Longrightarrow> accountant_inv a' \<and> acc_ceiling a' = acc_ceiling a"
  by (auto simp: ReleaseBytes_eq accountant_inv_def split: if_splits)

section \<open>The budget interface\<close>

text \<open>What every stage of the pipeline relies on when it charges the values it retains: a charge
  succeeds exactly when it fits, and a release undoes charges.\<close>

fun charge_all :: "('a \<Rightarrow> int \<Rightarrow> ('e, 'a) res) \<Rightarrow> 'a \<Rightarrow> int list \<Rightarrow> ('e, 'a) res" where
  "charge_all add a [] = Inr a"
| "charge_all add a (n # ns) = res_bind (add a n) (\<lambda>a'. charge_all add a' ns)"

text \<open>Releasing one by one, ignoring a refused release as the paginated reader does.\<close>

fun release_each :: "('a \<Rightarrow> int \<Rightarrow> ('e, 'a) res) \<Rightarrow> 'a \<Rightarrow> int list \<Rightarrow> 'a" where
  "release_each release a [] = a"
| "release_each release a (n # ns) =
    release_each release (case release a n of Inl e \<Rightarrow> a | Inr a' \<Rightarrow> a') ns"

locale byte_budget =
  fixes inv :: "'a \<Rightarrow> bool"
    and add :: "'a \<Rightarrow> int \<Rightarrow> ('e, 'a) res"
    and release :: "'a \<Rightarrow> int \<Rightarrow> ('e, 'a) res"
    and used :: "'a \<Rightarrow> int"
    and limit :: "'a \<Rightarrow> int"
  assumes used_bounds: "inv a \<Longrightarrow> 0 \<le> used a \<and> used a \<le> limit a \<and> limit a \<le> max_int64"
    and add_fits: "inv a \<Longrightarrow> 0 \<le> n \<Longrightarrow> n \<le> max_int64 \<Longrightarrow> ok (add a n) \<longleftrightarrow> used a + n \<le> limit a"
    and add_effect: "inv a \<Longrightarrow> 0 \<le> n \<Longrightarrow> n \<le> max_int64 \<Longrightarrow> add a n = Inr a' \<Longrightarrow>
      inv a' \<and> used a' = used a + n \<and> limit a' = limit a"
    and release_ok: "inv a \<Longrightarrow> 0 \<le> n \<Longrightarrow> ok (release a n) \<longleftrightarrow> n \<le> used a"
    and release_effect: "inv a \<Longrightarrow> 0 \<le> n \<Longrightarrow> release a n = Inr a' \<Longrightarrow>
      inv a' \<and> used a' = used a - n \<and> limit a' = limit a"
begin

lemma add_step:
  assumes "inv a" "0 \<le> n" "n \<le> max_int64" "used a + n \<le> limit a"
  obtains a' where "add a n = Inr a'" "inv a'" "used a' = used a + n" "limit a' = limit a"
proof (cases "add a n")
  case (Inl e)
  then show ?thesis using assms add_fits by force
next
  case (Inr b)
  then show ?thesis using assms add_effect that by blast
qed

lemma charge_all_effect:
  "\<lbrakk> inv a; \<forall>n \<in> set ns. 0 \<le> n \<and> n \<le> max_int64; charge_all add a ns = Inr a' \<rbrakk>
    \<Longrightarrow> inv a' \<and> used a' = used a + sum_list ns \<and> limit a' = limit a"
proof (induction ns arbitrary: a)
  case (Cons n ns)
  then obtain b where b: "add a n = Inr b" "charge_all add b ns = Inr a'"
    by (auto simp: res_bind_Inr_iff)
  with Cons.prems have "inv b \<and> used b = used a + n \<and> limit b = limit a"
    using add_effect by auto
  with Cons.IH[of b] Cons.prems b show ?case by simp
qed simp

lemma charge_all_fits:
  "\<lbrakk> inv a; \<forall>n \<in> set ns. 0 \<le> n \<and> n \<le> max_int64 \<rbrakk>
    \<Longrightarrow> ok (charge_all add a ns) \<longleftrightarrow> used a + sum_list ns \<le> limit a"
proof (induction ns arbitrary: a)
  case Nil
  then show ?case using used_bounds by simp
next
  case (Cons n ns)
  have nonneg: "0 \<le> sum_list ns" using Cons.prems by (intro sum_list_nonneg) auto
  show ?case
  proof (cases "used a + n \<le> limit a")
    case True
    then obtain b where "add a n = Inr b" "inv b" "used b = used a + n" "limit b = limit a"
      using Cons.prems add_step[of a n] by auto
    then show ?thesis using Cons.IH[of b] Cons.prems by (simp add: add.assoc)
  next
    case False
    then have "isl (add a n)" using Cons.prems add_fits[of a n] by auto
    then show ?thesis using False nonneg by (cases "add a n") auto
  qed
qed

lemma release_each_effect:
  "\<lbrakk> inv a; \<forall>n \<in> set ns. 0 \<le> n; sum_list ns \<le> used a \<rbrakk>
    \<Longrightarrow> inv (release_each release a ns) \<and> used (release_each release a ns) = used a - sum_list ns \<and>
      limit (release_each release a ns) = limit a"
proof (induction ns arbitrary: a)
  case (Cons n ns)
  have nonneg: "0 \<le> sum_list ns" using Cons.prems by (intro sum_list_nonneg) auto
  then have "ok (release a n)" using Cons.prems release_ok[of a n] by simp
  then obtain b where b: "release a n = Inr b" by (cases "release a n") auto
  then have "inv b \<and> used b = used a - n \<and> limit b = limit a"
    using Cons.prems release_effect[of a n b] by simp
  then show ?case using Cons.IH[of b] Cons.prems b by simp
qed simp

lemma rollback:
  assumes "inv a" "\<forall>n \<in> set ns. 0 \<le> n \<and> n \<le> max_int64" "charge_all add a ns = Inr a'"
  obtains a'' where "release a' (sum_list ns) = Inr a''" "inv a''" "used a'' = used a" "limit a'' = limit a"
proof -
  have nonneg: "0 \<le> sum_list ns" using assms by (intro sum_list_nonneg) auto
  have eff: "inv a' \<and> used a' = used a + sum_list ns \<and> limit a' = limit a"
    by (rule charge_all_effect[OF assms])
  then have "ok (release a' (sum_list ns))"
    using release_ok[of a' "sum_list ns"] nonneg used_bounds[OF assms(1)] by simp
  then obtain b where "release a' (sum_list ns) = Inr b" by (cases "release a' (sum_list ns)") auto
  then show ?thesis using that release_effect[of a' "sum_list ns" b] eff nonneg by auto
qed

end

interpretation accountant: byte_budget accountant_inv AddBytes ReleaseBytes acc_used acc_ceiling
proof unfold_locales
  fix a a' and n :: int
  assume inv: "accountant_inv a"
  show "0 \<le> acc_used a \<and> acc_used a \<le> acc_ceiling a \<and> acc_ceiling a \<le> max_int64"
    using inv by (simp add: accountant_inv_def)
  { assume n: "0 \<le> n" "n \<le> max_int64"
    then have r: "int64_range n" by (simp add: int64_range_def min_int64_def)
    show "ok (AddBytes a n) \<longleftrightarrow> acc_used a + n \<le> acc_ceiling a"
      using inv n by (auto simp: AddBytes_eq[OF inv r] accountant_inv_def)
    show "accountant_inv a' \<and> acc_used a' = acc_used a + n \<and> acc_ceiling a' = acc_ceiling a"
      if "AddBytes a n = Inr a'" using AddBytes_Inr[OF that inv r] by simp }
  { assume n: "0 \<le> n"
    show "ok (ReleaseBytes a n) \<longleftrightarrow> n \<le> acc_used a"
      using inv n by (auto simp: ReleaseBytes_eq[OF inv])
    show "accountant_inv a' \<and> acc_used a' = acc_used a - n \<and> acc_ceiling a' = acc_ceiling a"
      if "ReleaseBytes a n = Inr a'"
      using that inv n by (auto simp: ReleaseBytes_eq[OF inv] accountant_inv_def split: if_splits) }
qed

section \<open>Properties\<close>

text \<open>Resolving overrides either fails or yields a profile whose every budget is positive and whose
  admission budgets stay at or below the structural ceilings generated into the CRDs.\<close>

theorem Resolve_sound:
  assumes "Resolve ov = Inr p"
  shows "Profile_Valid p \<and> admission_within (admission p) defaultAdmission \<and>
    aggregation_positive (aggregation p)"
  using Resolve_Inr[OF assms] by simp

definition wit_overrides :: Overrides where
  "wit_overrides = \<lparr>oPageSize = Some 7, oMaxMatchedResources = None, oMaxSelectedInputBytes = None,
     oMaxProducedValueBytes = None, oMaxStatusBytes = None, oEvaluationTimeout = None,
     oMaxConcurrentReconciles = None, oDiscoveryCacheEntries = None, oDiscoveryCacheTTL = None,
     oMaxActiveWatches = Some 3, oMaxPendingTriggers = None,
     oAdmission = \<lparr>oMaxFacetSources = Some 32, oMaxSourceNamespaces = None, oMaxSourceFields = None,
       oMaxFieldOperators = None, oMaxOperatorValues = None, oMaxSourceAggregations = None,
       oMaxAggregationGroupBy = Some 1, oMaxSelectorMatchExpressions = None,
       oMaxSelectorExpressionValues = None, oMaxSelectorMatchLabels = None,
       oMaxPolicyNamespaceNames = None, oMaxPolicyResourceRules = None, oMaxPolicyAPIGroups = None,
       oMaxPolicyKinds = None, oMaxFacetSpecBytes = None, oMaxAccessPolicySpecBytes = None\<rparr>,
     oAggregation = \<lparr>oMaxGroups = None, oMaxContributions = Some 5, oMaxCollectedValues = None,
       oMaxDistinctValues = None, oMaxProvenanceEntries = None\<rparr>\<rparr>"

definition wit_profile :: Profile where
  "wit_profile = DefaultProfile\<lparr>pageSize := 7, maxActiveWatches := 3,
     admission := defaultAdmission\<lparr>MaxAggregationGroupBy := 1\<rparr>,
     aggregation := defaultAggregation\<lparr>MaxContributions := 5\<rparr>\<rparr>"

theorem Resolve_sound_witness:
  "Resolve wit_overrides = Inr wit_profile \<and> Profile_Valid wit_profile \<and>
   admission_within (admission wit_profile) defaultAdmission \<and> aggregation_positive (aggregation wit_profile)"
proof -
  have r: "Resolve wit_overrides = Inr wit_profile" by code_simp
  then show ?thesis using Resolve_sound[OF r] by simp
qed

text \<open>C13: charging any sequence of 64-bit sizes to an accountant either fits exactly (the counter is the
  exact, unwrapped sum and stays at or below the ceiling) or some charge is refused; it is refused exactly when
  the total passes the ceiling.  Releasing the charged sizes one by one restores the counter.\<close>

theorem accountant_exact:
  assumes "NewAccountant ceil dimension = Inr a" and "int64_range ceil"
    and "\<forall>n \<in> set ns. 0 \<le> n \<and> n \<le> max_int64"
  shows "(\<forall>a'. charge_all AddBytes a ns = Inr a' \<longrightarrow>
            acc_used a' = sum_list ns \<and> acc_used a' \<le> ceil \<and>
            acc_used (release_each ReleaseBytes a' ns) = 0) \<and>
    (isl (charge_all AddBytes a ns) \<longleftrightarrow> ceil < sum_list ns)"
proof -
  have a: "accountant_inv a" "acc_used a = 0" "acc_ceiling a = ceil"
    using NewAccountant_inv[OF assms(1,2)] by simp_all
  have "acc_used a' = sum_list ns \<and> acc_used a' \<le> ceil \<and> acc_used (release_each ReleaseBytes a' ns) = 0"
    if "charge_all AddBytes a ns = Inr a'" for a'
  proof -
    have eff: "accountant_inv a' \<and> acc_used a' = sum_list ns \<and> acc_ceiling a' = ceil"
      using accountant.charge_all_effect[OF a(1) assms(3) that] a by simp
    then have "acc_used (release_each ReleaseBytes a' ns) = 0"
      using accountant.release_each_effect[of a' ns] assms(3) by simp
    with eff show ?thesis by (auto simp: accountant_inv_def)
  qed
  moreover have "isl (charge_all AddBytes a ns) \<longleftrightarrow> ceil < sum_list ns"
    using accountant.charge_all_fits[OF a(1) assms(3)] a(2,3) by auto
  ultimately show ?thesis by blast
qed

theorem accountant_exact_witness:
  "\<exists>a. NewAccountant 10 ''d'' = Inr a \<and>
    ((\<forall>a'. charge_all AddBytes a [4, 6] = Inr a' \<longrightarrow>
            acc_used a' = sum_list [4, 6] \<and> acc_used a' \<le> 10 \<and>
            acc_used (release_each ReleaseBytes a' [4, 6]) = 0) \<and>
    (isl (charge_all AddBytes a [4, 6]) \<longleftrightarrow> 10 < sum_list [4, 6 :: int]))"
proof -
  have new: "NewAccountant 10 ''d'' = Inr \<lparr>acc_ceiling = 10, acc_used = 0, acc_dimension = ''d''\<rparr>"
    by (simp add: NewAccountant_def)
  show ?thesis
    using accountant_exact[OF new, of "[4, 6]"] new
    by (auto simp: int64_range_def max_int64_def min_int64_def)
qed

text \<open>The guard \<open>Valid\<close> accepts a profile with a non-positive budget, although its documentation
  promises a complete positive configuration: of the nested budgets it only looks at the first member of each.\<close>

theorem Profile_Valid_incomplete:
  "\<exists>p. Profile_Valid p \<and> MaxSourceFields (admission p) \<le> 0 \<and> MaxContributions (aggregation p) \<le> 0"
proof
  show "Profile_Valid (DefaultProfile\<lparr>admission := defaultAdmission\<lparr>MaxSourceFields := 0\<rparr>,
          aggregation := defaultAggregation\<lparr>MaxContributions := 0\<rparr>\<rparr>) \<and>
    MaxSourceFields (admission (DefaultProfile\<lparr>admission := defaultAdmission\<lparr>MaxSourceFields := 0\<rparr>,
          aggregation := defaultAggregation\<lparr>MaxContributions := 0\<rparr>\<rparr>)) \<le> 0 \<and>
    MaxContributions (aggregation (DefaultProfile\<lparr>admission := defaultAdmission\<lparr>MaxSourceFields := 0\<rparr>,
          aggregation := defaultAggregation\<lparr>MaxContributions := 0\<rparr>\<rparr>)) \<le> 0"
    by code_simp
qed

end
