(* ===== verification/SelectionExecution.thy ===== *)
theory SelectionExecution
  imports SelectionPlanning LimitProfile
begin

text \<open>
  Execution of authorized plans (\<^verbatim>\<open>src/internal/selection/executor.go\<close>, \<^verbatim>\<open>batch.go\<close>): the list-only
  dynamic client adapter, the paginated target reader with its one restart after an expired
  continuation, the source-atomic executor and the batch loop.

  The API server and the clock are an environment: one \<open>iteration\<close> per LIST round, giving what
  \<^verbatim>\<open>ctx.Err()\<close> and the freshness verifier answer at each check of the round and the server's reply.
  The reader consumes one element per round; when the environment is exhausted the reader is still
  waiting for the server and its result is \<open>None\<close>.  Every request that reaches the server is
  recorded as a \<open>wire_call\<close> together with the verifier in force at that instant.
\<close>

section \<open>Types\<close>

record ListOptions =
  lo_labelSelector :: string
  lo_fieldSelector :: string
  lo_limit :: int
  lo_continue :: string

record 'o list_item =
  li_name :: string
  li_namespace :: string
  li_uid :: UID
  li_object :: 'o

record 'o list_response =
  lr_items :: "'o list_item list"
  lr_continue :: string

datatype list_error =
    ListSelectionError SelectionError
  | ListExpired
  | ListForbidden
  | ListInterrupted
  | ListBadRequest
  | ListOther

record 'o iteration =
  w_ctx_head :: bool
  w_current_head :: "Subject \<Rightarrow> bool"
  w_ctx_list :: bool
  w_current_list :: "Subject \<Rightarrow> bool"
  w_reply :: "(list_error, 'o list_response option) res"
  w_ctx_after :: bool
  w_ctx_map :: bool

record wire_call =
  wc_current :: "Subject \<Rightarrow> bool"
  wc_read :: AuthorizedRead
  wc_gvr :: GroupVersionResource
  wc_namespace :: "string option"
  wc_options :: ListOptions

record DynamicResourceLister =
  dl_client :: bool
  dl_verifier :: bool

record Executor =
  ex_pageLimit :: int
  ex_maxResources :: int
  ex_maxInputBytes :: int
  ex_verifier :: bool

record 'o SelectedResource =
  sr_object :: 'o
  sr_provenance :: FacetResourceProvenance

record 'o SelectionOutcome =
  so_sourceID :: string
  so_resources :: "'o SelectedResource list"
  so_err :: "SelectionError option"

record selectionBudget =
  sb_seen :: "UID list"
  sb_bytes :: Accountant

record 'o target_state =
  ts_items :: "'o SelectedResource list"
  ts_accepted :: "(UID \<times> int) list"
  ts_budget :: selectionBudget

text \<open>Result (\<open>None\<close>: the server has not answered yet), final budget, requests sent, evidence
  recorded, environment left.\<close>

record 'o target_run =
  tr_result :: "(SelectionError, 'o SelectedResource list) res option"
  tr_budget :: selectionBudget
  tr_calls :: "wire_call list"
  tr_records :: "AuthRecord list"
  tr_rest :: "'o iteration list"

type_synonym 'o lister =
  "'o iteration \<Rightarrow> AuthorizedRead \<Rightarrow> ListOptions \<Rightarrow> (list_error, 'o list_response option) res \<times> wire_call list"

section \<open>The dynamic client adapter\<close>

definition interruptedError :: "string \<Rightarrow> SelectionError" where
  "interruptedError sid = NewSelectionError sid SelReadInterrupted ''resource read was interrupted''"

definition DynamicList :: "DynamicResourceLister \<Rightarrow> 'o lister" where
  "DynamicList l w read options =
    (let t = ar_target read;
         call = (\<lambda>ns. \<lparr>wc_current = w_current_list w, wc_read = read, wc_gvr = rt_gvr t, wc_namespace = ns,
                       wc_options = options\<rparr>) in
     if \<not> dl_client l then (Inl ListOther, [])
     else if w_ctx_list w then (Inl (ListSelectionError (interruptedError (rt_sourceID t))), [])
     else if \<not> AuthorizedRead_Valid read then
       (Inl (ListSelectionError (NewSelectionError (rt_sourceID t) SelAuthorizationMismatch
          ''authorized read does not match its exact capability'')), [])
     else if \<not> dl_verifier l then
       (Inl (ListSelectionError (NewSelectionError (rt_sourceID t) SelAuthorizationMissing
          ''authorization freshness verifier is not configured'')), [])
     else if \<not> Capability_IsCurrent (ar_capability read) (Some (w_current_list w)) then
       (Inl (ListSelectionError (NewSelectionError (rt_sourceID t) SelAuthorizationStale
          ''authorization capability is no longer current'')), [])
     else case rt_scope t of
       ScopeNamespaced \<Rightarrow>
         (if rt_namespace t = [] then (Inl ListOther, []) else (w_reply w, [call (Some (rt_namespace t))]))
     | ScopeCluster \<Rightarrow>
         (if rt_namespace t \<noteq> [] then (Inl ListOther, []) else (w_reply w, [call None]))
     | ScopeOther i \<Rightarrow> (Inl ListOther, []))"

section \<open>Executor construction\<close>

type_synonym ExecutorOption = "Executor \<Rightarrow> Executor"

definition WithVerifier :: "bool \<Rightarrow> ExecutorOption" where
  "WithVerifier v e = e\<lparr>ex_verifier := v\<rparr>"

definition WithPageLimit :: "int \<Rightarrow> ExecutorOption" where
  "WithPageLimit limit e = (if limit > 0 then e\<lparr>ex_pageLimit := limit\<rparr> else e)"

definition WithMaxMatchedResources :: "int \<Rightarrow> ExecutorOption" where
  "WithMaxMatchedResources limit e = (if limit > 0 then e\<lparr>ex_maxResources := limit\<rparr> else e)"

definition WithMaxSelectedInputBytes :: "int \<Rightarrow> ExecutorOption" where
  "WithMaxSelectedInputBytes limit e = (if limit > 0 then e\<lparr>ex_maxInputBytes := limit\<rparr> else e)"

definition WithLimits :: "Profile \<Rightarrow> ExecutorOption" where
  "WithLimits p e =
    (let e1 = (if pageSize p > 0 then e\<lparr>ex_pageLimit := pageSize p\<rparr> else e);
         e2 = (if maxMatchedResources p > 0 then e1\<lparr>ex_maxResources := maxMatchedResources p\<rparr> else e1)
     in if maxSelectedInputBytes p > 0 then e2\<lparr>ex_maxInputBytes := maxSelectedInputBytes p\<rparr> else e2)"

definition NewExecutor :: "ExecutorOption option list \<Rightarrow> Executor" where
  "NewExecutor options =
     fold (\<lambda>opt e. case opt of None \<Rightarrow> e | Some f \<Rightarrow> f e) options
       \<lparr>ex_pageLimit = 500, ex_maxResources = 1000, ex_maxInputBytes = 8 * 1024 * 1024, ex_verifier = False\<rparr>"

section \<open>Reading one target\<close>

definition newSelectionBudget :: "int \<Rightarrow> int \<Rightarrow> selectionBudget option" where
  "newSelectionBudget maxResources maxInputBytes =
    (if maxResources \<le> 0 \<or> maxInputBytes \<le> 0 then None
     else case NewAccountant maxInputBytes ''selected-input-bytes'' of
       Inl e \<Rightarrow> None
     | Inr a \<Rightarrow> Some \<lparr>sb_seen = [], sb_bytes = a\<rparr>)"

definition recordReadForbidden :: "AuthorizedRead \<Rightarrow> AuthRecord" where
  "recordReadForbidden read =
     (cap_record (ar_capability read))\<lparr>rec_kind := RecordReadForbidden, rec_outcome := OutcomeForbidden,
        rec_reason := ReadForbiddenText\<rparr>"

definition mapListError :: "bool \<Rightarrow> string \<Rightarrow> string \<Rightarrow> list_error \<Rightarrow> SelectionError" where
  "mapListError ctxDone sid fieldSel e = (case e of
      ListSelectionError se \<Rightarrow> se
    | _ \<Rightarrow>
      if ctxDone then interruptedError sid
      else if e = ListInterrupted then NewSelectionError sid SelReadInterrupted ''resource read was interrupted''
      else if e = ListForbidden then NewSelectionError sid SelReadForbidden ''resource read is forbidden''
      else if fieldSel \<noteq> [] \<and> e = ListBadRequest then
        NewSelectionError sid SelUnsupportedSelector ''field selector is unsupported for the resolved resource''
      else NewSelectionError sid SelReadUnavailable ''resource list is unavailable'')"

definition acceptItem ::
  "('o \<Rightarrow> nat option) \<Rightarrow> Executor \<Rightarrow> SelectionPlan \<Rightarrow> 'o target_state \<Rightarrow> 'o list_item \<Rightarrow>
   (SelectionError, 'o target_state) res" where
  "acceptItem canonicalSize ex plan st item =
    (let sid = pl_sourceID plan; b = ts_budget st in
     if li_name item = [] \<or> li_uid item = [] then
       Inl (NewSelectionError sid SelInvalidObject ''selected object is missing required identity metadata'')
     else if li_uid item \<in> set (sb_seen b) then Inr st
     else if int (length (sb_seen b)) \<ge> ex_maxResources ex then
       Inl (NewSelectionError sid SelSelectionLimitExceeded ''selected resource ceiling exceeded'')
     else case canonicalSize (li_object item) of
       None \<Rightarrow> Inl (NewSelectionError sid SelSelectionLimitExceeded ''selected input cannot be canonically sized'')
     | Some n \<Rightarrow>
        (case AddBytes (sb_bytes b) (wrap64 (int n)) of
           Inl e \<Rightarrow> Inl (NewSelectionError sid SelSelectionLimitExceeded ''selected input byte ceiling exceeded'')
         | Inr a \<Rightarrow> Inr \<lparr>
             ts_items = ts_items st @ [\<lparr>sr_object = li_object item,
               sr_provenance = \<lparr>prov_apiVersion = pl_apiVersion plan, prov_kind = pl_kind plan,
                 prov_namespace = li_namespace item, prov_name = li_name item, prov_uid = li_uid item\<rparr>\<rparr>],
             ts_accepted = ts_accepted st @ [(li_uid item, wrap64 (int n))],
             ts_budget = \<lparr>sb_seen = li_uid item # sb_seen b, sb_bytes = a\<rparr>\<rparr>))"

fun acceptItems ::
  "('o \<Rightarrow> nat option) \<Rightarrow> Executor \<Rightarrow> SelectionPlan \<Rightarrow> 'o target_state \<Rightarrow> 'o list_item list \<Rightarrow>
   (SelectionError, 'o target_state) res" where
  "acceptItems canonicalSize ex plan st [] = Inr st"
| "acceptItems canonicalSize ex plan st (item # items) =
    (case acceptItem canonicalSize ex plan st item of
       Inl e \<Rightarrow> Inl e
     | Inr st' \<Rightarrow> acceptItems canonicalSize ex plan st' items)"

text \<open>The restart: every object the target accepted leaves the seen set and gives its bytes back.\<close>

definition resetTarget :: "'o target_state \<Rightarrow> 'o target_state" where
  "resetTarget st = \<lparr>
     ts_items = [], ts_accepted = [],
     ts_budget = \<lparr>
       sb_seen = fold (\<lambda>u s. removeAll u s) (map fst (ts_accepted st)) (sb_seen (ts_budget st)),
       sb_bytes = release_each ReleaseBytes (sb_bytes (ts_budget st)) (map snd (ts_accepted st))\<rparr>\<rparr>"

text \<open>One round of the loop either returns or goes around with a new state, token and restart flag.\<close>

datatype 'o round =
    RoundDone "'o target_state" "wire_call list" "AuthRecord list" "(SelectionError, 'o SelectedResource list) res"
  | RoundNext "'o target_state" string bool "wire_call list"

definition listRound ::
  "'o lister \<Rightarrow> ('o \<Rightarrow> nat option) \<Rightarrow> Executor \<Rightarrow> SelectionPlan \<Rightarrow> AuthorizedRead \<Rightarrow> 'o target_state \<Rightarrow>
   string \<Rightarrow> bool \<Rightarrow> 'o iteration \<Rightarrow> 'o round" where
  "listRound lister canonicalSize ex plan read st token restarted w =
    (let sid = pl_sourceID plan in
     if w_ctx_head w then RoundDone st [] [] (Inl (interruptedError sid))
     else if \<not> AuthorizedRead_Valid read then
       RoundDone st [] [] (Inl (NewSelectionError sid SelAuthorizationMismatch
         ''authorized read does not match its exact capability''))
     else if \<not> ex_verifier ex then
       RoundDone st [] [] (Inl (NewSelectionError sid SelAuthorizationMissing
         ''authorization freshness verifier is not configured''))
     else if \<not> Capability_IsCurrent (ar_capability read) (Some (w_current_head w)) then
       RoundDone st [] [] (Inl (NewSelectionError sid SelAuthorizationStale
         ''authorization capability is no longer current''))
     else case lister w read \<lparr>lo_labelSelector = pl_labelSelector plan, lo_fieldSelector = pl_fieldSelector plan,
                 lo_limit = ex_pageLimit ex, lo_continue = token\<rparr> of
       (Inl e, calls) \<Rightarrow>
         (if w_ctx_after w then RoundDone st calls [] (Inl (interruptedError sid))
          else if e = ListExpired then
            (if restarted then
               RoundDone st calls [] (Inl (NewSelectionError sid SelListExpired ''resource list continuation expired''))
             else RoundNext (resetTarget st) [] True calls)
          else
            RoundDone st calls (if e = ListForbidden then [recordReadForbidden read] else [])
              (Inl (mapListError (w_ctx_map w) sid (pl_fieldSelector plan) e)))
     | (Inr None, calls) \<Rightarrow>
         RoundDone st calls [] (Inl (NewSelectionError sid SelReadUnavailable ''resource list returned no response''))
     | (Inr (Some response), calls) \<Rightarrow>
         (case acceptItems canonicalSize ex plan st (lr_items response) of
            Inl e \<Rightarrow> RoundDone st calls [] (Inl e)
          | Inr st' \<Rightarrow>
             if lr_continue response = [] then RoundDone st' calls [] (Inr (ts_items st'))
             else RoundNext st' (lr_continue response) restarted calls))"

fun listTarget ::
  "'o lister \<Rightarrow> ('o \<Rightarrow> nat option) \<Rightarrow> Executor \<Rightarrow> SelectionPlan \<Rightarrow> AuthorizedRead \<Rightarrow> 'o target_state \<Rightarrow>
   string \<Rightarrow> bool \<Rightarrow> 'o iteration list \<Rightarrow> 'o target_run" where
  "listTarget lister canonicalSize ex plan read st token restarted [] =
     \<lparr>tr_result = None, tr_budget = ts_budget st, tr_calls = [], tr_records = [], tr_rest = []\<rparr>"
| "listTarget lister canonicalSize ex plan read st token restarted (w # ws) =
    (case listRound lister canonicalSize ex plan read st token restarted w of
       RoundDone st' calls records r \<Rightarrow>
         \<lparr>tr_result = Some r, tr_budget = ts_budget st', tr_calls = calls, tr_records = records, tr_rest = ws\<rparr>
     | RoundNext st' token' restarted' calls \<Rightarrow>
         (let run = listTarget lister canonicalSize ex plan read st' token' restarted' ws in
          run\<lparr>tr_calls := calls @ tr_calls run\<rparr>))"

section \<open>Sorting and the executor\<close>

definition provenance_less :: "FacetResourceProvenance \<Rightarrow> FacetResourceProvenance \<Rightarrow> bool" where
  "provenance_less l r =
    (if prov_namespace l \<noteq> prov_namespace r then prov_namespace l < prov_namespace r
     else if prov_name l \<noteq> prov_name r then prov_name l < prov_name r
     else prov_uid l < prov_uid r)"

fun dedup_uid :: "UID list \<Rightarrow> 'o SelectedResource list \<Rightarrow> 'o SelectedResource list" where
  "dedup_uid seen [] = []"
| "dedup_uid seen (r # rs) =
    (if prov_uid (sr_provenance r) \<in> set seen then dedup_uid seen rs
     else r # dedup_uid (prov_uid (sr_provenance r) # seen) rs)"

definition deduplicateAndSort :: "'o SelectedResource list \<Rightarrow> 'o SelectedResource list" where
  "deduplicateAndSort resources =
     dedup_uid [] (sort_by (\<lambda>a b. provenance_less (sr_provenance a) (sr_provenance b)) resources)"

record 'o source_run =
  xr_result :: "(SelectionError, 'o SelectedResource list) res option"
  xr_budget :: selectionBudget
  xr_calls :: "wire_call list"
  xr_records :: "AuthRecord list"
  xr_rest :: "'o iteration list"

fun readTargets ::
  "'o lister \<Rightarrow> ('o \<Rightarrow> nat option) \<Rightarrow> Executor \<Rightarrow> SelectionPlan \<Rightarrow> selectionBudget \<Rightarrow>
   'o SelectedResource list \<Rightarrow> AuthorizedRead list \<Rightarrow> 'o iteration list \<Rightarrow> 'o source_run" where
  "readTargets lister canonicalSize ex plan b collected [] ws =
     \<lparr>xr_result = Some (Inr collected), xr_budget = b, xr_calls = [], xr_records = [], xr_rest = ws\<rparr>"
| "readTargets lister canonicalSize ex plan b collected (read # reads) ws =
    (let run = listTarget lister canonicalSize ex plan read
           \<lparr>ts_items = [], ts_accepted = [], ts_budget = b\<rparr> [] False ws in
     case tr_result run of
       Some (Inr resources) \<Rightarrow>
         (let more = readTargets lister canonicalSize ex plan (tr_budget run) (collected @ resources) reads (tr_rest run) in
          more\<lparr>xr_calls := tr_calls run @ xr_calls more, xr_records := tr_records run @ xr_records more\<rparr>)
     | Some (Inl e) \<Rightarrow> \<lparr>xr_result = Some (Inl e), xr_budget = tr_budget run, xr_calls = tr_calls run,
                        xr_records = tr_records run, xr_rest = tr_rest run\<rparr>
     | None \<Rightarrow> \<lparr>xr_result = None, xr_budget = tr_budget run, xr_calls = tr_calls run,
                xr_records = tr_records run, xr_rest = tr_rest run\<rparr>)"

definition failedOutcome :: "string \<Rightarrow> SelectionError \<Rightarrow> 'o SelectionOutcome" where
  "failedOutcome sid e = \<lparr>so_sourceID = sid, so_resources = [], so_err = Some e\<rparr>"

definition sourceOutcome :: "string \<Rightarrow> 'o source_run \<Rightarrow> 'o SelectionOutcome option" where
  "sourceOutcome sid run = (case xr_result run of
      None \<Rightarrow> None
    | Some (Inl e) \<Rightarrow> Some (failedOutcome sid e)
    | Some (Inr collected) \<Rightarrow>
        Some \<lparr>so_sourceID = sid, so_resources = deduplicateAndSort collected, so_err = None\<rparr>)"

text \<open>The outcome is \<open>None\<close> while a reply is outstanding; \<open>configured\<close> says that a lister is present.\<close>

definition Execute ::
  "bool \<Rightarrow> 'o lister \<Rightarrow> ('o \<Rightarrow> nat option) \<Rightarrow> Executor \<Rightarrow> AuthorizedPlan \<Rightarrow> 'o iteration list \<Rightarrow>
   'o SelectionOutcome option \<times> wire_call list \<times> AuthRecord list \<times> 'o iteration list" where
  "Execute configured lister canonicalSize ex authorized ws =
    (if \<not> configured then
       (Some (failedOutcome (pl_sourceID (ap_plan authorized))
          (NewSelectionError (pl_sourceID (ap_plan authorized)) SelReadUnavailable ''resource list is unavailable'')),
        [], [], ws)
     else case newSelectionBudget (ex_maxResources ex) (ex_maxInputBytes ex) of
       None \<Rightarrow>
         (Some (failedOutcome (pl_sourceID (ap_plan authorized))
            (NewSelectionError (pl_sourceID (ap_plan authorized)) SelSelectionLimitExceeded ''selection limits are invalid'')),
          [], [], ws)
     | Some b \<Rightarrow>
        (let run = readTargets lister canonicalSize ex (ap_plan authorized) b [] (ap_reads authorized) ws in
         (sourceOutcome (pl_sourceID (ap_plan authorized)) run, xr_calls run, xr_records run, xr_rest run)))"

text \<open>\<^verbatim>\<open>SelectBatch\<close>: \<open>cancelled i\<close> is \<^verbatim>\<open>ctx.Err()\<close> before plan \<open>i\<close>; a plan that is not started gets its own
  interruption.  The batch has a result once every source has one.\<close>

fun SelectBatch ::
  "bool \<Rightarrow> 'o lister \<Rightarrow> ('o \<Rightarrow> nat option) \<Rightarrow> Executor \<Rightarrow> (nat \<Rightarrow> bool) \<Rightarrow> nat \<Rightarrow> AuthorizedPlan list \<Rightarrow>
   'o iteration list \<Rightarrow> 'o SelectionOutcome list option \<times> wire_call list" where
  "SelectBatch configured lister canonicalSize ex cancelled i [] ws = (Some [], [])"
| "SelectBatch configured lister canonicalSize ex cancelled i (ap # aps) ws =
    (let sid = pl_sourceID (ap_plan ap) in
     if cancelled i then
       (let (outs, calls) = SelectBatch configured lister canonicalSize ex cancelled (Suc i) aps ws in
        (map_option (\<lambda>os. \<lparr>so_sourceID = sid, so_resources = [], so_err = Some (interruptedError sid)\<rparr> # os) outs,
         calls))
     else
       (case Execute configured lister canonicalSize ex ap ws of
          (None, calls, _, _) \<Rightarrow> (None, calls)
        | (Some out, calls, _, ws') \<Rightarrow>
           (let (outs, more) = SelectBatch configured lister canonicalSize ex cancelled (Suc i) aps ws' in
            (map_option (\<lambda>os. out # os) outs, calls @ more))))"

section \<open>Every request on the wire is authorized\<close>

definition guarded_call :: "AuthorizedRead \<Rightarrow> wire_call \<Rightarrow> bool" where
  "guarded_call read call \<longleftrightarrow>
     wc_read call = read \<and> AuthorizedRead_Valid read \<and>
     Capability_IsCurrent (ar_capability read) (Some (wc_current call)) \<and>
     wc_gvr call = rt_gvr (ar_target read) \<and>
     wc_namespace call =
       (if rt_scope (ar_target read) = ScopeCluster then None else Some (rt_namespace (ar_target read)))"

fun round_calls :: "'o round \<Rightarrow> wire_call list" where
  "round_calls (RoundDone st calls records r) = calls"
| "round_calls (RoundNext st token restarted calls) = calls"

text \<open>The contract of \<^verbatim>\<open>ResourceLister\<close>: an implementation sends at most one request per call, and only for
  the permit it was given while that permit is valid and current.\<close>

locale resource_lister =
  fixes lister :: "'o lister"
  assumes lister_guarded: "lister w read opts = (r, calls) \<Longrightarrow> call \<in> set calls \<Longrightarrow> guarded_call read call"
    and lister_single: "lister w read opts = (r, calls) \<Longrightarrow> length calls \<le> 1"
begin

lemma listRound_calls:
  "(\<exists>w' opts r. lister w' read opts = (r, round_calls (listRound lister canonicalSize ex plan read st token restarted w))) \<or>
   round_calls (listRound lister canonicalSize ex plan read st token restarted w) = []"
  by (auto simp: listRound_def Let_def split: prod.splits sum.splits option.splits)

lemma listRound_guarded:
  "call \<in> set (round_calls (listRound lister canonicalSize ex plan read st token restarted w)) \<Longrightarrow> guarded_call read call"
  using listRound_calls[of read canonicalSize ex plan st token restarted w] lister_guarded by fastforce

lemma listRound_single:
  "length (round_calls (listRound lister canonicalSize ex plan read st token restarted w)) \<le> 1"
  using listRound_calls[of read canonicalSize ex plan st token restarted w] lister_single by fastforce

lemma listTarget_guarded:
  "call \<in> set (tr_calls (listTarget lister canonicalSize ex plan read st token restarted ws))
    \<Longrightarrow> guarded_call read call"
proof (induction ws arbitrary: st token restarted)
  case (Cons w ws)
  then show ?case
    using listRound_guarded[of call canonicalSize ex plan read st token restarted w]
    by (cases "listRound lister canonicalSize ex plan read st token restarted w") (auto simp: Let_def)
qed simp

lemma listTarget_call_bound:
  "length (tr_calls (listTarget lister canonicalSize ex plan read st token restarted ws)) +
     length (tr_rest (listTarget lister canonicalSize ex plan read st token restarted ws)) \<le> length ws"
proof (induction ws arbitrary: st token restarted)
  case (Cons w ws)
  show ?case
  proof (cases "listRound lister canonicalSize ex plan read st token restarted w")
    case (RoundDone st' calls records r)
    then show ?thesis using listRound_single[of canonicalSize ex plan read st token restarted w] by simp
  next
    case (RoundNext st' token' restarted' calls)
    then show ?thesis
      using listRound_single[of canonicalSize ex plan read st token restarted w]
        Cons.IH[of st' token' restarted'] by (simp add: Let_def)
  qed
qed simp

lemma readTargets_guarded:
  "call \<in> set (xr_calls (readTargets lister canonicalSize ex plan b collected reads ws))
    \<Longrightarrow> \<exists>read \<in> set reads. guarded_call read call"
proof (induction reads arbitrary: b collected ws)
  case (Cons read reads)
  let ?run = "listTarget lister canonicalSize ex plan read \<lparr>ts_items = [], ts_accepted = [], ts_budget = b\<rparr> [] False ws"
  from Cons.prems consider "call \<in> set (tr_calls ?run)"
    | resources where "call \<in> set (xr_calls (readTargets lister canonicalSize ex plan (tr_budget ?run)
        (collected @ resources) reads (tr_rest ?run)))"
    by (auto simp: Let_def split: option.splits sum.splits)
  then show ?case using listTarget_guarded Cons.IH by cases fastforce+
qed simp

lemma Execute_guarded:
  assumes "Execute configured lister canonicalSize ex ap ws = (out, calls, records, rest)" "call \<in> set calls"
  shows "\<exists>read \<in> set (ap_reads ap). guarded_call read call"
  using assms readTargets_guarded by (auto simp: Execute_def Let_def split: if_splits option.splits)

lemma SelectBatch_guarded:
  assumes "SelectBatch configured lister canonicalSize ex cancelled i aps ws = (outs, calls)" "call \<in> set calls"
  shows "\<exists>ap \<in> set aps. \<exists>read \<in> set (ap_reads ap). guarded_call read call"
  using assms
proof (induction aps arbitrary: i ws outs calls)
  case (Cons ap aps)
  show ?case
  proof (cases "cancelled i")
    case True
    then show ?thesis using Cons by (auto simp: Let_def split: prod.splits)
  next
    case False
    obtain out calls1 records rest where
      ex: "Execute configured lister canonicalSize ex ap ws = (out, calls1, records, rest)"
      by (metis prod.collapse)
    have "call \<in> set calls1 \<or> (\<exists>outs' calls'.
        SelectBatch configured lister canonicalSize ex cancelled (Suc i) aps rest = (outs', calls') \<and> call \<in> set calls')"
      using Cons.prems False ex by (auto simp: Let_def split: option.splits prod.splits)
    then show ?thesis using Execute_guarded[OF ex] Cons.IH by fastforce
  qed
qed simp

end

interpretation dynamic: resource_lister "DynamicList l"
proof unfold_locales
  fix w :: "'a iteration" and read opts r calls call
  assume h: "DynamicList l w read opts = (r, calls)"
  show "length calls \<le> 1"
    using h by (auto simp: DynamicList_def Let_def split: if_splits Scope.splits)
  show "call \<in> set calls \<Longrightarrow> guarded_call read call"
    using h by (auto simp: DynamicList_def guarded_call_def Let_def split: if_splits Scope.splits)
qed

section \<open>Retention stays within the limits\<close>

definition measured :: "('o \<Rightarrow> nat option) \<Rightarrow> 'o SelectedResource \<Rightarrow> int" where
  "measured canonicalSize r = (case canonicalSize (sr_object r) of None \<Rightarrow> 0 | Some n \<Rightarrow> wrap64 (int n))"

abbreviation uid_of :: "'o SelectedResource \<Rightarrow> UID" where
  "uid_of r \<equiv> prov_uid (sr_provenance r)"

text \<open>What the source has retained (\<open>kept\<close>) is exactly what the budget accounts for.\<close>

definition budget_inv ::
  "('o \<Rightarrow> nat option) \<Rightarrow> Executor \<Rightarrow> selectionBudget \<Rightarrow> 'o SelectedResource list \<Rightarrow> bool" where
  "budget_inv canonicalSize ex b kept \<longleftrightarrow>
     sb_seen b = rev (map uid_of kept) \<and> distinct (map uid_of kept) \<and>
     int (length (sb_seen b)) \<le> ex_maxResources ex \<and>
     accountant_inv (sb_bytes b) \<and> acc_ceiling (sb_bytes b) = ex_maxInputBytes ex \<and>
     acc_used (sb_bytes b) = sum_list (map (measured canonicalSize) kept) \<and>
     (\<forall>r \<in> set kept. 0 \<le> measured canonicalSize r)"

definition target_inv ::
  "('o \<Rightarrow> nat option) \<Rightarrow> Executor \<Rightarrow> 'o SelectedResource list \<Rightarrow> 'o target_state \<Rightarrow> bool" where
  "target_inv canonicalSize ex before st \<longleftrightarrow>
     budget_inv canonicalSize ex (ts_budget st) (before @ ts_items st) \<and>
     ts_accepted st = map (\<lambda>r. (uid_of r, measured canonicalSize r)) (ts_items st)"

lemma acceptItem_inv:
  assumes "acceptItem canonicalSize ex plan st item = Inr st'" "target_inv canonicalSize ex before st"
  shows "target_inv canonicalSize ex before st'"
proof (cases "li_uid item \<in> set (sb_seen (ts_budget st))")
  case True
  then show ?thesis using assms by (auto simp: acceptItem_def Let_def split: if_splits)
next
  case False
  then obtain n a where n: "canonicalSize (li_object item) = Some n"
    and a: "AddBytes (sb_bytes (ts_budget st)) (wrap64 (int n)) = Inr a"
    and st': "st' = \<lparr>
             ts_items = ts_items st @ [\<lparr>sr_object = li_object item,
               sr_provenance = \<lparr>prov_apiVersion = pl_apiVersion plan, prov_kind = pl_kind plan,
                 prov_namespace = li_namespace item, prov_name = li_name item, prov_uid = li_uid item\<rparr>\<rparr>],
             ts_accepted = ts_accepted st @ [(li_uid item, wrap64 (int n))],
             ts_budget = \<lparr>sb_seen = li_uid item # sb_seen (ts_budget st), sb_bytes = a\<rparr>\<rparr>"
    and room: "int (length (sb_seen (ts_budget st))) < ex_maxResources ex"
    using assms(1) by (auto simp: acceptItem_def Let_def not_le split: if_splits option.splits sum.splits)
  have inv: "accountant_inv (sb_bytes (ts_budget st))"
    using assms(2) by (simp add: target_inv_def budget_inv_def)
  note add = AddBytes_Inr[OF a inv wrap64_range]
  show ?thesis
    using assms(2) False room n add unfolding st'
    by (simp add: target_inv_def budget_inv_def measured_def)
qed

lemma acceptItems_inv:
  "acceptItems canonicalSize ex plan st items = Inr st' \<Longrightarrow> target_inv canonicalSize ex before st \<Longrightarrow>
     target_inv canonicalSize ex before st'"
  by (induction items arbitrary: st) (auto split: sum.splits dest: acceptItem_inv)

lemma fold_removeAll_filter: "fold (\<lambda>u s. removeAll u s) us s = filter (\<lambda>x. x \<notin> set us) s"
  by (induction us arbitrary: s) (auto simp: removeAll_filter_not_eq intro: filter_cong)

lemma resetTarget_inv:
  assumes "target_inv canonicalSize ex before st"
  shows "target_inv canonicalSize ex before (resetTarget st)"
    and "ts_items (resetTarget st) = []"
proof -
  let ?b = "ts_budget st" and ?acc = "ts_accepted st"
  have b: "budget_inv canonicalSize ex ?b (before @ ts_items st)"
    and acc: "?acc = map (\<lambda>r. (uid_of r, measured canonicalSize r)) (ts_items st)"
    using assms by (simp_all add: target_inv_def)
  have nonneg: "\<forall>n \<in> set (map snd ?acc). 0 \<le> n" "0 \<le> sum_list (map (measured canonicalSize) before)"
    using b acc by (auto simp: budget_inv_def intro!: sum_list_nonneg)
  have sum_eq: "sum_list (map snd ?acc) = sum_list (map (measured canonicalSize) (ts_items st))"
    unfolding acc by (simp add: comp_def)
  then have le: "sum_list (map snd ?acc) \<le> acc_used (sb_bytes ?b)"
    using b nonneg(2) by (simp add: budget_inv_def)
  have inv: "accountant_inv (sb_bytes ?b)" using b by (simp add: budget_inv_def)
  note rel = accountant.release_each_effect[OF inv nonneg(1) le]
  have fst_acc: "map fst ?acc = map uid_of (ts_items st)" unfolding acc by (simp add: comp_def)
  have seen: "sb_seen ?b = rev (map uid_of (ts_items st)) @ rev (map uid_of before)"
    and disj: "set (map uid_of (ts_items st)) \<inter> set (map uid_of before) = {}"
    using b by (auto simp: budget_inv_def)
  have "filter (\<lambda>x. x \<notin> set (map uid_of (ts_items st))) (rev (map uid_of before)) = rev (map uid_of before)"
    using disj by (intro filter_True) auto
  then have "filter (\<lambda>x. x \<notin> set (map fst ?acc)) (sb_seen ?b) = rev (map uid_of before)"
    unfolding seen fst_acc by (simp add: filter_empty_conv)
  then show "target_inv canonicalSize ex before (resetTarget st)"
    using b rel seen sum_eq
    by (auto simp: target_inv_def budget_inv_def resetTarget_def fold_removeAll_filter)
  show "ts_items (resetTarget st) = []" by (simp add: resetTarget_def)
qed

lemma listRound_NextE:
  assumes "listRound lister canonicalSize ex plan read st token restarted w = RoundNext st' token' restarted' calls"
  obtains "st' = resetTarget st" | items where "acceptItems canonicalSize ex plan st items = Inr st'"
  using assms
  by (simp add: listRound_def Let_def split: prod.splits sum.splits option.splits if_splits)

lemma listRound_DoneE:
  assumes "listRound lister canonicalSize ex plan read st token restarted w = RoundDone st' calls records (Inr items)"
  obtains page where "acceptItems canonicalSize ex plan st page = Inr st'" "items = ts_items st'"
  using assms
  by (simp add: listRound_def Let_def split: prod.splits sum.splits option.splits if_splits)

lemma listRound_inv:
  assumes inv: "target_inv canonicalSize ex before st"
  shows "listRound lister canonicalSize ex plan read st token restarted w = RoundNext st' token' restarted' calls \<Longrightarrow>
      target_inv canonicalSize ex before st'"
    and "listRound lister canonicalSize ex plan read st token restarted w = RoundDone st' calls records (Inr items) \<Longrightarrow>
      target_inv canonicalSize ex before st' \<and> items = ts_items st'"
proof -
  show "target_inv canonicalSize ex before st'"
    if "listRound lister canonicalSize ex plan read st token restarted w = RoundNext st' token' restarted' calls"
    using that
  proof (cases rule: listRound_NextE)
    case 1
    then show ?thesis using resetTarget_inv(1)[OF inv] by simp
  next
    case 2
    then show ?thesis using inv by (rule acceptItems_inv)
  qed
  show "target_inv canonicalSize ex before st' \<and> items = ts_items st'"
    if "listRound lister canonicalSize ex plan read st token restarted w = RoundDone st' calls records (Inr items)"
    using that
  proof (cases rule: listRound_DoneE)
    case 1
    then show ?thesis using acceptItems_inv[OF 1(1) inv] by simp
  qed
qed

lemma listTarget_inv:
  "\<lbrakk> target_inv canonicalSize ex before st;
     tr_result (listTarget lister canonicalSize ex plan read st token restarted ws) = Some (Inr items) \<rbrakk>
   \<Longrightarrow> budget_inv canonicalSize ex (tr_budget (listTarget lister canonicalSize ex plan read st token restarted ws))
        (before @ items)"
proof (induction ws arbitrary: st token restarted)
  case (Cons w ws)
  show ?case
  proof (cases "listRound lister canonicalSize ex plan read st token restarted w")
    case (RoundDone st' calls records r)
    have r: "r = Inr items" using Cons.prems(2) RoundDone by simp
    have "target_inv canonicalSize ex before st' \<and> items = ts_items st'"
      by (rule listRound_inv(2)[OF Cons.prems(1) RoundDone[unfolded r]])
    then show ?thesis using RoundDone by (simp add: target_inv_def)
  next
    case (RoundNext st' token' restarted' calls)
    have "target_inv canonicalSize ex before st'"
      by (rule listRound_inv(1)[OF Cons.prems(1) RoundNext])
    then show ?thesis using Cons.prems(2) Cons.IH[of st' token' restarted'] RoundNext by (simp add: Let_def)
  qed
qed simp

lemma readTargets_inv:
  "\<lbrakk> budget_inv canonicalSize ex b collected;
     xr_result (readTargets lister canonicalSize ex plan b collected reads ws) = Some (Inr all) \<rbrakk>
   \<Longrightarrow> budget_inv canonicalSize ex (xr_budget (readTargets lister canonicalSize ex plan b collected reads ws)) all"
proof (induction reads arbitrary: b collected ws)
  case (Cons read reads)
  let ?st = "\<lparr>ts_items = [], ts_accepted = [], ts_budget = b\<rparr>"
  let ?run = "listTarget lister canonicalSize ex plan read ?st [] False ws"
  obtain resources where res: "tr_result ?run = Some (Inr resources)"
    using Cons.prems(2) by (auto simp: Let_def split: option.splits sum.splits)
  have "target_inv canonicalSize ex collected ?st"
    using Cons.prems(1) by (simp add: target_inv_def)
  then have "budget_inv canonicalSize ex (tr_budget ?run) (collected @ resources)"
    using listTarget_inv res by blast
  then show ?case using Cons.IH Cons.prems(2) res by (simp add: Let_def)
qed simp

section \<open>Sorting\<close>

interpretation provenance_order: strict_weak_order provenance_less
  by unfold_locales (auto simp: provenance_less_def split: if_splits)

lemma swo_map: "strict_weak_order lt \<Longrightarrow> strict_weak_order (\<lambda>a b. lt (f a) (f b))"
  unfolding strict_weak_order_def by blast

interpretation resource_order: strict_weak_order "\<lambda>a b. provenance_less (sr_provenance a) (sr_provenance b)"
  by (rule swo_map) (rule provenance_order.strict_weak_order_axioms)

lemma provenance_less_total:
  "\<not> provenance_less a b \<Longrightarrow> \<not> provenance_less b a \<Longrightarrow>
    prov_namespace a = prov_namespace b \<and> prov_name a = prov_name b \<and> prov_uid a = prov_uid b"
  by (auto simp: provenance_less_def split: if_splits)

lemma dedup_uid_id:
  "distinct (map uid_of rs) \<Longrightarrow> set (map uid_of rs) \<inter> set seen = {} \<Longrightarrow> dedup_uid seen rs = rs"
  by (induction rs arbitrary: seen) auto

lemma dedup_uid_distinct:
  "distinct (map uid_of (dedup_uid seen rs)) \<and> set (map uid_of (dedup_uid seen rs)) \<inter> set seen = {}"
  by (induction rs arbitrary: seen) (auto, fastforce+)

lemma deduplicateAndSort_distinct_id:
  assumes "distinct (map uid_of rs)"
  shows "deduplicateAndSort rs = sort_by (\<lambda>a b. provenance_less (sr_provenance a) (sr_provenance b)) rs"
  unfolding deduplicateAndSort_def by (rule dedup_uid_id) (simp_all add: assms)

lemma newSelectionBudget_inv:
  assumes "newSelectionBudget (ex_maxResources ex) (ex_maxInputBytes ex) = Some b"
    and "int64_range (ex_maxInputBytes ex)"
  shows "budget_inv canonicalSize ex b []"
  using assms
  by (auto simp: newSelectionBudget_def budget_inv_def split: if_splits sum.splits dest: NewAccountant_inv)

lemma Execute_success:
  assumes "Execute configured lister canonicalSize ex ap ws = (Some out, calls, records, rest)"
    and "so_err out = None" and "int64_range (ex_maxInputBytes ex)"
  obtains kept b where "budget_inv canonicalSize ex b kept"
    "so_resources out = sort_by (\<lambda>a b. provenance_less (sr_provenance a) (sr_provenance b)) kept"
    "so_sourceID out = pl_sourceID (ap_plan ap)"
proof -
  obtain b0 where b0: "newSelectionBudget (ex_maxResources ex) (ex_maxInputBytes ex) = Some b0"
    using assms(1,2) by (auto simp: Execute_def failedOutcome_def Let_def split: if_splits option.splits)
  let ?run = "readTargets lister canonicalSize ex (ap_plan ap) b0 [] (ap_reads ap) ws"
  obtain kept where kept: "xr_result ?run = Some (Inr kept)"
    and out: "out = \<lparr>so_sourceID = pl_sourceID (ap_plan ap), so_resources = deduplicateAndSort kept, so_err = None\<rparr>"
    using assms(1,2) b0
    by (auto simp: Execute_def sourceOutcome_def failedOutcome_def Let_def split: if_splits option.splits sum.splits)
  have inv: "budget_inv canonicalSize ex (xr_budget ?run) kept"
    using readTargets_inv[OF newSelectionBudget_inv[OF b0 assms(3)] kept] .
  then have "distinct (map uid_of kept)" by (auto simp: budget_inv_def)
  then have "so_resources out = sort_by (\<lambda>a b. provenance_less (sr_provenance a) (sr_provenance b)) kept"
    using out by (simp add: deduplicateAndSort_distinct_id)
  with that inv out show ?thesis by simp
qed

section \<open>The reader returns\<close>

definition final_reply :: "'o iteration \<Rightarrow> bool" where
  "final_reply w \<longleftrightarrow> (case w_reply w of
      Inl e \<Rightarrow> e \<noteq> ListExpired
    | Inr None \<Rightarrow> True
    | Inr (Some r) \<Rightarrow> lr_continue r = [])"

definition expired_reply :: "'o iteration \<Rightarrow> bool" where
  "expired_reply w \<longleftrightarrow> w_reply w = Inl ListExpired"

text \<open>Replies after which a read returns: one that is neither a further page nor an expiry, or an expiry
  more than the read has restarts left.\<close>

definition conclusive :: "bool \<Rightarrow> 'o iteration list \<Rightarrow> bool" where
  "conclusive restarted ws \<longleftrightarrow>
     (\<exists>w \<in> set ws. final_reply w) \<or> (if restarted then 1 else 2) \<le> length (filter expired_reply ws)"

text \<open>Requests for the first page of a list.\<close>

definition list_starts :: "wire_call list \<Rightarrow> nat" where
  "list_starts calls = length (filter (\<lambda>c. lo_continue (wc_options c) = []) calls)"

lemma DynamicList_reply:
  "fst (DynamicList l w read opts) = w_reply w \<or> (\<exists>e. fst (DynamicList l w read opts) = Inl e \<and> e \<noteq> ListExpired)"
  by (auto simp: DynamicList_def Let_def split: Scope.splits)

text \<open>A round that goes on read a further page, or was the first expiry and starts the list again.\<close>

lemma listRound_continues:
  assumes "listRound (DynamicList l) canonicalSize ex plan read st token restarted w = RoundNext st' token' restarted' calls"
  shows "\<not> final_reply w \<and>
    (if expired_reply w then \<not> restarted \<and> restarted' \<and> token' = [] else restarted' = restarted \<and> token' \<noteq> [])"
proof -
  let ?opts = "\<lparr>lo_labelSelector = pl_labelSelector plan, lo_fieldSelector = pl_fieldSelector plan,
                 lo_limit = ex_pageLimit ex, lo_continue = token\<rparr>"
  show ?thesis
    using assms DynamicList_reply[of l w read ?opts]
    by (auto simp: listRound_def Let_def final_reply_def expired_reply_def
        split: prod.splits sum.splits option.splits if_splits)
qed

lemma listTarget_returns:
  "conclusive restarted pre \<Longrightarrow>
    tr_result (listTarget (DynamicList l) canonicalSize ex plan read st token restarted (pre @ post)) \<noteq> None \<and>
    length post \<le> length (tr_rest (listTarget (DynamicList l) canonicalSize ex plan read st token restarted (pre @ post)))"
proof (induction pre arbitrary: st token restarted)
  case (Cons w pre)
  show ?case
  proof (cases "listRound (DynamicList l) canonicalSize ex plan read st token restarted w")
    case (RoundDone st' calls records r)
    then show ?thesis by simp
  next
    case (RoundNext st' token' restarted' calls)
    then have "conclusive restarted' pre"
      using listRound_continues[OF RoundNext] Cons.prems by (auto simp: conclusive_def split: if_splits)
    then show ?thesis using Cons.IH[of restarted'] RoundNext by (simp add: Let_def)
  qed
qed (simp add: conclusive_def split: if_splits)

lemma DynamicList_starts: "list_starts (snd (DynamicList l w read opts)) \<le> (if lo_continue opts = [] then 1 else 0)"
  by (auto simp: DynamicList_def Let_def list_starts_def split: Scope.splits)

lemma listRound_starts:
  "list_starts (round_calls (listRound (DynamicList l) canonicalSize ex plan read st token restarted w)) \<le>
     (if token = [] then 1 else 0)"
proof -
  let ?opts = "\<lparr>lo_labelSelector = pl_labelSelector plan, lo_fieldSelector = pl_fieldSelector plan,
                 lo_limit = ex_pageLimit ex, lo_continue = token\<rparr>"
  have "round_calls (listRound (DynamicList l) canonicalSize ex plan read st token restarted w) = [] \<or>
    round_calls (listRound (DynamicList l) canonicalSize ex plan read st token restarted w) =
      snd (DynamicList l w read ?opts)"
    by (auto simp: listRound_def Let_def split: prod.splits sum.splits option.splits)
  then show ?thesis using DynamicList_starts[of l w read ?opts] by (auto simp: list_starts_def)
qed

lemma listTarget_starts:
  "list_starts (tr_calls (listTarget (DynamicList l) canonicalSize ex plan read st token restarted ws)) \<le>
     (if token = [] then 1 else 0) + (if restarted then 0 else 1)"
proof (induction ws arbitrary: st token restarted)
  case (Cons w ws)
  show ?case
  proof (cases "listRound (DynamicList l) canonicalSize ex plan read st token restarted w")
    case (RoundDone st' calls records r)
    then show ?thesis
      using listRound_starts[of l canonicalSize ex plan read st token restarted w] by simp
  next
    case (RoundNext st' token' restarted' calls)
    then show ?thesis
      using listRound_starts[of l canonicalSize ex plan read st token restarted w] Cons.IH[of st' token' restarted']
        listRound_continues[OF RoundNext]
      by (simp add: Let_def list_starts_def split: if_splits)
  qed
qed (simp add: list_starts_def)

section \<open>Properties\<close>

text \<open>C10: whatever the server replies, including continuation expiry and restart, a successful source outcome
  holds each object once, at most the configured number of objects and bytes, and is ordered by namespace, name
  and UID; a failed outcome holds nothing.\<close>

theorem Execute_bounded:
  assumes "Execute configured lister canonicalSize ex ap ws = (Some out, calls, records, rest)"
    and "int64_range (ex_maxInputBytes ex)"
  shows "distinct (map uid_of (so_resources out)) \<and>
    (so_err out = None \<longrightarrow> int (length (so_resources out)) \<le> ex_maxResources ex \<and>
       sum_list (map (measured canonicalSize) (so_resources out)) \<le> ex_maxInputBytes ex) \<and>
    (so_err out \<noteq> None \<longrightarrow> so_resources out = []) \<and>
    sorted_wrt (\<lambda>a b. provenance_less (sr_provenance a) (sr_provenance b)) (so_resources out)"
proof (cases "so_err out")
  case (Some e)
  then have "so_resources out = []"
    using assms(1)
    by (auto simp: Execute_def sourceOutcome_def failedOutcome_def Let_def split: if_splits option.splits sum.splits)
  then show ?thesis using Some by simp
next
  case None
  obtain kept b where inv: "budget_inv canonicalSize ex b kept"
    and res: "so_resources out = sort_by (\<lambda>a b. provenance_less (sr_provenance a) (sr_provenance b)) kept"
    using Execute_success[OF assms(1) None assms(2)] by blast
  have dist: "distinct (map uid_of kept)" using inv by (simp add: budget_inv_def)
  have "sum_list (map (measured canonicalSize) (so_resources out)) = sum_list (map (measured canonicalSize) kept)"
    unfolding res by simp
  moreover have "sorted_wrt (\<lambda>a b. provenance_less (sr_provenance a) (sr_provenance b)) (so_resources out)"
  proof -
    have "sorted_wrt (\<lambda>a b. \<not> provenance_less (sr_provenance b) (sr_provenance a)) (so_resources out)"
      unfolding res by (rule resource_order.sorted_sort_by)
    moreover have "sorted_wrt (\<lambda>a b. uid_of a \<noteq> uid_of b) (so_resources out)"
      using dist unfolding res by (intro distinct_map_sorted_wrt) simp
    ultimately show ?thesis
      by (rule sorted_wrt_combine) (use provenance_less_total in blast)
  qed
  ultimately show ?thesis using None inv dist unfolding res by (auto simp: budget_inv_def accountant_inv_def)
qed

definition wit_page :: "string list \<Rightarrow> string \<Rightarrow> unit iteration" where
  "wit_page names token = \<lparr>w_ctx_head = False, w_current_head = (\<lambda>_. True), w_ctx_list = False, w_current_list = (\<lambda>_. True),
     w_reply = Inr (Some \<lparr>lr_items = map (\<lambda>n. \<lparr>li_name = n, li_namespace = ''ns'', li_uid = ''u-'' @ n, li_object = ()\<rparr>) names,
       lr_continue = token\<rparr>), w_ctx_after = False, w_ctx_map = False\<rparr>"

definition wit_exec_target :: ReadTarget where
  "wit_exec_target = \<lparr>rt_sourceID = ''s'', rt_gvr = \<lparr>gvr_group = [], gvr_version = ''v1'', gvr_resource = ''nodes''\<rparr>,
     rt_kind = ''Node'', rt_scope = ScopeCluster, rt_namespace = []\<rparr>"

definition wit_exec_ap :: AuthorizedPlan where
  "wit_exec_ap = \<lparr>ap_plan = wit_bind_plan, ap_reads = [\<lparr>ar_target = wit_exec_target,
     ar_capability = \<lparr>
       cap_subject = \<lparr>sub_key = \<lparr>nn_namespace = ''a'', nn_name = ''b''\<rparr>, sub_uid = ''u'', sub_generation = 1, sub_policyEpoch = 0\<rparr>,
       cap_request = \<lparr>rq_sourceID = ''s'', rq_apiGroup = [], rq_kind = ''Node'', rq_namespace = [], rq_scope = ScopeCluster\<rparr>,
       cap_record = zero_record\<lparr>rec_kind := RecordPolicyDecision, rec_outcome := OutcomeAllowed,
         rec_reason := PolicyReasonText ReasonAllowed\<rparr>\<rparr>\<rparr>]\<rparr>"

definition wit_exec_run :: "unit SelectionOutcome option \<times> wire_call list \<times> AuthRecord list \<times> unit iteration list" where
  "wit_exec_run = Execute True (DynamicList \<lparr>dl_client = True, dl_verifier = True\<rparr>) (\<lambda>_. Some 3)
     (NewExecutor [Some (WithVerifier True), Some (WithMaxMatchedResources 3), Some (WithMaxSelectedInputBytes 9)])
     wit_exec_ap
     [wit_page [''b''] ''t'', (wit_page [] []) \<lparr>w_reply := Inl ListExpired\<rparr>, wit_page [''b'', ''a''] []]"

theorem Execute_bounded_witness:
  "\<exists>out. fst wit_exec_run = Some out \<and> map uid_of (so_resources out) = [''u-a'', ''u-b''] \<and>
     distinct (map uid_of (so_resources out))"
proof -
  have "(case fst wit_exec_run of None \<Rightarrow> False
     | Some out \<Rightarrow> map uid_of (so_resources out) = [''u-a'', ''u-b''])" by code_simp
  then obtain out where out: "fst wit_exec_run = Some out" "map uid_of (so_resources out) = [''u-a'', ''u-b'']"
    by (auto split: option.splits)
  obtain calls records rest where run: "wit_exec_run = (Some out, calls, records, rest)"
    using out(1) by (metis prod.collapse)
  have "int64_range (ex_maxInputBytes (NewExecutor [Some (WithVerifier True), Some (WithMaxMatchedResources 3),
     Some (WithMaxSelectedInputBytes 9)]))" by code_simp
  from Execute_bounded[OF run[unfolded wit_exec_run_def] this]
  have "distinct (map uid_of (so_resources out))" by (rule conjunct1)
  with out show ?thesis by (intro exI conjI)
qed

text \<open>C11: the paginated read of a target returns once the server has given a reply that is neither a
  further page nor an expiry, or has let the list expire twice: it needs no reply after that, sends at most one request per
  reply, and asks for the first page at most twice, so an expired list is read again at most once.\<close>

theorem listTarget_total:
  assumes "(\<exists>w \<in> set pre. final_reply w) \<or> 2 \<le> length (filter expired_reply pre)"
  shows "tr_result (listTarget (DynamicList l) canonicalSize ex plan read st [] False (pre @ post)) \<noteq> None \<and>
    length post \<le> length (tr_rest (listTarget (DynamicList l) canonicalSize ex plan read st [] False (pre @ post))) \<and>
    length (tr_calls (listTarget (DynamicList l) canonicalSize ex plan read st [] False (pre @ post))) \<le> length pre \<and>
    list_starts (tr_calls (listTarget (DynamicList l) canonicalSize ex plan read st [] False (pre @ post))) \<le> 2"
proof -
  have "conclusive False pre" using assms by (simp add: conclusive_def)
  then show ?thesis
    using listTarget_returns[of False pre l canonicalSize ex plan read st "[]" post]
      dynamic.listTarget_call_bound[of l canonicalSize ex plan read st "[]" False "pre @ post"]
      listTarget_starts[of l canonicalSize ex plan read st "[]" False "pre @ post"]
    by simp
qed

definition wit_expired :: "unit iteration" where
  "wit_expired = (wit_page [] [])\<lparr>w_reply := Inl ListExpired\<rparr>"

definition wit_list_run :: "unit target_run" where
  "wit_list_run = listTarget (DynamicList \<lparr>dl_client = True, dl_verifier = True\<rparr>) (\<lambda>_. Some 3)
     (NewExecutor [Some (WithVerifier True), Some (WithMaxMatchedResources 3), Some (WithMaxSelectedInputBytes 9)])
     (ap_plan wit_exec_ap) (hd (ap_reads wit_exec_ap))
     \<lparr>ts_items = [], ts_accepted = [], ts_budget = the (newSelectionBudget 3 9)\<rparr> [] False
     ([wit_page [''a''] ''t'', wit_expired, wit_page [''a''] ''t2'', wit_expired] @ [wit_page [''b''] []])"

text \<open>A server that lets the list expire twice: four requests, two of them for the first page, and the read fails.\<close>

theorem listTarget_total_witness:
  "tr_result wit_list_run = Some (Inl (NewSelectionError ''s'' SelListExpired ''resource list continuation expired'')) \<and>
   length (tr_calls wit_list_run) = 4 \<and> list_starts (tr_calls wit_list_run) = 2 \<and> length (tr_rest wit_list_run) = 1"
proof -
  let ?ws = "[wit_page [''a''] ''t'', wit_expired, wit_page [''a''] ''t2'', wit_expired]"
  have two: "2 \<le> length (filter expired_reply ?ws)" by (simp add: expired_reply_def wit_page_def wit_expired_def)
  note bounds = listTarget_total[OF disjI2[OF two], THEN conjunct2, THEN conjunct2]
  have "length (tr_calls wit_list_run) \<le> length ?ws" unfolding wit_list_run_def by (rule bounds[THEN conjunct1])
  moreover have "list_starts (tr_calls wit_list_run) \<le> 2" unfolding wit_list_run_def by (rule bounds[THEN conjunct2])
  moreover have "4 \<le> length (tr_calls wit_list_run)" "2 \<le> list_starts (tr_calls wit_list_run)" "length (tr_rest wit_list_run) = 1"
    "tr_result wit_list_run = Some (Inl (NewSelectionError ''s'' SelListExpired ''resource list continuation expired''))"
    by code_simp+
  ultimately show ?thesis by simp
qed

end
