(* ===== verification/Native.thy ===== *)
theory Native
  imports Prelude
begin

text \<open>
  Native JSON values as \<^verbatim>\<open>unstructured\<close> objects hold them, and the defensive copy shared by
  \<^verbatim>\<open>src/internal/extraction/evaluator.go\<close> and \<^verbatim>\<open>src/internal/typedoutput/converters.go\<close>
  (\<^verbatim>\<open>cloneJSONValue\<close>).  A map is an association list; \<open>JOther\<close> is any Go value outside the JSON types.
  A finite \<^verbatim>\<open>float64\<close> is its exact value.
\<close>

datatype float64 = FloatNaN | FloatInf bool | Finite rat

datatype JValue =
    JNull
  | JBool bool
  | JString string
  | JInt int
  | JFloat float64
  | JNumber string
  | JObject "(string \<times> JValue) list"
  | JArray "JValue list"
  | JOther

fun cloneJSONValue :: "JValue \<Rightarrow> JValue option"
  and cloneMembers :: "(string \<times> JValue) list \<Rightarrow> (string \<times> JValue) list option"
  and cloneItems :: "JValue list \<Rightarrow> JValue list option" where
  "cloneJSONValue JNull = Some JNull"
| "cloneJSONValue (JBool b) = Some (JBool b)"
| "cloneJSONValue (JString s) = Some (JString s)"
| "cloneJSONValue (JInt i) = Some (JInt i)"
| "cloneJSONValue (JFloat f) = Some (JFloat f)"
| "cloneJSONValue (JNumber s) = Some (JNumber s)"
| "cloneJSONValue (JObject m) = (case cloneMembers m of None \<Rightarrow> None | Some m' \<Rightarrow> Some (JObject m'))"
| "cloneJSONValue (JArray vs) = (case cloneItems vs of None \<Rightarrow> None | Some vs' \<Rightarrow> Some (JArray vs'))"
| "cloneJSONValue JOther = None"
| "cloneMembers [] = Some []"
| "cloneMembers ((k, v) # m) = (case cloneJSONValue v of None \<Rightarrow> None
    | Some v' \<Rightarrow> (case cloneMembers m of None \<Rightarrow> None | Some m' \<Rightarrow> Some ((k, v') # m')))"
| "cloneItems [] = Some []"
| "cloneItems (v # vs) = (case cloneJSONValue v of None \<Rightarrow> None
    | Some v' \<Rightarrow> (case cloneItems vs of None \<Rightarrow> None | Some vs' \<Rightarrow> Some (v' # vs')))"

text \<open>The JSON-compatible values: no foreign value anywhere inside.\<close>

fun json_native :: "JValue \<Rightarrow> bool" where
  "json_native (JObject m) \<longleftrightarrow> (\<forall>kv \<in> set m. json_native (snd kv))"
| "json_native (JArray vs) \<longleftrightarrow> (\<forall>v \<in> set vs. json_native v)"
| "json_native JOther \<longleftrightarrow> False"
| "json_native _ \<longleftrightarrow> True"

lemma clone_eq:
  "cloneJSONValue v = (if json_native v then Some v else None)"
  "cloneMembers m = (if \<forall>kv \<in> set m. json_native (snd kv) then Some m else None)"
  "cloneItems vs = (if \<forall>v \<in> set vs. json_native v then Some vs else None)"
  by (induction v and m and vs rule: cloneJSONValue_cloneMembers_cloneItems.induct) auto

lemma json_native_member: "json_native (JObject m) \<Longrightarrow> lookup m k = Some v \<Longrightarrow> json_native v"
  by (auto simp: lookup_map_of dest!: map_of_SomeD)

end
