(* ===== verification/FieldExtraction.thy ===== *)
theory FieldExtraction
  imports SelectionExecution Native
begin

text \<open>
  Field extraction (\<^verbatim>\<open>src/internal/extraction\<close>): the parser of the delimited JSONPath subset
  (\<^verbatim>\<open>parser.go\<close>), source compilation (\<^verbatim>\<open>compiler.go\<close>), evaluation of one resource (\<^verbatim>\<open>evaluator.go\<close>) and
  the batch with its byte ceiling (\<^verbatim>\<open>batch.go\<close>).

  The parser's \<open>position\<close> is kept beside the unread suffix of the body, so error offsets are those of the
  source.  The context is threaded through evaluation: every \<^verbatim>\<open>ctx.Err()\<close> of the code consumes one check.
  The depth-first selector \<open>select_from\<close> is the reference semantics of a path.
\<close>

section \<open>Types\<close>

datatype operation = OpProperty string | OpIndex nat | OpWildcard

datatype ExtractionErrorReason =
    ExInvalidExpression | ExUnsupportedExpression | ExEvaluationTypeMismatch | ExInvalidResource
  | ExInvalidInput | ExExtractionInterrupted | ExValueLimitExceeded

fun ex_reason_text :: "ExtractionErrorReason \<Rightarrow> string" where
  "ex_reason_text ExInvalidExpression = ''InvalidExpression''"
| "ex_reason_text ExUnsupportedExpression = ''UnsupportedExpression''"
| "ex_reason_text ExEvaluationTypeMismatch = ''EvaluationTypeMismatch''"
| "ex_reason_text ExInvalidResource = ''InvalidResource''"
| "ex_reason_text ExInvalidInput = ''InvalidInput''"
| "ex_reason_text ExExtractionInterrupted = ''ExtractionInterrupted''"
| "ex_reason_text ExValueLimitExceeded = ''ValueLimitExceeded''"

record ExtractionError =
  ee_sourceID :: string
  ee_fieldName :: string
  ee_fieldIndex :: nat
  ee_provenance :: "FacetResourceProvenance option"
  ee_reason :: ExtractionErrorReason
  ee_message :: string
  ee_offset :: nat

record ExFieldPlan =
  xf_name :: string
  xf_path :: string
  xf_ops :: "operation list"

record ExPlan =
  xp_sourceID :: string
  xp_fields :: "ExFieldPlan list"

record FieldOutcome =
  fo_fieldName :: string
  fo_matches :: "JValue list"

record ResourceOutcome =
  ro_provenance :: FacetResourceProvenance
  ro_fields :: "FieldOutcome list"

datatype extraction_source_error = FromSelection SelectionError | FromExtraction ExtractionError

record SourceOutcome =
  xo_sourceID :: string
  xo_resources :: "ResourceOutcome list"
  xo_err :: "extraction_source_error option"

section \<open>Parser\<close>

text \<open>A parse error: reason, message and offset; the caller adds source and field.\<close>

type_synonym parse_error = "ExtractionErrorReason \<times> string \<times> nat"

abbreviation invalidExpression :: "string \<Rightarrow> nat \<Rightarrow> parse_error" where
  "invalidExpression msg off \<equiv> (ExInvalidExpression, msg, off)"

abbreviation unsupportedExpression :: "string \<Rightarrow> nat \<Rightarrow> parse_error" where
  "unsupportedExpression msg off \<equiv> (ExUnsupportedExpression, msg, off)"

definition isIdentifierStart :: "char \<Rightarrow> bool" where
  "isIdentifierStart c \<longleftrightarrow> c = CHR ''_'' \<or> is_upper c \<or> is_lower c"

definition isIdentifierPart :: "char \<Rightarrow> bool" where
  "isIdentifierPart c \<longleftrightarrow> isIdentifierStart c \<or> is_digit c"

definition unsupportedToken :: "char \<Rightarrow> bool" where
  "unsupportedToken c \<longleftrightarrow> c \<in> set ''$|?*:@''"

definition outer_space :: "string \<Rightarrow> bool" where
  "outer_space s \<longleftrightarrow>
     (let b = bytes_of s; n = length b in
      strip_space b \<noteq> None \<or>
      (n \<ge> 1 \<and> strip_space (drop (n - 1) b) = Some []) \<or>
      (n \<ge> 2 \<and> strip_space (drop (n - 2) b) = Some []) \<or>
      (n \<ge> 3 \<and> strip_space (drop (n - 3) b) = Some []))"

definition hasTextOutsideSingleExpression :: "string \<Rightarrow> bool" where
  "hasTextOutsideSingleExpression path =
    (if \<not> has_prefix path ''{'' then
       CHR ''{'' \<in> set path \<or> CHR ''}'' \<in> set path \<or> outer_space path
     else CHR ''}'' \<in> set path \<and> length (takeWhile (\<lambda>c. c \<noteq> CHR ''}'') path) \<noteq> length path - 1)"

fun parseIdentifier :: "nat \<Rightarrow> string \<Rightarrow> (parse_error, operation \<times> nat \<times> string) res" where
  "parseIdentifier pos [] = Inl (invalidExpression ''property name is invalid'' (pos + 1))"
| "parseIdentifier pos (c # cs) =
    (if \<not> isIdentifierStart c then
       (if c = CHR ''*'' \<or> c = CHR ''?'' \<or> c = CHR ''|'' then
          Inl (unsupportedExpression ''JSONPath construct is outside the supported subset'' (pos + 1))
        else Inl (invalidExpression ''property name is invalid'' (pos + 1)))
     else Inr (OpProperty (c # takeWhile isIdentifierPart cs), pos + 1 + length (takeWhile isIdentifierPart cs),
            dropWhile isIdentifierPart cs))"

fun parseQuotedKey :: "nat \<Rightarrow> nat \<Rightarrow> string \<Rightarrow> string \<Rightarrow> (parse_error, operation \<times> nat \<times> string) res" where
  "parseQuotedKey start pos key [] = Inl (invalidExpression ''quoted bracket key is not closed'' (start + 1))"
| "parseQuotedKey start pos key (c # cs) =
    (if c = CHR 0x27 then
       (case cs of
          d # rest \<Rightarrow> if d = CHR '']'' then Inr (OpProperty key, pos + 2, rest)
                      else Inl (invalidExpression ''quoted bracket key is not closed'' (start + 1))
        | [] \<Rightarrow> Inl (invalidExpression ''quoted bracket key is not closed'' (start + 1)))
     else if c = CHR 0x5C then
       (case cs of
          d # rest \<Rightarrow> if d = CHR 0x5C \<or> d = CHR 0x27 then parseQuotedKey start (pos + 2) (key @ [d]) rest
                      else Inl (invalidExpression ''quoted bracket key contains an invalid escape'' (pos + 2))
        | [] \<Rightarrow> Inl (invalidExpression ''quoted bracket key contains an invalid escape'' (pos + 2)))
     else parseQuotedKey start (pos + 1) (key @ [c]) cs)"

definition parseIndex :: "nat \<Rightarrow> nat \<Rightarrow> string \<Rightarrow> (parse_error, operation \<times> nat \<times> string) res" where
  "parseIndex start pos s =
    (let text = takeWhile is_digit s; rest = dropWhile is_digit s; pos' = pos + length text in
     case rest of
       [] \<Rightarrow> Inl (invalidExpression ''array index token is not closed'' (start + 1))
     | c # rest' \<Rightarrow>
        if c \<noteq> CHR '']'' then
          (if c = CHR '':'' \<or> c = CHR '','' then
             Inl (unsupportedExpression ''slices and unions are unsupported'' (pos' + 1))
           else Inl (invalidExpression ''array index token is not closed'' (start + 1)))
        else if read_nat text > 9223372036854775807 then
          Inl (invalidExpression ''array index is outside the supported range'' (pos + 1))
        else Inr (OpIndex (read_nat text), pos' + 1, rest'))"

text \<open>\<open>parseBracket\<close> is entered with the opening bracket at \<open>start\<close> and \<open>s\<close> the text after it.\<close>

definition parseBracket :: "nat \<Rightarrow> string \<Rightarrow> (parse_error, operation \<times> nat \<times> string) res" where
  "parseBracket start s = (case s of
      [] \<Rightarrow> Inl (invalidExpression ''bracket token is not closed'' (start + 1))
    | c # cs \<Rightarrow>
       if c = CHR 0x27 then parseQuotedKey start (start + 2) [] cs
       else if c = CHR 0x22 then
         Inl (unsupportedExpression ''double-quoted bracket keys are unsupported'' (start + 2))
       else if c = CHR ''*'' then
         (case cs of
            d # rest \<Rightarrow> if d = CHR '']'' then Inr (OpWildcard, start + 3, rest)
                        else Inl (invalidExpression ''wildcard bracket token is malformed'' (start + 1))
          | [] \<Rightarrow> Inl (invalidExpression ''wildcard bracket token is malformed'' (start + 1)))
       else if c = CHR ''-'' then
         Inl (unsupportedExpression ''negative indexes are unsupported'' (start + 2))
       else if c = CHR ''?'' \<or> c = CHR '':'' \<or> c = CHR '','' then
         Inl (unsupportedExpression ''filters, slices, and unions are unsupported'' (start + 2))
       else if \<not> is_digit c then
         (if c = CHR '']'' then Inl (invalidExpression ''bracket token is empty'' (start + 2))
          else Inl (unsupportedExpression ''bracket construct is outside the supported subset'' (start + 2)))
       else parseIndex start (start + 1) s)"

definition parseSegment :: "nat \<Rightarrow> char \<Rightarrow> string \<Rightarrow> (parse_error, operation \<times> nat \<times> string) res" where
  "parseSegment pos c cs =
    (if c = CHR ''.'' then
       (if cs \<noteq> [] \<and> hd cs = CHR ''.'' then
          Inl (unsupportedExpression ''recursive descent is unsupported'' (pos + 1))
        else parseIdentifier (pos + 1) cs)
     else if c = CHR ''['' then parseBracket pos cs
     else if isIdentifierStart c then parseIdentifier pos (c # cs)
     else if unsupportedToken c then
       Inl (unsupportedExpression ''JSONPath construct is outside the supported subset'' (pos + 1))
     else Inl (invalidExpression ''path contains an invalid token'' (pos + 1)))"

lemma parseIdentifier_shorter:
  "parseIdentifier pos s = Inr (oper, pos', rest) \<Longrightarrow> length rest < length s"
  by (cases s) (auto split: if_splits simp: length_dropWhile_le less_Suc_eq_le)

lemma parseQuotedKey_shorter:
  "parseQuotedKey start pos key s = Inr (oper, pos', rest) \<Longrightarrow> length rest < length s"
  by (induction start pos key s rule: parseQuotedKey.induct) (auto split: if_splits list.splits)

lemma parseIndex_shorter:
  "parseIndex start pos s = Inr (oper, pos', rest) \<Longrightarrow> length rest < length s"
  using length_dropWhile_le[of is_digit s]
  by (auto simp: parseIndex_def Let_def split: if_splits list.splits)

lemma parseBracket_shorter:
  "parseBracket start s = Inr (oper, pos', rest) \<Longrightarrow> length rest \<le> length s"
  by (auto simp: parseBracket_def split: if_splits list.splits
      dest!: parseQuotedKey_shorter parseIndex_shorter)

lemma parseSegment_shorter:
  "parseSegment pos c cs = Inr (oper, pos', rest) \<Longrightarrow> length rest < length (c # cs)"
  using parseIdentifier_shorter[of pos "c # cs" oper pos' rest] parseIdentifier_shorter[of "pos + 1" cs oper pos' rest]
    parseBracket_shorter[of pos cs oper pos' rest]
  by (auto simp: parseSegment_def simp del: parseIdentifier.simps split: if_splits)

function parseOps :: "nat \<Rightarrow> string \<Rightarrow> (parse_error, operation list) res" where
  "parseOps pos [] = Inr []"
| "parseOps pos (c # cs) =
    (case parseSegment pos c cs of
       Inl e \<Rightarrow> Inl e
     | Inr (oper, pos', rest) \<Rightarrow>
        (case parseOps pos' rest of Inl e \<Rightarrow> Inl e | Inr ops \<Rightarrow> Inr (oper # ops)))"
  by pat_completeness auto
termination
  by (relation "measure (\<lambda>(pos, s). length s)") (auto dest!: parseSegment_shorter)

definition parsePath :: "string \<Rightarrow> (parse_error, operation list) res" where
  "parsePath path =
    (if path = [] then Inl (invalidExpression ''path is empty'' 0)
     else if hasTextOutsideSingleExpression path then
       Inl (unsupportedExpression ''text outside the single delimited path'' 0)
     else if length path < 2 \<or> hd path \<noteq> CHR ''{'' \<or> last path \<noteq> CHR ''}'' then
       Inl (invalidExpression ''path must have one opening and closing delimiter'' 0)
     else
       (let body = butlast (tl path) in
        if CHR ''{'' \<in> set body \<or> CHR ''}'' \<in> set body then
          Inl (unsupportedExpression ''multiple or nested path delimiters are unsupported'' 1)
        else if has_prefix body ''..'' then
          Inl (unsupportedExpression ''recursive descent is unsupported'' 1)
        else if body = [] \<or> hd body \<noteq> CHR ''.'' then
          Inl (invalidExpression ''path must address the resource root with a leading dot'' 1)
        else parseOps 1 (tl body)))"

section \<open>Compilation\<close>

text \<open>\<^verbatim>\<open>fieldNamePattern\<close>: a lower-case letter, letters and digits, then groups of a dash and lower-case
  letters or digits.\<close>

fun fieldNameTail :: "bool \<Rightarrow> string \<Rightarrow> bool" where
  "fieldNameTail open_group [] \<longleftrightarrow> \<not> open_group"
| "fieldNameTail open_group (c # cs) \<longleftrightarrow>
    (if c = CHR ''-'' then \<not> open_group \<and> fieldNameTail True cs
     else (is_lower c \<or> is_digit c) \<and> fieldNameTail False cs)"

fun fieldNamePattern :: "string \<Rightarrow> bool" where
  "fieldNamePattern [] \<longleftrightarrow> False"
| "fieldNamePattern (c # cs) \<longleftrightarrow> is_lower c \<and>
    (case dropWhile is_alnum cs of
       [] \<Rightarrow> True
     | d # rest \<Rightarrow> d = CHR ''-'' \<and> fieldNameTail True rest)"

definition fieldError :: "FacetSource \<Rightarrow> FacetField \<Rightarrow> nat \<Rightarrow> ExtractionErrorReason \<Rightarrow> string \<Rightarrow> nat \<Rightarrow> ExtractionError" where
  "fieldError source f i reason msg off = \<lparr>ee_sourceID = fs_id source, ee_fieldName = ff_name f, ee_fieldIndex = i,
     ee_provenance = None, ee_reason = reason, ee_message = msg, ee_offset = off\<rparr>"

definition compileField ::
  "FacetSource \<Rightarrow> (string \<times> nat) list \<Rightarrow> FacetField \<Rightarrow> nat \<Rightarrow> (ExtractionError, ExFieldPlan) res \<times> (string \<times> nat) list" where
  "compileField source seen f i =
    (if \<not> fieldNamePattern (ff_name f) \<or> length (ff_name f) > 63 then
       (Inl (fieldError source f i ExInvalidInput ''field name is invalid'' 0), seen)
     else case lookup seen (ff_name f) of
       Some prev \<Rightarrow>
         (Inl (fieldError source f i ExInvalidInput (''field name is duplicated at index '' @ show_nat prev) 0), seen)
     | None \<Rightarrow>
        (if ff_path f = [] \<or> length (ff_path f) > 1024 then
           Inl (fieldError source f i ExInvalidInput ''field path length is invalid'' 0)
         else case parsePath (ff_path f) of
           Inl (reason, msg, off) \<Rightarrow> Inl (fieldError source f i reason msg off)
         | Inr ops \<Rightarrow> Inr \<lparr>xf_name = ff_name f, xf_path = ff_path f, xf_ops = ops\<rparr>,
         (ff_name f, i) # seen))"

fun compileFields ::
  "FacetSource \<Rightarrow> (string \<times> nat) list \<Rightarrow> (FacetField \<times> nat) list \<Rightarrow> ExFieldPlan list \<times> ExtractionError list" where
  "compileFields source seen [] = ([], [])"
| "compileFields source seen ((f, i) # rest) =
    (case compileField source seen f i of
       (r, seen') \<Rightarrow>
         (case compileFields source seen' rest of
            (plans, failures) \<Rightarrow>
              (case r of Inl e \<Rightarrow> (plans, e # failures) | Inr p \<Rightarrow> (p # plans, failures))))"

definition failure_less :: "ExtractionError \<Rightarrow> ExtractionError \<Rightarrow> bool" where
  "failure_less a b =
    (if ee_fieldIndex a \<noteq> ee_fieldIndex b then ee_fieldIndex a < ee_fieldIndex b
     else if ee_reason a \<noteq> ee_reason b then ex_reason_text (ee_reason a) < ex_reason_text (ee_reason b)
     else ee_message a < ee_message b)"

definition CompileSourceAll :: "FacetSource \<Rightarrow> ExPlan \<times> ExtractionError list" where
  "CompileSourceAll source =
    (let indexed = sort_by (\<lambda>a b. ff_name (fst a) < ff_name (fst b)) (zip (fs_fields source) [0..<length (fs_fields source)]);
         (plans, failures) = compileFields source [] indexed in
     (\<lparr>xp_sourceID = fs_id source, xp_fields = sort_by (\<lambda>a b. xf_name a < xf_name b) plans\<rparr>,
      sort_by failure_less failures))"

definition CompileSource :: "FacetSource \<Rightarrow> (ExtractionError, ExPlan) res" where
  "CompileSource source = (case CompileSourceAll source of
      (plan, []) \<Rightarrow> Inr plan
    | (plan, e # es) \<Rightarrow> Inl e)"

definition CompileBatch :: "FacetSource list \<Rightarrow> (ExtractionError, ExPlan) res list" where
  "CompileBatch sources = map CompileSource sources"

section \<open>Evaluation\<close>

datatype eval_stop = StopInterrupted | StopMismatch string | StopInvalid

text \<open>Every function returns its result with the context after its last check.  The wildcard loop makes one
  check per element.\<close>

fun takeElements :: "ctx \<Rightarrow> JValue list \<Rightarrow> (eval_stop, JValue list) res \<times> ctx" where
  "takeElements c [] = (Inr [], c)"
| "takeElements c (v # vs) =
    (case ctx_err c of
       (True, c1) \<Rightarrow> (Inl StopInterrupted, c1)
     | (False, c1) \<Rightarrow> (case takeElements c1 vs of (Inl e, c2) \<Rightarrow> (Inl e, c2) | (Inr ws, c2) \<Rightarrow> (Inr (v # ws), c2)))"

definition applyOperation :: "operation \<Rightarrow> ctx \<Rightarrow> JValue \<Rightarrow> (eval_stop, JValue list) res \<times> ctx" where
  "applyOperation oper c branch = (case oper of
      OpProperty key \<Rightarrow>
        (case branch of
           JObject m \<Rightarrow> (case lookup m key of Some v \<Rightarrow> (Inr [v], c) | None \<Rightarrow> (Inr [], c))
         | _ \<Rightarrow> (Inl (StopMismatch ''property access requires an object''), c))
    | OpIndex i \<Rightarrow>
        (case branch of
           JArray vs \<Rightarrow> (if i < length vs then (Inr [vs ! i], c) else (Inr [], c))
         | _ \<Rightarrow> (Inl (StopMismatch ''array index requires an array''), c))
    | OpWildcard \<Rightarrow>
        (case branch of
           JArray vs \<Rightarrow> takeElements c vs
         | _ \<Rightarrow> (Inl (StopMismatch ''array wildcard requires an array''), c)))"

fun applyBranches :: "operation \<Rightarrow> ctx \<Rightarrow> JValue list \<Rightarrow> (eval_stop, JValue list) res \<times> ctx" where
  "applyBranches oper c [] = (Inr [], c)"
| "applyBranches oper c (b # bs) =
    (case ctx_err c of
       (True, c1) \<Rightarrow> (Inl StopInterrupted, c1)
     | (False, c1) \<Rightarrow>
        (case applyOperation oper c1 b of
           (Inl e, c2) \<Rightarrow> (Inl e, c2)
         | (Inr vs, c2) \<Rightarrow>
            (case applyBranches oper c2 bs of (Inl e, c3) \<Rightarrow> (Inl e, c3) | (Inr ws, c3) \<Rightarrow> (Inr (vs @ ws), c3))))"

fun applyOps :: "operation list \<Rightarrow> ctx \<Rightarrow> JValue list \<Rightarrow> (eval_stop, JValue list) res \<times> ctx" where
  "applyOps [] c branches = (Inr branches, c)"
| "applyOps (oper # ops) c branches =
    (case ctx_err c of
       (True, c1) \<Rightarrow> (Inl StopInterrupted, c1)
     | (False, c1) \<Rightarrow>
        (case applyBranches oper c1 branches of
           (Inl e, c2) \<Rightarrow> (Inl e, c2)
         | (Inr bs, c2) \<Rightarrow> applyOps ops c2 bs))"

fun cloneMatches :: "ctx \<Rightarrow> JValue list \<Rightarrow> (eval_stop, JValue list) res \<times> ctx" where
  "cloneMatches c [] = (Inr [], c)"
| "cloneMatches c (b # bs) =
    (case ctx_err c of
       (True, c1) \<Rightarrow> (Inl StopInterrupted, c1)
     | (False, c1) \<Rightarrow>
        (case cloneJSONValue b of
           None \<Rightarrow> (Inl StopInvalid, c1)
         | Some v \<Rightarrow> (case cloneMatches c1 bs of (Inl e, c2) \<Rightarrow> (Inl e, c2) | (Inr vs, c2) \<Rightarrow> (Inr (v # vs), c2))))"

definition evaluateField :: "ctx \<Rightarrow> ExFieldPlan \<Rightarrow> (string \<times> JValue) list \<Rightarrow> (eval_stop, JValue list) res \<times> ctx" where
  "evaluateField c f doc =
    (case applyOps (xf_ops f) c [JObject doc] of
       (Inl e, c1) \<Rightarrow> (Inl e, c1)
     | (Inr branches, c1) \<Rightarrow> cloneMatches c1 branches)"

fun stop_reason :: "eval_stop \<Rightarrow> ExtractionErrorReason \<times> string" where
  "stop_reason StopInterrupted = (ExExtractionInterrupted, ''extraction interrupted'')"
| "stop_reason (StopMismatch msg) = (ExEvaluationTypeMismatch, msg)"
| "stop_reason StopInvalid = (ExInvalidResource, ''selected resource contains an invalid native value'')"

definition resourceError ::
  "string \<Rightarrow> string \<Rightarrow> FacetResourceProvenance \<Rightarrow> ExtractionErrorReason \<times> string \<Rightarrow> ExtractionError" where
  "resourceError sid fieldName prov rm = \<lparr>ee_sourceID = sid, ee_fieldName = fieldName, ee_fieldIndex = 0,
     ee_provenance = Some prov, ee_reason = fst rm, ee_message = snd rm, ee_offset = 0\<rparr>"

fun evaluateFields ::
  "ctx \<Rightarrow> string \<Rightarrow> FacetResourceProvenance \<Rightarrow> (string \<times> JValue) list \<Rightarrow> ExFieldPlan list \<Rightarrow>
   (ExtractionError, FieldOutcome list) res \<times> ctx" where
  "evaluateFields c sid prov doc [] = (Inr [], c)"
| "evaluateFields c sid prov doc (f # fs) =
    (case ctx_err c of
       (True, c1) \<Rightarrow> (Inl (resourceError sid (xf_name f) prov (stop_reason StopInterrupted)), c1)
     | (False, c1) \<Rightarrow>
        (case evaluateField c1 f doc of
           (Inl e, c2) \<Rightarrow> (Inl (resourceError sid (xf_name f) prov (stop_reason e)), c2)
         | (Inr vs, c2) \<Rightarrow>
            (case evaluateFields c2 sid prov doc fs of
               (Inl e, c3) \<Rightarrow> (Inl e, c3)
             | (Inr outs, c3) \<Rightarrow> (Inr (\<lparr>fo_fieldName = xf_name f, fo_matches = vs\<rparr> # outs), c3))))"

text \<open>A selected object is its content map, \<open>None\<close> for a nil object.\<close>

type_synonym selected = "(string \<times> JValue) list option SelectedResource"

definition EvaluateResource :: "ctx \<Rightarrow> ExPlan \<Rightarrow> selected \<Rightarrow> (ExtractionError, ResourceOutcome) res \<times> ctx" where
  "EvaluateResource c plan r =
    (case ctx_err c of
       (True, c1) \<Rightarrow> (Inl (resourceError (xp_sourceID plan) [] (sr_provenance r) (stop_reason StopInterrupted)), c1)
     | (False, c1) \<Rightarrow>
        (case sr_object r of
           None \<Rightarrow> (Inl (resourceError (xp_sourceID plan) [] (sr_provenance r)
                     (ExInvalidResource, ''selected resource is not a valid object'')), c1)
         | Some doc \<Rightarrow>
            (case cloneJSONValue (JObject doc) of
               None \<Rightarrow> (Inl (resourceError (xp_sourceID plan) [] (sr_provenance r) (stop_reason StopInvalid)), c1)
             | Some _ \<Rightarrow>
                (case evaluateFields c1 (xp_sourceID plan) (sr_provenance r) doc (xp_fields plan) of
                   (Inl e, c2) \<Rightarrow> (Inl e, c2)
                 | (Inr fouts, c2) \<Rightarrow> (Inr \<lparr>ro_provenance = sr_provenance r, ro_fields = fouts\<rparr>, c2)))))"

section \<open>Batches\<close>

definition sourceError :: "string \<Rightarrow> ExtractionErrorReason \<Rightarrow> string \<Rightarrow> extraction_source_error" where
  "sourceError sid reason msg = FromExtraction \<lparr>ee_sourceID = sid, ee_fieldName = [], ee_fieldIndex = 0,
     ee_provenance = None, ee_reason = reason, ee_message = msg, ee_offset = 0\<rparr>"

abbreviation interruptedSourceError :: "string \<Rightarrow> extraction_source_error" where
  "interruptedSourceError sid \<equiv> sourceError sid ExExtractionInterrupted ''extraction interrupted''"

abbreviation valueLimitError :: "string \<Rightarrow> extraction_source_error" where
  "valueLimitError sid \<equiv> sourceError sid ExValueLimitExceeded ''produced value ceiling exceeded''"

text \<open>The loop over one source's resources: the accountant is \<open>None\<close> for an unbounded call.\<close>

fun extractResources ::
  "(ResourceOutcome \<Rightarrow> nat option) \<Rightarrow> string \<Rightarrow> ExPlan \<Rightarrow> ctx \<Rightarrow> Accountant option \<Rightarrow> selected list \<Rightarrow>
   (extraction_source_error, ResourceOutcome list) res \<times> ctx" where
  "extractResources canonicalSize sid plan c acc [] = (Inr [], c)"
| "extractResources canonicalSize sid plan c acc (r # rs) =
    (case ctx_err c of
       (True, c1) \<Rightarrow> (Inl (interruptedSourceError sid), c1)
     | (False, c1) \<Rightarrow>
        (case EvaluateResource c1 plan r of
           (Inl e, c2) \<Rightarrow> (Inl (FromExtraction e), c2)
         | (Inr out, c2) \<Rightarrow>
            (case (case acc of None \<Rightarrow> Inr None
                    | Some a \<Rightarrow> (case Add canonicalSize a out of Inl e \<Rightarrow> Inl e | Inr a' \<Rightarrow> Inr (Some a'))) of
               Inl e \<Rightarrow> (Inl (valueLimitError sid), c2)
             | Inr acc' \<Rightarrow>
                (case extractResources canonicalSize sid plan c2 acc' rs of
                   (Inl e, c3) \<Rightarrow> (Inl e, c3)
                 | (Inr outs, c3) \<Rightarrow> (Inr (out # outs), c3)))))"

abbreviation failedSource :: "string \<Rightarrow> extraction_source_error \<Rightarrow> SourceOutcome" where
  "failedSource sid e \<equiv> \<lparr>xo_sourceID = sid, xo_resources = [], xo_err = Some e\<rparr>"

definition extractSource ::
  "(ResourceOutcome \<Rightarrow> nat option) \<Rightarrow> int \<Rightarrow> ctx \<Rightarrow> FacetSource \<Rightarrow> (ExtractionError, ExPlan) res \<Rightarrow>
   (string \<times> JValue) list option SelectionOutcome \<Rightarrow> SourceOutcome \<times> ctx" where
  "extractSource canonicalSize maxBytes c source compiled sel =
    (let sid = fs_id source in
     case ctx_err c of
       (True, c1) \<Rightarrow> (failedSource sid (interruptedSourceError sid), c1)
     | (False, c1) \<Rightarrow>
        if so_sourceID sel \<noteq> sid then
          (failedSource sid (sourceError sid ExInvalidInput ''selection source identity does not match declaration''), c1)
        else case compiled of
          Inl e \<Rightarrow> (failedSource sid (FromExtraction e), c1)
        | Inr plan \<Rightarrow>
           (case so_err sel of
              Some e \<Rightarrow> (failedSource sid (FromSelection e), c1)
            | None \<Rightarrow>
               if xp_fields plan = [] \<or> so_resources sel = [] then
                 (\<lparr>xo_sourceID = sid, xo_resources = [], xo_err = None\<rparr>, c1)
               else
                 (case (if maxBytes > 0 then
                          (case NewAccountant maxBytes ''produced-values'' of Inl e \<Rightarrow> Inl e | Inr a \<Rightarrow> Inr (Some a))
                        else Inr None) of
                    Inl e \<Rightarrow> (failedSource sid (valueLimitError sid), c1)
                  | Inr acc \<Rightarrow>
                     (case extractResources canonicalSize sid plan c1 acc (so_resources sel) of
                        (Inl e, c2) \<Rightarrow> (failedSource sid e, c2)
                      | (Inr outs, c2) \<Rightarrow> (\<lparr>xo_sourceID = sid, xo_resources = outs, xo_err = None\<rparr>, c2)))))"

fun extractAll ::
  "(ResourceOutcome \<Rightarrow> nat option) \<Rightarrow> int \<Rightarrow> ctx \<Rightarrow>
   ((FacetSource \<times> (string \<times> JValue) list option SelectionOutcome) \<times> (ExtractionError, ExPlan) res) list \<Rightarrow> SourceOutcome list" where
  "extractAll canonicalSize maxBytes c [] = []"
| "extractAll canonicalSize maxBytes c (((source, sel), compiled) # rest) =
    (case extractSource canonicalSize maxBytes c source compiled sel of
       (out, c') \<Rightarrow> out # extractAll canonicalSize maxBytes c' rest)"

definition ExtractBatchWithLimit ::
  "(ResourceOutcome \<Rightarrow> nat option) \<Rightarrow> int \<Rightarrow> ctx \<Rightarrow>
   (FacetSource \<times> (string \<times> JValue) list option SelectionOutcome) list \<Rightarrow> SourceOutcome list" where
  "ExtractBatchWithLimit canonicalSize maxBytes c inputs =
     extractAll canonicalSize maxBytes c (zip inputs (CompileBatch (map fst inputs)))"

section \<open>Reference semantics of a path\<close>

fun select_from :: "operation list \<Rightarrow> JValue \<Rightarrow> JValue list option" where
  "select_from [] v = Some [v]"
| "select_from (OpProperty key # ops) v =
    (case v of JObject m \<Rightarrow> (case lookup m key of None \<Rightarrow> Some [] | Some w \<Rightarrow> select_from ops w) | _ \<Rightarrow> None)"
| "select_from (OpIndex i # ops) v =
    (case v of JArray vs \<Rightarrow> (if i < length vs then select_from ops (vs ! i) else Some []) | _ \<Rightarrow> None)"
| "select_from (OpWildcard # ops) v =
    (case v of JArray vs \<Rightarrow> map_option concat (those (map (select_from ops) vs)) | _ \<Rightarrow> None)"

text \<open>One operation on one value, without a context.\<close>

definition step_value :: "operation \<Rightarrow> JValue \<Rightarrow> JValue list option" where
  "step_value oper v = (case oper of
      OpProperty key \<Rightarrow> (case v of JObject m \<Rightarrow> (case lookup m key of None \<Rightarrow> Some [] | Some w \<Rightarrow> Some [w]) | _ \<Rightarrow> None)
    | OpIndex i \<Rightarrow> (case v of JArray vs \<Rightarrow> (if i < length vs then Some [vs ! i] else Some []) | _ \<Rightarrow> None)
    | OpWildcard \<Rightarrow> (case v of JArray vs \<Rightarrow> Some vs | _ \<Rightarrow> None))"

definition select_all :: "operation list \<Rightarrow> JValue list \<Rightarrow> JValue list option" where
  "select_all ops vs = map_option concat (those (map (select_from ops) vs))"

section \<open>Lemmas: evaluation\<close>

lemma select_all_Nil [simp]: "select_all ops [] = Some []"
  by (simp add: select_all_def)

lemma select_all_Cons:
  "select_all ops (v # vs) = (case select_from ops v of None \<Rightarrow> None
     | Some xs \<Rightarrow> map_option (\<lambda>ys. xs @ ys) (select_all ops vs))"
  by (cases "those (map (select_from ops) vs)") (auto simp: select_all_def split: option.splits)

lemma select_all_append:
  "select_all ops (vs @ ws) = (case select_all ops vs of None \<Rightarrow> None
     | Some xs \<Rightarrow> map_option (\<lambda>ys. xs @ ys) (select_all ops ws))"
  by (induction vs; cases "select_all ops ws") (auto simp: select_all_Cons split: option.splits)

lemma select_from_step:
  "select_from (oper # ops) v = (case step_value oper v of None \<Rightarrow> None | Some ws \<Rightarrow> select_all ops ws)"
  by (cases oper) (auto simp: step_value_def select_all_def option.map_ident split: JValue.splits option.splits)

lemma takeElements_never [simp]: "takeElements None vs = (Inr vs, None)"
  by (induction vs) auto

lemma applyOperation_never:
  "applyOperation oper None v = (case step_value oper v of
      Some ws \<Rightarrow> (Inr ws, None) | None \<Rightarrow> (Inl (projl (fst (applyOperation oper None v))), None))"
  by (cases oper) (auto simp: applyOperation_def step_value_def split: JValue.splits option.splits)

fun step_all :: "operation \<Rightarrow> JValue list \<Rightarrow> JValue list option" where
  "step_all oper [] = Some []"
| "step_all oper (v # vs) = (case step_value oper v of None \<Rightarrow> None
    | Some ws \<Rightarrow> map_option (\<lambda>xs. ws @ xs) (step_all oper vs))"

text \<open>Success under a context that is never cancelled, as an option.\<close>

abbreviation succeeds :: "('e, 'a) res \<times> ctx \<Rightarrow> 'a option \<Rightarrow> bool" where
  "succeeds r v \<equiv> (case v of Some x \<Rightarrow> r = (Inr x, None) | None \<Rightarrow> isl (fst r))"

lemma applyBranches_never: "succeeds (applyBranches oper None vs) (step_all oper vs)"
proof (induction vs)
  case (Cons v vs)
  then show ?case
    using applyOperation_never[of oper v]
    by (auto split: option.splits prod.splits sum.splits)
qed simp

lemma select_all_step:
  "select_all (oper # ops) vs = (case step_all oper vs of None \<Rightarrow> None | Some ws \<Rightarrow> select_all ops ws)"
proof (induction vs)
  case (Cons v vs)
  then show ?case
    by (auto simp: select_all_Cons select_from_step select_all_append split: option.splits)
qed simp

lemma select_all_no_ops [simp]: "select_all [] vs = Some vs"
  by (induction vs) (auto simp: select_all_Cons)

lemma applyOps_never: "succeeds (applyOps ops None vs) (select_all ops vs)"
proof (induction ops arbitrary: vs)
  case (Cons oper ops)
  show ?case
  proof (cases "step_all oper vs")
    case None
    then show ?thesis
      using applyBranches_never[of oper vs] by (auto simp: select_all_step split: prod.splits sum.splits)
  next
    case (Some ws)
    then have "applyOps (oper # ops) None vs = applyOps ops None ws" using applyBranches_never[of oper vs] by simp
    moreover have "select_all (oper # ops) vs = select_all ops ws" using Some by (simp add: select_all_step)
    ultimately show ?thesis using Cons.IH[of ws] by (simp only:)
  qed
qed simp

lemma cloneMatches_never:
  "cloneMatches None vs = (if list_all json_native vs then (Inr vs, None) else (Inl StopInvalid, None))"
  by (induction vs) (auto simp: clone_eq)

lemma step_value_native: "json_native v \<Longrightarrow> step_value oper v = Some ws \<Longrightarrow> list_all json_native ws"
  by (auto simp: step_value_def list_all_iff json_native_member simp del: json_native.simps
      split: operation.splits JValue.splits option.splits if_splits)
    (auto simp: json_native_member)

lemma step_all_native: "list_all json_native vs \<Longrightarrow> step_all oper vs = Some ws \<Longrightarrow> list_all json_native ws"
  by (induction vs arbitrary: ws) (auto split: option.splits dest: step_value_native)

lemma select_all_native: "list_all json_native vs \<Longrightarrow> select_all ops vs = Some ws \<Longrightarrow> list_all json_native ws"
proof (induction ops arbitrary: vs)
  case (Cons oper ops)
  then show ?case by (auto simp: select_all_step split: option.splits dest: step_all_native)
qed simp

text \<open>Whatever the context does, a value that comes back is the reference value.\<close>

lemma takeElements_Inr: "takeElements c vs = (Inr ws, c') \<Longrightarrow> ws = vs"
  by (induction vs arbitrary: c ws c') (auto split: prod.splits bool.splits sum.splits)

lemma applyOperation_Inr: "applyOperation oper c v = (Inr ws, c') \<Longrightarrow> step_value oper v = Some ws"
  by (auto simp: applyOperation_def step_value_def split: operation.splits JValue.splits option.splits if_splits
      dest: takeElements_Inr)

lemma applyBranches_Inr: "applyBranches oper c vs = (Inr ws, c') \<Longrightarrow> step_all oper vs = Some ws"
  by (induction vs arbitrary: c ws c')
    (auto split: prod.splits bool.splits sum.splits dest: applyOperation_Inr)

lemma applyOps_Inr: "applyOps ops c vs = (Inr ws, c') \<Longrightarrow> select_all ops vs = Some ws"
proof (induction ops arbitrary: c vs)
  case (Cons oper ops)
  then show ?case
    by (auto simp: select_all_step split: prod.splits bool.splits sum.splits dest: applyBranches_Inr)
qed simp

lemma cloneMatches_Inr: "cloneMatches c vs = (Inr ws, c') \<Longrightarrow> ws = vs"
  by (induction vs arbitrary: c ws c') (auto simp: clone_eq split: prod.splits bool.splits sum.splits if_splits)

lemma select_all_single: "select_all ops [v] = select_from ops v"
  by (simp add: select_all_Cons option.map_ident split: option.splits)

lemma evaluateField_Inr:
  "evaluateField c f doc = (Inr vs, c') \<Longrightarrow> select_from (xf_ops f) (JObject doc) = Some vs"
  by (auto simp: evaluateField_def select_all_single split: sum.splits prod.splits
      dest!: applyOps_Inr cloneMatches_Inr)

lemma evaluateField_never:
  assumes "json_native (JObject doc)"
  shows "succeeds (evaluateField None f doc) (select_from (xf_ops f) (JObject doc))"
proof (cases "select_all (xf_ops f) [JObject doc]")
  case None
  then have "isl (fst (applyOps (xf_ops f) None [JObject doc]))"
    using applyOps_never[of "xf_ops f" "[JObject doc]"] by simp
  with None show ?thesis by (auto simp: evaluateField_def select_all_single split: prod.splits sum.splits)
next
  case (Some ws)
  then have "applyOps (xf_ops f) None [JObject doc] = (Inr ws, None)"
    using applyOps_never[of "xf_ops f" "[JObject doc]"] by simp
  moreover have "list_all json_native ws"
    using select_all_native[OF _ Some] assms by simp
  ultimately show ?thesis using Some by (auto simp: evaluateField_def cloneMatches_never select_all_single)
qed

section \<open>Lemmas: parser\<close>

text \<open>A printer for operation sequences in bracket notation.\<close>

fun escape_key :: "string \<Rightarrow> string" where
  "escape_key [] = []"
| "escape_key (c # cs) = (if c = CHR 0x27 \<or> c = CHR 0x5C then [CHR 0x5C, c] else [c]) @ escape_key cs"

fun render_op :: "operation \<Rightarrow> string" where
  "render_op (OpProperty key) = ''['' @ [CHR 0x27] @ escape_key key @ [CHR 0x27] @ '']''"
| "render_op (OpIndex i) = ''['' @ show_nat i @ '']''"
| "render_op OpWildcard = ''[*]''"

definition render_path :: "operation list \<Rightarrow> string" where
  "render_path ops = ''{.'' @ concat (map render_op ops) @ ''}''"

fun expressible :: "operation \<Rightarrow> bool" where
  "expressible (OpProperty key) \<longleftrightarrow> CHR ''{'' \<notin> set key \<and> CHR ''}'' \<notin> set key"
| "expressible (OpIndex i) \<longleftrightarrow> i \<le> 9223372036854775807"
| "expressible OpWildcard \<longleftrightarrow> True"

lemma parseQuotedKey_escape:
  "\<exists>pos'. parseQuotedKey start pos acc (escape_key key @ CHR 0x27 # CHR '']'' # rest) =
     Inr (OpProperty (acc @ key), pos', rest)"
proof (induction key arbitrary: pos acc)
  case (Cons c cs)
  then show ?case
    using Cons.IH[of "pos + 2" "acc @ [c]"] Cons.IH[of "pos + 1" "acc @ [c]"] by auto
qed simp

lemma takeWhile_digits_show:
  "takeWhile is_digit (show_nat i @ CHR '']'' # rest) = show_nat i"
  "dropWhile is_digit (show_nat i @ CHR '']'' # rest) = CHR '']'' # rest"
  using show_nat_digits[of i]
  by (simp_all add: takeWhile_append2 dropWhile_append2 del: is_digit_code)
    (simp_all add: is_digit_def less_eq_char_def)

lemma parseIndex_show:
  assumes "i \<le> 9223372036854775807"
  shows "\<exists>pos'. parseIndex start pos (show_nat i @ CHR '']'' # rest) = Inr (OpIndex i, pos', rest)"
  using assms by (simp add: parseIndex_def takeWhile_digits_show Let_def)

lemma show_nat_head:
  obtains d ds where "show_nat i = d # ds" "is_digit d"
  using show_nat_digits[of i] show_nat_nonempty[of i] by (cases "show_nat i") auto

lemma digit_not_special:
  assumes "is_digit d"
  shows "d \<noteq> CHR 0x27" "d \<noteq> CHR 0x22" "d \<noteq> CHR ''*''" "d \<noteq> CHR ''-''" "d \<noteq> CHR ''?''" "d \<noteq> CHR '':''" "d \<noteq> CHR '',''"
  using assms by auto

lemma parseSegment_render:
  assumes "expressible oper"
  shows "\<exists>pos' c cs. render_op oper @ rest = c # cs \<and> parseSegment pos c cs = Inr (oper, pos', rest)"
proof (cases oper)
  case (OpProperty key)
  obtain pos' where "parseQuotedKey pos (pos + 2) [] (escape_key key @ CHR 0x27 # CHR '']'' # rest) = Inr (OpProperty key, pos', rest)"
    using parseQuotedKey_escape[of pos "pos + 2" "[]" key rest] by auto
  then show ?thesis using OpProperty by (simp add: parseSegment_def parseBracket_def)
next
  case (OpIndex i)
  obtain d ds where d: "show_nat i = d # ds" "is_digit d" by (rule show_nat_head)
  obtain pos' where "parseIndex pos (pos + 1) (show_nat i @ CHR '']'' # rest) = Inr (OpIndex i, pos', rest)"
    using parseIndex_show[of i pos "pos + 1" rest] assms OpIndex by auto
  then show ?thesis
    using OpIndex d digit_not_special[OF d(2)] by (simp add: parseSegment_def parseBracket_def)
next
  case OpWildcard
  then show ?thesis by (simp add: parseSegment_def parseBracket_def)
qed

lemma parseOps_render: "list_all expressible ops \<Longrightarrow> parseOps pos (concat (map render_op ops)) = Inr ops"
proof (induction ops arbitrary: pos)
  case (Cons oper ops)
  then obtain pos' c cs where seg: "render_op oper @ concat (map render_op ops) = c # cs"
    "parseSegment pos c cs = Inr (oper, pos', concat (map render_op ops))"
    using parseSegment_render[of oper] by fastforce
  have "parseOps pos (concat (map render_op (oper # ops))) = parseOps pos (c # cs)" using seg(1) by simp
  then show ?case using seg(2) Cons by simp
qed simp

lemma escape_key_set: "set (escape_key key) \<subseteq> insert (CHR 0x5C) (set key)"
  by (induction key) auto

lemma render_op_no_brace:
  assumes "expressible oper"
  shows "CHR ''{'' \<notin> set (render_op oper)" "CHR ''}'' \<notin> set (render_op oper)"
proof -
  have "c \<in> set (show_nat i) \<Longrightarrow> c \<noteq> CHR ''{'' \<and> c \<noteq> CHR ''}''" for c i
    using show_nat_digits[of i] by auto
  then show "CHR ''{'' \<notin> set (render_op oper)" "CHR ''}'' \<notin> set (render_op oper)"
    using assms escape_key_set by (cases oper; fastforce)+
qed

lemma render_body_no_brace:
  assumes "list_all expressible ops"
  shows "CHR ''{'' \<notin> set (concat (map render_op ops))" "CHR ''}'' \<notin> set (concat (map render_op ops))"
  using assms render_op_no_brace by (auto simp: list_all_iff)

lemma render_head: "ops \<noteq> [] \<Longrightarrow> \<exists>cs. concat (map render_op ops) = CHR ''['' # cs"
  by (cases ops; cases "hd ops") auto

text \<open>What the parser returns is always expressible.\<close>

definition brace_free :: "string \<Rightarrow> bool" where
  "brace_free s \<longleftrightarrow> CHR ''{'' \<notin> set s \<and> CHR ''}'' \<notin> set s"

lemma brace_free_suffix: "brace_free s \<Longrightarrow> set t \<subseteq> set s \<Longrightarrow> brace_free t"
  by (auto simp: brace_free_def)

fun op_key :: "operation \<Rightarrow> string" where
  "op_key (OpProperty key) = key"
| "op_key _ = []"

fun is_property :: "operation \<Rightarrow> bool" where
  "is_property (OpProperty key) = True"
| "is_property _ = False"

lemma expressible_property: "is_property oper \<Longrightarrow> expressible oper \<longleftrightarrow> brace_free (op_key oper)"
  by (cases oper) (auto simp: brace_free_def)

lemma set_dropWhile_subset: "set (dropWhile P s) \<subseteq> set s"
  using set_dropWhileD by fastforce

lemma set_takeWhile_subset: "set (takeWhile P s) \<subseteq> set s"
  using set_takeWhileD by fastforce

lemma parseIdentifier_sets:
  assumes "parseIdentifier pos s = Inr (oper, pos', rest)"
  shows "is_property oper \<and> set (op_key oper) \<subseteq> set s \<and> set rest \<subseteq> set s"
proof (cases s)
  case (Cons c cs)
  with assms have "oper = OpProperty (c # takeWhile isIdentifierPart cs)" "rest = dropWhile isIdentifierPart cs"
    by (auto split: if_splits)
  then show ?thesis
    using Cons set_takeWhile_subset[of isIdentifierPart cs] set_dropWhile_subset[of isIdentifierPart cs] by auto
qed (use assms in simp)

lemma parseQuotedKey_sets:
  "parseQuotedKey start pos acc s = Inr (oper, pos', rest) \<Longrightarrow>
     is_property oper \<and> set (op_key oper) \<subseteq> set acc \<union> set s \<and> set rest \<subseteq> set s"
proof (induction "length s" arbitrary: pos acc s rule: less_induct)
  case less
  obtain c cs where s: "s = c # cs" using less.prems by (cases s) simp_all
  note eq = less.prems[unfolded s]
  show ?case
  proof (cases "c = CHR 0x27")
    case True
    with eq obtain d where "cs = d # rest" "oper = OpProperty acc" by (cases cs) (simp_all split: if_splits)
    then show ?thesis using s by auto
  next
    case unquoted: False
    show ?thesis
    proof (cases "c = CHR 0x5C")
      case True
      with eq obtain d r where r: "cs = d # r" "parseQuotedKey start (pos + 2) (acc @ [d]) r = Inr (oper, pos', rest)"
        by (cases cs) (simp_all split: if_splits)
      have "length r < length s" using s r(1) by simp
      from less.hyps[OF this r(2)] show ?thesis using s r(1) by auto
    next
      case False
      with eq unquoted have r: "parseQuotedKey start (pos + 1) (acc @ [c]) cs = Inr (oper, pos', rest)" by simp
      have "length cs < length s" using s by simp
      from less.hyps[OF this r] show ?thesis using s by auto
    qed
  qed
qed

lemma parseIndex_sets:
  assumes "parseIndex start pos s = Inr (oper, pos', rest)"
  shows "expressible oper \<and> set rest \<subseteq> set s"
proof -
  obtain c where "dropWhile is_digit s = c # rest" "expressible oper"
    using assms by (auto simp: parseIndex_def Let_def simp del: is_digit_code split: if_splits list.splits)
  then show ?thesis using set_dropWhile_subset[of is_digit s] by auto
qed

lemma parseIdentifier_expressible:
  assumes "parseIdentifier p t = Inr (oper, pos', rest)" "brace_free t"
  shows "expressible oper \<and> brace_free rest"
  using parseIdentifier_sets[OF assms(1)] assms(2) expressible_property brace_free_suffix by simp

lemma parseQuotedKey_expressible:
  assumes "parseQuotedKey start p [] t = Inr (oper, pos', rest)" "brace_free t"
  shows "expressible oper \<and> brace_free rest"
  using parseQuotedKey_sets[OF assms(1)] assms(2) expressible_property brace_free_suffix by simp

lemma parseIndex_expressible:
  assumes "parseIndex start p t = Inr (oper, pos', rest)" "brace_free t"
  shows "expressible oper \<and> brace_free rest"
  using parseIndex_sets[OF assms(1)] assms(2) brace_free_suffix by simp

lemma parseBracket_expressible:
  assumes "parseBracket start s = Inr (oper, pos', rest)" "brace_free s"
  shows "expressible oper \<and> brace_free rest"
proof (cases s)
  case (Cons c cs)
  have bf: "brace_free cs" using assms(2) Cons by (simp add: brace_free_def)
  consider (quote) "c = CHR 0x27" | (star) "c = CHR ''*''" | (digit) "is_digit c" "c \<noteq> CHR 0x27" "c \<noteq> CHR ''*''"
    using assms(1) Cons by (auto simp: parseBracket_def simp del: is_digit_code split: if_splits)
  then show ?thesis
  proof cases
    case quote
    then show ?thesis using assms(1) Cons bf parseQuotedKey_expressible by (simp add: parseBracket_def)
  next
    case star
    then show ?thesis using assms(1) Cons bf
      by (auto simp: parseBracket_def brace_free_def split: list.splits if_splits)
  next
    case digit
    then have "parseIndex start (start + 1) s = Inr (oper, pos', rest)"
      using assms(1) Cons digit_not_special[OF digit(1)] by (simp add: parseBracket_def del: is_digit_code)
    then show ?thesis using assms(2) by (rule parseIndex_expressible)
  qed
qed (use assms in \<open>simp add: parseBracket_def\<close>)

lemma parseSegment_expressible:
  assumes "parseSegment pos c cs = Inr (oper, pos', rest)" "brace_free (c # cs)"
  shows "expressible oper \<and> brace_free rest"
proof -
  have bf: "brace_free cs" using assms(2) by (simp add: brace_free_def)
  consider (dot) "parseIdentifier (pos + 1) cs = Inr (oper, pos', rest)"
    | (bracket) "parseBracket pos cs = Inr (oper, pos', rest)"
    | (ident) "parseIdentifier pos (c # cs) = Inr (oper, pos', rest)"
    using assms(1) by (auto simp: parseSegment_def simp del: parseIdentifier.simps split: if_splits)
  then show ?thesis
    by cases (use parseIdentifier_expressible parseBracket_expressible assms(2) bf in blast)+
qed

lemma parseOps_expressible: "parseOps pos s = Inr ops \<Longrightarrow> brace_free s \<Longrightarrow> list_all expressible ops"
proof (induction pos s arbitrary: ops rule: parseOps.induct)
  case (2 pos c cs)
  then obtain oper pos' rest ops' where seg: "parseSegment pos c cs = Inr (oper, pos', rest)"
    and rest: "parseOps pos' rest = Inr ops'" and ops: "ops = oper # ops'"
    by (auto split: sum.splits prod.splits)
  have "expressible oper \<and> brace_free rest" by (rule parseSegment_expressible[OF seg 2(3)])
  then show ?case using "2.IH"[OF seg _ refl rest] ops by simp
qed simp

lemma parsePath_Inr:
  assumes "parsePath path = Inr ops"
  obtains body where "path = ''{.'' @ body @ ''}''" "brace_free body" "parseOps 1 body = Inr ops"
proof -
  let ?b = "butlast (tl path)"
  have h: "path \<noteq> []" "hd path = CHR ''{''" "last path = CHR ''}''" "\<not> length path < 2"
    "brace_free ?b" "?b \<noteq> []" "hd ?b = CHR ''.''" "parseOps 1 (tl ?b) = Inr ops"
    using assms by (auto simp: parsePath_def Let_def brace_free_def split: if_splits)
  have "tl path \<noteq> []" using h(4) by (cases path; cases "tl path") auto
  then have "path = hd path # ?b @ [last path]"
    using h(1) by (metis append_butlast_last_id last_tl list.collapse)
  also have "\<dots> = ''{.'' @ tl ?b @ ''}''" using h(2,3,6,7) by (cases ?b) simp_all
  finally have "path = ''{.'' @ tl ?b @ ''}''" .
  moreover have "brace_free (tl ?b)" by (rule brace_free_suffix[OF h(5)]) (auto dest: list.set_sel(2)[OF h(6)])
  ultimately show ?thesis using that h(8) by blast
qed

lemma parsePath_render:
  assumes "list_all expressible ops"
  shows "parsePath (render_path ops) = Inr ops"
proof -
  let ?b = "concat (map render_op ops)"
  note nb = render_body_no_brace[OF assms]
  have tw: "takeWhile (\<lambda>c. c \<noteq> CHR ''}'') (render_path ops) = ''{.'' @ ?b"
    using nb(2) by (auto simp: render_path_def takeWhile_append intro!: takeWhile_eq_all_conv[THEN iffD2])
  have "\<not> hasTextOutsideSingleExpression (render_path ops)"
    unfolding hasTextOutsideSingleExpression_def tw by (simp add: render_path_def has_prefix_def)
  moreover have "\<not> has_prefix (''.'' @ ?b) ''..''"
    using render_head[of ops] by (cases "ops = []") (auto simp: has_prefix_def)
  moreover have "butlast (tl (render_path ops)) = ''.'' @ ?b"
    by (simp add: render_path_def butlast_append)
  moreover have "last (render_path ops) = CHR ''}''" by (simp add: render_path_def)
  ultimately show ?thesis
    using nb parseOps_render[OF assms, of 1] by (simp add: parsePath_def render_path_def Let_def)
qed

section \<open>Lemmas: compilation and batches\<close>

lemma compileField_Inr:
  "compileField source seen f i = (Inr p, seen') \<Longrightarrow> xf_name p = ff_name f \<and> parsePath (ff_path f) = Inr (xf_ops p) \<and>
     seen' = (ff_name f, i) # seen \<and> ff_name f \<notin> fst ` set seen"
  by (auto simp: compileField_def lookup_None_iff split: if_splits option.splits sum.splits prod.splits)

lemma compileField_seen:
  "compileField source seen f i = (r, seen') \<Longrightarrow> fst ` set seen \<subseteq> fst ` set seen'"
  by (auto simp: compileField_def split: if_splits option.splits)

lemma compileFields_plans:
  "compileFields source seen fs = (plans, failures) \<Longrightarrow>
     length plans + length failures = length fs \<and>
     distinct (map xf_name plans) \<and> set (map xf_name plans) \<inter> fst ` set seen = {} \<and>
     (\<forall>p \<in> set plans. \<exists>f \<in> fst ` set fs. xf_name p = ff_name f \<and> parsePath (ff_path f) = Inr (xf_ops p)) \<and>
     (failures = [] \<longrightarrow> map xf_name plans = map (ff_name \<circ> fst) fs)"
proof (induction fs arbitrary: seen plans failures)
  case (Cons fi fs)
  obtain f i where fi: "fi = (f, i)" by (cases fi)
  obtain r seen' where cf: "compileField source seen f i = (r, seen')" by (cases "compileField source seen f i")
  obtain ps fls where rest: "compileFields source seen' fs = (ps, fls)" by (cases "compileFields source seen' fs")
  note IH = Cons.IH[OF rest] and sub = compileField_seen[OF cf]
  show ?case
  proof (cases r)
    case (Inl e)
    have "plans = ps" "failures = e # fls" using Cons.prems cf rest fi Inl by simp_all
    moreover have "set (map xf_name ps) \<inter> fst ` set seen = {}" using IH sub by blast
    ultimately show ?thesis using IH fi by auto
  next
    case (Inr p)
    note p = compileField_Inr[OF cf[unfolded Inr]]
    have "plans = p # ps" "failures = fls" using Cons.prems cf rest fi Inr by simp_all
    then show ?thesis using IH p fi by auto
  qed
qed simp

lemma swo_field_name: "strict_weak_order (\<lambda>a b. xf_name a < xf_name b)"
  by (rule swo_key)

lemma CompileSource_Inr:
  assumes "CompileSource source = Inr plan"
  shows "xp_sourceID plan = fs_id source"
    and "mset (map xf_name (xp_fields plan)) = mset (map ff_name (fs_fields source))"
    and "sorted_wrt (<) (map xf_name (xp_fields plan))"
    and "\<forall>p \<in> set (xp_fields plan). \<exists>f \<in> set (fs_fields source). xf_name p = ff_name f \<and> parsePath (ff_path f) = Inr (xf_ops p)"
proof -
  let ?ix = "sort_by (\<lambda>a b. ff_name (fst a) < ff_name (fst b)) (zip (fs_fields source) [0..<length (fs_fields source)])"
  obtain plans failures where c: "compileFields source [] ?ix = (plans, failures)" by (cases "compileFields source [] ?ix")
  have "sort_by failure_less failures = []" and
    plan: "plan = \<lparr>xp_sourceID = fs_id source, xp_fields = sort_by (\<lambda>a b. xf_name a < xf_name b) plans\<rparr>"
    using assms c by (auto simp: CompileSource_def CompileSourceAll_def Let_def split: list.splits)
  then have nil: "failures = []" by simp
  note ps = compileFields_plans[OF c]
  have "mset (map fst ?ix) = mset (map fst (zip (fs_fields source) [0..<length (fs_fields source)]))"
    unfolding mset_map by simp
  then have ms: "mset (map fst ?ix) = mset (fs_fields source)" by simp
  show "xp_sourceID plan = fs_id source" using plan by simp
  have "mset (map xf_name (xp_fields plan)) = mset (map xf_name plans)" using plan by simp
  also have "\<dots> = mset (map ff_name (map fst ?ix))" using ps nil by (simp add: comp_def)
  also have "\<dots> = image_mset ff_name (mset (fs_fields source))" using ms by (metis mset_map)
  finally show "mset (map xf_name (xp_fields plan)) = mset (map ff_name (fs_fields source))" by simp
  have "sorted_wrt (\<lambda>a b. \<not> xf_name b < xf_name a) (xp_fields plan)"
    using strict_weak_order.sorted_sort_by[OF swo_field_name] plan by simp
  moreover have "sorted_wrt (\<lambda>a b. xf_name a \<noteq> xf_name b) (xp_fields plan)"
    using ps plan by (intro distinct_map_sorted_wrt) simp
  ultimately have "sorted_wrt (\<lambda>a b. xf_name a < xf_name b) (xp_fields plan)"
    by (rule sorted_wrt_combine) auto
  then show "sorted_wrt (<) (map xf_name (xp_fields plan))" by (simp add: sorted_wrt_map)
  have "fst ` set ?ix \<subseteq> set (fs_fields source)" by (auto dest: set_zip_leftD)
  then show "\<forall>p \<in> set (xp_fields plan). \<exists>f \<in> set (fs_fields source). xf_name p = ff_name f \<and> parsePath (ff_path f) = Inr (xf_ops p)"
    using ps plan by fastforce
qed

lemma evaluateFields_Inr:
  "evaluateFields c sid prov doc fs = (Inr outs, c') \<Longrightarrow>
     list_all2 (\<lambda>f out. fo_fieldName out = xf_name f \<and> select_from (xf_ops f) (JObject doc) = Some (fo_matches out)) fs outs"
proof (induction fs arbitrary: c outs c')
  case (Cons f fs)
  then show ?case by (auto split: prod.splits bool.splits sum.splits dest: evaluateField_Inr)
qed simp

definition resource_extracted :: "ExPlan \<Rightarrow> selected \<Rightarrow> ResourceOutcome \<Rightarrow> bool" where
  "resource_extracted plan r out \<longleftrightarrow>
     ro_provenance out = sr_provenance r \<and>
     (\<exists>doc. sr_object r = Some doc \<and> json_native (JObject doc) \<and>
        list_all2 (\<lambda>f fo. fo_fieldName fo = xf_name f \<and> select_from (xf_ops f) (JObject doc) = Some (fo_matches fo))
          (xp_fields plan) (ro_fields out))"

lemma EvaluateResource_Inr: "EvaluateResource c plan r = (Inr out, c') \<Longrightarrow> resource_extracted plan r out"
  by (auto simp: EvaluateResource_def resource_extracted_def clone_eq simp del: json_native.simps
      split: prod.splits bool.splits option.splits sum.splits if_splits dest: evaluateFields_Inr)

lemma extractResources_Inr:
  "extractResources canonicalSize sid plan c acc rs = (Inr outs, c') \<Longrightarrow> list_all2 (resource_extracted plan) rs outs"
proof (induction rs arbitrary: c acc outs c')
  case (Cons r rs)
  then show ?case
    by (auto split: prod.splits bool.splits option.splits sum.splits dest!: EvaluateResource_Inr)
qed simp

definition out_size :: "(ResourceOutcome \<Rightarrow> nat option) \<Rightarrow> ResourceOutcome \<Rightarrow> int" where
  "out_size canonicalSize out = (case canonicalSize out of None \<Rightarrow> 0 | Some n \<Rightarrow> wrap64 (int n))"

lemma extractResources_bytes:
  "\<lbrakk> extractResources canonicalSize sid plan c (Some a) rs = (Inr outs, c'); accountant_inv a \<rbrakk> \<Longrightarrow>
     acc_used a + sum_list (map (out_size canonicalSize) outs) \<le> acc_ceiling a"
proof (induction rs arbitrary: c a outs c')
  case Nil
  then show ?case by (simp add: accountant_inv_def)
next
  case (Cons r rs)
  obtain out outs' c2 a' n where n: "canonicalSize out = Some n" "AddBytes a (wrap64 (int n)) = Inr a'" and
    rest: "extractResources canonicalSize sid plan c2 (Some a') rs = (Inr outs', c')" and outs: "outs = out # outs'"
    using Cons.prems(1) by (auto simp: Add_def split: prod.splits bool.splits option.splits sum.splits)
  note eff = AddBytes_Inr[OF n(2) Cons.prems(2) wrap64_range]
  show ?case using Cons.IH[OF rest eff(4)] eff outs n by (simp add: out_size_def)
qed

section \<open>Lemmas: batches\<close>

text \<open>What one source's outcome says about its input.\<close>

definition source_extracted ::
  "(ResourceOutcome \<Rightarrow> nat option) \<Rightarrow> int \<Rightarrow> FacetSource \<Rightarrow> (ExtractionError, ExPlan) res \<Rightarrow>
   (string \<times> JValue) list option SelectionOutcome \<Rightarrow> SourceOutcome \<Rightarrow> bool" where
  "source_extracted canonicalSize maxBytes source compiled sel out \<longleftrightarrow>
     xo_sourceID out = fs_id source \<and>
     (case xo_err out of
        Some e \<Rightarrow> xo_resources out = []
      | None \<Rightarrow> so_sourceID sel = fs_id source \<and> so_err sel = None \<and>
          (case compiled of
             Inl e \<Rightarrow> False
           | Inr plan \<Rightarrow>
               (if xp_fields plan = [] then xo_resources out = []
                else list_all2 (resource_extracted plan) (so_resources sel) (xo_resources out))) \<and>
          (0 < maxBytes \<longrightarrow> sum_list (map (out_size canonicalSize) (xo_resources out)) \<le> maxBytes))"

lemma NewAccountant_positive: "0 < n \<Longrightarrow> \<exists>a. NewAccountant n d = Inr a"
  by (simp add: NewAccountant_def)

lemma extractResources_limit:
  assumes "extractResources canonicalSize sid plan c (Some a) rs = (Inr outs, c')"
    and "NewAccountant maxBytes d = Inr a" "int64_range maxBytes"
  shows "sum_list (map (out_size canonicalSize) outs) \<le> maxBytes"
  using extractResources_bytes[OF assms(1)] NewAccountant_inv[OF assms(2,3)] by simp

lemma extractSource_extracted:
  assumes "extractSource canonicalSize maxBytes c source compiled sel = (out, c')" "int64_range maxBytes"
  shows "source_extracted canonicalSize maxBytes source compiled sel out"
proof (cases "xo_err out")
  case (Some e)
  then show ?thesis using assms(1)
    by (auto simp: extractSource_def source_extracted_def Let_def
        split: prod.splits bool.splits sum.splits option.splits if_splits)
next
  case None
  have id: "xo_sourceID out = fs_id source" "so_sourceID sel = fs_id source" "so_err sel = None"
    using assms(1) None
    by (auto simp: extractSource_def Let_def split: prod.splits bool.splits sum.splits option.splits if_splits)
  obtain plan c1 where plan: "compiled = Inr plan" and c1: "ctx_err c = (False, c1)"
    using assms(1) None
    by (auto simp: extractSource_def Let_def split: prod.splits bool.splits sum.splits option.splits if_splits)
  show ?thesis
  proof (cases "xp_fields plan = [] \<or> so_resources sel = []")
    case True
    then show ?thesis using assms(1) None id plan c1
      by (auto simp: extractSource_def source_extracted_def Let_def)
  next
    case False
    note go = assms(1)[unfolded extractSource_def Let_def] and facts = id plan c1 False
    show ?thesis
    proof (cases "maxBytes > 0")
      case True
      then obtain a where a: "NewAccountant maxBytes ''produced-values'' = Inr a" using NewAccountant_positive by fastforce
      then obtain outs where e: "extractResources canonicalSize (fs_id source) plan c1 (Some a) (so_resources sel) = (Inr outs, c')"
        and "xo_resources out = outs" using go facts True None by (auto split: prod.splits sum.splits)
      then show ?thesis using extractResources_Inr[OF e] extractResources_limit[OF e a assms(2)] None facts
        by (simp add: source_extracted_def)
    next
      case le: False
      then obtain outs where e: "extractResources canonicalSize (fs_id source) plan c1 None (so_resources sel) = (Inr outs, c')"
        and "xo_resources out = outs" using go facts None by (auto split: prod.splits sum.splits)
      then show ?thesis using extractResources_Inr[OF e] None facts le by (simp add: source_extracted_def)
    qed
  qed
qed

lemma extractAll_extracted:
  assumes "int64_range maxBytes"
  shows "list_all2 (\<lambda>((source, sel), compiled) out. source_extracted canonicalSize maxBytes source compiled sel out)
    xs (extractAll canonicalSize maxBytes c xs)"
proof (induction xs arbitrary: c)
  case (Cons x xs)
  obtain source sel compiled where x: "x = ((source, sel), compiled)" by (metis surj_pair)
  obtain out c' where out: "extractSource canonicalSize maxBytes c source compiled sel = (out, c')"
    by (cases "extractSource canonicalSize maxBytes c source compiled sel")
  show ?case using extractSource_extracted[OF out assms] Cons.IH[of c'] out x by simp
qed simp

text \<open>A concrete declaration for the witnesses.\<close>

definition sample_source :: FacetSource where
  "sample_source = \<lparr>fs_id = ''pods'', fs_resource = \<lparr>ref_apiVersion = ''v1'', ref_kind = ''Pod''\<rparr>,
     fs_namespaces = None, fs_selector = None,
     fs_fields = [\<lparr>ff_name = ''name'', ff_path = ''{.metadata.name}'', ff_type = ''String'', ff_operators = []\<rparr>,
                  \<lparr>ff_name = ''image'', ff_path = ''{.spec.containers[*].image}'', ff_type = ''String'', ff_operators = []\<rparr>],
     fs_aggregations = []\<rparr>"

section \<open>Properties\<close>

text \<open>Every sequence of property, index and wildcard operations the language can express is parsed back from its
  bracket notation, quotes and backslashes of the keys escaped.\<close>

theorem parsePath_roundtrip:
  assumes "list_all expressible ops"
  shows "parsePath (render_path ops) = Inr ops"
  using assms by (rule parsePath_render)

theorem parsePath_roundtrip_witness:
  "parsePath (render_path [OpProperty [CHR ''a'', CHR 0x27, CHR 0x5C], OpIndex 12, OpWildcard]) = Inr [OpProperty [CHR ''a'', CHR 0x27, CHR 0x5C], OpIndex 12, OpWildcard]"
  by (rule parsePath_roundtrip) simp

text \<open>C37: an accepted path is one delimited expression rooted at the resource, its operations are expressible (no
  braces in a key, no index beyond the Go \<open>int\<close> range) and the path has a bracket form with the same meaning.\<close>

theorem parsePath_normal_form:
  assumes "parsePath path = Inr ops"
  shows "(\<exists>body. path = ''{.'' @ body @ ''}'' \<and> brace_free body) \<and> list_all expressible ops \<and>
    parsePath (render_path ops) = Inr ops"
proof -
  obtain body where body: "path = ''{.'' @ body @ ''}''" "brace_free body" "parseOps 1 body = Inr ops"
    using assms by (rule parsePath_Inr)
  then have "list_all expressible ops" using parseOps_expressible by blast
  then show ?thesis using body parsePath_render by blast
qed

theorem parsePath_normal_form_witness:
  "parsePath ''{.spec.containers[*].image}'' = Inr [OpProperty ''spec'', OpProperty ''containers'', OpWildcard, OpProperty ''image''] \<and>
   parsePath (render_path [OpProperty ''spec'', OpProperty ''containers'', OpWildcard, OpProperty ''image'']) =
     Inr [OpProperty ''spec'', OpProperty ''containers'', OpWildcard, OpProperty ''image'']"
proof -
  have p: "parsePath ''{.spec.containers[*].image}'' = Inr [OpProperty ''spec'', OpProperty ''containers'', OpWildcard, OpProperty ''image'']"
    by code_simp
  then show ?thesis using parsePath_normal_form[OF p] by simp
qed

text \<open>C15: the breadth-first evaluation with its cancellation checks is the depth-first selection of the path:
  whatever the context, the matches that come back are the selected values in document order, and without
  cancellation every selectable path of a JSON document yields them and every other path is an error.\<close>

theorem evaluateField_selects:
  shows "(evaluateField c f doc = (Inr vs, c') \<longrightarrow> select_from (xf_ops f) (JObject doc) = Some vs) \<and>
    (json_native (JObject doc) \<longrightarrow>
      (case select_from (xf_ops f) (JObject doc) of
         Some ws \<Rightarrow> evaluateField None f doc = (Inr ws, None)
       | None \<Rightarrow> isl (fst (evaluateField None f doc))))"
  using evaluateField_Inr[of c f doc vs c'] evaluateField_never[of doc f] by simp

theorem evaluateField_selects_witness:
  "let doc = [(''a'', JArray [JObject [(''b'', JInt 1)], JObject [], JObject [(''b'', JInt 2)]])];
       f = \<lparr>xf_name = ''f'', xf_path = ''{.a[*].b}'', xf_ops = [OpProperty ''a'', OpWildcard, OpProperty ''b'']\<rparr> in
   json_native (JObject doc) \<and> select_from (xf_ops f) (JObject doc) = Some [JInt 1, JInt 2] \<and>
   evaluateField None f doc = (Inr [JInt 1, JInt 2], None)"
  using evaluateField_selects[of None "\<lparr>xf_name = ''f'', xf_path = ''{.a[*].b}'', xf_ops = [OpProperty ''a'', OpWildcard, OpProperty ''b'']\<rparr>"
      "[(''a'', JArray [JObject [(''b'', JInt 1)], JObject [], JObject [(''b'', JInt 2)]])]" "[]" None]
  by simp

text \<open>A compiled plan holds exactly one entry per declared field, strictly ordered by name and hence without
  duplicates, each with the operations its declared path parses to.\<close>

theorem CompileSource_complete:
  assumes "CompileSource source = Inr plan"
  shows "xp_sourceID plan = fs_id source \<and>
    mset (map xf_name (xp_fields plan)) = mset (map ff_name (fs_fields source)) \<and>
    sorted_wrt (<) (map xf_name (xp_fields plan)) \<and>
    (\<forall>p \<in> set (xp_fields plan). \<exists>f \<in> set (fs_fields source). xf_name p = ff_name f \<and> parsePath (ff_path f) = Inr (xf_ops p))"
  using CompileSource_Inr[OF assms] by (intro conjI)

theorem CompileSource_complete_witness:
  "\<exists>plan. CompileSource sample_source = Inr plan \<and> sorted_wrt (<) (map xf_name (xp_fields plan))"
proof -
  have "CompileSource sample_source = Inr \<lparr>xp_sourceID = ''pods'', xp_fields =
      [\<lparr>xf_name = ''image'', xf_path = ''{.spec.containers[*].image}'',
         xf_ops = [OpProperty ''spec'', OpProperty ''containers'', OpWildcard, OpProperty ''image'']\<rparr>,
       \<lparr>xf_name = ''name'', xf_path = ''{.metadata.name}'', xf_ops = [OpProperty ''metadata'', OpProperty ''name'']\<rparr>]\<rparr>"
    by code_simp
  from this CompileSource_complete[OF this] show ?thesis by blast
qed

text \<open>C14: a batch yields one outcome per input, in order.  A failed source publishes no resource; a successful one
  agrees with the declared identity, comes from a successful selection and a compiled plan, holds one extracted
  resource per selected resource in order, and its accounted bytes stay within the produced-value ceiling.\<close>

theorem ExtractBatchWithLimit_outcomes:
  assumes "int64_range maxBytes"
  shows "list_all2 (\<lambda>((source, sel), compiled) out. source_extracted canonicalSize maxBytes source compiled sel out)
    (zip inputs (map (\<lambda>(source, sel). CompileSource source) inputs))
    (ExtractBatchWithLimit canonicalSize maxBytes c inputs)"
  using extractAll_extracted[OF assms, of canonicalSize "zip inputs (map (\<lambda>(source, sel). CompileSource source) inputs)" c]
  by (simp add: ExtractBatchWithLimit_def CompileBatch_def case_prod_beta' comp_def)

theorem ExtractBatchWithLimit_outcomes_witness:
  "let sel = \<lparr>so_sourceID = ''pods'', so_resources = [\<lparr>sr_object = Some [(''metadata'', JObject [(''name'', JString ''p'')]),
         (''spec'', JObject [(''containers'', JArray [])])],
       sr_provenance = \<lparr>prov_apiVersion = ''v1'', prov_kind = ''Pod'', prov_namespace = ''n'', prov_name = ''p'', prov_uid = ''u''\<rparr>\<rparr>],
       so_err = None\<rparr>;
     outs = ExtractBatchWithLimit (\<lambda>_. Some 10) 16 None [(sample_source, sel)] in
   length outs = 1 \<and> xo_err (hd outs) = None \<and> length (xo_resources (hd outs)) = 1 \<and>
   list_all2 (\<lambda>((source, sel), compiled) out. source_extracted (\<lambda>_. Some 10) 16 source compiled sel out)
    (zip [(sample_source, sel)] (map (\<lambda>(source, sel). CompileSource source) [(sample_source, sel)])) outs"
  unfolding Let_def
  apply (intro conjI)
     apply code_simp
    apply code_simp
   apply code_simp
  apply (rule ExtractBatchWithLimit_outcomes)
  apply code_simp
  done

end
