(* ===== verification/Decimal.thy ===== *)
theory Decimal
  imports Prelude
begin

text \<open>
  Exact decimal arithmetic of \<^verbatim>\<open>src/internal/typedoutput\<close>: the canonical decimal text of
  \<^verbatim>\<open>converters.go\<close> (\<^verbatim>\<open>canonicalDecimal\<close>, \<^verbatim>\<open>canonicalRationalDecimal\<close>, \<^verbatim>\<open>trimDecimalZeros\<close>) and the
  rounding of \<^verbatim>\<open>aggregation_bridge.go\<close> (\<^verbatim>\<open>roundRationalDecimal\<close>, \<^verbatim>\<open>shouldRoundUp\<close>, \<^verbatim>\<open>formatScaledInteger\<close>).
  A \<^verbatim>\<open>big.Rat\<close> is a \<open>rat\<close> and a \<^verbatim>\<open>big.Int\<close> an \<open>int\<close>; \<open>int64\<close> additions of the source keep \<open>wrap64\<close>.
  \<open>denotes\<close> is the reference semantics of the JSON number grammar and \<open>canonical_text\<close> the normal form.
\<close>

declare is_digit_code [simp del]

section \<open>Standard library\<close>

datatype num_error = ErrSyntax | ErrRange

text \<open>\<^verbatim>\<open>strconv.ParseInt(s, 10, 64)\<close>.\<close>

definition ParseInt :: "string \<Rightarrow> (num_error, int) res" where
  "ParseInt s =
    (let neg = has_prefix s ''-''; body = (if has_prefix s ''-'' \<or> has_prefix s ''+'' then tl s else s) in
     if body = [] \<or> \<not> list_all is_digit body then Inl ErrSyntax
     else let v = (if neg then - int (read_nat body) else int (read_nat body)) in
       if int64_range v then Inr v else Inl ErrRange)"

text \<open>\<^verbatim>\<open>big.Rat.SetString\<close> on the plain decimals the code hands to it: an optional sign, digits and an
  optional fraction.\<close>

definition ratSetString :: "string \<Rightarrow> rat option" where
  "ratSetString s =
    (let neg = has_prefix s ''-''; body = (if has_prefix s ''-'' \<or> has_prefix s ''+'' then tl s else s);
         ip = takeWhile is_digit body; rest = dropWhile is_digit body; fp = tl rest in
     if ip = [] then None
     else if rest = [] then Some ((if neg then - 1 else 1) * of_nat (read_nat ip))
     else if hd rest = CHR ''.'' \<and> fp \<noteq> [] \<and> list_all is_digit fp then
       Some ((if neg then - 1 else 1) * (of_nat (read_nat (ip @ fp)) / 10 ^ length fp))
     else None)"

section \<open>Canonical decimal text\<close>

datatype decimal_error = errInvalidDecimal | errDecimalOverflow

definition maxCanonicalDecimalDigits :: int where
  "maxCanonicalDecimalDigits = 1048576"

text \<open>\<^verbatim>\<open>jsonNumberPattern\<close>; the greedy digit runs are the only way to match.\<close>

definition exponentPattern :: "string \<Rightarrow> bool" where
  "exponentPattern s \<longleftrightarrow> s = [] \<or>
    (hd s = CHR ''e'' \<or> hd s = CHR ''E'') \<and>
    (let d = (if has_prefix (tl s) ''+'' \<or> has_prefix (tl s) ''-'' then tl (tl s) else tl s) in
     d \<noteq> [] \<and> list_all is_digit d)"

definition jsonNumberPattern :: "string \<Rightarrow> bool" where
  "jsonNumberPattern text \<longleftrightarrow>
    (let body = (if has_prefix text ''-'' then tl text else text);
         ip = takeWhile is_digit body; rest = dropWhile is_digit body in
     ip \<noteq> [] \<and> (ip = ''0'' \<or> hd ip \<noteq> CHR ''0'') \<and>
     (if has_prefix rest ''.'' then
        takeWhile is_digit (tl rest) \<noteq> [] \<and> exponentPattern (dropWhile is_digit (tl rest))
      else exponentPattern rest))"

text \<open>The loop that drops trailing zeros right of the decimal position.\<close>

function trimDigits :: "int \<Rightarrow> string \<Rightarrow> string" where
  "trimDigits pos digits =
    (if digits \<noteq> [] \<and> last digits = CHR ''0'' \<and> int (length digits) > pos then trimDigits pos (butlast digits) else digits)"
  by pat_completeness auto
termination by (relation "measure (\<lambda>(pos, digits). length digits)") auto

declare trimDigits.simps [simp del]

definition canonicalDigits :: "string \<Rightarrow> string \<Rightarrow> string \<Rightarrow> int \<Rightarrow> (decimal_error, string) res" where
  "canonicalDigits sign integerPart fractionPart expo =
    (let digits0 = integerPart @ fractionPart;
         firstNonZero = length (takeWhile (\<lambda>c. c = CHR ''0'') digits0);
         digits1 = dropWhile (\<lambda>c. c = CHR ''0'') digits0 in
     if digits1 = [] then Inr ''0''
     else
       (let decimalPosition = wrap64 (int (length integerPart) - int firstNonZero + expo) in
        if decimalPosition > maxCanonicalDecimalDigits \<or> decimalPosition < - maxCanonicalDecimalDigits then
          Inl errDecimalOverflow
        else
          (let digits = trimDigits decimalPosition digits1 in
           if int (length digits) > maxCanonicalDecimalDigits then Inl errDecimalOverflow
           else
             (let zeros = (if decimalPosition \<le> 0 then - decimalPosition else decimalPosition - int (length digits));
                canonical =
                (if decimalPosition \<le> 0 then ''0.'' @ replicate (nat zeros) CHR ''0'' @ digits
                 else if decimalPosition \<ge> int (length digits) then digits @ replicate (nat zeros) CHR ''0''
                 else take (nat decimalPosition) digits @ ''.'' @ drop (nat decimalPosition) digits) in
              if zeros > maxCanonicalDecimalDigits then Inl errDecimalOverflow
              else if canonical = ''0'' \<or> list_all (\<lambda>c. c = CHR ''0'' \<or> c = CHR ''.'') canonical then Inr ''0''
              else Inr (sign @ canonical)))))"

definition canonicalDecimal :: "string \<Rightarrow> (decimal_error, string) res" where
  "canonicalDecimal text =
    (if \<not> jsonNumberPattern text then Inl errInvalidDecimal
     else
       (let sign = (if has_prefix text ''-'' then ''-'' else []);
            body = (if has_prefix text ''-'' then tl text else text);
            mantissa = takeWhile (\<lambda>c. c \<noteq> CHR ''e'' \<and> c \<noteq> CHR ''E'') body;
            suffix = dropWhile (\<lambda>c. c \<noteq> CHR ''e'' \<and> c \<noteq> CHR ''E'') body;
            integerPart = takeWhile (\<lambda>c. c \<noteq> CHR ''.'') mantissa;
            fractionPart = tl (dropWhile (\<lambda>c. c \<noteq> CHR ''.'') mantissa) in
        case (if suffix = [] then Inr 0 else ParseInt (tl suffix)) of
          Inl e \<Rightarrow> Inl errDecimalOverflow
        | Inr expo \<Rightarrow> canonicalDigits sign integerPart fractionPart expo))"

section \<open>Rationals to decimal text\<close>

definition trimRight :: "char \<Rightarrow> string \<Rightarrow> string" where
  "trimRight c s = rev (dropWhile (\<lambda>d. d = c) (rev s))"

definition trimDecimalZeros :: "string \<Rightarrow> string" where
  "trimDecimalZeros text =
    (let t = (if CHR ''.'' \<in> set text then trimRight CHR ''.'' (trimRight CHR ''0'' text) else text) in
     if t = ''-0'' \<or> t = [] then ''0'' else t)"

definition padLeft :: "nat \<Rightarrow> string \<Rightarrow> string" where
  "padLeft width s = replicate (width - length s) CHR ''0'' @ s"

text \<open>\<^verbatim>\<open>big.Rat.FloatString\<close>: \<open>prec\<close> fractional digits, the last one rounded half away from zero.\<close>

definition floatString :: "rat \<Rightarrow> nat \<Rightarrow> string" where
  "floatString v prec =
    (case quotient_of \<bar>v\<bar> of (n, d) \<Rightarrow>
      (let q = (2 * n * 10 ^ prec + d) div (2 * d);
           sign = (if v < 0 then ''-'' else []) in
       if prec = 0 then sign @ show_nat (nat q)
       else sign @ show_nat (nat (q div 10 ^ prec)) @ ''.'' @ padLeft prec (show_nat (nat (q mod 10 ^ prec)))))"

text \<open>Division by 2 and by 5 until neither divides the denominator.\<close>

function stripFactor :: "int \<Rightarrow> int \<Rightarrow> int" where
  "stripFactor p d = (if 1 < p \<and> 0 < d \<and> d mod p = 0 then stripFactor p (d div p) else d)"
  by pat_completeness auto
termination
proof (relation "measure (\<lambda>(p, d). nat d)")
  fix p d :: int
  assume "1 < p \<and> 0 < d \<and> d mod p = 0"
  then have "d div p < d" by (simp add: int_div_less_self)
  then show "((p, d div p), p, d) \<in> measure (\<lambda>(p, d). nat d)"
    using \<open>1 < p \<and> 0 < d \<and> d mod p = 0\<close> by simp
qed simp

declare stripFactor.simps [simp del]

function rationalScale :: "rat \<Rightarrow> nat \<Rightarrow> (decimal_error, string) res" where
  "rationalScale v scale =
    (if int scale < maxCanonicalDecimalDigits then
       (if ratSetString (floatString v scale) = Some v then Inr (trimDecimalZeros (floatString v scale))
        else rationalScale v (Suc scale))
     else Inl errDecimalOverflow)"
  by pat_completeness auto
termination
  by (relation "measure (\<lambda>(v, scale). nat maxCanonicalDecimalDigits - scale)") (auto simp: nat_less_iff)

declare rationalScale.simps [simp del]

definition canonicalRationalDecimal :: "rat \<Rightarrow> (decimal_error, string) res" where
  "canonicalRationalDecimal v =
    (let d = snd (quotient_of v); d5 = stripFactor 5 (stripFactor 2 d) in
     if d5 \<noteq> 1 then Inl errDecimalOverflow
     else rationalScale v (if d mod 2 = 0 \<or> stripFactor 2 d mod 5 = 0 then 1 else 0))"

section \<open>Rounding\<close>

definition supportedRoundingMode :: "string \<Rightarrow> bool" where
  "supportedRoundingMode mode \<longleftrightarrow>
     mode \<in> set [''halfEven'', ''halfAwayFromZero'', ''towardZero'', ''awayFromZero'']"

definition shouldRoundUp :: "int \<Rightarrow> int \<Rightarrow> int \<Rightarrow> string \<Rightarrow> bool" where
  "shouldRoundUp quo remainder denominator mode =
    (if remainder = 0 then False
     else if mode = ''towardZero'' then False
     else if mode = ''awayFromZero'' then True
     else if mode = ''halfAwayFromZero'' then 2 * remainder \<ge> denominator
     else if mode = ''halfEven'' then
       2 * remainder > denominator \<or> (2 * remainder = denominator \<and> quo mod 2 = 1)
     else False)"

definition formatScaledInteger :: "int \<Rightarrow> nat \<Rightarrow> string" where
  "formatScaledInteger v scale =
    (let abs_text = show_nat (nat \<bar>v\<bar>) in
     if scale = 0 then (if v < 0 \<and> abs_text \<noteq> ''0'' then ''-'' @ abs_text else abs_text)
     else
       (let padded = padLeft (scale + 1) abs_text; point = length padded - scale;
            text = trimDecimalZeros (take point padded @ ''.'' @ drop point padded) in
        if v < 0 \<and> text \<noteq> ''0'' then ''-'' @ text else text))"

datatype rounding_error = PrecisionOutOfRange | UnsupportedRounding string

definition roundRationalDecimal :: "rat \<Rightarrow> int \<Rightarrow> string \<Rightarrow> (rounding_error, string) res" where
  "roundRationalDecimal v scale mode =
    (if scale < 0 \<or> scale > 18 then Inl PrecisionOutOfRange
     else if \<not> supportedRoundingMode mode then Inl (UnsupportedRounding mode)
     else
       (case quotient_of \<bar>v\<bar> of (num, den) \<Rightarrow>
         (let numerator = num * 10 ^ nat scale; q = numerator div den; r = numerator mod den;
              q1 = (if shouldRoundUp q r den mode then q + 1 else q);
              q2 = (if v < 0 \<and> q1 \<noteq> 0 then - q1 else q1) in
          Inr (formatScaledInteger q2 (nat scale)))))"

section \<open>Reference semantics\<close>

text \<open>A canonical decimal: an integer part without a superfluous leading zero, a fraction without trailing zeros and
  no negative zero.\<close>

definition lead_ok :: "string \<Rightarrow> bool" where
  "lead_ok I \<longleftrightarrow> I \<noteq> [] \<and> list_all is_digit I \<and> (I = ''0'' \<or> hd I \<noteq> CHR ''0'')"

definition canonical_parts :: "string \<Rightarrow> string \<Rightarrow> bool" where
  "canonical_parts I F \<longleftrightarrow> lead_ok I \<and> list_all is_digit F \<and> (F \<noteq> [] \<longrightarrow> last F \<noteq> CHR ''0'')"

definition plain_text :: "bool \<Rightarrow> string \<Rightarrow> string \<Rightarrow> string" where
  "plain_text neg I F = (if neg then ''-'' else []) @ I @ (if F = [] then [] else CHR ''.'' # F)"

definition canonical_text :: "string \<Rightarrow> bool" where
  "canonical_text c \<longleftrightarrow> (\<exists>neg I F. c = plain_text neg I F \<and> canonical_parts I F \<and> (neg \<longrightarrow> I \<noteq> ''0'' \<or> F \<noteq> []))"

definition signed :: "bool \<Rightarrow> rat \<Rightarrow> rat" where
  "signed neg v = (if neg then - v else v)"

definition parts_value :: "string \<Rightarrow> string \<Rightarrow> rat" where
  "parts_value I F = of_nat (read_nat (I @ F)) / 10 ^ length F"

text \<open>The JSON number grammar: a sign, an integer part, an optional fraction and an optional exponent with its marker
  and sign.\<close>

definition exponent_text :: "(char \<times> string \<times> string) option \<Rightarrow> string" where
  "exponent_text x = (case x of None \<Rightarrow> [] | Some (m, sg, ds) \<Rightarrow> m # sg @ ds)"

definition exponent_wf :: "(char \<times> string \<times> string) option \<Rightarrow> bool" where
  "exponent_wf x \<longleftrightarrow> (case x of None \<Rightarrow> True | Some (m, sg, ds) \<Rightarrow>
     (m = CHR ''e'' \<or> m = CHR ''E'') \<and> (sg = [] \<or> sg = ''+'' \<or> sg = ''-'') \<and> ds \<noteq> [] \<and> list_all is_digit ds)"

definition exponent_value :: "(char \<times> string \<times> string) option \<Rightarrow> int" where
  "exponent_value x = (case x of None \<Rightarrow> 0 | Some (m, sg, ds) \<Rightarrow>
     if sg = ''-'' then - int (read_nat ds) else int (read_nat ds))"

definition number_wf :: "string \<Rightarrow> string \<Rightarrow> (char \<times> string \<times> string) option \<Rightarrow> bool" where
  "number_wf I F x \<longleftrightarrow> lead_ok I \<and> list_all is_digit F \<and> exponent_wf x"

definition denotes :: "string \<Rightarrow> rat \<Rightarrow> bool" where
  "denotes text v \<longleftrightarrow> (\<exists>neg I F x. text = plain_text neg I F @ exponent_text x \<and> number_wf I F x \<and>
     v = signed neg (parts_value I F * 10 powi exponent_value x))"

section \<open>Lemmas: digits\<close>

lemma digit_val_less: "is_digit c \<Longrightarrow> digit_val c < 10"
  by (auto simp: is_digit_code digit_val_def)

lemma digit_char_val: "is_digit c \<Longrightarrow> digit_char (digit_val c) = c"
proof -
  assume "is_digit c"
  then obtain n where n: "of_char c = (48 + n :: nat)" "n < 10" by (auto simp: is_digit_code intro!: that[of "of_char c - 48"])
  have "c = char_of (of_char c :: nat)" by simp
  also have "\<dots> = char_of (48 + n)" using n by simp
  also have "\<dots> = digit_char n" using nat_less_10_cases[OF n(2)] by (auto simp: digit_char_def char_of_def bit_simps)
  finally show ?thesis using n by (simp add: digit_val_def)
qed

lemma digit_val_zero: "is_digit c \<Longrightarrow> digit_val c = 0 \<longleftrightarrow> c = CHR ''0''"
  using digit_char_val[of c] by (auto simp: digit_char_def digit_val_def)

lemma is_digit_zero [simp]: "is_digit CHR ''0''" by (simp add: is_digit_code)

lemma digit_val_0 [simp]: "digit_val CHR ''0'' = 0" by (simp add: digit_val_def)

lemma digit_neq: "is_digit c \<Longrightarrow> c \<noteq> CHR ''.'' \<and> c \<noteq> CHR ''e'' \<and> c \<noteq> CHR ''E'' \<and> c \<noteq> CHR ''-'' \<and> c \<noteq> CHR ''+''"
  by (auto simp: is_digit_code)

lemma not_digit [simp]: "\<not> is_digit CHR ''.''" "\<not> is_digit CHR ''e''" "\<not> is_digit CHR ''E''" "\<not> is_digit CHR ''-''"
  "\<not> is_digit CHR ''+''"
  by (simp_all add: is_digit_code)

lemma read_nat_acc_eq: "read_nat_acc a s = a * 10 ^ length s + read_nat s"
proof (induction s arbitrary: a)
  case (Cons c s)
  show ?case using Cons[of "10 * a + digit_val c"] Cons[of "digit_val c"] by (simp add: algebra_simps)
qed simp

lemma read_nat_append: "read_nat (s @ t) = read_nat s * 10 ^ length t + read_nat t"
  by (simp add: read_nat_acc_append read_nat_acc_eq[of "read_nat s"])

lemma read_nat_snoc: "read_nat (s @ [c]) = 10 * read_nat s + digit_val c"
  by (simp add: read_nat_acc_append)

lemma read_nat_zeros [simp]: "read_nat (replicate n CHR ''0'') = 0"
  by (induction n) simp_all

lemma read_nat_zeros_left [simp]: "read_nat (replicate n CHR ''0'' @ s) = read_nat s"
  by (simp add: read_nat_append)

lemma read_nat_less: "list_all is_digit s \<Longrightarrow> read_nat s < 10 ^ length s"
proof (induction s rule: rev_induct)
  case (snoc c s)
  then have "read_nat s < 10 ^ length s" "digit_val c < 10" using digit_val_less by auto
  then show ?case by (simp add: read_nat_snoc)
qed simp

lemma read_nat_pos: "list_all is_digit s \<Longrightarrow> s \<noteq> [] \<Longrightarrow> hd s \<noteq> CHR ''0'' \<Longrightarrow> 0 < read_nat s"
proof (cases s)
  case (Cons c cs)
  assume "list_all is_digit s" "hd s \<noteq> CHR ''0''"
  then have "0 < digit_val c" using Cons digit_val_zero by (intro gr0I) auto
  then show ?thesis using Cons by (simp add: read_nat_acc_eq[of "digit_val c"])
qed simp

lemma read_nat_eq_same_length:
  "\<lbrakk> list_all is_digit s; list_all is_digit t; length s = length t; read_nat s = read_nat t \<rbrakk> \<Longrightarrow> s = t"
proof (induction s arbitrary: t rule: rev_induct)
  case (snoc c s)
  then obtain d t' where t: "t = t' @ [d]" by (cases t rule: rev_cases) auto
  have lt: "digit_val c < 10" "digit_val d < 10" using snoc.prems t digit_val_less by auto
  have eq: "10 * read_nat s + digit_val c = 10 * read_nat t' + digit_val d"
    using snoc.prems t by (simp add: read_nat_snoc)
  have "read_nat s = read_nat t' \<and> digit_val c = digit_val d" using eq lt by presburger
  moreover have "s = t'" using snoc.IH[of t'] snoc.prems t calculation by simp
  moreover have "is_digit c" "is_digit d" using snoc.prems t by simp_all
  ultimately show ?case using t digit_char_val by metis
qed simp

lemma show_read_nat: "lead_ok I \<Longrightarrow> show_nat (read_nat I) = I"
proof (induction I rule: rev_induct)
  case (snoc c s)
  have c: "is_digit c" using snoc.prems by (simp add: lead_ok_def)
  show ?case
  proof (cases "s = []")
    case True
    then show ?thesis using c digit_val_less digit_char_val by (simp add: show_nat.simps[of "digit_val c"])
  next
    case False
    then have s: "list_all is_digit s" "hd s \<noteq> CHR ''0''" using snoc.prems by (auto simp: lead_ok_def)
    then have "0 < read_nat s" using read_nat_pos False by blast
    moreover have "lead_ok s" using s False by (simp add: lead_ok_def)
    ultimately show ?thesis
      using snoc.IH c digit_val_less[OF c] digit_char_val
      by (simp add: read_nat_snoc show_nat.simps[of "10 * read_nat s + digit_val c"])
  qed
qed (simp add: lead_ok_def)

lemma show_nat_lead_ok: "lead_ok (show_nat n)"
proof (induction n rule: show_nat.induct)
  case (1 n)
  show ?case
  proof (cases "n < 10")
    case True
    then show ?thesis using digit_char_props[of n] nat_less_10_cases[OF True]
      by (auto simp: lead_ok_def show_nat.simps[of n] digit_char_def)
  next
    case False
    then have IH: "lead_ok (show_nat (n div 10))" using 1 by simp
    have "n div 10 \<noteq> 0" using False by simp
    then have "show_nat (n div 10) \<noteq> ''0''" using read_show_nat[of "n div 10"] by (metis digit_val_0 mult_0_right add.right_neutral read_nat_acc.simps)
    then show ?thesis using False IH digit_char_props[of "n mod 10"]
      by (auto simp: lead_ok_def show_nat.simps[of n])
  qed
qed

lemma read_nat_mod10: "s \<noteq> [] \<Longrightarrow> list_all is_digit s \<Longrightarrow> read_nat s mod 10 = 0 \<longleftrightarrow> last s = CHR ''0''"
proof (cases s rule: rev_cases)
  case (snoc t c)
  assume "list_all is_digit s"
  then have c: "is_digit c" using snoc by simp
  have "(10 * read_nat t + digit_val c) mod 10 = digit_val c" using digit_val_less[OF c] by simp
  then show ?thesis using snoc digit_val_zero[OF c] by (simp add: read_nat_snoc)
qed simp

section \<open>Lemmas: the canonical form is unique\<close>

lemma parts_value_nonneg: "0 \<le> parts_value I F"
  by (simp add: parts_value_def)

lemma parts_value_zero:
  assumes "canonical_parts I F" "parts_value I F = 0"
  shows "I = ''0'' \<and> F = []"
proof -
  have "read_nat (I @ F) = 0" using assms(2) by (simp add: parts_value_def del: read_nat_acc.simps)
  then have z: "read_nat I = 0" "read_nat F = 0" by (simp_all add: read_nat_append)
  have I: "I = ''0''" using show_read_nat[of I] assms(1) z(1) by (simp add: canonical_parts_def show_nat.simps[of 0] digit_char_def)
  moreover have "F = []"
  proof (rule ccontr)
    assume "F \<noteq> []"
    then show False using read_nat_mod10[of F] assms(1) z(2) by (simp add: canonical_parts_def)
  qed
  ultimately show ?thesis by simp
qed

lemma parts_length_le:
  assumes "canonical_parts I F" "canonical_parts J G" "parts_value I F = parts_value J G"
  shows "length F \<le> length G"
proof (rule ccontr)
  assume "\<not> length F \<le> length G"
  then obtain k where k: "length F = Suc (length G + k)" using less_imp_Suc_add by (metis not_le)
  then have ne: "F \<noteq> []" by auto
  have "(of_nat (read_nat (I @ F)) :: rat) * 10 ^ length G = of_nat (read_nat (J @ G)) * 10 ^ length F"
    using assms(3) by (simp add: parts_value_def field_simps)
  then have "(of_nat (read_nat (I @ F) * 10 ^ length G) :: rat) = of_nat (read_nat (J @ G) * 10 ^ length F)" by simp
  then have "read_nat (I @ F) * 10 ^ length G = read_nat (J @ G) * 10 ^ length F" by (simp only: of_nat_eq_iff)
  then have "read_nat (I @ F) = read_nat (J @ G) * 10 ^ Suc k" using k by (simp add: power_add)
  then have "read_nat (I @ F) mod 10 = 0" by simp
  then have "last (I @ F) = CHR ''0''" using read_nat_mod10[of "I @ F"] assms(1) ne
    by (simp add: canonical_parts_def lead_ok_def)
  then show False using assms(1) ne by (simp add: canonical_parts_def)
qed

lemma parts_unique:
  assumes "canonical_parts I F" "canonical_parts J G" "parts_value I F = parts_value J G"
  shows "I = J \<and> F = G"
proof -
  have len: "length F = length G"
    using parts_length_le[OF assms] parts_length_le[OF assms(2,1) assms(3)[symmetric]] by simp
  then have "(of_nat (read_nat (I @ F)) :: rat) = of_nat (read_nat (J @ G))"
    using assms(3) by (simp add: parts_value_def)
  then have eq: "read_nat I * 10 ^ length F + read_nat F = read_nat J * 10 ^ length F + read_nat G"
    using len by (simp only: of_nat_eq_iff read_nat_append)
  have dF: "list_all is_digit F" "list_all is_digit G" using assms(1,2) by (simp_all add: canonical_parts_def)
  have lt: "read_nat F < 10 ^ length F" "read_nat G < 10 ^ length F"
    using read_nat_less[OF dF(1)] read_nat_less[OF dF(2)] len by simp_all
  have "read_nat I = (read_nat I * 10 ^ length F + read_nat F) div 10 ^ length F" using lt(1) by simp
  also have "\<dots> = read_nat J" using lt(2) eq by simp
  finally have I: "read_nat I = read_nat J" .
  then have "read_nat F = read_nat G" using eq by simp
  then have "F = G" using read_nat_eq_same_length dF len by blast
  moreover have "I = J" using I show_read_nat assms(1,2) unfolding canonical_parts_def by metis
  ultimately show ?thesis by simp
qed

lemma canonical_unique:
  assumes "canonical_parts I F" "canonical_parts J G" "neg \<longrightarrow> I \<noteq> ''0'' \<or> F \<noteq> []" "neg' \<longrightarrow> J \<noteq> ''0'' \<or> G \<noteq> []"
    and "signed neg (parts_value I F) = signed neg' (parts_value J G)"
  shows "neg = neg' \<and> I = J \<and> F = G"
proof -
  have nz: "neg \<Longrightarrow> 0 < parts_value I F" "neg' \<Longrightarrow> 0 < parts_value J G"
    using parts_value_zero[OF assms(1)] parts_value_zero[OF assms(2)] assms(3,4) parts_value_nonneg[of I F] parts_value_nonneg[of J G]
    by (metis less_eq_rat_def)+
  have "neg = neg'"
    using assms(5) nz parts_value_nonneg[of I F] parts_value_nonneg[of J G]
    by (cases neg; cases neg') (auto simp: signed_def)
  then show ?thesis using parts_unique[OF assms(1,2)] assms(5) by (auto simp: signed_def split: if_splits)
qed

lemma takeWhile_digits_append:
  "list_all is_digit s \<Longrightarrow> \<not> is_digit c \<Longrightarrow> takeWhile is_digit (s @ c # t) = s \<and> dropWhile is_digit (s @ c # t) = c # t"
  by (induction s) auto

lemma takeWhile_digits_all:
  "list_all is_digit s \<Longrightarrow> takeWhile is_digit s = s \<and> dropWhile is_digit s = []"
  by (induction s) auto

lemma digits_no_sign:
  assumes "list_all is_digit I" "I \<noteq> []"
  shows "\<not> has_prefix (I @ t) ''-''" "\<not> has_prefix (I @ t) ''+''"
  using assms digit_neq by (cases I; fastforce simp: has_prefix_def)+

lemma plain_text_value:
  assumes "list_all is_digit I" "I \<noteq> []" "list_all is_digit F"
  shows "ratSetString (plain_text neg I F) = Some (signed neg (parts_value I F))"
proof -
  have [simp]: "\<not> has_prefix I ''-''" "\<not> has_prefix I ''+''" "has_prefix (CHR ''-'' # s) ''-''" for s
    using digits_no_sign[OF assms(1,2), of "[]"] by (simp_all add: has_prefix_def)
  have [simp]: "\<not> has_prefix (I @ CHR ''.'' # F) ''-''" "\<not> has_prefix (I @ CHR ''.'' # F) ''+''"
    using digits_no_sign[OF assms(1,2), of "CHR ''.'' # F"] by simp_all
  note tw = takeWhile_digits_append[OF assms(1), of "CHR ''.''" F] takeWhile_digits_all[OF assms(1)]
  show ?thesis
    using assms by (cases "F = []"; cases neg) (simp_all add: ratSetString_def plain_text_def signed_def parts_value_def Let_def tw)
qed

lemma canonical_text_value:
  assumes "canonical_text c" "canonical_text d" "ratSetString c = ratSetString d"
  shows "c = d"
proof -
  obtain neg I F where c: "c = plain_text neg I F" "canonical_parts I F" "neg \<longrightarrow> I \<noteq> ''0'' \<or> F \<noteq> []"
    using assms(1) unfolding canonical_text_def by blast
  obtain neg' J G where d: "d = plain_text neg' J G" "canonical_parts J G" "neg' \<longrightarrow> J \<noteq> ''0'' \<or> G \<noteq> []"
    using assms(2) unfolding canonical_text_def by blast
  have "signed neg (parts_value I F) = signed neg' (parts_value J G)"
    using assms(3) c d plain_text_value[of I F neg] plain_text_value[of J G neg']
    by (simp add: canonical_parts_def lead_ok_def)
  then show ?thesis using canonical_unique[OF c(2) d(2) c(3) d(3)] c d by simp
qed

section \<open>Lemmas: canonicalisation\<close>

lemma trimDigits_split:
  "\<exists>k. ds = trimDigits pos ds @ replicate k CHR ''0'' \<and> (k > 0 \<longrightarrow> int (length (trimDigits pos ds)) \<ge> pos) \<and>
     (trimDigits pos ds \<noteq> [] \<and> last (trimDigits pos ds) = CHR ''0'' \<longrightarrow> int (length (trimDigits pos ds)) \<le> pos)"
proof (induction pos ds rule: trimDigits.induct)
  case (1 pos ds)
  show ?case
  proof (cases "ds \<noteq> [] \<and> last ds = CHR ''0'' \<and> int (length ds) > pos")
    case True
    then obtain k where k: "butlast ds = trimDigits pos (butlast ds) @ replicate k CHR ''0''"
      "k > 0 \<longrightarrow> int (length (trimDigits pos (butlast ds))) \<ge> pos"
      "trimDigits pos (butlast ds) \<noteq> [] \<and> last (trimDigits pos (butlast ds)) = CHR ''0'' \<longrightarrow>
         int (length (trimDigits pos (butlast ds))) \<le> pos"
      using 1 by blast
    have t: "trimDigits pos ds = trimDigits pos (butlast ds)" using True trimDigits.simps[of pos ds] by simp
    have "ds = butlast ds @ [CHR ''0'']" using True by (metis append_butlast_last_id)
    also have "\<dots> = trimDigits pos ds @ replicate (Suc k) CHR ''0''" using k(1) t by (metis append.assoc replicate_append_same replicate_Suc)
    finally have ds: "ds = trimDigits pos ds @ replicate (Suc k) CHR ''0''" .
    have "int (length (trimDigits pos ds)) \<ge> pos"
    proof (cases "k > 0")
      case True
      then show ?thesis using k(2) t by simp
    next
      case False
      then have "length ds = Suc (length (trimDigits pos ds))" using ds by (metis length_append_singleton neq0_conv replicate_0 replicate_Suc)
      then show ?thesis using True by simp
    qed
    then show ?thesis using ds k(3) t by (intro exI[of _ "Suc k"]) simp
  next
    case False
    then have "trimDigits pos ds = ds" by (subst trimDigits.simps) (simp only: if_False)
    then show ?thesis using False by (intro exI[of _ 0]) auto
  qed
qed

lemma powi_nat: "(10 :: rat) powi int n = 10 ^ n" "(x :: rat) / 10 ^ n = x * 10 powi (- int n)"
  by (simp_all add: power_int_minus divide_inverse)

lemma parts_value_powi: "parts_value I F = of_nat (read_nat (I @ F)) * 10 powi (- int (length F))"
  by (simp add: parts_value_def powi_nat)

lemma wrap_guard:
  assumes "\<bar>L\<bar> \<le> 4611686018427387904" "int64_range e" "\<bar>wrap64 (L + e)\<bar> \<le> maxCanonicalDecimalDigits"
  shows "wrap64 (L + e) = L + e"
proof (cases "int64_range (L + e)")
  case False
  have shift: "wrap64 (x - 18446744073709551616) = wrap64 x" "wrap64 (x + 18446744073709551616) = wrap64 x" for x
    using minus_mod_self2[of "x + 9223372036854775808" 18446744073709551616]
      mod_add_self2[of "x + 9223372036854775808" 18446744073709551616]
    by (simp_all add: wrap64_def)
  consider (high) "L + e > max_int64" "int64_range (L + e - 18446744073709551616)"
    | (low) "L + e < min_int64" "int64_range (L + e + 18446744073709551616)"
    using False assms(1,2) by (auto simp: int64_range_def max_int64_def min_int64_def)
  then show ?thesis
  proof cases
    case high
    then have "wrap64 (L + e) = L + e - 18446744073709551616" using wrap64_id[OF high(2)] shift(1) by simp
    then show ?thesis using assms high by (simp add: int64_range_def max_int64_def min_int64_def maxCanonicalDecimalDigits_def)
  next
    case low
    then have "wrap64 (L + e) = L + e + 18446744073709551616" using wrap64_id[OF low(2)] shift(2) by simp
    then show ?thesis using assms low by (simp add: int64_range_def max_int64_def min_int64_def maxCanonicalDecimalDigits_def)
  qed
qed (rule wrap64_id)

text \<open>The digits that remain after stripping zeros on both sides, with their decimal position.\<close>

definition placed :: "string \<Rightarrow> int \<Rightarrow> bool" where
  "placed t pos \<longleftrightarrow> t \<noteq> [] \<and> list_all is_digit t \<and> hd t \<noteq> CHR ''0'' \<and> (last t = CHR ''0'' \<longrightarrow> int (length t) \<le> pos)"

definition place :: "string \<Rightarrow> int \<Rightarrow> string \<times> string" where
  "place t pos =
    (if pos \<le> 0 then (''0'', replicate (nat (- pos)) CHR ''0'' @ t)
     else if pos \<ge> int (length t) then (t @ replicate (nat (pos - int (length t))) CHR ''0'', [])
     else (take (nat pos) t, drop (nat pos) t))"

lemma place_cases:
  assumes "place t pos = (J, G)"
  obtains (neg) "pos \<le> 0" "J = ''0''" "G = replicate (nat (- pos)) CHR ''0'' @ t"
    | (whole) "pos > 0" "pos \<ge> int (length t)" "J = t @ replicate (nat (pos - int (length t))) CHR ''0''" "G = []"
    | (split) "pos > 0" "pos < int (length t)" "J = take (nat pos) t" "G = drop (nat pos) t"
  using assms by (auto simp: place_def split: if_splits)

lemma place_value:
  assumes "place t pos = (J, G)"
  shows "parts_value J G = of_nat (read_nat t) * 10 powi (pos - int (length t))"
  using assms
proof (cases rule: place_cases)
  case neg
  then show ?thesis by (simp add: parts_value_powi)
next
  case whole
  then have "int (nat (pos - int (length t))) = pos - int (length t)" by simp
  then have "(10 :: rat) ^ nat (pos - int (length t)) = 10 powi (pos - int (length t))" using powi_nat(1) by metis
  then show ?thesis using whole by (simp add: parts_value_powi read_nat_append)
next
  case split
  then have "J @ G = t" "int (length G) = int (length t) - pos" by simp_all
  then show ?thesis by (simp add: parts_value_powi)
qed

lemma place_canonical:
  assumes "placed t pos" "place t pos = (J, G)"
  shows "canonical_parts J G" "J \<noteq> ''0'' \<or> G \<noteq> []"
proof -
  note t = assms(1)[unfolded placed_def]
  have "0 < length t" using t by simp
  from assms(2) have "canonical_parts J G \<and> (J \<noteq> ''0'' \<or> G \<noteq> [])"
  proof (cases rule: place_cases)
    case neg
    then show ?thesis using t \<open>0 < length t\<close> by (auto simp: canonical_parts_def lead_ok_def list_all_iff)
  next
    case whole
    then show ?thesis using t by (cases t) (auto simp: canonical_parts_def lead_ok_def list_all_iff)
  next
    case split
    then have "hd (take (nat pos) t) = hd t" by (simp add: hd_take)
    then show ?thesis using t split
      by (auto simp: canonical_parts_def lead_ok_def list_all_iff hd_take dest: in_set_takeD in_set_dropD)
  qed
  then show "canonical_parts J G" "J \<noteq> ''0'' \<or> G \<noteq> []" by simp_all
qed

lemma strip_zeros:
  "s = replicate (length (takeWhile (\<lambda>c. c = CHR ''0'') s)) CHR ''0'' @ dropWhile (\<lambda>c. c = CHR ''0'') s"
  "dropWhile (\<lambda>c. c = CHR ''0'') s \<noteq> [] \<Longrightarrow> hd (dropWhile (\<lambda>c. c = CHR ''0'') s) \<noteq> CHR ''0''"
proof -
  have "takeWhile (\<lambda>c. c = CHR ''0'') s = replicate (length (takeWhile (\<lambda>c. c = CHR ''0'') s)) CHR ''0''"
    by (induction s) simp_all
  then show "s = replicate (length (takeWhile (\<lambda>c. c = CHR ''0'') s)) CHR ''0'' @ dropWhile (\<lambda>c. c = CHR ''0'') s"
    by (metis takeWhile_dropWhile_id)
  show "dropWhile (\<lambda>c. c = CHR ''0'') s \<noteq> [] \<Longrightarrow> hd (dropWhile (\<lambda>c. c = CHR ''0'') s) \<noteq> CHR ''0''"
    by (rule hd_dropWhile)
qed

definition digits_position :: "string \<Rightarrow> string \<Rightarrow> int \<Rightarrow> int" where
  "digits_position I F e = int (length I) - int (length (takeWhile (\<lambda>c. c = CHR ''0'') (I @ F))) + e"

definition kept_digits :: "string \<Rightarrow> string \<Rightarrow> int \<Rightarrow> string" where
  "kept_digits I F e = trimDigits (digits_position I F e) (dropWhile (\<lambda>c. c = CHR ''0'') (I @ F))"

lemma digits_zero:
  assumes "list_all is_digit (I @ F)"
  shows "dropWhile (\<lambda>c. c = CHR ''0'') (I @ F) = [] \<longleftrightarrow> read_nat (I @ F) = 0"
proof -
  define D z where D0: "D = dropWhile (\<lambda>c. c = CHR ''0'') (I @ F)" and z0: "z = length (takeWhile (\<lambda>c. c = CHR ''0'') (I @ F))"
  note D = strip_zeros(1)[of "I @ F", folded D0 z0] D0 strip_zeros(2)[of "I @ F", folded D0]
  have "list_all is_digit D" using assms D(1) by simp
  then have "D = [] \<longleftrightarrow> read_nat D = 0" using D(3) read_nat_pos[of D] by (cases "D = []") auto
  moreover have "read_nat (I @ F) = read_nat D" unfolding D(1) by simp
  ultimately show ?thesis unfolding D(2)[symmetric] by simp
qed

lemma kept_digits_placed:
  assumes "list_all is_digit (I @ F)" "read_nat (I @ F) \<noteq> 0"
  shows "placed (kept_digits I F e) (digits_position I F e)"
    and "parts_value I F * 10 powi e =
      of_nat (read_nat (kept_digits I F e)) * 10 powi (digits_position I F e - int (length (kept_digits I F e)))"
proof -
  let ?p = "digits_position I F e" and ?t = "kept_digits I F e"
  define D z where D0: "D = dropWhile (\<lambda>c. c = CHR ''0'') (I @ F)" and z0: "z = length (takeWhile (\<lambda>c. c = CHR ''0'') (I @ F))"
  note D = strip_zeros(1)[of "I @ F", folded D0 z0] D0 z0 strip_zeros(2)[of "I @ F", folded D0]
  have ne: "D \<noteq> []" using digits_zero[OF assms(1)] assms(2) D(2) by metis
  have dig: "list_all is_digit D" using assms(1) D(1) by simp
  obtain k where k: "D = ?t @ replicate k CHR ''0''" "?t \<noteq> [] \<and> last ?t = CHR ''0'' \<longrightarrow> int (length ?t) \<le> ?p"
    using trimDigits_split[of D ?p] D(2) unfolding kept_digits_def by metis
  have t: "?t \<noteq> []" using k(1) D(4)[OF ne] ne by (cases k) auto
  have "hd ?t \<noteq> CHR ''0''" using k(1) D(4)[OF ne] t by (metis hd_append)
  moreover have "list_all is_digit ?t" using dig k(1) by (metis list_all_append)
  ultimately show "placed ?t ?p" using t k(2) by (simp add: placed_def)
  have "length (I @ F) = z + length D" unfolding D(1) by simp
  then have len: "?p - int (length D) = e - int (length F)"
    unfolding digits_position_def D(3)[symmetric] by simp
  have "read_nat (I @ F) = read_nat D" unfolding D(1) by simp
  moreover have "read_nat D = read_nat ?t * 10 ^ k" by (subst k(1)) (simp add: read_nat_append)
  moreover have "int (length D) = int (length ?t) + int k" by (subst k(1)) simp
  ultimately have "parts_value I F * 10 powi e = of_nat (read_nat ?t) * 10 ^ k * 10 powi (- int (length F)) * 10 powi e"
    and "?p - int (length ?t) = int k + (- int (length F) + e)"
    using len by (simp_all add: parts_value_powi)
  then show "parts_value I F * 10 powi e = of_nat (read_nat ?t) * 10 powi (?p - int (length ?t))"
    using power_int_add[of "10 :: rat" "- int (length F)" e] by (simp add: power_int_add)
qed

lemma placed_not_blank:
  assumes "placed t pos" "place t pos = (J, G)"
  shows "\<not> list_all (\<lambda>c. c = CHR ''0'' \<or> c = CHR ''.'') (plain_text False J G)"
proof -
  have "hd t \<in> set t" "hd t \<noteq> CHR ''0''" "hd t \<noteq> CHR ''.''" using assms(1) digit_neq by (auto simp: placed_def list_all_iff)
  moreover have "set t \<subseteq> set (J @ G)"
    using assms(2)
  proof (cases rule: place_cases)
    case split
    then have "J @ G = t" by simp
    then show ?thesis by simp
  qed auto
  moreover have "set (J @ G) \<subseteq> set (plain_text False J G)" by (auto simp: plain_text_def)
  ultimately show ?thesis by (auto simp: list_all_iff)
qed

lemma canonicalDigits_eq:
  assumes "list_all is_digit (I @ F)" "read_nat (I @ F) \<noteq> 0"
    and "wrap64 (digits_position I F e) = digits_position I F e"
    and "place (kept_digits I F e) (digits_position I F e) = (J, G)"
  shows "canonicalDigits sign I F e =
    (if \<bar>digits_position I F e\<bar> > maxCanonicalDecimalDigits \<or> int (length (kept_digits I F e)) > maxCanonicalDecimalDigits
     then Inl errDecimalOverflow else Inr (sign @ plain_text False J G))"
proof -
  let ?p = "digits_position I F e" and ?t = "kept_digits I F e"
  note t = kept_digits_placed(1)[OF assms(1,2), of e]
  have ne: "dropWhile (\<lambda>c. c = CHR ''0'') (I @ F) \<noteq> []" using digits_zero[OF assms(1)] assms(2) by simp
  have blank: "\<not> list_all (\<lambda>c. c = CHR ''0'' \<or> c = CHR ''.'') (plain_text False J G)"
    by (rule placed_not_blank[OF t assms(4)])
  then have "plain_text False J G \<noteq> ''0''" by auto
  moreover have c: "plain_text False J G =
      (if ?p \<le> 0 then ''0.'' @ replicate (nat (- ?p)) CHR ''0'' @ ?t
       else if ?p \<ge> int (length ?t) then ?t @ replicate (nat (?p - int (length ?t))) CHR ''0''
       else take (nat ?p) ?t @ ''.'' @ drop (nat ?p) ?t)"
    using assms(4) t by (cases rule: place_cases) (auto simp: plain_text_def placed_def)
  moreover have w: "wrap64 (int (length I) - int (length (takeWhile (\<lambda>c. c = CHR ''0'') (I @ F))) + e) = ?p"
    using assms(3) by (simp add: digits_position_def)
  moreover have "trimDigits ?p (dropWhile (\<lambda>c. c = CHR ''0'') (I @ F)) = ?t" by (simp add: kept_digits_def)
  ultimately show ?thesis
    using ne blank unfolding canonicalDigits_def Let_def w
    by (cases "?p \<le> 0"; cases "?p \<ge> int (length ?t)") (auto simp: maxCanonicalDecimalDigits_def)
qed

section \<open>Lemmas: the number grammar\<close>

lemma has_prefix_single: "has_prefix s [c] \<longleftrightarrow> s \<noteq> [] \<and> hd s = c"
  by (cases s) (auto simp: has_prefix_def)

lemma exponentPattern_iff: "exponentPattern s \<longleftrightarrow> (\<exists>x. s = exponent_text x \<and> exponent_wf x)"
proof
  assume p: "exponentPattern s"
  show "\<exists>x. s = exponent_text x \<and> exponent_wf x"
  proof (cases s)
    case Nil
    then show ?thesis by (intro exI[of _ None]) (simp add: exponent_text_def exponent_wf_def)
  next
    case (Cons m cs)
    let ?sg = "if has_prefix cs ''+'' \<or> has_prefix cs ''-'' then [hd cs] else []"
    let ?ds = "if has_prefix cs ''+'' \<or> has_prefix cs ''-'' then tl cs else cs"
    have "s = exponent_text (Some (m, ?sg, ?ds))" using Cons by (cases cs) (auto simp: exponent_text_def has_prefix_single)
    moreover have "exponent_wf (Some (m, ?sg, ?ds))"
      using p Cons by (auto simp: exponentPattern_def exponent_wf_def has_prefix_single Let_def)
    ultimately show ?thesis by blast
  qed
next
  assume "\<exists>x. s = exponent_text x \<and> exponent_wf x"
  then show "exponentPattern s" using digits_no_sign
    by (fastforce simp: exponentPattern_def exponent_text_def exponent_wf_def has_prefix_single Let_def split: option.splits)
qed

lemma exponent_head: "exponent_wf x \<Longrightarrow> exponent_text x = [] \<or> (\<exists>m cs. exponent_text x = m # cs \<and> (m = CHR ''e'' \<or> m = CHR ''E''))"
  by (auto simp: exponent_wf_def exponent_text_def split: option.splits)

lemma takeWhile_digits_exponent:
  assumes "list_all is_digit s" "exponent_wf x"
  shows "takeWhile is_digit (s @ exponent_text x) = s" "dropWhile is_digit (s @ exponent_text x) = exponent_text x"
  using exponent_head[OF assms(2)] takeWhile_digits_append[OF assms(1)] takeWhile_digits_all[OF assms(1)] by auto

lemma body_has_no_sign:
  assumes "lead_ok I"
  shows "\<not> has_prefix (I @ t) ''-''" "\<not> has_prefix (I @ t) ''+''"
  using digits_no_sign[of I t] assms by (auto simp: lead_ok_def)

lemma pattern_complete:
  assumes "number_wf I F x"
  shows "jsonNumberPattern (plain_text neg I F @ exponent_text x)"
proof -
  note wf = assms[unfolded number_wf_def]
  have I: "lead_ok I" "list_all is_digit I" "I \<noteq> []" using wf by (auto simp: lead_ok_def)
  define R where "R = (if F = [] then [] else CHR ''.'' # F) @ exponent_text x"
  have body: "(if has_prefix (plain_text neg I F @ exponent_text x) ''-'' then tl (plain_text neg I F @ exponent_text x)
      else plain_text neg I F @ exponent_text x) = I @ R"
  proof -
    have "plain_text neg I F @ exponent_text x = (if neg then ''-'' else []) @ I @ R" by (simp add: plain_text_def R_def)
    then show ?thesis using body_has_no_sign[OF I(1), of R] by (simp add: has_prefix_def)
  qed
  have R: "takeWhile is_digit (I @ R) = I \<and> dropWhile is_digit (I @ R) = R"
  proof (cases "F = []")
    case True
    then show ?thesis using takeWhile_digits_exponent[OF I(2)] wf by (simp add: R_def)
  next
    case False
    then show ?thesis using takeWhile_digits_append[OF I(2), of "CHR ''.''"] by (simp add: R_def)
  qed
  have "exponentPattern (exponent_text x)" using exponentPattern_iff wf by blast
  moreover have "\<not> has_prefix (exponent_text x) ''.''" using exponent_head[of x] wf by (auto simp: has_prefix_single)
  ultimately have "if has_prefix R ''.'' then takeWhile is_digit (tl R) \<noteq> [] \<and> exponentPattern (dropWhile is_digit (tl R)) else exponentPattern R"
    using takeWhile_digits_exponent[of F x] wf by (auto simp: R_def has_prefix_single)
  then show ?thesis
    using R I unfolding jsonNumberPattern_def Let_def body by (simp add: lead_ok_def)
qed

lemma pattern_sound:
  assumes "jsonNumberPattern text"
  shows "\<exists>neg I F x. text = plain_text neg I F @ exponent_text x \<and> number_wf I F x"
proof -
  let ?neg = "has_prefix text ''-''"
  define body where "body = (if ?neg then tl text else text)"
  define I where "I = takeWhile is_digit body"
  define R where "R = dropWhile is_digit body"
  have whole: "text = (if ?neg then ''-'' else []) @ I @ R"
    by (cases "text") (auto simp: body_def I_def R_def has_prefix_single)
  have I: "lead_ok I" using assms takeWhile_eq_all_conv[of is_digit I] set_takeWhileD[of _ is_digit body]
    unfolding jsonNumberPattern_def Let_def body_def[symmetric] I_def[symmetric] by (auto simp: lead_ok_def list_all_iff I_def)
  show ?thesis
  proof (cases "has_prefix R ''.''")
    case True
    define F where "F = takeWhile is_digit (tl R)"
    have "exponentPattern (dropWhile is_digit (tl R))" "F \<noteq> []"
      using assms True unfolding jsonNumberPattern_def Let_def body_def[symmetric] R_def[symmetric] F_def by auto
    then obtain x where x: "dropWhile is_digit (tl R) = exponent_text x" "exponent_wf x" using exponentPattern_iff by blast
    have "R = CHR ''.'' # F @ exponent_text x" using True x(1) by (cases R) (auto simp: F_def has_prefix_single simp flip: x(1))
    moreover have "list_all is_digit F" by (auto simp: F_def list_all_iff dest: set_takeWhileD)
    ultimately show ?thesis using whole I x(2) \<open>F \<noteq> []\<close>
      by (intro exI[of _ ?neg] exI[of _ I] exI[of _ F] exI[of _ x]) (simp add: plain_text_def number_wf_def)
  next
    case False
    then have "exponentPattern R"
      using assms unfolding jsonNumberPattern_def Let_def body_def[symmetric] R_def[symmetric] by auto
    then obtain x where "R = exponent_text x" "exponent_wf x" using exponentPattern_iff by blast
    then show ?thesis using whole I
      by (intro exI[of _ ?neg] exI[of _ I] exI[of _ "[]"] exI[of _ x]) (simp add: plain_text_def number_wf_def)
  qed
qed

lemma ParseInt_exponent:
  assumes "sg = [] \<or> sg = ''+'' \<or> sg = ''-''" "ds \<noteq> []" "list_all is_digit ds"
  defines "v \<equiv> (if sg = ''-'' then - int (read_nat ds) else int (read_nat ds))"
  shows "ParseInt (sg @ ds) = (if int64_range v then Inr v else Inl ErrRange)"
  using assms digits_no_sign[of ds "[]"] by (auto simp: ParseInt_def Let_def has_prefix_single)

lemma takeWhile_no_exp:
  assumes "list_all (\<lambda>c. c \<noteq> CHR ''e'' \<and> c \<noteq> CHR ''E'') s" "exponent_wf x"
  shows "takeWhile (\<lambda>c. c \<noteq> CHR ''e'' \<and> c \<noteq> CHR ''E'') (s @ exponent_text x) = s"
    and "dropWhile (\<lambda>c. c \<noteq> CHR ''e'' \<and> c \<noteq> CHR ''E'') (s @ exponent_text x) = exponent_text x"
proof -
  have all: "\<And>c. c \<in> set s \<Longrightarrow> c \<noteq> CHR ''e'' \<and> c \<noteq> CHR ''E''" using assms(1) by (simp add: list_all_iff)
  show "takeWhile (\<lambda>c. c \<noteq> CHR ''e'' \<and> c \<noteq> CHR ''E'') (s @ exponent_text x) = s"
    using exponent_head[OF assms(2)] all by (subst takeWhile_append2) auto
  show "dropWhile (\<lambda>c. c \<noteq> CHR ''e'' \<and> c \<noteq> CHR ''E'') (s @ exponent_text x) = exponent_text x"
    using exponent_head[OF assms(2)] all by (subst dropWhile_append2) auto
qed

lemma takeWhile_no_dot:
  assumes "list_all is_digit I"
  shows "takeWhile (\<lambda>c. c \<noteq> CHR ''.'') (I @ (if F = [] then [] else CHR ''.'' # F)) = I"
    and "tl (dropWhile (\<lambda>c. c \<noteq> CHR ''.'') (I @ (if F = [] then [] else CHR ''.'' # F))) = F"
proof -
  have "\<And>c. c \<in> set I \<Longrightarrow> c \<noteq> CHR ''.''" using assms digit_neq by (auto simp: list_all_iff)
  then show "takeWhile (\<lambda>c. c \<noteq> CHR ''.'') (I @ (if F = [] then [] else CHR ''.'' # F)) = I"
    "tl (dropWhile (\<lambda>c. c \<noteq> CHR ''.'') (I @ (if F = [] then [] else CHR ''.'' # F))) = F"
    by (simp_all add: takeWhile_append2 dropWhile_append2)
qed

lemma canonicalDecimal_parts:
  assumes "number_wf I F x"
  shows "canonicalDecimal (plain_text neg I F @ exponent_text x) =
    (if int64_range (exponent_value x) then canonicalDigits (if neg then ''-'' else []) I F (exponent_value x)
     else Inl errDecimalOverflow)"
proof -
  let ?text = "plain_text neg I F @ exponent_text x"
  note wf = assms[unfolded number_wf_def]
  define M where "M = I @ (if F = [] then [] else CHR ''.'' # F)"
  have t: "?text = (if neg then ''-'' else []) @ M @ exponent_text x" by (simp add: plain_text_def M_def)
  have sign: "has_prefix ?text ''-'' = neg" "(if neg then tl ?text else ?text) = M @ exponent_text x"
    using body_has_no_sign[of I "(if F = [] then [] else CHR ''.'' # F) @ exponent_text x"] wf
    unfolding t by (auto simp: M_def has_prefix_single)
  have "list_all (\<lambda>c. c \<noteq> CHR ''e'' \<and> c \<noteq> CHR ''E'') M"
    using wf digit_neq by (auto simp: M_def lead_ok_def list_all_iff)
  note exp = takeWhile_no_exp[OF this, of x]
  have dots: "takeWhile (\<lambda>c. c \<noteq> CHR ''.'') M = I" "tl (dropWhile (\<lambda>c. c \<noteq> CHR ''.'') M) = F"
    using takeWhile_no_dot[of I F] wf by (simp_all add: M_def lead_ok_def)
  have e: "(if exponent_text x = [] then Inr 0 else ParseInt (tl (exponent_text x))) =
      (if int64_range (exponent_value x) then Inr (exponent_value x) else Inl ErrRange)"
  proof (cases x)
    case None
    then show ?thesis by (simp add: exponent_text_def exponent_value_def int64_range_def min_int64_def max_int64_def)
  next
    case (Some y)
    obtain m sg ds where "y = (m, sg, ds)" by (metis surj_pair)
    then show ?thesis using Some wf ParseInt_exponent[of sg ds] by (simp add: exponent_text_def exponent_value_def exponent_wf_def)
  qed
  show ?thesis
    using pattern_complete[OF assms, of neg] wf
    unfolding canonicalDecimal_def Let_def sign exp(1,2)[OF wf[THEN conjunct2, THEN conjunct2]] dots e by simp
qed

lemma place_stable:
  assumes "placed t pos" "place t pos = (J, G)"
  shows "digits_position J G 0 = pos"
    and "int (length (kept_digits J G 0)) \<le> max (int (length t)) pos"
    and "read_nat (J @ G) \<noteq> 0"
proof -
  obtain d ds where t: "t = d # ds" "d \<noteq> CHR ''0''" "is_digit d" "list_all is_digit ds" using assms(1) by (cases t) (auto simp: placed_def)
  have drop: "dropWhile (\<lambda>c. c = CHR ''0'') (replicate n CHR ''0'' @ d # u) = d # u \<and>
      takeWhile (\<lambda>c. c = CHR ''0'') (replicate n CHR ''0'' @ d # u) = replicate n CHR ''0''" for n u
    using t(2) by (induction n) simp_all
  have pos: "0 < read_nat t" using read_nat_pos[of t] t by simp
  have trim: "length (trimDigits p u) \<le> length u" for p u
    using trimDigits_split[of u p] by (metis length_append le_add1)
  from assms(2) have "digits_position J G 0 = pos \<and> int (length (dropWhile (\<lambda>c. c = CHR ''0'') (J @ G))) \<le> max (int (length t)) pos
      \<and> read_nat (J @ G) \<noteq> 0"
  proof (cases rule: place_cases)
    case neg
    then have "J @ G = replicate (Suc (nat (- pos))) CHR ''0'' @ d # ds" using t by simp
    then show ?thesis unfolding digits_position_def using drop[of "Suc (nat (- pos))" ds] neg t pos by simp
  next
    case whole
    then have JG: "J @ G = d # ds @ replicate (nat (pos - int (length t))) CHR ''0''" using t by simp
    have "read_nat (J @ G) = read_nat t * 10 ^ nat (pos - int (length t))" using whole by (simp add: read_nat_append)
    then have "read_nat (J @ G) \<noteq> 0" using pos by simp
    then show ?thesis unfolding digits_position_def using whole t JG by simp
  next
    case split
    then have "J @ G = d # ds" using t by simp
    then show ?thesis unfolding digits_position_def using split t pos by simp
  qed
  then show "digits_position J G 0 = pos" "int (length (kept_digits J G 0)) \<le> max (int (length t)) pos" "read_nat (J @ G) \<noteq> 0"
    using trim[of pos "dropWhile (\<lambda>c. c = CHR ''0'') (J @ G)"] by (simp_all add: kept_digits_def)
qed

lemma plain_value_canonical:
  assumes "canonical_parts J G" "neg \<longrightarrow> J \<noteq> ''0'' \<or> G \<noteq> []"
  shows "canonical_text (plain_text neg J G)" "ratSetString (plain_text neg J G) = Some (signed neg (parts_value J G))"
  using assms plain_text_value[of J G neg] by (auto simp: canonical_text_def canonical_parts_def lead_ok_def)

lemma placed_canonicalises:
  assumes "placed t pos" "place t pos = (J, G)" "\<bar>pos\<bar> \<le> maxCanonicalDecimalDigits" "int (length t) \<le> maxCanonicalDecimalDigits"
  shows "canonicalDecimal (plain_text neg J G) = Inr (plain_text neg J G)"
proof -
  note can = place_canonical[OF assms(1,2)] and st = place_stable[OF assms(1,2)]
  have wf: "number_wf J G None" using can(1) by (simp add: number_wf_def canonical_parts_def exponent_wf_def)
  have dig: "list_all is_digit (J @ G)" using can(1) by (simp add: canonical_parts_def lead_ok_def)
  have w: "wrap64 (digits_position J G 0) = digits_position J G 0"
    using assms(3) st(1) by (intro wrap64_id) (auto simp: int64_range_def min_int64_def max_int64_def maxCanonicalDecimalDigits_def)
  obtain J' G' where p: "place (kept_digits J G 0) (digits_position J G 0) = (J', G')"
    by (cases "place (kept_digits J G 0) (digits_position J G 0)")
  note k = kept_digits_placed[OF dig st(3), of 0]
  have "canonicalDecimal (plain_text neg J G) = Inr (plain_text neg J' G')"
    using canonicalDecimal_parts[OF wf, of neg] canonicalDigits_eq[OF dig st(3) w p] st assms(3,4)
    by (auto simp: exponent_text_def exponent_value_def int64_range_def min_int64_def max_int64_def plain_text_def)
  moreover have "parts_value J' G' = parts_value J G" using place_value[OF p] k(2) by simp
  then have "J' = J \<and> G' = G" using parts_unique[OF place_canonical(1)[OF k(1) p] can(1)] by simp
  ultimately show ?thesis by simp
qed

lemma canonicalDigits_Inr:
  assumes "canonicalDigits (if neg then ''-'' else []) I F e = Inr c" "list_all is_digit (I @ F)"
    and "int (length (I @ F)) \<le> 4611686018427387904" "int64_range e"
  shows "canonical_text c \<and> ratSetString c = Some (signed neg (parts_value I F * 10 powi e)) \<and> canonicalDecimal c = Inr c"
proof (cases "read_nat (I @ F) = 0")
  case True
  then have "c = ''0''" using assms(1) digits_zero[OF assms(2)] by (simp add: canonicalDigits_def Let_def)
  moreover have "canonical_text ''0''"
    unfolding canonical_text_def
    by (intro exI[of _ False] exI[of _ "''0''"] exI[of _ "[]"]) (simp add: canonical_parts_def lead_ok_def plain_text_def)
  moreover have "ratSetString ''0'' = Some 0" by code_simp
  moreover have "canonicalDecimal ''0'' = Inr ''0''" by code_simp
  ultimately show ?thesis using True by (simp add: parts_value_def signed_def)
next
  case False
  let ?p = "digits_position I F e" and ?t = "kept_digits I F e"
  have L: "\<bar>int (length I) - int (length (takeWhile (\<lambda>c. c = CHR ''0'') (I @ F)))\<bar> \<le> 4611686018427387904"
    using assms(3) length_takeWhile_le[of "\<lambda>c. c = CHR ''0''" "I @ F"] by (auto simp: abs_le_iff)
  have w: "wrap64 ?p = ?p"
  proof -
    have "\<bar>wrap64 ?p\<bar> \<le> maxCanonicalDecimalDigits"
      using assms(1) False digits_zero[OF assms(2)]
      by (auto simp: canonicalDigits_def Let_def digits_position_def split: if_splits)
    then show ?thesis using wrap_guard[OF L assms(4)] by (simp add: digits_position_def)
  qed
  obtain J G where JG: "place ?t ?p = (J, G)" by (cases "place ?t ?p")
  note t = kept_digits_placed[OF assms(2) False, of e]
  have c: "c = plain_text neg J G" and b: "\<bar>?p\<bar> \<le> maxCanonicalDecimalDigits" "int (length ?t) \<le> maxCanonicalDecimalDigits"
    using canonicalDigits_eq[OF assms(2) False w JG] assms(1) by (auto simp: plain_text_def split: if_splits)
  note can = place_canonical[OF t(1) JG]
  have v: "parts_value J G = parts_value I F * 10 powi e" using place_value[OF JG] t(2) by simp
  show ?thesis using plain_value_canonical[of J G neg] can v c placed_canonicalises[OF t(1) JG b, of neg] by simp
qed

lemma canonicalDecimal_Inr:
  assumes "canonicalDecimal text = Inr c" "denotes text v" "int (length text) \<le> 4611686018427387904"
  shows "canonical_text c \<and> ratSetString c = Some v \<and> canonicalDecimal c = Inr c"
proof -
  obtain neg I F x where t: "text = plain_text neg I F @ exponent_text x" "number_wf I F x"
    "v = signed neg (parts_value I F * 10 powi exponent_value x)"
    using assms(2) unfolding denotes_def by blast
  have len: "int (length (I @ F)) \<le> 4611686018427387904" using assms(3) t(1) by (simp add: plain_text_def split: if_splits)
  have dig: "list_all is_digit (I @ F)" using t(2) by (simp add: number_wf_def lead_ok_def)
  have "int64_range (exponent_value x)"
    and "canonicalDigits (if neg then ''-'' else []) I F (exponent_value x) = Inr c"
    using assms(1) canonicalDecimal_parts[OF t(2), of neg] t(1) by (auto split: if_splits)
  from canonicalDigits_Inr[OF this(2) dig len this(1)] t(3) show ?thesis by simp
qed

lemma canonicalDecimal_invalid_iff: "canonicalDecimal text = Inl errInvalidDecimal \<longleftrightarrow> (\<nexists>v. denotes text v)"
proof (cases "jsonNumberPattern text")
  case True
  then obtain neg I F x where t: "text = plain_text neg I F @ exponent_text x" "number_wf I F x"
    using pattern_sound by blast
  then have "\<exists>v. denotes text v" unfolding denotes_def by blast
  moreover have "canonicalDecimal text \<noteq> Inl errInvalidDecimal"
    using canonicalDecimal_parts[OF t(2), of neg] t(1) by (auto simp: canonicalDigits_def Let_def)
  ultimately show ?thesis by simp
next
  case False
  then have "\<nexists>v. denotes text v" using pattern_complete unfolding denotes_def by blast
  then show ?thesis using False by (simp add: canonicalDecimal_def)
qed

section \<open>Lemmas: trimming and padding\<close>

lemma trimRight_split:
  "\<exists>k. s = trimRight c s @ replicate k c" "trimRight c s \<noteq> [] \<Longrightarrow> last (trimRight c s) \<noteq> c"
proof -
  have "takeWhile (\<lambda>d. d = c) (rev s) = replicate (length (takeWhile (\<lambda>d. d = c) (rev s))) c" for s
    by (induction s rule: rev_induct) (simp_all add: takeWhile_append)
  then have "rev s = replicate (length (takeWhile (\<lambda>d. d = c) (rev s))) c @ dropWhile (\<lambda>d. d = c) (rev s)"
    by (metis takeWhile_dropWhile_id)
  then have "s = rev (dropWhile (\<lambda>d. d = c) (rev s)) @ replicate (length (takeWhile (\<lambda>d. d = c) (rev s))) c"
    by (metis rev_append rev_replicate rev_rev_ident)
  then show "\<exists>k. s = trimRight c s @ replicate k c" unfolding trimRight_def by blast
  show "last (trimRight c s) \<noteq> c" if "trimRight c s \<noteq> []"
    using that hd_dropWhile[of "\<lambda>d. d = c" "rev s"] by (simp add: trimRight_def last_rev)
qed

lemma trimRight_append: "trimRight c (s @ t) = (if trimRight c t = [] then trimRight c s else s @ trimRight c t)"
  by (induction t rule: rev_induct) (auto simp: trimRight_def dropWhile_append)

lemma trimRight_last: "s = [] \<or> last s \<noteq> c \<Longrightarrow> trimRight c s = s"
  by (cases s rule: rev_cases) (auto simp: trimRight_def)

lemma trimRight_fraction:
  assumes "list_all is_digit Q"
  shows "list_all is_digit (trimRight CHR ''0'' Q)" "parts_value P (trimRight CHR ''0'' Q) = parts_value P Q"
    "trimRight CHR ''0'' Q \<noteq> [] \<Longrightarrow> last (trimRight CHR ''0'' Q) \<noteq> CHR ''0''"
proof -
  obtain k where k: "Q = trimRight CHR ''0'' Q @ replicate k CHR ''0''" using trimRight_split(1) by blast
  show "list_all is_digit (trimRight CHR ''0'' Q)" using assms k by (metis list_all_append)
  have "parts_value P (F @ replicate k CHR ''0'') = parts_value P F" for F
    by (simp add: parts_value_def read_nat_append power_add field_simps)
  then show "parts_value P (trimRight CHR ''0'' Q) = parts_value P Q" using k by metis
  show "trimRight CHR ''0'' Q \<noteq> [] \<Longrightarrow> last (trimRight CHR ''0'' Q) \<noteq> CHR ''0''" by (rule trimRight_split(2))
qed

lemma trimDecimalZeros_point:
  assumes "list_all is_digit P" "P \<noteq> []" "list_all is_digit Q" "F = trimRight CHR ''0'' Q"
  shows "trimDecimalZeros ((if neg then ''-'' else []) @ P @ CHR ''.'' # Q) =
    (if neg \<and> P = ''0'' \<and> F = [] then ''0'' else plain_text neg P F)"
proof -
  let ?s = "(if neg then ''-'' else []) @ P"
  have P: "is_digit (last P)" using assms(1,2) by (simp add: list_all_iff)
  have "trimRight CHR ''0'' (?s @ CHR ''.'' # Q) = ?s @ CHR ''.'' # F"
    using assms(4) trimRight_append[of "CHR ''0''" ?s "CHR ''.'' # Q"] trimRight_append[of "CHR ''0''" "''.''" Q]
    by (simp add: trimRight_def[of _ "''.''"] split: if_splits)
  moreover have "trimRight CHR ''.'' (?s @ CHR ''.'' # F) = plain_text neg P F"
  proof (cases "F = []")
    case True
    have "trimRight CHR ''.'' ?s = ?s" using P assms(2) digit_neq by (intro trimRight_last) (auto simp: last_append)
    then show ?thesis using True trimRight_append[of "CHR ''.''" ?s "''.''"] by (simp add: trimRight_def[of _ "''.''"] plain_text_def)
  next
    case False
    then have "is_digit (last F)" using trimRight_fraction(1)[OF assms(3)] assms(4) by (simp add: list_all_iff)
    then show ?thesis using False digit_neq[of "last F"] by (subst trimRight_last) (auto simp: plain_text_def)
  qed
  moreover have "plain_text neg P F = ''-0'' \<longleftrightarrow> neg \<and> P = ''0'' \<and> F = []" "plain_text neg P F \<noteq> []"
  proof -
    obtain d ds where P: "P = d # ds" "d \<noteq> CHR ''-''" using assms(1,2) digit_neq by (cases P) auto
    then show "plain_text neg P F = ''-0'' \<longleftrightarrow> neg \<and> P = ''0'' \<and> F = []" "plain_text neg P F \<noteq> []"
      by (cases neg; cases ds; auto simp: plain_text_def)+
  qed
  ultimately show ?thesis by (simp add: trimDecimalZeros_def Let_def)
qed

lemma padLeft_props:
  assumes "list_all is_digit s"
  shows "list_all is_digit (padLeft w s)" "read_nat (padLeft w s) = read_nat s" "length (padLeft w s) = max w (length s)"
  using assms by (auto simp: padLeft_def list_all_iff)

lemma show_nat_list_all: "list_all is_digit (show_nat n)"
  using show_nat_digits[of n] by (simp add: list_all_iff)

lemma show_nat_zero_iff: "show_nat n = ''0'' \<longleftrightarrow> n = 0"
  using show_nat_inject[of n 0] by (simp add: show_nat.simps[of 0] digit_char_def)

text \<open>Zero is canonical and the only canonical text of value zero.\<close>

lemma canonical_zero: "canonical_text ''0''" "ratSetString ''0'' = Some 0"
proof -
  show "canonical_text ''0''"
    unfolding canonical_text_def
    by (intro exI[of _ False] exI[of _ "''0''"] exI[of _ "[]"]) (simp add: canonical_parts_def lead_ok_def plain_text_def)
  show "ratSetString ''0'' = Some 0" by code_simp
qed

lemma signed_canonical:
  assumes "canonical_parts P F" "t = (if neg \<and> P = ''0'' \<and> F = [] then ''0'' else plain_text neg P F)"
  shows "canonical_text t \<and> ratSetString t = Some (signed neg (parts_value P F))"
proof (cases "neg \<and> P = ''0'' \<and> F = []")
  case True
  then show ?thesis using assms(2) canonical_zero by (simp add: signed_def parts_value_def)
next
  case False
  then show ?thesis using assms plain_value_canonical[OF assms(1), of neg] by auto
qed

lemma formatScaledInteger_value:
  "canonical_text (formatScaledInteger v scale) \<and> ratSetString (formatScaledInteger v scale) = Some (of_int v / 10 ^ scale)"
proof -
  have mag: "(of_nat (nat \<bar>v\<bar>) :: rat) = of_int \<bar>v\<bar>" by simp
  have sgn: "signed (v < 0) (of_int \<bar>v\<bar> / 10 ^ scale) = of_int v / 10 ^ scale" by (simp add: signed_def)
  show ?thesis
  proof (cases "scale = 0")
    case True
    have "canonical_parts (show_nat (nat \<bar>v\<bar>)) []" using show_nat_lead_ok by (simp add: canonical_parts_def)
    moreover have "formatScaledInteger v scale =
        (if v < 0 \<and> show_nat (nat \<bar>v\<bar>) = ''0'' \<and> ([] :: string) = [] then ''0'' else plain_text (v < 0) (show_nat (nat \<bar>v\<bar>)) [])"
      using True by (auto simp: formatScaledInteger_def Let_def plain_text_def show_nat_zero_iff)
    moreover have "parts_value (show_nat (nat \<bar>v\<bar>)) [] = of_int \<bar>v\<bar> / 10 ^ scale" using True mag by (simp add: parts_value_def)
    ultimately show ?thesis using signed_canonical sgn by metis
  next
    case False
    define padded where "padded = padLeft (scale + 1) (show_nat (nat \<bar>v\<bar>))"
    define P Q F where "P = take (length padded - scale) padded" and "Q = drop (length padded - scale) padded"
      and "F = trimRight CHR ''0'' Q"
    have pad: "list_all is_digit padded" "read_nat padded = nat \<bar>v\<bar>" "length padded = max (scale + 1) (length (show_nat (nat \<bar>v\<bar>)))"
      using padLeft_props[OF show_nat_list_all, of "scale + 1" "nat \<bar>v\<bar>"] by (simp_all add: padded_def)
    have PQ: "padded = P @ Q" "length Q = scale" "P \<noteq> []" using pad(3) by (auto simp: P_def Q_def)
    have dig: "list_all is_digit P" "list_all is_digit Q" using pad(1) PQ(1) by simp_all
    have lead: "lead_ok P"
    proof (cases "length (show_nat (nat \<bar>v\<bar>)) \<ge> scale + 1")
      case True
      then have "padded = show_nat (nat \<bar>v\<bar>)" by (simp add: padded_def padLeft_def)
      moreover have "show_nat (nat \<bar>v\<bar>) \<noteq> ''0''" using True False by auto
      moreover have "hd P = hd padded" using PQ(1,3) by (metis hd_append2)
      ultimately have "hd P \<noteq> CHR ''0''" using show_nat_lead_ok[of "nat \<bar>v\<bar>"] by (simp add: lead_ok_def)
      then show ?thesis using dig PQ(3) by (simp add: lead_ok_def)
    next
      case False
      then have "length padded = scale + 1" "padded \<noteq> []" "hd padded = CHR ''0''" using pad(3) by (auto simp: padded_def padLeft_def)
      then have "P = ''0''" by (cases padded) (auto simp: P_def)
      then show ?thesis by (simp add: lead_ok_def)
    qed
    have can: "canonical_parts P F" using lead trimRight_fraction[OF dig(2)] by (simp add: canonical_parts_def F_def)
    have val: "parts_value P F = of_int \<bar>v\<bar> / 10 ^ scale"
      using trimRight_fraction(2)[OF dig(2), of P] pad(2) PQ mag by (simp add: F_def parts_value_def)
    have "trimDecimalZeros (P @ ''.'' @ Q) = plain_text False P F"
      using trimDecimalZeros_point[OF dig(1) PQ(3) dig(2) F_def, of False] by simp
    moreover have "plain_text False P F = ''0'' \<longleftrightarrow> P = ''0'' \<and> F = []" using PQ(3) by (cases P) (auto simp: plain_text_def)
    ultimately have "formatScaledInteger v scale =
        (if v < 0 \<and> P = ''0'' \<and> F = [] then ''0'' else plain_text (v < 0) P F)"
      using False unfolding formatScaledInteger_def Let_def padded_def[symmetric] P_def[symmetric] Q_def[symmetric]
      by (auto simp: plain_text_def)
    then show ?thesis using signed_canonical[OF can] val sgn by metis
  qed
qed

section \<open>Lemmas: rounding\<close>

text \<open>What each mode promises of the scaled magnitude \<open>x\<close> and the integer \<open>k\<close> it is rounded to.\<close>

definition rounded :: "string \<Rightarrow> rat \<Rightarrow> int \<Rightarrow> bool" where
  "rounded mode x k \<longleftrightarrow> \<bar>of_int k - x\<bar> < 1 \<and> 0 \<le> of_int k * x \<and>
     (mode = ''towardZero'' \<longrightarrow> \<bar>of_int k\<bar> \<le> \<bar>x\<bar>) \<and>
     (mode = ''awayFromZero'' \<longrightarrow> \<bar>x\<bar> \<le> \<bar>of_int k\<bar>) \<and>
     (mode = ''halfAwayFromZero'' \<longrightarrow> \<bar>of_int k - x\<bar> \<le> 1 / 2 \<and> (\<bar>of_int k - x\<bar> = 1 / 2 \<longrightarrow> \<bar>x\<bar> < \<bar>of_int k\<bar>)) \<and>
     (mode = ''halfEven'' \<longrightarrow> \<bar>of_int k - x\<bar> \<le> 1 / 2 \<and> (\<bar>of_int k - x\<bar> = 1 / 2 \<longrightarrow> even k))"

lemma rounded_uminus: "rounded mode x k \<Longrightarrow> rounded mode (- x) (- k)"
proof -
  have "\<bar>of_int (- k) - - x\<bar> = \<bar>of_int k - x\<bar>" by linarith
  moreover assume "rounded mode x k"
  ultimately show ?thesis unfolding rounded_def by simp
qed

lemma rounded_quotient:
  fixes N den :: int
  assumes "0 < den" "0 \<le> N" "q = N div den" "r = N mod den" "q1 = (if shouldRoundUp q r den mode then q + 1 else q)"
    and "supportedRoundingMode mode"
  shows "rounded mode (of_int N / of_int den) q1" "0 \<le> q1"
proof -
  define f where "f = (of_int r / of_int den :: rat)"
  have r: "0 \<le> r" "r < den" using assms(1,4) by simp_all
  have f: "0 \<le> f" "f < 1" using r assms(1) by (simp_all add: f_def)
  have "N = q * den + r" using assms(3,4) by simp
  then have x: "of_int N / of_int den = of_int q + f" using assms(1) by (simp add: f_def field_simps)
  have q: "0 \<le> q" using assms(1,2,3) by (simp add: pos_imp_zdiv_nonneg_iff)
  then show "0 \<le> q1" using assms(5) by simp
  have zero: "r = 0 \<longleftrightarrow> f = 0" using assms(1) by (simp add: f_def)
  have half: "2 * r > den \<longleftrightarrow> f > 1 / 2" "2 * r = den \<longleftrightarrow> f = 1 / 2" "2 * r \<ge> den \<longleftrightarrow> f \<ge> 1 / 2"
  proof -
    have "(of_int (2 * r) :: rat) = 2 * f * of_int den" using assms(1) by (simp add: f_def)
    moreover have d: "0 < (of_int den :: rat)" using assms(1) by simp
    ultimately have "(of_int (2 * r) > (of_int den :: rat)) = (f > 1 / 2)" "(of_int (2 * r) = (of_int den :: rat)) = (f = 1 / 2)"
      "(of_int (2 * r) \<ge> (of_int den :: rat)) = (f \<ge> 1 / 2)"
      by (auto simp: field_simps)
    then show "2 * r > den \<longleftrightarrow> f > 1 / 2" "2 * r = den \<longleftrightarrow> f = 1 / 2" "2 * r \<ge> den \<longleftrightarrow> f \<ge> 1 / 2"
      by (simp_all only: of_int_less_iff of_int_le_iff of_int_eq_iff)
  qed
  have nn: "0 \<le> (of_int q + f)" "0 \<le> (of_int q :: rat)" using q f by simp_all
  have mode: "mode = ''towardZero'' \<or> mode = ''awayFromZero'' \<or> mode = ''halfAwayFromZero'' \<or> mode = ''halfEven''"
    using assms(6) by (auto simp: supportedRoundingMode_def)
  have up: "shouldRoundUp q r den mode \<longleftrightarrow> f \<noteq> 0 \<and> (mode = ''awayFromZero'' \<or> mode = ''halfAwayFromZero'' \<and> f \<ge> 1 / 2 \<or>
      mode = ''halfEven'' \<and> (f > 1 / 2 \<or> f = 1 / 2 \<and> odd q))"
    using mode by (elim disjE) (simp_all add: shouldRoundUp_def zero half odd_iff_mod_2_eq_one)
  have x': "\<bar>of_int N / of_int den\<bar> = of_int q + f" using nn(1) x by simp
  show "rounded mode (of_int N / of_int den) q1"
  proof (cases "shouldRoundUp q r den mode")
    case True
    then have q1: "q1 = q + 1" using assms(5) by simp
    then have "\<bar>of_int q1 - of_int N / of_int den\<bar> = 1 - f" "\<bar>of_int q1\<bar> = of_int q + (1 :: rat)" using x f nn by simp_all
    then show ?thesis unfolding rounded_def x' using True[unfolded up] q1 x nn f mode by (elim disjE) auto
  next
    case False
    then have q1: "q1 = q" using assms(5) by simp
    then have "\<bar>of_int q1 - of_int N / of_int den\<bar> = f" "\<bar>of_int q1\<bar> = (of_int q :: rat)" using x f nn by simp_all
    then show ?thesis unfolding rounded_def x' using False[unfolded up] q1 x nn f mode by (elim disjE) auto
  qed
qed

lemma roundRationalDecimal_Inr:
  assumes "roundRationalDecimal v scale mode = Inr c"
  shows "canonical_text c \<and> (\<exists>k. ratSetString c = Some (of_int k / 10 ^ nat scale) \<and> rounded mode (v * 10 ^ nat scale) k)"
proof -
  obtain num den where nd: "quotient_of \<bar>v\<bar> = (num, den)" by (cases "quotient_of \<bar>v\<bar>")
  have den: "0 < den" and av: "\<bar>v\<bar> = of_int num / of_int den"
    using quotient_of_denom_pos[OF nd] quotient_of_div[OF nd] by simp_all
  have num: "0 \<le> num" using av den by (metis abs_ge_zero of_int_0_le_iff of_int_0_less_iff zero_le_divide_iff not_less)
  define N q r q1 where "N = num * 10 ^ nat scale" and "q = N div den" and "r = N mod den"
    and "q1 = (if shouldRoundUp q r den mode then q + 1 else q)"
  have mode: "supportedRoundingMode mode" and c: "c = formatScaledInteger (if v < 0 \<and> q1 \<noteq> 0 then - q1 else q1) (nat scale)"
    using assms nd by (auto simp: roundRationalDecimal_def Let_def N_def q_def r_def q1_def split: if_splits)
  have "0 \<le> N" using num by (simp add: N_def)
  note rd = rounded_quotient[OF den this q_def r_def q1_def mode]
  have x: "of_int N / of_int den = \<bar>v\<bar> * 10 ^ nat scale" using av by (simp add: N_def)
  have "rounded mode (v * 10 ^ nat scale) (if v < 0 \<and> q1 \<noteq> 0 then - q1 else q1)"
    using rd(1) rounded_uminus[OF rd(1)] by (cases "v < 0"; cases "q1 = 0") (simp_all add: x)
  then show ?thesis using formatScaledInteger_value c by metis
qed

section \<open>Lemmas: rationals to decimal text\<close>

lemma show_nat_length: "n < 10 ^ p \<Longrightarrow> 0 < p \<Longrightarrow> length (show_nat n) \<le> p"
proof (induction n arbitrary: p rule: show_nat.induct)
  case (1 n)
  show ?case
  proof (cases "n < 10")
    case True
    then show ?thesis using 1 by (simp add: show_nat.simps[of n])
  next
    case False
    obtain p' where p: "p = Suc p'" using 1 by (cases p) auto
    have "n div 10 < 10 ^ p'" using 1(2) p by simp
    moreover have "0 < p'" using False 1(2) p by (cases p') auto
    ultimately show ?thesis using 1(1)[OF False] False p by (simp add: show_nat.simps[of n])
  qed
qed

definition scaled_magnitude :: "rat \<Rightarrow> nat \<Rightarrow> int" where
  "scaled_magnitude v prec = (case quotient_of \<bar>v\<bar> of (n, d) \<Rightarrow> (2 * n * 10 ^ prec + d) div (2 * d))"

lemma quotient_abs:
  assumes "quotient_of \<bar>v\<bar> = (n, d)"
  shows "0 < d" "0 \<le> n" "\<bar>v\<bar> = of_int n / of_int d"
proof -
  show d: "0 < d" and v: "\<bar>v\<bar> = of_int n / of_int d"
    using quotient_of_denom_pos[OF assms] quotient_of_div[OF assms] by simp_all
  show "0 \<le> n" using v d by (metis abs_ge_zero of_int_0_le_iff of_int_0_less_iff zero_le_divide_iff not_less)
qed

lemma scaled_magnitude_nonneg: "0 \<le> scaled_magnitude v prec"
proof -
  obtain n d where nd: "quotient_of \<bar>v\<bar> = (n, d)" by (cases "quotient_of \<bar>v\<bar>")
  then show ?thesis using quotient_abs[OF nd] by (simp add: scaled_magnitude_def pos_imp_zdiv_nonneg_iff)
qed

lemma scaled_magnitude_exact:
  assumes "\<bar>v\<bar> * 10 ^ prec = of_int m"
  shows "scaled_magnitude v prec = m"
proof -
  obtain n d where nd: "quotient_of \<bar>v\<bar> = (n, d)" by (cases "quotient_of \<bar>v\<bar>")
  note q = quotient_abs[OF nd]
  have "(of_int (n * 10 ^ prec) :: rat) = of_int (m * d)" using assms q by (simp add: field_simps)
  then have "n * 10 ^ prec = m * d" by (simp only: of_int_eq_iff)
  then have eq: "2 * n * 10 ^ prec + d = d + m * (2 * d)" by simp
  have "scaled_magnitude v prec = (2 * n * 10 ^ prec + d) div (2 * d)" by (simp add: scaled_magnitude_def nd)
  also have "\<dots> = (d + m * (2 * d)) div (2 * d)" by (simp only: eq)
  also have "\<dots> = m + d div (2 * d)" using q(1) by simp
  also have "d div (2 * d) = 0" using q(1) by simp
  finally show ?thesis by simp
qed

lemma floatString_parts:
  obtains P Q where "floatString v prec = (if v < 0 then ''-'' else []) @ P @ (if prec = 0 then [] else CHR ''.'' # Q)"
    "lead_ok P" "list_all is_digit Q" "length Q = prec" "parts_value P Q = of_int (scaled_magnitude v prec) / 10 ^ prec"
proof -
  define m where "m = nat (scaled_magnitude v prec)"
  have m: "int m = scaled_magnitude v prec" using scaled_magnitude_nonneg by (simp add: m_def)
  have dm: "nat (scaled_magnitude v prec div 10 ^ prec) = m div 10 ^ prec" "nat (scaled_magnitude v prec mod 10 ^ prec) = m mod 10 ^ prec"
    unfolding m[symmetric] by (simp_all add: nat_div_distrib nat_mod_distrib nat_power_eq)
  define P where "P = show_nat (m div 10 ^ prec)"
  define Q where "Q = (if prec = 0 then [] else padLeft prec (show_nat (m mod 10 ^ prec)))"
  obtain n d where nd: "quotient_of \<bar>v\<bar> = (n, d)" by (cases "quotient_of \<bar>v\<bar>")
  have q: "(2 * n * 10 ^ prec + d) div (2 * d) = scaled_magnitude v prec" by (simp add: scaled_magnitude_def nd)
  have "floatString v prec = (if v < 0 then ''-'' else []) @ P @ (if prec = 0 then [] else CHR ''.'' # Q)"
    unfolding floatString_def nd prod.case Let_def q dm by (simp add: P_def Q_def m_def)
  moreover have "lead_ok P" by (simp add: P_def show_nat_lead_ok)
  moreover have Q: "list_all is_digit Q" "read_nat Q = m mod 10 ^ prec" "length Q = prec"
    using padLeft_props[OF show_nat_list_all, of prec "m mod 10 ^ prec"] show_nat_length[of "m mod 10 ^ prec" prec]
    by (simp_all add: Q_def)
  moreover have "parts_value P Q = of_int (scaled_magnitude v prec) / 10 ^ prec"
  proof -
    have "read_nat (P @ Q) = m" by (simp only: read_nat_append Q P_def read_show_nat div_mult_mod_eq)
    then show ?thesis using Q(3) m by (metis of_int_of_nat_eq parts_value_def)
  qed
  ultimately show ?thesis using that by blast
qed

lemma floatString_value: "ratSetString (floatString v prec) = Some (signed (v < 0) (of_int (scaled_magnitude v prec) / 10 ^ prec))"
proof -
  obtain P Q where f: "floatString v prec = (if v < 0 then ''-'' else []) @ P @ (if prec = 0 then [] else CHR ''.'' # Q)"
    "lead_ok P" "list_all is_digit Q" "length Q = prec" "parts_value P Q = of_int (scaled_magnitude v prec) / 10 ^ prec"
    by (rule floatString_parts)
  have "floatString v prec = plain_text (v < 0) P Q" using f(1,4) by (auto simp: plain_text_def)
  then show ?thesis using plain_text_value[of P Q "v < 0"] f by (simp add: lead_ok_def)
qed

lemma floatString_trimmed:
  assumes "ratSetString (floatString v prec) = Some v"
  shows "canonical_text (trimDecimalZeros (floatString v prec)) \<and> ratSetString (trimDecimalZeros (floatString v prec)) = Some v"
proof -
  obtain P Q where f: "floatString v prec = (if v < 0 then ''-'' else []) @ P @ (if prec = 0 then [] else CHR ''.'' # Q)"
    "lead_ok P" "list_all is_digit Q" "length Q = prec" "parts_value P Q = of_int (scaled_magnitude v prec) / 10 ^ prec"
    by (rule floatString_parts)
  have P: "list_all is_digit P" "P \<noteq> []" using f(2) by (simp_all add: lead_ok_def)
  have v: "signed (v < 0) (parts_value P Q) = v" using assms floatString_value f(5) by simp
  define F where "F = trimRight CHR ''0'' Q"
  note F = trimRight_fraction[OF f(3), folded F_def]
  have can: "canonical_parts P F" using f(2) F by (simp add: canonical_parts_def)
  have "trimDecimalZeros (floatString v prec) = (if v < 0 \<and> P = ''0'' \<and> F = [] then ''0'' else plain_text (v < 0) P F)"
  proof (cases "prec = 0")
    case True
    then have Q: "Q = []" "F = []" using f(4) by (simp_all add: F_def trimRight_def)
    have "CHR ''.'' \<notin> set P" using P(1) digit_neq by (auto simp: list_all_iff)
    moreover have "\<not> (v < 0 \<and> P = ''0'')" using v Q by (auto simp: signed_def parts_value_def)
    moreover have "P \<noteq> ''-0''" using P(1) by auto
    ultimately show ?thesis using True Q f(1) P(2) by (auto simp: trimDecimalZeros_def plain_text_def)
  next
    case False
    then show ?thesis using trimDecimalZeros_point[OF P f(3) F_def, of "v < 0"] f(1) by simp
  qed
  from signed_canonical[OF can this] show ?thesis using F(2) v by simp
qed

lemma rationalScale_Inr: "rationalScale v scale = Inr c \<Longrightarrow> canonical_text c \<and> ratSetString c = Some v"
proof (induction v scale rule: rationalScale.induct)
  case (1 v scale)
  then show ?case using floatString_trimmed[of v scale] by (subst (asm) (2) rationalScale.simps) (auto split: if_splits)
qed

lemma rationalScale_total:
  assumes "\<bar>v\<bar> * 10 ^ k = of_int m" "int k < maxCanonicalDecimalDigits" "int scale < maxCanonicalDecimalDigits"
  shows "\<exists>c. rationalScale v scale = Inr c"
  using assms(3)
proof (induction "nat maxCanonicalDecimalDigits - scale" arbitrary: scale rule: less_induct)
  case less
  show ?case
  proof (cases "k \<le> scale")
    case True
    then have "(10 :: rat) ^ scale = 10 ^ k * 10 ^ (scale - k)" by (simp flip: power_add)
    then have "\<bar>v\<bar> * 10 ^ scale = of_int (m * 10 ^ (scale - k))"
      using assms(1) by (simp flip: mult.assoc)
    then have "of_int (scaled_magnitude v scale) / 10 ^ scale = \<bar>v\<bar>"
      using scaled_magnitude_exact by (metis nonzero_mult_div_cancel_right power_not_zero zero_neq_numeral)
    then have "ratSetString (floatString v scale) = Some v" by (simp add: floatString_value signed_def)
    then show ?thesis using less.prems rationalScale.simps[of v scale] by simp
  next
    case False
    then have "int (Suc scale) < maxCanonicalDecimalDigits" using assms(2) by simp
    moreover have "nat maxCanonicalDecimalDigits - Suc scale < nat maxCanonicalDecimalDigits - scale" using less.prems by simp
    ultimately obtain c where "rationalScale v (Suc scale) = Inr c" using less.hyps by blast
    then show ?thesis by (subst rationalScale.simps) (use less.prems in auto)
  qed
qed

lemma stripFactor_split:
  "1 < p \<Longrightarrow> 0 < d \<Longrightarrow> \<exists>j. d = p ^ j * stripFactor p d \<and> 0 < stripFactor p d \<and> \<not> p dvd stripFactor p d"
proof (induction p d rule: stripFactor.induct)
  case (1 p d)
  show ?case
  proof (cases "d mod p = 0")
    case True
    then have d: "d = p * (d div p)" by auto
    then have pos: "0 < d div p" using 1(2,3) by (metis zero_less_mult_pos zero_less_one less_trans)
    have step: "stripFactor p d = stripFactor p (d div p)" using True 1(2,3) stripFactor.simps[of p d] by simp
    obtain j where j: "d div p = p ^ j * stripFactor p (d div p)" "0 < stripFactor p (d div p)" "\<not> p dvd stripFactor p (d div p)"
      using 1 True pos by blast
    have "d = p ^ Suc j * stripFactor p d" using d j(1) step by (metis mult.assoc power_Suc)
    then show ?thesis using j step by metis
  next
    case False
    then have "stripFactor p d = d" using stripFactor.simps[of p d] by simp
    then show ?thesis using False 1(3) by (intro exI[of _ 0]) (simp add: dvd_eq_mod_eq_0)
  qed
qed

lemma strip_decimal_denominator:
  fixes d :: int
  assumes "0 < d" "d dvd 10 ^ k"
  shows "stripFactor 5 (stripFactor 2 d) = 1"
proof -
  let ?a = "stripFactor 2 d" and ?b = "stripFactor 5 (stripFactor 2 d)"
  obtain i where a: "d = 2 ^ i * ?a" "0 < ?a" "\<not> 2 dvd ?a" using stripFactor_split[of 2 d] assms(1) by auto
  obtain j where b: "?a = 5 ^ j * ?b" "0 < ?b" "\<not> 5 dvd ?b" using stripFactor_split[of 5 ?a] a(2) by auto
  have "?b dvd ?a" using b(1) by (metis dvd_triv_right)
  then have "\<not> 2 dvd ?b" using a(3) dvd_trans by blast
  then have "coprime ?b 2" by simp
  moreover have "coprime ?b 5"
  proof -
    have "?b mod 5 = 1 \<or> ?b mod 5 = 2 \<or> ?b mod 5 = 3 \<or> ?b mod 5 = 4" using b(3) by presburger
    moreover have "gcd ?b 5 = gcd 5 (?b mod 5)" by (metis gcd.commute gcd_red_int)
    moreover have "gcd (5 :: int) 3 = 1" "gcd (5 :: int) 4 = 1" by code_simp+
    ultimately have "gcd ?b 5 = 1" by auto
    then show ?thesis by (simp only: coprime_iff_gcd_eq_1)
  qed
  ultimately have "coprime ?b (2 * 5)" using coprime_mult_right_iff by blast
  then have "coprime ?b (10 ^ k)" by simp
  moreover have "?b dvd 10 ^ k" using \<open>?b dvd ?a\<close> a(1) assms(2) by (metis dvd_mult dvd_trans)
  ultimately have "is_unit ?b" by (metis coprime_common_divisor dvd_refl)
  then show ?thesis using b(2) by simp
qed

lemma canonicalRationalDecimal_Inr:
  "canonicalRationalDecimal v = Inr c \<Longrightarrow> canonical_text c \<and> ratSetString c = Some v"
  by (auto simp: canonicalRationalDecimal_def Let_def split: if_splits dest: rationalScale_Inr)

lemma canonicalRationalDecimal_total:
  assumes "v * 10 ^ k = of_int m" "int k < maxCanonicalDecimalDigits"
  shows "\<exists>c. canonicalRationalDecimal v = Inr c"
proof -
  obtain n d where nd: "quotient_of v = (n, d)" by (cases "quotient_of v")
  have q: "0 < d" "v = of_int n / of_int d" "coprime n d"
    using quotient_of_denom_pos[OF nd] quotient_of_div[OF nd] quotient_of_coprime[OF nd] by simp_all
  have "(of_int (n * 10 ^ k) :: rat) = of_int (m * d)" using assms(1) q by (simp add: field_simps)
  then have "n * 10 ^ k = m * d" by (simp only: of_int_eq_iff)
  then have "d dvd 10 ^ k" using q(3) by (metis coprime_commute coprime_dvd_mult_right_iff dvd_triv_right)
  then have strip: "stripFactor 5 (stripFactor 2 d) = 1" using strip_decimal_denominator q(1) by blast
  have "\<bar>v\<bar> * 10 ^ k = \<bar>v * 10 ^ k\<bar>" by (simp add: abs_mult)
  then have "\<bar>v\<bar> * 10 ^ k = of_int \<bar>m\<bar>" using assms(1) by simp
  from rationalScale_total[OF this assms(2)] show ?thesis
    by (simp add: canonicalRationalDecimal_def Let_def nd strip maxCanonicalDecimalDigits_def)
qed

section \<open>Properties\<close>

text \<open>C17: canonical decimal text is a normal form of the JSON number grammar: what is not a number is refused as
  invalid, an accepted number has exactly the value it denotes, the text has no superfluous zeros and no negative zero,
  canonicalising it again changes nothing, and two accepted numbers have the same text exactly when they have the same
  value.\<close>

theorem canonicalDecimal_normal_form:
  assumes "canonicalDecimal a = Inr c" and "canonicalDecimal b = Inr d" and "denotes a v" and "denotes b w"
    and "int (length a) \<le> 4611686018427387904" and "int (length b) \<le> 4611686018427387904"
  shows "canonical_text c \<and> ratSetString c = Some v \<and> canonicalDecimal c = Inr c \<and> (c = d \<longleftrightarrow> v = w)"
proof -
  have c: "canonical_text c \<and> ratSetString c = Some v \<and> canonicalDecimal c = Inr c" by (rule canonicalDecimal_Inr[OF assms(1,3,5)])
  have d: "canonical_text d \<and> ratSetString d = Some w \<and> canonicalDecimal d = Inr d" by (rule canonicalDecimal_Inr[OF assms(2,4,6)])
  have "c = d \<longleftrightarrow> v = w" using c d canonical_text_value[of c d] by auto
  then show ?thesis using c by simp
qed

theorem canonicalDecimal_normal_form_witness:
  "canonicalDecimal ''-12.50e1'' = Inr ''-125'' \<and> canonicalDecimal ''-0.125E+3'' = Inr ''-125'' \<and>
   denotes ''-12.50e1'' (- 125) \<and> canonical_text ''-125'' \<and> ratSetString ''-125'' = Some (- 125) \<and>
   canonicalDecimal ''-125'' = Inr ''-125''"
proof -
  have a: "canonicalDecimal ''-12.50e1'' = Inr ''-125''" by code_simp
  have b: "canonicalDecimal ''-0.125E+3'' = Inr ''-125''" by code_simp
  have dig: "is_digit CHR ''0''" "is_digit CHR ''1''" "is_digit CHR ''2''" "is_digit CHR ''3''" "is_digit CHR ''5''"
    by (simp_all add: is_digit_code)
  have da: "denotes ''-12.50e1'' (- 125)"
    unfolding denotes_def
    by (intro exI[of _ True] exI[of _ "''12''"] exI[of _ "''50''"] exI[of _ "Some (CHR ''e'', [], ''1'')"])
      (simp add: plain_text_def exponent_text_def number_wf_def lead_ok_def exponent_wf_def exponent_value_def signed_def parts_value_def dig digit_val_def)
  have db: "denotes ''-0.125E+3'' (- 125)"
    unfolding denotes_def
    by (intro exI[of _ True] exI[of _ "''0''"] exI[of _ "''125''"] exI[of _ "Some (CHR ''E'', ''+'', ''3'')"])
      (simp add: plain_text_def exponent_text_def number_wf_def lead_ok_def exponent_wf_def exponent_value_def signed_def parts_value_def dig digit_val_def)
  show ?thesis using canonicalDecimal_normal_form[OF a b da db] a b da by simp
qed

text \<open>Text is refused as an invalid decimal exactly when the JSON number grammar does not derive it; every other
  failure is the overflow of the supported representation.\<close>

theorem canonicalDecimal_errors:
  "(canonicalDecimal s = Inl errInvalidDecimal \<longleftrightarrow> (\<nexists>v. denotes s v)) \<and>
   canonicalDecimal s \<in> {Inl errInvalidDecimal, Inl errDecimalOverflow} \<union> range Inr"
proof -
  have "canonicalDecimal s \<in> {Inl errInvalidDecimal, Inl errDecimalOverflow} \<union> range Inr"
  proof (cases "canonicalDecimal s")
    case (Inl e)
    then show ?thesis by (cases e) simp_all
  qed simp
  then show ?thesis using canonicalDecimal_invalid_iff by blast
qed

text \<open>Rounding succeeds exactly for a precision of 0 to 18 digits and a supported mode, and yields canonical text
  of a multiple of the last digit that is the rounding of the exact value in that mode: within one unit and on the same
  side of zero, not beyond the value toward zero, not short of it away from zero, and nearest with the mode's tie rule
  otherwise.\<close>

theorem roundRationalDecimal_correct:
  "(case roundRationalDecimal v scale mode of
      Inl PrecisionOutOfRange \<Rightarrow> scale < 0 \<or> 18 < scale
    | Inl (UnsupportedRounding m) \<Rightarrow> m = mode \<and> \<not> supportedRoundingMode mode
    | Inr c \<Rightarrow> 0 \<le> scale \<and> scale \<le> 18 \<and> supportedRoundingMode mode \<and> canonical_text c \<and>
        (\<exists>k. ratSetString c = Some (of_int k / 10 ^ nat scale) \<and> rounded mode (v * 10 ^ nat scale) k))"
proof (cases "roundRationalDecimal v scale mode")
  case (Inl e)
  then show ?thesis by (cases e) (auto simp: roundRationalDecimal_def Let_def split: if_splits prod.splits)
next
  case (Inr c)
  have "0 \<le> scale \<and> scale \<le> 18 \<and> supportedRoundingMode mode"
    using Inr by (auto simp: roundRationalDecimal_def split: if_splits)
  then show ?thesis using roundRationalDecimal_Inr[OF Inr] Inr by simp
qed

text \<open>C36: the conversion of an exact rational to decimal text terminates, returns only canonical text of exactly that
  value, and returns one whenever the value has fewer than \<^verbatim>\<open>maxCanonicalDecimalDigits\<close> fractional digits.\<close>

theorem canonicalRationalDecimal_exact:
  "(case canonicalRationalDecimal v of
      Inr c \<Rightarrow> canonical_text c \<and> ratSetString c = Some v
    | Inl e \<Rightarrow> e = errDecimalOverflow \<and> (\<forall>k m. int k < maxCanonicalDecimalDigits \<longrightarrow> v * 10 ^ k \<noteq> of_int m))"
proof (cases "canonicalRationalDecimal v")
  case (Inl e)
  have "rationalScale v scale \<noteq> Inl errInvalidDecimal" for scale
    by (induction v scale rule: rationalScale.induct) (subst rationalScale.simps, auto)
  then have "e \<noteq> errInvalidDecimal" using Inl by (auto simp: canonicalRationalDecimal_def Let_def split: if_splits)
  then have "e = errDecimalOverflow" by (cases e) simp_all
  moreover have "\<forall>k m. int k < maxCanonicalDecimalDigits \<longrightarrow> v * 10 ^ k \<noteq> of_int m"
    using canonicalRationalDecimal_total[of v] Inl by auto
  ultimately show ?thesis using Inl by simp
next
  case (Inr c)
  then show ?thesis using canonicalRationalDecimal_Inr[OF Inr] by simp
qed

theorem canonicalRationalDecimal_exact_witness:
  "canonicalRationalDecimal (- 3 / 8) = Inr ''-0.375'' \<and> canonical_text ''-0.375'' \<and> ratSetString ''-0.375'' = Some (- 3 / 8)"
proof -
  have e: "canonicalRationalDecimal (- 3 / 8) = Inr ''-0.375''" by code_simp
  show ?thesis using canonicalRationalDecimal_exact[of "- 3 / 8"] e by simp
qed

end
