(* ===== verification/TypedValues.thy ===== *)
theory TypedValues
  imports Decimal Native ApiTypes
begin

text \<open>
  Typed values of \<^verbatim>\<open>src/internal/typedoutput\<close>: matches (\<^verbatim>\<open>value.go\<close>), the conversion of native
  values (\<^verbatim>\<open>converters.go\<close>), and the exact arithmetic, key and comparison bridges used by operators and
  aggregations (\<^verbatim>\<open>aggregation_bridge.go\<close>, \<^verbatim>\<open>operator_bridge.go\<close>).

  A \<open>Match\<close> is its declared type and its tagged payload, \<open>None\<close> for an explicit null.  The library functions that
  have no model here are the fields of \<open>TypedLib\<close>: \<^verbatim>\<open>strconv.FormatFloat\<close>, \<^verbatim>\<open>time\<close> parsing and
  printing, \<^verbatim>\<open>json.Marshal\<close> of a string, \<^verbatim>\<open>json.Valid\<close> and Kubernetes quantities.  A timestamp is its UTC instant in nanoseconds.
\<close>

section \<open>Types\<close>

record 'q TypedLib =
  FormatFloat :: "rat \<Rightarrow> string"
  timeParse :: "string \<Rightarrow> int option"
  formatTime :: "int \<Rightarrow> string"
  ParseDuration :: "string \<Rightarrow> int option"
  durationString :: "int \<Rightarrow> string"
  ParseQuantity :: "string \<Rightarrow> 'q option"
  quantityAsDec :: "'q \<Rightarrow> string"
  quantityCmp :: "'q \<Rightarrow> 'q \<Rightarrow> int"
  quantityString :: "'q \<Rightarrow> string"
  marshalString :: "string \<Rightarrow> string"
  jsonValid :: "string \<Rightarrow> bool"

datatype 'q payload =
    VString string
  | VInteger int
  | VNumber string
  | VBoolean bool
  | VTimestamp int
  | VDuration int
  | VQuantity 'q string
  | VObject "(string \<times> JValue) list"
  | VList "JValue list"

record 'q Match =
  m_type :: string
  m_value :: "'q payload option"

abbreviation newNullMatch :: "string \<Rightarrow> 'q Match" where
  "newNullMatch t \<equiv> \<lparr>m_type = t, m_value = None\<rparr>"

abbreviation newValueMatch :: "string \<Rightarrow> 'q payload \<Rightarrow> 'q Match" where
  "newValueMatch t v \<equiv> \<lparr>m_type = t, m_value = Some v\<rparr>"

datatype ConversionErrorReason =
    CvMissingType | CvUnsupportedType | CvConversionTypeMismatch | CvInvalidValue | CvConversionOverflow
  | CvForbiddenConversion | CvInvalidInput | CvConversionInterrupted | CvValueLimitExceeded

record ConversionError =
  ce_sourceID :: string
  ce_fieldName :: string
  ce_fieldIndex :: int
  ce_provenance :: "FacetResourceProvenance option"
  ce_reason :: ConversionErrorReason
  ce_message :: string

definition NewConversionError ::
  "string \<Rightarrow> string \<Rightarrow> FacetResourceProvenance option \<Rightarrow> ConversionErrorReason \<Rightarrow> string \<Rightarrow> ConversionError" where
  "NewConversionError sid fieldName prov reason msg = \<lparr>ce_sourceID = sid, ce_fieldName = fieldName, ce_fieldIndex = - 1,
     ce_provenance = prov, ce_reason = reason, ce_message = msg\<rparr>"

record TFieldPlan =
  tf_sourceID :: string
  tf_name :: string
  tf_type :: string

definition IsSupportedType :: "string \<Rightarrow> bool" where
  "IsSupportedType t \<longleftrightarrow> t \<in> set [''string'', ''integer'', ''number'', ''boolean'', ''timestamp'', ''duration'', ''quantity'',
     ''object'', ''list'']"

fun conversionMessage :: "ConversionErrorReason \<Rightarrow> string" where
  "conversionMessage CvMissingType = ''field type is required''"
| "conversionMessage CvUnsupportedType = ''field type is unsupported''"
| "conversionMessage CvConversionTypeMismatch = ''value kind is not compatible with the declared type''"
| "conversionMessage CvInvalidValue = ''value has invalid lexical form''"
| "conversionMessage CvConversionOverflow = ''value exceeds the supported representation''"
| "conversionMessage CvForbiddenConversion = ''conversion would lose information''"
| "conversionMessage CvInvalidInput = ''typed input identity is invalid''"
| "conversionMessage CvConversionInterrupted = ''conversion interrupted''"
| "conversionMessage CvValueLimitExceeded = ''typed conversion failed''"

section \<open>Numbers\<close>

definition integerTextPattern :: "string \<Rightarrow> bool" where
  "integerTextPattern s \<longleftrightarrow>
    (let body = (if has_prefix s ''-'' then tl s else s) in
     body \<noteq> [] \<and> list_all is_digit body \<and> (body = ''0'' \<or> hd body \<noteq> CHR ''0''))"

fun decimalReason :: "decimal_error \<Rightarrow> ConversionErrorReason" where
  "decimalReason errDecimalOverflow = CvConversionOverflow"
| "decimalReason errInvalidDecimal = CvInvalidValue"

fun parseReason :: "num_error \<Rightarrow> ConversionErrorReason" where
  "parseReason ErrRange = CvConversionOverflow"
| "parseReason ErrSyntax = CvInvalidValue"

definition parsedInteger :: "string \<Rightarrow> (ConversionErrorReason, 'q payload) res" where
  "parsedInteger s = (case ParseInt s of Inl e \<Rightarrow> Inl (parseReason e) | Inr i \<Rightarrow> Inr (VInteger i))"

fun convertInteger :: "JValue \<Rightarrow> (ConversionErrorReason, 'q payload) res" where
  "convertInteger (JInt i) = Inr (VInteger i)"
| "convertInteger (JFloat f) =
    (case f of
       Finite q \<Rightarrow>
         if of_int (floor q) \<noteq> q then Inl CvForbiddenConversion
         else if q < - 9223372036854775808 \<or> q \<ge> 9223372036854775808 then Inl CvConversionOverflow
         else if of_int (floor q) \<noteq> q then Inl CvForbiddenConversion
         else Inr (VInteger (floor q))
     | _ \<Rightarrow> Inl CvInvalidValue)"
| "convertInteger (JString s) = (if \<not> integerTextPattern s then Inl CvInvalidValue else parsedInteger s)"
| "convertInteger (JNumber s) =
    (case canonicalDecimal s of
       Inl e \<Rightarrow> Inl (decimalReason e)
     | Inr c \<Rightarrow> if CHR ''.'' \<in> set c then Inl CvForbiddenConversion else parsedInteger c)"
| "convertInteger _ = Inl CvConversionTypeMismatch"

definition numberText :: "'q TypedLib \<Rightarrow> JValue \<Rightarrow> (ConversionErrorReason, string) res" where
  "numberText lib native = (case native of
      JInt i \<Rightarrow> Inr (show_int i)
    | JFloat f \<Rightarrow> (case f of Finite q \<Rightarrow> Inr (FormatFloat lib q) | _ \<Rightarrow> Inl CvInvalidValue)
    | JString s \<Rightarrow> Inr s
    | JNumber s \<Rightarrow> Inr s
    | _ \<Rightarrow> Inl CvConversionTypeMismatch)"

definition convertNumber :: "'q TypedLib \<Rightarrow> JValue \<Rightarrow> (ConversionErrorReason, 'q payload) res" where
  "convertNumber lib native =
    (case numberText lib native of
       Inl e \<Rightarrow> Inl e
     | Inr s \<Rightarrow> (case canonicalDecimal s of Inl e \<Rightarrow> Inl (decimalReason e) | Inr c \<Rightarrow> Inr (VNumber c)))"

section \<open>Durations\<close>

definition durationUnits :: "(string \<times> int) list" where
  "durationUnits = [(''ns'', 1), (''us'', 1000), ([CHR 0xC2, CHR 0xB5, CHR ''s''], 1000), ([CHR 0xCE, CHR 0xBC, CHR ''s''], 1000),
     (''ms'', 1000000), (''s'', 1000000000), (''m'', 60000000000), (''h'', 3600000000000)]"

definition durationUnit :: "string \<Rightarrow> (string \<times> int) option" where
  "durationUnit remaining = find_first (\<lambda>u. has_prefix remaining (fst u)) durationUnits"

datatype duration_error = DurInvalid | DurInexact

text \<open>The number in front of a unit: its text as handed to \<^verbatim>\<open>big.Rat\<close>, and the unread rest.\<close>

definition durationNumber :: "string \<Rightarrow> (string \<times> string) option" where
  "durationNumber s =
    (let ip = takeWhile is_digit s; r1 = dropWhile is_digit s; dot = has_prefix r1 ''.'';
         fp = (if dot then takeWhile is_digit (tl r1) else []);
         r2 = (if dot then dropWhile is_digit (tl r1) else r1) in
     if ip = [] \<and> fp = [] then None
     else Some ((if ip = [] then ''0'' else ip) @ (if dot then ''.'' @ (if fp = [] then ''0'' else fp) else []), r2))"

lemma durationUnit_shorter: "durationUnit s = Some (unit, factor) \<Longrightarrow> 0 < length unit \<and> length unit \<le> length s"
  by (auto simp: durationUnit_def durationUnits_def has_prefix_iff split: if_splits)

lemma durationNumber_shorter: "durationNumber s = Some (t, r) \<Longrightarrow> length r \<le> length s"
proof -
  have "length (dropWhile is_digit (tl (dropWhile is_digit s))) \<le> length s"
    using length_dropWhile_le[of is_digit "tl (dropWhile is_digit s)"] length_dropWhile_le[of is_digit s] by simp
  moreover assume "durationNumber s = Some (t, r)"
  ultimately show ?thesis using length_dropWhile_le[of is_digit s] by (auto simp: durationNumber_def Let_def split: if_splits)
qed

function durationLoop :: "rat \<Rightarrow> string \<Rightarrow> (duration_error, rat) res" where
  "durationLoop sofar [] = Inr sofar"
| "durationLoop sofar (c # cs) =
    (case durationNumber (c # cs) of
       None \<Rightarrow> Inl DurInvalid
     | Some (nt, rest) \<Rightarrow>
        (case ratSetString nt of
           None \<Rightarrow> Inl DurInvalid
         | Some v \<Rightarrow>
            (case durationUnit rest of
               None \<Rightarrow> Inl DurInvalid
             | Some (unit, factor) \<Rightarrow> durationLoop (sofar + v * of_int factor) (drop (length unit) rest))))"
  by pat_completeness auto
termination
proof (relation "measure (\<lambda>(sofar, s). length s)")
  fix sofar :: rat and c cs x nt rest v y unit factor
  assume "durationNumber (c # cs) = Some x" "(nt, rest) = x" "durationUnit rest = Some y" "(unit, factor) = y"
  then have "length rest \<le> length (c # cs)" "0 < length unit \<and> length unit \<le> length rest"
    using durationNumber_shorter[of "c # cs" nt rest] durationUnit_shorter[of rest unit factor] by auto
  then have "length (drop (length unit) rest) < length (c # cs)" unfolding length_drop by linarith
  then show "((sofar + v * rat_of_int factor, drop (length unit) rest), sofar, c # cs) \<in> measure (\<lambda>(sofar, s). length s)"
    by simp
qed simp

definition exactDurationNanoseconds :: "string \<Rightarrow> (duration_error, int) res" where
  "exactDurationNanoseconds s =
    (if s = ''0'' \<or> s = ''+0'' \<or> s = ''-0'' then Inr 0
     else
       (let signedText = has_prefix s ''+'' \<or> has_prefix s ''-''; negative = has_prefix s ''-'';
            body = (if signedText then tl s else s) in
        case durationLoop 0 body of
          Inl e \<Rightarrow> Inl e
        | Inr t \<Rightarrow>
           (let sum = (if negative then - t else t) in
            if snd (quotient_of sum) \<noteq> 1 then Inl DurInexact else Inr (fst (quotient_of sum)))))"

fun convertDuration :: "'q TypedLib \<Rightarrow> JValue \<Rightarrow> (ConversionErrorReason, 'q payload) res" where
  "convertDuration lib (JString s) =
    (case exactDurationNanoseconds s of
       Inl DurInexact \<Rightarrow> Inl CvForbiddenConversion
     | Inl DurInvalid \<Rightarrow> Inl CvInvalidValue
     | Inr exact \<Rightarrow>
        if \<not> int64_range exact then Inl CvConversionOverflow
        else (case ParseDuration lib s of
                None \<Rightarrow> Inl CvInvalidValue
              | Some d \<Rightarrow> if exact \<noteq> d then Inl CvForbiddenConversion else Inr (VDuration d)))"
| "convertDuration lib _ = Inl CvConversionTypeMismatch"

section \<open>Quantities\<close>

datatype quantity_error = errQuantityInvalid | errQuantityOverflow

text \<open>\<^verbatim>\<open>quantityPattern\<close>: sign, number text and suffix.\<close>

definition quantitySuffixes :: "string list" where
  "quantitySuffixes = [''Ki'', ''Mi'', ''Gi'', ''Ti'', ''Pi'', ''Ei'', ''n'', ''u'', ''m'', ''k'', ''M'', ''G'', ''T'', ''P'', ''E'']"

definition quantityPattern :: "string \<Rightarrow> (string \<times> string \<times> string) option" where
  "quantityPattern s =
    (let sign = (if has_prefix s ''+'' then ''+'' else if has_prefix s ''-'' then ''-'' else []);
         body = drop (length sign) s;
         ip = takeWhile is_digit body; r1 = dropWhile is_digit body; dot = has_prefix r1 ''.'';
         fp = (if dot then takeWhile is_digit (tl r1) else []);
         suffix = (if dot then dropWhile is_digit (tl r1) else r1) in
     if ip = [] \<and> fp = [] then None
     else if suffix \<in> set quantitySuffixes \<or> exponentPattern suffix then
       Some (sign, ip @ (if dot then ''.'' @ fp else []), suffix)
     else None)"

abbreviation pow10 :: "nat \<Rightarrow> rat" where
  "pow10 n \<equiv> 10 ^ n"

definition binarySuffixes :: "(string \<times> nat) list" where
  "binarySuffixes = [(''Ki'', 10), (''Mi'', 20), (''Gi'', 30), (''Ti'', 40), (''Pi'', 50), (''Ei'', 60)]"

definition decimalSuffixes :: "(string \<times> nat) list" where
  "decimalSuffixes = [(''k'', 3), (''M'', 6), (''G'', 9), (''T'', 12), (''P'', 15), (''E'', 18)]"

definition fractionSuffixes :: "(string \<times> nat) list" where
  "fractionSuffixes = [(''n'', 9), (''u'', 6), (''m'', 3)]"

definition quantitySuffixFactor :: "string \<Rightarrow> (quantity_error, rat) res" where
  "quantitySuffixFactor suffix =
    (if suffix = [] then Inr 1
     else case lookup binarySuffixes suffix of
       Some b \<Rightarrow> Inr (2 ^ b)
     | None \<Rightarrow>
        if length suffix > 1 \<and> (hd suffix = CHR ''e'' \<or> hd suffix = CHR ''E'') then
          (case ParseInt (tl suffix) of
             Inl _ \<Rightarrow> Inl errQuantityOverflow
           | Inr e \<Rightarrow>
              if e > maxCanonicalDecimalDigits \<or> e < - maxCanonicalDecimalDigits then Inl errQuantityOverflow
              else if e \<ge> 0 then Inr (pow10 (nat e)) else Inr (1 / pow10 (nat (- e))))
        else case lookup decimalSuffixes suffix of
          Some e \<Rightarrow> Inr (pow10 e)
        | None \<Rightarrow> (case lookup fractionSuffixes suffix of Some e \<Rightarrow> Inr (1 / pow10 e) | None \<Rightarrow> Inl errQuantityInvalid))"

definition exactQuantityMagnitude :: "string \<Rightarrow> (quantity_error, rat) res" where
  "exactQuantityMagnitude s =
    (case quantityPattern s of
       None \<Rightarrow> Inl errQuantityInvalid
     | Some (sign, nt, suffix) \<Rightarrow>
        (let nt1 = (if has_prefix nt ''.'' then ''0'' @ nt else nt); nt2 = (if has_suffix nt1 ''.'' then nt1 @ ''0'' else nt1) in
         case ratSetString nt2 of
           None \<Rightarrow> Inl errQuantityInvalid
         | Some v \<Rightarrow>
            (case quantitySuffixFactor suffix of
               Inl e \<Rightarrow> Inl e
             | Inr factor \<Rightarrow> Inr (if sign = ''-'' then - (v * factor) else v * factor))))"

definition quantityMagnitudeExceedsInt64 :: "rat \<Rightarrow> bool" where
  "quantityMagnitudeExceedsInt64 v \<longleftrightarrow> \<bar>v\<bar> > 9223372036854775807"

fun convertQuantity :: "'q TypedLib \<Rightarrow> JValue \<Rightarrow> (ConversionErrorReason, 'q payload) res" where
  "convertQuantity lib (JString s) =
    (case ParseQuantity lib s of
       None \<Rightarrow>
         (case exactQuantityMagnitude s of
            Inl errQuantityOverflow \<Rightarrow> Inl CvConversionOverflow
          | Inl errQuantityInvalid \<Rightarrow> Inl CvInvalidValue
          | Inr exact \<Rightarrow> if quantityMagnitudeExceedsInt64 exact then Inl CvConversionOverflow else Inl CvInvalidValue)
     | Some quantity \<Rightarrow>
         (case exactQuantityMagnitude s of
            Inl errQuantityOverflow \<Rightarrow> Inl CvConversionOverflow
          | Inl errQuantityInvalid \<Rightarrow> Inl CvInvalidValue
          | Inr exact \<Rightarrow>
             if quantityMagnitudeExceedsInt64 exact then Inl CvConversionOverflow
             else (case ratSetString (quantityAsDec lib quantity) of
                     None \<Rightarrow> Inl CvInvalidValue
                   | Some actual \<Rightarrow>
                      if exact \<noteq> actual then Inl CvForbiddenConversion
                      else (case canonicalRationalDecimal exact of
                              Inl _ \<Rightarrow> Inl CvConversionOverflow
                            | Inr baseUnits \<Rightarrow> Inr (VQuantity quantity baseUnits)))))"
| "convertQuantity lib _ = Inl CvConversionTypeMismatch"

section \<open>Conversion of one match\<close>

definition convertNonNull :: "'q TypedLib \<Rightarrow> string \<Rightarrow> JValue \<Rightarrow> (ConversionErrorReason, 'q payload) res" where
  "convertNonNull lib t native =
    (if t = ''string'' then (case native of JString s \<Rightarrow> Inr (VString s) | _ \<Rightarrow> Inl CvConversionTypeMismatch)
     else if t = ''integer'' then convertInteger native
     else if t = ''number'' then convertNumber lib native
     else if t = ''boolean'' then
       (case native of
          JBool b \<Rightarrow> Inr (VBoolean b)
        | JString s \<Rightarrow> if s \<noteq> ''true'' \<and> s \<noteq> ''false'' then Inl CvInvalidValue else Inr (VBoolean (s = ''true''))
        | _ \<Rightarrow> Inl CvConversionTypeMismatch)
     else if t = ''timestamp'' then
       (case native of
          JString s \<Rightarrow> (case timeParse lib s of None \<Rightarrow> Inl CvInvalidValue | Some i \<Rightarrow> Inr (VTimestamp i))
        | _ \<Rightarrow> Inl CvConversionTypeMismatch)
     else if t = ''duration'' then convertDuration lib native
     else if t = ''quantity'' then convertQuantity lib native
     else if t = ''object'' then
       (case native of
          JObject m \<Rightarrow> (case cloneMembers m of None \<Rightarrow> Inl CvConversionTypeMismatch | Some m' \<Rightarrow> Inr (VObject m'))
        | _ \<Rightarrow> Inl CvConversionTypeMismatch)
     else if t = ''list'' then
       (case native of
          JArray vs \<Rightarrow> (case cloneItems vs of None \<Rightarrow> Inl CvConversionTypeMismatch | Some vs' \<Rightarrow> Inr (VList vs'))
        | _ \<Rightarrow> Inl CvConversionTypeMismatch)
     else Inl CvUnsupportedType)"

definition ConvertMatch ::
  "'q TypedLib \<Rightarrow> TFieldPlan \<Rightarrow> JValue \<Rightarrow> FacetResourceProvenance option \<Rightarrow> (ConversionError, 'q Match) res" where
  "ConvertMatch lib plan native prov =
    (if tf_type plan = [] then
       Inl (NewConversionError (tf_sourceID plan) (tf_name plan) prov CvMissingType ''field type is required'')
     else if \<not> IsSupportedType (tf_type plan) then
       Inl (NewConversionError (tf_sourceID plan) (tf_name plan) prov CvUnsupportedType ''field type is unsupported'')
     else if native = JNull then Inr (newNullMatch (tf_type plan))
     else case convertNonNull lib (tf_type plan) native of
       Inl reason \<Rightarrow> Inl (NewConversionError (tf_sourceID plan) (tf_name plan) prov reason (conversionMessage reason))
     | Inr v \<Rightarrow> Inr (newValueMatch (tf_type plan) v))"

definition ConvertConfiguredMatch ::
  "'q TypedLib \<Rightarrow> string \<Rightarrow> string \<Rightarrow> string \<Rightarrow> JValue \<Rightarrow> (ConversionError, 'q Match) res" where
  "ConvertConfiguredMatch lib sid fieldName t native =
     ConvertMatch lib \<lparr>tf_sourceID = sid, tf_name = fieldName, tf_type = t\<rparr> native None"

definition NullMatch :: "'q TypedLib \<Rightarrow> string \<Rightarrow> string \<Rightarrow> string \<Rightarrow> (ConversionError, 'q Match) res" where
  "NullMatch lib sid fieldName t = ConvertConfiguredMatch lib sid fieldName t JNull"

section \<open>Canonical composite payloads\<close>

text \<open>\<^verbatim>\<open>canonicalJSONBytes\<close>: object members in key order, numbers in canonical decimal text.  \<open>None\<close> is the
  invalid-result error.  The members of an object are pairwise distinct keys, as in a Go map.\<close>

definition join_comma :: "string list \<Rightarrow> string" where
  "join_comma parts = concat (case parts of [] \<Rightarrow> [] | p # ps \<Rightarrow> p # map (\<lambda>q. CHR '','' # q) ps)"

fun canonicalJSONBytes :: "'q TypedLib \<Rightarrow> JValue \<Rightarrow> string option"
  and canonicalMembers :: "'q TypedLib \<Rightarrow> (string \<times> JValue) list \<Rightarrow> (string \<times> string) list option"
  and canonicalItems :: "'q TypedLib \<Rightarrow> JValue list \<Rightarrow> string list option" where
  "canonicalJSONBytes lib JNull = Some ''null''"
| "canonicalJSONBytes lib (JBool b) = Some (if b then ''true'' else ''false'')"
| "canonicalJSONBytes lib (JString s) = Some (marshalString lib s)"
| "canonicalJSONBytes lib (JInt i) = Some (show_int i)"
| "canonicalJSONBytes lib (JFloat f) =
    (case f of Finite q \<Rightarrow> (case canonicalDecimal (FormatFloat lib q) of Inl _ \<Rightarrow> None | Inr c \<Rightarrow> Some c) | _ \<Rightarrow> None)"
| "canonicalJSONBytes lib (JNumber s) = (case canonicalDecimal s of Inl _ \<Rightarrow> None | Inr c \<Rightarrow> Some c)"
| "canonicalJSONBytes lib (JObject m) =
    (case canonicalMembers lib m of
       None \<Rightarrow> None
     | Some ms \<Rightarrow> Some (''{'' @ join_comma (map (\<lambda>kv. marshalString lib (fst kv) @ '':'' @ snd kv)
         (sort_by (\<lambda>a b. fst a < fst b) ms)) @ ''}''))"
| "canonicalJSONBytes lib (JArray vs) =
    (case canonicalItems lib vs of None \<Rightarrow> None | Some ss \<Rightarrow> Some (''['' @ join_comma ss @ '']''))"
| "canonicalJSONBytes lib JOther = None"
| "canonicalMembers lib [] = Some []"
| "canonicalMembers lib ((k, v) # m) =
    (case canonicalJSONBytes lib v of
       None \<Rightarrow> None
     | Some s \<Rightarrow> (case canonicalMembers lib m of None \<Rightarrow> None | Some ms \<Rightarrow> Some ((k, s) # ms)))"
| "canonicalItems lib [] = Some []"
| "canonicalItems lib (v # vs) =
    (case canonicalJSONBytes lib v of
       None \<Rightarrow> None
     | Some s \<Rightarrow> (case canonicalItems lib vs of None \<Rightarrow> None | Some ss \<Rightarrow> Some (s # ss)))"

definition canonicalJSON :: "'q TypedLib \<Rightarrow> JValue \<Rightarrow> char \<Rightarrow> string option" where
  "canonicalJSON lib v topLevel =
    (case canonicalJSONBytes lib v of
       None \<Rightarrow> None
     | Some s \<Rightarrow> if s = [] \<or> hd s \<noteq> topLevel \<or> \<not> jsonValid lib s then None else Some s)"

section \<open>Keys, exact arithmetic and comparison\<close>

datatype bridge_error = BridgeError string | BridgeConversion ConversionError | BridgeRounding rounding_error

definition canonicalMatchPayload :: "'q TypedLib \<Rightarrow> 'q payload \<Rightarrow> (bridge_error, string) res" where
  "canonicalMatchPayload lib v = (case v of
      VString s \<Rightarrow> Inr s
    | VInteger i \<Rightarrow> Inr (show_int i)
    | VNumber s \<Rightarrow> Inr s
    | VBoolean b \<Rightarrow> Inr (if b then ''true'' else ''false'')
    | VTimestamp i \<Rightarrow> Inr (formatTime lib i)
    | VDuration d \<Rightarrow> Inr (show_int d)
    | VQuantity q b \<Rightarrow> Inr b
    | VObject m \<Rightarrow> (case canonicalJSON lib (JObject m) CHR ''{'' of None \<Rightarrow> Inl (BridgeError ''composite'') | Some s \<Rightarrow> Inr s)
    | VList vs \<Rightarrow> (case canonicalJSON lib (JArray vs) CHR ''['' of None \<Rightarrow> Inl (BridgeError ''composite'') | Some s \<Rightarrow> Inr s))"

text \<open>A key part: four big-endian length bytes and the text.\<close>

definition bigEndian32 :: "nat \<Rightarrow> nat list" where
  "bigEndian32 n = [n div 16777216 mod 256, n div 65536 mod 256, n div 256 mod 256, n mod 256]"

definition writeKeyPart :: "string \<Rightarrow> (bridge_error, nat list) res" where
  "writeKeyPart s =
    (if length s > 4294967295 then Inl (BridgeError ''typed key payload is too large'')
     else Inr (bigEndian32 (length s) @ bytes_of s))"

definition CanonicalKey :: "'q TypedLib \<Rightarrow> string \<Rightarrow> 'q Match \<Rightarrow> (bridge_error, nat list) res" where
  "CanonicalKey lib t m =
    (case m_value m of
       None \<Rightarrow> Inl (BridgeError ''typed key requires one supported non-null match'')
     | Some v \<Rightarrow>
        if m_type m \<noteq> t \<or> \<not> IsSupportedType t then Inl (BridgeError ''typed key requires one supported non-null match'')
        else (case canonicalMatchPayload lib v of
                Inl e \<Rightarrow> Inl e
              | Inr s \<Rightarrow>
                 (case writeKeyPart t of
                    Inl e \<Rightarrow> Inl e
                  | Inr a \<Rightarrow> (case writeKeyPart s of Inl e \<Rightarrow> Inl e | Inr b \<Rightarrow> Inr (a @ b)))))"

text \<open>The source reads the payload field of the declared type without looking at the kind; the value it reads when the
  kind differs is the zero value.\<close>

fun integerValue :: "'q payload \<Rightarrow> int" where "integerValue (VInteger i) = i" | "integerValue _ = 0"
fun numberValue :: "'q payload \<Rightarrow> string" where "numberValue (VNumber s) = s" | "numberValue _ = []"
fun durationValue :: "'q payload \<Rightarrow> int" where "durationValue (VDuration d) = d" | "durationValue _ = 0"
fun baseUnits :: "'q payload \<Rightarrow> string" where "baseUnits (VQuantity q b) = b" | "baseUnits _ = []"

definition ExactRational :: "string \<Rightarrow> 'q Match \<Rightarrow> (bridge_error, rat) res" where
  "ExactRational t m =
    (case m_value m of
       None \<Rightarrow> Inl (BridgeError ''exact rational requires one non-null match of the declared type'')
     | Some v \<Rightarrow>
        if m_type m \<noteq> t then Inl (BridgeError ''exact rational requires one non-null match of the declared type'')
        else if t = ''integer'' then Inr (of_int (integerValue v))
        else if t = ''number'' then
          (case ratSetString (numberValue v) of None \<Rightarrow> Inl (BridgeError ''number match is not canonical'') | Some x \<Rightarrow> Inr x)
        else if t = ''duration'' then Inr (of_int (durationValue v))
        else if t = ''quantity'' then
          (case ratSetString (baseUnits v) of None \<Rightarrow> Inl (BridgeError ''quantity match has invalid base units'') | Some x \<Rightarrow> Inr x)
        else Inl (BridgeError ''logical type is not exactly numeric''))"

definition configuredMatch :: "'q TypedLib \<Rightarrow> string \<Rightarrow> JValue \<Rightarrow> (bridge_error, 'q Match) res" where
  "configuredMatch lib t native =
    (case ConvertConfiguredMatch lib [] [] t native of Inl e \<Rightarrow> Inl (BridgeConversion e) | Inr m \<Rightarrow> Inr m)"

definition MatchFromExactNumber :: "'q TypedLib \<Rightarrow> rat \<Rightarrow> int \<Rightarrow> string \<Rightarrow> (bridge_error, 'q Match) res" where
  "MatchFromExactNumber lib v scale mode =
    (case roundRationalDecimal v scale mode of
       Inl e \<Rightarrow> Inl (BridgeRounding e)
     | Inr s \<Rightarrow> configuredMatch lib ''number'' (JString s))"

definition MatchFromExact :: "'q TypedLib \<Rightarrow> string \<Rightarrow> rat \<Rightarrow> (bridge_error, 'q Match) res" where
  "MatchFromExact lib t v =
    (let isInt = snd (quotient_of v) = 1; num = fst (quotient_of v) in
     if t = ''integer'' then
       (if \<not> isInt \<or> \<not> int64_range num then Inl (BridgeError ''exact integer is outside the signed 64-bit range'')
        else configuredMatch lib t (JInt num))
     else if t = ''number'' \<or> t = ''quantity'' then
       (case canonicalRationalDecimal v of
          Inl e \<Rightarrow> Inl (BridgeError ''decimal exceeds supported representation'')
        | Inr s \<Rightarrow> configuredMatch lib t (JString s))
     else if t = ''duration'' then
       (if \<not> isInt \<or> \<not> int64_range num then Inl (BridgeError ''exact duration is outside the signed 64-bit range'')
        else configuredMatch lib t (JString (durationString lib num)))
     else Inl (BridgeError ''logical type is not an exact numeric output''))"

text \<open>\<^verbatim>\<open>reflect.DeepEqual\<close> on native values: Go maps are equal as finite maps; a \<open>NaN\<close> is not equal to itself.\<close>

fun deepEqual :: "JValue \<Rightarrow> JValue \<Rightarrow> bool"
  and deepMembers :: "(string \<times> JValue) list \<Rightarrow> (string \<times> JValue) list \<Rightarrow> bool"
  and deepItems :: "JValue list \<Rightarrow> JValue list \<Rightarrow> bool" where
  "deepEqual JNull w = (w = JNull)"
| "deepEqual (JBool b) w = (w = JBool b)"
| "deepEqual (JString s) w = (w = JString s)"
| "deepEqual (JInt i) w = (w = JInt i)"
| "deepEqual (JFloat f) w = (f \<noteq> FloatNaN \<and> w = JFloat f)"
| "deepEqual (JNumber s) w = (w = JNumber s)"
| "deepEqual (JObject m) w = (case w of JObject n \<Rightarrow> length m = length n \<and> deepMembers m n | _ \<Rightarrow> False)"
| "deepEqual (JArray vs) w = (case w of JArray ws \<Rightarrow> length vs = length ws \<and> deepItems vs ws | _ \<Rightarrow> False)"
| "deepEqual JOther w = False"
| "deepMembers [] n = True"
| "deepMembers ((k, v) # m) n = ((case lookup n k of None \<Rightarrow> False | Some w \<Rightarrow> deepEqual v w) \<and> deepMembers m n)"
| "deepItems [] ws = True"
| "deepItems (v # vs) ws = (case ws of [] \<Rightarrow> False | w # ws' \<Rightarrow> deepEqual v w \<and> deepItems vs ws')"

fun kind_of :: "'q payload \<Rightarrow> string" where
  "kind_of (VString _) = ''string''"
| "kind_of (VInteger _) = ''integer''"
| "kind_of (VNumber _) = ''number''"
| "kind_of (VBoolean _) = ''boolean''"
| "kind_of (VTimestamp _) = ''timestamp''"
| "kind_of (VDuration _) = ''duration''"
| "kind_of (VQuantity _ _) = ''quantity''"
| "kind_of (VObject _) = ''object''"
| "kind_of (VList _) = ''list''"

lemma kind_of_iff:
  "kind_of w = ''string'' \<longleftrightarrow> (\<exists>s. w = VString s)"
  "kind_of w = ''integer'' \<longleftrightarrow> (\<exists>i. w = VInteger i)"
  "kind_of w = ''number'' \<longleftrightarrow> (\<exists>s. w = VNumber s)"
  "kind_of w = ''boolean'' \<longleftrightarrow> (\<exists>b. w = VBoolean b)"
  "kind_of w = ''timestamp'' \<longleftrightarrow> (\<exists>i. w = VTimestamp i)"
  "kind_of w = ''duration'' \<longleftrightarrow> (\<exists>d. w = VDuration d)"
  "kind_of w = ''quantity'' \<longleftrightarrow> (\<exists>q b. w = VQuantity q b)"
  "kind_of w = ''object'' \<longleftrightarrow> (\<exists>m. w = VObject m)"
  "kind_of w = ''list'' \<longleftrightarrow> (\<exists>vs. w = VList vs)"
  by (cases w; simp)+

definition validateComparableMatches :: "'q Match \<Rightarrow> 'q payload \<Rightarrow> 'q Match \<Rightarrow> 'q payload \<Rightarrow> string option" where
  "validateComparableMatches l lv r rv =
    (if \<not> IsSupportedType (m_type l) \<or> \<not> IsSupportedType (m_type r) then Some ''match type is unsupported''
     else if m_type l \<noteq> m_type r \<or> kind_of lv \<noteq> kind_of rv then Some ''match types do not agree''
     else None)"

definition EqualMatches :: "'q TypedLib \<Rightarrow> 'q Match \<Rightarrow> 'q Match \<Rightarrow> (bridge_error, bool) res" where
  "EqualMatches lib l r =
    (case (m_value l, m_value r) of
       (Some lv, Some rv) \<Rightarrow>
         (case validateComparableMatches l lv r rv of
            Some msg \<Rightarrow> Inl (BridgeError msg)
          | None \<Rightarrow>
             (case (lv, rv) of
                (VString a, VString b) \<Rightarrow> Inr (a = b)
              | (VInteger a, VInteger b) \<Rightarrow> Inr (a = b)
              | (VNumber a, VNumber b) \<Rightarrow>
                  (case ratSetString a of
                     None \<Rightarrow> Inl (BridgeError ''left number is not normalized'')
                   | Some x \<Rightarrow> (case ratSetString b of
                       None \<Rightarrow> Inl (BridgeError ''right number is not normalized'') | Some y \<Rightarrow> Inr (x = y)))
              | (VBoolean a, VBoolean b) \<Rightarrow> Inr (a = b)
              | (VTimestamp a, VTimestamp b) \<Rightarrow> Inr (a = b)
              | (VDuration a, VDuration b) \<Rightarrow> Inr (a = b)
              | (VQuantity a _, VQuantity b _) \<Rightarrow> Inr (quantityCmp lib a b = 0)
              | (VObject a, VObject b) \<Rightarrow> Inr (deepEqual (JObject a) (JObject b))
              | (VList a, VList b) \<Rightarrow> Inr (deepEqual (JArray a) (JArray b))
              | _ \<Rightarrow> Inl (BridgeError ''match payload is not recognized'')))
     | _ \<Rightarrow> Inr False)"

definition cmp :: "'a::linorder \<Rightarrow> 'a \<Rightarrow> int" where
  "cmp a b = (if a < b then - 1 else if b < a then 1 else 0)"

definition CompareMatches :: "'q TypedLib \<Rightarrow> 'q Match \<Rightarrow> 'q Match \<Rightarrow> (bridge_error, int) res" where
  "CompareMatches lib l r =
    (case (m_value l, m_value r) of
       (Some lv, Some rv) \<Rightarrow>
         (case validateComparableMatches l lv r rv of
            Some msg \<Rightarrow> Inl (BridgeError msg)
          | None \<Rightarrow>
             (case (lv, rv) of
                (VString a, VString b) \<Rightarrow> Inr (cmp a b)
              | (VInteger a, VInteger b) \<Rightarrow> Inr (cmp a b)
              | (VNumber a, VNumber b) \<Rightarrow>
                  (case ratSetString a of
                     None \<Rightarrow> Inl (BridgeError ''left number is not normalized'')
                   | Some x \<Rightarrow> (case ratSetString b of
                       None \<Rightarrow> Inl (BridgeError ''right number is not normalized'') | Some y \<Rightarrow> Inr (cmp x y)))
              | (VTimestamp a, VTimestamp b) \<Rightarrow> Inr (cmp a b)
              | (VDuration a, VDuration b) \<Rightarrow> Inr (cmp a b)
              | (VQuantity a _, VQuantity b _) \<Rightarrow> Inr (quantityCmp lib a b)
              | _ \<Rightarrow> Inl (BridgeError ''match type is not orderable'')))
     | _ \<Rightarrow> Inl (BridgeError ''null matches are not orderable''))"

section \<open>Invariants of converted values\<close>

text \<open>The range of the native values a decoder produces, and of the text of a float.\<close>

definition text_bound :: "string \<Rightarrow> bool" where
  "text_bound s \<longleftrightarrow> int (length s) \<le> 4611686018427387904"

fun go_native :: "JValue \<Rightarrow> bool" where
  "go_native (JInt i) \<longleftrightarrow> int64_range i"
| "go_native (JString s) \<longleftrightarrow> text_bound s"
| "go_native (JNumber s) \<longleftrightarrow> text_bound s"
| "go_native _ \<longleftrightarrow> True"

text \<open>What the library promises: a float prints in bounded space, distinct instants print differently, quantities
  compare by their decimal value and a printed duration is parsed back.\<close>

definition lib_ok :: "'q TypedLib \<Rightarrow> bool" where
  "lib_ok lib \<longleftrightarrow> (\<forall>q. text_bound (FormatFloat lib q)) \<and>
     (\<forall>i j. formatTime lib i = formatTime lib j \<longrightarrow> i = j) \<and>
     (\<forall>a b x y. ratSetString (quantityAsDec lib a) = Some x \<longrightarrow> ratSetString (quantityAsDec lib b) = Some y \<longrightarrow>
        quantityCmp lib a b = cmp x y) \<and>
     (\<forall>d. int64_range d \<longrightarrow> ParseDuration lib (durationString lib d) = Some d)"

definition payload_wf :: "'q TypedLib \<Rightarrow> string \<Rightarrow> 'q payload \<Rightarrow> bool" where
  "payload_wf lib t v \<longleftrightarrow> kind_of v = t \<and> (case v of
      VInteger i \<Rightarrow> int64_range i
    | VNumber s \<Rightarrow> canonical_text s
    | VDuration d \<Rightarrow> int64_range d
    | VQuantity q b \<Rightarrow> canonical_text b \<and> ratSetString (quantityAsDec lib q) = ratSetString b
    | VObject m \<Rightarrow> json_native (JObject m)
    | VList vs \<Rightarrow> json_native (JArray vs)
    | _ \<Rightarrow> True)"

definition match_wf :: "'q TypedLib \<Rightarrow> 'q Match \<Rightarrow> bool" where
  "match_wf lib m \<longleftrightarrow> IsSupportedType (m_type m) \<and> (case m_value m of None \<Rightarrow> True | Some v \<Rightarrow> payload_wf lib (m_type m) v)"

text \<open>The payload is exactly the native value.\<close>

definition faithful :: "'q TypedLib \<Rightarrow> JValue \<Rightarrow> 'q payload \<Rightarrow> bool" where
  "faithful lib native v \<longleftrightarrow> (case v of
      VString s \<Rightarrow> native = JString s
    | VInteger i \<Rightarrow> native = JInt i \<or> native = JFloat (Finite (of_int i)) \<or>
        (\<exists>s. (native = JString s \<or> native = JNumber s) \<and> denotes s (of_int i))
    | VNumber c \<Rightarrow> (\<exists>s x. numberText lib native = Inr s \<and> denotes s x \<and> ratSetString c = Some x)
    | VBoolean b \<Rightarrow> native = JBool b \<or> native = JString (if b then ''true'' else ''false'')
    | VTimestamp i \<Rightarrow> (\<exists>s. native = JString s \<and> timeParse lib s = Some i)
    | VDuration d \<Rightarrow> (\<exists>s. native = JString s \<and> exactDurationNanoseconds s = Inr d)
    | VQuantity q b \<Rightarrow> (\<exists>s x. native = JString s \<and> exactQuantityMagnitude s = Inr x \<and> ratSetString b = Some x)
    | VObject m \<Rightarrow> native = JObject m
    | VList vs \<Rightarrow> native = JArray vs)"

section \<open>Lemmas: numbers\<close>

lemma canonicalDecimal_denotes:
  assumes "canonicalDecimal s = Inr c" "text_bound s"
  obtains x where "denotes s x" "canonical_text c" "ratSetString c = Some x" "canonicalDecimal c = Inr c"
proof -
  obtain x where x: "denotes s x" using canonicalDecimal_invalid_iff[of s] assms(1) by fastforce
  then show ?thesis using canonicalDecimal_Inr[OF assms(1) x] assms(2) that unfolding text_bound_def by blast
qed

lemma integer_text_parts:
  assumes "integerTextPattern s"
  obtains neg I where "s = plain_text neg I []" "lead_ok I"
proof -
  have "s = plain_text (has_prefix s ''-'') (if has_prefix s ''-'' then tl s else s) []"
    by (cases s) (auto simp: plain_text_def has_prefix_single)
  moreover have "lead_ok (if has_prefix s ''-'' then tl s else s)"
    using assms by (auto simp: integerTextPattern_def Let_def lead_ok_def)
  ultimately show ?thesis using that by blast
qed

lemma ParseInt_plain:
  assumes "lead_ok I"
  shows "ParseInt (plain_text neg I []) =
    (let v = (if neg then - int (read_nat I) else int (read_nat I)) in if int64_range v then Inr v else Inl ErrRange)"
proof -
  have "I \<noteq> []" "list_all is_digit I" using assms by (simp_all add: lead_ok_def)
  then show ?thesis using ParseInt_exponent[of "if neg then ''-'' else []" I] by (simp add: plain_text_def Let_def)
qed

lemma plain_integer_denotes:
  assumes "lead_ok I" "ParseInt (plain_text neg I []) = Inr i"
  shows "denotes (plain_text neg I []) (of_int i)" "int64_range i" "ratSetString (plain_text neg I []) = Some (of_int i)"
proof -
  have i: "i = (if neg then - int (read_nat I) else int (read_nat I))" "int64_range i"
    using assms ParseInt_plain[OF assms(1), of neg] by (auto simp: Let_def split: if_splits)
  have v: "signed neg (parts_value I []) = of_int i" using i(1) by (simp add: signed_def parts_value_def)
  show "denotes (plain_text neg I []) (of_int i)" unfolding denotes_def
    by (rule exI[of _ neg], rule exI[of _ I], rule exI[of _ "[]"], rule exI[of _ None])
      (use assms(1) v in \<open>simp add: exponent_text_def number_wf_def exponent_wf_def exponent_value_def\<close>)
  show "int64_range i" by (rule i(2))
  show "ratSetString (plain_text neg I []) = Some (of_int i)"
    using plain_text_value[of I "[]" neg] assms(1) v by (simp add: lead_ok_def)
qed

lemma canonical_integer:
  assumes "canonical_text c" "CHR ''.'' \<notin> set c"
  obtains neg I where "c = plain_text neg I []" "lead_ok I"
proof -
  obtain neg I F where c: "c = plain_text neg I F" "canonical_parts I F" using assms(1) unfolding canonical_text_def by blast
  then have "F = []" using assms(2) by (auto simp: plain_text_def split: if_splits)
  then show ?thesis using c that by (simp add: canonical_parts_def)
qed

lemma convertInteger_sound:
  assumes "convertInteger native = Inr v" "go_native native"
  shows "payload_wf lib ''integer'' v \<and> faithful lib native v"
proof (cases native)
  case (JInt i)
  then show ?thesis using assms by (auto simp: payload_wf_def faithful_def)
next
  case (JFloat f)
  then obtain q where q: "f = Finite q" "of_int (floor q) = q" "\<not> q < - 9223372036854775808" "\<not> q \<ge> 9223372036854775808"
    "v = VInteger (floor q)"
    using assms(1) by (auto split: float64.splits if_splits)
  obtain n where n: "q = of_int n" using q(2) by metis
  have "(of_int (- 9223372036854775808) :: rat) \<le> of_int n" "(of_int n :: rat) < of_int 9223372036854775808"
    using q(3,4) n by simp_all
  then have "- 9223372036854775808 \<le> n" "n < 9223372036854775808" by (simp_all only: of_int_le_iff of_int_less_iff)
  then show ?thesis using JFloat q(1,5) n by (simp add: payload_wf_def faithful_def int64_range_def min_int64_def max_int64_def)
next
  case (JString s)
  then obtain i where p: "integerTextPattern s" "ParseInt s = Inr i" "v = VInteger i"
    using assms(1) by (auto simp: parsedInteger_def split: if_splits sum.splits)
  obtain neg I where s: "s = plain_text neg I []" "lead_ok I" using p(1) by (rule integer_text_parts)
  show ?thesis using plain_integer_denotes[OF s(2) p(2)[unfolded s(1)]] p(3) JString s(1)
    by (simp add: payload_wf_def faithful_def)
next
  case (JNumber s)
  then obtain c i where p: "canonicalDecimal s = Inr c" "CHR ''.'' \<notin> set c" "ParseInt c = Inr i" "v = VInteger i"
    using assms(1) by (auto simp: parsedInteger_def split: if_splits sum.splits)
  obtain x where x: "denotes s x" "canonical_text c" "ratSetString c = Some x"
    using p(1) assms(2) JNumber canonicalDecimal_denotes[of s c] by auto
  obtain neg I where c: "c = plain_text neg I []" "lead_ok I" using canonical_integer[OF x(2) p(2)] .
  have "x = of_int i" using plain_integer_denotes(3)[OF c(2) p(3)[unfolded c(1)]] x(3) c(1) by simp
  then show ?thesis using plain_integer_denotes(2)[OF c(2) p(3)[unfolded c(1)]] x(1) p(4) JNumber
    by (simp add: payload_wf_def faithful_def)
qed (use assms in auto)

lemma show_int_plain: "show_int i = plain_text (i < 0) (show_nat (nat \<bar>i\<bar>)) []"
  by (simp add: show_int_def plain_text_def)

lemma show_int_bound: "int64_range i \<Longrightarrow> text_bound (show_int i)"
proof -
  assume "int64_range i"
  then have "\<bar>i\<bar> < 10 ^ 19" by (auto simp: int64_range_def max_int64_def min_int64_def)
  then have "nat \<bar>i\<bar> < 10 ^ 19" by simp
  then have "length (show_nat (nat \<bar>i\<bar>)) \<le> 19" by (rule show_nat_length) simp
  then show ?thesis by (cases "i < 0") (simp_all add: show_int_def text_bound_def)
qed

lemma numberText_bound: "numberText lib native = Inr s \<Longrightarrow> go_native native \<Longrightarrow> lib_ok lib \<Longrightarrow> text_bound s"
  by (auto simp: numberText_def lib_ok_def show_int_bound split: JValue.splits float64.splits)

lemma convertNumber_sound:
  assumes "convertNumber lib native = Inr v" "go_native native" "lib_ok lib"
  shows "payload_wf lib ''number'' v \<and> faithful lib native v"
proof -
  obtain s c where p: "numberText lib native = Inr s" "canonicalDecimal s = Inr c" "v = VNumber c"
    using assms(1) by (auto simp: convertNumber_def split: sum.splits)
  obtain x where "denotes s x" "canonical_text c" "ratSetString c = Some x" "canonicalDecimal c = Inr c"
    using canonicalDecimal_denotes[OF p(2) numberText_bound[OF p(1) assms(2,3)]] .
  then show ?thesis using p by (auto simp: payload_wf_def faithful_def)
qed

lemma convertDuration_sound:
  assumes "convertDuration lib native = Inr v"
  shows "payload_wf lib ''duration'' v \<and> faithful lib native v"
  using assms by (cases native) (auto simp: payload_wf_def faithful_def split: sum.splits duration_error.splits option.splits if_splits)

lemma convertQuantity_sound:
  assumes "convertQuantity lib native = Inr v"
  shows "payload_wf lib ''quantity'' v \<and> faithful lib native v"
proof (cases native)
  case (JString s)
  then obtain q x b where p: "exactQuantityMagnitude s = Inr x" "ratSetString (quantityAsDec lib q) = Some x"
    "canonicalRationalDecimal x = Inr b" "v = VQuantity q b"
    using assms by (auto split: sum.splits quantity_error.splits option.splits if_splits)
  show ?thesis using canonicalRationalDecimal_Inr[OF p(3)] p JString by (simp add: payload_wf_def faithful_def)
qed (use assms in auto)

lemma convertNonNull_sound:
  assumes "convertNonNull lib t native = Inr v" "go_native native" "lib_ok lib"
  shows "payload_wf lib t v \<and> faithful lib native v"
proof -
  consider "t = ''integer''" | "t = ''number''" | "t = ''duration''" | "t = ''quantity''"
    | (other) "t \<noteq> ''integer''" "t \<noteq> ''number''" "t \<noteq> ''duration''" "t \<noteq> ''quantity''" by blast
  then show ?thesis
  proof cases
    case other
    then show ?thesis using assms(1)
      by (auto simp: convertNonNull_def payload_wf_def faithful_def clone_eq split: if_splits JValue.splits option.splits)
  qed (use assms convertInteger_sound convertNumber_sound convertDuration_sound convertQuantity_sound
      in \<open>simp_all add: convertNonNull_def\<close>)
qed

lemma ConvertMatch_Inr:
  assumes "ConvertMatch lib plan native prov = Inr m" "go_native native" "lib_ok lib"
  shows "m_type m = tf_type plan \<and> match_wf lib m \<and>
    (case m_value m of None \<Rightarrow> native = JNull | Some v \<Rightarrow> native \<noteq> JNull \<and> faithful lib native v)"
  using assms convertNonNull_sound[OF _ assms(2,3)]
  by (auto simp: ConvertMatch_def match_wf_def split: if_splits sum.splits)

section \<open>Lemmas: keys\<close>

lemma bigEndian32_inject:
  assumes "bigEndian32 m = bigEndian32 n" "m \<le> 4294967295" "n \<le> 4294967295"
  shows "m = n"
proof -
  have step: "x = y" if "x mod 256 = y mod 256" "x div 256 = y div 256" for x y :: nat
    using that mult_div_mod_eq[of 256 x] mult_div_mod_eq[of 256 y] by metis
  have dd: "x div 256 div 256 = x div 65536" "x div 65536 div 256 = x div 16777216" for x :: nat
    using div_mult2_eq[of x 256 256] div_mult2_eq[of x 65536 256] by simp_all
  have byte: "m div 16777216 mod 256 = n div 16777216 mod 256" "m div 65536 mod 256 = n div 65536 mod 256"
    "m div 256 mod 256 = n div 256 mod 256" "m mod 256 = n mod 256" using assms(1) by (simp_all add: bigEndian32_def)
  have "m div 16777216 < 256" "n div 16777216 < 256" using assms(2,3) by simp_all
  then have "m div 16777216 = n div 16777216" using byte(1) by simp
  then have "m div 65536 = n div 65536" using step[OF byte(2)] by (simp add: dd)
  then have "m div 256 = n div 256" using step[OF byte(3)] by (simp add: dd)
  then show ?thesis using step[OF byte(4)] by simp
qed

lemma bytes_of_inject: "bytes_of s = bytes_of t \<Longrightarrow> s = t"
proof -
  have "inj (of_char :: char \<Rightarrow> nat)" by (rule injI) simp
  then show "bytes_of s = bytes_of t \<Longrightarrow> s = t" unfolding bytes_of_def by (rule map_injective[rotated])
qed

lemma writeKeyPart_prefix_free:
  assumes "writeKeyPart s = Inr a" "writeKeyPart t = Inr b" "a @ x = b @ y"
  shows "s = t \<and> x = y"
proof -
  have a: "a = bigEndian32 (length s) @ bytes_of s" "length s \<le> 4294967295"
    and b: "b = bigEndian32 (length t) @ bytes_of t" "length t \<le> 4294967295"
    using assms(1,2) by (auto simp: writeKeyPart_def split: if_splits)
  have "length (bigEndian32 (length s)) = length (bigEndian32 (length t))" by (simp add: bigEndian32_def)
  then have "bigEndian32 (length s) = bigEndian32 (length t)" "bytes_of s @ x = bytes_of t @ y"
    using assms(3) a(1) b(1) by simp_all
  moreover have "length s = length t" using bigEndian32_inject[OF calculation(1) a(2) b(2)] .
  then have "length (bytes_of s) = length (bytes_of t)" by (simp add: bytes_of_def)
  ultimately have "bytes_of s = bytes_of t" "x = y" by simp_all
  then show ?thesis using bytes_of_inject by blast
qed

lemma CanonicalKey_Inr:
  assumes "CanonicalKey lib t m = Inr k"
  obtains v s a b where "m_value m = Some v" "m_type m = t" "IsSupportedType t" "canonicalMatchPayload lib v = Inr s"
    "writeKeyPart t = Inr a" "writeKeyPart s = Inr b" "k = a @ b"
  using assms by (auto simp: CanonicalKey_def split: option.splits if_splits sum.splits)

lemma show_int_inject: "show_int i = show_int j \<Longrightarrow> i = j"
proof -
  assume eq: "show_int i = show_int j"
  have "ratSetString (show_int k) = Some (of_int k)" for k
  proof -
    have "lead_ok (show_nat (nat \<bar>k\<bar>))" by (rule show_nat_lead_ok)
    then show ?thesis using plain_text_value[of "show_nat (nat \<bar>k\<bar>)" "[]" "k < 0"]
      by (simp add: show_int_plain lead_ok_def signed_def parts_value_def)
  qed
  then show ?thesis using eq by (metis of_int_eq_iff option.inject)
qed

abbreviation scalar_type :: "string \<Rightarrow> bool" where
  "scalar_type t \<equiv> t \<noteq> ''object'' \<and> t \<noteq> ''list''"

lemmas equality_simps = EqualMatches_def validateComparableMatches_def canonicalMatchPayload_def

text \<open>Equality of scalar payloads of one type, decided by their canonical text.\<close>

lemma payload_equality:
  assumes "payload_wf lib t v" "payload_wf lib t w" "scalar_type t" "lib_ok lib" "IsSupportedType t"
    and "canonicalMatchPayload lib v = Inr s" "canonicalMatchPayload lib w = Inr s'"
  shows "s = s' \<longleftrightarrow> EqualMatches lib (newValueMatch t v) (newValueMatch t w) = Inr True"
proof (cases v)
  case (VQuantity q b)
  then obtain q' b' where w: "w = VQuantity q' b'" using assms(1,2) by (cases w) (auto simp: payload_wf_def)
  obtain x y where x: "ratSetString b = Some x" "ratSetString b' = Some y"
  proof -
    have "canonical_text b" "canonical_text b'" using assms(1,2) VQuantity w by (auto simp: payload_wf_def)
    then show ?thesis using that plain_text_value
      unfolding canonical_text_def canonical_parts_def lead_ok_def by metis
  qed
  have "quantityCmp lib q q' = cmp x y"
    using assms(1,2,4) VQuantity w x by (auto simp: payload_wf_def lib_ok_def)
  moreover have "b = b' \<longleftrightarrow> x = y"
    using assms(1,2) VQuantity w x canonical_text_value[of b b'] by (auto simp: payload_wf_def)
  ultimately show ?thesis using assms(5-7) VQuantity w x
    by (auto simp: equality_simps cmp_def)
next
  case (VNumber b)
  then obtain b' where w: "w = VNumber b'" using assms(1,2) by (cases w) (auto simp: payload_wf_def)
  obtain x y where x: "ratSetString b = Some x" "ratSetString b' = Some y"
  proof -
    have "canonical_text b" "canonical_text b'" using assms(1,2) VNumber w by (auto simp: payload_wf_def)
    then show ?thesis using that plain_text_value
      unfolding canonical_text_def canonical_parts_def lead_ok_def by metis
  qed
  moreover have "b = b' \<longleftrightarrow> x = y"
    using assms(1,2) VNumber w x canonical_text_value[of b b'] by (auto simp: payload_wf_def)
  ultimately show ?thesis using assms(5-7) VNumber w x
    by (auto simp: equality_simps)
next
  case (VTimestamp i)
  then obtain j where w: "w = VTimestamp j" using assms(1,2) by (auto simp: payload_wf_def kind_of_iff)
  have "formatTime lib i = formatTime lib j \<longleftrightarrow> i = j" using assms(4) unfolding lib_ok_def by blast
  then show ?thesis using assms(5-7) VTimestamp w by (simp add: equality_simps)
next
  case (VString a)
  then obtain b where w: "w = VString b" using assms(1,2) by (auto simp: payload_wf_def kind_of_iff)
  then show ?thesis using assms(5-7) VString by (simp add: equality_simps)
next
  case (VInteger a)
  then obtain b where w: "w = VInteger b" using assms(1,2) by (auto simp: payload_wf_def kind_of_iff)
  then show ?thesis using assms(5-7) VInteger show_int_inject[of a b] by (auto simp add: equality_simps)
next
  case (VBoolean a)
  then obtain b where w: "w = VBoolean b" using assms(1,2) by (auto simp: payload_wf_def kind_of_iff)
  then show ?thesis using assms(5-7) VBoolean by (cases a; cases b) (auto simp: equality_simps)
next
  case (VDuration a)
  then obtain b where w: "w = VDuration b" using assms(1,2) by (auto simp: payload_wf_def kind_of_iff)
  then show ?thesis using assms(5-7) VDuration show_int_inject[of a b] by (auto simp add: equality_simps)
qed (use assms(1,3) in \<open>auto simp: payload_wf_def\<close>)

section \<open>Lemmas: exact values\<close>

lemma canonical_denotes:
  assumes "canonical_text s" "ratSetString s = Some v"
  shows "denotes s v"
proof -
  obtain neg I F where s: "s = plain_text neg I F" "canonical_parts I F" using assms(1) unfolding canonical_text_def by blast
  then have "v = signed neg (parts_value I F)" using assms(2) plain_text_value[of I F neg] by (simp add: canonical_parts_def lead_ok_def)
  then show ?thesis using s unfolding denotes_def
    by (intro exI[of _ neg] exI[of _ I] exI[of _ F] exI[of _ None])
      (simp add: exponent_text_def number_wf_def exponent_wf_def exponent_value_def canonical_parts_def)
qed

lemma configured_number:
  assumes "configuredMatch lib ''number'' (JString s) = Inr m" "canonical_text s" "ratSetString s = Some v" "text_bound s"
  shows "ExactRational ''number'' m = Inr v"
proof -
  obtain c where c: "canonicalDecimal s = Inr c" "m = newValueMatch ''number'' (VNumber c)"
    using assms(1)
    by (auto simp: configuredMatch_def ConvertConfiguredMatch_def ConvertMatch_def convertNonNull_def convertNumber_def numberText_def
        split: sum.splits if_splits)
  have "ratSetString c = Some v"
    using canonicalDecimal_Inr[OF c(1) canonical_denotes[OF assms(2,3)]] assms(4) by (simp add: text_bound_def)
  then show ?thesis using c(2) by (simp add: ExactRational_def)
qed

lemma plain_quantity:
  assumes "lead_ok I" "list_all is_digit F"
  shows "exactQuantityMagnitude (plain_text neg I F) = Inr (signed neg (parts_value I F))"
proof -
  have I: "list_all is_digit I" "I \<noteq> []" using assms(1) by (simp_all add: lead_ok_def)
  let ?r = "if F = [] then [] else CHR ''.'' # F"
  have sign: "(if has_prefix (plain_text neg I F) ''+'' then ''+'' else if has_prefix (plain_text neg I F) ''-'' then ''-'' else []) =
      (if neg then ''-'' else [])"
    using digits_no_sign[OF I, of ?r] by (cases neg) (auto simp: plain_text_def has_prefix_single)
  have body: "drop (length (if neg then ''-'' else [])) (plain_text neg I F) = I @ ?r" by (simp add: plain_text_def)
  have tw: "takeWhile is_digit (I @ ?r) = I" "dropWhile is_digit (I @ ?r) = ?r"
    using takeWhile_digits_append[OF I(1), of "CHR ''.''" F] takeWhile_digits_all[OF I(1)] by auto
  have twF: "takeWhile is_digit F = F" "dropWhile is_digit F = []" using takeWhile_digits_all[OF assms(2)] by simp_all
  have p: "quantityPattern (plain_text neg I F) = Some (if neg then ''-'' else [], I @ ?r, [])"
    unfolding quantityPattern_def Let_def sign body tw using I(2) twF
    by (auto simp: has_prefix_single exponentPattern_def)
  have "plain_text False I F = I @ ?r" by (simp add: plain_text_def)
  moreover have "\<not> has_prefix (I @ ?r) ''.''" using I by (cases I) (auto simp: has_prefix_single)
  moreover have "\<not> has_suffix (I @ ?r) ''.''"
  proof -
    have "is_digit (last (I @ ?r))" using I assms(2) by (auto simp: list_all_iff last_append)
    then show ?thesis by (auto simp: has_suffix_iff)
  qed
  ultimately show ?thesis
    using p plain_text_value[OF I assms(2), of False]
    by (simp add: exactQuantityMagnitude_def quantitySuffixFactor_def signed_def)
qed

lemma configured_quantity:
  assumes "configuredMatch lib ''quantity'' (JString s) = Inr m" "canonical_text s" "ratSetString s = Some v"
  shows "ExactRational ''quantity'' m = Inr v"
proof -
  obtain q x b where q: "exactQuantityMagnitude s = Inr x" "canonicalRationalDecimal x = Inr b" "m = newValueMatch ''quantity'' (VQuantity q b)"
    using assms(1)
    by (auto simp: configuredMatch_def ConvertConfiguredMatch_def ConvertMatch_def convertNonNull_def
        split: sum.splits if_splits quantity_error.splits option.splits)
  obtain neg I F where s: "s = plain_text neg I F" "canonical_parts I F" using assms(2) unfolding canonical_text_def by blast
  then have "x = v" using q(1) plain_quantity[of I F neg] plain_text_value[of I F neg] assms(3)
    by (simp add: canonical_parts_def lead_ok_def)
  then show ?thesis using canonicalRationalDecimal_Inr[OF q(2)] q(3) by (simp add: ExactRational_def)
qed

lemma configured_integer: "configuredMatch lib ''integer'' (JInt i) = Inr m \<Longrightarrow> ExactRational ''integer'' m = Inr (of_int i)"
  by (auto simp: configuredMatch_def ConvertConfiguredMatch_def ConvertMatch_def convertNonNull_def ExactRational_def split: if_splits)

lemma configured_duration:
  assumes "configuredMatch lib ''duration'' (JString s) = Inr m" "ParseDuration lib s = Some d"
  shows "ExactRational ''duration'' m = Inr (of_int d)"
  using assms
  by (auto simp: configuredMatch_def ConvertConfiguredMatch_def ConvertMatch_def convertNonNull_def ExactRational_def
      split: sum.splits duration_error.splits if_splits)

lemma whole_rational: "snd (quotient_of v) = 1 \<Longrightarrow> of_int (fst (quotient_of v)) = v"
  by (metis div_by_1 of_int_1 prod.collapse quotient_of_div)

lemma MatchFromExact_value:
  assumes "MatchFromExact lib t v = Inr m" "lib_ok lib" "\<forall>s. canonicalRationalDecimal v = Inr s \<longrightarrow> text_bound s"
  shows "ExactRational t m = Inr v"
proof -
  consider (int) "t = ''integer''" | (num) "t = ''number''" | (qty) "t = ''quantity''" | (dur) "t = ''duration''"
    using assms(1) by (auto simp: MatchFromExact_def Let_def split: if_splits)
  then show ?thesis
  proof cases
    case int
    then have "snd (quotient_of v) = 1" "configuredMatch lib ''integer'' (JInt (fst (quotient_of v))) = Inr m"
      using assms(1) by (auto simp: MatchFromExact_def Let_def split: if_splits)
    then show ?thesis using configured_integer whole_rational int by metis
  next
    case num
    then obtain s where s: "canonicalRationalDecimal v = Inr s" "configuredMatch lib ''number'' (JString s) = Inr m"
      using assms(1) by (auto simp: MatchFromExact_def Let_def split: sum.splits)
    then show ?thesis using configured_number canonicalRationalDecimal_Inr[OF s(1)] assms(3) num by blast
  next
    case qty
    then obtain s where s: "canonicalRationalDecimal v = Inr s" "configuredMatch lib ''quantity'' (JString s) = Inr m"
      using assms(1) by (auto simp: MatchFromExact_def Let_def split: sum.splits)
    then show ?thesis using configured_quantity canonicalRationalDecimal_Inr[OF s(1)] qty by blast
  next
    case dur
    then have i: "snd (quotient_of v) = 1" "int64_range (fst (quotient_of v))"
      "configuredMatch lib ''duration'' (JString (durationString lib (fst (quotient_of v)))) = Inr m"
      using assms(1) by (auto simp: MatchFromExact_def Let_def split: if_splits)
    have "ParseDuration lib (durationString lib (fst (quotient_of v))) = Some (fst (quotient_of v))"
      using assms(2) i(2) unfolding lib_ok_def by blast
    then show ?thesis using configured_duration[OF i(3)] whole_rational[OF i(1)] dur by simp
  qed
qed

lemma MatchFromExactNumber_value:
  assumes "MatchFromExactNumber lib v scale mode = Inr m" "\<forall>s. roundRationalDecimal v scale mode = Inr s \<longrightarrow> text_bound s"
  shows "\<exists>k. ExactRational ''number'' m = Inr (of_int k / 10 ^ nat scale) \<and> rounded mode (v * 10 ^ nat scale) k"
proof -
  obtain s where s: "roundRationalDecimal v scale mode = Inr s" "configuredMatch lib ''number'' (JString s) = Inr m"
    using assms(1) by (auto simp: MatchFromExactNumber_def split: sum.splits)
  obtain k where k: "canonical_text s" "ratSetString s = Some (of_int k / 10 ^ nat scale)" "rounded mode (v * 10 ^ nat scale) k"
    using roundRationalDecimal_Inr[OF s(1)] by blast
  show ?thesis using configured_number[OF s(2) k(1,2)] assms(2) s(1) k(3) by blast
qed

section \<open>Lemmas: order\<close>

text \<open>The order keys of one comparable type.\<close>

lemma cmp_zero: "cmp a b = 0 \<longleftrightarrow> a = b"
  by (auto simp: cmp_def)

lemma cmp_swap: "cmp b a = - cmp a b"
  by (auto simp: cmp_def)

lemma cmp_trans: "cmp a b \<le> 0 \<Longrightarrow> cmp b c \<le> 0 \<Longrightarrow> cmp a c \<le> 0"
  by (auto simp: cmp_def split: if_splits)

lemma canonical_has_value: "canonical_text s \<Longrightarrow> \<exists>x. ratSetString s = Some x"
  using plain_text_value unfolding canonical_text_def canonical_parts_def lead_ok_def by metis

datatype order_value = OText string | ONumber rat

fun order_value_of :: "'q payload \<Rightarrow> order_value option" where
  "order_value_of (VString s) = Some (OText s)"
| "order_value_of (VInteger i) = Some (ONumber (of_int i))"
| "order_value_of (VNumber s) = map_option ONumber (ratSetString s)"
| "order_value_of (VTimestamp i) = Some (ONumber (of_int i))"
| "order_value_of (VDuration d) = Some (ONumber (of_int d))"
| "order_value_of (VQuantity q b) = map_option ONumber (ratSetString b)"
| "order_value_of _ = None"

fun order_cmp :: "order_value \<Rightarrow> order_value \<Rightarrow> int" where
  "order_cmp (OText a) (OText b) = cmp a b"
| "order_cmp (ONumber a) (ONumber b) = cmp a b"
| "order_cmp (OText a) (ONumber b) = - 1"
| "order_cmp (ONumber a) (OText b) = 1"

lemma cmp_of_int: "cmp (of_int a :: rat) (of_int b) = cmp a b"
  by (simp add: cmp_def)

lemmas compare_simps = CompareMatches_def EqualMatches_def validateComparableMatches_def

lemma compare_payloads:
  assumes "payload_wf lib t v" "payload_wf lib t w" "lib_ok lib" "IsSupportedType t"
    and "order_value_of v = Some a" "order_value_of w = Some b"
  shows "CompareMatches lib (newValueMatch t v) (newValueMatch t w) = Inr (order_cmp a b) \<and>
    EqualMatches lib (newValueMatch t v) (newValueMatch t w) = Inr (a = b)"
proof (cases v)
  case (VQuantity q c)
  then obtain q' c' where w: "w = VQuantity q' c'" using assms(1,2) by (auto simp: payload_wf_def kind_of_iff)
  obtain x y where x: "ratSetString c = Some x" "ratSetString c' = Some y" "a = ONumber x" "b = ONumber y"
    using assms(5,6) VQuantity w by auto
  have "quantityCmp lib q q' = cmp x y" using assms(1-3) VQuantity w x by (auto simp: payload_wf_def lib_ok_def)
  then show ?thesis using VQuantity w x assms(4) by (simp add: compare_simps cmp_zero)
next
  case (VNumber s)
  then obtain s' where w: "w = VNumber s'" using assms(1,2) by (auto simp: payload_wf_def kind_of_iff)
  then show ?thesis using VNumber assms(4-6) by (auto simp: compare_simps)
next
  case (VString s)
  then obtain s' where w: "w = VString s'" using assms(1,2) by (auto simp: payload_wf_def kind_of_iff)
  then show ?thesis using VString assms(4-6) by (auto simp: compare_simps)
next
  case (VInteger s)
  then obtain s' where w: "w = VInteger s'" using assms(1,2) by (auto simp: payload_wf_def kind_of_iff)
  then show ?thesis using VInteger assms(4-6) by (auto simp: compare_simps cmp_of_int)
next
  case (VTimestamp s)
  then obtain s' where w: "w = VTimestamp s'" using assms(1,2) by (auto simp: payload_wf_def kind_of_iff)
  then show ?thesis using VTimestamp assms(4-6) by (auto simp: compare_simps cmp_of_int)
next
  case (VDuration s)
  then obtain s' where w: "w = VDuration s'" using assms(1,2) by (auto simp: payload_wf_def kind_of_iff)
  then show ?thesis using VDuration assms(4-6) by (auto simp: compare_simps cmp_of_int)
qed (use assms(5) in auto)

lemma order_value_exists:
  assumes "payload_wf lib t v" "t \<notin> {''boolean'', ''object'', ''list''}"
  shows "\<exists>a. order_value_of v = Some a"
  using assms canonical_has_value by (cases v) (auto simp: payload_wf_def)

text \<open>A library for the witnesses: quantities are their decimal text, times and durations count in whole units.\<close>

definition sample_lib :: "string TypedLib" where
  "sample_lib = \<lparr>FormatFloat = (\<lambda>q. ''0''), timeParse = (\<lambda>s. case ParseInt s of Inr i \<Rightarrow> Some i | Inl _ \<Rightarrow> None),
     formatTime = show_int, ParseDuration = (\<lambda>s. case ParseInt (butlast (butlast s)) of Inr i \<Rightarrow> Some i | Inl _ \<Rightarrow> None),
     durationString = (\<lambda>d. show_int d @ ''ns''), ParseQuantity = (\<lambda>s. case ratSetString s of Some _ \<Rightarrow> Some s | None \<Rightarrow> None),
     quantityAsDec = (\<lambda>s. s), quantityCmp = (\<lambda>a b. case (ratSetString a, ratSetString b) of (Some x, Some y) \<Rightarrow> cmp x y | _ \<Rightarrow> 0),
     quantityString = (\<lambda>s. s), marshalString = (\<lambda>s. [CHR 0x22] @ s @ [CHR 0x22]),
     jsonValid = (\<lambda>s. True)\<rparr>"

lemma ParseInt_show_int: "int64_range i \<Longrightarrow> ParseInt (show_int i) = Inr i"
  using ParseInt_plain[OF show_nat_lead_ok, of "i < 0" "nat \<bar>i\<bar>"] by (simp add: show_int_plain Let_def)

lemma sample_lib_ok: "lib_ok sample_lib"
  by (auto simp: lib_ok_def sample_lib_def text_bound_def butlast_append ParseInt_show_int dest: show_int_inject)

section \<open>Properties\<close>

text \<open>C16: a converted match has the declared type and a well-formed payload of that type; it is null exactly for a
  native null, and otherwise its payload is exactly the native value: no integer, number, duration or quantity is
  rounded, truncated or wrapped.\<close>

theorem ConvertMatch_sound:
  assumes "ConvertMatch lib plan native prov = Inr m" and "go_native native" and "lib_ok lib"
  shows "m_type m = tf_type plan \<and> match_wf lib m \<and>
    (case m_value m of None \<Rightarrow> native = JNull | Some v \<Rightarrow> native \<noteq> JNull \<and> faithful lib native v)"
  using assms by (rule ConvertMatch_Inr)

theorem ConvertMatch_sound_witness:
  "\<exists>m. ConvertMatch sample_lib \<lparr>tf_sourceID = ''s'', tf_name = ''f'', tf_type = ''integer''\<rparr> (JNumber ''1.20e3'') None = Inr m \<and>
     m_value m = Some (VInteger 1200) \<and> match_wf sample_lib m \<and> faithful sample_lib (JNumber ''1.20e3'') (VInteger 1200)"
proof -
  have e: "ConvertMatch sample_lib \<lparr>tf_sourceID = ''s'', tf_name = ''f'', tf_type = ''integer''\<rparr> (JNumber ''1.20e3'') None =
      Inr (newValueMatch ''integer'' (VInteger 1200))" by code_simp
  have g: "go_native (JNumber ''1.20e3'')" by (simp add: text_bound_def)
  show ?thesis using ConvertMatch_sound[OF e g sample_lib_ok] e by simp
qed

text \<open>C18: for well-formed scalar matches, whatever their types, the canonical keys agree exactly when the types agree
  and the values are equal: the length-delimited encoding has no collisions and the payload text is a normal form.\<close>

theorem CanonicalKey_equality:
  assumes "CanonicalKey lib t l = Inr k" and "CanonicalKey lib u r = Inr k'" and "match_wf lib l" and "match_wf lib r"
    and "scalar_type t" and "lib_ok lib"
  shows "k = k' \<longleftrightarrow> t = u \<and> EqualMatches lib l r = Inr True"
proof -
  obtain v s a b where l: "m_value l = Some v" "m_type l = t" "IsSupportedType t" "canonicalMatchPayload lib v = Inr s"
    "writeKeyPart t = Inr a" "writeKeyPart s = Inr b" "k = a @ b" using assms(1) by (rule CanonicalKey_Inr)
  obtain w s' a' b' where r: "m_value r = Some w" "m_type r = u" "IsSupportedType u" "canonicalMatchPayload lib w = Inr s'"
    "writeKeyPart u = Inr a'" "writeKeyPart s' = Inr b'" "k' = a' @ b'" using assms(2) by (rule CanonicalKey_Inr)
  have key: "k = k' \<longleftrightarrow> t = u \<and> s = s'"
  proof
    assume "k = k'"
    then have "t = u" "b @ [] = b' @ []" using writeKeyPart_prefix_free[OF l(5) r(5), of b b'] l(7) r(7) by simp_all
    then show "t = u \<and> s = s'" using writeKeyPart_prefix_free[OF l(6) r(6), of "[]" "[]"] by blast
  qed (use l r in simp)
  show ?thesis
  proof (cases "t = u")
    case True
    have l': "l = newValueMatch t v" and r': "r = newValueMatch t w" using l(1,2) r(1,2) True by simp_all
    have "payload_wf lib t v" "payload_wf lib t w" using assms(3,4) l' r' by (simp_all add: match_wf_def)
    from payload_equality[OF this assms(5,6) l(3,4) r(4)] show ?thesis using key True l' r' by simp
  qed (use key in simp)
qed

theorem CanonicalKey_equality_witness:
  "CanonicalKey sample_lib ''number'' (newValueMatch ''number'' (VNumber ''1.5'')) =
     Inr [0, 0, 0, 6, 110, 117, 109, 98, 101, 114, 0, 0, 0, 3, 49, 46, 53] \<and>
   EqualMatches sample_lib (newValueMatch ''number'' (VNumber ''1.5'')) (newValueMatch ''number'' (VNumber ''1.5'')) = Inr True"
proof -
  let ?m = "newValueMatch ''number'' (VNumber ''1.5'') :: string Match"
  have k: "CanonicalKey sample_lib ''number'' ?m = Inr [0, 0, 0, 6, 110, 117, 109, 98, 101, 114, 0, 0, 0, 3, 49, 46, 53]"
    by (simp add: CanonicalKey_def canonicalMatchPayload_def writeKeyPart_def bigEndian32_def bytes_of_def IsSupportedType_def)
  have "canonical_text ''1.5''" unfolding canonical_text_def
    by (intro exI[of _ False] exI[of _ "''1''"] exI[of _ "''5''"])
      (simp add: plain_text_def canonical_parts_def lead_ok_def is_digit_code)
  then have wf: "match_wf sample_lib ?m" by (simp add: match_wf_def payload_wf_def IsSupportedType_def)
  show ?thesis using CanonicalKey_equality[OF k k wf wf _ sample_lib_ok] k by simp
qed

text \<open>An exact rational converted to an integer, number, duration or quantity match is read back unchanged.\<close>

theorem MatchFromExact_roundtrip:
  assumes "MatchFromExact lib t v = Inr m" and "lib_ok lib" and "\<forall>s. canonicalRationalDecimal v = Inr s \<longrightarrow> text_bound s"
  shows "ExactRational t m = Inr v"
  using assms by (rule MatchFromExact_value)

theorem MatchFromExact_roundtrip_witness:
  "\<exists>m. MatchFromExact sample_lib ''quantity'' (5 / 2) = Inr m \<and> ExactRational ''quantity'' m = Inr (5 / 2)"
proof -
  have e: "MatchFromExact sample_lib ''quantity'' (5 / 2) = Inr (newValueMatch ''quantity'' (VQuantity ''2.5'' ''2.5''))" by code_simp
  have c: "canonicalRationalDecimal (5 / 2) = Inr ''2.5''" by code_simp
  have b: "\<forall>s. canonicalRationalDecimal (5 / 2) = Inr s \<longrightarrow> text_bound s" by (simp add: c text_bound_def)
  show ?thesis using MatchFromExact_roundtrip[OF e sample_lib_ok b] e by blast
qed

text \<open>Comparison and equality of two well-formed matches of one orderable type are comparison and equality of
  their exact values, text in byte order and everything else as rationals, so they agree and form a total order; booleans,
  objects and lists are refused.\<close>

theorem CompareMatches_exact:
  assumes "match_wf lib l" and "match_wf lib r" and "m_type l = m_type r" and "lib_ok lib"
    and "m_value l = Some v" and "m_value r = Some w"
  shows "if m_type l \<in> {''boolean'', ''object'', ''list''} then CompareMatches lib l r = Inl (BridgeError ''match type is not orderable'')
    else \<exists>a b. order_value_of v = Some a \<and> order_value_of w = Some b \<and>
      CompareMatches lib l r = Inr (order_cmp a b) \<and> EqualMatches lib l r = Inr (a = b)"
proof -
  let ?t = "m_type l"
  have l: "l = newValueMatch ?t v" "payload_wf lib ?t v" and sup: "IsSupportedType ?t" using assms(1,5) by (simp_all add: match_wf_def)
  have r: "r = newValueMatch ?t w" "payload_wf lib ?t w" using assms(2,3,6) by (simp_all add: match_wf_def)
  show ?thesis
  proof (cases "?t \<in> {''boolean'', ''object'', ''list''}")
    case True
    then consider "?t = ''boolean''" | "?t = ''object''" | "?t = ''list''" by blast
    then have "CompareMatches lib (newValueMatch ?t v) (newValueMatch ?t w) = Inl (BridgeError ''match type is not orderable'')"
      using l(2) r(2) by cases (auto simp: payload_wf_def kind_of_iff compare_simps IsSupportedType_def)
    then show ?thesis using True l(1) r(1) by simp
  next
    case False
    obtain a b where ab: "order_value_of v = Some a" "order_value_of w = Some b"
      using order_value_exists[OF l(2) False] order_value_exists[OF r(2) False] by blast
    show ?thesis using compare_payloads[OF l(2) r(2) assms(4) sup ab] l(1) r(1) ab False by auto
  qed
qed

theorem CompareMatches_exact_witness:
  "CompareMatches sample_lib (newValueMatch ''integer'' (VInteger 3)) (newValueMatch ''integer'' (VInteger 12)) = Inr (- 1)"
proof -
  have wf: "match_wf sample_lib (newValueMatch ''integer'' (VInteger i))" if "int64_range i" for i
    using that by (simp add: match_wf_def payload_wf_def IsSupportedType_def)
  have i: "int64_range 3" "int64_range 12" by code_simp+
  show ?thesis
    using CompareMatches_exact[OF wf[OF i(1)] wf[OF i(2)] _ sample_lib_ok, of "VInteger 3" "VInteger 12"] by (simp add: cmp_def)
qed

end
