(* ===== verification/TypedOutcomes.thy ===== *)
theory TypedOutcomes
  imports FieldExtraction TypedValues
begin

text \<open>
  Typed outcomes of \<^verbatim>\<open>src/internal/typedoutput\<close>: planning (\<^verbatim>\<open>planner.go\<close>), fields, resources and
  sources (\<^verbatim>\<open>outcomes.go\<close>), batches (\<^verbatim>\<open>batch.go\<close>), the replacement of matches by operators
  (\<^verbatim>\<open>operator_bridge.go\<close>) and the projection into the published result (\<^verbatim>\<open>status.go\<close>).
  As in extraction, every \<^verbatim>\<open>ctx.Err()\<close> consumes one check of the context.  The size of a projected resource
  in canonical JSON is a parameter.
\<close>

section \<open>Types\<close>

datatype FieldState = FieldStateAbsent | FieldStateValues | FieldStateError

record 'q TFieldOutcome =
  to_name :: string
  to_type :: string
  to_state :: FieldState
  to_matches :: "'q Match list"
  to_err :: "ConversionError option"

record 'q TResourceOutcome =
  tr_provenance :: FacetResourceProvenance
  tr_fields :: "'q TFieldOutcome list"

datatype typed_source_error = FromExtractionSource extraction_source_error | FromConversion ConversionError

record 'q TSourceOutcome =
  ts_sourceID :: string
  ts_resources :: "'q TResourceOutcome list"
  ts_fieldErrors :: "ConversionError list"
  ts_err :: "typed_source_error option"

record PlanOutcome =
  po_sourceID :: string
  po_fields :: "TFieldPlan list"
  po_failures :: "ConversionError list"

fun cv_reason_text :: "ConversionErrorReason \<Rightarrow> string" where
  "cv_reason_text CvMissingType = ''MissingType''"
| "cv_reason_text CvUnsupportedType = ''UnsupportedType''"
| "cv_reason_text CvConversionTypeMismatch = ''ConversionTypeMismatch''"
| "cv_reason_text CvInvalidValue = ''InvalidValue''"
| "cv_reason_text CvConversionOverflow = ''ConversionOverflow''"
| "cv_reason_text CvForbiddenConversion = ''ForbiddenConversion''"
| "cv_reason_text CvInvalidInput = ''InvalidInput''"
| "cv_reason_text CvConversionInterrupted = ''ConversionInterrupted''"
| "cv_reason_text CvValueLimitExceeded = ''ValueLimitExceeded''"

fun sel_reason_text :: "SelectionErrorReason \<Rightarrow> string" where
  "sel_reason_text SelInvalidSource = ''InvalidSource''"
| "sel_reason_text SelInvalidNamespaceScope = ''InvalidNamespaceScope''"
| "sel_reason_text SelInvalidSelector = ''InvalidSelector''"
| "sel_reason_text SelAuthorizationMissing = ''AuthorizationMissing''"
| "sel_reason_text SelAuthorizationDenied = ''AuthorizationDenied''"
| "sel_reason_text SelAuthorizationMismatch = ''AuthorizationMismatch''"
| "sel_reason_text SelAuthorizationStale = ''AuthorizationStale''"
| "sel_reason_text SelReadForbidden = ''ReadForbidden''"
| "sel_reason_text SelUnsupportedSelector = ''UnsupportedSelector''"
| "sel_reason_text SelReadInterrupted = ''ReadInterrupted''"
| "sel_reason_text SelReadUnavailable = ''ReadUnavailable''"
| "sel_reason_text SelListExpired = ''ListExpired''"
| "sel_reason_text SelInvalidObject = ''InvalidObject''"
| "sel_reason_text SelSelectionLimitExceeded = ''SelectionLimitExceeded''"

section \<open>Planning\<close>

definition planError :: "string \<Rightarrow> string \<Rightarrow> ConversionErrorReason \<Rightarrow> string \<Rightarrow> nat \<Rightarrow> ConversionError" where
  "planError sid fieldName reason msg i = (NewConversionError sid fieldName None reason msg)\<lparr>ce_fieldIndex := int i\<rparr>"

fun planFields :: "string \<Rightarrow> (FacetField \<times> nat) list \<Rightarrow> TFieldPlan list \<times> ConversionError list" where
  "planFields sid [] = ([], [])"
| "planFields sid ((f, i) # rest) =
    (case planFields sid rest of
       (valid, failures) \<Rightarrow>
         if ff_type f = [] then
           (valid, planError sid (ff_name f) CvMissingType ''field type is required'' i # failures)
         else if \<not> IsSupportedType (ff_type f) then
           (valid, planError sid (ff_name f) CvUnsupportedType ''field type is unsupported'' i # failures)
         else (\<lparr>tf_sourceID = sid, tf_name = ff_name f, tf_type = ff_type f\<rparr> # valid, failures))"

definition TypedCompileSource :: "FacetSource \<Rightarrow> PlanOutcome" where
  "TypedCompileSource source =
    (case planFields (fs_id source)
        (sort_by (\<lambda>a b. ff_name (fst a) < ff_name (fst b)) (zip (fs_fields source) [0..<length (fs_fields source)])) of
       (valid, failures) \<Rightarrow> \<lparr>po_sourceID = fs_id source, po_fields = valid, po_failures = failures\<rparr>)"

definition TypedCompileBatch :: "FacetSource list \<Rightarrow> PlanOutcome list" where
  "TypedCompileBatch sources = map TypedCompileSource sources"

section \<open>Fields\<close>

definition newAbsentFieldOutcome :: "string \<Rightarrow> string \<Rightarrow> 'q TFieldOutcome" where
  "newAbsentFieldOutcome name t = \<lparr>to_name = name, to_type = t, to_state = FieldStateAbsent, to_matches = [], to_err = None\<rparr>"

definition newValuesFieldOutcome :: "string \<Rightarrow> string \<Rightarrow> 'q Match list \<Rightarrow> 'q TFieldOutcome" where
  "newValuesFieldOutcome name t ms = \<lparr>to_name = name, to_type = t, to_state = FieldStateValues, to_matches = ms, to_err = None\<rparr>"

definition newFieldErrorOutcome :: "string \<Rightarrow> string \<Rightarrow> ConversionError \<Rightarrow> 'q TFieldOutcome" where
  "newFieldErrorOutcome name t e = \<lparr>to_name = name, to_type = t, to_state = FieldStateError, to_matches = [], to_err = Some e\<rparr>"

definition interruptedConversionError :: "string \<Rightarrow> string \<Rightarrow> FacetResourceProvenance option \<Rightarrow> ConversionError" where
  "interruptedConversionError sid fieldName prov =
     NewConversionError sid fieldName prov CvConversionInterrupted ''conversion interrupted''"

definition valueLimitConversionError :: "string \<Rightarrow> ConversionError" where
  "valueLimitConversionError sid = NewConversionError sid [] None CvValueLimitExceeded ''produced value ceiling exceeded''"

datatype conv_stop = ConvInterrupted | ConvFailed ConversionError

text \<open>The loop over native values, one check before each value and one after the last.\<close>

fun convertMatches ::
  "'q TypedLib \<Rightarrow> TFieldPlan \<Rightarrow> FacetResourceProvenance \<Rightarrow> ctx \<Rightarrow> JValue list \<Rightarrow> (conv_stop, 'q Match list) res \<times> ctx" where
  "convertMatches lib plan prov c [] =
    (case ctx_err c of (True, c1) \<Rightarrow> (Inl ConvInterrupted, c1) | (False, c1) \<Rightarrow> (Inr [], c1))"
| "convertMatches lib plan prov c (v # vs) =
    (case ctx_err c of
       (True, c1) \<Rightarrow> (Inl ConvInterrupted, c1)
     | (False, c1) \<Rightarrow>
        (case ConvertMatch lib plan v (Some prov) of
           Inl e \<Rightarrow> (Inl (ConvFailed e), c1)
         | Inr m \<Rightarrow>
            (case convertMatches lib plan prov c1 vs of
               (Inl e, c2) \<Rightarrow> (Inl e, c2)
             | (Inr ms, c2) \<Rightarrow> (Inr (m # ms), c2))))"

definition convertFieldContext ::
  "'q TypedLib \<Rightarrow> ctx \<Rightarrow> TFieldPlan \<Rightarrow> FieldOutcome \<Rightarrow> FacetResourceProvenance \<Rightarrow> (ConversionError, 'q TFieldOutcome) res \<times> ctx" where
  "convertFieldContext lib c plan input prov =
    (if fo_fieldName input \<noteq> tf_name plan then
       (Inr (newFieldErrorOutcome (fo_fieldName input) (tf_type plan) (NewConversionError (tf_sourceID plan) (fo_fieldName input)
          (Some prov) CvInvalidInput ''extraction field identity does not match declaration'')), c)
     else if fo_matches input = [] then (Inr (newAbsentFieldOutcome (tf_name plan) (tf_type plan)), c)
     else if \<not> list_all json_native (fo_matches input) then
       (Inr (newFieldErrorOutcome (tf_name plan) (tf_type plan) (NewConversionError (tf_sourceID plan) (tf_name plan)
          (Some prov) CvInvalidInput ''extraction matches are not JSON-compatible'')), c)
     else case convertMatches lib plan prov c (fo_matches input) of
       (Inl ConvInterrupted, c1) \<Rightarrow> (Inl (interruptedConversionError (tf_sourceID plan) (tf_name plan) (Some prov)), c1)
     | (Inl (ConvFailed e), c1) \<Rightarrow> (Inr (newFieldErrorOutcome (tf_name plan) (tf_type plan) e), c1)
     | (Inr ms, c1) \<Rightarrow> (Inr (newValuesFieldOutcome (tf_name plan) (tf_type plan) ms), c1))"

definition ConvertField :: "'q TypedLib \<Rightarrow> TFieldPlan \<Rightarrow> FieldOutcome \<Rightarrow> FacetResourceProvenance \<Rightarrow> (ConversionError, 'q TFieldOutcome) res" where
  "ConvertField lib plan input prov = fst (convertFieldContext lib None plan input prov)"

definition ReplaceFieldMatches :: "'q TFieldOutcome \<Rightarrow> 'q Match list \<Rightarrow> (ConversionError, 'q TFieldOutcome) res" where
  "ReplaceFieldMatches f ms =
    (if to_name f = [] \<or> \<not> IsSupportedType (to_type f) then
       Inl (NewConversionError [] (to_name f) None CvInvalidInput ''typed field identity is invalid'')
     else if to_state f = FieldStateError then
       Inl (NewConversionError [] (to_name f) None CvInvalidInput ''cannot replace an unsuccessful typed field'')
     else if \<not> list_all (\<lambda>m. m_type m = to_type f) ms then
       Inl (NewConversionError [] (to_name f) None CvInvalidInput ''replacement match type is invalid'')
     else if ms = [] then Inr (newAbsentFieldOutcome (to_name f) (to_type f))
     else Inr (newValuesFieldOutcome (to_name f) (to_type f) ms))"

section \<open>Resources\<close>

text \<open>The names are the declared and the extracted ones, each once, in order; a later declaration of a name
  replaces an earlier one in the lookup table.\<close>

definition field_names :: "TFieldPlan list \<Rightarrow> FieldOutcome list \<Rightarrow> string list" where
  "field_names plans inputs = sort_by (<) (remdups (map tf_name plans @ map fo_fieldName inputs))"

definition declared_plan :: "TFieldPlan list \<Rightarrow> string \<Rightarrow> TFieldPlan option" where
  "declared_plan plans name = lookup (rev (map (\<lambda>p. (tf_name p, p)) plans)) name"

fun convertNames ::
  "'q TypedLib \<Rightarrow> string \<Rightarrow> TFieldPlan list \<Rightarrow> ResourceOutcome \<Rightarrow> ctx \<Rightarrow> string list \<Rightarrow>
   (ConversionError, 'q TFieldOutcome list) res \<times> ctx" where
  "convertNames lib sid plans input c [] = (Inr [], c)"
| "convertNames lib sid plans input c (name # names) =
    (case ctx_err c of
       (True, c1) \<Rightarrow> (Inl (interruptedConversionError sid [] (Some (ro_provenance input))), c1)
     | (False, c1) \<Rightarrow>
        (case (case declared_plan plans name of
                 None \<Rightarrow> (Inr (newFieldErrorOutcome name [] (NewConversionError sid name (Some (ro_provenance input))
                    CvInvalidInput ''extraction field is not declared in the typed plan'')), c1)
               | Some p \<Rightarrow>
                  (case filter (\<lambda>f. fo_fieldName f = name) (ro_fields input) of
                     [f] \<Rightarrow> convertFieldContext lib c1 p f (ro_provenance input)
                   | _ \<Rightarrow> (Inr (newFieldErrorOutcome name (tf_type p) (NewConversionError sid name (Some (ro_provenance input))
                        CvInvalidInput ''extraction field identity is duplicated'')), c1))) of
           (Inl e, c2) \<Rightarrow> (Inl e, c2)
         | (Inr out, c2) \<Rightarrow>
            (case convertNames lib sid plans input c2 names of
               (Inl e, c3) \<Rightarrow> (Inl e, c3)
             | (Inr outs, c3) \<Rightarrow> (Inr (out # outs), c3))))"

definition convertResourceContext ::
  "'q TypedLib \<Rightarrow> ctx \<Rightarrow> string \<Rightarrow> TFieldPlan list \<Rightarrow> ResourceOutcome \<Rightarrow> (ConversionError, 'q TResourceOutcome) res \<times> ctx" where
  "convertResourceContext lib c sid plans input =
    (case convertNames lib sid plans input c (field_names plans (ro_fields input)) of
       (Inl e, c1) \<Rightarrow> (Inl e, c1)
     | (Inr fields', c1) \<Rightarrow> (Inr \<lparr>tr_provenance = ro_provenance input, tr_fields = fields'\<rparr>, c1))"

section \<open>Projection into the published result\<close>

text \<open>\<open>Inl\<close> is \<^verbatim>\<open>invalidResultError\<close> with its message.\<close>

definition empty_match :: FacetTypedMatch where
  "empty_match = \<lparr>ftm_state = ''value'', ftm_string = None, ftm_integer = None, ftm_number = None, ftm_boolean = None,
     ftm_timestamp = None, ftm_duration = None, ftm_quantity = None, ftm_object = None, ftm_list = None\<rparr>"

definition buildMatch :: "'q TypedLib \<Rightarrow> 'q Match \<Rightarrow> string \<Rightarrow> (string, FacetTypedMatch) res" where
  "buildMatch lib m t =
    (if m_type m \<noteq> t then Inl ''match type does not match field type''
     else case m_value m of
       None \<Rightarrow> Inr (empty_match\<lparr>ftm_state := ''null''\<rparr>)
     | Some v \<Rightarrow>
        if \<not> IsSupportedType t then Inl ''value match type is unsupported''
        else (case v of
          VString s \<Rightarrow> if t \<noteq> ''string'' then Inl ''string payload does not match field type'' else Inr (empty_match\<lparr>ftm_string := Some s\<rparr>)
        | VInteger i \<Rightarrow> if t \<noteq> ''integer'' then Inl ''integer payload does not match field type'' else Inr (empty_match\<lparr>ftm_integer := Some i\<rparr>)
        | VNumber s \<Rightarrow>
            if t \<noteq> ''number'' then Inl ''number payload does not match field type''
            else (case canonicalDecimal s of Inl _ \<Rightarrow> Inl ''number payload is not canonical'' | Inr _ \<Rightarrow> Inr (empty_match\<lparr>ftm_number := Some s\<rparr>))
        | VBoolean b \<Rightarrow> if t \<noteq> ''boolean'' then Inl ''boolean payload does not match field type'' else Inr (empty_match\<lparr>ftm_boolean := Some b\<rparr>)
        | VTimestamp i \<Rightarrow> if t \<noteq> ''timestamp'' then Inl ''timestamp payload does not match field type'' else Inr (empty_match\<lparr>ftm_timestamp := Some i\<rparr>)
        | VDuration d \<Rightarrow>
            if t \<noteq> ''duration'' then Inl ''duration payload does not match field type''
            else Inr (empty_match\<lparr>ftm_duration := Some \<lparr>fdv_canonical = durationString lib d, fdv_nanoseconds = d\<rparr>\<rparr>)
        | VQuantity q b \<Rightarrow>
            if t \<noteq> ''quantity'' \<or> b = [] then Inl ''quantity payload is incomplete''
            else (case canonicalDecimal b of
                    Inl _ \<Rightarrow> Inl ''quantity base-unit payload is not canonical''
                  | Inr _ \<Rightarrow> Inr (empty_match\<lparr>ftm_quantity := Some \<lparr>fqv_canonical = quantityString lib q, fqv_baseUnits = b\<rparr>\<rparr>))
        | VObject m \<Rightarrow>
            if t \<noteq> ''object'' then Inl ''object payload does not match field type''
            else (case canonicalJSON lib (JObject m) CHR ''{'' of
                    None \<Rightarrow> Inl ''composite payload is invalid'' | Some s \<Rightarrow> Inr (empty_match\<lparr>ftm_object := Some s\<rparr>))
        | VList vs \<Rightarrow>
            if t \<noteq> ''list'' then Inl ''list payload does not match field type''
            else (case canonicalJSON lib (JArray vs) CHR ''['' of
                    None \<Rightarrow> Inl ''composite payload is invalid'' | Some s \<Rightarrow> Inr (empty_match\<lparr>ftm_list := Some s\<rparr>))))"

definition conversionPublicError :: "ConversionError \<Rightarrow> FacetResultError" where
  "conversionPublicError e = \<lparr>fre_reason = cv_reason_text (ce_reason e), fre_message = ce_message e\<rparr>"

definition publicResultError :: "typed_source_error \<Rightarrow> FacetResultError" where
  "publicResultError e = (case e of
      FromConversion ce \<Rightarrow> conversionPublicError ce
    | FromExtractionSource (FromExtraction ee) \<Rightarrow> \<lparr>fre_reason = ex_reason_text (ee_reason ee), fre_message = ee_message ee\<rparr>
    | FromExtractionSource (FromSelection se) \<Rightarrow> \<lparr>fre_reason = sel_reason_text (se_reason se), fre_message = se_message se\<rparr>)"

fun state_text :: "FieldState \<Rightarrow> string" where
  "state_text FieldStateAbsent = ''absent''"
| "state_text FieldStateValues = ''values''"
| "state_text FieldStateError = ''error''"

definition buildFieldResult :: "'q TypedLib \<Rightarrow> 'q TFieldOutcome \<Rightarrow> (string, FacetFieldResult) res" where
  "buildFieldResult lib f =
    (if to_name f = [] then Inl ''field identity is empty''
     else if \<not> IsSupportedType (to_type f) then Inl ''field type is unsupported''
     else
       (let base = \<lparr>ffr_name = to_name f, ffr_type = to_type f, ffr_state = state_text (to_state f), ffr_matches = [], ffr_error = None\<rparr> in
        case to_state f of
          FieldStateAbsent \<Rightarrow>
            if to_matches f \<noteq> [] \<or> to_err f \<noteq> None then Inl ''absent field contains matches or an error'' else Inr base
        | FieldStateValues \<Rightarrow>
            if to_matches f = [] \<or> to_err f \<noteq> None then Inl ''values field has no matches or contains an error''
            else (case res_map_list (\<lambda>m. buildMatch lib m (to_type f)) (to_matches f) of
                    Inl e \<Rightarrow> Inl e
                  | Inr ms \<Rightarrow> Inr (base\<lparr>ffr_matches := ms\<rparr>))
        | FieldStateError \<Rightarrow>
            (case to_err f of
               None \<Rightarrow> Inl ''error field contains matches or no error''
             | Some e \<Rightarrow>
                if to_matches f \<noteq> [] then Inl ''error field contains matches or no error''
                else Inr (base\<lparr>ffr_error := Some (conversionPublicError e)\<rparr>))))"

definition buildResourceResult :: "'q TypedLib \<Rightarrow> 'q TResourceOutcome \<Rightarrow> (string, FacetResourceResult) res" where
  "buildResourceResult lib r =
    (let p = tr_provenance r in
     if prov_apiVersion p = [] \<or> prov_kind p = [] \<or> prov_name p = [] \<or> prov_uid p = [] then Inl ''resource provenance is incomplete''
     else (case res_map_list (buildFieldResult lib) (tr_fields r) of
             Inl e \<Rightarrow> Inl e
           | Inr fs \<Rightarrow> Inr \<lparr>frr_provenance = p, frr_fields = fs, frr_error = None\<rparr>))"

definition ProjectResourceResult ::
  "'q TypedLib \<Rightarrow> FacetResourceProvenance \<Rightarrow> 'q TFieldOutcome list \<Rightarrow> (string, FacetResourceResult) res" where
  "ProjectResourceResult lib prov fs = buildResourceResult lib \<lparr>tr_provenance = prov, tr_fields = fs\<rparr>"

definition buildFieldErrors :: "ConversionError list \<Rightarrow> (string, FacetFieldError list) res" where
  "buildFieldErrors = res_map_list (\<lambda>e.
     if ce_fieldName e = [] then Inl ''source field error is incomplete''
     else Inr \<lparr>ffe_name = ce_fieldName e, ffe_reason = cv_reason_text (ce_reason e), ffe_message = ce_message e\<rparr>)"

definition buildSourceResult :: "'q TypedLib \<Rightarrow> 'q TSourceOutcome \<Rightarrow> (string, FacetSourceResult) res" where
  "buildSourceResult lib s =
    (if ts_sourceID s = [] then Inl ''source identity is empty''
     else case ts_err s of
       Some e \<Rightarrow>
         if ts_resources s \<noteq> [] \<or> ts_fieldErrors s \<noteq> [] then Inl ''source error contains successful payloads''
         else Inr \<lparr>fsr_id = ts_sourceID s, fsr_state = ''error'', fsr_fieldErrors = [], fsr_resources = [], fsr_aggregates = [],
                   fsr_error = Some (publicResultError e)\<rparr>
     | None \<Rightarrow>
        (case buildFieldErrors (ts_fieldErrors s) of
           Inl e \<Rightarrow> Inl e
         | Inr fes \<Rightarrow>
            (case res_map_list (buildResourceResult lib) (ts_resources s) of
               Inl e \<Rightarrow> Inl e
             | Inr rs \<Rightarrow> Inr \<lparr>fsr_id = ts_sourceID s, fsr_state = ''values'', fsr_fieldErrors = fes, fsr_resources = rs,
                             fsr_aggregates = [], fsr_error = None\<rparr>)))"

definition BuildResult :: "'q TypedLib \<Rightarrow> 'q TSourceOutcome list \<Rightarrow> (string, FacetResult) res" where
  "BuildResult lib outcomes = res_map_list (buildSourceResult lib) outcomes"

section \<open>Sources and batches\<close>

definition accountResource ::
  "'q TypedLib \<Rightarrow> (FacetResourceResult \<Rightarrow> nat option) \<Rightarrow> Accountant option \<Rightarrow> 'q TResourceOutcome \<Rightarrow> Accountant option option" where
  "accountResource lib canonicalSize acc r = (case acc of
      None \<Rightarrow> Some None
    | Some a \<Rightarrow>
       (case ProjectResourceResult lib (tr_provenance r) (tr_fields r) of
          Inl _ \<Rightarrow> None
        | Inr projected \<Rightarrow> (case Add canonicalSize a projected of Inl _ \<Rightarrow> None | Inr a' \<Rightarrow> Some (Some a'))))"

fun convertResources ::
  "'q TypedLib \<Rightarrow> (FacetResourceResult \<Rightarrow> nat option) \<Rightarrow> string \<Rightarrow> TFieldPlan list \<Rightarrow> ctx \<Rightarrow> Accountant option \<Rightarrow> ResourceOutcome list \<Rightarrow>
   (ConversionError, 'q TResourceOutcome list) res \<times> ctx" where
  "convertResources lib canonicalSize sid plans c acc [] = (Inr [], c)"
| "convertResources lib canonicalSize sid plans c acc (r # rs) =
    (case ctx_err c of
       (True, c1) \<Rightarrow> (Inl (interruptedConversionError sid [] None), c1)
     | (False, c1) \<Rightarrow>
        (case convertResourceContext lib c1 sid plans r of
           (Inl e, c2) \<Rightarrow> (Inl e, c2)
         | (Inr out, c2) \<Rightarrow>
            (case accountResource lib canonicalSize acc out of
               None \<Rightarrow> (Inl (valueLimitConversionError sid), c2)
             | Some acc' \<Rightarrow>
                (case convertResources lib canonicalSize sid plans c2 acc' rs of
                   (Inl e, c3) \<Rightarrow> (Inl e, c3)
                 | (Inr outs, c3) \<Rightarrow> (Inr (out # outs), c3)))))"

abbreviation failedTyped :: "string \<Rightarrow> typed_source_error \<Rightarrow> 'q TSourceOutcome" where
  "failedTyped sid e \<equiv> \<lparr>ts_sourceID = sid, ts_resources = [], ts_fieldErrors = [], ts_err = Some e\<rparr>"

abbreviation identityMismatch :: "string \<Rightarrow> typed_source_error" where
  "identityMismatch sid \<equiv> FromConversion (NewConversionError sid [] None CvInvalidInput
     ''extraction source identity does not match declaration'')"

definition convertSourceContextWithLimit ::
  "'q TypedLib \<Rightarrow> (FacetResourceResult \<Rightarrow> nat option) \<Rightarrow> ctx \<Rightarrow> PlanOutcome \<Rightarrow> SourceOutcome \<Rightarrow> int \<Rightarrow> 'q TSourceOutcome \<times> ctx" where
  "convertSourceContextWithLimit lib canonicalSize c plan input maxBytes =
    (let sid = po_sourceID plan in
     if xo_sourceID input \<noteq> sid then (failedTyped sid (identityMismatch sid), c)
     else case xo_err input of
       Some e \<Rightarrow> (failedTyped sid (FromExtractionSource e), c)
     | None \<Rightarrow>
        (case (if maxBytes > 0 then
                 (case NewAccountant maxBytes ''produced-values'' of Inl _ \<Rightarrow> None | Inr a \<Rightarrow> Some (Some a))
               else Some None) of
           None \<Rightarrow> (failedTyped sid (FromConversion (valueLimitConversionError sid)), c)
         | Some acc \<Rightarrow>
            (case convertResources lib canonicalSize sid (po_fields plan) c acc (xo_resources input) of
               (Inl e, c1) \<Rightarrow> (failedTyped sid (FromConversion e), c1)
             | (Inr outs, c1) \<Rightarrow>
                (\<lparr>ts_sourceID = sid, ts_resources = outs, ts_fieldErrors = po_failures plan, ts_err = None\<rparr>, c1))))"

definition interruptedOutcome :: "'q TSourceOutcome \<Rightarrow> bool" where
  "interruptedOutcome o' \<longleftrightarrow> (case ts_err o' of Some (FromConversion e) \<Rightarrow> ce_reason e = CvConversionInterrupted | _ \<Rightarrow> False)"

fun convertAll ::
  "'q TypedLib \<Rightarrow> (FacetResourceResult \<Rightarrow> nat option) \<Rightarrow> int \<Rightarrow> ctx \<Rightarrow> bool \<Rightarrow>
   ((FacetSource \<times> SourceOutcome) \<times> PlanOutcome) list \<Rightarrow> 'q TSourceOutcome list" where
  "convertAll lib canonicalSize maxBytes c interrupted [] = []"
| "convertAll lib canonicalSize maxBytes c interrupted (((source, input), plan) # rest) =
    (let sid = fs_id source; stopped = failedTyped sid (FromConversion (interruptedConversionError sid [] None)) in
     if interrupted then stopped # convertAll lib canonicalSize maxBytes c True rest
     else case ctx_err c of
       (True, c1) \<Rightarrow> stopped # convertAll lib canonicalSize maxBytes c1 True rest
     | (False, c1) \<Rightarrow>
        if xo_sourceID input \<noteq> sid then
          failedTyped sid (identityMismatch sid) # convertAll lib canonicalSize maxBytes c1 False rest
        else (case convertSourceContextWithLimit lib canonicalSize c1 plan input maxBytes of
                (out, c2) \<Rightarrow> out # convertAll lib canonicalSize maxBytes c2 (interruptedOutcome out) rest))"

definition ConvertBatchWithLimit ::
  "'q TypedLib \<Rightarrow> (FacetResourceResult \<Rightarrow> nat option) \<Rightarrow> int \<Rightarrow> ctx \<Rightarrow> (FacetSource \<times> SourceOutcome) list \<Rightarrow> 'q TSourceOutcome list" where
  "ConvertBatchWithLimit lib canonicalSize maxBytes c inputs =
     convertAll lib canonicalSize maxBytes c False (zip inputs (TypedCompileBatch (map fst inputs)))"

section \<open>Specification of a converted field\<close>

definition field_converted ::
  "'q TypedLib \<Rightarrow> TFieldPlan list \<Rightarrow> ResourceOutcome \<Rightarrow> string \<Rightarrow> 'q TFieldOutcome \<Rightarrow> bool" where
  "field_converted lib plans input name out \<longleftrightarrow> to_name out = name \<and>
    (to_state out = FieldStateError \<longleftrightarrow> to_err out \<noteq> None) \<and> (to_state out = FieldStateValues \<longleftrightarrow> to_matches out \<noteq> []) \<and>
    (case declared_plan plans name of
       None \<Rightarrow> to_state out = FieldStateError \<and> to_type out = []
     | Some p \<Rightarrow> to_type out = tf_type p \<and>
        (case filter (\<lambda>f. fo_fieldName f = name) (ro_fields input) of
           [f] \<Rightarrow>
             (case to_state out of
                FieldStateAbsent \<Rightarrow> fo_matches f = []
              | FieldStateValues \<Rightarrow>
                  list_all2 (\<lambda>n m. ConvertMatch lib p n (Some (ro_provenance input)) = Inr m) (fo_matches f) (to_matches out)
              | FieldStateError \<Rightarrow> \<not> list_all json_native (fo_matches f) \<or>
                  list_ex (\<lambda>n. isl (ConvertMatch lib p n (Some (ro_provenance input)))) (fo_matches f))
         | _ \<Rightarrow> to_state out = FieldStateError))"

definition resource_converted :: "'q TypedLib \<Rightarrow> TFieldPlan list \<Rightarrow> ResourceOutcome \<Rightarrow> 'q TResourceOutcome \<Rightarrow> bool" where
  "resource_converted lib plans input out \<longleftrightarrow> tr_provenance out = ro_provenance input \<and>
     list_all2 (field_converted lib plans input) (field_names plans (ro_fields input)) (tr_fields out)"

section \<open>Lemmas: fields and resources\<close>

lemmas field_outcome_defs = newAbsentFieldOutcome_def newValuesFieldOutcome_def newFieldErrorOutcome_def

lemma convertMatches_Inr:
  "convertMatches lib plan prov c vs = (Inr ms, c') \<Longrightarrow> list_all2 (\<lambda>n m. ConvertMatch lib plan n (Some prov) = Inr m) vs ms"
proof (induction vs arbitrary: c ms c')
  case Nil
  then show ?case by (auto split: prod.splits bool.splits)
next
  case (Cons v vs)
  then show ?case by (auto split: prod.splits bool.splits sum.splits)
qed

lemma convertMatches_failed:
  "convertMatches lib plan prov c vs = (Inl (ConvFailed e), c') \<Longrightarrow> list_ex (\<lambda>n. isl (ConvertMatch lib plan n (Some prov))) vs"
proof (induction vs arbitrary: c c')
  case Nil
  then show ?case by (auto split: prod.splits bool.splits)
next
  case (Cons v vs)
  then show ?case by (auto split: prod.splits bool.splits sum.splits)
qed

lemma convertMatches_never: "fst (convertMatches lib plan prov None vs) \<noteq> Inl ConvInterrupted \<and> snd (convertMatches lib plan prov None vs) = None"
  by (induction vs) (auto split: prod.splits sum.splits)

lemma declared_plan_name: "declared_plan plans name = Some p \<Longrightarrow> tf_name p = name \<and> p \<in> set plans"
  unfolding declared_plan_def lookup_map_of by (auto dest!: map_of_SomeD)

lemma declared_plan_None: "declared_plan plans name = None \<longleftrightarrow> name \<notin> tf_name ` set plans"
  unfolding declared_plan_def lookup_map_of by (force simp: map_of_eq_None_iff)

lemma convertFieldContext_converted:
  assumes "convertFieldContext lib c p f (ro_provenance input) = (Inr out, c')" "declared_plan plans name = Some p"
    and "filter (\<lambda>f. fo_fieldName f = name) (ro_fields input) = [f]"
  shows "field_converted lib plans input name out"
proof -
  have "f \<in> set (filter (\<lambda>f. fo_fieldName f = name) (ro_fields input))" by (simp add: assms(3))
  then have n: "fo_fieldName f = name" by simp
  have p: "tf_name p = name" using declared_plan_name[OF assms(2)] by simp
  consider (absent) "fo_matches f = []" "out = newAbsentFieldOutcome name (tf_type p)"
    | (foreign) e where "\<not> list_all json_native (fo_matches f)" "out = newFieldErrorOutcome name (tf_type p) e"
    | (failed) e where "list_ex (\<lambda>n. isl (ConvertMatch lib p n (Some (ro_provenance input)))) (fo_matches f)"
        "out = newFieldErrorOutcome name (tf_type p) e"
    | (full) ms where "fo_matches f \<noteq> []" "out = newValuesFieldOutcome name (tf_type p) ms"
        "list_all2 (\<lambda>n m. ConvertMatch lib p n (Some (ro_provenance input)) = Inr m) (fo_matches f) ms"
    using assms(1) n p
    by (auto simp: convertFieldContext_def split: if_splits sum.splits prod.splits conv_stop.splits
        dest: convertMatches_Inr convertMatches_failed)
  then show ?thesis
  proof cases
    case full
    then have "ms \<noteq> []" by auto
    then show ?thesis using full assms(2,3) by (simp add: field_converted_def field_outcome_defs)
  qed (use assms(2,3) in \<open>simp_all add: field_converted_def field_outcome_defs\<close>)
qed

lemma not_single: "(case xs of [x] \<Rightarrow> A x | _ \<Rightarrow> B) = (if length xs = 1 then A (hd xs) else B)"
  by (cases xs; cases "tl xs") auto

lemma convertNames_converted:
  "convertNames lib sid plans input c names = (Inr outs, c') \<Longrightarrow> list_all2 (field_converted lib plans input) names outs"
proof (induction names arbitrary: c outs c')
  case (Cons name names)
  obtain c1 where c1: "ctx_err c = (False, c1)"
    using Cons.prems by (cases "ctx_err c") (auto split: bool.splits)
  show ?case
  proof (cases "declared_plan plans name")
    case None
    then obtain outs' where "convertNames lib sid plans input c1 names = (Inr outs', c')" and
      outs: "outs = newFieldErrorOutcome name [] (NewConversionError sid name (Some (ro_provenance input))
                    CvInvalidInput ''extraction field is not declared in the typed plan'') # outs'"
      using Cons.prems c1 by (auto split: prod.splits sum.splits)
    then show ?thesis using Cons.IH None by (simp add: field_converted_def field_outcome_defs)
  next
    case (Some p)
    let ?fs = "filter (\<lambda>f. fo_fieldName f = name) (ro_fields input)"
    show ?thesis
    proof (cases "length ?fs = 1")
      case True
      then obtain f where f: "?fs = [f]" by (auto simp: length_Suc_conv)
      obtain out c2 outs' where o: "convertFieldContext lib c1 p f (ro_provenance input) = (Inr out, c2)"
        "convertNames lib sid plans input c2 names = (Inr outs', c')" "outs = out # outs'"
        using Cons.prems c1 Some f by (auto split: prod.splits sum.splits)
      then show ?thesis using Cons.IH convertFieldContext_converted[OF o(1) Some f] by simp
    next
      case False
      then obtain outs' where "convertNames lib sid plans input c1 names = (Inr outs', c')" and
        outs: "outs = newFieldErrorOutcome name (tf_type p) (NewConversionError sid name (Some (ro_provenance input))
                    CvInvalidInput ''extraction field identity is duplicated'') # outs'"
        using Cons.prems c1 Some by (auto simp: not_single split: prod.splits sum.splits)
      then show ?thesis using Cons.IH Some False by (simp add: field_converted_def field_outcome_defs not_single)
    qed
  qed
qed simp

lemma convertResourceContext_converted:
  "convertResourceContext lib c sid plans input = (Inr out, c') \<Longrightarrow> resource_converted lib plans input out"
  by (auto simp: convertResourceContext_def resource_converted_def split: prod.splits sum.splits dest: convertNames_converted)

lemma field_names_sorted: "sorted_wrt (<) (field_names plans inputs)"
proof -
  let ?xs = "field_names plans inputs"
  have "sorted_wrt (\<lambda>a b. \<not> b < a) ?xs" unfolding field_names_def by (rule string_lt.sorted_sort_by)
  moreover have "sorted_wrt (\<lambda>a b. a \<noteq> b) ?xs"
    using distinct_map_sorted_wrt[of "\<lambda>x. x" ?xs] by (simp add: field_names_def)
  ultimately show ?thesis by (rule sorted_wrt_combine) auto
qed

lemma convertResources_converted:
  "convertResources lib canonicalSize sid plans c acc rs = (Inr outs, c') \<Longrightarrow> list_all2 (resource_converted lib plans) rs outs"
proof (induction rs arbitrary: c acc outs c')
  case (Cons r rs)
  then show ?case
    by (auto split: prod.splits bool.splits option.splits sum.splits dest!: convertResourceContext_converted)
qed simp

definition projected_size :: "'q TypedLib \<Rightarrow> (FacetResourceResult \<Rightarrow> nat option) \<Rightarrow> 'q TResourceOutcome \<Rightarrow> int" where
  "projected_size lib canonicalSize r = (case ProjectResourceResult lib (tr_provenance r) (tr_fields r) of
      Inl _ \<Rightarrow> 0 | Inr x \<Rightarrow> (case canonicalSize x of None \<Rightarrow> 0 | Some n \<Rightarrow> wrap64 (int n)))"

lemma accountResource_Some:
  assumes "accountResource lib canonicalSize (Some a) r = Some acc'" "accountant_inv a"
  obtains a' where "acc' = Some a'" "accountant_inv a'" "acc_ceiling a' = acc_ceiling a"
    "acc_used a' = acc_used a + projected_size lib canonicalSize r"
proof -
  obtain x n a' where x: "ProjectResourceResult lib (tr_provenance r) (tr_fields r) = Inr x" "canonicalSize x = Some n"
    "AddBytes a (wrap64 (int n)) = Inr a'" "acc' = Some a'"
    using assms(1) by (auto simp: accountResource_def Add_def split: sum.splits option.splits)
  show ?thesis using that[OF x(4)] AddBytes_Inr[OF x(3) assms(2) wrap64_range] x(1,2) by (simp add: projected_size_def)
qed

lemma convertResources_bytes:
  "\<lbrakk> convertResources lib canonicalSize sid plans c (Some a) rs = (Inr outs, c'); accountant_inv a \<rbrakk> \<Longrightarrow>
     acc_used a + sum_list (map (projected_size lib canonicalSize) outs) \<le> acc_ceiling a"
proof (induction rs arbitrary: c a outs c')
  case Nil
  then show ?case by (simp add: accountant_inv_def)
next
  case (Cons r rs)
  obtain out outs' c2 acc' where o: "accountResource lib canonicalSize (Some a) out = Some acc'" and
    rest: "convertResources lib canonicalSize sid plans c2 acc' rs = (Inr outs', c')" and outs: "outs = out # outs'"
    using Cons.prems(1) by (auto split: prod.splits bool.splits option.splits sum.splits)
  obtain a' where a': "acc' = Some a'" "accountant_inv a'" "acc_ceiling a' = acc_ceiling a"
    "acc_used a' = acc_used a + projected_size lib canonicalSize out"
    using accountResource_Some[OF o Cons.prems(2)] .
  show ?case using Cons.IH[OF rest[unfolded a'(1)] a'(2)] a' outs by simp
qed

section \<open>Lemmas: sources and batches\<close>

definition source_converted ::
  "'q TypedLib \<Rightarrow> (FacetResourceResult \<Rightarrow> nat option) \<Rightarrow> int \<Rightarrow> FacetSource \<Rightarrow> SourceOutcome \<Rightarrow> 'q TSourceOutcome \<Rightarrow> bool" where
  "source_converted lib canonicalSize maxBytes source input out \<longleftrightarrow> ts_sourceID out = fs_id source \<and>
     (case ts_err out of
        Some e \<Rightarrow> ts_resources out = [] \<and> ts_fieldErrors out = []
      | None \<Rightarrow> xo_sourceID input = fs_id source \<and> xo_err input = None \<and>
          ts_fieldErrors out = po_failures (TypedCompileSource source) \<and>
          list_all2 (resource_converted lib (po_fields (TypedCompileSource source))) (xo_resources input) (ts_resources out) \<and>
          (0 < maxBytes \<longrightarrow> sum_list (map (projected_size lib canonicalSize) (ts_resources out)) \<le> maxBytes))"

lemma TypedCompileSource_id [simp]: "po_sourceID (TypedCompileSource source) = fs_id source"
  by (simp add: TypedCompileSource_def split: prod.splits)

lemma convertSource_converted:
  assumes "convertSourceContextWithLimit lib canonicalSize c (TypedCompileSource source) input maxBytes = (out, c')" "int64_range maxBytes"
  shows "source_converted lib canonicalSize maxBytes source input out"
proof (cases "xo_sourceID input = fs_id source \<and> xo_err input = None")
  case False
  then show ?thesis using assms(1)
    by (auto simp: convertSourceContextWithLimit_def source_converted_def Let_def split: if_splits option.splits)
next
  case True
  let ?plan = "TypedCompileSource source"
  define acc where "acc = (if maxBytes > 0 then Some (projr (NewAccountant maxBytes ''produced-values'')) else None)"
  have acc: "(if maxBytes > 0 then (case NewAccountant maxBytes ''produced-values'' of Inl _ \<Rightarrow> None | Inr a \<Rightarrow> Some (Some a)) else Some None) = Some acc"
    by (simp add: acc_def NewAccountant_def)
  show ?thesis
  proof (cases "convertResources lib canonicalSize (fs_id source) (po_fields ?plan) c acc (xo_resources input)")
    case (Pair res c1)
    show ?thesis
    proof (cases res)
      case (Inl e)
      then show ?thesis using assms(1) True Pair acc
        by (auto simp: convertSourceContextWithLimit_def source_converted_def Let_def)
    next
      case (Inr outs)
      then have out: "out = \<lparr>ts_sourceID = fs_id source, ts_resources = outs, ts_fieldErrors = po_failures ?plan, ts_err = None\<rparr>"
        using assms(1) True Pair acc by (auto simp: convertSourceContextWithLimit_def Let_def)
      have "list_all2 (resource_converted lib (po_fields ?plan)) (xo_resources input) outs"
        using convertResources_converted Pair Inr by blast
      moreover have "0 < maxBytes \<longrightarrow> sum_list (map (projected_size lib canonicalSize) outs) \<le> maxBytes"
      proof
        assume "0 < maxBytes"
        then obtain a where a: "NewAccountant maxBytes ''produced-values'' = Inr a" "acc = Some a"
          by (auto simp: acc_def NewAccountant_def)
        show "sum_list (map (projected_size lib canonicalSize) outs) \<le> maxBytes"
          using convertResources_bytes[OF Pair[unfolded Inr a(2)]] NewAccountant_inv[OF a(1) assms(2)] by simp
      qed
      ultimately show ?thesis using out True by (simp add: source_converted_def)
    qed
  qed
qed

lemma convertAll_converted:
  assumes "int64_range maxBytes"
  shows "list_all2 (\<lambda>(source, input) out. source_converted lib canonicalSize maxBytes source input out) xs
    (convertAll lib canonicalSize maxBytes c interrupted (zip xs (map (\<lambda>x. TypedCompileSource (fst x)) xs)))"
proof (induction xs arbitrary: c interrupted)
  case (Cons x xs)
  obtain source input where x: "x = (source, input)" by (cases x)
  obtain stop c1 where c1: "ctx_err c = (stop, c1)" by (cases "ctx_err c")
  have failed: "source_converted lib canonicalSize maxBytes source input (failedTyped (fs_id source) e)" for e
    by (simp add: source_converted_def)
  obtain out c2 where o: "convertSourceContextWithLimit lib canonicalSize c1 (TypedCompileSource source) input maxBytes = (out, c2)"
    by (cases "convertSourceContextWithLimit lib canonicalSize c1 (TypedCompileSource source) input maxBytes")
  show ?case
  proof (cases "interrupted \<or> stop \<or> xo_sourceID input \<noteq> fs_id source")
    case True
    then show ?thesis using x c1 failed Cons.IH by (cases interrupted; cases stop) (simp_all add: Let_def)
  next
    case False
    then show ?thesis using x c1 o convertSource_converted[OF o assms] Cons.IH[of c2 "interruptedOutcome out"]
      by (simp add: Let_def)
  qed
qed simp

text \<open>A field that is extracted but not declared in the typed plan makes the projection of its resource fail.\<close>

lemma convertFieldContext_never:
  "\<exists>out. convertFieldContext lib None p f prov = (Inr out, None)"
  using convertMatches_never[of lib p prov "fo_matches f"]
  by (auto simp: convertFieldContext_def split: prod.splits sum.splits conv_stop.splits)

lemma convertNames_never: "\<exists>outs. convertNames lib sid plans input None names = (Inr outs, None)"
proof (induction names)
  case (Cons name names)
  then obtain outs where outs: "convertNames lib sid plans input None names = (Inr outs, None)" by blast
  show ?case
  proof (cases "declared_plan plans name")
    case (Some p)
    obtain out where "convertFieldContext lib None p (hd (filter (\<lambda>f. fo_fieldName f = name) (ro_fields input))) (ro_provenance input) = (Inr out, None)"
      using convertFieldContext_never by blast
    then show ?thesis using Some outs by (auto simp: not_single)
  qed (use outs in simp)
qed simp

lemma convertResourceContext_never:
  obtains out where "convertResourceContext lib None sid plans input = (Inr out, None)" "resource_converted lib plans input out"
proof -
  obtain outs where "convertNames lib sid plans input None (field_names plans (ro_fields input)) = (Inr outs, None)"
    using convertNames_never by blast
  then have "convertResourceContext lib None sid plans input = (Inr \<lparr>tr_provenance = ro_provenance input, tr_fields = outs\<rparr>, None)"
    by (simp add: convertResourceContext_def)
  then show ?thesis using that convertResourceContext_converted by blast
qed

lemma res_map_list_Inl: "x \<in> set xs \<Longrightarrow> f x = Inl e \<Longrightarrow> \<exists>e'. res_map_list f xs = Inl e'"
proof (induction xs)
  case (Cons y ys)
  then show ?case by (cases "f y") (auto split: sum.splits)
qed simp

lemma undeclared_not_projectable:
  assumes "resource_converted lib plans input out" "f \<in> set (ro_fields input)" "fo_fieldName f \<notin> tf_name ` set plans"
  shows "accountResource lib canonicalSize (Some a) out = None"
proof -
  have "fo_fieldName f \<in> set (field_names plans (ro_fields input))" using assms(2) by (auto simp: field_names_def)
  then obtain o' where o': "o' \<in> set (tr_fields out)" "field_converted lib plans input (fo_fieldName f) o'"
    using list_all2_in_set1 assms(1) unfolding resource_converted_def by metis
  have "declared_plan plans (fo_fieldName f) = None" using assms(3) declared_plan_None by blast
  then have "to_type o' = []" using o'(2) by (simp add: field_converted_def)
  then have "\<exists>e. buildFieldResult lib o' = Inl e" by (auto simp: buildFieldResult_def IsSupportedType_def)
  then have "\<exists>e. res_map_list (buildFieldResult lib) (tr_fields out) = Inl e" using res_map_list_Inl o'(1) by metis
  then have "\<exists>e. ProjectResourceResult lib (tr_provenance out) (tr_fields out) = Inl e"
    by (auto simp: ProjectResourceResult_def buildResourceResult_def Let_def)
  then show ?thesis by (auto simp: accountResource_def)
qed

lemma convertResources_undeclared:
  assumes "r \<in> set rs" "f \<in> set (ro_fields r)" "fo_fieldName f \<notin> tf_name ` set plans"
  shows "convertResources lib canonicalSize sid plans None (Some a) rs = (Inl (valueLimitConversionError sid), None)"
  using assms(1)
proof (induction rs arbitrary: a)
  case (Cons x xs)
  obtain out where out: "convertResourceContext lib None sid plans x = (Inr out, None)" "resource_converted lib plans x out"
    by (rule convertResourceContext_never)
  show ?case
  proof (cases "x = r")
    case True
    then show ?thesis using out undeclared_not_projectable[OF out(2)] assms(2,3) by simp
  next
    case False
    then have r: "r \<in> set xs" using Cons.prems by simp
    show ?thesis
    proof (cases "accountResource lib canonicalSize (Some a) out")
      case (Some acc')
      then obtain a' where "acc' = Some a'" by (auto simp: accountResource_def split: sum.splits)
      then show ?thesis using out Some Cons.IH[OF r] by simp
    qed (use out in simp)
  qed
qed simp

section \<open>Lemmas: projection\<close>

definition payload_branches :: "FacetTypedMatch \<Rightarrow> string list" where
  "payload_branches m =
     (if ftm_string m \<noteq> None then [''string''] else []) @ (if ftm_integer m \<noteq> None then [''integer''] else []) @
     (if ftm_number m \<noteq> None then [''number''] else []) @ (if ftm_boolean m \<noteq> None then [''boolean''] else []) @
     (if ftm_timestamp m \<noteq> None then [''timestamp''] else []) @ (if ftm_duration m \<noteq> None then [''duration''] else []) @
     (if ftm_quantity m \<noteq> None then [''quantity''] else []) @ (if ftm_object m \<noteq> None then [''object''] else []) @
     (if ftm_list m \<noteq> None then [''list''] else [])"

definition match_published :: "string \<Rightarrow> FacetTypedMatch \<Rightarrow> bool" where
  "match_published t m \<longleftrightarrow> (ftm_state m = ''null'' \<and> payload_branches m = []) \<or> (ftm_state m = ''value'' \<and> payload_branches m = [t])"

definition field_published :: "FacetFieldResult \<Rightarrow> bool" where
  "field_published f \<longleftrightarrow> ffr_name f \<noteq> [] \<and> IsSupportedType (ffr_type f) \<and>
     (ffr_state f = ''absent'' \<and> ffr_matches f = [] \<and> ffr_error f = None \<or>
      ffr_state f = ''values'' \<and> ffr_matches f \<noteq> [] \<and> ffr_error f = None \<or>
      ffr_state f = ''error'' \<and> ffr_matches f = [] \<and> ffr_error f \<noteq> None) \<and>
     list_all (match_published (ffr_type f)) (ffr_matches f)"

lemmas published_simps = match_published_def payload_branches_def empty_match_def

lemma buildMatch_published:
  assumes "buildMatch lib m t = Inr r"
  shows "match_published t r"
proof (cases "m_value m")
  case None
  then have "r = empty_match\<lparr>ftm_state := ''null''\<rparr>" using assms by (simp add: buildMatch_def split: if_splits)
  then show ?thesis by (simp add: published_simps)
next
  case (Some v)
  then have t: "m_type m = t" "IsSupportedType t" using assms by (auto simp: buildMatch_def split: if_splits)
  note go = assms[unfolded buildMatch_def t(1) Some]
  show ?thesis
  proof (cases v)
    case (VString x)
    then have "r = empty_match\<lparr>ftm_string := Some x\<rparr> \<and> t = ''string''" using go t(2) by (simp split: if_splits sum.splits)
    then show ?thesis by (simp add: published_simps)
  next
    case (VInteger x)
    then have "r = empty_match\<lparr>ftm_integer := Some x\<rparr> \<and> t = ''integer''" using go t(2) by (simp split: if_splits sum.splits)
    then show ?thesis by (simp add: published_simps)
  next
    case (VNumber x)
    then have "r = empty_match\<lparr>ftm_number := Some x\<rparr> \<and> t = ''number''" using go t(2) by (simp split: if_splits sum.splits)
    then show ?thesis by (simp add: published_simps)
  next
    case (VBoolean x)
    then have "r = empty_match\<lparr>ftm_boolean := Some x\<rparr> \<and> t = ''boolean''" using go t(2) by (simp split: if_splits sum.splits)
    then show ?thesis by (simp add: published_simps)
  next
    case (VTimestamp x)
    then have "r = empty_match\<lparr>ftm_timestamp := Some x\<rparr> \<and> t = ''timestamp''" using go t(2) by (simp split: if_splits sum.splits)
    then show ?thesis by (simp add: published_simps)
  next
    case (VDuration x)
    then have "r = empty_match\<lparr>ftm_duration := Some \<lparr>fdv_canonical = durationString lib x, fdv_nanoseconds = x\<rparr>\<rparr> \<and> t = ''duration''" using go t(2) by (simp split: if_splits sum.splits)
    then show ?thesis by (simp add: published_simps)
  next
    case (VQuantity q x)
    then have "r = empty_match\<lparr>ftm_quantity := Some \<lparr>fqv_canonical = quantityString lib q, fqv_baseUnits = x\<rparr>\<rparr> \<and> t = ''quantity''" using go t(2) by (simp split: if_splits sum.splits)
    then show ?thesis by (simp add: published_simps)
  next
    case (VObject x)
    then obtain s where "r = empty_match\<lparr>ftm_object := Some s\<rparr> \<and> t = ''object''" using go t(2) by (auto split: if_splits option.splits)
    then show ?thesis by (simp add: published_simps)
  next
    case (VList x)
    then obtain s where "r = empty_match\<lparr>ftm_list := Some s\<rparr> \<and> t = ''list''" using go t(2) by (auto split: if_splits option.splits)
    then show ?thesis by (simp add: published_simps)
  qed
qed

lemma buildFieldResult_published:
  assumes "buildFieldResult lib f = Inr r"
  shows "field_published r \<and> ffr_name r = to_name f \<and> ffr_type r = to_type f \<and> length (ffr_matches r) = length (to_matches f)"
proof -
  have id: "to_name f \<noteq> []" "IsSupportedType (to_type f)" using assms by (auto simp: buildFieldResult_def split: if_splits)
  show ?thesis
  proof (cases "to_state f")
    case FieldStateValues
    then obtain ms where ms: "res_map_list (\<lambda>m. buildMatch lib m (to_type f)) (to_matches f) = Inr ms" "to_matches f \<noteq> []"
      "r = \<lparr>ffr_name = to_name f, ffr_type = to_type f, ffr_state = ''values'', ffr_matches = ms, ffr_error = None\<rparr>"
      using assms id by (auto simp: buildFieldResult_def split: if_splits sum.splits)
    have "list_all (match_published (to_type f)) ms"
    proof -
      have "list_all2 (\<lambda>m r. buildMatch lib m (to_type f) = Inr r) (to_matches f) ms" using ms(1) by (simp only: res_map_list_Inr_iff)
      then show ?thesis by (induction rule: list_all2_induct) (simp_all add: buildMatch_published)
    qed
    moreover have "length ms = length (to_matches f)" using ms(1) by (rule res_map_list_length)
    ultimately show ?thesis using ms id by (auto simp: field_published_def)
  qed (use assms id in \<open>auto simp: buildFieldResult_def field_published_def split: if_splits option.splits\<close>)
qed

definition resource_published :: "'q TResourceOutcome \<Rightarrow> FacetResourceResult \<Rightarrow> bool" where
  "resource_published o' r \<longleftrightarrow> frr_provenance r = tr_provenance o' \<and>
     list_all2 (\<lambda>f g. field_published g \<and> ffr_name g = to_name f \<and> ffr_type g = to_type f \<and>
       length (ffr_matches g) = length (to_matches f)) (tr_fields o') (frr_fields r)"

lemma buildResourceResult_published:
  assumes "buildResourceResult lib o' = Inr r"
  shows "resource_published o' r"
proof -
  obtain fs where fs: "res_map_list (buildFieldResult lib) (tr_fields o') = Inr fs" "frr_provenance r = tr_provenance o'" "frr_fields r = fs"
    using assms by (auto simp: buildResourceResult_def Let_def split: if_splits sum.splits)
  show ?thesis unfolding resource_published_def fs(2,3)
    using fs(1) unfolding res_map_list_Inr_iff by (intro conjI refl) (erule list_all2_mono, rule buildFieldResult_published)
qed

definition source_published :: "'q TSourceOutcome \<Rightarrow> FacetSourceResult \<Rightarrow> bool" where
  "source_published o' s \<longleftrightarrow> fsr_id s = ts_sourceID o' \<and> fsr_id s \<noteq> [] \<and>
     (case ts_err o' of
        Some e \<Rightarrow> fsr_state s = ''error'' \<and> fsr_error s = Some (publicResultError e) \<and> fsr_resources s = []
      | None \<Rightarrow> fsr_state s = ''values'' \<and> fsr_error s = None \<and> list_all2 resource_published (ts_resources o') (fsr_resources s))"

lemma buildSourceResult_published:
  assumes "buildSourceResult lib o' = Inr s"
  shows "source_published o' s"
proof (cases "ts_err o'")
  case None
  then obtain fes rs where rs: "res_map_list (buildResourceResult lib) (ts_resources o') = Inr rs"
    "s = \<lparr>fsr_id = ts_sourceID o', fsr_state = ''values'', fsr_fieldErrors = fes, fsr_resources = rs, fsr_aggregates = [], fsr_error = None\<rparr>"
    "ts_sourceID o' \<noteq> []"
    using assms by (auto simp: buildSourceResult_def split: if_splits sum.splits)
  have "list_all2 resource_published (ts_resources o') rs"
    using rs(1) unfolding res_map_list_Inr_iff by (rule list_all2_mono) (rule buildResourceResult_published)
  then show ?thesis using rs None by (simp add: source_published_def)
qed (use assms in \<open>auto simp: buildSourceResult_def source_published_def split: if_splits\<close>)

text \<open>A concrete declaration and extraction for the witnesses.\<close>

definition typed_source :: "string \<Rightarrow> FacetSource" where
  "typed_source t = \<lparr>fs_id = ''pods'', fs_resource = \<lparr>ref_apiVersion = ''v1'', ref_kind = ''Pod''\<rparr>,
     fs_namespaces = None, fs_selector = None,
     fs_fields = [\<lparr>ff_name = ''name'', ff_path = ''{.metadata.name}'', ff_type = ''string'', ff_operators = []\<rparr>,
                  \<lparr>ff_name = ''age'', ff_path = ''{.age}'', ff_type = t, ff_operators = []\<rparr>], fs_aggregations = []\<rparr>"

definition typed_extraction :: SourceOutcome where
  "typed_extraction = \<lparr>xo_sourceID = ''pods'', xo_resources = [\<lparr>ro_provenance =
       \<lparr>prov_apiVersion = ''v1'', prov_kind = ''Pod'', prov_namespace = ''n'', prov_name = ''p'', prov_uid = ''u''\<rparr>,
     ro_fields = [\<lparr>fo_fieldName = ''age'', fo_matches = [JInt 3]\<rparr>, \<lparr>fo_fieldName = ''name'', fo_matches = [JString ''p'']\<rparr>]\<rparr>],
     xo_err = None\<rparr>"

section \<open>Properties\<close>

text \<open>A typed batch yields one outcome per input, in order.  A failed source publishes no resource and no field
  error; a successful one agrees with the declared identity, comes from a successful extraction, reports exactly the
  planning failures, converts each extracted resource with its fields once per name in name order (absent, every match
  converted, or an error because some match does not convert), and stays within the byte ceiling.\<close>

theorem ConvertBatchWithLimit_outcomes:
  assumes "int64_range maxBytes"
  shows "list_all2 (\<lambda>(source, input) out. source_converted lib canonicalSize maxBytes source input out) inputs
    (ConvertBatchWithLimit lib canonicalSize maxBytes c inputs)"
  using convertAll_converted[OF assms, of lib canonicalSize inputs c False]
  by (simp add: ConvertBatchWithLimit_def TypedCompileBatch_def comp_def)

theorem ConvertBatchWithLimit_outcomes_witness:
  "let inputs = [(typed_source ''integer'', typed_extraction)]; outs = ConvertBatchWithLimit sample_lib (\<lambda>_. Some 5) 20 None inputs in
   map ts_err outs = [None] \<and> map (\<lambda>o'. map (\<lambda>r. map to_name (tr_fields r)) (ts_resources o')) outs = [[[''age'', ''name'']]] \<and>
   list_all2 (\<lambda>(source, input) out. source_converted sample_lib (\<lambda>_. Some 5) 20 source input out) inputs outs"
  unfolding Let_def
  apply (intro conjI)
    apply code_simp
   apply code_simp
  apply (rule ConvertBatchWithLimit_outcomes)
  apply code_simp
  done

text \<open>C19: what is published is well typed: sources keep their order and identity, a failed source carries its public
  error and nothing else, and every published field is absent, a non-empty list of matches, or an error, each match
  being null or holding exactly one payload, in the branch of the declared type.\<close>

theorem BuildResult_published:
  assumes "BuildResult lib outcomes = Inr result"
  shows "list_all2 source_published outcomes result"
  using assms unfolding BuildResult_def res_map_list_Inr_iff by (rule list_all2_mono) (rule buildSourceResult_published)

theorem BuildResult_published_witness:
  "\<exists>result. BuildResult sample_lib (ConvertBatchWithLimit sample_lib (\<lambda>_. Some 5) 20 None [(typed_source ''integer'', typed_extraction)]) = Inr result \<and>
     list_all2 source_published
       (ConvertBatchWithLimit sample_lib (\<lambda>_. Some 5) 20 None [(typed_source ''integer'', typed_extraction)]) result"
proof -
  let ?outs = "ConvertBatchWithLimit sample_lib (\<lambda>_. Some 5) 20 None [(typed_source ''integer'', typed_extraction)]"
  have "isl (BuildResult sample_lib ?outs) = False" by code_simp
  then obtain result where r: "BuildResult sample_lib ?outs = Inr result" by (cases "BuildResult sample_lib ?outs") auto
  show ?thesis using BuildResult_published[OF r] r by blast
qed

text \<open>Under a positive byte ceiling, however large, a source with an extracted field that typed planning rejected
  fails as a whole with \<^verbatim>\<open>ValueLimitExceeded\<close>: the rejected field has no type, so the resource cannot be
  projected for accounting.\<close>

theorem undeclared_field_reports_limit:
  assumes "xo_sourceID input = po_sourceID plan" and "xo_err input = None" and "r \<in> set (xo_resources input)"
    and "f \<in> set (ro_fields r)" and "fo_fieldName f \<notin> tf_name ` set (po_fields plan)" and "0 < maxBytes"
  shows "fst (convertSourceContextWithLimit lib canonicalSize None plan input maxBytes) =
    failedTyped (po_sourceID plan) (FromConversion (valueLimitConversionError (po_sourceID plan)))"
proof -
  obtain a where a: "NewAccountant maxBytes ''produced-values'' = Inr a" using assms(6) by (simp add: NewAccountant_def)
  show ?thesis
    using convertResources_undeclared[OF assms(3-5), of lib canonicalSize "po_sourceID plan" a] assms(1,2,6) a
    by (simp add: convertSourceContextWithLimit_def Let_def)
qed

theorem undeclared_field_reports_limit_witness:
  "po_failures (TypedCompileSource (typed_source ''int'')) \<noteq> [] \<and>
   fst (convertSourceContextWithLimit sample_lib (\<lambda>_. Some 5) None (TypedCompileSource (typed_source ''int'')) typed_extraction 1000000) =
     failedTyped ''pods'' (FromConversion (valueLimitConversionError ''pods''))"
proof -
  let ?r = "hd (xo_resources typed_extraction)"
  have p: "po_fields (TypedCompileSource (typed_source ''int'')) = [\<lparr>tf_sourceID = ''pods'', tf_name = ''name'', tf_type = ''string''\<rparr>]"
    "po_failures (TypedCompileSource (typed_source ''int'')) \<noteq> []" by code_simp+
  have "?r \<in> set (xo_resources typed_extraction)" "hd (ro_fields ?r) \<in> set (ro_fields ?r)"
    "fo_fieldName (hd (ro_fields ?r)) \<notin> tf_name ` set (po_fields (TypedCompileSource (typed_source ''int'')))"
    using p by (simp_all add: typed_extraction_def)
  from undeclared_field_reports_limit[OF _ _ this, of 1000000 sample_lib "\<lambda>_. Some 5"] show ?thesis
    using p by (simp add: typed_extraction_def typed_source_def)
qed

end
