(* ===== verification/Operators.thy ===== *)
theory Operators
  imports TypedOutcomes
begin

text \<open>
  Field operators of \<^verbatim>\<open>src/internal/operators\<close>: planning (\<^verbatim>\<open>planner.go\<close>), evaluation of one operator, one
  resource and a batch of sources (\<^verbatim>\<open>evaluator.go\<close>), and the projection into the published result
  (\<^verbatim>\<open>status.go\<close>).  Regular expressions (\<^verbatim>\<open>regexp.Compile\<close>, \<^verbatim>\<open>MatchString\<close>) and the JSON decoder are the
  fields of \<open>OpLib\<close>.  The private causes of errors are left out; every \<^verbatim>\<open>ctx.Err()\<close> consumes one check.
\<close>

section \<open>Types\<close>

record 'r OpLib =
  regexpCompile :: "string \<Rightarrow> 'r option"
  MatchString :: "'r \<Rightarrow> string \<Rightarrow> bool"
  decodeNext :: "string \<Rightarrow> (JValue \<times> string) option"

datatype OpReason =
    OpUnsupportedOperator | OpIncompatibleOperator | OpInvalidArity | OpInvalidOperand | OpInvalidPattern
  | OpInvalidInput | OpOperatorInterrupted | OpValueLimitExceeded

fun op_reason_text :: "OpReason \<Rightarrow> string" where
  "op_reason_text OpUnsupportedOperator = ''unsupported-operator''"
| "op_reason_text OpIncompatibleOperator = ''incompatible-operator''"
| "op_reason_text OpInvalidArity = ''invalid-arity''"
| "op_reason_text OpInvalidOperand = ''invalid-operand''"
| "op_reason_text OpInvalidPattern = ''invalid-pattern''"
| "op_reason_text OpInvalidInput = ''invalid-input''"
| "op_reason_text OpOperatorInterrupted = ''operator-interrupted''"
| "op_reason_text OpValueLimitExceeded = ''ValueLimitExceeded''"

record OperatorError =
  oe_sourceID :: string
  oe_fieldName :: string
  oe_fieldIndex :: int
  oe_operatorIndex :: int
  oe_valueIndex :: int
  oe_operatorName :: string
  oe_provenance :: "FacetResourceProvenance option"
  oe_reason :: OpReason
  oe_message :: string

definition NewOperatorError ::
  "string \<Rightarrow> string \<Rightarrow> int \<Rightarrow> string \<Rightarrow> FacetResourceProvenance option \<Rightarrow> OpReason \<Rightarrow> string \<Rightarrow> OperatorError" where
  "NewOperatorError sid fieldName operatorIndex operatorName prov reason msg =
    \<lparr>oe_sourceID = sid, oe_fieldName = fieldName, oe_fieldIndex = - 1, oe_operatorIndex = operatorIndex, oe_valueIndex = - 1,
     oe_operatorName = operatorName, oe_provenance = prov, oe_reason = reason, oe_message = msg\<rparr>"

datatype ResourceState = ResourceAccepted | ResourceRejected | ResourceUnsuccessful

record ('q, 'r) OperatorPlan =
  opl_index :: int
  opl_kind :: string
  opl_operand :: "'q Match option"
  opl_operands :: "'q Match list"
  opl_pattern :: "'r option"

record ('q, 'r) OFieldPlan =
  ofp_sourceID :: string
  ofp_name :: string
  ofp_typeName :: string
  ofp_operators :: "('q, 'r) OperatorPlan list"

record ('q, 'r) OPlanOutcome =
  opo_sourceID :: string
  opo_fields :: "('q, 'r) OFieldPlan list"
  opo_failures :: "OperatorError list"

definition OPlan_Valid :: "('q, 'r) OPlanOutcome \<Rightarrow> bool" where
  "OPlan_Valid o' \<longleftrightarrow> opo_sourceID o' \<noteq> [] \<and> opo_failures o' = []"

record 'q OResourceOutcome =
  or_state :: ResourceState
  or_provenance :: FacetResourceProvenance
  or_fields :: "'q TFieldOutcome list"
  or_failure :: "OperatorError option"

datatype op_source_error = FromTyped typed_source_error | FromOperator OperatorError

record 'q OSourceOutcome =
  os_sourceID :: string
  os_resources :: "'q OResourceOutcome list"
  os_fieldErrors :: "OperatorError list"
  os_err :: "op_source_error option"

definition failedOperator :: "string \<Rightarrow> op_source_error \<Rightarrow> 'q OSourceOutcome" where
  "failedOperator sid e = \<lparr>os_sourceID = sid, os_resources = [], os_fieldErrors = [], os_err = Some e\<rparr>"

definition NewSourceError :: "string \<Rightarrow> OpReason \<Rightarrow> string \<Rightarrow> 'q OSourceOutcome" where
  "NewSourceError sid reason msg = failedOperator sid (FromOperator (NewOperatorError sid [] (- 1) [] None reason msg))"

section \<open>Planning\<close>

abbreviation planningError :: "string \<Rightarrow> string \<Rightarrow> int \<Rightarrow> string \<Rightarrow> OpReason \<Rightarrow> string \<Rightarrow> OperatorError" where
  "planningError sid fieldName i name reason msg \<equiv> NewOperatorError sid fieldName i name None reason msg"

definition operandPlanningError :: "string \<Rightarrow> string \<Rightarrow> int \<Rightarrow> int \<Rightarrow> string \<Rightarrow> OpReason \<Rightarrow> string \<Rightarrow> OperatorError" where
  "operandPlanningError sid fieldName operatorIndex valueIndex name reason msg =
     (planningError sid fieldName operatorIndex name reason msg)\<lparr>oe_valueIndex := valueIndex\<rparr>"

definition equality_operators :: "string list" where "equality_operators = [''eq'', ''ne'', ''in'', ''notIn'']"
definition order_operators :: "string list" where "order_operators = [''gt'', ''gte'', ''lt'', ''lte'']"
definition string_operators :: "string list" where "string_operators = [''contains'', ''startsWith'', ''endsWith'', ''matches'']"
definition presence_operators :: "string list" where "presence_operators = [''exists'', ''notExists'', ''default'', ''coalesce'']"

definition supportedOperator :: "string \<Rightarrow> bool" where
  "supportedOperator name \<longleftrightarrow> name \<in> set [''eq'', ''ne'', ''gt'', ''gte'', ''lt'', ''lte'', ''contains'', ''startsWith'', ''endsWith'',
     ''matches'', ''exists'', ''notExists'', ''in'', ''notIn'', ''default'', ''coalesce'']"

definition scalarEqualityType :: "string \<Rightarrow> bool" where
  "scalarEqualityType t \<longleftrightarrow> t \<in> set [''string'', ''integer'', ''number'', ''boolean'', ''timestamp'', ''duration'', ''quantity'']"

definition orderableType :: "string \<Rightarrow> bool" where
  "orderableType t \<longleftrightarrow> t \<in> set [''integer'', ''number'', ''timestamp'', ''duration'', ''quantity'']"

definition compatibleOperator :: "string \<Rightarrow> string \<Rightarrow> bool" where
  "compatibleOperator name t =
    (if name \<in> set equality_operators then scalarEqualityType t
     else if name \<in> set order_operators then orderableType t
     else if name \<in> set string_operators then t = ''string''
     else if name \<in> set presence_operators then IsSupportedType t
     else False)"

definition requiresSingleValue :: "string \<Rightarrow> bool" where
  "requiresSingleValue name \<longleftrightarrow> name \<in> set [''eq'', ''ne'', ''gt'', ''gte'', ''lt'', ''lte'', ''contains'', ''startsWith'', ''endsWith'',
     ''matches'', ''default'']"

definition requiresManyValues :: "string \<Rightarrow> bool" where
  "requiresManyValues name \<longleftrightarrow> name = ''in'' \<or> name = ''notIn''"

text \<open>The operand branches that are present, each with its type (\<^verbatim>\<open>operandBranchType\<close>) and native value.\<close>

definition operand_branches :: "FacetOperatorOperand \<Rightarrow> (string \<times> JValue) list" where
  "operand_branches operand =
    concat [case op_stringValue operand of None \<Rightarrow> [] | Some s \<Rightarrow> [(''string'', JString s)],
      case op_integerValue operand of None \<Rightarrow> [] | Some i \<Rightarrow> [(''integer'', JInt i)],
      case op_numberValue operand of None \<Rightarrow> [] | Some s \<Rightarrow> [(''number'', JString s)],
      case op_booleanValue operand of None \<Rightarrow> [] | Some b \<Rightarrow> [(''boolean'', JBool b)],
      case op_timestampValue operand of None \<Rightarrow> [] | Some s \<Rightarrow> [(''timestamp'', JString s)],
      case op_durationValue operand of None \<Rightarrow> [] | Some s \<Rightarrow> [(''duration'', JString s)],
      case op_quantityValue operand of None \<Rightarrow> [] | Some s \<Rightarrow> [(''quantity'', JString s)],
      case op_objectValue operand of None \<Rightarrow> [] | Some s \<Rightarrow> [(''object'', JString s)],
      case op_listValue operand of None \<Rightarrow> [] | Some s \<Rightarrow> [(''list'', JString s)]]"

text \<open>One JSON value and nothing but white space after it (the second \<^verbatim>\<open>Decode\<close> reports \<^verbatim>\<open>io.EOF\<close>).\<close>

definition json_blank :: "string \<Rightarrow> bool" where
  "json_blank s \<longleftrightarrow> list_all (\<lambda>c. c \<in> set [CHR '' '', CHR 0x09, CHR 0x0A, CHR 0x0D]) s"

definition decodeJSONOperand :: "'r OpLib \<Rightarrow> string \<Rightarrow> bool \<Rightarrow> JValue option" where
  "decodeJSONOperand rx s object =
    (case decodeNext rx s of
       None \<Rightarrow> None
     | Some (v, rest) \<Rightarrow>
        if \<not> json_blank rest then None
        else (case v of
                JObject _ \<Rightarrow> if object then Some v else None
              | JArray _ \<Rightarrow> if object then None else Some v
              | _ \<Rightarrow> None))"

definition decodeOperand ::
  "'q TypedLib \<Rightarrow> 'r OpLib \<Rightarrow> string \<Rightarrow> FacetField \<Rightarrow> int \<Rightarrow> int \<Rightarrow> string \<Rightarrow> FacetOperatorOperand \<Rightarrow> (OperatorError, 'q Match) res" where
  "decodeOperand lib rx sid field index valueIndex name operand =
    (let failed = (\<lambda>msg. Inl (operandPlanningError sid (ff_name field) index valueIndex name OpInvalidOperand msg)) in
     if op_state operand \<noteq> ''value'' then failed ''operand state is invalid''
     else case operand_branches operand of
       [] \<Rightarrow> failed ''operand must contain one typed branch''
     | _ # _ # _ \<Rightarrow> failed ''operand must contain exactly one typed branch''
     | [(t, native)] \<Rightarrow>
         if t \<noteq> ff_type field then failed ''operand branch does not match the field type''
         else
           (case (if t = ''object'' \<or> t = ''list''
                  then (case native of JString s \<Rightarrow> decodeJSONOperand rx s (t = ''object'') | _ \<Rightarrow> None)
                  else Some native) of
              None \<Rightarrow> failed ''composite operand is invalid''
            | Some decoded \<Rightarrow>
               (case ConvertConfiguredMatch lib sid (ff_name field) (ff_type field) decoded of
                  Inl _ \<Rightarrow> failed ''operand cannot be converted to the field type''
                | Inr m \<Rightarrow> Inr m)))"

definition StringValue :: "'q Match \<Rightarrow> string option" where
  "StringValue m = (case m_value m of Some (VString s) \<Rightarrow> Some s | _ \<Rightarrow> None)"

definition planOperator ::
  "'q TypedLib \<Rightarrow> 'r OpLib \<Rightarrow> string \<Rightarrow> FacetField \<Rightarrow> nat \<Rightarrow> FacetOperator \<Rightarrow> (OperatorError, ('q, 'r) OperatorPlan) res" where
  "planOperator lib rx sid field index d =
    (let name = fo_operator d; i = int index;
         failed = (\<lambda>reason msg. Inl (planningError sid (ff_name field) i name reason msg));
         planned = (\<lambda>operand operands pattern.
           \<lparr>opl_index = i, opl_kind = name, opl_operand = operand, opl_operands = operands, opl_pattern = pattern\<rparr>) in
     if \<not> supportedOperator name then failed OpUnsupportedOperator ''operator is not supported''
     else if ff_type field = [] then failed OpInvalidOperand ''field type is required before operand preparation''
     else if \<not> compatibleOperator name (ff_type field) then
       failed OpIncompatibleOperator ''operator is incompatible with field type''
     else if requiresSingleValue name then
       (case fo_value d of
          None \<Rightarrow> failed OpInvalidArity ''operator requires exactly one value operand''
        | Some v \<Rightarrow>
           if fo_values d \<noteq> [] then failed OpInvalidArity ''operator requires exactly one value operand''
           else
             (case decodeOperand lib rx sid field i (- 1) name v of
                Inl e \<Rightarrow> Inl e
              | Inr operand \<Rightarrow>
                 if name = ''matches'' then
                   (case StringValue operand of
                      None \<Rightarrow> failed OpInvalidOperand ''operator operand does not match the field type''
                    | Some pattern \<Rightarrow>
                       (case regexpCompile rx pattern of
                          None \<Rightarrow> failed OpInvalidPattern ''regular expression is invalid''
                        | Some compiled \<Rightarrow> Inr (planned (Some operand) [] (Some compiled))))
                 else Inr (planned (Some operand) [] None)))
     else if requiresManyValues name then
       (if fo_value d \<noteq> None \<or> fo_values d = [] then
          failed OpInvalidArity ''operator requires a non-empty values operand list''
        else
          (case res_map_list (\<lambda>(v, k). decodeOperand lib rx sid field i (int k) name v) (zip (fo_values d) [0..<length (fo_values d)]) of
             Inl e \<Rightarrow> Inl e
           | Inr operands \<Rightarrow> Inr (planned None operands None)))
     else if fo_value d \<noteq> None \<or> fo_values d \<noteq> [] then failed OpInvalidArity ''operator does not accept operands''
     else Inr (planned None [] None))"

text \<open>The operators of one field: the plans that succeeded and the failures, in declaration order.\<close>

fun planOperators ::
  "'q TypedLib \<Rightarrow> 'r OpLib \<Rightarrow> string \<Rightarrow> FacetField \<Rightarrow> nat \<Rightarrow> FacetOperator list \<Rightarrow> ('q, 'r) OperatorPlan list \<times> OperatorError list" where
  "planOperators lib rx sid field i [] = ([], [])"
| "planOperators lib rx sid field i (d # ds) =
    (case planOperators lib rx sid field (Suc i) ds of
       (plans, failures) \<Rightarrow>
         (case planOperator lib rx sid field i d of
            Inl e \<Rightarrow> (plans, e # failures)
          | Inr p \<Rightarrow> (p # plans, failures)))"

definition atField :: "nat \<Rightarrow> OperatorError \<Rightarrow> OperatorError" where
  "atField i e = e\<lparr>oe_fieldIndex := int i\<rparr>"

text \<open>The identity and type failures of a field.  A field whose type is unsupported is left without its index.\<close>

definition fieldFailures :: "string \<Rightarrow> FacetField \<Rightarrow> OperatorError list" where
  "fieldFailures sid f =
    (if ff_name f = [] then [planningError sid (ff_name f) (- 1) [] OpInvalidInput ''field identity is invalid''] else []) @
    (if ff_type f = [] \<and> ff_operators f = [] then [planningError sid (ff_name f) (- 1) [] OpInvalidOperand ''field type is required''] else []) @
    (if ff_type f \<noteq> [] \<and> \<not> IsSupportedType (ff_type f)
     then [planningError sid (ff_name f) (- 1) [] OpIncompatibleOperator ''field type is unsupported''] else [])"

fun opCompileFields ::
  "'q TypedLib \<Rightarrow> 'r OpLib \<Rightarrow> string \<Rightarrow> string list \<Rightarrow> (FacetField \<times> nat) list \<Rightarrow> ('q, 'r) OFieldPlan list \<times> OperatorError list" where
  "opCompileFields lib rx sid seen [] = ([], [])"
| "opCompileFields lib rx sid seen ((f, i) # rest) =
    (if ff_name f \<in> set seen then
       (case opCompileFields lib rx sid seen rest of
          (plans, failures) \<Rightarrow>
            (plans, atField i (planningError sid (ff_name f) (- 1) [] OpInvalidInput ''field identity is duplicated'') # failures))
     else
       (case opCompileFields lib rx sid (ff_name f # seen) rest of
          (plans, failures) \<Rightarrow>
            if ff_type f \<noteq> [] \<and> \<not> IsSupportedType (ff_type f) then (plans, fieldFailures sid f @ failures)
            else
              (case planOperators lib rx sid f 0 (ff_operators f) of
                 (ops, opFailures) \<Rightarrow>
                   (let own = map (atField i) (fieldFailures sid f @ opFailures) in
                    (if own = []
                     then \<lparr>ofp_sourceID = sid, ofp_name = ff_name f, ofp_typeName = ff_type f, ofp_operators = ops\<rparr> # plans
                     else plans,
                     own @ failures)))))"

definition OpCompileSource :: "'q TypedLib \<Rightarrow> 'r OpLib \<Rightarrow> FacetSource \<Rightarrow> ('q, 'r) OPlanOutcome" where
  "OpCompileSource lib rx source =
    (case opCompileFields lib rx (fs_id source) []
        (sort_by (\<lambda>a b. ff_name (fst a) < ff_name (fst b)) (zip (fs_fields source) [0..<length (fs_fields source)])) of
       (plans, failures) \<Rightarrow>
         \<lparr>opo_sourceID = fs_id source, opo_fields = plans,
          opo_failures = (if fs_id source = []
            then [planningError (fs_id source) [] (- 1) [] OpInvalidInput ''source identity is invalid''] else []) @ failures\<rparr>)"

definition OpCompileBatch :: "'q TypedLib \<Rightarrow> 'r OpLib \<Rightarrow> FacetSource list \<Rightarrow> ('q, 'r) OPlanOutcome list" where
  "OpCompileBatch lib rx sources = map (OpCompileSource lib rx) sources"

section \<open>One operator\<close>

definition evaluationError :: "('q, 'r) OFieldPlan \<Rightarrow> ('q, 'r) OperatorPlan \<Rightarrow> FacetResourceProvenance \<Rightarrow> OpReason \<Rightarrow> string \<Rightarrow> OperatorError" where
  "evaluationError fp op prov reason msg =
     NewOperatorError (ofp_sourceID fp) (ofp_name fp) (opl_index op) (opl_kind op) (Some prov) reason msg"

definition comparison_holds :: "string \<Rightarrow> int \<Rightarrow> bool" where
  "comparison_holds kind c =
    (if kind = ''gt'' then c > 0 else if kind = ''gte'' then c \<ge> 0 else if kind = ''lt'' then c < 0
     else if kind = ''lte'' then c \<le> 0 else False)"

text \<open>The loop of \<^verbatim>\<open>comparePredicate\<close>; \<open>nonNull\<close> tells whether a non-null match was seen.  \<open>None\<close> is the
  comparison failure.\<close>

fun compareLoop :: "'q TypedLib \<Rightarrow> string \<Rightarrow> 'q Match \<Rightarrow> bool \<Rightarrow> 'q Match list \<Rightarrow> bool option" where
  "compareLoop lib kind operand nonNull [] = Some (if kind = ''ne'' then nonNull else False)"
| "compareLoop lib kind operand nonNull (m # ms) =
    (if m_value m = None then compareLoop lib kind operand nonNull ms
     else if kind = ''eq'' \<or> kind = ''ne'' then
       (case EqualMatches lib m operand of
          Inl _ \<Rightarrow> None
        | Inr decision \<Rightarrow>
           if decision then Some (kind \<noteq> ''ne'') else compareLoop lib kind operand True ms)
     else
       (case CompareMatches lib m operand of
          Inl _ \<Rightarrow> None
        | Inr c \<Rightarrow> if comparison_holds kind c then Some True else compareLoop lib kind operand True ms))"

definition comparePredicate ::
  "'q TypedLib \<Rightarrow> 'q TFieldOutcome \<Rightarrow> 'q Match \<Rightarrow> ('q, 'r) OFieldPlan \<Rightarrow> ('q, 'r) OperatorPlan \<Rightarrow> FacetResourceProvenance \<Rightarrow>
   (OperatorError, bool) res" where
  "comparePredicate lib field operand fp op prov =
    (case compareLoop lib (opl_kind op) operand False (to_matches field) of
       None \<Rightarrow> Inl (evaluationError fp op prov OpInvalidInput ''typed comparison is invalid'')
     | Some b \<Rightarrow> Inr b)"

fun equalsAny :: "'q TypedLib \<Rightarrow> 'q Match \<Rightarrow> 'q Match list \<Rightarrow> bool option" where
  "equalsAny lib m [] = Some False"
| "equalsAny lib m (x # xs) =
    (case EqualMatches lib m x of Inl _ \<Rightarrow> None | Inr e \<Rightarrow> if e then Some True else equalsAny lib m xs)"

fun membershipLoop :: "'q TypedLib \<Rightarrow> string \<Rightarrow> 'q Match list \<Rightarrow> bool \<Rightarrow> 'q Match list \<Rightarrow> bool option" where
  "membershipLoop lib kind operands nonNull [] = Some (if kind = ''notIn'' then nonNull else False)"
| "membershipLoop lib kind operands nonNull (m # ms) =
    (if m_value m = None then membershipLoop lib kind operands nonNull ms
     else case equalsAny lib m operands of
       None \<Rightarrow> None
     | Some equal \<Rightarrow>
        if kind = ''in'' \<and> equal then Some True
        else if kind = ''notIn'' \<and> equal then Some False
        else membershipLoop lib kind operands True ms)"

definition membershipPredicate ::
  "'q TypedLib \<Rightarrow> 'q TFieldOutcome \<Rightarrow> 'q Match list \<Rightarrow> ('q, 'r) OFieldPlan \<Rightarrow> ('q, 'r) OperatorPlan \<Rightarrow> FacetResourceProvenance \<Rightarrow>
   (OperatorError, bool) res" where
  "membershipPredicate lib field operands fp op prov =
    (case membershipLoop lib (opl_kind op) operands False (to_matches field) of
       None \<Rightarrow> Inl (evaluationError fp op prov OpInvalidInput ''typed membership comparison is invalid'')
     | Some b \<Rightarrow> Inr b)"

definition string_test :: "'r OpLib \<Rightarrow> ('q, 'r) OperatorPlan \<Rightarrow> string \<Rightarrow> string \<Rightarrow> bool" where
  "string_test rx op s v =
    (if opl_kind op = ''contains'' then str_contains v s
     else if opl_kind op = ''startsWith'' then has_prefix v s
     else if opl_kind op = ''endsWith'' then has_suffix v s
     else if opl_kind op = ''matches'' then (case opl_pattern op of None \<Rightarrow> False | Some p \<Rightarrow> MatchString rx p v)
     else False)"

definition replaced ::
  "'q TFieldOutcome \<Rightarrow> 'q Match list \<Rightarrow> ('q, 'r) OFieldPlan \<Rightarrow> ('q, 'r) OperatorPlan \<Rightarrow> FacetResourceProvenance \<Rightarrow>
   (OperatorError, 'q TFieldOutcome \<times> bool) res" where
  "replaced field ms fp op prov =
    (case ReplaceFieldMatches field ms of
       Inl _ \<Rightarrow> Inl (evaluationError fp op prov OpInvalidInput ''operator transformation could not replace the field'')
     | Inr updated \<Rightarrow> Inr (updated, True))"

definition applyOperator ::
  "'q TypedLib \<Rightarrow> 'r OpLib \<Rightarrow> 'q TFieldOutcome \<Rightarrow> ('q, 'r) OFieldPlan \<Rightarrow> ('q, 'r) OperatorPlan \<Rightarrow> FacetResourceProvenance \<Rightarrow>
   (OperatorError, 'q TFieldOutcome \<times> bool) res" where
  "applyOperator lib rx field fp op prov =
    (let kind = opl_kind op; ms = to_matches field;
         missing = Inl (evaluationError fp op prov OpInvalidInput ''operator plan has no configured operand'') in
     if kind = ''default'' then
       (case opl_operand op of
          None \<Rightarrow> missing
        | Some fallback \<Rightarrow>
           replaced field
             (if to_state field = FieldStateAbsent then [fallback]
              else map (\<lambda>m. if m_value m = None then fallback else m) ms) fp op prov)
     else if kind = ''coalesce'' then
       (if to_state field = FieldStateAbsent then Inr (field, True)
        else (case find_first (\<lambda>m. m_value m \<noteq> None) ms of
                Some m \<Rightarrow> replaced field [m] fp op prov
              | None \<Rightarrow>
                 (case NullMatch lib (ofp_sourceID fp) (ofp_name fp) (ofp_typeName fp) of
                    Inl _ \<Rightarrow> Inl (evaluationError fp op prov OpInvalidInput ''operator transformation could not create a null match'')
                  | Inr null \<Rightarrow> replaced field [null] fp op prov)))
     else if kind = ''exists'' then Inr (field, ms \<noteq> [])
     else if kind = ''notExists'' then Inr (field, ms = [])
     else if kind \<in> set [''eq'', ''ne'', ''gt'', ''gte'', ''lt'', ''lte''] then
       (case opl_operand op of
          None \<Rightarrow> missing
        | Some operand \<Rightarrow> (case comparePredicate lib field operand fp op prov of Inl e \<Rightarrow> Inl e | Inr b \<Rightarrow> Inr (field, b)))
     else if kind \<in> set string_operators then
       (case opl_operand op of
          None \<Rightarrow> missing
        | Some operand \<Rightarrow>
           (let s = (case StringValue operand of Some s \<Rightarrow> s | None \<Rightarrow> []) in
            Inr (field, list_ex (\<lambda>m. case StringValue m of None \<Rightarrow> False | Some v \<Rightarrow> string_test rx op s v) ms)))
     else if kind = ''in'' \<or> kind = ''notIn'' then
       (case membershipPredicate lib field (opl_operands op) fp op prov of Inl e \<Rightarrow> Inl e | Inr b \<Rightarrow> Inr (field, b))
     else Inl (evaluationError fp op prov OpUnsupportedOperator ''operator is not supported''))"

section \<open>One resource\<close>

definition firstOperator :: "('q, 'r) OFieldPlan \<Rightarrow> int" where
  "firstOperator fp = (case ofp_operators fp of [] \<Rightarrow> - 1 | op # _ \<Rightarrow> opl_index op)"

definition firstOperatorName :: "('q, 'r) OFieldPlan \<Rightarrow> string" where
  "firstOperatorName fp = (case ofp_operators fp of [] \<Rightarrow> [] | op # _ \<Rightarrow> opl_kind op)"

definition unsuccessfulResource :: "FacetResourceProvenance \<Rightarrow> OperatorError \<Rightarrow> 'q OResourceOutcome" where
  "unsuccessfulResource prov e = \<lparr>or_state = ResourceUnsuccessful, or_provenance = prov, or_fields = [], or_failure = Some e\<rparr>"

definition interruptedOperatorError :: "string \<Rightarrow> string \<Rightarrow> int \<Rightarrow> string \<Rightarrow> FacetResourceProvenance option \<Rightarrow> OperatorError" where
  "interruptedOperatorError sid fieldName i name prov =
     NewOperatorError sid fieldName i name prov OpOperatorInterrupted ''operator evaluation interrupted''"

text \<open>How the walk over fields and operators stops before the end.\<close>

datatype op_stop = OpStopInterrupted OperatorError | OpStopFailed OperatorError | OpStopRejected

fun applyOperators ::
  "'q TypedLib \<Rightarrow> 'r OpLib \<Rightarrow> string \<Rightarrow> ('q, 'r) OFieldPlan \<Rightarrow> FacetResourceProvenance \<Rightarrow> ctx \<Rightarrow> 'q TFieldOutcome \<Rightarrow>
   ('q, 'r) OperatorPlan list \<Rightarrow> (op_stop, 'q TFieldOutcome) res \<times> ctx" where
  "applyOperators lib rx sid fp prov c field [] = (Inr field, c)"
| "applyOperators lib rx sid fp prov c field (op # ops) =
    (case ctx_err c of
       (True, c1) \<Rightarrow> (Inl (OpStopInterrupted (interruptedOperatorError sid (ofp_name fp) (opl_index op) (opl_kind op) (Some prov))), c1)
     | (False, c1) \<Rightarrow>
        (case applyOperator lib rx field fp op prov of
           Inl e \<Rightarrow> (Inl (OpStopFailed e), c1)
         | Inr (updated, accepted) \<Rightarrow>
            if \<not> accepted then (Inl OpStopRejected, c1) else applyOperators lib rx sid fp prov c1 updated ops))"

text \<open>The position of a field, recorded in \<^verbatim>\<open>byName\<close> before the walk.\<close>

fun field_index :: "string \<Rightarrow> string list \<Rightarrow> nat option" where
  "field_index name [] = None"
| "field_index name (x # xs) = (if x = name then Some 0 else map_option Suc (field_index name xs))"

fun first_duplicate :: "string list \<Rightarrow> string list \<Rightarrow> string option" where
  "first_duplicate seen [] = None"
| "first_duplicate seen (x # xs) = (if x \<in> set seen then Some x else first_duplicate (x # seen) xs)"

fun opEvaluateFields ::
  "'q TypedLib \<Rightarrow> 'r OpLib \<Rightarrow> string \<Rightarrow> FacetResourceProvenance \<Rightarrow> string list \<Rightarrow> ctx \<Rightarrow> 'q TFieldOutcome list \<Rightarrow>
   ('q, 'r) OFieldPlan list \<Rightarrow> (op_stop, 'q TFieldOutcome list) res \<times> ctx" where
  "opEvaluateFields lib rx sid prov names c working [] = (Inr working, c)"
| "opEvaluateFields lib rx sid prov names c working (fp # fps) =
    (let failed = (\<lambda>msg. Inl (OpStopFailed (NewOperatorError sid (ofp_name fp) (firstOperator fp) (firstOperatorName fp)
           (Some prov) OpInvalidInput msg))) in
     case ctx_err c of
       (True, c1) \<Rightarrow>
         (Inl (OpStopInterrupted (interruptedOperatorError sid (ofp_name fp) (firstOperator fp) (firstOperatorName fp) (Some prov))), c1)
     | (False, c1) \<Rightarrow>
        (case field_index (ofp_name fp) names of
           None \<Rightarrow> (failed ''typed field is missing from the resource'', c1)
         | Some k \<Rightarrow>
            (let field = working ! k in
             if to_type field \<noteq> ofp_typeName fp then (failed ''typed field type does not match the operator plan'', c1)
             else if to_state field = FieldStateError \<and> ofp_operators fp \<noteq> [] then
               (failed ''operator field outcome is unsuccessful'', c1)
             else
               (case applyOperators lib rx sid fp prov c1 field (ofp_operators fp) of
                  (Inl s, c2) \<Rightarrow> (Inl s, c2)
                | (Inr updated, c2) \<Rightarrow> opEvaluateFields lib rx sid prov names c2 (working[k := updated]) fps))))"

text \<open>\<open>Inl\<close> is the interruption, which returns no outcome; any other failure is part of the unsuccessful outcome.\<close>

definition evaluateResource ::
  "'q TypedLib \<Rightarrow> 'r OpLib \<Rightarrow> ctx \<Rightarrow> string \<Rightarrow> ('q, 'r) OFieldPlan list \<Rightarrow> 'q TResourceOutcome \<Rightarrow>
   (OperatorError, 'q OResourceOutcome) res \<times> ctx" where
  "evaluateResource lib rx c sid plans input =
    (let prov = tr_provenance input; working = tr_fields input; names = map to_name working in
     if prov_apiVersion prov = [] \<or> prov_kind prov = [] \<or> prov_name prov = [] \<or> prov_uid prov = [] then
       (Inr (unsuccessfulResource prov (NewOperatorError sid [] (- 1) [] (Some prov) OpInvalidInput ''resource provenance is invalid'')), c)
     else case first_duplicate [] names of
       Some name \<Rightarrow>
         (Inr (unsuccessfulResource prov (NewOperatorError sid name (- 1) [] (Some prov) OpInvalidInput
            ''typed field identity is duplicated'')), c)
     | None \<Rightarrow>
        (case opEvaluateFields lib rx sid prov names c working plans of
           (Inl (OpStopInterrupted e), c1) \<Rightarrow> (Inl e, c1)
         | (Inl (OpStopFailed e), c1) \<Rightarrow> (Inr (unsuccessfulResource prov e), c1)
         | (Inl OpStopRejected, c1) \<Rightarrow>
             (Inr \<lparr>or_state = ResourceRejected, or_provenance = prov, or_fields = [], or_failure = None\<rparr>, c1)
         | (Inr fields', c1) \<Rightarrow>
             (Inr \<lparr>or_state = ResourceAccepted, or_provenance = prov, or_fields = fields', or_failure = None\<rparr>, c1)))"

section \<open>Published result\<close>

definition publicOperatorResultError :: "op_source_error \<Rightarrow> FacetResultError" where
  "publicOperatorResultError e = (case e of
      FromOperator oe \<Rightarrow> \<lparr>fre_reason = op_reason_text (oe_reason oe), fre_message = oe_message oe\<rparr>
    | FromTyped te \<Rightarrow> publicResultError te)"

text \<open>The public result of one resource, \<open>Inr None\<close> for a rejected one.\<close>

definition projectOperatorResource :: "'q TypedLib \<Rightarrow> 'q OResourceOutcome \<Rightarrow> (string, FacetResourceResult option) res" where
  "projectOperatorResource lib r = (case or_state r of
      ResourceRejected \<Rightarrow> Inr None
    | ResourceAccepted \<Rightarrow>
        (case ProjectResourceResult lib (or_provenance r) (or_fields r) of Inl e \<Rightarrow> Inl e | Inr p \<Rightarrow> Inr (Some p))
    | ResourceUnsuccessful \<Rightarrow>
        (case or_failure r of
           None \<Rightarrow> Inl ''unsuccessful operator resource has no failure''
         | Some e \<Rightarrow>
            (case ProjectResourceResult lib (or_provenance r) [] of
               Inl msg \<Rightarrow> Inl msg
             | Inr p \<Rightarrow> Inr (Some (p\<lparr>frr_error := Some (publicOperatorResultError (FromOperator e))\<rparr>)))))"

definition opFieldErrors :: "OperatorError list \<Rightarrow> (string, FacetFieldError list) res" where
  "opFieldErrors = res_map_list (\<lambda>e.
     if oe_fieldName e = [] then Inl ''operator planning failure is incomplete''
     else Inr \<lparr>ffe_name = oe_fieldName e, ffe_reason = op_reason_text (oe_reason e), ffe_message = oe_message e\<rparr>)"

definition opSourceResult :: "'q TypedLib \<Rightarrow> 'q OSourceOutcome \<Rightarrow> (string, FacetSourceResult) res" where
  "opSourceResult lib s =
    (if os_sourceID s = [] then Inl ''operator result source identity is empty''
     else case os_err s of
       Some e \<Rightarrow>
         if os_resources s \<noteq> [] \<or> os_fieldErrors s \<noteq> [] then Inl ''operator source error contains successful payloads''
         else Inr \<lparr>fsr_id = os_sourceID s, fsr_state = ''error'', fsr_fieldErrors = [], fsr_resources = [], fsr_aggregates = [],
                   fsr_error = Some (publicOperatorResultError e)\<rparr>
     | None \<Rightarrow>
        (case opFieldErrors (os_fieldErrors s) of
           Inl e \<Rightarrow> Inl e
         | Inr fes \<Rightarrow>
            (case res_map_list (projectOperatorResource lib) (os_resources s) of
               Inl e \<Rightarrow> Inl e
             | Inr rs \<Rightarrow> Inr \<lparr>fsr_id = os_sourceID s, fsr_state = ''values'', fsr_fieldErrors = fes,
                             fsr_resources = List.map_filter id rs, fsr_aggregates = [], fsr_error = None\<rparr>)))"

definition OpBuildResult :: "'q TypedLib \<Rightarrow> 'q OSourceOutcome list \<Rightarrow> (string, FacetResult) res" where
  "OpBuildResult lib outcomes = res_map_list (opSourceResult lib) outcomes"

section \<open>Sources and batches\<close>

text \<open>\<open>None\<close> is the failure to account; the accountant is absent without a ceiling.\<close>

definition accountOperatorResource ::
  "'q TypedLib \<Rightarrow> (FacetResourceResult \<Rightarrow> nat option) \<Rightarrow> Accountant option \<Rightarrow> 'q OResourceOutcome \<Rightarrow> Accountant option option" where
  "accountOperatorResource lib canonicalSize acc r = (case acc of
      None \<Rightarrow> Some None
    | Some a \<Rightarrow>
       if or_state r = ResourceRejected then Some (Some a)
       else
         (case (if or_state r = ResourceAccepted then ProjectResourceResult lib (or_provenance r) (or_fields r)
                else (case ProjectResourceResult lib (or_provenance r) [] of
                        Inl e \<Rightarrow> Inl e
                      | Inr p \<Rightarrow> Inr (p\<lparr>frr_error := map_option (\<lambda>e. publicOperatorResultError (FromOperator e)) (or_failure r)\<rparr>))) of
            Inl _ \<Rightarrow> None
          | Inr projected \<Rightarrow> (case Add canonicalSize a projected of Inl _ \<Rightarrow> None | Inr a' \<Rightarrow> Some (Some a'))))"

datatype op_source_stop = SourceInterrupted | SourceLimit

fun evaluateResources ::
  "'q TypedLib \<Rightarrow> 'r OpLib \<Rightarrow> (FacetResourceResult \<Rightarrow> nat option) \<Rightarrow> string \<Rightarrow> ('q, 'r) OFieldPlan list \<Rightarrow> ctx \<Rightarrow> Accountant option \<Rightarrow>
   'q TResourceOutcome list \<Rightarrow> (op_source_stop, 'q OResourceOutcome list) res \<times> ctx" where
  "evaluateResources lib rx canonicalSize sid plans c acc [] = (Inr [], c)"
| "evaluateResources lib rx canonicalSize sid plans c acc (r # rs) =
    (case ctx_err c of
       (True, c1) \<Rightarrow> (Inl SourceInterrupted, c1)
     | (False, c1) \<Rightarrow>
        (case evaluateResource lib rx c1 sid plans r of
           (Inl e, c2) \<Rightarrow> (Inl SourceInterrupted, c2)
         | (Inr out, c2) \<Rightarrow>
            (case accountOperatorResource lib canonicalSize acc out of
               None \<Rightarrow> (Inl SourceLimit, c2)
             | Some acc' \<Rightarrow>
                (case evaluateResources lib rx canonicalSize sid plans c2 acc' rs of
                   (Inl s, c3) \<Rightarrow> (Inl s, c3)
                 | (Inr outs, c3) \<Rightarrow> (Inr (out # outs), c3)))))"

definition interruptedSourceOutcome :: "string \<Rightarrow> 'q OSourceOutcome" where
  "interruptedSourceOutcome sid = failedOperator sid (FromOperator
     (NewOperatorError sid [] (- 1) [] None OpOperatorInterrupted ''operator evaluation interrupted''))"

definition limitSourceOutcome :: "string \<Rightarrow> 'q OSourceOutcome" where
  "limitSourceOutcome sid = NewSourceError sid OpValueLimitExceeded ''produced value ceiling exceeded''"

text \<open>One turn of the batch loop after the cancellation checks: the outcome, whether it was interrupted, and the context.\<close>

definition evaluateSource ::
  "'q TypedLib \<Rightarrow> 'r OpLib \<Rightarrow> (FacetResourceResult \<Rightarrow> nat option) \<Rightarrow> int \<Rightarrow> ctx \<Rightarrow> string \<Rightarrow> ('q, 'r) OPlanOutcome \<Rightarrow>
   'q TSourceOutcome \<Rightarrow> 'q OSourceOutcome \<times> bool \<times> ctx" where
  "evaluateSource lib rx canonicalSize maxBytes c sid plan input =
    (if ts_sourceID input \<noteq> opo_sourceID plan then
       (failedOperator sid (FromOperator (NewOperatorError sid [] (- 1) [] None OpInvalidInput
          ''typed source identity does not match the operator plan'')), False, c)
     else case ts_err input of
       Some e \<Rightarrow> (failedOperator sid (FromTyped e), False, c)
     | None \<Rightarrow>
        if \<not> OPlan_Valid plan then
          (\<lparr>os_sourceID = sid, os_resources = [], os_fieldErrors =
              (if opo_failures plan = [] then [NewOperatorError sid [] (- 1) [] None OpInvalidInput ''operator plan is invalid'']
               else opo_failures plan), os_err = None\<rparr>, False, c)
        else
          (case (if maxBytes > 0
                 then (case NewAccountant maxBytes ''produced-values'' of Inl _ \<Rightarrow> None | Inr a \<Rightarrow> Some (Some a))
                 else Some None) of
             None \<Rightarrow> (limitSourceOutcome sid, False, c)
           | Some acc \<Rightarrow>
              (case evaluateResources lib rx canonicalSize (opo_sourceID plan) (opo_fields plan) c acc (ts_resources input) of
                 (Inl SourceInterrupted, c1) \<Rightarrow> (interruptedSourceOutcome sid, True, c1)
               | (Inl SourceLimit, c1) \<Rightarrow> (limitSourceOutcome sid, False, c1)
               | (Inr outs, c1) \<Rightarrow>
                   (\<lparr>os_sourceID = sid, os_resources = outs, os_fieldErrors = [], os_err = None\<rparr>, False, c1))))"

fun evaluateSources ::
  "'q TypedLib \<Rightarrow> 'r OpLib \<Rightarrow> (FacetResourceResult \<Rightarrow> nat option) \<Rightarrow> int \<Rightarrow> ctx \<Rightarrow> bool \<Rightarrow>
   (('q, 'r) OPlanOutcome \<times> 'q TSourceOutcome) list \<Rightarrow> 'q OSourceOutcome list" where
  "evaluateSources lib rx canonicalSize maxBytes c interrupted [] = []"
| "evaluateSources lib rx canonicalSize maxBytes c interrupted ((plan, input) # rest) =
    (let sid = (if opo_sourceID plan = [] then ts_sourceID input else opo_sourceID plan) in
     if interrupted then interruptedSourceOutcome sid # evaluateSources lib rx canonicalSize maxBytes c True rest
     else case ctx_err c of
       (True, c1) \<Rightarrow> interruptedSourceOutcome sid # evaluateSources lib rx canonicalSize maxBytes c1 True rest
     | (False, c1) \<Rightarrow>
        (case evaluateSource lib rx canonicalSize maxBytes c1 sid plan input of
           (out, stopped, c2) \<Rightarrow> out # evaluateSources lib rx canonicalSize maxBytes c2 stopped rest))"

definition EvaluateBatchWithLimit ::
  "'q TypedLib \<Rightarrow> 'r OpLib \<Rightarrow> (FacetResourceResult \<Rightarrow> nat option) \<Rightarrow> int \<Rightarrow> ctx \<Rightarrow> (('q, 'r) OPlanOutcome \<times> 'q TSourceOutcome) list \<Rightarrow>
   'q OSourceOutcome list" where
  "EvaluateBatchWithLimit lib rx canonicalSize maxBytes c inputs = evaluateSources lib rx canonicalSize maxBytes c False inputs"


section \<open>Meaning of operators\<close>

text \<open>Equality and order of the exact values of two payloads of one type.\<close>

definition exact_equal :: "'q payload \<Rightarrow> 'q payload \<Rightarrow> bool" where
  "exact_equal v w = (case (v, w) of (VBoolean a, VBoolean b) \<Rightarrow> a = b | _ \<Rightarrow> order_value_of v = order_value_of w)"

definition exact_compare :: "'q payload \<Rightarrow> 'q payload \<Rightarrow> int" where
  "exact_compare v w = (case (order_value_of v, order_value_of w) of (Some a, Some b) \<Rightarrow> order_cmp a b | _ \<Rightarrow> 0)"

definition non_null :: "'q Match list \<Rightarrow> 'q payload list" where
  "non_null ms = List.map_filter m_value ms"

text \<open>The decision of a planned operator on the matches of a field, by its non-null values.\<close>

definition operator_accepts :: "'r OpLib \<Rightarrow> ('q, 'r) OperatorPlan \<Rightarrow> 'q Match list \<Rightarrow> bool" where
  "operator_accepts rx op ms =
    (let kind = opl_kind op; vs = non_null ms; w = the (m_value (the (opl_operand op)));
         among = (\<lambda>v. list_ex (\<lambda>m. exact_equal v (the (m_value m))) (opl_operands op)) in
     if kind = ''exists'' then ms \<noteq> []
     else if kind = ''notExists'' then ms = []
     else if kind = ''eq'' then list_ex (\<lambda>v. exact_equal v w) vs
     else if kind = ''ne'' then vs \<noteq> [] \<and> list_all (\<lambda>v. \<not> exact_equal v w) vs
     else if kind = ''in'' then list_ex among vs
     else if kind = ''notIn'' then vs \<noteq> [] \<and> list_all (\<lambda>v. \<not> among v) vs
     else if kind \<in> set order_operators then list_ex (\<lambda>v. comparison_holds kind (exact_compare v w)) vs
     else if kind \<in> set string_operators then
       list_ex (\<lambda>v. case (v, w) of (VString s, VString p) \<Rightarrow> string_test rx op p s | _ \<Rightarrow> False) vs
     else True)"

text \<open>What a planned operator leaves of the matches.\<close>

definition operator_result :: "('q, 'r) OperatorPlan \<Rightarrow> string \<Rightarrow> 'q Match list \<Rightarrow> 'q Match list" where
  "operator_result op t ms =
    (if opl_kind op = ''default'' then
       (if ms = [] then [the (opl_operand op)] else map (\<lambda>m. if m_value m = None then the (opl_operand op) else m) ms)
     else if opl_kind op = ''coalesce'' then
       (if ms = [] then [] else case non_null ms of [] \<Rightarrow> [newNullMatch t] | v # _ \<Rightarrow> [newValueMatch t v])
     else ms)"

text \<open>A well-typed operand, operator and field.\<close>

definition operand_wf :: "'q TypedLib \<Rightarrow> string \<Rightarrow> 'q Match \<Rightarrow> bool" where
  "operand_wf lib t m \<longleftrightarrow> m_type m = t \<and> match_wf lib m \<and> m_value m \<noteq> None"

definition operator_wf :: "'q TypedLib \<Rightarrow> 'r OpLib \<Rightarrow> string \<Rightarrow> ('q, 'r) OperatorPlan \<Rightarrow> bool" where
  "operator_wf lib rx t op \<longleftrightarrow> supportedOperator (opl_kind op) \<and> compatibleOperator (opl_kind op) t \<and> IsSupportedType t \<and>
     (if requiresSingleValue (opl_kind op) then
        (\<exists>m. opl_operand op = Some m \<and> operand_wf lib t m \<and>
          (opl_kind op = ''matches'' \<longrightarrow> (\<exists>s. m_value m = Some (VString s) \<and> opl_pattern op = regexpCompile rx s)))
      else opl_operand op = None) \<and>
     (if requiresManyValues (opl_kind op) then opl_operands op \<noteq> [] \<and> list_all (operand_wf lib t) (opl_operands op)
      else opl_operands op = [])"

definition field_wf :: "'q TypedLib \<Rightarrow> string \<Rightarrow> 'q TFieldOutcome \<Rightarrow> bool" where
  "field_wf lib t f \<longleftrightarrow> to_name f \<noteq> [] \<and> to_type f = t \<and> IsSupportedType t \<and> to_err f = None \<and>
     to_state f = (if to_matches f = [] then FieldStateAbsent else FieldStateValues) \<and>
     list_all (\<lambda>m. m_type m = t \<and> match_wf lib m) (to_matches f)"

section \<open>Lemmas: planning\<close>

lemma decodeOperand_wf:
  assumes "decodeOperand lib rx sid field i k name operand = Inr m" "lib_ok lib"
    and "list_all (\<lambda>(t, native). go_native native) (operand_branches operand)"
  shows "operand_wf lib (ff_type field) m"
proof -
  obtain t native where b: "operand_branches operand = [(t, native)]"
    using assms(1) by (auto simp: decodeOperand_def Let_def split: if_splits list.splits)
  obtain decoded where d: "(if t = ''object'' \<or> t = ''list''
        then (case native of JString s \<Rightarrow> decodeJSONOperand rx s (t = ''object'') | _ \<Rightarrow> None) else Some native) = Some decoded"
    "ConvertConfiguredMatch lib sid (ff_name field) (ff_type field) decoded = Inr m"
    using assms(1) b by (auto simp: decodeOperand_def Let_def split: if_splits option.splits sum.splits)
  have native: "go_native native" "native \<noteq> JNull" using assms(3) b
    by (auto simp: operand_branches_def split: option.splits)
  have "go_native decoded \<and> decoded \<noteq> JNull"
  proof (cases "t = ''object'' \<or> t = ''list''")
    case True
    then obtain s where "decodeJSONOperand rx s (t = ''object'') = Some decoded" using d(1) by (auto split: JValue.splits)
    then show ?thesis by (auto simp: decodeJSONOperand_def split: option.splits prod.splits if_splits JValue.splits)
  qed (use d(1) native in auto)
  then show ?thesis
    using ConvertMatch_Inr[OF d(2)[unfolded ConvertConfiguredMatch_def] _ assms(2)]
    by (auto simp: operand_wf_def split: option.splits)
qed

definition declaration_native :: "FacetOperator \<Rightarrow> bool" where
  "declaration_native d \<longleftrightarrow> list_all (\<lambda>o'. list_all (\<lambda>(t, native). go_native native) (operand_branches o'))
     ((case fo_value d of None \<Rightarrow> [] | Some v \<Rightarrow> [v]) @ fo_values d)"

lemma compatible_supported: "compatibleOperator name t \<Longrightarrow> IsSupportedType t"
  by (auto simp: compatibleOperator_def IsSupportedType_def scalarEqualityType_def orderableType_def split: if_splits)

lemma planOperator_wf:
  assumes "planOperator lib rx sid field i d = Inr op" "lib_ok lib" "declaration_native d"
  shows "operator_wf lib rx (ff_type field) op \<and> opl_kind op = fo_operator d \<and> opl_index op = int i"
proof -
  let ?k = "fo_operator d" and ?t = "ff_type field"
  have base: "supportedOperator ?k" "compatibleOperator ?k ?t"
    using assms(1) by (auto simp: planOperator_def Let_def split: if_splits)
  have ty: "?t \<noteq> []" "IsSupportedType ?t" using compatible_supported[OF base(2)] by (auto simp: IsSupportedType_def)
  consider (single) "requiresSingleValue ?k" | (many) "\<not> requiresSingleValue ?k" "requiresManyValues ?k"
    | (none) "\<not> requiresSingleValue ?k" "\<not> requiresManyValues ?k" by blast
  then show ?thesis
  proof cases
    case single
    then have nm: "\<not> requiresManyValues ?k" by (auto simp: requiresSingleValue_def requiresManyValues_def)
    obtain v where v: "fo_value d = Some v" "fo_values d = []"
      using assms(1) base ty single by (auto simp: planOperator_def Let_def split: if_splits option.splits)
    obtain m where m: "decodeOperand lib rx sid field (int i) (- 1) ?k v = Inr m"
      using assms(1) base ty single v by (auto simp: planOperator_def Let_def split: sum.splits)
    have wf: "operand_wf lib ?t m" using decodeOperand_wf[OF m assms(2)] assms(3) v by (simp add: declaration_native_def)
    show ?thesis
    proof (cases "?k = ''matches''")
      case True
      then obtain s p where "StringValue m = Some s" "regexpCompile rx s = Some p"
        "op = \<lparr>opl_index = int i, opl_kind = ?k, opl_operand = Some m, opl_operands = [], opl_pattern = Some p\<rparr>"
        using assms(1) base ty single v m by (auto simp: planOperator_def Let_def split: option.splits)
      then show ?thesis using wf base ty single nm
        by (auto simp: operator_wf_def StringValue_def split: option.splits payload.splits)
    next
      case False
      then have "op = \<lparr>opl_index = int i, opl_kind = ?k, opl_operand = Some m, opl_operands = [], opl_pattern = None\<rparr>"
        using assms(1) base ty single v m by (simp add: planOperator_def Let_def)
      then show ?thesis using wf base ty single nm False by (simp add: operator_wf_def)
    qed
  next
    case many
    then have v: "fo_value d = None" "fo_values d \<noteq> []"
      using assms(1) base ty by (auto simp: planOperator_def Let_def split: if_splits)
    obtain ms where ms: "res_map_list (\<lambda>(v, k). decodeOperand lib rx sid field (int i) (int k) ?k v)
        (zip (fo_values d) [0..<length (fo_values d)]) = Inr ms"
      "op = \<lparr>opl_index = int i, opl_kind = ?k, opl_operand = None, opl_operands = ms, opl_pattern = None\<rparr>"
      using assms(1) base ty many v by (auto simp: planOperator_def Let_def split: sum.splits)
    have len: "length ms = length (fo_values d)" using res_map_list_length[OF ms(1)] by simp
    have "list_all (operand_wf lib ?t) ms" unfolding list_all_length
    proof (intro allI impI)
      fix k assume k: "k < length ms"
      have "(\<lambda>(v, k). decodeOperand lib rx sid field (int i) (int k) ?k v) (zip (fo_values d) [0..<length (fo_values d)] ! k) = Inr (ms ! k)"
        using list_all2_nthD2[OF ms(1)[unfolded res_map_list_Inr_iff] k] .
      then have "decodeOperand lib rx sid field (int i) (int k) ?k (fo_values d ! k) = Inr (ms ! k)" using k len by simp
      moreover have "list_all (\<lambda>(t, native). go_native native) (operand_branches (fo_values d ! k))"
        using assms(3) nth_mem[of k "fo_values d"] k len unfolding declaration_native_def list_all_append by (auto simp: list_all_iff)
      ultimately show "operand_wf lib ?t (ms ! k)" by (rule decodeOperand_wf[OF _ assms(2)])
    qed
    then show ?thesis using ms(2) base ty many v len by (auto simp: operator_wf_def)
  next
    case none
    then have "op = \<lparr>opl_index = int i, opl_kind = ?k, opl_operand = None, opl_operands = [], opl_pattern = None\<rparr>"
      using assms(1) base ty by (auto simp: planOperator_def Let_def split: if_splits)
    then show ?thesis using base ty none by (simp add: operator_wf_def)
  qed
qed

section \<open>Lemmas: one operator\<close>

lemma EqualMatches_exact:
  assumes "operand_wf lib t l" "operand_wf lib t r" "scalarEqualityType t" "lib_ok lib"
  shows "EqualMatches lib l r = Inr (exact_equal (the (m_value l)) (the (m_value r)))"
proof -
  obtain v w where l: "l = newValueMatch t v" and r: "r = newValueMatch t w"
    and wf: "payload_wf lib t v" "payload_wf lib t w" and sup: "IsSupportedType t"
    using assms(1,2) by (cases l; cases r) (auto simp: operand_wf_def match_wf_def)
  show ?thesis
  proof (cases "t = ''boolean''")
    case True
    then obtain a b where "v = VBoolean a" "w = VBoolean b" using wf by (auto simp: payload_wf_def kind_of_iff)
    then show ?thesis using l r sup by (simp add: EqualMatches_def validateComparableMatches_def exact_equal_def)
  next
    case False
    then have o: "t \<notin> {''boolean'', ''object'', ''list''}" using assms(3) by (auto simp: scalarEqualityType_def)
    obtain a b where ab: "order_value_of v = Some a" "order_value_of w = Some b"
      using order_value_exists[OF wf(1) o] order_value_exists[OF wf(2) o] by blast
    have "exact_equal v w = (a = b)" using ab by (auto simp: exact_equal_def split: payload.splits)
    then show ?thesis using compare_payloads[OF wf assms(4) sup ab] l r by simp
  qed
qed

lemma CompareMatches_value:
  assumes "operand_wf lib t l" "operand_wf lib t r" "orderableType t" "lib_ok lib"
  shows "CompareMatches lib l r = Inr (exact_compare (the (m_value l)) (the (m_value r)))"
proof -
  obtain v w where l: "l = newValueMatch t v" and r: "r = newValueMatch t w"
    and wf: "payload_wf lib t v" "payload_wf lib t w" and sup: "IsSupportedType t"
    using assms(1,2) by (cases l; cases r) (auto simp: operand_wf_def match_wf_def)
  have o: "t \<notin> {''boolean'', ''object'', ''list''}" using assms(3) by (auto simp: orderableType_def)
  obtain a b where ab: "order_value_of v = Some a" "order_value_of w = Some b"
    using order_value_exists[OF wf(1) o] order_value_exists[OF wf(2) o] by blast
  then show ?thesis using compare_payloads[OF wf assms(4) sup ab] l r by (simp add: exact_compare_def)
qed

lemma non_null_simps [simp]:
  "non_null [] = []"
  "non_null (m # ms) = (case m_value m of None \<Rightarrow> non_null ms | Some v \<Rightarrow> v # non_null ms)"
  by (simp_all add: non_null_def List.map_filter_simps split: option.split)

abbreviation typed_matches :: "'q TypedLib \<Rightarrow> string \<Rightarrow> 'q Match list \<Rightarrow> bool" where
  "typed_matches lib t ms \<equiv> list_all (\<lambda>m. m_type m = t \<and> match_wf lib m) ms"

lemma compareLoop_eq:
  assumes "operand_wf lib t w" "scalarEqualityType t" "lib_ok lib" "typed_matches lib t ms"
  shows "compareLoop lib ''eq'' w seen ms = Some (list_ex (\<lambda>v. exact_equal v (the (m_value w))) (non_null ms))"
  using assms(4)
proof (induction ms arbitrary: seen)
  case (Cons m ms)
  then show ?case using EqualMatches_exact[OF _ assms(1-3), of m] by (auto simp: operand_wf_def)
qed simp

lemma compareLoop_ne:
  assumes "operand_wf lib t w" "scalarEqualityType t" "lib_ok lib" "typed_matches lib t ms"
  shows "compareLoop lib ''ne'' w seen ms =
    Some ((seen \<or> non_null ms \<noteq> []) \<and> list_all (\<lambda>v. \<not> exact_equal v (the (m_value w))) (non_null ms))"
  using assms(4)
proof (induction ms arbitrary: seen)
  case (Cons m ms)
  then show ?case using EqualMatches_exact[OF _ assms(1-3), of m] by (auto simp: operand_wf_def)
qed simp

lemma compareLoop_order:
  assumes "operand_wf lib t w" "orderableType t" "lib_ok lib" "typed_matches lib t ms" "kind \<in> set order_operators"
  shows "compareLoop lib kind w seen ms = Some (list_ex (\<lambda>v. comparison_holds kind (exact_compare v (the (m_value w)))) (non_null ms))"
  using assms(4)
proof (induction ms arbitrary: seen)
  case (Cons m ms)
  then show ?case using CompareMatches_value[OF _ assms(1-3), of m] assms(5) by (auto simp: operand_wf_def order_operators_def)
qed (use assms(5) in \<open>auto simp: order_operators_def\<close>)

lemma equalsAny_exact:
  assumes "operand_wf lib t m" "list_all (operand_wf lib t) ops" "scalarEqualityType t" "lib_ok lib"
  shows "equalsAny lib m ops = Some (list_ex (\<lambda>x. exact_equal (the (m_value m)) (the (m_value x))) ops)"
  using assms(2) by (induction ops) (simp_all add: EqualMatches_exact[OF assms(1) _ assms(3,4)])

lemma membershipLoop_in:
  assumes "list_all (operand_wf lib t) ops" "scalarEqualityType t" "lib_ok lib" "typed_matches lib t ms"
  shows "membershipLoop lib ''in'' ops seen ms = Some (list_ex (\<lambda>v. list_ex (\<lambda>x. exact_equal v (the (m_value x))) ops) (non_null ms))"
  using assms(4)
proof (induction ms arbitrary: seen)
  case (Cons m ms)
  then show ?case using equalsAny_exact[OF _ assms(1-3), of m] by (auto simp: operand_wf_def)
qed simp

lemma membershipLoop_notIn:
  assumes "list_all (operand_wf lib t) ops" "scalarEqualityType t" "lib_ok lib" "typed_matches lib t ms"
  shows "membershipLoop lib ''notIn'' ops seen ms =
    Some ((seen \<or> non_null ms \<noteq> []) \<and> list_all (\<lambda>v. \<not> list_ex (\<lambda>x. exact_equal v (the (m_value x))) ops) (non_null ms))"
  using assms(4)
proof (induction ms arbitrary: seen)
  case (Cons m ms)
  then show ?case using equalsAny_exact[OF _ assms(1-3), of m] by (auto simp: operand_wf_def)
qed simp

lemma ReplaceFieldMatches_wf:
  assumes "field_wf lib t f" "typed_matches lib t ms"
  shows "\<exists>f'. ReplaceFieldMatches f ms = Inr f' \<and> to_matches f' = ms \<and> to_name f' = to_name f \<and> field_wf lib t f'"
proof -
  have "to_state f \<noteq> FieldStateError" "to_name f \<noteq> []" "IsSupportedType (to_type f)" "to_type f = t"
    using assms(1) by (simp_all add: field_wf_def)
  moreover have "list_all (\<lambda>m. m_type m = t) ms" using assms(2) by (auto simp: list_all_iff)
  ultimately show ?thesis using assms by (auto simp: ReplaceFieldMatches_def field_wf_def field_outcome_defs)
qed

lemma find_first_non_null:
  "find_first (\<lambda>m. m_value m \<noteq> None) ms = None \<longleftrightarrow> non_null ms = []"
  "find_first (\<lambda>m. m_value m \<noteq> None) ms = Some m \<Longrightarrow> \<exists>v vs. non_null ms = v # vs \<and> m_value m = Some v \<and> m \<in> set ms"
  by (induction ms) (auto split: option.splits if_splits)

lemma list_ex_strings:
  "list_ex (\<lambda>m. case StringValue m of None \<Rightarrow> False | Some v \<Rightarrow> P v) ms = list_ex (\<lambda>v. case v of VString s \<Rightarrow> P s | _ \<Rightarrow> False) (non_null ms)"
  by (induction ms) (auto simp: StringValue_def split: option.splits payload.splits)

text \<open>What is promised of one step: the decision, the matches left, and that the field stays well typed.\<close>

definition operator_applied ::
  "'q TypedLib \<Rightarrow> 'r OpLib \<Rightarrow> string \<Rightarrow> ('q, 'r) OperatorPlan \<Rightarrow> 'q TFieldOutcome \<Rightarrow> (OperatorError, 'q TFieldOutcome \<times> bool) res \<Rightarrow> bool" where
  "operator_applied lib rx t op f r \<longleftrightarrow> (\<exists>f'. r = Inr (f', operator_accepts rx op (to_matches f)) \<and>
     to_matches f' = operator_result op t (to_matches f) \<and> to_name f' = to_name f \<and> field_wf lib t f')"

lemma applied_unchanged:
  assumes "field_wf lib t f" "opl_kind op \<noteq> ''default''" "opl_kind op \<noteq> ''coalesce''"
  shows "operator_applied lib rx t op f (Inr (f, b)) \<longleftrightarrow> b = operator_accepts rx op (to_matches f)"
  using assms by (auto simp: operator_applied_def operator_result_def)

lemma applied_replaced:
  assumes "field_wf lib t f" "opl_kind op = ''default'' \<or> opl_kind op = ''coalesce''"
    and "ms = operator_result op t (to_matches f)" "typed_matches lib t ms"
  shows "operator_applied lib rx t op f (replaced f ms fp op prov)"
proof -
  obtain f' where "ReplaceFieldMatches f ms = Inr f'" "to_matches f' = ms" "to_name f' = to_name f" "field_wf lib t f'"
    using ReplaceFieldMatches_wf[OF assms(1,4)] by blast
  moreover have "operator_accepts rx op (to_matches f)"
    using assms(2) by (auto simp: operator_accepts_def Let_def order_operators_def string_operators_def)
  ultimately show ?thesis using assms(3) by (simp add: operator_applied_def replaced_def)
qed

lemma apply_default:
  assumes "operator_wf lib rx t op" "field_wf lib t f" "opl_kind op = ''default''"
  shows "operator_applied lib rx t op f (applyOperator lib rx f fp op prov)"
proof -
  obtain m where m: "opl_operand op = Some m" "operand_wf lib t m"
    using assms(1,3) by (auto simp: operator_wf_def requiresSingleValue_def)
  define ms where "ms = operator_result op t (to_matches f)"
  have "applyOperator lib rx f fp op prov = replaced f ms fp op prov"
    using m(1) assms(2,3) by (simp add: applyOperator_def ms_def operator_result_def field_wf_def cong: if_cong)
  moreover have "typed_matches lib t ms" using m assms(2,3)
    by (auto simp: ms_def operator_result_def field_wf_def operand_wf_def list_all_iff)
  ultimately show ?thesis using applied_replaced[OF assms(2) _ ms_def] assms(3) by simp
qed

lemma apply_coalesce:
  assumes "operator_wf lib rx t op" "field_wf lib t f" "opl_kind op = ''coalesce''" "ofp_typeName fp = t"
  shows "operator_applied lib rx t op f (applyOperator lib rx f fp op prov)"
proof (cases "to_matches f = []")
  case True
  then have "applyOperator lib rx f fp op prov = Inr (f, True)" using assms(2,3) by (simp add: applyOperator_def field_wf_def)
  then show ?thesis using True assms(2,3)
    by (auto simp: operator_applied_def operator_result_def operator_accepts_def Let_def order_operators_def string_operators_def)
next
  case False
  have sup: "t \<noteq> []" "IsSupportedType t" using assms(1) by (auto simp: operator_wf_def IsSupportedType_def)
  define ms where "ms = operator_result op t (to_matches f)"
  have "applyOperator lib rx f fp op prov = replaced f ms fp op prov \<and> typed_matches lib t ms"
  proof (cases "find_first (\<lambda>m. m_value m \<noteq> None) (to_matches f)")
    case None
    then have "ms = [newNullMatch t]" using False assms(3) find_first_non_null(1)[of "to_matches f"]
      by (simp add: ms_def operator_result_def)
    then show ?thesis using None False assms(2-4) sup
      by (simp add: applyOperator_def field_wf_def NullMatch_def ConvertConfiguredMatch_def ConvertMatch_def match_wf_def)
  next
    case (Some m)
    then obtain v vs where v: "non_null (to_matches f) = v # vs" "m_value m = Some v" "m \<in> set (to_matches f)"
      using find_first_non_null(2) by blast
    have ty: "m_type m = t" "match_wf lib m" using v(3) assms(2) by (auto simp: field_wf_def list_all_iff)
    then have "ms = [m]" using False assms(3) v by (simp add: ms_def operator_result_def)
    then show ?thesis using Some False assms(2,3) ty by (simp add: applyOperator_def field_wf_def)
  qed
  then show ?thesis using applied_replaced[OF assms(2) _ ms_def] assms(3) by simp
qed

lemma apply_compare:
  assumes "operator_wf lib rx t op" "field_wf lib t f" "opl_kind op \<in> set [''eq'', ''ne'', ''gt'', ''gte'', ''lt'', ''lte'']" "lib_ok lib"
  shows "operator_applied lib rx t op f (applyOperator lib rx f fp op prov)"
proof -
  let ?k = "opl_kind op"
  obtain m where m: "opl_operand op = Some m" "operand_wf lib t m"
    using assms(1,3) by (auto simp: operator_wf_def requiresSingleValue_def)
  have tm: "typed_matches lib t (to_matches f)" using assms(2) by (simp add: field_wf_def)
  have comp: "compatibleOperator ?k t" using assms(1) by (simp add: operator_wf_def)
  have keep: "?k \<noteq> ''default''" "?k \<noteq> ''coalesce''" using assms(3) by auto
  have loop: "compareLoop lib ?k m False (to_matches f) = Some (operator_accepts rx op (to_matches f))"
  proof -
    consider (eq) "?k = ''eq''" | (ne) "?k = ''ne''" | (ord) "?k \<in> set order_operators" "?k \<noteq> ''eq''" "?k \<noteq> ''ne''"
      using assms(3) by (auto simp: order_operators_def)
    then show ?thesis
    proof cases
      case eq
      then have "scalarEqualityType t" using comp by (simp add: compatibleOperator_def equality_operators_def)
      then show ?thesis using compareLoop_eq[OF m(2) _ assms(4) tm] eq m(1) by (simp add: operator_accepts_def)
    next
      case ne
      then have "scalarEqualityType t" using comp by (simp add: compatibleOperator_def equality_operators_def)
      then show ?thesis using compareLoop_ne[OF m(2) _ assms(4) tm] ne m(1) by (simp add: operator_accepts_def Let_def)
    next
      case ord
      then have "orderableType t" using comp by (auto simp: compatibleOperator_def equality_operators_def order_operators_def)
      then show ?thesis using compareLoop_order[OF m(2) _ assms(4) tm ord(1)] ord m(1)
        by (auto simp: operator_accepts_def order_operators_def)
    qed
  qed
  have "applyOperator lib rx f fp op prov = Inr (f, operator_accepts rx op (to_matches f))"
    using assms(3) m(1) loop by (auto simp: applyOperator_def comparePredicate_def)
  then show ?thesis using applied_unchanged[OF assms(2) keep] by simp
qed

lemma apply_string:
  assumes "operator_wf lib rx t op" "field_wf lib t f" "opl_kind op \<in> set string_operators"
  shows "operator_applied lib rx t op f (applyOperator lib rx f fp op prov)"
proof -
  let ?k = "opl_kind op"
  obtain m where m: "opl_operand op = Some m" "operand_wf lib t m"
    using assms(1,3) by (auto simp: operator_wf_def requiresSingleValue_def string_operators_def)
  have k: "?k \<noteq> ''default''" "?k \<noteq> ''coalesce''" "?k \<noteq> ''exists''" "?k \<noteq> ''notExists''" "?k \<notin> set order_operators"
    "?k \<noteq> ''eq''" "?k \<noteq> ''ne''" "?k \<noteq> ''in''" "?k \<noteq> ''notIn''" "?k \<notin> set [''eq'', ''ne'', ''gt'', ''gte'', ''lt'', ''lte'']"
    using assms(3) by (auto simp: string_operators_def order_operators_def)
  have "t = ''string''" using assms(1) k assms(3)
    by (auto simp: operator_wf_def compatibleOperator_def equality_operators_def order_operators_def split: if_splits)
  then obtain p where p: "m_value m = Some (VString p)" using m(2) by (auto simp: operand_wf_def match_wf_def payload_wf_def kind_of_iff)
  have "applyOperator lib rx f fp op prov =
      Inr (f, list_ex (\<lambda>v. case v of VString s \<Rightarrow> string_test rx op p s | _ \<Rightarrow> False) (non_null (to_matches f)))"
    using k assms(3) m(1) p list_ex_strings[of "string_test rx op p" "to_matches f"]
    by (simp add: applyOperator_def StringValue_def[of m])
  moreover have "operator_accepts rx op (to_matches f) =
      list_ex (\<lambda>v. case v of VString s \<Rightarrow> string_test rx op p s | _ \<Rightarrow> False) (non_null (to_matches f))"
    using k assms(3) m(1) p by (auto simp: operator_accepts_def intro!: list_ex_cong split: payload.splits)
  ultimately show ?thesis using applied_unchanged[OF assms(2) k(1,2)] by simp
qed

lemma apply_membership:
  assumes "operator_wf lib rx t op" "field_wf lib t f" "opl_kind op = ''in'' \<or> opl_kind op = ''notIn''" "lib_ok lib"
  shows "operator_applied lib rx t op f (applyOperator lib rx f fp op prov)"
proof -
  have ops: "list_all (operand_wf lib t) (opl_operands op)" "scalarEqualityType t"
    using assms(1,3) by (auto simp: operator_wf_def requiresManyValues_def compatibleOperator_def equality_operators_def)
  have tm: "typed_matches lib t (to_matches f)" using assms(2) by (simp add: field_wf_def)
  have "membershipLoop lib (opl_kind op) (opl_operands op) False (to_matches f) = Some (operator_accepts rx op (to_matches f))"
  proof (cases "opl_kind op = ''in''")
    case True
    then show ?thesis unfolding True membershipLoop_in[OF ops assms(4) tm] by (simp add: operator_accepts_def True Let_def)
  next
    case False
    then have n: "opl_kind op = ''notIn''" using assms(3) by simp
    show ?thesis unfolding n membershipLoop_notIn[OF ops assms(4) tm] by (simp add: operator_accepts_def n Let_def)
  qed
  moreover have "applyOperator lib rx f fp op prov =
      (case membershipPredicate lib f (opl_operands op) fp op prov of Inl e \<Rightarrow> Inl e | Inr b \<Rightarrow> Inr (f, b))"
    using assms(3) by (auto simp: applyOperator_def string_operators_def)
  ultimately have "applyOperator lib rx f fp op prov = Inr (f, operator_accepts rx op (to_matches f))"
    by (simp add: membershipPredicate_def)
  then show ?thesis using applied_unchanged[OF assms(2), of op] assms(3) by auto
qed

lemma applyOperator_applied:
  assumes "operator_wf lib rx t op" "field_wf lib t f" "ofp_typeName fp = t" "lib_ok lib"
  shows "operator_applied lib rx t op f (applyOperator lib rx f fp op prov)"
proof -
  let ?k = "opl_kind op"
  have "supportedOperator ?k" using assms(1) by (simp add: operator_wf_def)
  then consider (d) "?k = ''default''" | (c) "?k = ''coalesce''" | (e) "?k = ''exists''" | (n) "?k = ''notExists''"
    | (cmp) "?k \<in> set [''eq'', ''ne'', ''gt'', ''gte'', ''lt'', ''lte'']" | (str) "?k \<in> set string_operators"
    | (mem) "?k = ''in'' \<or> ?k = ''notIn''"
    by (auto simp: supportedOperator_def string_operators_def)
  then show ?thesis
  proof cases
    case d then show ?thesis by (rule apply_default[OF assms(1,2)])
  next
    case c then show ?thesis by (rule apply_coalesce[OF assms(1,2) _ assms(3)])
  next
    case e
    then have "applyOperator lib rx f fp op prov = Inr (f, operator_accepts rx op (to_matches f))"
      by (simp add: applyOperator_def operator_accepts_def)
    then show ?thesis using applied_unchanged[OF assms(2), of op] e by simp
  next
    case n
    then have "applyOperator lib rx f fp op prov = Inr (f, operator_accepts rx op (to_matches f))"
      by (simp add: applyOperator_def operator_accepts_def)
    then show ?thesis using applied_unchanged[OF assms(2), of op] n by simp
  next
    case cmp then show ?thesis by (rule apply_compare[OF assms(1,2) _ assms(4)])
  next
    case str then show ?thesis by (rule apply_string[OF assms(1,2)])
  next
    case mem then show ?thesis by (rule apply_membership[OF assms(1,2) _ assms(4)])
  qed
qed

section \<open>Lemmas: resources\<close>

text \<open>The declared operators of a field run in order, each on the matches the previous one left.\<close>

fun run_operators :: "'r OpLib \<Rightarrow> string \<Rightarrow> ('q, 'r) OperatorPlan list \<Rightarrow> 'q Match list \<Rightarrow> 'q Match list option" where
  "run_operators rx t [] ms = Some ms"
| "run_operators rx t (op # ops) ms =
    (if operator_accepts rx op ms then run_operators rx t ops (operator_result op t ms) else None)"

lemma applyOperators_run:
  assumes "list_all (operator_wf lib rx t) ops" "field_wf lib t f" "ofp_typeName fp = t" "lib_ok lib"
  shows "case run_operators rx t ops (to_matches f) of
      None \<Rightarrow> applyOperators lib rx sid fp prov None f ops = (Inl OpStopRejected, None)
    | Some ms \<Rightarrow> \<exists>f'. applyOperators lib rx sid fp prov None f ops = (Inr f', None) \<and> to_matches f' = ms \<and>
        to_name f' = to_name f \<and> field_wf lib t f'"
  using assms(1,2)
proof (induction ops arbitrary: f)
  case (Cons op ops)
  obtain f' where f': "applyOperator lib rx f fp op prov = Inr (f', operator_accepts rx op (to_matches f))"
    "to_matches f' = operator_result op t (to_matches f)" "to_name f' = to_name f" "field_wf lib t f'"
    using applyOperator_applied[OF _ Cons.prems(2) assms(3,4), of rx op prov] Cons.prems(1) by (auto simp: operator_applied_def)
  show ?case
  proof (cases "operator_accepts rx op (to_matches f)")
    case True
    then show ?thesis using f' Cons.IH[of f'] Cons.prems(1)
      by (cases "run_operators rx t ops (operator_result op t (to_matches f))") simp_all
  qed (use f' in simp)
qed simp

lemma field_index_nth: "distinct names \<Longrightarrow> k < length names \<Longrightarrow> field_index (names ! k) names = Some k"
proof (induction names arbitrary: k)
  case (Cons x xs)
  then show ?case by (cases k) auto
qed simp

lemma field_index_Some: "field_index x names = Some k \<Longrightarrow> k < length names \<and> names ! k = x"
  by (induction names arbitrary: k) (auto split: if_splits)

lemma field_index_None: "field_index x names = None \<longleftrightarrow> x \<notin> set names"
  by (induction names) auto

lemma first_duplicate_None: "first_duplicate seen xs = None \<longleftrightarrow> distinct xs \<and> set xs \<inter> set seen = {}"
  by (induction xs arbitrary: seen) auto

text \<open>A resource fits a plan: each planned field is there with its type and, if it has operators, well typed.\<close>

definition fits :: "'q TypedLib \<Rightarrow> 'r OpLib \<Rightarrow> 'q TFieldOutcome list \<Rightarrow> ('q, 'r) OFieldPlan \<Rightarrow> bool" where
  "fits lib rx fs fp \<longleftrightarrow> (\<exists>f \<in> set fs. to_name f = ofp_name fp \<and> to_type f = ofp_typeName fp \<and>
     (ofp_operators fp \<noteq> [] \<longrightarrow> field_wf lib (ofp_typeName fp) f)) \<and> list_all (operator_wf lib rx (ofp_typeName fp)) (ofp_operators fp)"

definition matches_of :: "'q TFieldOutcome list \<Rightarrow> string \<Rightarrow> 'q Match list" where
  "matches_of fs name = (case find_first (\<lambda>f. to_name f = name) fs of None \<Rightarrow> [] | Some f \<Rightarrow> to_matches f)"

definition plan_runs :: "'r OpLib \<Rightarrow> 'q TFieldOutcome list \<Rightarrow> ('q, 'r) OFieldPlan \<Rightarrow> 'q Match list option" where
  "plan_runs rx fs fp = run_operators rx (ofp_typeName fp) (ofp_operators fp) (matches_of fs (ofp_name fp))"

lemma matches_of_nth:
  assumes "distinct (map to_name fs)" "k < length fs"
  shows "matches_of fs (to_name (fs ! k)) = to_matches (fs ! k)"
proof -
  obtain f where f: "find_first (\<lambda>f. to_name f = to_name (fs ! k)) fs = Some f"
    using find_first_None_iff[of "\<lambda>f. to_name f = to_name (fs ! k)" fs] nth_mem[OF assms(2)] by (cases "find_first (\<lambda>f. to_name f = to_name (fs ! k)) fs") auto
  have "f \<in> set fs" "to_name f = to_name (fs ! k)" using find_first_Some[OF f] by auto
  then have "f = fs ! k" using assms nth_mem[OF assms(2)] by (metis distinct_map inj_onD)
  then show ?thesis using f by (simp add: matches_of_def)
qed

text \<open>The fields after an accepted walk: those in the plan hold the matches their operators left, the others are unchanged.\<close>

definition fields_after :: "'r OpLib \<Rightarrow> ('q, 'r) OFieldPlan list \<Rightarrow> 'q TFieldOutcome list \<Rightarrow> 'q TFieldOutcome list \<Rightarrow> bool" where
  "fields_after rx plans fs fs' \<longleftrightarrow> list_all2 (\<lambda>f f'. to_name f' = to_name f \<and> to_type f' = to_type f \<and>
     (case find_first (\<lambda>fp. ofp_name fp = to_name f) plans of
        None \<Rightarrow> f' = f
      | Some fp \<Rightarrow> run_operators rx (ofp_typeName fp) (ofp_operators fp) (to_matches f) = Some (to_matches f') \<and>
          (ofp_operators fp = [] \<longrightarrow> f' = f))) fs fs'"

lemma update_other:
  assumes "fits lib rx fs fp'" "distinct (map to_name fs)" "k < length fs" "to_name f' = to_name (fs ! k)" "ofp_name fp' \<noteq> to_name (fs ! k)"
  shows "fits lib rx (fs[k := f']) fp' \<and> plan_runs rx (fs[k := f']) fp' = plan_runs rx fs fp'"
proof -
  let ?fs = "fs[k := f']"
  obtain g where g: "g \<in> set fs" "to_name g = ofp_name fp'" "to_type g = ofp_typeName fp'"
    "ofp_operators fp' \<noteq> [] \<longrightarrow> field_wf lib (ofp_typeName fp') g" "list_all (operator_wf lib rx (ofp_typeName fp')) (ofp_operators fp')"
    using assms(1) by (auto simp: fits_def)
  obtain j where j: "j < length fs" "fs ! j = g" using g(1) by (auto simp: in_set_conv_nth)
  have "j \<noteq> k" using assms(5) g(2) j(2) by auto
  then have at: "?fs ! j = g" "j < length ?fs" using j by simp_all
  have names: "map to_name ?fs = map to_name fs" using assms(3,4) by (simp add: map_update list_update_same_conv)
  have "matches_of ?fs (ofp_name fp') = matches_of fs (ofp_name fp')"
    using matches_of_nth[of ?fs j] matches_of_nth[of fs j] assms(2) names j at g(2) by simp
  moreover have "g \<in> set ?fs" using at nth_mem by metis
  ultimately show ?thesis using g by (auto simp: fits_def plan_runs_def)
qed

lemma fields_after_Cons:
  assumes "fields_after rx plans (fs[k := f']) fs'" "distinct (map to_name fs)" "k < length fs" "to_name (fs ! k) = ofp_name fp"
    and "ofp_name fp \<notin> ofp_name ` set plans" "to_name f' = to_name (fs ! k)" "to_type f' = to_type (fs ! k)"
    and "run_operators rx (ofp_typeName fp) (ofp_operators fp) (to_matches (fs ! k)) = Some (to_matches f')"
    and "ofp_operators fp = [] \<longrightarrow> f' = fs ! k"
  shows "fields_after rx (fp # plans) fs fs'"
  unfolding fields_after_def list_all2_conv_all_nth
proof (intro conjI allI impI)
  let ?fs = "fs[k := f']"
  have none: "find_first (\<lambda>p. ofp_name p = ofp_name fp) plans = None" unfolding find_first_None_iff using assms(5) by (metis imageI)
  fix j assume j: "j < length fs"
  have at: "to_name (fs' ! j) = to_name (?fs ! j)" "to_type (fs' ! j) = to_type (?fs ! j)"
    "(case find_first (\<lambda>fp. ofp_name fp = to_name (?fs ! j)) plans of None \<Rightarrow> fs' ! j = ?fs ! j
      | Some p \<Rightarrow> run_operators rx (ofp_typeName p) (ofp_operators p) (to_matches (?fs ! j)) = Some (to_matches (fs' ! j)) \<and>
         (ofp_operators p = [] \<longrightarrow> fs' ! j = ?fs ! j))"
    using assms(1) j by (auto simp: fields_after_def list_all2_conv_all_nth)
  show "to_name (fs' ! j) = to_name (fs ! j)" "to_type (fs' ! j) = to_type (fs ! j)"
    using at(1,2) assms(3,6,7) j by (cases "j = k"; simp)+
  show "case find_first (\<lambda>fp. ofp_name fp = to_name (fs ! j)) (fp # plans) of None \<Rightarrow> fs' ! j = fs ! j
    | Some p \<Rightarrow> run_operators rx (ofp_typeName p) (ofp_operators p) (to_matches (fs ! j)) = Some (to_matches (fs' ! j)) \<and>
         (ofp_operators p = [] \<longrightarrow> fs' ! j = fs ! j)"
  proof (cases "j = k")
    case True
    then show ?thesis using at(3) none assms(3,4,6,8,9) by simp
  next
    case False
    have "to_name (fs ! j) \<noteq> ofp_name fp" using nth_eq_iff_index_eq[OF assms(2), of j k] assms(3,4) j False by simp
    moreover have "?fs ! j = fs ! j" using False by simp
    ultimately show ?thesis using at(3) by (simp split: option.splits)
  qed
next
  show "length fs = length fs'" using list_all2_lengthD[OF assms(1)[unfolded fields_after_def]] by simp
qed

lemma opEvaluateFields_run:
  assumes "lib_ok lib" "distinct (map ofp_name plans)" "distinct (map to_name fs)" "list_all (fits lib rx fs) plans"
  shows "if list_all (\<lambda>fp. plan_runs rx fs fp \<noteq> None) plans
    then \<exists>fs'. opEvaluateFields lib rx sid prov (map to_name fs) None fs plans = (Inr fs', None) \<and> fields_after rx plans fs fs'
    else opEvaluateFields lib rx sid prov (map to_name fs) None fs plans = (Inl OpStopRejected, None)"
  using assms(2-4)
proof (induction plans arbitrary: fs)
  case Nil
  then show ?case by (simp add: fields_after_def list_all2_refl)
next
  case (Cons fp plans)
  let ?t = "ofp_typeName fp"
  obtain f where f: "f \<in> set fs" "to_name f = ofp_name fp" "to_type f = ?t" "ofp_operators fp \<noteq> [] \<longrightarrow> field_wf lib ?t f"
    and ops: "list_all (operator_wf lib rx ?t) (ofp_operators fp)" using Cons.prems(3) by (auto simp: fits_def)
  obtain k where k: "k < length fs" "fs ! k = f" using f(1) by (auto simp: in_set_conv_nth)
  have idx: "field_index (ofp_name fp) (map to_name fs) = Some k" using field_index_nth[OF Cons.prems(2), of k] k f(2) by simp
  have runs: "plan_runs rx fs fp = run_operators rx ?t (ofp_operators fp) (to_matches f)"
    using matches_of_nth[OF Cons.prems(2) k(1)] k(2) f(2) by (simp add: plan_runs_def)
  have st: "\<not> (to_state f = FieldStateError \<and> ofp_operators fp \<noteq> [])" using f(4) by (auto simp: field_wf_def split: if_splits)
  have step: "case run_operators rx ?t (ofp_operators fp) (to_matches f) of
      None \<Rightarrow> applyOperators lib rx sid fp prov None f (ofp_operators fp) = (Inl OpStopRejected, None)
    | Some ms \<Rightarrow> \<exists>f'. applyOperators lib rx sid fp prov None f (ofp_operators fp) = (Inr f', None) \<and> to_matches f' = ms \<and>
        to_name f' = to_name f \<and> to_type f' = to_type f \<and> (ofp_operators fp = [] \<longrightarrow> f' = f)"
  proof (cases "ofp_operators fp")
    case (Cons op ops')
    then have "field_wf lib ?t f" using f(4) by simp
    from applyOperators_run[OF ops this refl assms(1), of sid prov] show ?thesis using Cons f(3) unfolding field_wf_def
      by (cases "run_operators rx ?t (ofp_operators fp) (to_matches f)")
        (simp del: run_operators.simps applyOperators.simps, fastforce simp del: run_operators.simps applyOperators.simps)
  qed simp
  show ?case
  proof (cases "plan_runs rx fs fp")
    case None
    then show ?thesis using step runs idx k f(3) st by simp
  next
    case (Some ms)
    then obtain f' where f': "applyOperators lib rx sid fp prov None f (ofp_operators fp) = (Inr f', None)" "to_matches f' = ms"
      "to_name f' = to_name f" "to_type f' = to_type f" "ofp_operators fp = [] \<longrightarrow> f' = f" using step runs by auto
    let ?fs = "fs[k := f']"
    have names: "map to_name ?fs = map to_name fs" using k f'(3) by (simp add: map_update list_update_same_conv)
    have other: "fits lib rx ?fs p \<and> plan_runs rx ?fs p = plan_runs rx fs p" if "p \<in> set plans" for p
    proof (rule update_other)
      show "fits lib rx fs p" using Cons.prems(3) that by (simp add: list_all_iff)
      show "ofp_name p \<noteq> to_name (fs ! k)" using Cons.prems(1) imageI[OF that, of ofp_name] k(2) f(2) by auto
    qed (use Cons.prems(2) k f'(3) in simp_all)
    have eval: "opEvaluateFields lib rx sid prov (map to_name fs) None fs (fp # plans) =
        opEvaluateFields lib rx sid prov (map to_name ?fs) None ?fs plans" using idx k f(3) st f'(1) names by auto
    have IH: "if list_all (\<lambda>p. plan_runs rx fs p \<noteq> None) plans
      then \<exists>fs'. opEvaluateFields lib rx sid prov (map to_name ?fs) None ?fs plans = (Inr fs', None) \<and> fields_after rx plans ?fs fs'
      else opEvaluateFields lib rx sid prov (map to_name ?fs) None ?fs plans = (Inl OpStopRejected, None)"
      using Cons.IH[of ?fs] Cons.prems(1,2) names other by (simp add: list_all_iff)
    have after: "fields_after rx (fp # plans) fs fs'" if "fields_after rx plans ?fs fs'" for fs'
      using fields_after_Cons[OF that Cons.prems(2) k(1), of fp] Cons.prems(1) k(2) f(2) f' runs Some by simp
    show ?thesis
    proof (cases "list_all (\<lambda>p. plan_runs rx fs p \<noteq> None) plans")
      case True
      then obtain fs' where "opEvaluateFields lib rx sid prov (map to_name ?fs) None ?fs plans = (Inr fs', None)" "fields_after rx plans ?fs fs'"
        using IH by auto
      then show ?thesis using after[of fs'] eval True Some by auto
    next
      case False
      then have "opEvaluateFields lib rx sid prov (map to_name ?fs) None ?fs plans = (Inl OpStopRejected, None)" using IH by simp
      then show ?thesis using eval False by auto
    qed
  qed
qed

text \<open>A cancellation that is not observed changes nothing.\<close>

lemma applyOperators_uncancelled:
  assumes "applyOperators lib rx sid fp prov c f ops = (r, c')" "\<And>e. r \<noteq> Inl (OpStopInterrupted e)"
  shows "applyOperators lib rx sid fp prov None f ops = (r, None)"
  using assms
proof (induction ops arbitrary: c f)
  case (Cons op ops)
  obtain stop c1 where c1: "ctx_err c = (stop, c1)" by (cases "ctx_err c")
  then have "\<not> stop" using Cons.prems by (cases stop) auto
  then show ?case using Cons.prems c1 Cons.IH[of c1]
    by (cases "applyOperator lib rx f fp op prov") (auto split: if_splits)
qed simp

lemma opEvaluateFields_uncancelled:
  assumes "opEvaluateFields lib rx sid prov names c working plans = (r, c')" "\<And>e. r \<noteq> Inl (OpStopInterrupted e)"
  shows "opEvaluateFields lib rx sid prov names None working plans = (r, None)"
  using assms
proof (induction plans arbitrary: c working)
  case (Cons fp plans)
  obtain stop c1 where c1: "ctx_err c = (stop, c1)" by (cases "ctx_err c")
  then have ns: "\<not> stop" using Cons.prems by (cases stop) (auto simp: Let_def)
  show ?case
  proof (cases "field_index (ofp_name fp) names")
    case None
    then show ?thesis using Cons.prems c1 ns by (simp add: Let_def)
  next
    case (Some k)
    let ?f = "working ! k"
    show ?thesis
    proof (cases "to_type ?f \<noteq> ofp_typeName fp \<or> to_state ?f = FieldStateError \<and> ofp_operators fp \<noteq> []")
      case True
      then show ?thesis using Cons.prems c1 ns Some by (auto simp: Let_def)
    next
      case False
      obtain r1 c2 where a: "applyOperators lib rx sid fp prov c1 ?f (ofp_operators fp) = (r1, c2)"
        by (cases "applyOperators lib rx sid fp prov c1 ?f (ofp_operators fp)")
      have go: "opEvaluateFields lib rx sid prov names c working (fp # plans) =
          (case r1 of Inl s \<Rightarrow> (Inl s, c2) | Inr u \<Rightarrow> opEvaluateFields lib rx sid prov names c2 (working[k := u]) plans)"
        using c1 ns Some False a by (auto split: sum.splits)
      have "r1 \<noteq> Inl (OpStopInterrupted e)" for e
      proof
        assume "r1 = Inl (OpStopInterrupted e)"
        then have "r = Inl (OpStopInterrupted e)" using go Cons.prems(1) by (simp del: opEvaluateFields.simps)
        then show False using Cons.prems(2) by blast
      qed
      then have a': "applyOperators lib rx sid fp prov None ?f (ofp_operators fp) = (r1, None)"
        using applyOperators_uncancelled[OF a] by blast
      have "opEvaluateFields lib rx sid prov names None working (fp # plans) =
          (case r1 of Inl s \<Rightarrow> (Inl s, None) | Inr u \<Rightarrow> opEvaluateFields lib rx sid prov names None (working[k := u]) plans)"
        using Some False a' by (auto split: sum.splits)
      then show ?thesis using go Cons.prems Cons.IH by (cases r1) (auto simp del: opEvaluateFields.simps)
    qed
  qed
qed simp

lemma evaluateResource_uncancelled:
  assumes "evaluateResource lib rx c sid plans input = (Inr out, c')"
  shows "evaluateResource lib rx None sid plans input = (Inr out, None)"
proof -
  let ?prov = "tr_provenance input" and ?names = "map to_name (tr_fields input)"
  show ?thesis
  proof (cases "(prov_apiVersion ?prov = [] \<or> prov_kind ?prov = [] \<or> prov_name ?prov = [] \<or> prov_uid ?prov = []) \<or> first_duplicate [] ?names \<noteq> None")
    case True
    then show ?thesis using assms by (auto simp: evaluateResource_def Let_def split: if_splits)
  next
    case False
    obtain r c1 where r: "opEvaluateFields lib rx sid ?prov ?names c (tr_fields input) plans = (r, c1)"
      by (cases "opEvaluateFields lib rx sid ?prov ?names c (tr_fields input) plans")
    have "r \<noteq> Inl (OpStopInterrupted e)" for e using assms False r by (auto simp: evaluateResource_def Let_def)
    then have "opEvaluateFields lib rx sid ?prov ?names None (tr_fields input) plans = (r, None)"
      using opEvaluateFields_uncancelled[OF r] by blast
    then show ?thesis using assms False r by (auto simp: evaluateResource_def Let_def split: sum.splits op_stop.splits)
  qed
qed

section \<open>Lemmas: source plans\<close>

lemma planOperators_Inr:
  "planOperators lib rx sid f i ds = (ops, []) \<Longrightarrow>
    length ops = length ds \<and> (\<forall>k < length ds. planOperator lib rx sid f (i + k) (ds ! k) = Inr (ops ! k))"
proof (induction ds arbitrary: i ops)
  case (Cons d ds)
  obtain p ops' where p: "planOperator lib rx sid f i d = Inr p" "planOperators lib rx sid f (Suc i) ds = (ops', [])" "ops = p # ops'"
    using Cons.prems by (auto split: prod.splits sum.splits)
  have IH: "length ops' = length ds" "\<And>k. k < length ds \<Longrightarrow> planOperator lib rx sid f (Suc i + k) (ds ! k) = Inr (ops' ! k)"
    using Cons.IH[OF p(2)] by auto
  have "planOperator lib rx sid f (i + k) ((d # ds) ! k) = Inr (ops ! k)" if "k < length (d # ds)" for k
    using that p IH(2)[of "k - 1"] by (cases k) simp_all
  then show ?case using p IH(1) by simp
qed simp

text \<open>A field plan carries the declared name and type and one well-typed operator per declaration, in order.\<close>

definition field_planned :: "'q TypedLib \<Rightarrow> 'r OpLib \<Rightarrow> string \<Rightarrow> FacetField \<Rightarrow> ('q, 'r) OFieldPlan \<Rightarrow> bool" where
  "field_planned lib rx sid f fp \<longleftrightarrow> ofp_sourceID fp = sid \<and> ofp_name fp = ff_name f \<and> ff_name f \<noteq> [] \<and> ofp_typeName fp = ff_type f \<and>
     IsSupportedType (ff_type f) \<and> map opl_kind (ofp_operators fp) = map fo_operator (ff_operators f) \<and>
     map opl_index (ofp_operators fp) = map int [0..<length (ff_operators f)] \<and>
     list_all (operator_wf lib rx (ff_type f)) (ofp_operators fp)"

lemma planOperators_planned:
  assumes "planOperators lib rx sid f 0 (ff_operators f) = (ops, [])" "lib_ok lib" "list_all declaration_native (ff_operators f)"
  shows "map opl_kind ops = map fo_operator (ff_operators f) \<and> map opl_index ops = map int [0..<length (ff_operators f)] \<and>
    list_all (operator_wf lib rx (ff_type f)) ops"
proof -
  have len: "length ops = length (ff_operators f)" and
    each: "\<And>k. k < length ops \<Longrightarrow> planOperator lib rx sid f k (ff_operators f ! k) = Inr (ops ! k)"
    using planOperators_Inr[OF assms(1)] by auto
  have all: "operator_wf lib rx (ff_type f) (ops ! k) \<and> opl_kind (ops ! k) = fo_operator (ff_operators f ! k) \<and> opl_index (ops ! k) = int k"
    if "k < length ops" for k
    by (rule planOperator_wf[OF each[OF that] assms(2)]) (use assms(3) that len in \<open>simp add: list_all_length\<close>)
  show ?thesis
  proof (intro conjI)
    show "map opl_kind ops = map fo_operator (ff_operators f)" by (rule nth_equalityI) (use all len in simp_all)
    show "map opl_index ops = map int [0..<length (ff_operators f)]" by (rule nth_equalityI) (use all len in simp_all)
    show "list_all (operator_wf lib rx (ff_type f)) ops" unfolding list_all_length using all by blast
  qed
qed

lemma compileFields_planned:
  assumes "lib_ok lib"
  shows "\<lbrakk> opCompileFields lib rx sid seen xs = (plans, []); list_all (\<lambda>x. list_all declaration_native (ff_operators (fst x))) xs \<rbrakk> \<Longrightarrow>
     list_all2 (\<lambda>x fp. field_planned lib rx sid (fst x) fp) xs plans \<and> distinct (map (ff_name \<circ> fst) xs) \<and>
     set (map (ff_name \<circ> fst) xs) \<inter> set seen = {}"
proof (induction xs arbitrary: seen plans)
  case (Cons x xs)
  obtain f i where x: "x = (f, i)" by (cases x)
  obtain plans' failures where rest: "opCompileFields lib rx sid (ff_name f # seen) xs = (plans', failures)"
    by (cases "opCompileFields lib rx sid (ff_name f # seen) xs")
  obtain ops opf where ops: "planOperators lib rx sid f 0 (ff_operators f) = (ops, opf)"
    by (cases "planOperators lib rx sid f 0 (ff_operators f)")
  have seen: "ff_name f \<notin> set seen" using Cons.prems(1) x by (auto split: prod.splits if_splits)
  have ty: "ff_type f = [] \<or> IsSupportedType (ff_type f)"
    using Cons.prems(1) x seen rest by (auto simp: fieldFailures_def split: if_splits)
  then have ty': "\<not> (ff_type f \<noteq> [] \<and> \<not> IsSupportedType (ff_type f))" by blast
  let ?fp = "\<lparr>ofp_sourceID = sid, ofp_name = ff_name f, ofp_typeName = ff_type f, ofp_operators = ops\<rparr>"
  have "(if map (atField i) (fieldFailures sid f @ opf) = [] then ?fp # plans' else plans',
      map (atField i) (fieldFailures sid f @ opf) @ failures) = (plans, [])"
    using Cons.prems(1)
    by (simp only: x opCompileFields.simps rest ops if_not_P[OF seen] if_not_P[OF ty'] prod.case Let_def)
  then have own: "fieldFailures sid f = []" "opf = []" "failures = []" and plans: "plans = ?fp # plans'" by auto
  have planned: "map opl_kind ops = map fo_operator (ff_operators f) \<and> map opl_index ops = map int [0..<length (ff_operators f)] \<and>
    list_all (operator_wf lib rx (ff_type f)) ops"
    using planOperators_planned[OF ops[unfolded own(2)] assms] Cons.prems(2) x by simp
  have name: "ff_name f \<noteq> []" and nonempty: "ff_type f = [] \<Longrightarrow> ff_operators f \<noteq> []"
    using own(1) by (auto simp: fieldFailures_def split: if_splits)
  have "IsSupportedType (ff_type f)"
  proof (cases "ff_operators f")
    case Nil
    then show ?thesis using ty nonempty by auto
  next
    case (Cons d ds)
    then have "ops \<noteq> []" using planned by auto
    then show ?thesis using planned by (cases ops) (auto simp: operator_wf_def)
  qed
  then have "field_planned lib rx sid f (hd plans)" using planned plans name by (simp add: field_planned_def)
  then show ?case using Cons.IH[OF rest[unfolded own(3)]] Cons.prems(2) plans x seen by auto
qed simp

definition source_native :: "FacetSource \<Rightarrow> bool" where
  "source_native source \<longleftrightarrow> list_all (\<lambda>f. list_all declaration_native (ff_operators f)) (fs_fields source)"

lemma OpCompileSource_planned:
  assumes "OPlan_Valid (OpCompileSource lib rx source)" "lib_ok lib" "source_native source"
  defines "plan \<equiv> OpCompileSource lib rx source"
  shows "opo_sourceID plan = fs_id source \<and> sorted_wrt (<) (map ofp_name (opo_fields plan)) \<and>
    (\<exists>fs. mset fs = mset (fs_fields source) \<and> list_all2 (field_planned lib rx (fs_id source)) fs (opo_fields plan))"
proof -
  let ?xs = "sort_by (\<lambda>a b. ff_name (fst a) < ff_name (fst b)) (zip (fs_fields source) [0..<length (fs_fields source)])"
  obtain plans failures where c: "opCompileFields lib rx (fs_id source) [] ?xs = (plans, failures)"
    by (cases "opCompileFields lib rx (fs_id source) [] ?xs")
  have f: "failures = []" and p: "opo_fields plan = plans" "opo_sourceID plan = fs_id source"
    using assms(1) c by (auto simp: OPlan_Valid_def OpCompileSource_def plan_def)
  have ms: "mset (map fst ?xs) = mset (fs_fields source)" unfolding mset_map mset_sort_by by (simp flip: mset_map)
  have "list_all (\<lambda>x. list_all declaration_native (ff_operators (fst x))) ?xs"
    using assms(3) by (auto simp: source_native_def list_all_iff dest!: set_zip_leftD)
  then have all: "list_all2 (\<lambda>x fp. field_planned lib rx (fs_id source) (fst x) fp) ?xs plans" "distinct (map (ff_name \<circ> fst) ?xs)"
    using compileFields_planned[OF assms(2) c[unfolded f]] by auto
  have names: "map ofp_name plans = map (ff_name \<circ> fst) ?xs" using all(1)
    by (induction rule: list_all2_induct) (simp_all add: field_planned_def)
  have "sorted_wrt (\<lambda>a b. \<not> ff_name (fst b) < ff_name (fst a)) ?xs"
    by (rule strict_weak_order.sorted_sort_by) (rule swo_key)
  then have "sorted_wrt (\<lambda>a b. ff_name (fst a) < ff_name (fst b)) ?xs"
    by (rule sorted_wrt_combine[OF _ distinct_map_sorted_wrt[OF all(2)]]) auto
  then have "sorted_wrt (<) (map ofp_name plans)" unfolding names sorted_wrt_map by (simp add: comp_def)
  moreover have "list_all2 (field_planned lib rx (fs_id source)) (map fst ?xs) plans" using all(1) by (simp add: list_all2_map1)
  ultimately show ?thesis using p ms by blast
qed

lemma planned_plans:
  assumes "OPlan_Valid (OpCompileSource lib rx source)" "lib_ok lib" "source_native source"
    and "fp \<in> set (opo_fields (OpCompileSource lib rx source))"
  shows "distinct (map ofp_name (opo_fields (OpCompileSource lib rx source)))" "list_all (operator_wf lib rx (ofp_typeName fp)) (ofp_operators fp)"
proof -
  let ?plans = "opo_fields (OpCompileSource lib rx source)"
  obtain fs where s: "sorted_wrt (<) (map ofp_name ?plans)" "list_all2 (field_planned lib rx (fs_id source)) fs ?plans"
    using OpCompileSource_planned[OF assms(1-3)] by blast
  show "distinct (map ofp_name ?plans)" using s(1) by (simp add: strict_sorted_iff)
  obtain f where "field_planned lib rx (fs_id source) f fp" using list_all2_in_set2[OF s(2) assms(4)] by blast
  then show "list_all (operator_wf lib rx (ofp_typeName fp)) (ofp_operators fp)" by (simp add: field_planned_def)
qed

section \<open>Lemmas: sources and batches\<close>

definition operator_size :: "'q TypedLib \<Rightarrow> (FacetResourceResult \<Rightarrow> nat option) \<Rightarrow> 'q OResourceOutcome \<Rightarrow> int" where
  "operator_size lib canonicalSize r = (case projectOperatorResource lib r of
      Inr (Some x) \<Rightarrow> (case canonicalSize x of None \<Rightarrow> 0 | Some n \<Rightarrow> wrap64 (int n)) | _ \<Rightarrow> 0)"

definition outcome_shape :: "'q OResourceOutcome \<Rightarrow> bool" where
  "outcome_shape r \<longleftrightarrow> (or_state r = ResourceUnsuccessful \<longleftrightarrow> or_failure r \<noteq> None) \<and> (or_state r \<noteq> ResourceAccepted \<longrightarrow> or_fields r = [])"

lemma evaluateResource_shape: "evaluateResource lib rx c sid plans input = (Inr out, c') \<Longrightarrow> outcome_shape out"
  by (auto simp: evaluateResource_def Let_def unsuccessfulResource_def outcome_shape_def
      split: if_splits option.splits prod.splits sum.splits op_stop.splits)

lemma accountOperatorResource_Some:
  assumes "accountOperatorResource lib canonicalSize (Some a) r = Some acc'" "accountant_inv a" "outcome_shape r"
  obtains a' where "acc' = Some a'" "accountant_inv a'" "acc_ceiling a' = acc_ceiling a"
    "acc_used a' = acc_used a + operator_size lib canonicalSize r"
proof (cases "or_state r = ResourceRejected")
  case True
  then show ?thesis using that[of a] assms by (simp add: accountOperatorResource_def operator_size_def projectOperatorResource_def)
next
  case False
  obtain x n a' where x: "projectOperatorResource lib r = Inr (Some x)" "canonicalSize x = Some n"
    "AddBytes a (wrap64 (int n)) = Inr a'" "acc' = Some a'"
    using assms(1,3) False
    by (cases "or_state r") (auto simp: accountOperatorResource_def projectOperatorResource_def outcome_shape_def Add_def
        split: sum.splits option.splits)
  show ?thesis using that[OF x(4)] AddBytes_Inr[OF x(3) assms(2) wrap64_range] x(1,2) by (simp add: operator_size_def)
qed

lemma evaluateResources_Inr:
  "evaluateResources lib rx canonicalSize sid plans c acc rs = (Inr outs, c') \<Longrightarrow>
     list_all2 (\<lambda>r out. evaluateResource lib rx None sid plans r = (Inr out, None) \<and> outcome_shape out) rs outs"
proof (induction rs arbitrary: c acc outs c')
  case (Cons r rs)
  then show ?case
    by (auto split: prod.splits bool.splits option.splits sum.splits intro: evaluateResource_uncancelled evaluateResource_shape)
qed simp

lemma evaluateResources_bytes:
  "\<lbrakk> evaluateResources lib rx canonicalSize sid plans c (Some a) rs = (Inr outs, c'); accountant_inv a \<rbrakk> \<Longrightarrow>
     acc_used a + sum_list (map (operator_size lib canonicalSize) outs) \<le> acc_ceiling a"
proof (induction rs arbitrary: c a outs c')
  case Nil
  then show ?case by (simp add: accountant_inv_def)
next
  case (Cons r rs)
  obtain c1 out outs' c2 acc' where e: "evaluateResource lib rx c1 sid plans r = (Inr out, c2)"
    and o: "accountOperatorResource lib canonicalSize (Some a) out = Some acc'" and
    rest: "evaluateResources lib rx canonicalSize sid plans c2 acc' rs = (Inr outs', c')" and outs: "outs = out # outs'"
    using Cons.prems(1) by (auto split: prod.splits bool.splits option.splits sum.splits)
  obtain a' where a': "acc' = Some a'" "accountant_inv a'" "acc_ceiling a' = acc_ceiling a"
    "acc_used a' = acc_used a + operator_size lib canonicalSize out"
    using accountOperatorResource_Some[OF o Cons.prems(2) evaluateResource_shape[OF e]] .
  show ?case using Cons.IH[OF rest[unfolded a'(1)] a'(2)] a' outs by simp
qed

definition source_evaluated ::
  "'q TypedLib \<Rightarrow> 'r OpLib \<Rightarrow> (FacetResourceResult \<Rightarrow> nat option) \<Rightarrow> int \<Rightarrow> ('q, 'r) OPlanOutcome \<Rightarrow> 'q TSourceOutcome \<Rightarrow> 'q OSourceOutcome \<Rightarrow> bool" where
  "source_evaluated lib rx canonicalSize maxBytes plan input out \<longleftrightarrow>
     os_sourceID out = (if opo_sourceID plan = [] then ts_sourceID input else opo_sourceID plan) \<and>
     (case os_err out of
        Some e \<Rightarrow> os_resources out = [] \<and> os_fieldErrors out = [] \<and> (ts_err input = None \<longrightarrow> e \<notin> range FromTyped)
      | None \<Rightarrow> ts_sourceID input = opo_sourceID plan \<and> ts_err input = None \<and>
          (if OPlan_Valid plan
           then os_fieldErrors out = [] \<and>
             list_all2 (\<lambda>r out. evaluateResource lib rx None (opo_sourceID plan) (opo_fields plan) r = (Inr out, None) \<and> outcome_shape out)
               (ts_resources input) (os_resources out) \<and>
             (0 < maxBytes \<longrightarrow> sum_list (map (operator_size lib canonicalSize) (os_resources out)) \<le> maxBytes)
           else os_resources out = [] \<and> os_fieldErrors out \<noteq> [] \<and>
             (opo_failures plan \<noteq> [] \<longrightarrow> os_fieldErrors out = opo_failures plan)))"

lemmas failed_outcome_defs = failedOperator_def NewSourceError_def interruptedSourceOutcome_def limitSourceOutcome_def

lemma source_failed:
  assumes "sid = (if opo_sourceID plan = [] then ts_sourceID input else opo_sourceID plan)" "ts_err input = None \<Longrightarrow> e \<notin> range FromTyped"
  shows "source_evaluated lib rx canonicalSize maxBytes plan input (failedOperator sid e)"
  using assms by (simp add: source_evaluated_def failedOperator_def)

lemma evaluateSource_evaluated:
  assumes "evaluateSource lib rx canonicalSize maxBytes c sid plan input = (out, stopped, c')" "int64_range maxBytes"
    and sid: "sid = (if opo_sourceID plan = [] then ts_sourceID input else opo_sourceID plan)"
  shows "source_evaluated lib rx canonicalSize maxBytes plan input out"
proof (cases "ts_sourceID input = opo_sourceID plan \<and> ts_err input = None \<and> OPlan_Valid plan")
  case False
  then consider (id) "ts_sourceID input \<noteq> opo_sourceID plan" | (err) e where "ts_sourceID input = opo_sourceID plan" "ts_err input = Some e"
    | (plan) "ts_sourceID input = opo_sourceID plan" "ts_err input = None" "\<not> OPlan_Valid plan" by (cases "ts_err input") auto
  then show ?thesis
  proof cases
    case plan
    then show ?thesis using assms(1) sid by (auto simp: evaluateSource_def source_evaluated_def)
  qed (use assms(1) in \<open>auto simp: evaluateSource_def intro!: source_failed[OF sid]\<close>)
next
  case True
  define acc where "acc = (if maxBytes > 0 then Some (projr (NewAccountant maxBytes ''produced-values'')) else None)"
  have acc: "(if maxBytes > 0 then (case NewAccountant maxBytes ''produced-values'' of Inl _ \<Rightarrow> None | Inr a \<Rightarrow> Some (Some a)) else Some None) = Some acc"
    by (simp add: acc_def NewAccountant_def)
  obtain r c1 where r: "evaluateResources lib rx canonicalSize (opo_sourceID plan) (opo_fields plan) c acc (ts_resources input) = (r, c1)"
    by (cases "evaluateResources lib rx canonicalSize (opo_sourceID plan) (opo_fields plan) c acc (ts_resources input)")
  show ?thesis
  proof (cases r)
    case (Inl s)
    have "\<exists>oe. out = failedOperator sid (FromOperator oe)" using assms(1) True r acc Inl
      by (cases s) (auto simp: evaluateSource_def interruptedSourceOutcome_def limitSourceOutcome_def NewSourceError_def)
    then show ?thesis using source_failed[OF sid] by blast
  next
    case (Inr outs)
    then have out: "out = \<lparr>os_sourceID = sid, os_resources = outs, os_fieldErrors = [], os_err = None\<rparr>"
      using assms(1) True r acc by (auto simp: evaluateSource_def)
    have "0 < maxBytes \<longrightarrow> sum_list (map (operator_size lib canonicalSize) outs) \<le> maxBytes"
    proof
      assume "0 < maxBytes"
      then obtain a where a: "NewAccountant maxBytes ''produced-values'' = Inr a" "acc = Some a"
        by (auto simp: acc_def NewAccountant_def)
      show "sum_list (map (operator_size lib canonicalSize) outs) \<le> maxBytes"
        using evaluateResources_bytes[OF r[unfolded Inr a(2)]] NewAccountant_inv[OF a(1) assms(2)] by simp
    qed
    then show ?thesis using out True sid evaluateResources_Inr[OF r[unfolded Inr]] by (simp add: source_evaluated_def)
  qed
qed

lemma evaluateSources_evaluated:
  assumes "int64_range maxBytes"
  shows "list_all2 (\<lambda>(plan, input) out. source_evaluated lib rx canonicalSize maxBytes plan input out) xs
    (evaluateSources lib rx canonicalSize maxBytes c interrupted xs)"
proof (induction xs arbitrary: c interrupted)
  case (Cons x xs)
  obtain plan input where x: "x = (plan, input)" by (cases x)
  define sid where "sid = (if opo_sourceID plan = [] then ts_sourceID input else opo_sourceID plan)"
  obtain stop c1 where c1: "ctx_err c = (stop, c1)" by (cases "ctx_err c")
  obtain out st c2 where o: "evaluateSource lib rx canonicalSize maxBytes c1 sid plan input = (out, st, c2)"
    by (cases "evaluateSource lib rx canonicalSize maxBytes c1 sid plan input")
  have int: "source_evaluated lib rx canonicalSize maxBytes plan input (interruptedSourceOutcome sid)"
    unfolding interruptedSourceOutcome_def by (rule source_failed) (auto simp: sid_def)
  show ?case
  proof (cases "interrupted \<or> stop")
    case True
    then show ?thesis using x c1 int Cons.IH by (cases interrupted; cases stop) (simp_all add: sid_def[symmetric])
  next
    case False
    then show ?thesis using x c1 o evaluateSource_evaluated[OF o assms sid_def] Cons.IH[of c2 st]
      by (simp add: sid_def[symmetric])
  qed
qed simp

text \<open>A concrete source for the witnesses.\<close>

definition sample_rx :: "string OpLib" where
  "sample_rx = \<lparr>regexpCompile = (\<lambda>s. Some s), MatchString = (\<lambda>p v. str_contains v p), decodeNext = (\<lambda>s. None)\<rparr>"

definition no_operand :: FacetOperatorOperand where
  "no_operand = \<lparr>op_state = ''value'', op_stringValue = None, op_integerValue = None, op_numberValue = None, op_booleanValue = None,
     op_timestampValue = None, op_durationValue = None, op_quantityValue = None, op_objectValue = None, op_listValue = None\<rparr>"

definition op_source :: "int \<Rightarrow> FacetSource" where
  "op_source bound = \<lparr>fs_id = ''pods'', fs_resource = \<lparr>ref_apiVersion = ''v1'', ref_kind = ''Pod''\<rparr>,
     fs_namespaces = None, fs_selector = None,
     fs_fields = [\<lparr>ff_name = ''name'', ff_path = ''{.metadata.name}'', ff_type = ''string'', ff_operators = []\<rparr>,
                  \<lparr>ff_name = ''age'', ff_path = ''{.age}'', ff_type = ''integer'', ff_operators =
                    [\<lparr>fo_operator = ''default'', fo_value = Some (no_operand\<lparr>op_integerValue := Some 1\<rparr>), fo_values = []\<rparr>,
                     \<lparr>fo_operator = ''gt'', fo_value = Some (no_operand\<lparr>op_integerValue := Some bound\<rparr>), fo_values = []\<rparr>]\<rparr>],
     fs_aggregations = []\<rparr>"

definition op_resource :: "string TResourceOutcome" where
  "op_resource = \<lparr>tr_provenance = \<lparr>prov_apiVersion = ''v1'', prov_kind = ''Pod'', prov_namespace = ''n'', prov_name = ''p'', prov_uid = ''u''\<rparr>,
     tr_fields = [newValuesFieldOutcome ''age'' ''integer'' [newNullMatch ''integer'', newValueMatch ''integer'' (VInteger 3)],
                  newValuesFieldOutcome ''name'' ''string'' [newValueMatch ''string'' (VString ''p'')]]\<rparr>"

definition op_typed :: "string TSourceOutcome" where
  "op_typed = \<lparr>ts_sourceID = ''pods'', ts_resources = [op_resource], ts_fieldErrors = [], ts_err = None\<rparr>"

section \<open>Properties\<close>

text \<open>A valid operator plan keeps the source identity, lists the declared fields once each in strictly increasing name
  order with their supported types, and gives each declared operator, in order, a plan of the same kind that is compatible
  with the field type and whose operands are non-null well-formed values of that type.\<close>

theorem OpCompileSource_sound:
  assumes "OPlan_Valid (OpCompileSource lib rx source)" and "lib_ok lib" and "source_native source"
  shows "opo_sourceID (OpCompileSource lib rx source) = fs_id source \<and>
    sorted_wrt (<) (map ofp_name (opo_fields (OpCompileSource lib rx source))) \<and>
    (\<exists>fs. mset fs = mset (fs_fields source) \<and> list_all2 (field_planned lib rx (fs_id source)) fs (opo_fields (OpCompileSource lib rx source)))"
  using assms by (rule OpCompileSource_planned)

theorem OpCompileSource_sound_witness:
  "map ofp_name (opo_fields (OpCompileSource sample_lib sample_rx (op_source 2))) = [''age'', ''name''] \<and>
   sorted_wrt (<) (map ofp_name (opo_fields (OpCompileSource sample_lib sample_rx (op_source 2))))"
proof -
  have v: "OPlan_Valid (OpCompileSource sample_lib sample_rx (op_source 2))" by code_simp
  have n: "source_native (op_source 2)" by code_simp
  have e: "map ofp_name (opo_fields (OpCompileSource sample_lib sample_rx (op_source 2))) = [''age'', ''name'']" by code_simp
  show ?thesis using OpCompileSource_sound[OF v sample_lib_ok n] e by blast
qed

text \<open>C20: with a valid plan, a resource that has complete provenance and the planned fields, well typed wherever operators
  apply, is never unsuccessful: it is accepted exactly when, in every field, each operator accepts the exact values its
  predecessors left, and then every field holds what its operators left; otherwise it is rejected with no field.\<close>

theorem evaluateResource_decision:
  assumes "OPlan_Valid (OpCompileSource lib rx source)" and "lib_ok lib" and "source_native source"
    and "\<not> list_ex (\<lambda>s. s = []) [prov_apiVersion (tr_provenance r), prov_kind (tr_provenance r), prov_name (tr_provenance r), prov_uid (tr_provenance r)]"
    and "distinct (map to_name (tr_fields r))"
    and "list_all (\<lambda>fp. list_ex (\<lambda>f. to_name f = ofp_name fp \<and> to_type f = ofp_typeName fp \<and>
           (ofp_operators fp \<noteq> [] \<longrightarrow> field_wf lib (ofp_typeName fp) f)) (tr_fields r)) (opo_fields (OpCompileSource lib rx source))"
  shows "\<exists>out. evaluateResource lib rx None sid (opo_fields (OpCompileSource lib rx source)) r = (Inr out, None) \<and>
    or_provenance out = tr_provenance r \<and> or_failure out = None \<and>
    (if list_all (\<lambda>fp. plan_runs rx (tr_fields r) fp \<noteq> None) (opo_fields (OpCompileSource lib rx source))
     then or_state out = ResourceAccepted \<and> fields_after rx (opo_fields (OpCompileSource lib rx source)) (tr_fields r) (or_fields out)
     else or_state out = ResourceRejected \<and> or_fields out = [])"
proof -
  let ?plans = "opo_fields (OpCompileSource lib rx source)"
  have d: "distinct (map ofp_name ?plans)" using planned_plans(1)[OF assms(1-3)] by (cases ?plans) auto
  have fit: "list_all (fits lib rx (tr_fields r)) ?plans"
    using assms(6) planned_plans(2)[OF assms(1-3)] by (auto simp: list_all_iff list_ex_iff fits_def)
  have nd: "first_duplicate [] (map to_name (tr_fields r)) = None" using assms(5) by (simp add: first_duplicate_None)
  show ?thesis
    using opEvaluateFields_run[OF assms(2) d assms(5) fit, of sid "tr_provenance r"] assms(4) nd
    by (auto simp: evaluateResource_def Let_def split: if_splits)
qed

theorem evaluateResource_decision_witness:
  "\<exists>out. evaluateResource sample_lib sample_rx None ''pods'' (opo_fields (OpCompileSource sample_lib sample_rx (op_source 2))) op_resource = (Inr out, None) \<and>
     or_state out = ResourceAccepted \<and>
     fields_after sample_rx (opo_fields (OpCompileSource sample_lib sample_rx (op_source 2))) (tr_fields op_resource) (or_fields out)"
proof -
  let ?plans = "opo_fields (OpCompileSource sample_lib sample_rx (op_source 2))"
  have v: "OPlan_Valid (OpCompileSource sample_lib sample_rx (op_source 2))" and n: "source_native (op_source 2)" by code_simp+
  have r: "list_all (\<lambda>fp. plan_runs sample_rx (tr_fields op_resource) fp \<noteq> None) ?plans" by code_simp
  have p: "map ofp_name ?plans = [''age'', ''name'']" "map ofp_typeName ?plans = [''integer'', ''string'']"
    "map (\<lambda>p. length (ofp_operators p)) ?plans = [2, 0]" by code_simp+
  have i: "int64_range 3" by code_simp
  have pr: "\<not> list_ex (\<lambda>s. s = []) [prov_apiVersion (tr_provenance op_resource), prov_kind (tr_provenance op_resource),
      prov_name (tr_provenance op_resource), prov_uid (tr_provenance op_resource)]" "distinct (map to_name (tr_fields op_resource))" by code_simp+
  have "list_all (\<lambda>fp. list_ex (\<lambda>f. to_name f = ofp_name fp \<and> to_type f = ofp_typeName fp \<and>
           (ofp_operators fp \<noteq> [] \<longrightarrow> field_wf sample_lib (ofp_typeName fp) f)) (tr_fields op_resource)) ?plans"
    using p i by (cases ?plans; cases "tl ?plans")
      (auto simp: op_resource_def newValuesFieldOutcome_def field_wf_def IsSupportedType_def match_wf_def payload_wf_def)
  from evaluateResource_decision[OF v sample_lib_ok n pr this, of "''pods''"] show ?thesis unfolding if_P[OF r] by blast
qed

text \<open>C21: an operator batch yields one outcome per input, in order and under its identity.  A failed source carries no
  resource and no field error; an invalid plan reports its failures and evaluates nothing; otherwise every typed resource
  gets, in order, the decision it would get without cancellation, and the published bytes stay within the ceiling.\<close>

theorem EvaluateBatchWithLimit_outcomes:
  assumes "int64_range maxBytes"
  shows "list_all2 (\<lambda>(plan, input) out. source_evaluated lib rx canonicalSize maxBytes plan input out) inputs
    (EvaluateBatchWithLimit lib rx canonicalSize maxBytes c inputs)"
  unfolding EvaluateBatchWithLimit_def using assms by (rule evaluateSources_evaluated)

theorem EvaluateBatchWithLimit_outcomes_witness:
  "let inputs = [(OpCompileSource sample_lib sample_rx (op_source 2), op_typed), (OpCompileSource sample_lib sample_rx (op_source 5), op_typed)];
       outs = EvaluateBatchWithLimit sample_lib sample_rx (\<lambda>_. Some 5) 20 None inputs in
   map (\<lambda>o'. map or_state (os_resources o')) outs = [[ResourceAccepted], [ResourceRejected]] \<and>
   list_all2 (\<lambda>(plan, input) out. source_evaluated sample_lib sample_rx (\<lambda>_. Some 5) 20 plan input out) inputs outs"
  unfolding Let_def
  apply (intro conjI)
   apply code_simp
  apply (rule EvaluateBatchWithLimit_outcomes)
  apply code_simp
  done

end
