(* ===== verification/Aggregation.thy ===== *)
theory Aggregation
  imports Operators
begin

text \<open>
  Source-wide aggregation of \<^verbatim>\<open>src/internal/aggregation\<close>: limits (\<^verbatim>\<open>contracts.go\<close>), planning (\<^verbatim>\<open>planner.go\<close>),
  group keys (\<^verbatim>\<open>keys.go\<close>), grouping (\<^verbatim>\<open>grouping.go\<close>), reducers (\<^verbatim>\<open>reducers.go\<close>), batches with cardinality and byte
  limits (\<^verbatim>\<open>evaluator.go\<close>) and the projection into the published result (\<^verbatim>\<open>result.go\<close>).  A failure reason is its
  text, since operator reasons are passed on.  A plan entry is a failure or a plan, the only two the planner makes.
\<close>

section \<open>Types\<close>

record AggregateError =
  ae_sourceID :: string
  ae_aggregateName :: string
  ae_aggregateIndex :: int
  ae_function :: string
  ae_fieldName :: string
  ae_groupByIndex :: int
  ae_provenance :: "FacetResourceProvenance option"
  ae_reason :: string
  ae_message :: string

definition NewAggregateError ::
  "string \<Rightarrow> string \<Rightarrow> string \<Rightarrow> string \<Rightarrow> FacetResourceProvenance option \<Rightarrow> string \<Rightarrow> string \<Rightarrow> AggregateError" where
  "NewAggregateError sid name function field prov reason msg =
    \<lparr>ae_sourceID = sid, ae_aggregateName = name, ae_aggregateIndex = - 1, ae_function = function, ae_fieldName = field,
     ae_groupByIndex = - 1, ae_provenance = prov, ae_reason = reason, ae_message = msg\<rparr>"

record GroupFieldPlan =
  gf_name :: string
  gf_type :: string

record AggregatePlan =
  ap_sourceID :: string
  ap_name :: string
  ap_function :: string
  ap_field :: string
  ap_fieldType :: string
  ap_groupBy :: "GroupFieldPlan list"
  ap_includeProvenance :: bool
  ap_precision :: int
  ap_roundingMode :: string
  ap_limits :: AggregationBudgets

record AggPlanOutcome =
  apo_sourceID :: string
  apo_entries :: "(AggregateError, AggregatePlan) res list"

record 'q Contribution =
  co_match :: "'q Match"
  co_provenance :: FacetResourceProvenance
  co_matchIndex :: nat

record 'q AggregateKey =
  ak_field :: string
  ak_type :: string
  ak_match :: "'q Match"
  ak_canonical :: "nat list"

record 'q AggregateValueMatch =
  avm_match :: "'q Match"
  avm_contributors :: "FacetResourceProvenance list"

record 'q AggregateValue =
  av_type :: string
  av_state :: string
  av_matches :: "'q AggregateValueMatch list"

record 'q AggregateGroup =
  ag_keys :: "'q AggregateKey list"
  ag_value :: "'q AggregateValue"
  ag_contributors :: "FacetResourceProvenance list"

record ResourceFailure =
  rf_provenance :: FacetResourceProvenance
  rf_err :: AggregateError

record 'q AggregateOutcome =
  ao_name :: string
  ao_function :: string
  ao_field :: string
  ao_state :: string
  ao_groups :: "'q AggregateGroup list"
  ao_failures :: "ResourceFailure list"
  ao_err :: "AggregateError option"

record 'q AggSourceOutcome =
  as_sourceID :: string
  as_operator :: "'q OSourceOutcome"
  as_aggregates :: "'q AggregateOutcome list"
  as_err :: "AggregateError option"

section \<open>Limits and planning\<close>

definition LimitsFromProfile :: "Profile \<Rightarrow> AggregationBudgets" where
  "LimitsFromProfile p = aggregation p"

definition DefaultLimits :: AggregationBudgets where
  "DefaultLimits = LimitsFromProfile DefaultProfile"

definition normalizeLimits :: "AggregationBudgets \<Rightarrow> AggregationBudgets" where
  "normalizeLimits input =
    (let d = DefaultLimits; pick = (\<lambda>v w. if v \<le> 0 then w else v) in
     \<lparr>MaxGroups = pick (MaxGroups input) (MaxGroups d), MaxContributions = pick (MaxContributions input) (MaxContributions d),
      MaxCollectedValues = pick (MaxCollectedValues input) (MaxCollectedValues d),
      MaxDistinctValues = pick (MaxDistinctValues input) (MaxDistinctValues d),
      MaxProvenanceEntries = pick (MaxProvenanceEntries input) (MaxProvenanceEntries d)\<rparr>)"

abbreviation planningFailure :: "string \<Rightarrow> string \<Rightarrow> string \<Rightarrow> string \<Rightarrow> string \<Rightarrow> string \<Rightarrow> AggregateError" where
  "planningFailure sid name function field reason msg \<equiv> NewAggregateError sid name function field None reason msg"

definition supportedGroupType :: "string \<Rightarrow> bool" where
  "supportedGroupType t \<longleftrightarrow> t \<in> set [''string'', ''integer'', ''number'', ''boolean'', ''timestamp'', ''duration'', ''quantity'']"

definition compatibleFunction :: "string \<Rightarrow> string \<Rightarrow> bool" where
  "compatibleFunction function t =
    (if function \<in> set [''collect'', ''count'', ''first'', ''last'', ''distinct''] then IsSupportedType t
     else if function = ''sum'' then t \<in> set [''integer'', ''number'', ''duration'', ''quantity'']
     else if function = ''average'' then t = ''integer'' \<or> t = ''number''
     else if function = ''min'' \<or> function = ''max'' then supportedGroupType t
     else False)"

definition aggSupportedRoundingMode :: "string \<Rightarrow> bool" where
  "aggSupportedRoundingMode mode \<longleftrightarrow> mode \<in> set [''halfEven'', ''halfAwayFromZero'', ''towardZero'', ''awayFromZero'']"

text \<open>The type of a field is that of its first declaration.\<close>

definition fieldTypes :: "FacetField list \<Rightarrow> string \<Rightarrow> string option" where
  "fieldTypes fs name = map_option ff_type (find_first (\<lambda>f. ff_name f = name) fs)"

fun planGroupBy ::
  "string \<Rightarrow> FacetAggregation \<Rightarrow> (string \<Rightarrow> string option) \<Rightarrow> string list \<Rightarrow> nat \<Rightarrow> string list \<Rightarrow> (AggregateError, GroupFieldPlan list) res" where
  "planGroupBy sid d types seen i [] = Inr []"
| "planGroupBy sid d types seen i (g # gs) =
    (let failed = (\<lambda>reason msg. Inl ((planningFailure sid (fa_name d) (fa_function d) g reason msg)\<lparr>ae_groupByIndex := int i\<rparr>)) in
     if g \<in> set seen then failed ''duplicate-group-field'' ''grouping field is duplicated''
     else case types g of
       None \<Rightarrow> failed ''unknown-field'' ''grouping field is not declared''
     | Some t \<Rightarrow>
        if \<not> supportedGroupType t then failed ''unsupported-group-type'' ''grouping field type is not orderable''
        else res_bind (planGroupBy sid d types (g # seen) (Suc i) gs) (\<lambda>rest. Inr (\<lparr>gf_name = g, gf_type = t\<rparr> # rest)))"

definition averageOptions :: "FacetAggregation \<Rightarrow> (string, int \<times> string) res" where
  "averageOptions d =
    (if fa_function d \<noteq> ''average'' then
       (if fa_precision d \<noteq> None \<or> fa_roundingMode d \<noteq> [] then Inl ''precision and roundingMode are valid only for average''
        else Inr (0, []))
     else
       (let precision = (case fa_precision d of None \<Rightarrow> 6 | Some p \<Rightarrow> p);
            mode = (if fa_roundingMode d = [] then ''halfEven'' else fa_roundingMode d) in
        if precision < 0 \<or> precision > 18 then Inl ''average precision is outside the supported range''
        else if \<not> aggSupportedRoundingMode mode then Inl ''average roundingMode is unsupported''
        else Inr (precision, mode)))"

definition planDeclaration ::
  "string \<Rightarrow> FacetAggregation \<Rightarrow> (string \<Rightarrow> string option) \<Rightarrow> AggregationBudgets \<Rightarrow> (AggregateError, AggregatePlan) res" where
  "planDeclaration sid d types lims =
    (let failed = (\<lambda>reason msg. Inl (planningFailure sid (fa_name d) (fa_function d) (fa_field d) reason msg)) in
     if fa_name d = [] then failed ''invalid-input'' ''aggregate name is invalid''
     else if fa_field d = [] then failed ''unknown-field'' ''aggregate target field is not declared''
     else case types (fa_field d) of
       None \<Rightarrow> failed ''unknown-field'' ''aggregate target field is not declared''
     | Some t \<Rightarrow>
        if \<not> IsSupportedType t then failed ''unknown-field'' ''aggregate target field type is unsupported''
        else if \<not> compatibleFunction (fa_function d) t then
          failed ''incompatible-function'' ''aggregate function is incompatible with the target field type''
        else
          (case planGroupBy sid d types [] 0 (fa_groupBy d) of
             Inl e \<Rightarrow> Inl e
           | Inr groupBy \<Rightarrow>
              (case averageOptions d of
                 Inl msg \<Rightarrow> failed ''invalid-average-options'' msg
               | Inr (precision, mode) \<Rightarrow>
                   Inr \<lparr>ap_sourceID = sid, ap_name = fa_name d, ap_function = fa_function d, ap_field = fa_field d, ap_fieldType = t,
                        ap_groupBy = groupBy, ap_includeProvenance = fa_includeProvenance d, ap_precision = precision,
                        ap_roundingMode = mode, ap_limits = lims\<rparr>)))"

definition atAggregate :: "nat \<Rightarrow> AggregateError \<Rightarrow> AggregateError" where
  "atAggregate i e = e\<lparr>ae_aggregateIndex := int i\<rparr>"

definition planEntry ::
  "FacetSource \<Rightarrow> AggregationBudgets \<Rightarrow> FacetAggregation \<times> nat \<Rightarrow> (AggregateError, AggregatePlan) res" where
  "planEntry source lims x = (case x of (d, i) \<Rightarrow>
     if length (filter (\<lambda>a. fa_name a = fa_name d) (fs_aggregations source)) > 1 then
       Inl (atAggregate i (planningFailure (fs_id source) (fa_name d) (fa_function d) (fa_field d)
         ''duplicate-aggregate'' ''aggregate name is duplicated''))
     else case planDeclaration (fs_id source) d (fieldTypes (fs_fields source)) lims of
       Inl e \<Rightarrow> Inl (atAggregate i e)
     | Inr p \<Rightarrow> Inr p)"

definition PlanSource :: "FacetSource \<Rightarrow> AggregationBudgets \<Rightarrow> AggPlanOutcome" where
  "PlanSource source input =
    (let lims = normalizeLimits input in
     \<lparr>apo_sourceID = fs_id source,
      apo_entries =
        (if fs_id source = [] then [Inl (planningFailure (fs_id source) [] [] [] ''invalid-input'' ''source identity is invalid'')]
         else map (planEntry source lims)
           (sort_by (\<lambda>a b. fa_name (fst a) < fa_name (fst b)) (zip (fs_aggregations source) [0..<length (fs_aggregations source)])))\<rparr>)"

definition PlanBatch :: "FacetSource list \<Rightarrow> AggregationBudgets \<Rightarrow> AggPlanOutcome list" where
  "PlanBatch sources input = map (\<lambda>s. PlanSource s input) sources"

section \<open>Keys\<close>

definition makeAggregateKey :: "'q TypedLib \<Rightarrow> GroupFieldPlan \<Rightarrow> 'q Match \<Rightarrow> 'q AggregateKey option" where
  "makeAggregateKey lib g m =
    (if m_value m = None \<or> m_type m \<noteq> gf_type g then None
     else case CanonicalKey lib (gf_type g) m of
       Inl _ \<Rightarrow> None
     | Inr k \<Rightarrow> Some \<lparr>ak_field = gf_name g, ak_type = gf_type g, ak_match = m, ak_canonical = k\<rparr>)"

definition BooleanValue :: "'q Match \<Rightarrow> bool" where
  "BooleanValue m = (case m_value m of Some (VBoolean b) \<Rightarrow> b | _ \<Rightarrow> False)"

definition compareKeyValues :: "'q TypedLib \<Rightarrow> 'q AggregateKey \<Rightarrow> 'q AggregateKey \<Rightarrow> int" where
  "compareKeyValues lib l r =
    (if ak_type l \<noteq> ak_type r then (if ak_type l < ak_type r then - 1 else 1)
     else if ak_type l = ''boolean'' then
       (if BooleanValue (ak_match l) = BooleanValue (ak_match r) then 0 else if \<not> BooleanValue (ak_match l) then - 1 else 1)
     else case CompareMatches lib (ak_match l) (ak_match r) of
       Inr c \<Rightarrow> c
     | Inl _ \<Rightarrow> cmp (ak_canonical l) (ak_canonical r))"

fun compareKeyTuples :: "'q TypedLib \<Rightarrow> 'q AggregateKey list \<Rightarrow> 'q AggregateKey list \<Rightarrow> int" where
  "compareKeyTuples lib [] [] = 0"
| "compareKeyTuples lib [] (r # rs) = - 1"
| "compareKeyTuples lib (l # ls) [] = 1"
| "compareKeyTuples lib (l # ls) (r # rs) =
    (let c = compareKeyValues lib l r in if c \<noteq> 0 then c else compareKeyTuples lib ls rs)"

definition equalKeyTuples :: "'q AggregateKey list \<Rightarrow> 'q AggregateKey list \<Rightarrow> bool" where
  "equalKeyTuples ls rs \<longleftrightarrow> list_all2 (\<lambda>l r. ak_type l = ak_type r \<and> ak_canonical l = ak_canonical r) ls rs"

section \<open>Grouping\<close>

record 'q contributionGroup =
  cg_keys :: "'q AggregateKey list"
  cg_contributions :: "'q Contribution list"
  cg_contributors :: "FacetResourceProvenance list"

record 'q groupingResult =
  gr_groups :: "'q contributionGroup list"
  gr_failures :: "ResourceFailure list"
  gr_contributions :: int

fun compare_texts :: "(string \<times> string) list \<Rightarrow> int" where
  "compare_texts [] = 0"
| "compare_texts ((a, b) # rest) = (if a < b then - 1 else if b < a then 1 else compare_texts rest)"

definition compareProvenance :: "FacetResourceProvenance \<Rightarrow> FacetResourceProvenance \<Rightarrow> int" where
  "compareProvenance l r = compare_texts [(prov_namespace l, prov_namespace r), (prov_name l, prov_name r), (prov_uid l, prov_uid r),
     (prov_apiVersion l, prov_apiVersion r), (prov_kind l, prov_kind r)]"

definition compareContributions :: "'q Contribution \<Rightarrow> 'q Contribution \<Rightarrow> int" where
  "compareContributions l r =
    (let c = compareProvenance (co_provenance l) (co_provenance r) in
     if c \<noteq> 0 then c
     else if co_matchIndex l < co_matchIndex r then - 1 else if co_matchIndex l > co_matchIndex r then 1 else 0)"

definition appendUniqueProvenance :: "FacetResourceProvenance list \<Rightarrow> FacetResourceProvenance \<Rightarrow> FacetResourceProvenance list" where
  "appendUniqueProvenance ps p = (if list_ex (\<lambda>q. compareProvenance q p = 0) ps then ps else ps @ [p])"

definition aggregateFailure :: "AggregatePlan \<Rightarrow> string \<Rightarrow> FacetResourceProvenance option \<Rightarrow> string \<Rightarrow> string \<Rightarrow> AggregateError" where
  "aggregateFailure plan field prov reason msg = NewAggregateError (ap_sourceID plan) (ap_name plan) (ap_function plan) field prov reason msg"

definition findTypedField :: "'q TFieldOutcome list \<Rightarrow> string \<Rightarrow> 'q TFieldOutcome option" where
  "findTypedField fs name = find_first (\<lambda>f. to_name f = name) fs"

definition validateProvenance :: "AggregatePlan \<Rightarrow> FacetResourceProvenance \<Rightarrow> AggregateError option" where
  "validateProvenance plan prov =
    (if prov_apiVersion prov = [] \<or> prov_kind prov = [] \<or> prov_name prov = [] \<or> prov_uid prov = []
     then Some (aggregateFailure plan (ap_field plan) (Some prov) ''invalid-input'' ''resource provenance is incomplete'') else None)"

definition groupingKey ::
  "'q TypedLib \<Rightarrow> AggregatePlan \<Rightarrow> 'q TFieldOutcome list \<Rightarrow> FacetResourceProvenance \<Rightarrow> GroupFieldPlan \<Rightarrow> (AggregateError, 'q AggregateKey) res" where
  "groupingKey lib plan fs prov g =
    (let failed = (\<lambda>msg. Inl (aggregateFailure plan (gf_name g) (Some prov) ''invalid-group-key'' msg));
         notOne = ''grouping field does not contain exactly one non-null match'' in
     case findTypedField fs (gf_name g) of
       None \<Rightarrow> failed notOne
     | Some f \<Rightarrow>
        if to_state f = FieldStateAbsent \<or> to_state f = FieldStateError then failed notOne
        else case to_matches f of
          [m] \<Rightarrow>
            if m_value m = None then failed notOne
            else (case makeAggregateKey lib g m of
                    None \<Rightarrow> failed ''grouping field match is invalid''
                  | Some k \<Rightarrow> Inr k)
        | _ \<Rightarrow> failed notOne)"

definition groupingKeys ::
  "'q TypedLib \<Rightarrow> AggregatePlan \<Rightarrow> 'q TFieldOutcome list \<Rightarrow> FacetResourceProvenance \<Rightarrow> (AggregateError, 'q AggregateKey list) res" where
  "groupingKeys lib plan fs prov = res_map_list (groupingKey lib plan fs prov) (ap_groupBy plan)"

definition targetField ::
  "AggregatePlan \<Rightarrow> 'q TFieldOutcome list \<Rightarrow> FacetResourceProvenance \<Rightarrow> (AggregateError, 'q TFieldOutcome) res" where
  "targetField plan fs prov =
    (case findTypedField fs (ap_field plan) of
       None \<Rightarrow> Inl (aggregateFailure plan (ap_field plan) (Some prov) ''target-field-error'' ''target field outcome is missing'')
     | Some f \<Rightarrow>
        if to_state f = FieldStateError
        then Inl (aggregateFailure plan (ap_field plan) (Some prov) ''target-field-error'' ''target field outcome is unsuccessful'')
        else Inr f)"

definition emptyGroup :: "'q AggregateKey list \<Rightarrow> 'q contributionGroup" where
  "emptyGroup keys = \<lparr>cg_keys = keys, cg_contributions = [], cg_contributors = []\<rparr>"

definition ensureGlobalGroup :: "AggregatePlan \<Rightarrow> 'q groupingResult \<Rightarrow> 'q groupingResult" where
  "ensureGlobalGroup plan r = (if ap_groupBy plan = [] \<and> gr_groups r = [] then r\<lparr>gr_groups := [emptyGroup []]\<rparr> else r)"

definition operatorResourceFailure :: "AggregatePlan \<Rightarrow> 'q OResourceOutcome \<Rightarrow> ResourceFailure" where
  "operatorResourceFailure plan r =
    \<lparr>rf_provenance = or_provenance r, rf_err =
      (case or_failure r of
         None \<Rightarrow> aggregateFailure plan (ap_field plan) (Some (or_provenance r)) ''invalid-input'' ''operator resource outcome is unsuccessful''
       | Some e \<Rightarrow> aggregateFailure plan (ap_field plan) (Some (or_provenance r)) (op_reason_text (oe_reason e)) (oe_message e))\<rparr>"

definition hasGroup :: "'q contributionGroup list \<Rightarrow> 'q AggregateKey list \<Rightarrow> bool" where
  "hasGroup groups keys \<longleftrightarrow> list_ex (\<lambda>g. equalKeyTuples (cg_keys g) keys) groups"

definition contributeTo :: "'q Contribution \<Rightarrow> 'q contributionGroup \<Rightarrow> 'q contributionGroup" where
  "contributeTo c g = g\<lparr>cg_contributions := cg_contributions g @ [c],
     cg_contributors := appendUniqueProvenance (cg_contributors g) (co_provenance c)\<rparr>"

text \<open>The first group with these keys, made at the end when there is none.\<close>

fun addToGroup :: "'q AggregateKey list \<Rightarrow> 'q Contribution \<Rightarrow> 'q contributionGroup list \<Rightarrow> 'q contributionGroup list" where
  "addToGroup keys c [] = [contributeTo c (emptyGroup keys)]"
| "addToGroup keys c (g # gs) = (if equalKeyTuples (cg_keys g) keys then contributeTo c g # gs else g # addToGroup keys c gs)"

datatype group_stop = GroupInterrupted | GroupLimit AggregateError

fun contributeMatches ::
  "AggregatePlan \<Rightarrow> 'q AggregateKey list \<Rightarrow> FacetResourceProvenance \<Rightarrow> ctx \<Rightarrow> nat \<Rightarrow> 'q groupingResult \<Rightarrow> 'q Match list \<Rightarrow>
   (group_stop, 'q groupingResult) res \<times> ctx" where
  "contributeMatches plan keys prov c i r [] = (Inr r, c)"
| "contributeMatches plan keys prov c i r (m # ms) =
    (case ctx_err c of
       (True, c1) \<Rightarrow> (Inl GroupInterrupted, c1)
     | (False, c1) \<Rightarrow>
        if m_value m = None then contributeMatches plan keys prov c1 (Suc i) r ms
        else if gr_contributions r \<ge> MaxContributions (ap_limits plan) then
          (Inl (GroupLimit (aggregateFailure plan (ap_field plan) None ''cardinality-exceeded'' ''aggregate contribution limit exceeded'')), c1)
        else if \<not> hasGroup (gr_groups r) keys \<and> int (length (gr_groups r)) \<ge> MaxGroups (ap_limits plan) then
          (Inl (GroupLimit (aggregateFailure plan (ap_field plan) None ''cardinality-exceeded'' ''aggregate group limit exceeded'')), c1)
        else contributeMatches plan keys prov c1 (Suc i)
          (r\<lparr>gr_groups := addToGroup keys \<lparr>co_match = m, co_provenance = prov, co_matchIndex = i\<rparr> (gr_groups r),
             gr_contributions := gr_contributions r + 1\<rparr>) ms)"

definition failGroup :: "'q groupingResult \<Rightarrow> FacetResourceProvenance \<Rightarrow> AggregateError \<Rightarrow> 'q groupingResult" where
  "failGroup r prov e = r\<lparr>gr_failures := gr_failures r @ [\<lparr>rf_provenance = prov, rf_err = e\<rparr>]\<rparr>"

text \<open>One accepted resource whose identity was not seen before.\<close>

definition groupAccepted ::
  "'q TypedLib \<Rightarrow> AggregatePlan \<Rightarrow> ctx \<Rightarrow> 'q groupingResult \<Rightarrow> 'q OResourceOutcome \<Rightarrow> (group_stop, 'q groupingResult) res \<times> ctx" where
  "groupAccepted lib plan c r resource =
    (let prov = or_provenance resource; fs = or_fields resource in
     case groupingKeys lib plan fs prov of
       Inl e \<Rightarrow> (Inr (failGroup r prov e), c)
     | Inr keys \<Rightarrow>
        (case targetField plan fs prov of
           Inl e \<Rightarrow> (Inr (failGroup r prov e), c)
         | Inr target \<Rightarrow>
            if to_state target = FieldStateAbsent \<or> to_matches target = [] then (Inr (ensureGlobalGroup plan r), c)
            else (case contributeMatches plan keys prov c 0 r (to_matches target) of
                    (Inl s, c1) \<Rightarrow> (Inl s, c1)
                  | (Inr r1, c1) \<Rightarrow> (Inr (ensureGlobalGroup plan r1), c1))))"

text \<open>The loop over the resources of the source; \<open>seen\<close> are the identities counted so far.\<close>

fun groupResources ::
  "'q TypedLib \<Rightarrow> AggregatePlan \<Rightarrow> ctx \<Rightarrow> string list \<Rightarrow> 'q groupingResult \<Rightarrow> 'q OResourceOutcome list \<Rightarrow>
   (group_stop, 'q groupingResult) res \<times> ctx" where
  "groupResources lib plan c seen r [] = (Inr r, c)"
| "groupResources lib plan c seen r (x # xs) =
    (case ctx_err c of
       (True, c1) \<Rightarrow> (Inl GroupInterrupted, c1)
     | (False, c1) \<Rightarrow>
        (let prov = or_provenance x; uid = prov_uid prov in
         case or_state x of
           ResourceRejected \<Rightarrow> groupResources lib plan c1 seen r xs
         | ResourceUnsuccessful \<Rightarrow>
             if uid \<noteq> [] \<and> uid \<in> set seen then groupResources lib plan c1 seen r xs
             else groupResources lib plan c1 (if uid \<noteq> [] then uid # seen else seen)
               (r\<lparr>gr_failures := gr_failures r @ [operatorResourceFailure plan x]\<rparr>) xs
         | ResourceAccepted \<Rightarrow>
             (case validateProvenance plan prov of
                Some e \<Rightarrow> groupResources lib plan c1 seen (failGroup r prov e) xs
              | None \<Rightarrow>
                 if uid \<in> set seen then groupResources lib plan c1 seen r xs
                 else (case groupAccepted lib plan c1 r x of
                         (Inl s, c2) \<Rightarrow> (Inl s, c2)
                       | (Inr r1, c2) \<Rightarrow> groupResources lib plan c2 (uid # seen) r1 xs))))"

definition sortGroup :: "'q contributionGroup \<Rightarrow> 'q contributionGroup" where
  "sortGroup g = g\<lparr>cg_contributions := sort_by (\<lambda>a b. compareContributions a b < 0) (cg_contributions g),
     cg_contributors := sort_by (\<lambda>a b. compareProvenance a b < 0) (cg_contributors g)\<rparr>"

definition formGroups ::
  "'q TypedLib \<Rightarrow> ctx \<Rightarrow> AggregatePlan \<Rightarrow> 'q OSourceOutcome \<Rightarrow> (group_stop, 'q groupingResult) res \<times> ctx" where
  "formGroups lib c plan source =
    (case groupResources lib plan c [] \<lparr>gr_groups = [], gr_failures = [], gr_contributions = 0\<rparr> (os_resources source) of
       (Inl s, c1) \<Rightarrow> (Inl s, c1)
     | (Inr r, c1) \<Rightarrow>
        (Inr (r\<lparr>gr_groups := sort_by (\<lambda>a b. compareKeyTuples lib (cg_keys a) (cg_keys b) < 0) (map sortGroup (gr_groups r)),
           gr_failures := sort_by (\<lambda>a b. compareProvenance (rf_provenance a) (rf_provenance b) < 0) (gr_failures r)\<rparr>), c1))"

section \<open>Reducers\<close>

datatype reduce_stop = ReduceInterrupted | ReduceFailed AggregateError

definition reducerError :: "AggregatePlan \<Rightarrow> string \<Rightarrow> string \<Rightarrow> AggregateError" where
  "reducerError plan reason msg = aggregateFailure plan (ap_field plan) None reason msg"

definition provenanceForValue :: "AggregatePlan \<Rightarrow> 'q Contribution \<Rightarrow> FacetResourceProvenance list" where
  "provenanceForValue plan c = (if ap_includeProvenance plan then [co_provenance c] else [])"

fun exactContributionSum ::
  "AggregatePlan \<Rightarrow> ctx \<Rightarrow> rat \<Rightarrow> 'q Contribution list \<Rightarrow> (reduce_stop, rat) res \<times> ctx" where
  "exactContributionSum plan c sofar [] = (Inr sofar, c)"
| "exactContributionSum plan c sofar (x # xs) =
    (case ctx_err c of
       (True, c1) \<Rightarrow> (Inl ReduceInterrupted, c1)
     | (False, c1) \<Rightarrow>
        (case ExactRational (ap_fieldType plan) (co_match x) of
           Inl _ \<Rightarrow> (Inl (ReduceFailed (reducerError plan ''invalid-input'' ''numeric contribution is invalid'')), c1)
         | Inr v \<Rightarrow> exactContributionSum plan c1 (sofar + v) xs))"

fun collectMatches :: "AggregatePlan \<Rightarrow> ctx \<Rightarrow> 'q Contribution list \<Rightarrow> (reduce_stop, 'q AggregateValueMatch list) res \<times> ctx" where
  "collectMatches plan c [] = (Inr [], c)"
| "collectMatches plan c (x # xs) =
    (case ctx_err c of
       (True, c1) \<Rightarrow> (Inl ReduceInterrupted, c1)
     | (False, c1) \<Rightarrow>
        (case collectMatches plan c1 xs of
           (Inl s, c2) \<Rightarrow> (Inl s, c2)
         | (Inr ms, c2) \<Rightarrow> (Inr (\<lparr>avm_match = co_match x, avm_contributors = provenanceForValue plan x\<rparr> # ms), c2)))"

fun extremum :: "'q TypedLib \<Rightarrow> AggregatePlan \<Rightarrow> ctx \<Rightarrow> 'q Match \<Rightarrow> 'q Contribution list \<Rightarrow> (reduce_stop, 'q Match) res \<times> ctx" where
  "extremum lib plan c selected [] = (Inr selected, c)"
| "extremum lib plan c selected (x # xs) =
    (case ctx_err c of
       (True, c1) \<Rightarrow> (Inl ReduceInterrupted, c1)
     | (False, c1) \<Rightarrow>
        (case CompareMatches lib (co_match x) selected of
           Inl _ \<Rightarrow> (Inl (ReduceFailed (reducerError plan ''invalid-input'' ''extrema comparison is invalid'')), c1)
         | Inr k \<Rightarrow>
            extremum lib plan c1
              (if (ap_function plan = ''min'' \<and> k < 0) \<or> (ap_function plan = ''max'' \<and> k > 0) then co_match x else selected) xs))"

text \<open>The values found so far, each with its key, in order of first appearance.\<close>

fun noteDistinct ::
  "AggregatePlan \<Rightarrow> nat list \<Rightarrow> 'q Contribution \<Rightarrow> (nat list \<times> 'q AggregateValueMatch) list \<Rightarrow> (nat list \<times> 'q AggregateValueMatch) list" where
  "noteDistinct plan key x [] = [(key, \<lparr>avm_match = co_match x, avm_contributors = provenanceForValue plan x\<rparr>)]"
| "noteDistinct plan key x ((k, v) # rest) =
    (if k = key then
       (k, if ap_includeProvenance plan then v\<lparr>avm_contributors := appendUniqueProvenance (avm_contributors v) (co_provenance x)\<rparr> else v) # rest
     else (k, v) # noteDistinct plan key x rest)"

fun distinctMatches ::
  "'q TypedLib \<Rightarrow> AggregatePlan \<Rightarrow> ctx \<Rightarrow> (nat list \<times> 'q AggregateValueMatch) list \<Rightarrow> 'q Contribution list \<Rightarrow>
   (reduce_stop, (nat list \<times> 'q AggregateValueMatch) list) res \<times> ctx" where
  "distinctMatches lib plan c found [] = (Inr found, c)"
| "distinctMatches lib plan c found (x # xs) =
    (case ctx_err c of
       (True, c1) \<Rightarrow> (Inl ReduceInterrupted, c1)
     | (False, c1) \<Rightarrow>
        (case CanonicalKey lib (ap_fieldType plan) (co_match x) of
           Inl _ \<Rightarrow> (Inl (ReduceFailed (reducerError plan ''invalid-input'' ''distinct value key is invalid'')), c1)
         | Inr key \<Rightarrow> distinctMatches lib plan c1 (noteDistinct plan key x found) xs))"

definition plainValue :: "string \<Rightarrow> 'q Match \<Rightarrow> 'q AggregateValue" where
  "plainValue t m = \<lparr>av_type = t, av_state = ''values'', av_matches = [\<lparr>avm_match = m, avm_contributors = []\<rparr>]\<rparr>"

definition absentValue :: "string \<Rightarrow> 'q AggregateValue" where
  "absentValue t = \<lparr>av_type = t, av_state = ''absent'', av_matches = []\<rparr>"

definition sumMatch :: "'q TypedLib \<Rightarrow> AggregatePlan \<Rightarrow> ctx \<Rightarrow> 'q Contribution list \<Rightarrow> (reduce_stop, 'q Match) res \<times> ctx" where
  "sumMatch lib plan c xs =
    (case exactContributionSum plan c 0 xs of
       (Inl s, c1) \<Rightarrow> (Inl s, c1)
     | (Inr v, c1) \<Rightarrow>
        (case MatchFromExact lib (ap_fieldType plan) v of
           Inl _ \<Rightarrow> (Inl (ReduceFailed (reducerError plan ''overflow'' ''sum result could not be represented'')), c1)
         | Inr m \<Rightarrow> (Inr m, c1)))"

definition averageMatch :: "'q TypedLib \<Rightarrow> AggregatePlan \<Rightarrow> ctx \<Rightarrow> 'q Contribution list \<Rightarrow> (reduce_stop, 'q Match) res \<times> ctx" where
  "averageMatch lib plan c xs =
    (case exactContributionSum plan c 0 xs of
       (Inl s, c1) \<Rightarrow> (Inl s, c1)
     | (Inr v, c1) \<Rightarrow>
        (case MatchFromExactNumber lib (v / of_nat (length xs)) (ap_precision plan) (ap_roundingMode plan) of
           Inl _ \<Rightarrow> (Inl (ReduceFailed (reducerError plan ''overflow'' ''average result could not be represented'')), c1)
         | Inr m \<Rightarrow> (Inr m, c1)))"

definition with_value :: "(reduce_stop, 'a) res \<times> ctx \<Rightarrow> ('a \<Rightarrow> 'q AggregateValue) \<Rightarrow> (reduce_stop, 'q AggregateValue) res \<times> ctx" where
  "with_value r f = (case r of (Inl s, c) \<Rightarrow> (Inl s, c) | (Inr a, c) \<Rightarrow> (Inr (f a), c))"

definition reduceGroup ::
  "'q TypedLib \<Rightarrow> ctx \<Rightarrow> AggregatePlan \<Rightarrow> 'q contributionGroup \<Rightarrow> (reduce_stop, 'q AggregateValue) res \<times> ctx" where
  "reduceGroup lib c plan g =
    (let t = ap_fieldType plan; xs = cg_contributions g; fn = ap_function plan in
     if fn = ''collect'' then with_value (collectMatches plan c xs) (\<lambda>ms. \<lparr>av_type = t, av_state = ''values'', av_matches = ms\<rparr>)
     else if fn = ''count'' then
       (case ConvertConfiguredMatch lib (ap_sourceID plan) (ap_name plan) ''integer'' (JInt (int (length xs))) of
          Inl _ \<Rightarrow> (Inl (ReduceFailed (reducerError plan ''invalid-input'' ''count result could not be constructed'')), c)
        | Inr m \<Rightarrow> (Inr (plainValue ''integer'' m), c))
     else if fn = ''sum'' then with_value (sumMatch lib plan c xs) (plainValue t)
     else if fn = ''average'' then
       (if xs = [] then (Inr (absentValue t), c) else with_value (averageMatch lib plan c xs) (plainValue ''number''))
     else if fn = ''min'' \<or> fn = ''max'' then
       (case xs of [] \<Rightarrow> (Inr (absentValue t), c) | x # rest \<Rightarrow> with_value (extremum lib plan c (co_match x) rest) (plainValue t))
     else if fn = ''first'' then
       (case xs of [] \<Rightarrow> (Inr (absentValue t), c) | x # _ \<Rightarrow> (Inr (plainValue t (co_match x)), c))
     else if fn = ''last'' then
       (case xs of [] \<Rightarrow> (Inr (absentValue t), c) | _ # _ \<Rightarrow> (Inr (plainValue t (co_match (last xs))), c))
     else if fn = ''distinct'' then
       with_value (distinctMatches lib plan c [] xs) (\<lambda>ms. \<lparr>av_type = t, av_state = ''values'', av_matches = map snd ms\<rparr>)
     else (Inl (ReduceFailed (reducerError plan ''invalid-input'' ''aggregate function is not supported'')), c))"

fun reduceGroups ::
  "'q TypedLib \<Rightarrow> ctx \<Rightarrow> AggregatePlan \<Rightarrow> 'q contributionGroup list \<Rightarrow> (reduce_stop, 'q AggregateGroup list) res \<times> ctx" where
  "reduceGroups lib c plan [] = (Inr [], c)"
| "reduceGroups lib c plan (g # gs) =
    (case ctx_err c of
       (True, c1) \<Rightarrow> (Inl ReduceInterrupted, c1)
     | (False, c1) \<Rightarrow>
        (case reduceGroup lib c1 plan g of
           (Inl s, c2) \<Rightarrow> (Inl s, c2)
         | (Inr v, c2) \<Rightarrow>
            (case reduceGroups lib c2 plan gs of
               (Inl s, c3) \<Rightarrow> (Inl s, c3)
             | (Inr rest, c3) \<Rightarrow>
                (Inr (\<lparr>ag_keys = cg_keys g, ag_value = v,
                       ag_contributors = (if ap_includeProvenance plan then cg_contributors g else [])\<rparr> # rest), c3))))"

definition errorAggregate :: "string \<Rightarrow> string \<Rightarrow> string \<Rightarrow> AggregateError \<Rightarrow> 'q AggregateOutcome" where
  "errorAggregate name function field e = \<lparr>ao_name = name, ao_function = function, ao_field = field, ao_state = ''error'',
     ao_groups = [], ao_failures = [], ao_err = Some e\<rparr>"

text \<open>\<open>Inl\<close> is an interruption; any other failure is an error outcome without groups.\<close>

definition reduceAggregate ::
  "'q TypedLib \<Rightarrow> ctx \<Rightarrow> AggregatePlan \<Rightarrow> 'q contributionGroup list \<Rightarrow> ResourceFailure list \<Rightarrow> (unit, 'q AggregateOutcome) res \<times> ctx" where
  "reduceAggregate lib c plan groups failures =
    (let gs = (if groups = [] \<and> ap_groupBy plan = [] then [emptyGroup []] else groups) in
     case reduceGroups lib c plan gs of
       (Inl ReduceInterrupted, c1) \<Rightarrow> (Inl (), c1)
     | (Inl (ReduceFailed e), c1) \<Rightarrow> (Inr (errorAggregate (ap_name plan) (ap_function plan) (ap_field plan) e), c1)
     | (Inr out, c1) \<Rightarrow>
        (Inr \<lparr>ao_name = ap_name plan, ao_function = ap_function plan, ao_field = ap_field plan,
              ao_state = (if failures = [] then ''values'' else ''degraded''), ao_groups = out, ao_failures = failures, ao_err = None\<rparr>, c1))"

section \<open>Published result\<close>

definition publicAggregateError :: "AggregateError \<Rightarrow> FacetResultError" where
  "publicAggregateError e = \<lparr>fre_reason = ae_reason e, fre_message = ae_message e\<rparr>"

definition projectProvenance :: "FacetResourceProvenance \<Rightarrow> (string, FacetResourceProvenance) res" where
  "projectProvenance p =
    (if prov_apiVersion p = [] \<or> prov_kind p = [] \<or> prov_name p = [] \<or> prov_uid p = []
     then Inl ''aggregate provenance is incomplete'' else Inr p)"

definition projectProvenances :: "FacetResourceProvenance list \<Rightarrow> (string, FacetResourceProvenance list) res" where
  "projectProvenances ps = res_map_list projectProvenance ps"

definition ProjectMatch :: "'q TypedLib \<Rightarrow> 'q Match \<Rightarrow> (string, FacetTypedMatch) res" where
  "ProjectMatch lib m = buildMatch lib m (m_type m)"

definition projectAggregateMatch :: "'q TypedLib \<Rightarrow> 'q AggregateValueMatch \<Rightarrow> (string, FacetAggregateMatch) res" where
  "projectAggregateMatch lib m =
    res_bind (ProjectMatch lib (avm_match m)) (\<lambda>v.
    res_bind (projectProvenances (avm_contributors m)) (\<lambda>ps. Inr \<lparr>fam_value = v, fam_contributors = ps\<rparr>))"

definition projectAggregateValue :: "'q TypedLib \<Rightarrow> 'q AggregateValue \<Rightarrow> (string, FacetAggregateValue) res" where
  "projectAggregateValue lib v =
    res_bind (res_map_list (projectAggregateMatch lib) (av_matches v))
      (\<lambda>ms. Inr \<lparr>fav_type = av_type v, fav_state = av_state v, fav_matches = ms\<rparr>)"

definition projectKey :: "'q TypedLib \<Rightarrow> 'q AggregateKey \<Rightarrow> (string, FacetAggregateKey) res" where
  "projectKey lib k =
    res_bind (ProjectMatch lib (ak_match k)) (\<lambda>v. Inr \<lparr>fak_field = ak_field k, fak_type = ak_type k, fak_value = v\<rparr>)"

definition projectGroup :: "'q TypedLib \<Rightarrow> 'q AggregateGroup \<Rightarrow> (string, FacetAggregateGroup) res" where
  "projectGroup lib g =
    res_bind (res_map_list (projectKey lib) (ag_keys g)) (\<lambda>keys.
    res_bind (projectAggregateValue lib (ag_value g)) (\<lambda>v.
    res_bind (projectProvenances (ag_contributors g)) (\<lambda>ps. Inr \<lparr>fag_keys = keys, fag_value = v, fag_contributors = ps\<rparr>)))"

definition projectResourceFailure :: "ResourceFailure \<Rightarrow> (string, FacetAggregateResourceFailure) res" where
  "projectResourceFailure f =
    res_bind (projectProvenance (rf_provenance f)) (\<lambda>p. Inr \<lparr>farf_provenance = p, farf_error = publicAggregateError (rf_err f)\<rparr>)"

definition projectAggregate :: "'q TypedLib \<Rightarrow> 'q AggregateOutcome \<Rightarrow> (string, FacetAggregateResult) res" where
  "projectAggregate lib o' =
    (let base = \<lparr>far_name = ao_name o', far_function = ao_function o', far_field = ao_field o', far_state = ao_state o',
           far_groups = [], far_failures = [], far_error = None\<rparr> in
     case ao_err o' of
       Some e \<Rightarrow> Inr (base\<lparr>far_state := ''error'', far_error := Some (publicAggregateError e)\<rparr>)
     | None \<Rightarrow>
        res_bind (res_map_list (projectGroup lib) (ao_groups o')) (\<lambda>gs.
        res_bind (res_map_list projectResourceFailure (ao_failures o')) (\<lambda>fs.
          Inr (base\<lparr>far_groups := gs, far_failures := fs\<rparr>))))"

definition projectAggregates :: "'q TypedLib \<Rightarrow> 'q AggregateOutcome list \<Rightarrow> (string, FacetAggregateResult list) res" where
  "projectAggregates lib os = res_map_list (projectAggregate lib) os"

text \<open>The aggregates of each source beside the operator projection of the same source.\<close>

definition attachAggregates :: "'q TypedLib \<Rightarrow> 'q AggSourceOutcome \<Rightarrow> FacetSourceResult \<Rightarrow> (string, FacetSourceResult) res" where
  "attachAggregates lib o' s =
    (if as_aggregates o' = [] then Inr s
     else res_bind (projectAggregates lib (as_aggregates o')) (\<lambda>as. Inr (s\<lparr>fsr_aggregates := as\<rparr>)))"

definition BuildResultChecked :: "'q TypedLib \<Rightarrow> 'q AggSourceOutcome list \<Rightarrow> (string, FacetResult) res" where
  "BuildResultChecked lib outcomes =
    res_bind (OpBuildResult lib (map as_operator outcomes)) (\<lambda>result.
      if length result \<noteq> length outcomes then Inl ''operator result source count does not match aggregation outcome count''
      else res_map_list (\<lambda>(o', s). attachAggregates lib o' s) (zip outcomes result))"

section \<open>Batches\<close>

definition valueLimitSourceOutcome :: "string \<Rightarrow> 'q AggSourceOutcome" where
  "valueLimitSourceOutcome sid = \<lparr>as_sourceID = sid,
     as_operator = NewSourceError sid OpValueLimitExceeded ''produced value ceiling exceeded'', as_aggregates = [],
     as_err = Some (NewAggregateError sid [] [] [] None ''ValueLimitExceeded'' ''produced value ceiling exceeded'')\<rparr>"

text \<open>The zero operator outcome, which the interrupted outcome leaves in place.\<close>

definition zeroOperator :: "'q OSourceOutcome" where
  "zeroOperator = \<lparr>os_sourceID = [], os_resources = [], os_fieldErrors = [], os_err = None\<rparr>"

definition interruptedAggSource :: "string \<Rightarrow> 'q AggSourceOutcome" where
  "interruptedAggSource sid = \<lparr>as_sourceID = sid, as_operator = zeroOperator, as_aggregates = [],
     as_err = Some (NewAggregateError sid [] [] [] None ''aggregation-interrupted'' ''aggregation interrupted'')\<rparr>"

definition contributionKey :: "'q TypedLib \<Rightarrow> AggregatePlan \<Rightarrow> 'q Contribution \<Rightarrow> nat list option" where
  "contributionKey lib plan x = (case CanonicalKey lib (ap_fieldType plan) (co_match x) of Inl _ \<Rightarrow> None | Inr k \<Rightarrow> Some k)"

definition distinctKeys :: "'q TypedLib \<Rightarrow> AggregatePlan \<Rightarrow> 'q contributionGroup \<Rightarrow> nat list list" where
  "distinctKeys lib plan g = remdups (List.map_filter (contributionKey lib plan) (cg_contributions g))"

text \<open>The pairs of a distinct value and a resource.\<close>

definition distinctProvenancePairs :: "'q TypedLib \<Rightarrow> AggregatePlan \<Rightarrow> 'q contributionGroup \<Rightarrow> (nat list \<times> string) list" where
  "distinctProvenancePairs lib plan g =
     remdups (List.map_filter (\<lambda>x. map_option (\<lambda>k. (k, prov_uid (co_provenance x))) (contributionKey lib plan x)) (cg_contributions g))"

definition provenanceCount :: "'q TypedLib \<Rightarrow> AggregatePlan \<Rightarrow> 'q contributionGroup \<Rightarrow> nat" where
  "provenanceCount lib plan g =
    (if \<not> ap_includeProvenance plan then 0
     else length (cg_contributors g) +
       (if ap_function plan = ''collect'' then length (cg_contributions g)
        else if ap_function plan = ''distinct'' then length (distinctProvenancePairs lib plan g) else 0))"

definition aggregateLimitFailure :: "'q TypedLib \<Rightarrow> AggregatePlan \<Rightarrow> 'q groupingResult \<Rightarrow> AggregateError option" where
  "aggregateLimitFailure lib plan r =
    (let lims = ap_limits plan; gs = gr_groups r;
         failed = (\<lambda>msg. Some (aggregateFailure plan (ap_field plan) None ''cardinality-exceeded'' msg));
         contributions = sum_list (map (\<lambda>g. length (cg_contributions g)) gs);
         collected = (if ap_function plan = ''collect'' then contributions else 0);
         distincts = (if ap_function plan = ''distinct'' then sum_list (map (\<lambda>g. length (distinctKeys lib plan g)) gs) else 0);
         provenances = sum_list (map (provenanceCount lib plan) gs) in
     if int (length gs) > MaxGroups lims then failed ''aggregate group limit exceeded''
     else if int contributions > MaxContributions lims then failed ''aggregate contribution limit exceeded''
     else if int collected > MaxCollectedValues lims then failed ''aggregate collection limit exceeded''
     else if int distincts > MaxDistinctValues lims then failed ''aggregate distinct-value limit exceeded''
     else if int provenances > MaxProvenanceEntries lims then failed ''aggregate provenance limit exceeded''
     else None)"

text \<open>One plan of a source; \<open>None\<close> is an interruption.\<close>

definition evaluatePlan ::
  "'q TypedLib \<Rightarrow> ctx \<Rightarrow> AggregatePlan \<Rightarrow> 'q OSourceOutcome \<Rightarrow> 'q AggregateOutcome option \<times> ctx" where
  "evaluatePlan lib c plan source =
    (let failed = (\<lambda>e. Some (errorAggregate (ap_name plan) (ap_function plan) (ap_field plan) e)) in
     case formGroups lib c plan source of
       (Inl GroupInterrupted, c1) \<Rightarrow> (None, c1)
     | (Inl (GroupLimit e), c1) \<Rightarrow> (failed e, c1)
     | (Inr grouped, c1) \<Rightarrow>
        (case ctx_err c1 of
           (True, c2) \<Rightarrow> (None, c2)
         | (False, c2) \<Rightarrow>
            (case aggregateLimitFailure lib plan grouped of
               Some e \<Rightarrow> (failed e, c2)
             | None \<Rightarrow>
                (case reduceAggregate lib c2 plan (gr_groups grouped) (gr_failures grouped) of
                   (Inl _, c3) \<Rightarrow> (None, c3)
                 | (Inr out, c3) \<Rightarrow> (Some out, c3)))))"

fun evaluateEntries ::
  "'q TypedLib \<Rightarrow> ctx \<Rightarrow> 'q OSourceOutcome \<Rightarrow> (AggregateError, AggregatePlan) res list \<Rightarrow> 'q AggregateOutcome list option \<times> ctx" where
  "evaluateEntries lib c source [] = (Some [], c)"
| "evaluateEntries lib c source (e # es) =
    (case ctx_err c of
       (True, c1) \<Rightarrow> (None, c1)
     | (False, c1) \<Rightarrow>
        (case (case e of
                 Inl f \<Rightarrow> (Some (errorAggregate (ae_aggregateName f) (ae_function f) (ae_fieldName f) f), c1)
               | Inr plan \<Rightarrow> evaluatePlan lib c1 plan source) of
           (None, c2) \<Rightarrow> (None, c2)
         | (Some out, c2) \<Rightarrow>
            (case evaluateEntries lib c2 source es of
               (None, c3) \<Rightarrow> (None, c3)
             | (Some outs, c3) \<Rightarrow> (Some (out # outs), c3))))"

text \<open>Accounting of the projected aggregates; \<open>None\<close> when a projection or the ceiling fails.\<close>

fun accountAggregateResults ::
  "'q TypedLib \<Rightarrow> (FacetAggregateResult \<Rightarrow> nat option) \<Rightarrow> Accountant \<Rightarrow> 'q AggregateOutcome list \<Rightarrow> Accountant option" where
  "accountAggregateResults lib canonicalSize a [] = Some a"
| "accountAggregateResults lib canonicalSize a (x # xs) =
    (case projectAggregate lib x of
       Inl _ \<Rightarrow> None
     | Inr p \<Rightarrow> (case Add canonicalSize a p of Inl _ \<Rightarrow> None | Inr a' \<Rightarrow> accountAggregateResults lib canonicalSize a' xs))"

record 'q AggSourceInput =
  ai_plan :: AggPlanOutcome
  ai_operators :: "'q OSourceOutcome"
  ai_operator :: "'q OSourceOutcome"

text \<open>A nil slice and an empty one are not told apart.\<close>

definition inputOperatorOutcome :: "'q AggSourceInput \<Rightarrow> 'q OSourceOutcome" where
  "inputOperatorOutcome input =
    (let o' = ai_operators input in
     if os_sourceID o' \<noteq> [] \<or> os_err o' \<noteq> None \<or> os_resources o' \<noteq> [] \<or> os_fieldErrors o' \<noteq> [] then o' else ai_operator input)"

definition evaluateAggSource ::
  "'q TypedLib \<Rightarrow> (FacetAggregateResult \<Rightarrow> nat option) \<Rightarrow> int \<Rightarrow> ctx \<Rightarrow> string \<Rightarrow> AggPlanOutcome \<Rightarrow> 'q OSourceOutcome \<Rightarrow>
   'q AggSourceOutcome \<times> bool \<times> ctx" where
  "evaluateAggSource lib canonicalSize maxBytes c sid plan source =
    (if apo_sourceID plan = [] \<or> os_sourceID source \<noteq> apo_sourceID plan then
       (\<lparr>as_sourceID = sid, as_operator = source, as_aggregates = [],
         as_err = Some (NewAggregateError sid [] [] [] None ''invalid-input'' ''operator source identity does not match aggregation plan'')\<rparr>, False, c)
     else if os_err source \<noteq> None then
       (\<lparr>as_sourceID = sid, as_operator = source, as_aggregates = [], as_err = None\<rparr>, False, c)
     else
       (case (if maxBytes > 0
              then (case NewAccountant maxBytes ''produced-values'' of Inl _ \<Rightarrow> None | Inr a \<Rightarrow> Some (Some a))
              else Some None) of
          None \<Rightarrow> (valueLimitSourceOutcome sid, False, c)
        | Some acc \<Rightarrow>
           (case evaluateEntries lib c source (apo_entries plan) of
              (None, c1) \<Rightarrow> (interruptedAggSource sid, True, c1)
            | (Some outs, c1) \<Rightarrow>
                (case (case acc of None \<Rightarrow> True | Some a \<Rightarrow> accountAggregateResults lib canonicalSize a outs \<noteq> None) of
                   False \<Rightarrow> (valueLimitSourceOutcome sid, False, c1)
                 | True \<Rightarrow> (\<lparr>as_sourceID = sid, as_operator = source, as_aggregates = outs, as_err = None\<rparr>, False, c1)))))"

fun evaluateAggSources ::
  "'q TypedLib \<Rightarrow> (FacetAggregateResult \<Rightarrow> nat option) \<Rightarrow> int \<Rightarrow> ctx \<Rightarrow> bool \<Rightarrow> 'q AggSourceInput list \<Rightarrow> 'q AggSourceOutcome list" where
  "evaluateAggSources lib canonicalSize maxBytes c interrupted [] = []"
| "evaluateAggSources lib canonicalSize maxBytes c interrupted (input # rest) =
    (let source = inputOperatorOutcome input; plan = ai_plan input;
         sid = (if apo_sourceID plan = [] then os_sourceID source else apo_sourceID plan) in
     if interrupted then interruptedAggSource sid # evaluateAggSources lib canonicalSize maxBytes c True rest
     else case ctx_err c of
       (True, c1) \<Rightarrow> interruptedAggSource sid # evaluateAggSources lib canonicalSize maxBytes c1 True rest
     | (False, c1) \<Rightarrow>
        (case evaluateAggSource lib canonicalSize maxBytes c1 sid plan source of
           (out, stopped, c2) \<Rightarrow> out # evaluateAggSources lib canonicalSize maxBytes c2 stopped rest))"

definition AggEvaluateBatchWithLimit ::
  "'q TypedLib \<Rightarrow> (FacetAggregateResult \<Rightarrow> nat option) \<Rightarrow> int \<Rightarrow> ctx \<Rightarrow> 'q AggSourceInput list \<Rightarrow> 'q AggSourceOutcome list" where
  "AggEvaluateBatchWithLimit lib canonicalSize maxBytes c inputs = evaluateAggSources lib canonicalSize maxBytes c False inputs"

end
