(* ===== verification/AggregationGrouping.thy ===== *)
theory AggregationGrouping
  imports Aggregation
begin

text \<open>
  Grouping of \<^verbatim>\<open>src/internal/aggregation/grouping.go\<close>: the groups that \<^const>\<open>formGroups\<close> forms are exactly the classes of the
  contributions of the accepted resources, in the order of their keys, and each group lists its contributions in a total
  order of its resources and match positions.
\<close>

section \<open>Lemmas: grouping\<close>

lemma compare_texts_zero: "compare_texts ps = 0 \<longleftrightarrow> list_all (\<lambda>(a, b). a = b) ps"
proof (induction ps rule: compare_texts.induct)
  case (2 a b rest)
  then show ?case by (cases "a < b"; cases "b < a") auto
qed simp

lemma compareProvenance_zero: "compareProvenance l r = 0 \<longleftrightarrow> l = r"
  by (cases l; cases r) (auto simp: compareProvenance_def compare_texts_zero)

lemma appendUniqueProvenance_eq: "appendUniqueProvenance ps p = (if p \<in> set ps then ps else ps @ [p])"
  by (auto simp: appendUniqueProvenance_def list_ex_iff compareProvenance_zero)

text \<open>A key tuple is compared by the types and canonical keys of its components.\<close>

definition key_id :: "'q AggregateKey list \<Rightarrow> (string \<times> nat list) list" where
  "key_id keys = map (\<lambda>k. (ak_type k, ak_canonical k)) keys"

lemma equalKeyTuples_iff: "equalKeyTuples ls rs \<longleftrightarrow> key_id ls = key_id rs"
  unfolding equalKeyTuples_def key_id_def
proof (induction ls arbitrary: rs)
  case (Cons l ls)
  then show ?case by (cases rs) auto
qed simp

abbreviation group_id :: "'q contributionGroup \<Rightarrow> (string \<times> nat list) list" where
  "group_id g \<equiv> key_id (cg_keys g)"

text \<open>The groups hold exactly the given keyed contributions, each in the one group of its key, in order.\<close>

definition groups_of :: "'q contributionGroup list \<Rightarrow> ('q AggregateKey list \<times> 'q Contribution) list \<Rightarrow> bool" where
  "groups_of gs cs \<longleftrightarrow> distinct (map group_id gs) \<and> (\<forall>kc \<in> set cs. key_id (fst kc) \<in> group_id ` set gs) \<and>
     (\<forall>g \<in> set gs. cg_contributions g = map snd (filter (\<lambda>kc. key_id (fst kc) = group_id g) cs) \<and>
       distinct (cg_contributors g) \<and> set (cg_contributors g) = co_provenance ` set (cg_contributions g))"

lemma contributeTo_keys [simp]: "cg_keys (contributeTo c g) = cg_keys g"
  by (simp add: contributeTo_def)

lemma addToGroup_ids:
  "map group_id (addToGroup keys c gs) = (if key_id keys \<in> group_id ` set gs then map group_id gs else map group_id gs @ [key_id keys])"
  by (induction gs) (auto simp: equalKeyTuples_iff emptyGroup_def)

lemma addToGroup_cases:
  "\<lbrakk> h \<in> set (addToGroup keys c gs); distinct (map group_id gs) \<rbrakk> \<Longrightarrow>
     h \<in> set gs \<and> group_id h \<noteq> key_id keys \<or>
     (\<exists>g \<in> set gs. group_id g = key_id keys \<and> h = contributeTo c g) \<or>
     key_id keys \<notin> group_id ` set gs \<and> h = contributeTo c (emptyGroup keys)"
proof (induction gs)
  case (Cons g gs)
  show ?case
  proof (cases "group_id g = key_id keys")
    case True
    then have "h = contributeTo c g \<or> h \<in> set gs" using Cons.prems(1) by (simp add: equalKeyTuples_iff)
    moreover have "group_id h \<noteq> key_id keys" if "h \<in> set gs" using Cons.prems(2) that True by (metis (mono_tags) distinct.simps(2) image_eqI list.simps(9) set_map)
    ultimately show ?thesis using True by auto
  next
    case False
    then show ?thesis using Cons by (auto simp: equalKeyTuples_iff)
  qed
qed simp

lemma groups_of_add:
  assumes "groups_of gs cs"
  shows "groups_of (addToGroup keys c gs) (cs @ [(keys, c)])"
proof -
  have d: "distinct (map group_id gs)" and cov: "\<And>kc. kc \<in> set cs \<Longrightarrow> key_id (fst kc) \<in> group_id ` set gs"
    and each: "\<And>g. g \<in> set gs \<Longrightarrow> cg_contributions g = map snd (filter (\<lambda>kc. key_id (fst kc) = group_id g) cs) \<and>
       distinct (cg_contributors g) \<and> set (cg_contributors g) = co_provenance ` set (cg_contributions g)"
    using assms by (auto simp: groups_of_def)
  have ids: "group_id ` set (addToGroup keys c gs) = insert (key_id keys) (group_id ` set gs)"
    using arg_cong[OF addToGroup_ids[of keys c gs], of set] by (auto split: if_splits)
  have "distinct (map group_id (addToGroup keys c gs))" unfolding addToGroup_ids using d by simp
  moreover have "\<forall>kc \<in> set (cs @ [(keys, c)]). key_id (fst kc) \<in> group_id ` set (addToGroup keys c gs)"
    unfolding ids using cov by auto
  moreover have "cg_contributions h = map snd (filter (\<lambda>kc. key_id (fst kc) = group_id h) (cs @ [(keys, c)])) \<and>
       distinct (cg_contributors h) \<and> set (cg_contributors h) = co_provenance ` set (cg_contributions h)"
    if h: "h \<in> set (addToGroup keys c gs)" for h
    using addToGroup_cases[OF h d]
  proof (elim disjE bexE conjE)
    fix g assume g: "g \<in> set gs" "group_id g = key_id keys" "h = contributeTo c g"
    then show ?thesis using each[OF g(1)] by (auto simp: contributeTo_def appendUniqueProvenance_eq)
  next
    assume n: "key_id keys \<notin> group_id ` set gs" "h = contributeTo c (emptyGroup keys)"
    then have "filter (\<lambda>kc. key_id (fst kc) = key_id keys) cs = []" using cov by (auto simp: filter_empty_conv) metis
    then show ?thesis using n(2) by (simp add: contributeTo_def emptyGroup_def appendUniqueProvenance_eq)
  qed (use each in simp)
  ultimately show ?thesis by (simp add: groups_of_def)
qed

text \<open>The contributions of one resource.\<close>

definition match_contributions :: "'q AggregateKey list \<Rightarrow> FacetResourceProvenance \<Rightarrow> nat \<Rightarrow> 'q Match list \<Rightarrow> ('q AggregateKey list \<times> 'q Contribution) list" where
  "match_contributions keys prov i ms =
     map (\<lambda>(m, j). (keys, \<lparr>co_match = m, co_provenance = prov, co_matchIndex = j\<rparr>))
       (filter (\<lambda>(m, j). m_value m \<noteq> None) (zip ms [i..<i + length ms]))"

lemma match_contributions_simps [simp]:
  "match_contributions keys prov i [] = []"
  "match_contributions keys prov i (m # ms) =
    (if m_value m = None then [] else [(keys, \<lparr>co_match = m, co_provenance = prov, co_matchIndex = i\<rparr>)]) @
    match_contributions keys prov (Suc i) ms"
proof -
  have "[i..<i + length (m # ms)] = i # [Suc i..<Suc i + length ms]" by (simp add: upt_conv_Cons del: upt_Suc)
  then show "match_contributions keys prov i (m # ms) =
      (if m_value m = None then [] else [(keys, \<lparr>co_match = m, co_provenance = prov, co_matchIndex = i\<rparr>)]) @
      match_contributions keys prov (Suc i) ms" unfolding match_contributions_def by simp
qed (simp add: match_contributions_def)

text \<open>The invariant of the grouping loop.\<close>

definition grouping_inv :: "AggregatePlan \<Rightarrow> 'q groupingResult \<Rightarrow> ('q AggregateKey list \<times> 'q Contribution) list \<Rightarrow> bool" where
  "grouping_inv plan r cs \<longleftrightarrow> groups_of (gr_groups r) cs \<and> gr_contributions r = int (length cs) \<and>
     gr_contributions r \<le> MaxContributions (ap_limits plan) \<and> int (length (gr_groups r)) \<le> MaxGroups (ap_limits plan) \<and>
     (\<forall>g \<in> set (gr_groups r). (cg_keys g \<in> fst ` set cs \<or> ap_groupBy plan = [] \<and> cg_keys g = []) \<and>
       (cg_contributions g = [] \<longrightarrow> ap_groupBy plan = []))"

lemma length_addToGroup:
  "length (addToGroup keys c gs) = (if hasGroup gs keys then length gs else Suc (length gs))"
  by (induction gs) (auto simp: hasGroup_def)

lemma addToGroup_keys:
  assumes "h \<in> set (addToGroup keys c gs)"
  shows "cg_contributions h \<noteq> [] \<and> (cg_keys h = keys \<or> cg_keys h \<in> cg_keys ` set gs) \<or> h \<in> set gs"
  using assms by (induction gs) (auto simp: contributeTo_def emptyGroup_def split: if_splits)

lemma grouping_inv_add:
  assumes "grouping_inv plan r cs" "gr_contributions r < MaxContributions (ap_limits plan)"
    and "hasGroup (gr_groups r) keys \<or> int (length (gr_groups r)) < MaxGroups (ap_limits plan)"
  shows "grouping_inv plan (r\<lparr>gr_groups := addToGroup keys c (gr_groups r), gr_contributions := gr_contributions r + 1\<rparr>) (cs @ [(keys, c)])"
proof -
  have "(cg_keys h \<in> fst ` set (cs @ [(keys, c)]) \<or> ap_groupBy plan = [] \<and> cg_keys h = []) \<and> (cg_contributions h = [] \<longrightarrow> ap_groupBy plan = [])"
    if "h \<in> set (addToGroup keys c (gr_groups r))" for h
    using addToGroup_keys[OF that] assms(1) unfolding grouping_inv_def by auto
  then show ?thesis using assms groups_of_add[of "gr_groups r" cs keys c]
    by (auto simp: grouping_inv_def length_addToGroup)
qed

lemma contributeMatches_inv:
  "\<lbrakk> contributeMatches plan keys prov c i r ms = (Inr r', c'); grouping_inv plan r cs \<rbrakk> \<Longrightarrow>
     grouping_inv plan r' (cs @ match_contributions keys prov i ms) \<and> gr_failures r' = gr_failures r"
proof (induction ms arbitrary: c i r cs)
  case (Cons m ms)
  obtain c1 where c1: "ctx_err c = (False, c1)" using Cons.prems(1) by (cases "ctx_err c") (auto split: bool.splits)
  show ?case
  proof (cases "m_value m = None")
    case True
    then show ?thesis using Cons.prems c1 Cons.IH[of c1 "Suc i" r cs] by simp
  next
    case False
    let ?x = "\<lparr>co_match = m, co_provenance = prov, co_matchIndex = i\<rparr>"
    let ?r = "r\<lparr>gr_groups := addToGroup keys ?x (gr_groups r), gr_contributions := gr_contributions r + 1\<rparr>"
    have ok: "gr_contributions r < MaxContributions (ap_limits plan)"
      "hasGroup (gr_groups r) keys \<or> int (length (gr_groups r)) < MaxGroups (ap_limits plan)"
      and rest: "contributeMatches plan keys prov c1 (Suc i) ?r ms = (Inr r', c')"
      using Cons.prems(1) c1 False by (auto split: if_splits)
    show ?thesis using Cons.IH[OF rest grouping_inv_add[OF Cons.prems(2) ok]] False by auto
  qed
qed simp

text \<open>A resource claims its identity when it is unsuccessful with an identity or accepted with complete provenance; an
  accepted one whose identity is not claimed before it counts.\<close>

definition complete_provenance :: "FacetResourceProvenance \<Rightarrow> bool" where
  "complete_provenance p \<longleftrightarrow> prov_apiVersion p \<noteq> [] \<and> prov_kind p \<noteq> [] \<and> prov_name p \<noteq> [] \<and> prov_uid p \<noteq> []"

abbreviation uid_of :: "'q OResourceOutcome \<Rightarrow> string" where
  "uid_of x \<equiv> prov_uid (or_provenance x)"

definition claims_identity :: "'q OResourceOutcome \<Rightarrow> bool" where
  "claims_identity x \<longleftrightarrow> or_state x = ResourceUnsuccessful \<and> uid_of x \<noteq> [] \<or> or_state x = ResourceAccepted \<and> complete_provenance (or_provenance x)"

fun counted :: "string list \<Rightarrow> 'q OResourceOutcome list \<Rightarrow> 'q OResourceOutcome list" where
  "counted seen [] = []"
| "counted seen (x # xs) =
    (if claims_identity x \<and> uid_of x \<notin> set seen
     then (if or_state x = ResourceAccepted then [x] else []) @ counted (uid_of x # seen) xs
     else counted seen xs)"

definition resource_contributions ::
  "'q TypedLib \<Rightarrow> AggregatePlan \<Rightarrow> 'q OResourceOutcome \<Rightarrow> ('q AggregateKey list \<times> 'q Contribution) list" where
  "resource_contributions lib plan x =
    (case (groupingKeys lib plan (or_fields x) (or_provenance x), targetField plan (or_fields x) (or_provenance x)) of
       (Inr keys, Inr target) \<Rightarrow>
         if to_state target = FieldStateAbsent then [] else match_contributions keys (or_provenance x) 0 (to_matches target)
     | _ \<Rightarrow> [])"

definition contributions_of :: "'q TypedLib \<Rightarrow> AggregatePlan \<Rightarrow> 'q OResourceOutcome list \<Rightarrow> ('q AggregateKey list \<times> 'q Contribution) list" where
  "contributions_of lib plan xs = concat (map (resource_contributions lib plan) (counted [] xs))"

lemma grouping_inv_global:
  assumes "grouping_inv plan r cs" "0 < MaxGroups (ap_limits plan)"
  shows "grouping_inv plan (ensureGlobalGroup plan r) cs"
proof (cases "ap_groupBy plan = [] \<and> gr_groups r = []")
  case True
  then have "cs = []" using assms(1) by (cases cs) (auto simp: grouping_inv_def groups_of_def)
  then show ?thesis using True assms by (simp add: ensureGlobalGroup_def grouping_inv_def groups_of_def emptyGroup_def)
qed (use assms in \<open>auto simp: ensureGlobalGroup_def\<close>)

lemma grouping_inv_failures [simp]: "grouping_inv plan (r\<lparr>gr_failures := fs\<rparr>) cs = grouping_inv plan r cs"
  by (simp add: grouping_inv_def)

lemma groupAccepted_inv:
  assumes "groupAccepted lib plan c r x = (Inr r', c')" "grouping_inv plan r cs" "0 < MaxGroups (ap_limits plan)"
  shows "grouping_inv plan r' (cs @ resource_contributions lib plan x)"
proof (cases "groupingKeys lib plan (or_fields x) (or_provenance x)")
  case (Inl e)
  then show ?thesis using assms by (auto simp: groupAccepted_def resource_contributions_def failGroup_def)
next
  case (Inr keys)
  note keys = Inr
  show ?thesis
  proof (cases "targetField plan (or_fields x) (or_provenance x)")
    case (Inl e)
    then show ?thesis using assms keys by (auto simp: groupAccepted_def resource_contributions_def failGroup_def)
  next
    case (Inr target)
    show ?thesis
    proof (cases "to_state target = FieldStateAbsent \<or> to_matches target = []")
      case True
      then show ?thesis using assms keys Inr grouping_inv_global[OF assms(2,3)]
        by (auto simp: groupAccepted_def resource_contributions_def)
    next
      case False
      then obtain r1 where r1: "contributeMatches plan keys (or_provenance x) c 0 r (to_matches target) = (Inr r1, c')"
        "r' = ensureGlobalGroup plan r1"
        using assms(1) keys Inr by (auto simp: groupAccepted_def split: prod.splits sum.splits)
      show ?thesis using contributeMatches_inv[OF r1(1) assms(2)] grouping_inv_global[of plan r1] assms(3) r1(2) keys Inr False
        by (simp add: resource_contributions_def)
    qed
  qed
qed

lemma validateProvenance_None: "validateProvenance plan p = None \<longleftrightarrow> complete_provenance p"
  by (simp add: validateProvenance_def complete_provenance_def)

lemma groupResources_inv:
  assumes "0 < MaxGroups (ap_limits plan)"
  shows "\<lbrakk> groupResources lib plan c seen r xs = (Inr r', c'); grouping_inv plan r cs \<rbrakk> \<Longrightarrow>
    grouping_inv plan r' (cs @ concat (map (resource_contributions lib plan) (counted seen xs)))"
proof (induction xs arbitrary: c seen r cs)
  case (Cons x xs)
  obtain c1 where c1: "ctx_err c = (False, c1)" using Cons.prems(1) by (cases "ctx_err c") (auto split: bool.splits)
  show ?case
  proof (cases "or_state x")
    case ResourceRejected
    then show ?thesis using Cons.prems c1 Cons.IH by (simp add: claims_identity_def)
  next
    case ResourceUnsuccessful
    then show ?thesis
      using Cons.prems c1 Cons.IH[of c1 seen r cs] Cons.IH[of c1 _ "r\<lparr>gr_failures := gr_failures r @ [operatorResourceFailure plan x]\<rparr>" cs]
      by (auto simp: claims_identity_def Let_def split: if_splits)
  next
    case ResourceAccepted
    show ?thesis
    proof (cases "validateProvenance plan (or_provenance x)")
      case (Some e)
      then have "\<not> complete_provenance (or_provenance x)" using validateProvenance_None[of plan "or_provenance x"] by simp
      then show ?thesis using Some ResourceAccepted Cons.prems c1 Cons.IH[of c1 seen "failGroup r (or_provenance x) e" cs]
        by (simp add: claims_identity_def failGroup_def)
    next
      case None
      then have cp: "complete_provenance (or_provenance x)" using validateProvenance_None by blast
      show ?thesis
      proof (cases "uid_of x \<in> set seen")
        case True
        then show ?thesis using None ResourceAccepted Cons.prems c1 Cons.IH by simp
      next
        case False
        then obtain r1 c2 where r1: "groupAccepted lib plan c1 r x = (Inr r1, c2)"
          "groupResources lib plan c2 (uid_of x # seen) r1 xs = (Inr r', c')"
          using None ResourceAccepted Cons.prems(1) c1 by (auto simp: Let_def split: prod.splits sum.splits)
        show ?thesis
          using Cons.IH[OF r1(2) groupAccepted_inv[OF r1(1) Cons.prems(2) assms]] False ResourceAccepted cp
          by (simp add: claims_identity_def)
      qed
    qed
  qed
qed simp

section \<open>Lemmas: order of keys and contributions\<close>

lemma swo_key2:
  fixes k1 :: "'a \<Rightarrow> 'b::linorder" and k2 :: "'a \<Rightarrow> 'c::linorder"
  shows "strict_weak_order (\<lambda>a b. k1 a < k1 b \<or> k1 a = k1 b \<and> k2 a < k2 b)"
  by unfold_locales (auto dest: order.strict_trans)

definition provenance_key :: "FacetResourceProvenance \<Rightarrow> string list" where
  "provenance_key p = [prov_namespace p, prov_name p, prov_uid p, prov_apiVersion p, prov_kind p]"

lemma compare_texts_less: "length xs = length ys \<Longrightarrow> compare_texts (zip xs ys) < 0 \<longleftrightarrow> xs < ys"
proof (induction xs ys rule: list_induct2)
  case (Cons x xs y ys)
  then show ?case by (cases "x < y"; cases "y < x") auto
qed simp

lemma compareProvenance_less: "compareProvenance l r < 0 \<longleftrightarrow> provenance_key l < provenance_key r"
  using compare_texts_less[of "provenance_key l" "provenance_key r"] by (simp add: compareProvenance_def provenance_key_def)

lemma provenance_key_inject: "provenance_key l = provenance_key r \<longleftrightarrow> l = r"
  by (cases l; cases r) (auto simp: provenance_key_def)

lemma compareContributions_less:
  "compareContributions l r < 0 \<longleftrightarrow> provenance_key (co_provenance l) < provenance_key (co_provenance r) \<or>
     provenance_key (co_provenance l) = provenance_key (co_provenance r) \<and> co_matchIndex l < co_matchIndex r"
  using compareProvenance_less[of "co_provenance l" "co_provenance r"] compareProvenance_zero[of "co_provenance l" "co_provenance r"]
  by (auto simp: compareContributions_def Let_def provenance_key_inject)

interpretation contributor_order: strict_weak_order "\<lambda>a b. compareProvenance a b < 0"
  unfolding compareProvenance_less by (rule swo_key)

interpretation contribution_order: strict_weak_order "\<lambda>a b. compareContributions a b < (0 :: int)"
  unfolding compareContributions_less by (rule swo_key2)

text \<open>Exact values in one linear order, text before numbers.\<close>

lemma order_cmp_zero: "order_cmp a b = 0 \<longleftrightarrow> a = b"
  by (cases a; cases b) (simp_all add: cmp_zero)

lemma order_cmp_swap: "order_cmp b a = - order_cmp a b"
  by (cases a; cases b) (simp_all, (rule cmp_swap)+)

lemma order_cmp_trans: "order_cmp a b \<le> 0 \<Longrightarrow> order_cmp b c \<le> 0 \<Longrightarrow> order_cmp a c \<le> 0"
  by (cases a; cases b; cases c) (simp_all, (erule cmp_trans, assumption)+)

instantiation order_value :: linorder
begin

definition less_order_value :: "order_value \<Rightarrow> order_value \<Rightarrow> bool" where
  "a < b \<longleftrightarrow> order_cmp a b < 0"

definition less_eq_order_value :: "order_value \<Rightarrow> order_value \<Rightarrow> bool" where
  "(a :: order_value) \<le> b \<longleftrightarrow> order_cmp a b \<le> 0"

instance
proof
  fix a b c :: order_value
  show "(a < b) = (a \<le> b \<and> \<not> b \<le> a)" "a \<le> b \<or> b \<le> a"
    using order_cmp_swap[of a b] by (auto simp: less_order_value_def less_eq_order_value_def)
  show "a \<le> a" using order_cmp_zero[of a a] by (simp add: less_eq_order_value_def)
  show "a \<le> b \<Longrightarrow> b \<le> a \<Longrightarrow> a = b"
    using order_cmp_swap[of a b] order_cmp_zero[of a b] by (simp add: less_eq_order_value_def)
  show "a \<le> b \<Longrightarrow> b \<le> c \<Longrightarrow> a \<le> c" unfolding less_eq_order_value_def by (rule order_cmp_trans)
qed

end

definition key_value :: "'q AggregateKey \<Rightarrow> order_value" where
  "key_value k = (case m_value (ak_match k) of
      Some (VBoolean b) \<Rightarrow> ONumber (if b then 1 else 0)
    | Some v \<Rightarrow> the (order_value_of v)
    | None \<Rightarrow> OText [])"

text \<open>A key made for a grouping field from a well-formed match.\<close>

definition key_wf :: "'q TypedLib \<Rightarrow> GroupFieldPlan \<Rightarrow> 'q AggregateKey \<Rightarrow> bool" where
  "key_wf lib g k \<longleftrightarrow> ak_field k = gf_name g \<and> ak_type k = gf_type g \<and> m_type (ak_match k) = gf_type g \<and> m_value (ak_match k) \<noteq> None \<and>
     match_wf lib (ak_match k) \<and> CanonicalKey lib (gf_type g) (ak_match k) = Inr (ak_canonical k)"

lemma compareKeyValues_less:
  assumes "key_wf lib g l" "key_wf lib g r" "supportedGroupType (gf_type g)" "lib_ok lib"
  shows "compareKeyValues lib l r = order_cmp (key_value l) (key_value r)"
proof -
  let ?t = "gf_type g"
  obtain v w where l: "ak_match l = newValueMatch ?t v" "payload_wf lib ?t v" and r: "ak_match r = newValueMatch ?t w" "payload_wf lib ?t w"
    and sup: "IsSupportedType ?t" and ty: "ak_type l = ?t" "ak_type r = ?t"
    using assms(1,2) by (cases "ak_match l"; cases "ak_match r") (auto simp: key_wf_def match_wf_def)
  show ?thesis
  proof (cases "?t = ''boolean''")
    case True
    then obtain a b where "v = VBoolean a" "w = VBoolean b" using l(2) r(2) by (auto simp: payload_wf_def kind_of_iff)
    then show ?thesis using l(1) r(1) ty True
      by (cases a; cases b) (simp_all add: compareKeyValues_def BooleanValue_def key_value_def cmp_def)
  next
    case False
    then have o: "?t \<notin> {''boolean'', ''object'', ''list''}" using assms(3) by (auto simp: supportedGroupType_def)
    obtain a b where ab: "order_value_of v = Some a" "order_value_of w = Some b"
      using order_value_exists[OF l(2) o] order_value_exists[OF r(2) o] by blast
    have kv: "key_value l = a" "key_value r = b" using l(1) r(1) ab by (auto simp: key_value_def split: payload.splits)
    show ?thesis using compare_payloads[OF l(2) r(2) assms(4) sup ab] l(1) r(1) kv ty False by (simp add: compareKeyValues_def)
  qed
qed

lemma compareKeyTuples_less:
  assumes "list_all2 (key_wf lib) gs ls" "list_all2 (key_wf lib) gs rs" "list_all (\<lambda>g. supportedGroupType (gf_type g)) gs" "lib_ok lib"
  shows "compareKeyTuples lib ls rs < 0 \<longleftrightarrow> map key_value ls < map key_value rs"
  using assms(1-3)
proof (induction gs arbitrary: ls rs)
  case (Cons g gs)
  then obtain l ls' r rs' where e: "ls = l # ls'" "rs = r # rs'" by (auto simp: list_all2_Cons1)
  have c: "compareKeyValues lib l r = order_cmp (key_value l) (key_value r)"
    using compareKeyValues_less[of lib g l r] Cons.prems e assms(4) by simp
  show ?case
  proof (cases "key_value l = key_value r")
    case True
    then show ?thesis using c Cons e order_cmp_zero[of "key_value l" "key_value r"] by (simp add: Let_def)
  next
    case False
    then show ?thesis using c e order_cmp_zero[of "key_value l" "key_value r"]
      by (auto simp: Let_def less_order_value_def[symmetric])
  qed
qed simp

lemma sort_by_cong:
  assumes "\<And>a b. a \<in> set xs \<Longrightarrow> b \<in> set xs \<Longrightarrow> lt a b = lt' a b"
  shows "sort_by lt xs = sort_by lt' xs"
  using assms
proof (induction xs)
  case (Cons x xs)
  have ins: "insert_by lt x ys = insert_by lt' x ys" if "set ys \<subseteq> set xs" for ys
    using that Cons.prems by (induction ys) auto
  show ?case using Cons ins[of "sort_by lt' xs"] by simp
qed simp

lemma groupingKeys_wf:
  assumes "groupingKeys lib plan fs prov = Inr keys" "list_all (\<lambda>f. list_all (match_wf lib) (to_matches f)) fs"
  shows "list_all2 (key_wf lib) (ap_groupBy plan) keys"
proof -
  have one: "key_wf lib g k" if k: "groupingKey lib plan fs prov g = Inr k" for g k
  proof -
    obtain f where f: "findTypedField fs (gf_name g) = Some f" using k by (auto simp: groupingKey_def Let_def split: option.splits)
    obtain m where m: "to_matches f = [m]" "m_value m \<noteq> None" "makeAggregateKey lib g m = Some k"
      using k f by (auto simp: groupingKey_def Let_def split: if_splits list.splits option.splits)
    have "f \<in> set fs" using f find_first_Some unfolding findTypedField_def by metis
    then have "match_wf lib m" using assms(2) m(1) by (auto simp: list_all_iff)
    then show ?thesis using m(2,3) by (auto simp: makeAggregateKey_def key_wf_def split: if_splits sum.splits)
  qed
  show ?thesis using assms(1) unfolding groupingKeys_def res_map_list_Inr_iff by (rule list_all2_mono) (rule one)
qed

text \<open>The groups of a source: one for each key, in key order, each with exactly the counted contributions of its key in
  provenance order and the provenances they come from; an empty group only without grouping fields.\<close>

definition group_formed :: "AggregatePlan \<Rightarrow> ('q AggregateKey list \<times> 'q Contribution) list \<Rightarrow> 'q contributionGroup \<Rightarrow> bool" where
  "group_formed plan cs g \<longleftrightarrow>
     mset (cg_contributions g) = mset (map snd (filter (\<lambda>kc. key_id (fst kc) = group_id g) cs)) \<and>
     sorted_wrt (\<lambda>a b. \<not> compareContributions b a < 0) (cg_contributions g) \<and>
     sorted_wrt (\<lambda>a b. compareProvenance a b < 0) (cg_contributors g) \<and>
     set (cg_contributors g) = co_provenance ` set (cg_contributions g) \<and>
     (cg_contributions g = [] \<longrightarrow> ap_groupBy plan = [])"

definition groups_formed :: "AggregatePlan \<Rightarrow> ('q AggregateKey list \<times> 'q Contribution) list \<Rightarrow> 'q groupingResult \<Rightarrow> bool" where
  "groups_formed plan cs r \<longleftrightarrow> distinct (map group_id (gr_groups r)) \<and>
     sorted_wrt (\<lambda>g h. map key_value (cg_keys g) \<le> map key_value (cg_keys h)) (gr_groups r) \<and>
     list_all (\<lambda>kc. list_ex (\<lambda>g. group_id g = key_id (fst kc)) (gr_groups r)) cs \<and>
     list_all (group_formed plan cs) (gr_groups r) \<and>
     gr_contributions r = int (length cs) \<and> gr_contributions r \<le> MaxContributions (ap_limits plan) \<and>
     int (length (gr_groups r)) \<le> MaxGroups (ap_limits plan)"

lemma sortGroup_simps [simp]: "cg_keys (sortGroup g) = cg_keys g"
  by (simp add: sortGroup_def)

lemma sortGroup_formed:
  assumes "groups_of gs cs" "g \<in> set gs" "cg_contributions g = [] \<longrightarrow> ap_groupBy plan = []"
  shows "group_formed plan cs (sortGroup g)"
proof -
  have g: "cg_contributions g = map snd (filter (\<lambda>kc. key_id (fst kc) = group_id g) cs)" "distinct (cg_contributors g)"
    "set (cg_contributors g) = co_provenance ` set (cg_contributions g)" using assms(1,2) by (auto simp: groups_of_def)
  have "sorted_wrt (\<lambda>a b. compareProvenance a b < 0) (sort_by (\<lambda>a b. compareProvenance a b < 0) (cg_contributors g))"
  proof (rule sorted_wrt_combine[OF contributor_order.sorted_sort_by])
    show "sorted_wrt (\<lambda>a b. a \<noteq> b) (sort_by (\<lambda>a b. compareProvenance a b < 0) (cg_contributors g))"
      by (rule distinct_map_sorted_wrt[of "\<lambda>x. x", simplified]) (use g(2) in simp)
    show "\<And>a b. \<not> compareProvenance b a < 0 \<Longrightarrow> a \<noteq> b \<Longrightarrow> compareProvenance a b < 0"
      unfolding compareProvenance_less using provenance_key_inject by (metis linorder_neqE)
  qed
  moreover have "sort_by lt xs = [] \<longleftrightarrow> xs = []" for lt and xs :: "'a Contribution list"
    using length_sort_by[of lt xs] by (metis length_0_conv)
  ultimately show ?thesis using g assms(3) contribution_order.sorted_sort_by[of "cg_contributions g"]
    by (simp add: group_formed_def sortGroup_def)
qed

lemma empty_grouping: "0 \<le> MaxContributions (ap_limits plan) \<Longrightarrow> 0 < MaxGroups (ap_limits plan) \<Longrightarrow>
    grouping_inv plan \<lparr>gr_groups = [], gr_failures = [], gr_contributions = 0\<rparr> []"
  by (simp add: grouping_inv_def groups_of_def)

definition resources_wf :: "'q TypedLib \<Rightarrow> 'q OResourceOutcome list \<Rightarrow> bool" where
  "resources_wf lib xs \<longleftrightarrow> list_all (\<lambda>x. list_all (\<lambda>f. list_all (match_wf lib) (to_matches f)) (or_fields x)) xs"

lemma counted_subset: "set (counted seen xs) \<subseteq> set xs"
  by (induction xs arbitrary: seen) auto

lemma contributions_wf:
  assumes "resources_wf lib xs" "kc \<in> set (contributions_of lib plan xs)"
  shows "list_all2 (key_wf lib) (ap_groupBy plan) (fst kc) \<and> match_wf lib (co_match (snd kc)) \<and> m_value (co_match (snd kc)) \<noteq> None"
proof -
  obtain x where x: "x \<in> set (counted [] xs)" "kc \<in> set (resource_contributions lib plan x)"
    using assms(2) by (auto simp: contributions_of_def)
  have wf: "list_all (\<lambda>f. list_all (match_wf lib) (to_matches f)) (or_fields x)"
    using assms(1) x(1) counted_subset unfolding resources_wf_def list_all_iff by blast
  obtain keys target where k: "groupingKeys lib plan (or_fields x) (or_provenance x) = Inr keys"
    "targetField plan (or_fields x) (or_provenance x) = Inr target"
    "kc \<in> set (match_contributions keys (or_provenance x) 0 (to_matches target))"
    using x(2) unfolding resource_contributions_def
    by (cases "groupingKeys lib plan (or_fields x) (or_provenance x)"; cases "targetField plan (or_fields x) (or_provenance x)")
      (auto split: if_splits)
  have "target \<in> set (or_fields x)"
    using k(2) find_first_Some by (fastforce simp: targetField_def findTypedField_def split: option.splits if_splits)
  then have "list_all (match_wf lib) (to_matches target)" using wf by (auto simp: list_all_iff)
  moreover have "fst kc = keys \<and> co_match (snd kc) \<in> set (to_matches target) \<and> m_value (co_match (snd kc)) \<noteq> None"
    using k(3) by (auto simp: match_contributions_def dest: set_zip_leftD)
  ultimately show ?thesis using groupingKeys_wf[OF k(1) wf] by (auto simp: list_all_iff)
qed

lemma formGroups_formed:
  assumes "formGroups lib c plan source = (Inr r, c')" "lib_ok lib" "resources_wf lib (os_resources source)"
    and "list_all (\<lambda>g. supportedGroupType (gf_type g)) (ap_groupBy plan)"
    and "0 < MaxGroups (ap_limits plan)" "0 \<le> MaxContributions (ap_limits plan)"
  shows "groups_formed plan (contributions_of lib plan (os_resources source)) r"
proof -
  let ?cs = "contributions_of lib plan (os_resources source)"
  let ?lt = "\<lambda>a b. compareKeyTuples lib (cg_keys a) (cg_keys b) < 0"
  obtain r0 where r0: "groupResources lib plan c [] \<lparr>gr_groups = [], gr_failures = [], gr_contributions = 0\<rparr> (os_resources source) = (Inr r0, c')"
    and r: "gr_groups r = sort_by ?lt (map sortGroup (gr_groups r0))" "gr_contributions r = gr_contributions r0"
    using assms(1) by (auto simp: formGroups_def split: prod.splits sum.splits)
  have inv: "grouping_inv plan r0 ?cs"
    using groupResources_inv[OF assms(5) r0 empty_grouping[OF assms(6,5)]] by (simp add: contributions_of_def)
  then have of: "groups_of (gr_groups r0) ?cs" by (simp add: grouping_inv_def)
  let ?gs = "map sortGroup (gr_groups r0)"
  have keys: "list_all2 (key_wf lib) (ap_groupBy plan) (cg_keys g)" if "g \<in> set ?gs" for g
  proof -
    have "cg_keys g \<in> fst ` set ?cs \<or> ap_groupBy plan = [] \<and> cg_keys g = []" using inv that by (auto simp: grouping_inv_def)
    then show ?thesis using contributions_wf[OF assms(3)] by auto
  qed
  have "sort_by ?lt ?gs = sort_by (\<lambda>a b. map key_value (cg_keys a) < map key_value (cg_keys b)) ?gs"
    by (rule sort_by_cong) (use compareKeyTuples_less keys assms(2,4) in blast)
  then have "sorted_wrt (\<lambda>g h. \<not> map key_value (cg_keys h) < map key_value (cg_keys g)) (gr_groups r)"
    using strict_weak_order.sorted_sort_by[OF swo_key] r(1) by metis
  moreover have "distinct (map group_id (gr_groups r))" using of r(1) by (simp add: groups_of_def comp_def)
  moreover have "list_all (group_formed plan ?cs) (gr_groups r)"
    using sortGroup_formed[OF of] inv r(1) by (auto simp: list_all_iff grouping_inv_def)
  moreover have "list_all (\<lambda>kc. list_ex (\<lambda>g. group_id g = key_id (fst kc)) (gr_groups r)) ?cs"
  proof -
    have "\<exists>g \<in> set (gr_groups r). group_id g = key_id (fst kc)" if "kc \<in> set ?cs" for kc
      using of that r(1) unfolding groups_of_def by (auto simp: image_iff) metis
    then show ?thesis by (simp add: list_all_iff list_ex_iff)
  qed
  ultimately show ?thesis using inv r by (simp add: groups_formed_def grouping_inv_def linorder_not_less)
qed

end
