(* ===== verification/ExactResults.thy ===== *)
theory ExactResults
  imports TypedValues
begin

text \<open>
  When an exact rational has a value of an output type (\<^verbatim>\<open>MatchFromExact\<close> and \<^verbatim>\<open>MatchFromExactNumber\<close> of
  \<^verbatim>\<open>src/internal/typedoutput/aggregation_bridge.go\<close>): \<open>representable\<close> says it of the rational itself, and the conversions are shown to
  succeed exactly on the representable ones.
\<close>

section \<open>Representable values\<close>

text \<open>A decimal of fewer than \<^verbatim>\<open>maxCanonicalDecimalDigits\<close> fractional digits and at most that many digits in all.\<close>

definition decimal_fits :: "rat \<Rightarrow> bool" where
  "decimal_fits v \<longleftrightarrow> (\<exists>k m. int k < maxCanonicalDecimalDigits \<and> v * 10 ^ k = of_int m \<and> \<bar>m\<bar> < 10 ^ nat maxCanonicalDecimalDigits)"

text \<open>A duration must also be read back exactly from its printed text, and a quantity held exactly by the quantity library.\<close>

definition representable :: "'q TypedLib \<Rightarrow> string \<Rightarrow> rat \<Rightarrow> bool" where
  "representable lib t v \<longleftrightarrow>
    (if t = ''integer'' then \<exists>i. v = of_int i \<and> int64_range i
     else if t = ''duration'' then \<exists>i. v = of_int i \<and> int64_range i \<and> exactDurationNanoseconds (durationString lib i) = Inr i
     else if t = ''number'' then decimal_fits v
     else t = ''quantity'' \<and> \<bar>v\<bar> \<le> 9223372036854775807 \<and>
       (\<exists>s q. canonicalRationalDecimal v = Inr s \<and> ParseQuantity lib s = Some q \<and> ratSetString (quantityAsDec lib q) = Some v))"

section \<open>Decimals\<close>

text \<open>The fraction of a canonical text is the shortest one of its value.\<close>

lemma shortest_fraction:
  assumes c: "canonical_parts I F" and v: "signed neg (parts_value I F) * 10 ^ k = of_int m"
  shows "length F \<le> k" "\<bar>m\<bar> = int (read_nat (I @ F)) * 10 ^ (k - length F)"
proof -
  let ?N = "read_nat (I @ F)"
  have "\<bar>signed neg (parts_value I F) * 10 ^ k\<bar> = \<bar>of_int m\<bar>" using v by simp
  then have "parts_value I F * 10 ^ k = of_int \<bar>m\<bar>"
    using parts_value_nonneg[of I F] by (simp add: abs_mult signed_def split: if_splits)
  then have "(of_nat (?N * 10 ^ k) :: rat) = of_int (\<bar>m\<bar> * 10 ^ length F)" by (simp add: parts_value_def field_simps)
  then have "(of_int (int (?N * 10 ^ k)) :: rat) = of_int (\<bar>m\<bar> * 10 ^ length F)" by simp
  then have eq: "int ?N * 10 ^ k = \<bar>m\<bar> * 10 ^ length F" by (simp only: of_int_eq_iff of_nat_mult of_nat_power of_nat_numeral)
  show le: "length F \<le> k"
  proof (rule ccontr)
    assume "\<not> length F \<le> k"
    then obtain d where d: "length F = Suc (k + d)" using less_imp_Suc_add[of k "length F"] by auto
    then have "int ?N = \<bar>m\<bar> * 10 ^ Suc d" using eq by (simp add: power_add)
    then have "int ?N mod 10 = 0" by simp
    then have "?N mod 10 = 0" by presburger
    moreover have "F \<noteq> []" "list_all is_digit (I @ F)" using d c by (auto simp: canonical_parts_def lead_ok_def)
    ultimately have "last (I @ F) = CHR ''0''" using read_nat_mod10[of "I @ F"] by simp
    then show False using c \<open>F \<noteq> []\<close> by (simp add: canonical_parts_def)
  qed
  have "(10 :: int) ^ k = 10 ^ (k - length F) * 10 ^ length F" using le by (simp flip: power_add)
  then show "\<bar>m\<bar> = int ?N * 10 ^ (k - length F)" using eq by simp
qed

lemma leading_digits:
  assumes "list_all is_digit D" "D \<noteq> []" "hd D \<noteq> CHR ''0''"
  shows "10 ^ (length D - 1) \<le> read_nat D"
proof -
  obtain d ds where D: "D = [d] @ ds" using assms(2) by (cases D) auto
  have "read_nat [d] > 0" using read_nat_pos[of "[d]"] assms D by simp
  then have "1 * 10 ^ length ds \<le> read_nat [d] * 10 ^ length ds" by (intro mult_le_mono1) simp
  then have "10 ^ length ds \<le> read_nat [d] * 10 ^ length ds + read_nat ds" by linarith
  then show ?thesis unfolding D read_nat_append by simp
qed

text \<open>The canonical text of a value is accepted when it is within the digit limits.\<close>

lemma canonical_accepted:
  assumes s: "canonical_text s" "ratSetString s = Some v" and fits: "decimal_fits v"
  shows "canonicalDecimal s = Inr s"
proof -
  obtain neg I F where c: "s = plain_text neg I F" "canonical_parts I F" using s(1) unfolding canonical_text_def by blast
  have dig: "list_all is_digit (I @ F)" and ne: "I \<noteq> []" using c(2) by (auto simp: canonical_parts_def lead_ok_def)
  have v: "v = signed neg (parts_value I F)" using plain_text_value[of I F neg] s(2) c(1) dig ne by simp
  obtain k m where km: "int k < maxCanonicalDecimalDigits" "signed neg (parts_value I F) * 10 ^ k = of_int m" "\<bar>m\<bar> < 10 ^ nat maxCanonicalDecimalDigits"
    using fits v unfolding decimal_fits_def by blast
  note f = shortest_fraction[OF c(2) km(2)]
  have wf: "number_wf I F None" using c(2) by (simp add: number_wf_def canonical_parts_def exponent_wf_def)
  have parts: "canonicalDecimal s = canonicalDigits (if neg then ''-'' else []) I F 0"
    using canonicalDecimal_parts[OF wf, of neg] c(1)
    by (simp add: exponent_text_def exponent_value_def int64_range_def min_int64_def max_int64_def)
  show ?thesis
  proof (cases "read_nat (I @ F) = 0")
    case True
    then have "ratSetString s = ratSetString ''0''" using v s(2) canonical_zero(2) by (simp add: parts_value_def signed_def)
    then have "s = ''0''" using canonical_text_value[OF s(1) canonical_zero(1)] by simp
    then show ?thesis using parts digits_zero[OF dig] True by (simp add: canonicalDigits_def Let_def)
  next
    case False
    define D where "D = dropWhile (\<lambda>c. c = CHR ''0'') (I @ F)"
    define z where "z = length (takeWhile (\<lambda>c. c = CHR ''0'') (I @ F))"
    note D = strip_zeros[of "I @ F", folded D_def z_def]
    have Dne: "D \<noteq> []" using digits_zero[OF dig] False by (simp add: D_def)
    have "list_all is_digit D" using dig D(1) by (metis list_all_append)
    then have low: "10 ^ (length D - 1) \<le> read_nat D" using leading_digits D(2) Dne by simp
    have "read_nat (I @ F) = read_nat D" by (subst D(1)) simp
    moreover have "int (read_nat (I @ F)) \<le> \<bar>m\<bar>" using f(2) by (simp add: mult_le_cancel_left1)
    ultimately have "int (10 ^ (length D - 1)) < 10 ^ nat maxCanonicalDecimalDigits" using low km(3) by linarith
    then have "(10 :: int) ^ (length D - 1) < 10 ^ nat maxCanonicalDecimalDigits" by simp
    then have "length D - 1 < nat maxCanonicalDecimalDigits" by (rule power_less_imp_less_exp[rotated]) simp
    then have lenD: "int (length D) \<le> maxCanonicalDecimalDigits" using Dne by (cases D) auto
    let ?p = "digits_position I F 0" and ?t = "kept_digits I F 0"
    have "length I + length F = z + length D" using arg_cong[OF D(1), of length] by simp
    then have p: "?p = int (length D) - int (length F)" by (simp add: digits_position_def flip: z_def)
    have "0 < length D" using Dne by simp
    then have pb: "\<bar>?p\<bar> \<le> maxCanonicalDecimalDigits" using p lenD f(1) km(1) by linarith
    have "length ?t \<le> length D"
      using trimDigits_split[of D ?p] unfolding kept_digits_def D_def[symmetric] by (metis length_append le_add1)
    then have tb: "int (length ?t) \<le> maxCanonicalDecimalDigits" using lenD by linarith
    have w: "wrap64 ?p = ?p"
      using pb by (intro wrap64_id) (auto simp: int64_range_def min_int64_def max_int64_def maxCanonicalDecimalDigits_def)
    obtain J G where JG: "place ?t ?p = (J, G)" by (cases "place ?t ?p")
    note k = kept_digits_placed[OF dig False, of 0]
    have "parts_value J G = parts_value I F" using place_value[OF JG] k(2) by simp
    then have "J = I \<and> G = F" using parts_unique[OF place_canonical(1)[OF k(1) JG] c(2)] by simp
    then show ?thesis using parts canonicalDigits_eq[OF dig False w JG] pb tb c(1) by (simp add: plain_text_def)
  qed
qed

text \<open>What the conversions accept is within the limits.\<close>

lemma rationalScale_scale: "rationalScale v scale = Inr c \<Longrightarrow> \<exists>k m. int k < maxCanonicalDecimalDigits \<and> v * 10 ^ k = of_int m"
proof (induction v scale rule: rationalScale.induct)
  case (1 v scale)
  show ?case
  proof (cases "int scale < maxCanonicalDecimalDigits \<and> ratSetString (floatString v scale) = Some v")
    case True
    then have "v = signed (v < 0) (of_int (scaled_magnitude v scale) / 10 ^ scale)" using floatString_value[of v scale] by simp
    then have "v * 10 ^ scale = signed (v < 0) (of_int (scaled_magnitude v scale) / 10 ^ scale) * 10 ^ scale" by (rule arg_cong)
    also have "\<dots> = of_int (if v < 0 then - scaled_magnitude v scale else scaled_magnitude v scale)" by (simp add: signed_def)
    finally show ?thesis using True by blast
  next
    case False
    then show ?thesis using "1.prems" "1.IH" by (subst (asm) rationalScale.simps) (auto split: if_splits)
  qed
qed

lemma canonicalRationalDecimal_scale:
  "canonicalRationalDecimal v = Inr c \<Longrightarrow> \<exists>k m. int k < maxCanonicalDecimalDigits \<and> v * 10 ^ k = of_int m"
proof -
  assume "canonicalRationalDecimal v = Inr c"
  then have "rationalScale v 0 = Inr c \<or> rationalScale v (Suc 0) = Inr c"
    by (auto simp: canonicalRationalDecimal_def Let_def split: if_splits)
  then show ?thesis using rationalScale_scale[of v _ c] by blast
qed

lemma accepted_fits:
  assumes s: "canonicalRationalDecimal v = Inr s" "canonicalDecimal s = Inr c" "text_bound s"
  shows "decimal_fits v"
proof -
  have t: "canonical_text s" "ratSetString s = Some v" using canonicalRationalDecimal_Inr[OF s(1)] by simp_all
  obtain neg I F where c: "s = plain_text neg I F" "canonical_parts I F" using t(1) unfolding canonical_text_def by blast
  have dig: "list_all is_digit (I @ F)" and ne: "I \<noteq> []" using c(2) by (auto simp: canonical_parts_def lead_ok_def)
  have v: "v = signed neg (parts_value I F)" using plain_text_value[of I F neg] t(2) c(1) dig ne by simp
  obtain k m where km: "int k < maxCanonicalDecimalDigits" "v * 10 ^ k = of_int m" using canonicalRationalDecimal_scale[OF s(1)] by blast
  have "length F \<le> k" using shortest_fraction(1)[OF c(2)] km(2) v by simp
  then have f: "int (length F) < maxCanonicalDecimalDigits" using km(1) by linarith
  have whole: "v * 10 ^ length F = of_int (if neg then - int (read_nat (I @ F)) else int (read_nat (I @ F)))"
    by (simp add: v signed_def parts_value_def)
  have "int (read_nat (I @ F)) < 10 ^ nat maxCanonicalDecimalDigits"
  proof (cases "read_nat (I @ F) = 0")
    case False
    have wf: "number_wf I F None" using c(2) by (simp add: number_wf_def canonical_parts_def exponent_wf_def)
    have digits: "canonicalDigits (if neg then ''-'' else []) I F 0 = Inr c"
      using canonicalDecimal_parts[OF wf, of neg] c(1) s(2)
      by (simp add: exponent_text_def exponent_value_def int64_range_def min_int64_def max_int64_def)
    let ?p = "digits_position I F 0" and ?t = "kept_digits I F 0"
    have len: "int (length (I @ F)) \<le> 4611686018427387904" using s(3) c(1) by (simp add: text_bound_def plain_text_def split: if_splits)
    have L: "\<bar>int (length I) - int (length (takeWhile (\<lambda>c. c = CHR ''0'') (I @ F)))\<bar> \<le> 4611686018427387904"
      using len length_takeWhile_le[of "\<lambda>c. c = CHR ''0''" "I @ F"] by (auto simp: abs_le_iff)
    have "\<bar>wrap64 ?p\<bar> \<le> maxCanonicalDecimalDigits"
      using digits False digits_zero[OF dig] by (auto simp: canonicalDigits_def Let_def digits_position_def split: if_splits)
    then have w: "wrap64 ?p = ?p" using wrap_guard[OF L, of 0] by (simp add: digits_position_def int64_range_def min_int64_def max_int64_def)
    obtain J G where JG: "place ?t ?p = (J, G)" by (cases "place ?t ?p")
    have b: "\<bar>?p\<bar> \<le> maxCanonicalDecimalDigits" "int (length ?t) \<le> maxCanonicalDecimalDigits"
      using canonicalDigits_eq[OF dig False w JG] digits by (auto split: if_splits)
    define D where "D = dropWhile (\<lambda>c. c = CHR ''0'') (I @ F)"
    define z where "z = length (takeWhile (\<lambda>c. c = CHR ''0'') (I @ F))"
    note D = strip_zeros[of "I @ F", folded D_def z_def]
    have "length I + length F = z + length D" using arg_cong[OF D(1), of length] by simp
    then have p: "?p = int (length D) - int (length F)" by (simp add: digits_position_def flip: z_def)
    obtain j where j: "D = ?t @ replicate j CHR ''0''" "j > 0 \<longrightarrow> int (length ?t) \<ge> ?p"
      using trimDigits_split[of D ?p] unfolding kept_digits_def D_def[symmetric] by metis
    have "int (length D) \<le> maxCanonicalDecimalDigits"
    proof (cases "F = []")
      case True
      then show ?thesis using p b(1) by simp
    next
      case F: False
      have "D \<noteq> []" using digits_zero[OF dig] False by (simp add: D_def)
      then have "last D = last F" using D(1) F by (metis last_appendR)
      moreover have "last (?t @ replicate (Suc n) CHR ''0'') = CHR ''0''" for n by simp
      ultimately have "j = 0" using j(1) c(2) F by (cases j) (force simp: canonical_parts_def)+
      then show ?thesis using j(1) b(2) by simp
    qed
    then have "length D \<le> nat maxCanonicalDecimalDigits" by linarith
    moreover have "list_all is_digit D" using dig D(1) by (metis list_all_append)
    then have "read_nat D < 10 ^ length D" by (rule read_nat_less)
    moreover have "read_nat (I @ F) = read_nat D" by (subst D(1)) simp
    ultimately have "read_nat (I @ F) < 10 ^ nat maxCanonicalDecimalDigits"
      using power_increasing[of "length D" "nat maxCanonicalDecimalDigits" "10 :: nat"] by linarith
    then have "int (read_nat (I @ F)) < int (10 ^ nat maxCanonicalDecimalDigits)" by (simp only: of_nat_less_iff)
    then show ?thesis by simp
  qed simp
  then show ?thesis unfolding decimal_fits_def using f whole
    by (intro exI[of _ "length F"] exI[of _ "if neg then - int (read_nat (I @ F)) else int (read_nat (I @ F))"]) simp
qed

section \<open>Conversions\<close>

lemma configured_number_iff: "isl (configuredMatch lib ''number'' (JString s)) = isl (canonicalDecimal s)"
  by (simp add: configuredMatch_def ConvertConfiguredMatch_def ConvertMatch_def convertNonNull_def convertNumber_def numberText_def IsSupportedType_def
      split: sum.split)

lemma configured_number_ok:
  assumes "canonical_text s" "ratSetString s = Some v" "decimal_fits v"
  shows "ok (configuredMatch lib ''number'' (JString s))"
  using canonical_accepted[OF assms] by (simp add: configured_number_iff)

lemma MatchFromExact_representable:
  assumes lib: "lib_ok lib" and t: "t \<in> set [''integer'', ''number'', ''duration'', ''quantity'']"
    and b: "\<forall>s. canonicalRationalDecimal v = Inr s \<longrightarrow> text_bound s"
  shows "ok (MatchFromExact lib t v) \<longleftrightarrow> representable lib t v"
proof -
  have whole: "snd (quotient_of v) = 1 \<and> fst (quotient_of v) = i" if "v = of_int i" for i using that by simp
  have unwhole: "v = of_int (fst (quotient_of v))" if "snd (quotient_of v) = 1" using whole_rational[OF that] by simp
  consider "t = ''integer''" | "t = ''number''" | "t = ''duration''" | "t = ''quantity''" using t by auto
  then show ?thesis
  proof cases
    case 1
    have "ok (configuredMatch lib ''integer'' (JInt i)) \<longleftrightarrow> True" for i
      by (simp add: configuredMatch_def ConvertConfiguredMatch_def ConvertMatch_def convertNonNull_def IsSupportedType_def)
    then show ?thesis using 1 whole unwhole by (auto simp: MatchFromExact_def Let_def representable_def)
  next
    case 2
    show ?thesis
    proof (cases "canonicalRationalDecimal v")
      case (Inl e)
      then have "\<not> decimal_fits v" using canonicalRationalDecimal_total[of v] by (auto simp: decimal_fits_def)
      then show ?thesis using 2 Inl by (simp add: MatchFromExact_def Let_def representable_def)
    next
      case (Inr s)
      note s = canonicalRationalDecimal_Inr[OF Inr]
      have "ok (canonicalDecimal s) \<longleftrightarrow> decimal_fits v"
        using canonical_accepted[of s v] accepted_fits[OF Inr] s b Inr by (cases "canonicalDecimal s") auto
      then show ?thesis using 2 Inr configured_number_iff[of lib s] by (simp add: MatchFromExact_def Let_def representable_def)
    qed
  next
    case 3
    have "ok (configuredMatch lib ''duration'' (JString (durationString lib i))) \<longleftrightarrow> exactDurationNanoseconds (durationString lib i) = Inr i"
      if "int64_range i" for i
      using lib that by (auto simp: lib_ok_def configuredMatch_def ConvertConfiguredMatch_def ConvertMatch_def convertNonNull_def IsSupportedType_def
          split: sum.splits duration_error.splits)
    then show ?thesis using 3 whole unwhole by (auto simp: MatchFromExact_def Let_def representable_def)
  next
    case 4
    show ?thesis
    proof (cases "canonicalRationalDecimal v")
      case (Inl e)
      then show ?thesis using 4 by (simp add: MatchFromExact_def Let_def representable_def)
    next
      case (Inr s)
      note s = canonicalRationalDecimal_Inr[OF Inr]
      obtain neg I F where c: "s = plain_text neg I F" "canonical_parts I F" using s unfolding canonical_text_def by blast
      have "exactQuantityMagnitude s = Inr v"
        using plain_quantity[of I F neg] plain_text_value[of I F neg] c s by (simp add: canonical_parts_def lead_ok_def)
      then have "ok (configuredMatch lib ''quantity'' (JString s)) \<longleftrightarrow> \<bar>v\<bar> \<le> 9223372036854775807 \<and>
          (\<exists>q. ParseQuantity lib s = Some q \<and> ratSetString (quantityAsDec lib q) = Some v)"
        using Inr by (auto simp: configuredMatch_def ConvertConfiguredMatch_def ConvertMatch_def convertNonNull_def IsSupportedType_def
            quantityMagnitudeExceedsInt64_def not_less split: sum.splits option.splits)
      then show ?thesis using 4 Inr by (simp add: MatchFromExact_def Let_def representable_def)
    qed
  qed
qed

text \<open>A mean fails only for an unsupported precision or rounding mode, or when its rounded value is too long.\<close>

lemma MatchFromExactNumber_fails:
  assumes "MatchFromExactNumber lib v scale mode = Inl e"
  shows "scale < 0 \<or> scale > 18 \<or> \<not> supportedRoundingMode mode \<or>
    (\<exists>k. rounded mode (v * 10 ^ nat scale) k \<and> \<not> decimal_fits (of_int k / 10 ^ nat scale))"
proof (cases "roundRationalDecimal v scale mode")
  case (Inl x)
  then show ?thesis by (auto simp: roundRationalDecimal_def Let_def split: if_splits prod.splits)
next
  case (Inr s)
  obtain k where k: "canonical_text s" "ratSetString s = Some (of_int k / 10 ^ nat scale)" "rounded mode (v * 10 ^ nat scale) k"
    using roundRationalDecimal_Inr[OF Inr] by blast
  have "isl (configuredMatch lib ''number'' (JString s))" using assms Inr by (simp add: MatchFromExactNumber_def)
  then show ?thesis using configured_number_ok[OF k(1,2), of lib] k(3) by blast
qed

end
