(* ===== verification/AggregationReducers.thy ===== *)
theory AggregationReducers
  imports AggregationGrouping ExactResults
begin

text \<open>
  Reducers of \<^verbatim>\<open>src/internal/aggregation/reducers.go\<close> against an exact specification over the rationals, and the cardinality
  limits of \<^verbatim>\<open>evaluator.go\<close> carried to the published groups.
\<close>

section \<open>Lemmas: reducers\<close>

definition exact_value :: "string \<Rightarrow> 'q Contribution \<Rightarrow> rat" where
  "exact_value t x = (case ExactRational t (co_match x) of Inr v \<Rightarrow> v | Inl _ \<Rightarrow> 0)"

definition exact_sum :: "string \<Rightarrow> 'q Contribution list \<Rightarrow> rat" where
  "exact_sum t xs = sum_list (map (exact_value t) xs)"

definition payload_of :: "'q Match \<Rightarrow> 'q payload" where
  "payload_of m = the (m_value m)"

definition contribution_order_value :: "'q Contribution \<Rightarrow> order_value" where
  "contribution_order_value x = the (order_value_of (payload_of (co_match x)))"

definition value_key :: "'q TypedLib \<Rightarrow> AggregatePlan \<Rightarrow> 'q Match \<Rightarrow> nat list" where
  "value_key lib plan m = (case CanonicalKey lib (ap_fieldType plan) m of Inr k \<Rightarrow> k | Inl _ \<Rightarrow> [])"

text \<open>First occurrences, and the distinct values as a function of the contributions.\<close>

definition firsts :: "'a list \<Rightarrow> 'a list" where
  "firsts xs = rev (remdups (rev xs))"

abbreviation with_key :: "'q TypedLib \<Rightarrow> AggregatePlan \<Rightarrow> 'q Contribution list \<Rightarrow> nat list \<Rightarrow> 'q Contribution list" where
  "with_key lib plan xs k \<equiv> filter (\<lambda>x. value_key lib plan (co_match x) = k) xs"

definition distinct_value :: "'q TypedLib \<Rightarrow> AggregatePlan \<Rightarrow> 'q Contribution list \<Rightarrow> nat list \<Rightarrow> 'q AggregateValueMatch" where
  "distinct_value lib plan xs k = \<lparr>avm_match = co_match (hd (with_key lib plan xs k)),
     avm_contributors = (if ap_includeProvenance plan then firsts (map co_provenance (with_key lib plan xs k)) else [])\<rparr>"

definition distinct_values :: "'q TypedLib \<Rightarrow> AggregatePlan \<Rightarrow> 'q Contribution list \<Rightarrow> (nat list \<times> 'q AggregateValueMatch) list" where
  "distinct_values lib plan xs = map (\<lambda>k. (k, distinct_value lib plan xs k)) (firsts (map (\<lambda>x. value_key lib plan (co_match x)) xs))"

text \<open>What each reducer promises of the contributions of a group, in their order.\<close>

definition reduces :: "'q TypedLib \<Rightarrow> AggregatePlan \<Rightarrow> 'q Contribution list \<Rightarrow> 'q AggregateValue \<Rightarrow> bool" where
  "reduces lib plan xs v \<longleftrightarrow>
    (let t = ap_fieldType plan; fn = ap_function plan in
     if fn = ''collect'' then av_type v = t \<and> av_state v = ''values'' \<and> map avm_match (av_matches v) = map co_match xs \<and>
       map avm_contributors (av_matches v) = map (\<lambda>x. if ap_includeProvenance plan then [co_provenance x] else []) xs
     else if fn = ''count'' then v = plainValue ''integer'' (newValueMatch ''integer'' (VInteger (int (length xs))))
     else if fn = ''sum'' then \<exists>m. v = plainValue t m \<and> ExactRational t m = Inr (exact_sum t xs)
     else if fn = ''average'' then
       (if xs = [] then v = absentValue t
        else \<exists>m k. v = plainValue ''number'' m \<and> ExactRational ''number'' m = Inr (of_int k / 10 ^ nat (ap_precision plan)) \<and>
          rounded (ap_roundingMode plan) (exact_sum t xs / of_nat (length xs) * 10 ^ nat (ap_precision plan)) k)
     else if fn = ''min'' then
       (if xs = [] then v = absentValue t
        else \<exists>x \<in> set xs. v = plainValue t (co_match x) \<and> (\<forall>y \<in> set xs. contribution_order_value x \<le> contribution_order_value y))
     else if fn = ''max'' then
       (if xs = [] then v = absentValue t
        else \<exists>x \<in> set xs. v = plainValue t (co_match x) \<and> (\<forall>y \<in> set xs. contribution_order_value y \<le> contribution_order_value x))
     else if fn = ''first'' then v = (if xs = [] then absentValue t else plainValue t (co_match (hd xs)))
     else if fn = ''last'' then v = (if xs = [] then absentValue t else plainValue t (co_match (last xs)))
     else if fn = ''distinct'' then av_type v = t \<and> av_state v = ''values'' \<and> av_matches v = map snd (distinct_values lib plan xs)
     else False)"

definition contributions_typed :: "'q TypedLib \<Rightarrow> string \<Rightarrow> 'q Contribution list \<Rightarrow> bool" where
  "contributions_typed lib t xs \<longleftrightarrow> list_all (\<lambda>x. operand_wf lib t (co_match x)) xs"

lemma collectMatches_never:
  "\<exists>ms. collectMatches plan None xs = (Inr ms, None) \<and> map avm_match ms = map co_match xs \<and>
     map avm_contributors ms = map (provenanceForValue plan) xs"
  by (induction xs) auto

lemma ExactRational_typed:
  assumes "operand_wf lib t m" "t \<in> set [''integer'', ''number'', ''duration'', ''quantity'']"
  shows "\<exists>v. ExactRational t m = Inr v"
proof -
  obtain v where v: "m = newValueMatch t v" "payload_wf lib t v" using assms(1) by (cases m) (auto simp: operand_wf_def match_wf_def)
  consider "t = ''integer''" | "t = ''number''" | "t = ''duration''" | "t = ''quantity''" using assms(2) by auto
  then show ?thesis
  proof cases
    case 2
    then obtain s where "v = VNumber s" "canonical_text s" using v(2) by (auto simp: payload_wf_def kind_of_iff)
    then show ?thesis using canonical_has_value[of s] v(1) 2 by (auto simp: ExactRational_def)
  next
    case 4
    then obtain q b where "v = VQuantity q b" "canonical_text b" using v(2) by (auto simp: payload_wf_def kind_of_iff)
    then show ?thesis using canonical_has_value[of b] v(1) 4 by (auto simp: ExactRational_def)
  qed (use v(1) in \<open>simp_all add: ExactRational_def\<close>)
qed

lemma exactContributionSum_never:
  assumes "contributions_typed lib (ap_fieldType plan) xs" "ap_fieldType plan \<in> set [''integer'', ''number'', ''duration'', ''quantity'']"
  shows "exactContributionSum plan None a xs = (Inr (a + exact_sum (ap_fieldType plan) xs), None)"
  using assms(1)
proof (induction xs arbitrary: a)
  case (Cons x xs)
  then have "operand_wf lib (ap_fieldType plan) (co_match x)" by (simp add: contributions_typed_def)
  then obtain v where "ExactRational (ap_fieldType plan) (co_match x) = Inr v" using ExactRational_typed[OF _ assms(2)] by blast
  then show ?case using Cons by (simp add: exact_sum_def exact_value_def contributions_typed_def add.assoc)
qed (simp add: exact_sum_def)

lemma extremum_never:
  assumes "contributions_typed lib (ap_fieldType plan) (x0 # xs)" "supportedGroupType (ap_fieldType plan)"
    "ap_fieldType plan \<noteq> ''boolean''" "lib_ok lib" "ap_function plan = ''min'' \<or> ap_function plan = ''max''"
  shows "\<exists>x \<in> set (x0 # xs). extremum lib plan None (co_match x0) xs = (Inr (co_match x), None) \<and>
    (\<forall>y \<in> set (x0 # xs). if ap_function plan = ''min'' then contribution_order_value x \<le> contribution_order_value y
       else contribution_order_value y \<le> contribution_order_value x)"
  using assms(1)
proof (induction xs arbitrary: x0)
  case (Cons y ys)
  let ?t = "ap_fieldType plan"
  have o: "?t \<notin> {''boolean'', ''object'', ''list''}" using assms(2,3) by (auto simp: supportedGroupType_def)
  obtain v w where m: "co_match y = newValueMatch ?t v" "payload_wf lib ?t v" "co_match x0 = newValueMatch ?t w" "payload_wf lib ?t w"
    and sup: "IsSupportedType ?t"
    using Cons.prems by (cases "co_match y"; cases "co_match x0") (auto simp: contributions_typed_def operand_wf_def match_wf_def)
  obtain a b where ab: "order_value_of v = Some a" "order_value_of w = Some b"
    using order_value_exists[OF m(2) o] order_value_exists[OF m(4) o] by blast
  have cmp: "CompareMatches lib (co_match y) (co_match x0) = Inr (order_cmp a b)"
    using compare_payloads[OF m(2,4) assms(4) sup ab] m(1,3) by simp
  have val: "contribution_order_value y = a" "contribution_order_value x0 = b"
    using m(1,3) ab by (simp_all add: contribution_order_value_def payload_of_def)
  let ?better = "(ap_function plan = ''min'' \<and> order_cmp a b < 0) \<or> (ap_function plan = ''max'' \<and> order_cmp a b > 0)"
  let ?z = "if ?better then y else x0"
  have typed: "contributions_typed lib ?t (?z # ys)" using Cons.prems by (simp add: contributions_typed_def)
  obtain x where x: "x \<in> set (?z # ys)" "extremum lib plan None (co_match ?z) ys = (Inr (co_match x), None)"
    "\<forall>u \<in> set (?z # ys). if ap_function plan = ''min'' then contribution_order_value x \<le> contribution_order_value u
       else contribution_order_value u \<le> contribution_order_value x" using Cons.IH[OF typed] by blast
  have step: "extremum lib plan None (co_match x0) (y # ys) = extremum lib plan None (co_match ?z) ys" using cmp by simp
  have other: "if ap_function plan = ''min'' then contribution_order_value ?z \<le> contribution_order_value y \<and> contribution_order_value ?z \<le> contribution_order_value x0
      else contribution_order_value y \<le> contribution_order_value ?z \<and> contribution_order_value x0 \<le> contribution_order_value ?z"
    using assms(5) order_cmp_swap[of a b] order_cmp_zero[of a a] order_cmp_zero[of b b] by (auto simp: val less_eq_order_value_def)
  have "\<forall>u \<in> set (x0 # y # ys). if ap_function plan = ''min'' then contribution_order_value x \<le> contribution_order_value u
       else contribution_order_value u \<le> contribution_order_value x"
    using x(3) other by (auto split: if_splits intro: order_trans)
  moreover have "x \<in> set (x0 # y # ys)" using x(1) by (auto split: if_splits)
  ultimately show ?case using step x(2) by metis
qed simp

lemma firsts_snoc: "firsts (xs @ [x]) = (if x \<in> set xs then firsts xs else firsts xs @ [x])"
  by (simp add: firsts_def)

lemma set_firsts [simp]: "set (firsts xs) = set xs" and distinct_firsts [simp]: "distinct (firsts xs)"
  and firsts_Nil [simp]: "firsts [] = []"
  by (simp_all add: firsts_def)

lemma appendUnique_firsts: "appendUniqueProvenance (firsts ps) p = firsts (ps @ [p])"
  by (simp add: appendUniqueProvenance_eq firsts_snoc)

lemma noteDistinct_map:
  assumes "distinct ks"
  shows "noteDistinct plan key x (map (\<lambda>k. (k, F k)) ks) =
    (if key \<in> set ks then map (\<lambda>k. (k, if k = key \<and> ap_includeProvenance plan
        then (F k)\<lparr>avm_contributors := appendUniqueProvenance (avm_contributors (F k)) (co_provenance x)\<rparr> else F k)) ks
     else map (\<lambda>k. (k, F k)) ks @ [(key, \<lparr>avm_match = co_match x, avm_contributors = provenanceForValue plan x\<rparr>)])"
  using assms
proof (induction ks)
  case (Cons k ks)
  show ?case
  proof (cases "k = key")
    case True
    then have "map (\<lambda>k. (k, if k = key \<and> ap_includeProvenance plan
        then (F k)\<lparr>avm_contributors := appendUniqueProvenance (avm_contributors (F k)) (co_provenance x)\<rparr> else F k)) ks = map (\<lambda>k. (k, F k)) ks"
      using Cons.prems by (auto intro!: map_cong)
    then show ?thesis using True by simp
  qed (use Cons in simp)
qed simp

lemma noteDistinct_values:
  assumes "key = value_key lib plan (co_match x)"
  shows "noteDistinct plan key x (distinct_values lib plan xs) = distinct_values lib plan (xs @ [x])"
proof (cases "key \<in> (\<lambda>x. value_key lib plan (co_match x)) ` set xs")
  case True
  then have "with_key lib plan xs key \<noteq> []" by (auto simp: filter_empty_conv)
  then have "(if k = key \<and> ap_includeProvenance plan
        then (distinct_value lib plan xs k)\<lparr>avm_contributors := appendUniqueProvenance (avm_contributors (distinct_value lib plan xs k)) (co_provenance x)\<rparr>
        else distinct_value lib plan xs k) = distinct_value lib plan (xs @ [x]) k" for k
    using assms by (auto simp: distinct_value_def appendUnique_firsts hd_append)
  then show ?thesis using True assms
    by (simp add: distinct_values_def noteDistinct_map firsts_snoc)
next
  case False
  then have "with_key lib plan xs key = []" by (auto simp: filter_empty_conv)
  then have new: "distinct_value lib plan (xs @ [x]) key = \<lparr>avm_match = co_match x, avm_contributors = provenanceForValue plan x\<rparr>"
    using assms by (simp add: distinct_value_def provenanceForValue_def firsts_def)
  have old: "distinct_value lib plan (xs @ [x]) k = distinct_value lib plan xs k" if "k \<noteq> key" for k
    using that assms by (simp add: distinct_value_def)
  have "map (\<lambda>k. (k, distinct_value lib plan (xs @ [x]) k)) (firsts (map (\<lambda>x. value_key lib plan (co_match x)) xs)) = distinct_values lib plan xs"
    unfolding distinct_values_def
  proof (rule map_cong[OF refl])
    fix k assume "k \<in> set (firsts (map (\<lambda>x. value_key lib plan (co_match x)) xs))"
    then have "k \<in> (\<lambda>x. value_key lib plan (co_match x)) ` set xs" by simp
    then have "k \<noteq> key" using False by blast
    then show "(k, distinct_value lib plan (xs @ [x]) k) = (k, distinct_value lib plan xs k)" using old by simp
  qed
  then show ?thesis using False assms new
    by (simp add: distinct_values_def noteDistinct_map firsts_snoc)
qed

lemma distinctMatches_values:
  assumes "distinctMatches lib plan c (distinct_values lib plan xs) ys = (Inr found, c')"
  shows "found = distinct_values lib plan (xs @ ys)"
  using assms
proof (induction ys arbitrary: c xs)
  case (Cons y ys)
  obtain c1 where c1: "ctx_err c = (False, c1)" using Cons.prems(1) by (cases "ctx_err c") (auto split: bool.splits)
  obtain key where key: "CanonicalKey lib (ap_fieldType plan) (co_match y) = Inr key" using Cons.prems c1 by (auto split: sum.splits)
  then have "noteDistinct plan key y (distinct_values lib plan xs) = distinct_values lib plan (xs @ [y])"
    by (intro noteDistinct_values) (simp add: value_key_def)
  then show ?case using Cons.IH[of c1 "xs @ [y]"] Cons.prems c1 key by simp
qed simp

lemma distinctMatches_never:
  "list_all (\<lambda>x. ok (CanonicalKey lib (ap_fieldType plan) (co_match x))) xs \<Longrightarrow>
     \<exists>found'. distinctMatches lib plan None found xs = (Inr found', None)"
proof (induction xs arbitrary: found)
  case (Cons x xs)
  then show ?case by (cases "CanonicalKey lib (ap_fieldType plan) (co_match x)") auto
qed simp

text \<open>The texts of the exact results fit in memory.\<close>

definition results_bounded :: "AggregatePlan \<Rightarrow> 'q Contribution list \<Rightarrow> bool" where
  "results_bounded plan xs \<longleftrightarrow>
     (case canonicalRationalDecimal (exact_sum (ap_fieldType plan) xs) of Inr s \<Rightarrow> text_bound s | Inl _ \<Rightarrow> True) \<and>
     (case roundRationalDecimal (exact_sum (ap_fieldType plan) xs / of_nat (length xs)) (ap_precision plan) (ap_roundingMode plan) of
        Inr s \<Rightarrow> text_bound s | Inl _ \<Rightarrow> True)"

text \<open>A group reduces, or its exact sum or its rounded mean has no representation, or it is a boolean extremum of several contributions, or
  it has a distinct value without a key.  A sum that reduces is representable.\<close>

definition mean_representable :: "AggregatePlan \<Rightarrow> rat \<Rightarrow> bool" where
  "mean_representable plan mean \<longleftrightarrow> 0 \<le> ap_precision plan \<and> ap_precision plan \<le> 18 \<and> supportedRoundingMode (ap_roundingMode plan) \<and>
     (\<forall>k. rounded (ap_roundingMode plan) (mean * 10 ^ nat (ap_precision plan)) k \<longrightarrow> decimal_fits (of_int k / 10 ^ nat (ap_precision plan)))"

definition group_reduced :: "'q TypedLib \<Rightarrow> AggregatePlan \<Rightarrow> 'q Contribution list \<Rightarrow> (reduce_stop, 'q AggregateValue) res \<Rightarrow> bool" where
  "group_reduced lib plan xs r \<longleftrightarrow> (case r of
      Inr v \<Rightarrow> reduces lib plan xs v \<and>
        (ap_function plan = ''sum'' \<longrightarrow> representable lib (ap_fieldType plan) (exact_sum (ap_fieldType plan) xs))
    | Inl ReduceInterrupted \<Rightarrow> False
    | Inl (ReduceFailed e) \<Rightarrow>
        ae_reason e = ''overflow'' \<and> ap_function plan = ''sum'' \<and>
          \<not> representable lib (ap_fieldType plan) (exact_sum (ap_fieldType plan) xs) \<or>
        ae_reason e = ''overflow'' \<and> ap_function plan = ''average'' \<and> xs \<noteq> [] \<and>
          \<not> mean_representable plan (exact_sum (ap_fieldType plan) xs / of_nat (length xs)) \<or>
        ae_message e = ''extrema comparison is invalid'' \<and> ap_function plan \<in> {''min'', ''max''} \<and> ap_fieldType plan = ''boolean'' \<and> 1 < length xs \<or>
        ae_message e = ''distinct value key is invalid'' \<and> ap_function plan = ''distinct'' \<and>
          list_ex (\<lambda>x. isl (CanonicalKey lib (ap_fieldType plan) (co_match x))) xs)"

lemma distinctMatches_failed:
  assumes "distinctMatches lib plan None found xs = (Inl s, c')"
  shows "s = ReduceFailed (reducerError plan ''invalid-input'' ''distinct value key is invalid'') \<and>
    list_ex (\<lambda>x. isl (CanonicalKey lib (ap_fieldType plan) (co_match x))) xs"
  using assms
proof (induction xs arbitrary: found)
  case (Cons x xs)
  then show ?case by (cases "CanonicalKey lib (ap_fieldType plan) (co_match x)") auto
qed simp

lemma reduce_sum:
  assumes "contributions_typed lib (ap_fieldType plan) (cg_contributions g)" "lib_ok lib" "ap_function plan = ''sum''"
    "compatibleFunction (ap_function plan) (ap_fieldType plan)" "results_bounded plan (cg_contributions g)"
  shows "group_reduced lib plan (cg_contributions g) (fst (reduceGroup lib None plan g))"
proof -
  let ?xs = "cg_contributions g" and ?t = "ap_fieldType plan"
  have ty: "?t \<in> set [''integer'', ''number'', ''duration'', ''quantity'']" using assms(3,4) by (simp add: compatibleFunction_def)
  note sum = exactContributionSum_never[OF assms(1) ty, of 0]
  have bound: "\<forall>s. canonicalRationalDecimal (exact_sum ?t ?xs) = Inr s \<longrightarrow> text_bound s" using assms(5) by (auto simp: results_bounded_def)
  note rep = MatchFromExact_representable[OF assms(2) ty bound]
  show ?thesis
  proof (cases "MatchFromExact lib ?t (exact_sum ?t ?xs)")
    case (Inl e)
    then show ?thesis using sum assms(3) rep
      by (simp add: reduceGroup_def with_value_def sumMatch_def group_reduced_def reducerError_def aggregateFailure_def NewAggregateError_def)
  next
    case (Inr m)
    from MatchFromExact_value[OF Inr assms(2) bound] show ?thesis using sum assms(3) Inr rep
      by (auto simp: reduceGroup_def with_value_def sumMatch_def group_reduced_def reduces_def Let_def)
  qed
qed

lemma reduce_average:
  assumes "contributions_typed lib (ap_fieldType plan) (cg_contributions g)" "ap_function plan = ''average''"
    "compatibleFunction (ap_function plan) (ap_fieldType plan)" "results_bounded plan (cg_contributions g)"
  shows "group_reduced lib plan (cg_contributions g) (fst (reduceGroup lib None plan g))"
proof (cases "cg_contributions g = []")
  case True
  then show ?thesis using assms(2) by (simp add: reduceGroup_def group_reduced_def reduces_def)
next
  case False
  let ?xs = "cg_contributions g" and ?t = "ap_fieldType plan"
  let ?mean = "exact_sum ?t ?xs / of_nat (length ?xs)"
  have ty: "?t \<in> set [''integer'', ''number'', ''duration'', ''quantity'']" using assms(2,3) by (auto simp: compatibleFunction_def)
  note sum = exactContributionSum_never[OF assms(1) ty, of 0]
  show ?thesis
  proof (cases "MatchFromExactNumber lib ?mean (ap_precision plan) (ap_roundingMode plan)")
    case (Inl e)
    then have "\<not> mean_representable plan ?mean" using MatchFromExactNumber_fails[OF Inl] by (auto simp: mean_representable_def)
    then show ?thesis using Inl sum assms(2) False
      by (simp add: reduceGroup_def with_value_def averageMatch_def group_reduced_def reducerError_def aggregateFailure_def NewAggregateError_def)
  next
    case (Inr m)
    have "\<forall>s. roundRationalDecimal ?mean (ap_precision plan) (ap_roundingMode plan) = Inr s \<longrightarrow> text_bound s"
      using assms(4) by (auto simp: results_bounded_def)
    from MatchFromExactNumber_value[OF Inr this] show ?thesis using sum assms(2) Inr False
      by (auto simp: reduceGroup_def with_value_def averageMatch_def group_reduced_def reduces_def Let_def)
  qed
qed

lemma extremum_boolean:
  assumes "contributions_typed lib ''boolean'' (x0 # x # xs)" "ap_fieldType plan = ''boolean''"
  shows "extremum lib plan None (co_match x0) (x # xs) =
    (Inl (ReduceFailed (reducerError plan ''invalid-input'' ''extrema comparison is invalid'')), None)"
proof -
  obtain a b where "co_match x = newValueMatch ''boolean'' (VBoolean a)" "co_match x0 = newValueMatch ''boolean'' (VBoolean b)"
    using assms(1) by (cases "co_match x"; cases "co_match x0")
      (auto simp: contributions_typed_def operand_wf_def match_wf_def payload_wf_def kind_of_iff)
  then show ?thesis by (simp add: CompareMatches_def validateComparableMatches_def IsSupportedType_def)
qed

lemma reduce_extremum:
  assumes "contributions_typed lib (ap_fieldType plan) (cg_contributions g)" "lib_ok lib" "ap_function plan = ''min'' \<or> ap_function plan = ''max''"
    "compatibleFunction (ap_function plan) (ap_fieldType plan)"
  shows "group_reduced lib plan (cg_contributions g) (fst (reduceGroup lib None plan g))"
proof (cases "cg_contributions g")
  case Nil
  then show ?thesis using assms(3) by (auto simp: reduceGroup_def group_reduced_def reduces_def)
next
  case (Cons x0 xs)
  have go: "reduceGroup lib None plan g = with_value (extremum lib plan None (co_match x0) xs) (plainValue (ap_fieldType plan))"
    using assms(3) Cons by (auto simp: reduceGroup_def)
  have sg: "supportedGroupType (ap_fieldType plan)" using assms(3,4) by (auto simp: compatibleFunction_def)
  show ?thesis
  proof (cases "ap_fieldType plan = ''boolean''")
    case True
    show ?thesis
    proof (cases xs)
      case Nil
      then show ?thesis using go Cons assms(3) by (auto simp: with_value_def group_reduced_def reduces_def)
    next
      case (Cons x ys)
      then show ?thesis using go \<open>cg_contributions g = x0 # xs\<close> extremum_boolean[of lib x0 x ys plan] assms(1,3) True
        by (simp add: with_value_def group_reduced_def reducerError_def aggregateFailure_def NewAggregateError_def)
    qed
  next
    case False
    obtain x where x: "x \<in> set (x0 # xs)" "extremum lib plan None (co_match x0) xs = (Inr (co_match x), None)"
      "\<forall>y \<in> set (x0 # xs). if ap_function plan = ''min'' then contribution_order_value x \<le> contribution_order_value y
         else contribution_order_value y \<le> contribution_order_value x"
      using extremum_never[OF assms(1)[unfolded Cons] sg False assms(2,3)] by blast
    have "reduces lib plan (x0 # xs) (plainValue (ap_fieldType plan) (co_match x))"
    proof (cases "ap_function plan = ''min''")
      case True
      then show ?thesis using x(1,3) unfolding reduces_def Let_def by (simp del: set_simps) blast
    next
      case False
      then have "ap_function plan = ''max''" using assms(3) by simp
      then show ?thesis using x(1,3) unfolding reduces_def Let_def by (simp del: set_simps) blast
    qed
    then show ?thesis using go x(2) Cons assms(3) by (auto simp: with_value_def group_reduced_def)
  qed
qed

lemma reduceGroup_reduced:
  assumes "contributions_typed lib (ap_fieldType plan) (cg_contributions g)" "lib_ok lib"
    "compatibleFunction (ap_function plan) (ap_fieldType plan)" "results_bounded plan (cg_contributions g)"
  shows "group_reduced lib plan (cg_contributions g) (fst (reduceGroup lib None plan g))"
proof -
  let ?fn = "ap_function plan" and ?xs = "cg_contributions g"
  consider (collect) "?fn = ''collect''" | (count) "?fn = ''count''" | (first) "?fn = ''first''" | (last) "?fn = ''last''"
    | (distinct) "?fn = ''distinct''" | (sum) "?fn = ''sum''" | (average) "?fn = ''average''" | (ext) "?fn = ''min'' \<or> ?fn = ''max''"
    using assms(3) by (auto simp: compatibleFunction_def split: if_splits)
  then show ?thesis
  proof cases
    case collect
    obtain ms where "collectMatches plan None ?xs = (Inr ms, None)" "map avm_match ms = map co_match ?xs"
      "map avm_contributors ms = map (provenanceForValue plan) ?xs" using collectMatches_never by blast
    then show ?thesis using collect by (simp add: reduceGroup_def with_value_def group_reduced_def reduces_def provenanceForValue_def)
  next
    case count
    then show ?thesis
      by (simp add: reduceGroup_def group_reduced_def reduces_def ConvertConfiguredMatch_def ConvertMatch_def IsSupportedType_def convertNonNull_def)
  next
    case first
    then show ?thesis by (cases ?xs) (simp_all add: reduceGroup_def group_reduced_def reduces_def)
  next
    case last
    then show ?thesis by (cases ?xs) (simp_all add: reduceGroup_def group_reduced_def reduces_def)
  next
    case distinct
    obtain r c where r: "distinctMatches lib plan None [] ?xs = (r, c)" by (cases "distinctMatches lib plan None [] ?xs")
    show ?thesis
    proof (cases r)
      case (Inl s)
      then show ?thesis using r distinct distinctMatches_failed[of lib plan "[]" ?xs s c]
        by (simp add: reduceGroup_def with_value_def group_reduced_def reducerError_def aggregateFailure_def NewAggregateError_def)
    next
      case (Inr found)
      then have "found = distinct_values lib plan ?xs"
        using distinctMatches_values[of lib plan None "[]" ?xs found c] r by (simp add: distinct_values_def)
      then show ?thesis using r Inr distinct by (simp add: reduceGroup_def with_value_def group_reduced_def reduces_def)
    qed
  next
    case sum then show ?thesis using reduce_sum assms by blast
  next
    case average then show ?thesis using reduce_average assms by blast
  next
    case ext then show ?thesis using reduce_extremum assms by blast
  qed
qed

section \<open>Lemmas: cardinality\<close>

lemma counted_uids: "distinct (map uid_of (counted seen xs)) \<and> set (map uid_of (counted seen xs)) \<inter> set seen = {}"
proof (induction xs arbitrary: seen)
  case (Cons x xs)
  then show ?case using Cons[of "uid_of x # seen"] Cons[of seen] by auto
qed simp

definition uid_determines :: "'q Contribution list \<Rightarrow> bool" where
  "uid_determines xs \<longleftrightarrow> inj_on prov_uid (co_provenance ` set xs)"

lemma contributions_uid: "uid_determines (map snd (contributions_of lib plan xs))"
proof -
  have sub: "co_provenance ` set (map snd (contributions_of lib plan xs)) \<subseteq> or_provenance ` set (counted [] xs)"
    by (auto simp: contributions_of_def resource_contributions_def match_contributions_def split: sum.splits if_splits)
  have "inj_on prov_uid (or_provenance ` set (counted [] xs))"
    using counted_uids[of "[]" xs] by (auto simp: distinct_map inj_on_def) 
  then show ?thesis unfolding uid_determines_def using sub by (rule inj_on_subset)
qed

lemma uid_determines_mono: "uid_determines xs \<Longrightarrow> set ys \<subseteq> set xs \<Longrightarrow> uid_determines ys"
  unfolding uid_determines_def by (erule inj_on_subset) auto

definition value_provenances :: "'q AggregateValue \<Rightarrow> nat" where
  "value_provenances v = sum_list (map (\<lambda>m. length (avm_contributors m)) (av_matches v))"

lemma plainValue_provenances [simp]: "value_provenances (plainValue t m) = 0" "value_provenances (absentValue t) = 0"
  by (simp_all add: value_provenances_def plainValue_def absentValue_def)

lemma length_firsts: "length (firsts xs) = card (set xs)"
  by (simp add: firsts_def length_remdups_card_conv)

lemma distinct_values_provenances:
  assumes "ap_includeProvenance plan" "uid_determines xs"
  shows "sum_list (map (\<lambda>kv. length (avm_contributors (snd kv))) (distinct_values lib plan xs)) =
    card ((\<lambda>x. (value_key lib plan (co_match x), prov_uid (co_provenance x))) ` set xs)"
proof -
  let ?key = "\<lambda>x. value_key lib plan (co_match x)"
  let ?P = "\<lambda>k. co_provenance ` {x \<in> set xs. ?key x = k}"
  have "sum_list (map (\<lambda>kv. length (avm_contributors (snd kv))) (distinct_values lib plan xs)) =
      sum_list (map (\<lambda>k. card (?P k)) (firsts (map ?key xs)))"
    using assms(1) by (simp add: distinct_values_def distinct_value_def length_firsts comp_def)
  also have "\<dots> = (\<Sum>k \<in> ?key ` set xs. card (?P k))" by (simp add: sum_list_distinct_conv_sum_set)
  also have "\<dots> = card (SIGMA k : ?key ` set xs. ?P k)" by (rule card_SigmaI[symmetric]) auto
  also have "(SIGMA k : ?key ` set xs. ?P k) = (\<lambda>x. (?key x, co_provenance x)) ` set xs"
  proof (intro equalityI subsetI)
    fix kp assume "kp \<in> (SIGMA k : ?key ` set xs. ?P k)"
    then obtain x where "x \<in> set xs" "kp = (?key x, co_provenance x)" by (cases kp) auto
    then show "kp \<in> (\<lambda>x. (?key x, co_provenance x)) ` set xs" by (rule rev_image_eqI)
  qed auto
  also have "card \<dots> = card (map_prod id prov_uid ` (\<lambda>x. (?key x, co_provenance x)) ` set xs)"
  proof (rule card_image[symmetric])
    show "inj_on (map_prod id prov_uid) ((\<lambda>x. (?key x, co_provenance x)) ` set xs)"
      using assms(2) by (auto simp: uid_determines_def inj_on_def)
  qed
  finally show ?thesis by (simp add: image_image)
qed

lemma distinctMatches_keys:
  "distinctMatches lib plan c found xs = (Inr found', c') \<Longrightarrow> list_all (\<lambda>x. contributionKey lib plan x = Some (value_key lib plan (co_match x))) xs"
proof (induction xs arbitrary: c found)
  case (Cons x xs)
  obtain c1 key where k: "CanonicalKey lib (ap_fieldType plan) (co_match x) = Inr key"
    and rest: "distinctMatches lib plan c1 (noteDistinct plan key x found) xs = (Inr found', c')"
    using Cons.prems by (auto split: prod.splits bool.splits sum.splits)
  show ?case using Cons.IH[OF rest] k by (simp add: contributionKey_def value_key_def)
qed simp

lemma map_filter_all: "list_all (\<lambda>x. f x = Some (g x)) xs \<Longrightarrow> List.map_filter f xs = map g xs"
  by (induction xs) (simp_all add: List.map_filter_simps)

lemma reduceGroup_collect:
  "reduceGroup lib c plan g = (Inr v, c') \<Longrightarrow> ap_function plan = ''collect'' \<Longrightarrow>
     length (av_matches v) = length (cg_contributions g) \<and>
     value_provenances v = (if ap_includeProvenance plan then length (cg_contributions g) else 0)"
proof -
  have "length ms = length xs \<and> map avm_contributors ms = map (provenanceForValue plan) xs" if "collectMatches plan c xs = (Inr ms, c')" for c ms xs
    using that by (induction xs arbitrary: c ms) (auto split: prod.splits bool.splits sum.splits)
  note c = this
  assume "reduceGroup lib c plan g = (Inr v, c')" "ap_function plan = ''collect''"
  then obtain ms where ms: "collectMatches plan c (cg_contributions g) = (Inr ms, c')" "av_matches v = ms"
    by (auto simp: reduceGroup_def with_value_def split: prod.splits sum.splits)
  have "value_provenances v = sum_list (map length (map (provenanceForValue plan) (cg_contributions g)))"
    unfolding value_provenances_def ms(2) using c[OF ms(1)] by (metis (no_types) comp_apply map_map map_eq_conv)
  also have "\<dots> = (if ap_includeProvenance plan then length (cg_contributions g) else 0)"
    by (induction "cg_contributions g") (auto simp: provenanceForValue_def sum_list_triv comp_def)
  finally show ?thesis using c[OF ms(1)] ms(2) by simp
qed

lemma reduceGroup_distinct:
  assumes "reduceGroup lib c plan g = (Inr v, c')" "ap_function plan = ''distinct''" "uid_determines (cg_contributions g)"
  shows "length (av_matches v) = length (distinctKeys lib plan g) \<and>
     value_provenances v = (if ap_includeProvenance plan then length (distinctProvenancePairs lib plan g) else 0)"
proof -
  let ?xs = "cg_contributions g" and ?key = "\<lambda>x. value_key lib plan (co_match x)"
  obtain found where f: "distinctMatches lib plan c [] ?xs = (Inr found, c')" "av_matches v = map snd found"
    using assms(1,2) by (auto simp: reduceGroup_def with_value_def split: prod.splits sum.splits)
  have fv: "found = distinct_values lib plan ?xs"
    using distinctMatches_values[of lib plan c "[]" ?xs found c'] f(1) by (simp add: distinct_values_def)
  have k: "list_all (\<lambda>x. contributionKey lib plan x = Some (?key x)) ?xs" using distinctMatches_keys[OF f(1)] .
  then have dk: "distinctKeys lib plan g = remdups (map ?key ?xs)" by (simp add: distinctKeys_def map_filter_all)
  have "list_all (\<lambda>x. map_option (\<lambda>k. (k, prov_uid (co_provenance x))) (contributionKey lib plan x) = Some (?key x, prov_uid (co_provenance x))) ?xs"
    using k by (simp add: list_all_iff)
  then have dp: "distinctProvenancePairs lib plan g = remdups (map (\<lambda>x. (?key x, prov_uid (co_provenance x))) ?xs)"
    unfolding distinctProvenancePairs_def by (simp only: map_filter_all)
  have "value_provenances v = sum_list (map (\<lambda>kv. length (avm_contributors (snd kv))) (distinct_values lib plan ?xs))"
    by (simp add: value_provenances_def f(2) fv comp_def)
  also have "\<dots> = (if ap_includeProvenance plan then card ((\<lambda>x. (?key x, prov_uid (co_provenance x))) ` set ?xs) else 0)"
    using distinct_values_provenances[OF _ assms(3)] by (simp add: distinct_values_def distinct_value_def comp_def sum_list_triv)
  finally have "value_provenances v = (if ap_includeProvenance plan then length (distinctProvenancePairs lib plan g) else 0)"
    by (simp add: dp length_remdups_card_conv)
  moreover have "length (av_matches v) = length (distinctKeys lib plan g)"
    by (simp add: f(2) fv distinct_values_def length_firsts dk length_remdups_card_conv)
  ultimately show ?thesis by simp
qed

lemma reduceGroup_other:
  "reduceGroup lib c plan g = (Inr v, c') \<Longrightarrow> ap_function plan \<noteq> ''collect'' \<Longrightarrow> ap_function plan \<noteq> ''distinct'' \<Longrightarrow> value_provenances v = 0"
  by (auto simp: reduceGroup_def with_value_def Let_def split: if_splits prod.splits sum.splits list.splits)

lemma formGroups_contributions:
  assumes "formGroups lib c plan source = (Inr r, c')" "0 < MaxGroups (ap_limits plan)" "0 \<le> MaxContributions (ap_limits plan)"
    and "g \<in> set (gr_groups r)"
  shows "uid_determines (cg_contributions g)"
proof -
  let ?cs = "contributions_of lib plan (os_resources source)"
  obtain r0 where r0: "groupResources lib plan c [] \<lparr>gr_groups = [], gr_failures = [], gr_contributions = 0\<rparr> (os_resources source) = (Inr r0, c')"
    and r: "set (gr_groups r) = sortGroup ` set (gr_groups r0)"
    using assms(1) by (auto simp: formGroups_def split: prod.splits sum.splits)
  have "grouping_inv plan r0 ?cs"
    using groupResources_inv[OF assms(2) r0 empty_grouping[OF assms(3,2)]] by (simp add: contributions_of_def)
  then have "set (cg_contributions g) \<subseteq> set (map snd ?cs)"
    using assms(4) r by (auto simp: grouping_inv_def groups_of_def sortGroup_def)
  then show ?thesis using uid_determines_mono contributions_uid by blast
qed

definition reduced_from :: "'q TypedLib \<Rightarrow> AggregatePlan \<Rightarrow> 'q contributionGroup \<Rightarrow> 'q AggregateGroup \<Rightarrow> bool" where
  "reduced_from lib plan g a \<longleftrightarrow> (\<exists>c c'. reduceGroup lib c plan g = (Inr (ag_value a), c')) \<and>
     ag_contributors a = (if ap_includeProvenance plan then cg_contributors g else [])"

lemma reduceGroups_from:
  "reduceGroups lib c plan gs = (Inr out, c') \<Longrightarrow> list_all2 (reduced_from lib plan) gs out"
proof (induction gs arbitrary: c out)
  case (Cons g gs)
  obtain c1 c2 v rest where v: "reduceGroup lib c1 plan g = (Inr v, c2)"
    and rest: "reduceGroups lib c2 plan gs = (Inr rest, c')"
    and out: "out = \<lparr>ag_keys = cg_keys g, ag_value = v, ag_contributors = (if ap_includeProvenance plan then cg_contributors g else [])\<rparr> # rest"
    using Cons.prems by (auto split: prod.splits bool.splits sum.splits)
  have "reduced_from lib plan g (hd out)" unfolding reduced_from_def using v by (auto simp: out)
  then show ?case using Cons.IH[OF rest] by (simp add: out)
qed simp

definition published_matches :: "'q AggregateOutcome \<Rightarrow> int" where
  "published_matches out = int (sum_list (map (\<lambda>g. length (av_matches (ag_value g))) (ao_groups out)))"

definition published_provenances :: "'q AggregateOutcome \<Rightarrow> int" where
  "published_provenances out = int (sum_list (map (\<lambda>g. length (ag_contributors g) + value_provenances (ag_value g)) (ao_groups out)))"

lemma reduced_provenances:
  assumes "reduced_from lib plan g a" "uid_determines (cg_contributions g)"
  shows "length (ag_contributors a) + value_provenances (ag_value a) = provenanceCount lib plan g"
proof -
  obtain c c' where r: "reduceGroup lib c plan g = (Inr (ag_value a), c')" using assms(1) by (auto simp: reduced_from_def)
  have n: "ag_contributors a = (if ap_includeProvenance plan then cg_contributors g else [])" using assms(1) by (simp add: reduced_from_def)
  show ?thesis
  proof (cases "ap_function plan = ''collect'' \<or> ap_function plan = ''distinct''")
    case True
    then show ?thesis using reduceGroup_collect[OF r] reduceGroup_distinct[OF r _ assms(2)] n
      by (auto simp: provenanceCount_def)
  next
    case False
    then show ?thesis using reduceGroup_other[OF r] n by (simp add: provenanceCount_def)
  qed
qed

lemma list_all2_sum:
  "list_all2 P xs ys \<Longrightarrow> (\<And>x y. x \<in> set xs \<Longrightarrow> P x y \<Longrightarrow> f y = g x) \<Longrightarrow> sum_list (map f ys) = sum_list (map g xs)"
proof (induction xs ys rule: list_all2_induct)
  case (Cons x xs y ys)
  have "f y = g x" using Cons.prems[of x y] Cons.hyps(1) by simp
  moreover have "sum_list (map f ys) = sum_list (map g xs)" using Cons.IH Cons.prems by simp
  ultimately show ?case by simp
qed simp

text \<open>The groups that a plan reduces: those formed, or the empty global group.\<close>

lemma evaluatePlan_groups:
  assumes "evaluatePlan lib c plan source = (Some out, c')" "ao_err out = None"
    and "0 < MaxGroups (ap_limits plan)" "0 \<le> MaxContributions (ap_limits plan)"
  obtains gs where "list_all2 (reduced_from lib plan) gs (ao_groups out)" "list_all (\<lambda>g. uid_determines (cg_contributions g)) gs"
    "aggregateLimitFailure lib plan \<lparr>gr_groups = gs, gr_failures = [], gr_contributions = 0\<rparr> = None"
proof -
  obtain grouped c1 c2 where f: "formGroups lib c plan source = (Inr grouped, c1)"
    and lim: "aggregateLimitFailure lib plan grouped = None"
    and r: "reduceAggregate lib c2 plan (gr_groups grouped) (gr_failures grouped) = (Inr out, c')"
    using assms(1,2) by (auto simp: evaluatePlan_def errorAggregate_def split: prod.splits sum.splits bool.splits option.splits group_stop.splits)
  let ?gs = "if gr_groups grouped = [] \<and> ap_groupBy plan = [] then [emptyGroup []] else gr_groups grouped"
  obtain os where os: "reduceGroups lib c2 plan ?gs = (Inr os, c')" "ao_groups out = os"
    using r assms(2) by (auto simp: reduceAggregate_def errorAggregate_def Let_def split: prod.splits sum.splits reduce_stop.splits)
  have u: "list_all (\<lambda>g. uid_determines (cg_contributions g)) ?gs"
    using formGroups_contributions[OF f assms(3,4)] by (auto simp: list_all_iff emptyGroup_def uid_determines_def)
  have "aggregateLimitFailure lib plan \<lparr>gr_groups = ?gs, gr_failures = [], gr_contributions = 0\<rparr> = None"
  proof (cases "gr_groups grouped = [] \<and> ap_groupBy plan = []")
    case True
    then show ?thesis using lim assms(3)
      by (auto simp: aggregateLimitFailure_def emptyGroup_def distinctKeys_def provenanceCount_def distinctProvenancePairs_def
          List.map_filter_simps Let_def split: if_splits)
  next
    case False
    then have "?gs = gr_groups grouped" by auto
    then show ?thesis using lim unfolding aggregateLimitFailure_def by simp
  qed
  with u reduceGroups_from[OF os(1)] show thesis using os(2) that by blast
qed

lemma evaluated: "map_prod (map_sum (\<lambda>_. ()) f) id p = (Inr y, c) \<Longrightarrow> \<exists>r. p = (Inr r, c) \<and> f r = y"
  by (cases p; cases "fst p") auto

lemma reduced_collect:
  "reduced_from lib plan g a \<Longrightarrow> ap_function plan = ''collect'' \<Longrightarrow> length (av_matches (ag_value a)) = length (cg_contributions g)"
  unfolding reduced_from_def using reduceGroup_collect[of lib _ plan g "ag_value a"] by blast

lemma reduced_distinct:
  "reduced_from lib plan g a \<Longrightarrow> ap_function plan = ''distinct'' \<Longrightarrow> uid_determines (cg_contributions g) \<Longrightarrow>
     length (av_matches (ag_value a)) = length (distinctKeys lib plan g)"
  unfolding reduced_from_def using reduceGroup_distinct[of lib _ plan g "ag_value a"] by blast

text \<open>Code equations for short key parts, without large numerals.\<close>

lemma bigEndian32_code [code]:
  "bigEndian32 n = (if n < 256 then [0, 0, 0, n] else [n div 16777216 mod 256, n div 65536 mod 256, n div 256 mod 256, n mod 256])"
  by (simp add: bigEndian32_def)

lemma writeKeyPart_code [code]:
  "writeKeyPart s = (if length s < 256 \<or> int (length s) \<le> 4294967295 then Inr (bigEndian32 (length s) @ bytes_of s)
     else Inl (BridgeError ''typed key payload is too large''))"
  by (auto simp: writeKeyPart_def)

text \<open>A concrete source for the witnesses: two resources of a team and one of another.\<close>

definition agg_resource :: "string \<Rightarrow> string \<Rightarrow> int \<Rightarrow> string OResourceOutcome" where
  "agg_resource uid team n = \<lparr>or_state = ResourceAccepted,
     or_provenance = \<lparr>prov_apiVersion = ''v1'', prov_kind = ''Pod'', prov_namespace = ''n'', prov_name = uid, prov_uid = uid\<rparr>,
     or_fields = [newValuesFieldOutcome ''cpu'' ''integer'' [newValueMatch ''integer'' (VInteger n)],
                  newValuesFieldOutcome ''team'' ''string'' [newValueMatch ''string'' (VString team)]], or_failure = None\<rparr>"

definition agg_source :: "string OSourceOutcome" where
  "agg_source = \<lparr>os_sourceID = ''pods'', os_resources = [agg_resource ''c'' ''b'' 5, agg_resource ''b'' ''a'' 4, agg_resource ''a'' ''a'' 3],
     os_fieldErrors = [], os_err = None\<rparr>"

definition agg_plan :: "string \<Rightarrow> AggregatePlan" where
  "agg_plan function = \<lparr>ap_sourceID = ''pods'', ap_name = ''x'', ap_function = function, ap_field = ''cpu'', ap_fieldType = ''integer'',
     ap_groupBy = [\<lparr>gf_name = ''team'', gf_type = ''string''\<rparr>], ap_includeProvenance = True, ap_precision = 0, ap_roundingMode = ''half-even'',
     ap_limits = \<lparr>MaxGroups = 2, MaxContributions = 3, MaxCollectedValues = 3, MaxDistinctValues = 3, MaxProvenanceEntries = 6\<rparr>\<rparr>"

section \<open>Properties\<close>

text \<open>C22: the groups formed for an aggregate are exactly the classes of equal keys among the contributions of the accepted
  resources, each resource identity counted once: distinct, in ascending key order, each with its own contributions in
  resource order and its contributing resources once each in order; only the global group may be empty, and the numbers of
  contributions and groups are within their limits.\<close>

theorem formGroups_partition:
  assumes "formGroups lib c plan source = (Inr r, c')" and "lib_ok lib" and "resources_wf lib (os_resources source)"
    and "list_all (\<lambda>g. supportedGroupType (gf_type g)) (ap_groupBy plan)"
    and "0 < MaxGroups (ap_limits plan)" "0 \<le> MaxContributions (ap_limits plan)"
  shows "groups_formed plan (contributions_of lib plan (os_resources source)) r"
  using assms by (rule formGroups_formed)

theorem formGroups_partition_witness:
  "\<exists>r. formGroups sample_lib None (agg_plan ''sum'') agg_source = (Inr r, None) \<and>
     map (\<lambda>g. map (prov_uid \<circ> co_provenance) (cg_contributions g)) (gr_groups r) = [[''a'', ''b''], [''c'']] \<and>
     groups_formed (agg_plan ''sum'') (contributions_of sample_lib (agg_plan ''sum'') (os_resources agg_source)) r"
proof -
  have e: "\<exists>r. formGroups sample_lib None (agg_plan ''sum'') agg_source = (Inr r, None) \<and>
      map (\<lambda>g. map (prov_uid \<circ> co_provenance) (cg_contributions g)) (gr_groups r) = [[''a'', ''b''], [''c'']]"
  proof -
    have "map_prod (map_sum (\<lambda>_. ()) (\<lambda>r. map (\<lambda>g. map (prov_uid \<circ> co_provenance) (cg_contributions g)) (gr_groups r))) id
        (formGroups sample_lib None (agg_plan ''sum'') agg_source) = (Inr [[''a'', ''b''], [''c'']], None)" by code_simp
    then show ?thesis by (rule evaluated)
  qed
  then obtain r where r: "formGroups sample_lib None (agg_plan ''sum'') agg_source = (Inr r, None) \<and>
    map (\<lambda>g. map (prov_uid \<circ> co_provenance) (cg_contributions g)) (gr_groups r) = [[''a'', ''b''], [''c'']]" ..
  have i: "int64_range 3" "int64_range 4" "int64_range 5" by code_simp+
  have w: "resources_wf sample_lib (os_resources agg_source)" using i
    by (simp add: resources_wf_def agg_source_def agg_resource_def newValuesFieldOutcome_def match_wf_def payload_wf_def IsSupportedType_def)
  have g: "list_all (\<lambda>g. supportedGroupType (gf_type g)) (ap_groupBy (agg_plan ''sum''))"
    "0 < MaxGroups (ap_limits (agg_plan ''sum''))" "0 \<le> MaxContributions (ap_limits (agg_plan ''sum''))" by code_simp+
  show ?thesis using formGroups_partition[OF conjunct1[OF r] sample_lib_ok w g] r by (intro exI conjI) simp_all
qed

text \<open>C23: for typed contributions and a planned function, a reducer returns the exact result of its function: the
  contributions in order, their number, the first or last of them, the exact rational sum, the mean rounded as declared, an
  actual extremum, or each distinct value once, in order of first occurrence, with its first match and its contributors.  A sum
  fails exactly when the exact sum is not a value of the type (integers and durations of 64 bits, quantities up to 64 bits that
  the quantity library holds, decimals within the digit limit), a mean only for an unsupported precision or mode or a rounded
  value beyond the digit limit; the other failures are several booleans compared and a distinct value without a key.\<close>

theorem reduceGroup_exact:
  assumes "contributions_typed lib (ap_fieldType plan) (cg_contributions g)" and "lib_ok lib"
    and "compatibleFunction (ap_function plan) (ap_fieldType plan)" and "results_bounded plan (cg_contributions g)"
  shows "group_reduced lib plan (cg_contributions g) (fst (reduceGroup lib None plan g))"
  using assms by (rule reduceGroup_reduced)

text \<open>C24: an aggregate published without error keeps its declared limits: at most as many groups, collected values and
  distinct values as allowed over all groups, and at most as many provenance entries over groups and values together.\<close>

theorem evaluatePlan_within:
  assumes "evaluatePlan lib c plan source = (Some out, c')" and "ao_err out = None"
    and "0 < MaxGroups (ap_limits plan)" "0 \<le> MaxContributions (ap_limits plan)"
  shows "int (length (ao_groups out)) \<le> MaxGroups (ap_limits plan) \<and>
    (ap_function plan = ''collect'' \<longrightarrow> published_matches out \<le> MaxCollectedValues (ap_limits plan)) \<and>
    (ap_function plan = ''distinct'' \<longrightarrow> published_matches out \<le> MaxDistinctValues (ap_limits plan)) \<and>
    published_provenances out \<le> MaxProvenanceEntries (ap_limits plan)"
proof (intro conjI impI)
  obtain gs where gs: "list_all2 (reduced_from lib plan) gs (ao_groups out)" "list_all (\<lambda>g. uid_determines (cg_contributions g)) gs"
    and lim: "aggregateLimitFailure lib plan \<lparr>gr_groups = gs, gr_failures = [], gr_contributions = 0\<rparr> = None"
    using evaluatePlan_groups[OF assms] by metis
  have u: "uid_determines (cg_contributions g)" if "g \<in> set gs" for g using gs(2) that by (simp add: list_all_iff)
  have lims: "int (length gs) \<le> MaxGroups (ap_limits plan)"
    "ap_function plan = ''collect'' \<longrightarrow> int (sum_list (map (\<lambda>g. length (cg_contributions g)) gs)) \<le> MaxCollectedValues (ap_limits plan)"
    "ap_function plan = ''distinct'' \<longrightarrow> int (sum_list (map (\<lambda>g. length (distinctKeys lib plan g)) gs)) \<le> MaxDistinctValues (ap_limits plan)"
    "int (sum_list (map (provenanceCount lib plan) gs)) \<le> MaxProvenanceEntries (ap_limits plan)"
    using lim by (auto simp: aggregateLimitFailure_def Let_def split: if_splits)
  show "int (length (ao_groups out)) \<le> MaxGroups (ap_limits plan)" using lims(1) list_all2_lengthD[OF gs(1)] by simp
  show "published_matches out \<le> MaxCollectedValues (ap_limits plan)" if "ap_function plan = ''collect''"
  proof -
    have "sum_list (map (\<lambda>g. length (av_matches (ag_value g))) (ao_groups out)) = sum_list (map (\<lambda>g. length (cg_contributions g)) gs)"
      using gs(1) by (rule list_all2_sum) (rule reduced_collect[OF _ that])
    then show ?thesis using lims(2) that unfolding published_matches_def by simp
  qed
  show "published_matches out \<le> MaxDistinctValues (ap_limits plan)" if "ap_function plan = ''distinct''"
  proof -
    have "sum_list (map (\<lambda>g. length (av_matches (ag_value g))) (ao_groups out)) = sum_list (map (\<lambda>g. length (distinctKeys lib plan g)) gs)"
      using gs(1) by (rule list_all2_sum) (rule reduced_distinct[OF _ that u])
    then show ?thesis using lims(3) that unfolding published_matches_def by simp
  qed
  have "sum_list (map (\<lambda>g. length (ag_contributors g) + value_provenances (ag_value g)) (ao_groups out)) = sum_list (map (provenanceCount lib plan) gs)"
    using gs(1) by (rule list_all2_sum) (rule reduced_provenances[OF _ u])
  then show "published_provenances out \<le> MaxProvenanceEntries (ap_limits plan)" using lims(4) unfolding published_provenances_def by simp
qed

theorem reduceGroup_exact_witness:
  "\<exists>m. fst (reduceGroup sample_lib None (agg_plan ''sum'') \<lparr>cg_keys = [], cg_contributions =
       [\<lparr>co_match = newValueMatch ''integer'' (VInteger 3), co_provenance = or_provenance (agg_resource ''a'' ''a'' 3), co_matchIndex = 0\<rparr>,
        \<lparr>co_match = newValueMatch ''integer'' (VInteger 4), co_provenance = or_provenance (agg_resource ''b'' ''a'' 4), co_matchIndex = 0\<rparr>],
       cg_contributors = []\<rparr>) = Inr (plainValue ''integer'' m) \<and> ExactRational ''integer'' m = Inr 7"
proof -
  let ?xs = "[\<lparr>co_match = newValueMatch ''integer'' (VInteger 3), co_provenance = or_provenance (agg_resource ''a'' ''a'' 3), co_matchIndex = 0\<rparr>,
        \<lparr>co_match = newValueMatch ''integer'' (VInteger 4), co_provenance = or_provenance (agg_resource ''b'' ''a'' 4), co_matchIndex = 0\<rparr>]
        :: string Contribution list"
  let ?g = "\<lparr>cg_keys = [] :: string AggregateKey list, cg_contributions = ?xs, cg_contributors = []\<rparr>" and ?p = "agg_plan ''sum''"
  have i: "int64_range 3" "int64_range 4" by code_simp+
  have t: "contributions_typed sample_lib (ap_fieldType ?p) (cg_contributions ?g)" using i
    by (simp add: contributions_typed_def agg_plan_def operand_wf_def match_wf_def payload_wf_def IsSupportedType_def)
  have c: "compatibleFunction (ap_function ?p) (ap_fieldType ?p)" by code_simp
  have b: "results_bounded ?p (cg_contributions ?g)" by code_simp
  have r: "isl (fst (reduceGroup sample_lib None ?p ?g)) = False" by code_simp
  have s: "exact_sum ''integer'' ?xs = 7" by code_simp
  have f: "ap_function ?p = ''sum''" "ap_fieldType ?p = ''integer''" by (simp_all add: agg_plan_def)
  obtain v where v: "fst (reduceGroup sample_lib None ?p ?g) = Inr v" using r by (cases "fst (reduceGroup sample_lib None ?p ?g)") auto
  then have "reduces sample_lib ?p ?xs v" using reduceGroup_exact[OF t sample_lib_ok c b] by (simp add: group_reduced_def)
  then have "\<exists>m. v = plainValue ''integer'' m \<and> ExactRational ''integer'' m = Inr (exact_sum ''integer'' ?xs)"
    unfolding reduces_def f Let_def by simp
  then show ?thesis using v s by simp
qed

theorem evaluatePlan_within_witness:
  "\<exists>out. evaluatePlan sample_lib None (agg_plan ''distinct'') agg_source = (Some out, None) \<and>
     length (ao_groups out) = 2 \<and> published_matches out = 3 \<and> published_provenances out \<le> 6"
proof -
  let ?e = "evaluatePlan sample_lib None (agg_plan ''distinct'') agg_source"
  have "map_prod (map_option (\<lambda>out. (ao_err out = None, length (ao_groups out), published_matches out))) id ?e = (Some (True, 2, 3), None)"
    by code_simp
  then obtain out where out: "?e = (Some out, None)" "ao_err out = None" "length (ao_groups out) = 2" "published_matches out = 3"
    by (cases ?e; cases "fst ?e") auto
  have l: "0 < MaxGroups (ap_limits (agg_plan ''distinct''))" "0 \<le> MaxContributions (ap_limits (agg_plan ''distinct''))"
    "MaxProvenanceEntries (ap_limits (agg_plan ''distinct'')) = 6" by code_simp+
  show ?thesis using evaluatePlan_within[OF out(1,2) l(1,2)] out l(3) by auto
qed

text \<open>C26: the planner accepts a minimum or maximum over boolean values, and every group with two or more of them then fails:
  the comparison has no order for booleans.\<close>

theorem boolean_extremum_fails:
  assumes "contributions_typed lib ''boolean'' (cg_contributions g)" and "1 < length (cg_contributions g)"
    and "ap_fieldType plan = ''boolean''" and "ap_function plan \<in> set [''min'', ''max'']"
  shows "compatibleFunction (ap_function plan) (ap_fieldType plan) \<and>
    fst (reduceGroup lib None plan g) = Inl (ReduceFailed (reducerError plan ''invalid-input'' ''extrema comparison is invalid''))"
proof -
  obtain x0 x xs where x: "cg_contributions g = x0 # x # xs"
    using assms(2) by (cases "cg_contributions g"; cases "tl (cg_contributions g)") auto
  have e: "extremum lib plan None (co_match x0) (x # xs) =
      (Inl (ReduceFailed (reducerError plan ''invalid-input'' ''extrema comparison is invalid'')), None)"
    using assms(1,3) unfolding x by (intro extremum_boolean) simp_all
  show ?thesis using assms(3,4) e x by (auto simp: reduceGroup_def with_value_def compatibleFunction_def supportedGroupType_def)
qed

theorem boolean_extremum_fails_witness:
  "let x = \<lparr>co_match = newValueMatch ''boolean'' (VBoolean True), co_provenance = or_provenance (agg_resource ''a'' ''a'' 3), co_matchIndex = 0\<rparr>;
       plan = (agg_plan ''max'')\<lparr>ap_fieldType := ''boolean''\<rparr> in
   compatibleFunction ''max'' ''boolean'' \<and>
   isl (fst (reduceGroup sample_lib None plan \<lparr>cg_keys = [], cg_contributions = [x, x\<lparr>co_matchIndex := 1\<rparr>], cg_contributors = []\<rparr>))"
proof -
  let ?x = "\<lparr>co_match = newValueMatch ''boolean'' (VBoolean True), co_provenance = or_provenance (agg_resource ''a'' ''a'' 3), co_matchIndex = 0\<rparr>
    :: string Contribution"
  let ?g = "\<lparr>cg_keys = [] :: string AggregateKey list, cg_contributions = [?x, ?x\<lparr>co_matchIndex := 1\<rparr>], cg_contributors = []\<rparr>"
  have t: "contributions_typed sample_lib ''boolean'' (cg_contributions ?g)"
    by (simp add: contributions_typed_def operand_wf_def match_wf_def payload_wf_def IsSupportedType_def)
  show ?thesis unfolding Let_def
    using boolean_extremum_fails[OF t, of "(agg_plan ''max'')\<lparr>ap_fieldType := ''boolean''\<rparr>"] by (simp add: agg_plan_def)
qed

end
