(* ===== verification/Discovery.thy ===== *)
theory Discovery
  imports ApiTypes "HOL-Library.AList"
begin

text \<open>
  Resolution of API types, \<^verbatim>\<open>src/internal/discovery/resolver.go\<close>: the bounded cache of discovery metadata, the refresh states that
  let concurrent calls share one request, the invalidations, and the selection of the one resource a kind names.  Every
  operation that the source runs under its mutex is one function on the resolver's state.  A refresh state is a heap cell, its
  address an index into \<open>rv_states\<close>; its \<open>done\<close> channel is closed exactly when it has a result.  Epochs and
  access numbers are 64-bit words.  The iteration order of a Go map is not specified: the parameter \<open>iter\<close> stands for it.
  \<^verbatim>\<open>ParseGroupVersion\<close> and the discovery client are parameters; error messages are left out.
\<close>

section \<open>State\<close>

record cacheKey =
  ck_groupVersion :: string
  ck_kind :: string

record cacheVersion =
  cv_all :: "64 word"
  cv_key :: "64 word"

record cacheEntry =
  ce_resource :: GroupVersionResource
  ce_scope :: Scope
  ce_expiresAt :: int
  ce_accessSequence :: "64 word"
  ce_version :: cacheVersion

definition resolution :: "cacheEntry \<Rightarrow> string \<Rightarrow> Resolution" where
  "resolution e sid = \<lparr>res_sourceID = sid, res_resource = ce_resource e, res_scope = ce_scope e\<rparr>"

record refreshState =
  rf_result :: "(ResolutionError, cacheEntry) res option"
  rf_version :: cacheVersion

record Resolver =
  rv_cacheTTL :: int
  rv_cacheCapacity :: int
  rv_cache :: "(cacheKey \<times> cacheEntry) list"
  rv_refreshing :: "(cacheKey \<times> nat) list"
  rv_states :: "refreshState list"
  rv_accessSequence :: "64 word"
  rv_invalidationEpoch :: "64 word"
  rv_keyEpoch :: "cacheKey \<Rightarrow> 64 word"

definition DefaultCacheTTL :: int where
  "DefaultCacheTTL = 5 * 60 * 1000000000"

definition DefaultCacheCapacity :: int where
  "DefaultCacheCapacity = 1024"

datatype ResolverOption = WithCacheTTL int | WithCacheCapacity int

fun apply_option :: "ResolverOption \<Rightarrow> Resolver \<Rightarrow> Resolver" where
  "apply_option (WithCacheTTL ttl) r = (if ttl > 0 then r\<lparr>rv_cacheTTL := ttl\<rparr> else r)"
| "apply_option (WithCacheCapacity capacity) r = (if capacity > 0 then r\<lparr>rv_cacheCapacity := capacity\<rparr> else r)"

definition NewResolver :: "ResolverOption list \<Rightarrow> Resolver" where
  "NewResolver options = fold apply_option options
     \<lparr>rv_cacheTTL = DefaultCacheTTL, rv_cacheCapacity = DefaultCacheCapacity, rv_cache = [], rv_refreshing = [], rv_states = [],
      rv_accessSequence = 0, rv_invalidationEpoch = 0, rv_keyEpoch = (\<lambda>_. 0)\<rparr>"

definition ensureCache :: "Resolver \<Rightarrow> Resolver" where
  "ensureCache r = r\<lparr>rv_cacheTTL := (if rv_cacheTTL r \<le> 0 then DefaultCacheTTL else rv_cacheTTL r),
     rv_cacheCapacity := (if rv_cacheCapacity r \<le> 0 then DefaultCacheCapacity else rv_cacheCapacity r)\<rparr>"

section \<open>The cache\<close>

definition versionLocked :: "Resolver \<Rightarrow> cacheKey \<Rightarrow> cacheVersion" where
  "versionLocked r key = \<lparr>cv_all = rv_invalidationEpoch r, cv_key = rv_keyEpoch r key\<rparr>"

type_synonym map_order = "(cacheKey \<times> cacheEntry) list \<Rightarrow> (cacheKey \<times> cacheEntry) list"

fun renumber :: "64 word \<Rightarrow> (cacheKey \<times> cacheEntry) list \<Rightarrow> 64 word \<times> (cacheKey \<times> cacheEntry) list" where
  "renumber n [] = (n, [])"
| "renumber n ((k, e) # rest) = (case renumber (n + 1) rest of (m, out) \<Rightarrow> (m, (k, e\<lparr>ce_accessSequence := n + 1\<rparr>) # out))"

definition nextAccessLocked :: "map_order \<Rightarrow> Resolver \<Rightarrow> 64 word \<times> Resolver" where
  "nextAccessLocked iter r =
    (let s = rv_accessSequence r + 1 in
     if s = 0 then
       (case renumber 0 (iter (rv_cache r)) of
          (n, cache) \<Rightarrow> (n + 1, r\<lparr>rv_accessSequence := n + 1, rv_cache := cache\<rparr>))
     else (s, r\<lparr>rv_accessSequence := s\<rparr>))"

definition touch :: "map_order \<Rightarrow> cacheKey \<Rightarrow> cacheEntry \<Rightarrow> Resolver \<Rightarrow> cacheEntry \<times> Resolver" where
  "touch iter key e r =
    (case nextAccessLocked iter r of
       (s, r1) \<Rightarrow> (e\<lparr>ce_accessSequence := s\<rparr>, r1\<lparr>rv_cache := AList.update key (e\<lparr>ce_accessSequence := s\<rparr>) (rv_cache r1)\<rparr>))"

definition freshCacheEntry :: "map_order \<Rightarrow> int \<Rightarrow> cacheKey \<Rightarrow> Resolver \<Rightarrow> cacheEntry option \<times> Resolver" where
  "freshCacheEntry iter now key r =
    (case map_of (rv_cache r) key of
       None \<Rightarrow> (None, r)
     | Some e \<Rightarrow>
        if ce_version e \<noteq> versionLocked r key then (None, r\<lparr>rv_cache := AList.delete key (rv_cache r)\<rparr>)
        else if \<not> now < ce_expiresAt e then (None, r)
        else (case touch iter key e r of (e', r') \<Rightarrow> (Some e', r')))"

definition cacheKeyLess :: "cacheKey \<Rightarrow> cacheKey \<Rightarrow> bool" where
  "cacheKeyLess a b = (if ck_groupVersion a \<noteq> ck_groupVersion b then ck_groupVersion a < ck_groupVersion b else ck_kind a < ck_kind b)"

fun lruLoop :: "(cacheKey \<times> nat) list \<Rightarrow> (cacheKey \<times> cacheEntry) option \<Rightarrow> (cacheKey \<times> cacheEntry) list \<Rightarrow> (cacheKey \<times> cacheEntry) option" where
  "lruLoop refreshing victim [] = victim"
| "lruLoop refreshing victim ((k, e) # rest) =
    (if map_of refreshing k \<noteq> None then lruLoop refreshing victim rest
     else lruLoop refreshing
       (case victim of
          None \<Rightarrow> Some (k, e)
        | Some (vk, ve) \<Rightarrow>
            if ce_accessSequence e < ce_accessSequence ve \<or> ce_accessSequence e = ce_accessSequence ve \<and> cacheKeyLess k vk
            then Some (k, e) else victim) rest)"

definition lruVictimLocked :: "map_order \<Rightarrow> Resolver \<Rightarrow> cacheKey option" where
  "lruVictimLocked iter r = map_option fst (lruLoop (rv_refreshing r) None (iter (rv_cache r)))"

definition retainEntryLocked :: "map_order \<Rightarrow> cacheKey \<Rightarrow> cacheEntry \<Rightarrow> cacheVersion \<Rightarrow> Resolver \<Rightarrow> bool \<times> Resolver" where
  "retainEntryLocked iter key e version r =
    (if rv_cacheCapacity r \<le> 0 \<or> version \<noteq> versionLocked r key then (False, r)
     else
       let r1 = r\<lparr>rv_cache := AList.delete key (rv_cache r)\<rparr> in
       if int (length (rv_cache r1)) \<ge> rv_cacheCapacity r then
         (case lruVictimLocked iter r1 of
            None \<Rightarrow> (False, r1)
          | Some victim \<Rightarrow> (True, snd (touch iter key e (r1\<lparr>rv_cache := AList.delete victim (rv_cache r1)\<rparr>))))
       else (True, snd (touch iter key e r1)))"

section \<open>Refresh states\<close>

datatype refresh_start = Cached cacheEntry | Joined nat | Started nat

definition startRefresh :: "cacheKey \<Rightarrow> Resolver \<Rightarrow> refresh_start \<times> Resolver" where
  "startRefresh key r =
    (Started (length (rv_states r)),
     r\<lparr>rv_states := rv_states r @ [\<lparr>rf_result = None, rf_version = versionLocked r key\<rparr>],
       rv_refreshing := AList.update key (length (rv_states r)) (rv_refreshing r)\<rparr>)"

definition joinRefresh :: "cacheKey \<Rightarrow> Resolver \<Rightarrow> refresh_start \<times> Resolver" where
  "joinRefresh key r =
    (case map_of (rv_refreshing r) key of
       Some p \<Rightarrow> if rf_version (rv_states r ! p) = versionLocked r key then (Joined p, r) else startRefresh key r
     | None \<Rightarrow> startRefresh key r)"

definition beginRefresh :: "map_order \<Rightarrow> int \<Rightarrow> cacheKey \<Rightarrow> Resolver \<Rightarrow> refresh_start \<times> Resolver" where
  "beginRefresh iter now key r =
    (case map_of (rv_cache r) key of
       None \<Rightarrow> joinRefresh key r
     | Some e \<Rightarrow>
        if ce_version e \<noteq> versionLocked r key then joinRefresh key (r\<lparr>rv_cache := AList.delete key (rv_cache r)\<rparr>)
        else if now < ce_expiresAt e then (case touch iter key e r of (e', r') \<Rightarrow> (Cached e', r'))
        else joinRefresh key r)"

definition finishRefresh :: "map_order \<Rightarrow> cacheKey \<Rightarrow> nat \<Rightarrow> (ResolutionError, cacheEntry) res \<Rightarrow> Resolver \<Rightarrow> Resolver" where
  "finishRefresh iter key p result r =
    (let version = rf_version (rv_states r ! p);
         r1 = r\<lparr>rv_states := (rv_states r)[p := (rv_states r ! p)\<lparr>rf_result := Some result\<rparr>]\<rparr> in
     if map_of (rv_refreshing r1) key = Some p then
       let r2 = (case result of
                   Inr e \<Rightarrow> if version = versionLocked r1 key then snd (retainEntryLocked iter key (e\<lparr>ce_version := version\<rparr>) version r1) else r1
                 | Inl _ \<Rightarrow> r1) in
       r2\<lparr>rv_refreshing := AList.delete key (rv_refreshing r2)\<rparr>
     else r1)"

definition refreshVersionCurrent :: "cacheKey \<Rightarrow> cacheVersion \<Rightarrow> Resolver \<Rightarrow> bool" where
  "refreshVersionCurrent key version r \<longleftrightarrow> versionLocked r key = version"

section \<open>Invalidation\<close>

text \<open>\<open>strings.TrimSpace\<close>.\<close>

function trim_left :: "string \<Rightarrow> string" where
  "trim_left s = (case strip_space (bytes_of s) of None \<Rightarrow> s | Some t \<Rightarrow> trim_left (drop (length s - length t) s))"
  by pat_completeness auto
termination
  by (relation "measure length") (auto dest!: strip_space_shorter simp: bytes_of_def)

declare trim_left.simps [simp del]

fun trim_right :: "string \<Rightarrow> string" where
  "trim_right [] = []"
| "trim_right (c # cs) = (if trimmed_empty (c # cs) then [] else c # trim_right cs)"

definition TrimSpace :: "string \<Rightarrow> string" where
  "TrimSpace s = trim_right (trim_left s)"

text \<open>A parsed API version, and the parser of \<^verbatim>\<open>k8s.io/apimachinery/pkg/runtime/schema\<close>.\<close>

record GroupVersion =
  gv_group :: string
  gv_version :: string

record SchemaLib =
  ParseGroupVersion :: "string \<Rightarrow> GroupVersion option"
  GroupVersion_String :: "GroupVersion \<Rightarrow> string"

definition canonicalGroupVersion :: "SchemaLib \<Rightarrow> string \<Rightarrow> string option" where
  "canonicalGroupVersion lib s =
    (case ParseGroupVersion lib (TrimSpace s) of
       None \<Rightarrow> None
     | Some gv \<Rightarrow> if gv_version gv = [] then None else Some (GroupVersion_String lib gv))"

definition InvalidateGroupVersion :: "SchemaLib \<Rightarrow> string \<Rightarrow> Resolver \<Rightarrow> Resolver" where
  "InvalidateGroupVersion lib groupVersion r =
    (case canonicalGroupVersion lib groupVersion of
       None \<Rightarrow> r
     | Some canonical \<Rightarrow>
        let r1 = ensureCache r;
            keys = filter (\<lambda>k. ck_groupVersion k = canonical) (map fst (rv_cache r1) @ map fst (rv_refreshing r1)) in
        r1\<lparr>rv_cache := filter (\<lambda>(k, _). ck_groupVersion k \<noteq> canonical) (rv_cache r1),
           rv_keyEpoch := (\<lambda>k. if k \<in> set keys then rv_keyEpoch r1 k + 1 else rv_keyEpoch r1 k)\<rparr>)"

definition InvalidateResource :: "SchemaLib \<Rightarrow> string \<Rightarrow> string \<Rightarrow> Resolver \<Rightarrow> Resolver" where
  "InvalidateResource lib groupVersion kind r =
    (case canonicalGroupVersion lib groupVersion of
       None \<Rightarrow> r
     | Some canonical \<Rightarrow>
        if kind = [] then r
        else
          let r1 = ensureCache r; key = \<lparr>ck_groupVersion = canonical, ck_kind = kind\<rparr> in
          r1\<lparr>rv_cache := AList.delete key (rv_cache r1), rv_keyEpoch := (rv_keyEpoch r1)(key := rv_keyEpoch r1 key + 1)\<rparr>)"

definition DiscoveryInvalidateAll :: "Resolver \<Rightarrow> Resolver" where
  "DiscoveryInvalidateAll r = (let r1 = ensureCache r in r1\<lparr>rv_invalidationEpoch := rv_invalidationEpoch r1 + 1, rv_cache := []\<rparr>)"

section \<open>Resolution\<close>

definition NewResolutionError :: "string \<Rightarrow> ResolutionErrorReason \<Rightarrow> ResolutionError" where
  "NewResolutionError sid reason = \<lparr>re_sourceID = sid, re_reason = reason\<rparr>"

definition Descriptor_Validate :: "SchemaLib \<Rightarrow> SourceDescriptor \<Rightarrow> ResolutionError option" where
  "Descriptor_Validate lib d =
    (let failed = Some (NewResolutionError (sd_sourceID d) InvalidDescriptor) in
     if trimmed_empty (sd_sourceID d) then failed
     else if trimmed_empty (sd_apiVersion d) then failed
     else (case ParseGroupVersion lib (sd_apiVersion d) of
             None \<Rightarrow> failed
           | Some gv \<Rightarrow> if gv_version gv = [] then failed else if trimmed_empty (sd_kind d) then failed else None))"

record APIResource =
  api_name :: string
  api_namespaced :: bool
  api_kind :: string

definition candidate_less :: "APIResource \<Rightarrow> APIResource \<Rightarrow> bool" where
  "candidate_less a b = (if api_name a \<noteq> api_name b then api_name a < api_name b else api_namespaced a \<and> \<not> api_namespaced b)"

definition matchingResources :: "APIResource list option \<Rightarrow> string \<Rightarrow> APIResource list" where
  "matchingResources resources kind =
    (case resources of
       None \<Rightarrow> []
     | Some rs \<Rightarrow> sort_by candidate_less (filter (\<lambda>r. \<not> (api_kind r \<noteq> kind \<or> api_name r = [] \<or> CHR ''/'' \<in> set (api_name r))) rs))"

text \<open>The response of the client: \<open>Inl\<close> an error, \<open>Inr\<close> a list that may be nil.\<close>

type_synonym response = "(unit, APIResource list option) res"

definition resolveFromDiscovery :: "ctx \<Rightarrow> response option \<Rightarrow> SourceDescriptor \<Rightarrow> GroupVersion \<Rightarrow> (ResolutionError, Resolution) res \<times> ctx" where
  "resolveFromDiscovery c client d gv =
    (let failed = (\<lambda>reason. Inl (NewResolutionError (sd_sourceID d) reason)) in
     case ctx_err c of
       (True, c1) \<Rightarrow> (failed DiscoveryUnavailable, c1)
     | (False, c1) \<Rightarrow>
        (case client of
           None \<Rightarrow> (failed DiscoveryUnavailable, c1)
         | Some (Inl _) \<Rightarrow> (failed DiscoveryUnavailable, c1)
         | Some (Inr resources) \<Rightarrow>
            (case ctx_err c1 of
               (True, c2) \<Rightarrow> (failed DiscoveryUnavailable, c2)
             | (False, c2) \<Rightarrow>
                (case matchingResources resources (sd_kind d) of
                   [] \<Rightarrow> (failed UnknownType, c2)
                 | [r] \<Rightarrow> (Inr \<lparr>res_sourceID = sd_sourceID d,
                       res_resource = \<lparr>gvr_group = gv_group gv, gvr_version = gv_version gv, gvr_resource = api_name r\<rparr>,
                       res_scope = (if api_namespaced r then ScopeNamespaced else ScopeCluster)\<rparr>, c2)
                 | _ \<Rightarrow> (failed AmbiguousResource, c2)))))"

definition sourceScopedResolutionError :: "string \<Rightarrow> ResolutionError \<Rightarrow> ResolutionError" where
  "sourceScopedResolutionError sid e = e\<lparr>re_sourceID := sid\<rparr>"

definition RequireNamespaced :: "Resolution \<Rightarrow> ResolutionError option" where
  "RequireNamespaced r = (if res_scope r = ScopeNamespaced then None else Some (NewResolutionError (res_sourceID r) InvalidScope))"

section \<open>Least recently used entries\<close>

text \<open>The specification: the cached keys in the order of their last use, the least recent first.\<close>

definition lru_use :: "cacheKey \<Rightarrow> cacheKey list \<Rightarrow> cacheKey list" where
  "lru_use k ks = removeAll k ks @ [k]"

definition lru_insert :: "nat \<Rightarrow> (cacheKey \<Rightarrow> bool) \<Rightarrow> cacheKey \<Rightarrow> cacheKey list \<Rightarrow> cacheKey list" where
  "lru_insert capacity busy k ks =
    (let others = removeAll k ks in
     if length others < capacity then others @ [k]
     else (case find (\<lambda>v. \<not> busy v) others of None \<Rightarrow> others | Some v \<Rightarrow> removeAll v others @ [k]))"

definition iterates :: "map_order \<Rightarrow> bool" where
  "iterates iter \<longleftrightarrow> (\<forall>xs. mset (iter xs) = mset xs)"

definition last_use :: "(cacheKey \<times> cacheEntry) list \<Rightarrow> cacheKey \<Rightarrow> 64 word" where
  "last_use cache k = (case map_of cache k of Some e \<Rightarrow> ce_accessSequence e | None \<Rightarrow> 0)"

definition recency :: "64 word \<Rightarrow> (cacheKey \<times> cacheEntry) list \<Rightarrow> cacheKey list \<Rightarrow> bool" where
  "recency s cache ks \<longleftrightarrow> distinct (map fst cache) \<and> set ks = fst ` set cache \<and>
     sorted_wrt (\<lambda>a b. last_use cache a < last_use cache b) ks \<and> list_all (\<lambda>k. last_use cache k \<le> s) ks"

lemma recency_distinct: "recency s cache ks \<Longrightarrow> distinct ks"
  unfolding recency_def distinct_conv_nth sorted_wrt_iff_nth_less by (metis less_irrefl linorder_neqE_nat)

lemma recency_length: "recency s cache ks \<Longrightarrow> length ks = length cache"
  using recency_distinct[of s cache ks] distinct_card[of ks] distinct_card[of "map fst cache"] by (simp add: recency_def)

lemma next_word: "s + 1 \<noteq> 0 \<Longrightarrow> s < s + (1 :: 64 word)"
  using unatSuc[of s] by (simp add: word_less_nat_alt add.commute)

lemma last_use_update [simp]:
  "last_use (AList.update k e cache) k' = (if k' = k then ce_accessSequence e else last_use cache k')"
  by (simp add: last_use_def update_conv')

lemma last_use_delete [simp]: "k' \<noteq> k \<Longrightarrow> last_use (AList.delete k cache) k' = last_use cache k'"
  by (simp add: last_use_def delete_conv')

lemma sorted_removeAll:
  assumes "sorted_wrt P ks" "\<And>a b. a \<noteq> k \<Longrightarrow> b \<noteq> k \<Longrightarrow> P a b \<Longrightarrow> Q a b"
  shows "sorted_wrt Q (removeAll k ks)"
  by (rule sorted_wrt_mono_rel[of _ P]) (use assms in \<open>auto simp: removeAll_filter_not_eq sorted_wrt_filter\<close>)

lemma recency_delete: "recency s cache ks \<Longrightarrow> recency s (AList.delete k cache) (removeAll k ks)"
proof -
  assume r: "recency s cache ks"
  have "sorted_wrt (\<lambda>a b. last_use (AList.delete k cache) a < last_use (AList.delete k cache) b) (removeAll k ks)"
    by (rule sorted_removeAll[where P = "\<lambda>a b. last_use cache a < last_use cache b"]) (use r in \<open>auto simp: recency_def\<close>)
  moreover have "set (removeAll k ks) = fst ` set (AList.delete k cache)"
    using r by (auto simp: recency_def AList.delete_eq image_iff)
  moreover have "list_all (\<lambda>k'. last_use (AList.delete k cache) k' \<le> s) (removeAll k ks)"
    using r by (simp add: recency_def list_all_iff)
  ultimately show ?thesis using r unfolding recency_def by (simp add: distinct_delete)
qed

lemma recency_use:
  assumes "recency s cache ks" "s + 1 \<noteq> 0" "ce_accessSequence e = s + 1"
  shows "recency (s + 1) (AList.update k e cache) (lru_use k ks)"
proof -
  have le: "last_use cache k' \<le> s" if "k' \<in> set ks" for k' using assms(1) that by (simp add: recency_def list_all_iff)
  have lt: "s < s + 1" using assms(2) by (rule next_word)
  have "sorted_wrt (\<lambda>a b. last_use (AList.update k e cache) a < last_use (AList.update k e cache) b) (removeAll k ks)"
    by (rule sorted_removeAll[where P = "\<lambda>a b. last_use cache a < last_use cache b"]) (use assms(1) in \<open>auto simp: recency_def\<close>)
  moreover have "set (lru_use k ks) = fst ` set (AList.update k e cache)"
    using assms(1) by (auto simp: recency_def lru_use_def dom_update)
  moreover have "last_use cache k' < s + 1" if "k' \<in> set ks" for k' using le[OF that] lt by (rule le_less_trans)
  moreover from this have "list_all (\<lambda>k'. last_use (AList.update k e cache) k' \<le> s + 1) (lru_use k ks)"
    using assms(3) by (auto simp: list_all_iff lru_use_def less_imp_le)
  ultimately show ?thesis using assms unfolding recency_def
    by (auto simp: lru_use_def distinct_update sorted_wrt_append)
qed

lemma lruLoop_least:
  "lruLoop busy victim xs = out \<Longrightarrow>
    (case out of
       None \<Rightarrow> victim = None \<and> list_all (\<lambda>(k, _). map_of busy k \<noteq> None) xs
     | Some (vk, ve) \<Rightarrow> (victim = Some (vk, ve) \<or> (vk, ve) \<in> set xs \<and> map_of busy vk = None) \<and>
         (case victim of None \<Rightarrow> True | Some (_, e) \<Rightarrow> ce_accessSequence ve \<le> ce_accessSequence e) \<and>
         list_all (\<lambda>(k, e). map_of busy k = None \<longrightarrow> ce_accessSequence ve \<le> ce_accessSequence e) xs)"
proof (induction busy victim xs rule: lruLoop.induct)
  case (1 busy victim)
  then show ?case by (auto split: option.splits)
next
  case (2 busy victim k e rest)
  show ?case
  proof (cases "map_of busy k")
    case (Some p)
    then show ?thesis using 2 by (auto split: option.splits)
  next
    case None
    define v where "v = (case victim of None \<Rightarrow> (k, e) | Some (vk, ve) \<Rightarrow>
        if ce_accessSequence e < ce_accessSequence ve \<or> ce_accessSequence e = ce_accessSequence ve \<and> cacheKeyLess k vk then (k, e) else (vk, ve))"
    have v: "(case victim of None \<Rightarrow> Some (k, e) | Some (vk, ve) \<Rightarrow>
        if ce_accessSequence e < ce_accessSequence ve \<or> ce_accessSequence e = ce_accessSequence ve \<and> cacheKeyLess k vk
        then Some (k, e) else victim) = Some v"
      by (auto simp: v_def split: option.splits)
    have low: "ce_accessSequence (snd v) \<le> ce_accessSequence e"
      "case victim of None \<Rightarrow> True | Some (_, e) \<Rightarrow> ce_accessSequence (snd v) \<le> ce_accessSequence e"
      "v = (k, e) \<or> victim = Some v"
      by (auto simp: v_def split: option.splits)
    have run: "lruLoop busy (Some v) rest = out" using 2(3) None v by simp
    from 2(2)[unfolded v, OF _ run] None have ih: "case out of None \<Rightarrow> False | Some (vk, ve) \<Rightarrow>
        (v = (vk, ve) \<or> (vk, ve) \<in> set rest \<and> map_of busy vk = None) \<and> ce_accessSequence ve \<le> ce_accessSequence (snd v) \<and>
        list_all (\<lambda>(k, e). map_of busy k = None \<longrightarrow> ce_accessSequence ve \<le> ce_accessSequence e) rest"
      by (auto split: option.splits prod.splits)
    then obtain vk ve where out: "out = Some (vk, ve)" by (auto split: option.splits)
    then show ?thesis using ih low None by (auto split: option.splits intro: order_trans)
  qed
qed

lemma lruVictim_first:
  assumes "recency s (rv_cache r) ks" "iterates iter"
  shows "lruVictimLocked iter r = find (\<lambda>k. map_of (rv_refreshing r) k = None) ks"
proof (cases "lruLoop (rv_refreshing r) None (iter (rv_cache r))")
  case None
  have all: "set (iter (rv_cache r)) = set (rv_cache r)" using assms(2) unfolding iterates_def by (metis set_mset_mset)
  have "\<forall>k \<in> set ks. map_of (rv_refreshing r) k \<noteq> None"
    using lruLoop_least[OF None] assms(1) by (auto simp: recency_def list_all_iff all)
  then have "find (\<lambda>k. map_of (rv_refreshing r) k = None) ks = None" by (auto simp: find_None_iff)
  then show ?thesis using None by (simp add: lruVictimLocked_def)
next
  case (Some v)
  have all: "set (iter (rv_cache r)) = set (rv_cache r)" using assms(2) unfolding iterates_def by (metis set_mset_mset)
  have d: "distinct (map fst (rv_cache r))" using assms(1) by (simp add: recency_def)
  have v: "(fst v, snd v) \<in> set (rv_cache r)" "map_of (rv_refreshing r) (fst v) = None"
    and low: "\<And>k e. (k, e) \<in> set (rv_cache r) \<Longrightarrow> map_of (rv_refreshing r) k = None \<Longrightarrow> ce_accessSequence (snd v) \<le> ce_accessSequence e"
    using lruLoop_least[OF Some] by (auto simp: all list_all_iff split: prod.splits)
  have use: "last_use (rv_cache r) k = ce_accessSequence e" if "(k, e) \<in> set (rv_cache r)" for k e
    using that d by (simp add: last_use_def)
  obtain i where i: "i < length ks" "ks ! i = fst v"
    using v(1) assms(1) by (metis (no_types, lifting) fst_conv image_eqI in_set_conv_nth recency_def)
  have "map_of (rv_refreshing r) (ks ! j) \<noteq> None" if "j < i" for j
  proof
    assume free: "map_of (rv_refreshing r) (ks ! j) = None"
    have "ks ! j \<in> set ks" using that i(1) by simp
    then have "ks ! j \<in> fst ` set (rv_cache r)" using assms(1) by (simp add: recency_def)
    then obtain e where e: "(ks ! j, e) \<in> set (rv_cache r)" by auto
    have "last_use (rv_cache r) (ks ! j) < last_use (rv_cache r) (ks ! i)"
      using assms(1) that i(1) by (simp add: recency_def sorted_wrt_iff_nth_less)
    then show False using low[OF e free] use[OF e] use[OF v(1)] i(2) by simp
  qed
  then have "find (\<lambda>k. map_of (rv_refreshing r) k = None) ks = Some (fst v)" using v(2) i by (auto simp: find_Some_iff)
  then show ?thesis using Some by (simp add: lruVictimLocked_def)
qed

lemma touch_recency:
  assumes "recency (rv_accessSequence r) (rv_cache r) ks" "rv_accessSequence r + 1 \<noteq> 0"
  shows "recency (rv_accessSequence (snd (touch iter k e r))) (rv_cache (snd (touch iter k e r))) (lru_use k ks)"
  using recency_use[OF assms, of "e\<lparr>ce_accessSequence := rv_accessSequence r + 1\<rparr>" k] assms(2)
  by (simp add: touch_def nextAccessLocked_def Let_def)

lemma retain_recency:
  assumes "recency (rv_accessSequence r) (rv_cache r) ks" "rv_accessSequence r + 1 \<noteq> 0" "iterates iter"
    and "0 < rv_cacheCapacity r" "version = versionLocked r k"
  shows "recency (rv_accessSequence (snd (retainEntryLocked iter k e version r))) (rv_cache (snd (retainEntryLocked iter k e version r)))
    (lru_insert (nat (rv_cacheCapacity r)) (\<lambda>v. map_of (rv_refreshing r) v \<noteq> None) k ks)"
proof -
  let ?r1 = "r\<lparr>rv_cache := AList.delete k (rv_cache r)\<rparr>"
  have r1: "recency (rv_accessSequence ?r1) (rv_cache ?r1) (removeAll k ks)" using recency_delete[OF assms(1)] by simp
  have len: "length (removeAll k ks) = length (rv_cache ?r1)" using recency_length[OF r1] .
  have vic: "lruVictimLocked iter ?r1 = find (\<lambda>v. map_of (rv_refreshing r) v = None) (removeAll k ks)"
    using lruVictim_first[OF r1 assms(3)] by simp
  show ?thesis
  proof (cases "rv_cacheCapacity r \<le> int (length (rv_cache ?r1))")
    case False
    then have lt: "length (removeAll k ks) < nat (rv_cacheCapacity r)" using len by linarith
    have "retainEntryLocked iter k e version r = (True, snd (touch iter k e ?r1))"
      using False assms(4,5) by (simp add: retainEntryLocked_def Let_def)
    moreover have "lru_insert (nat (rv_cacheCapacity r)) (\<lambda>v. map_of (rv_refreshing r) v \<noteq> None) k ks = lru_use k (removeAll k ks)"
      using lt by (simp add: lru_insert_def lru_use_def Let_def)
    ultimately show ?thesis using touch_recency[OF r1, of iter k e] assms(2) by simp
  next
    case True
    then have ge: "\<not> length (removeAll k ks) < nat (rv_cacheCapacity r)" using len assms(4) by linarith
    show ?thesis
    proof (cases "find (\<lambda>v. map_of (rv_refreshing r) v = None) (removeAll k ks)")
      case None
      then show ?thesis using r1 True ge assms(4,5) vic
        by (simp add: retainEntryLocked_def lru_insert_def Let_def)
    next
      case (Some v)
      let ?r2 = "?r1\<lparr>rv_cache := AList.delete v (rv_cache ?r1)\<rparr>"
      have "recency (rv_accessSequence ?r2) (rv_cache ?r2) (removeAll v (removeAll k ks))" using recency_delete[OF r1] by simp
      note after = touch_recency[OF this, of iter k e]
      have "retainEntryLocked iter k e version r = (True, snd (touch iter k e ?r2))"
        using True Some vic assms(4,5) by (simp add: retainEntryLocked_def Let_def)
      moreover have "lru_insert (nat (rv_cacheCapacity r)) (\<lambda>v. map_of (rv_refreshing r) v \<noteq> None) k ks = lru_use k (removeAll v (removeAll k ks))"
        using ge Some by (simp add: lru_insert_def lru_use_def Let_def removeAll_filter_not_eq conj_commute)
      ultimately show ?thesis using after assms(2) by simp
    qed
  qed
qed

text \<open>A cache of two entries at the end of the sequence, for the witnesses.\<close>

definition wit_ckey :: "string \<Rightarrow> cacheKey" where
  "wit_ckey kind = \<lparr>ck_groupVersion = ''v1'', ck_kind = kind\<rparr>"

definition wit_entry :: "64 word \<Rightarrow> cacheEntry" where
  "wit_entry n = \<lparr>ce_resource = \<lparr>gvr_group = [], gvr_version = ''v1'', gvr_resource = ''pods''\<rparr>, ce_scope = ScopeNamespaced,
     ce_expiresAt = 10, ce_accessSequence = n, ce_version = \<lparr>cv_all = 0, cv_key = 0\<rparr>\<rparr>"

definition wit_resolver :: "64 word \<Rightarrow> Resolver" where
  "wit_resolver n = (NewResolver [WithCacheCapacity 2])\<lparr>rv_cache := [(wit_ckey ''A'', wit_entry 1), (wit_ckey ''B'', wit_entry 2)], rv_accessSequence := n\<rparr>"

section \<open>Properties of the cache\<close>

text \<open>C29: the cache refines a list of its keys in the order of their last use, whatever order Go iterates its maps in: a hit
  moves its key to the end; retaining a result moves its key to the end and, when the cache is full, drops the first key that no
  call is refreshing, or retains nothing when every key is being refreshed; the number of entries never exceeds the capacity.\<close>

theorem cache_refines_lru:
  assumes "recency (rv_accessSequence r) (rv_cache r) ks" and "rv_accessSequence r + 1 \<noteq> 0" and "iterates iter"
    and "0 < rv_cacheCapacity r" and "int (length (rv_cache r)) \<le> rv_cacheCapacity r"
  shows "(case freshCacheEntry iter now k r of
            (Some _, r') \<Rightarrow> recency (rv_accessSequence r') (rv_cache r') (lru_use k ks)
          | (None, r') \<Rightarrow> recency (rv_accessSequence r') (rv_cache r') (if set (rv_cache r') = set (rv_cache r) then ks else removeAll k ks)) \<and>
    (let r' = snd (retainEntryLocked iter k e (versionLocked r k) r) in
       recency (rv_accessSequence r') (rv_cache r')
         (lru_insert (nat (rv_cacheCapacity r)) (\<lambda>v. map_of (rv_refreshing r) v \<noteq> None) k ks) \<and>
       int (length (rv_cache r')) \<le> rv_cacheCapacity r)"
proof (intro conjI)
  have del: "recency (rv_accessSequence r) (AList.delete k (rv_cache r)) (if set (AList.delete k (rv_cache r)) = set (rv_cache r) then ks else removeAll k ks)"
  proof (cases "set (AList.delete k (rv_cache r)) = set (rv_cache r)")
    case True
    then have "AList.delete k (rv_cache r) = rv_cache r" by (auto simp: AList.delete_eq filter_id_conv)
    then show ?thesis using assms(1) by simp
  qed (use recency_delete[OF assms(1)] in simp)
  show "case freshCacheEntry iter now k r of
            (Some _, r') \<Rightarrow> recency (rv_accessSequence r') (rv_cache r') (lru_use k ks)
          | (None, r') \<Rightarrow> recency (rv_accessSequence r') (rv_cache r') (if set (rv_cache r') = set (rv_cache r) then ks else removeAll k ks)"
  proof (cases "map_of (rv_cache r) k")
    case None
    then show ?thesis using assms(1) by (simp add: freshCacheEntry_def)
  next
    case (Some x)
    then show ?thesis using assms(1) del touch_recency[OF assms(1,2), of iter k x]
      by (cases "touch iter k x r") (simp add: freshCacheEntry_def)
  qed
  have d: "distinct ks" and n: "length ks = length (rv_cache r)" using recency_distinct recency_length assms(1) by blast+
  let ?r' = "snd (retainEntryLocked iter k e (versionLocked r k) r)"
  note after = retain_recency[OF assms(1-4) refl, of k e]
  have "length (lru_insert (nat (rv_cacheCapacity r)) (\<lambda>v. map_of (rv_refreshing r) v \<noteq> None) k ks) \<le> nat (rv_cacheCapacity r)"
  proof -
    have le: "length (removeAll k ks) \<le> nat (rv_cacheCapacity r)" using n assms(5) length_removeAll_less_eq[of k ks] by linarith
    have "length (removeAll v (removeAll k ks)) < length (removeAll k ks)" if "find P (removeAll k ks) = Some v" for P v
    proof (rule length_removeAll_less)
      obtain i where "i < length (removeAll k ks)" "v = removeAll k ks ! i" using \<open>find P (removeAll k ks) = Some v\<close> by (auto simp: find_Some_iff)
      then show "v \<in> set (removeAll k ks)" by (simp only: nth_mem)
    qed
    then show ?thesis using le by (auto simp: lru_insert_def Let_def split: option.splits) fastforce
  qed
  then show "let r' = ?r' in recency (rv_accessSequence r') (rv_cache r')
         (lru_insert (nat (rv_cacheCapacity r)) (\<lambda>v. map_of (rv_refreshing r) v \<noteq> None) k ks) \<and>
       int (length (rv_cache r')) \<le> rv_cacheCapacity r"
    using after recency_length[OF after] assms(4) by (simp add: Let_def)
qed

theorem cache_refines_lru_witness:
  "let r' = snd (retainEntryLocked rev (wit_ckey ''C'') (wit_entry 0) (versionLocked (wit_resolver 2) (wit_ckey ''C'')) (wit_resolver 2)) in
   recency (rv_accessSequence r') (rv_cache r') [wit_ckey ''B'', wit_ckey ''C'']"
proof -
  have r: "recency (rv_accessSequence (wit_resolver 2)) (rv_cache (wit_resolver 2)) [wit_ckey ''A'', wit_ckey ''B'']"
    by (simp add: recency_def last_use_def wit_resolver_def wit_ckey_def wit_entry_def NewResolver_def)
  have c: "rv_cacheCapacity (wit_resolver 2) = 2" "rv_refreshing (wit_resolver 2) = []" "length (rv_cache (wit_resolver 2)) = 2"
    "rv_accessSequence (wit_resolver 2) + 1 \<noteq> 0" by (simp_all add: wit_resolver_def NewResolver_def)
  have i: "iterates rev" by (simp add: iterates_def)
  have l: "lru_insert 2 (\<lambda>v. False) (wit_ckey ''C'') [wit_ckey ''A'', wit_ckey ''B''] = [wit_ckey ''B'', wit_ckey ''C'']"
    by (simp add: lru_insert_def wit_ckey_def)
  show ?thesis using cache_refines_lru[where now = 0 and k = "wit_ckey ''C''" and e = "wit_entry 0", OF r c(4) i] c l by (simp add: Let_def)
qed

text \<open>The renumbering at the end of the sequence replaces the order of use by the order in which Go happens to iterate its map: the
  same call on the same cache leaves a different victim for the next eviction.\<close>

lemma renumbering_follows_iteration:
  "lruVictimLocked id (snd (nextAccessLocked id (wit_resolver (- 1)))) = Some (wit_ckey ''A'') \<and>
   lruVictimLocked id (snd (nextAccessLocked rev (wit_resolver (- 1)))) = Some (wit_ckey ''B'')"
  by (simp add: lruVictimLocked_def nextAccessLocked_def wit_resolver_def NewResolver_def wit_ckey_def wit_entry_def Let_def)

end
