(* ===== verification/DiscoveryCalls.thy ===== *)
theory DiscoveryCalls
  imports Discovery
begin

text \<open>
  Concurrent resolution, \<^verbatim>\<open>Resolve\<close> and \<^verbatim>\<open>resolveWithRefresh\<close> of \<^verbatim>\<open>src/internal/discovery/resolver.go\<close>: any number of calls and
  invalidations interleave between the sections that run under the mutex.  A step is one such section of one call, one response of
  the discovery client, an invalidation, or the passing of time.  Calls and refresh states are numbered; the fields of
  \<open>system\<close> after \<open>sy_now\<close> are histories that no step reads: how often each epoch was advanced, when
  each refresh state was made and at which counts, which refresh state the cached entry of a key comes from, and which invalidation
  of its key preceded each call.
\<close>

section \<open>Calls\<close>

datatype phase =
    Looking
  | Refreshing
  | Waiting nat
  | Discovering nat
  | Finishing nat "(ResolutionError, cacheEntry) res" "(ResolutionError, Resolution) res"
  | Checking nat Resolution
  | Returned "(ResolutionError, Resolution) res"

record call =
  ca_sourceID :: string
  ca_gv :: GroupVersion
  ca_key :: cacheKey
  ca_phase :: phase

record system =
  sy_resolver :: Resolver
  sy_calls :: "call list"
  sy_now :: int
  sy_clock :: nat
  sy_alls :: nat
  sy_keys :: "cacheKey \<Rightarrow> nat"
  sy_last :: "cacheKey \<Rightarrow> nat"
  sy_born :: "nat list"
  sy_counts :: "(nat \<times> nat) list"
  sy_stateKey :: "cacheKey list"
  sy_owner :: "nat list"
  sy_origin :: "cacheKey \<Rightarrow> nat"
  sy_floor :: "nat list"

definition initial_system :: "ResolverOption list \<Rightarrow> system" where
  "initial_system options = \<lparr>sy_resolver = NewResolver options, sy_calls = [], sy_now = 0, sy_clock = 1, sy_alls = 0, sy_keys = (\<lambda>_. 0),
     sy_last = (\<lambda>_. 0), sy_born = [], sy_counts = [], sy_stateKey = [], sy_owner = [], sy_origin = (\<lambda>_. 0), sy_floor = []\<rparr>"

definition enter :: "nat \<Rightarrow> phase \<Rightarrow> system \<Rightarrow> system" where
  "enter i p s = s\<lparr>sy_calls := (sy_calls s)[i := (sy_calls s ! i)\<lparr>ca_phase := p\<rparr>]\<rparr>"

text \<open>The checks of \<^verbatim>\<open>Resolve\<close> before the cache is read: \<open>Inl\<close> is the answer of a call that stops there.\<close>

definition openCall :: "SchemaLib \<Rightarrow> ctx \<Rightarrow> SourceDescriptor \<Rightarrow> (ResolutionError, call) res" where
  "openCall lib c d =
    (case Descriptor_Validate lib d of
       Some e \<Rightarrow> Inl e
     | None \<Rightarrow>
        if fst (ctx_err c) then Inl (NewResolutionError (sd_sourceID d) DiscoveryUnavailable)
        else (case ParseGroupVersion lib (sd_apiVersion d) of
                None \<Rightarrow> Inl (NewResolutionError (sd_sourceID d) InvalidDescriptor)
              | Some gv \<Rightarrow>
                  if gv_version gv = [] then Inl (NewResolutionError (sd_sourceID d) InvalidDescriptor)
                  else Inr \<lparr>ca_sourceID = sd_sourceID d, ca_gv = gv,
                         ca_key = \<lparr>ck_groupVersion = GroupVersion_String lib gv, ck_kind = sd_kind d\<rparr>, ca_phase = Looking\<rparr>))"

definition step_open :: "call \<Rightarrow> system \<Rightarrow> system" where
  "step_open c s = s\<lparr>sy_resolver := ensureCache (sy_resolver s), sy_calls := sy_calls s @ [c], sy_floor := sy_floor s @ [sy_last s (ca_key c)]\<rparr>"

definition step_look :: "map_order \<Rightarrow> nat \<Rightarrow> system \<Rightarrow> system" where
  "step_look iter i s =
    (let c = sy_calls s ! i in
     case freshCacheEntry iter (sy_now s) (ca_key c) (sy_resolver s) of
       (Some e, r) \<Rightarrow> enter i (Returned (Inr (resolution e (ca_sourceID c)))) (s\<lparr>sy_resolver := r\<rparr>)
     | (None, r) \<Rightarrow> enter i Refreshing (s\<lparr>sy_resolver := r\<rparr>))"

text \<open>The histories of a refresh state that call \<open>i\<close> has made.\<close>

definition start_history :: "nat \<Rightarrow> cacheKey \<Rightarrow> Resolver \<Rightarrow> system \<Rightarrow> system" where
  "start_history i key r s = s\<lparr>sy_resolver := r, sy_clock := sy_clock s + 1, sy_born := sy_born s @ [sy_clock s],
     sy_counts := sy_counts s @ [(sy_alls s, sy_keys s key)], sy_stateKey := sy_stateKey s @ [key], sy_owner := sy_owner s @ [i]\<rparr>"

definition step_begin :: "map_order \<Rightarrow> nat \<Rightarrow> system \<Rightarrow> system" where
  "step_begin iter i s =
    (let c = sy_calls s ! i; key = ca_key c in
     case beginRefresh iter (sy_now s) key (sy_resolver s) of
       (Cached e, r) \<Rightarrow> enter i (Returned (Inr (resolution e (ca_sourceID c)))) (s\<lparr>sy_resolver := r\<rparr>)
     | (Joined p, r) \<Rightarrow> enter i (Waiting p) (s\<lparr>sy_resolver := r\<rparr>)
     | (Started p, r) \<Rightarrow> enter i (Discovering p) (start_history i key r s))"

text \<open>The waiting side of the select statement: the refresh is done, or the context is.\<close>

definition step_wake :: "nat \<Rightarrow> nat \<Rightarrow> system \<Rightarrow> system" where
  "step_wake i p s =
    (let c = sy_calls s ! i; st = rv_states (sy_resolver s) ! p in
     if \<not> refreshVersionCurrent (ca_key c) (rf_version st) (sy_resolver s) then enter i Refreshing s
     else (case rf_result st of
             Some (Inl e) \<Rightarrow> enter i (Returned (Inl (sourceScopedResolutionError (ca_sourceID c) e))) s
           | Some (Inr e) \<Rightarrow> enter i (Returned (Inr (resolution e (ca_sourceID c)))) s
           | None \<Rightarrow> s))"

definition step_expire :: "nat \<Rightarrow> system \<Rightarrow> system" where
  "step_expire i s = enter i (Returned (Inl (NewResolutionError (ca_sourceID (sy_calls s ! i)) DiscoveryUnavailable))) s"

definition step_discover :: "ctx \<Rightarrow> response option \<Rightarrow> nat \<Rightarrow> nat \<Rightarrow> system \<Rightarrow> system" where
  "step_discover c client i p s =
    (let ca = sy_calls s ! i; r = sy_resolver s;
         d = \<lparr>sd_sourceID = ca_sourceID ca, sd_apiVersion = [], sd_kind = ck_kind (ca_key ca)\<rparr> in
     case resolveFromDiscovery c client d (ca_gv ca) of
       (Inl e, _) \<Rightarrow> enter i (Finishing p (Inl e) (Inl e)) s
     | (Inr res, _) \<Rightarrow> enter i (Finishing p
         (Inr \<lparr>ce_resource = res_resource res, ce_scope = res_scope res, ce_expiresAt = sy_now s + rv_cacheTTL r, ce_accessSequence = 0,
               ce_version = rf_version (rv_states r ! p)\<rparr>) (Inr res)) s)"

definition step_finish :: "map_order \<Rightarrow> nat \<Rightarrow> nat \<Rightarrow> (ResolutionError, cacheEntry) res \<Rightarrow> (ResolutionError, Resolution) res \<Rightarrow> system \<Rightarrow> system" where
  "step_finish iter i p result answer s =
    (let key = ca_key (sy_calls s ! i); r = sy_resolver s;
         s1 = s\<lparr>sy_resolver := finishRefresh iter key p result r,
                sy_origin := (if map_of (rv_refreshing r) key = Some p \<and> rf_version (rv_states r ! p) = versionLocked r key \<and> isl result = False
                              then (sy_origin s)(key := p) else sy_origin s)\<rparr> in
     enter i (case answer of Inl e \<Rightarrow> Returned (Inl e) | Inr res \<Rightarrow> Checking p res) s1)"

definition step_check :: "nat \<Rightarrow> nat \<Rightarrow> Resolution \<Rightarrow> system \<Rightarrow> system" where
  "step_check i p res s =
    (let r = sy_resolver s in
     if refreshVersionCurrent (ca_key (sy_calls s ! i)) (rf_version (rv_states r ! p)) r then enter i (Returned (Inr res)) s
     else enter i Refreshing s)"

datatype invalidation = OfGroupVersion string | OfResource string string | OfAll

fun invalidate :: "SchemaLib \<Rightarrow> invalidation \<Rightarrow> Resolver \<Rightarrow> Resolver" where
  "invalidate lib (OfGroupVersion gv) r = InvalidateGroupVersion lib gv r"
| "invalidate lib (OfResource gv kind) r = InvalidateResource lib gv kind r"
| "invalidate lib OfAll r = DiscoveryInvalidateAll r"

text \<open>The keys an invalidation speaks of.\<close>

fun invalidates :: "SchemaLib \<Rightarrow> invalidation \<Rightarrow> cacheKey \<Rightarrow> bool" where
  "invalidates lib (OfGroupVersion gv) k \<longleftrightarrow> canonicalGroupVersion lib gv = Some (ck_groupVersion k)"
| "invalidates lib (OfResource gv kind) k \<longleftrightarrow> canonicalGroupVersion lib gv = Some (ck_groupVersion k) \<and> kind \<noteq> [] \<and> kind = ck_kind k"
| "invalidates lib OfAll k \<longleftrightarrow> True"

definition step_invalidate :: "SchemaLib \<Rightarrow> invalidation \<Rightarrow> system \<Rightarrow> system" where
  "step_invalidate lib v s =
    (let r = sy_resolver s; r' = invalidate lib v r in
     s\<lparr>sy_resolver := r', sy_clock := sy_clock s + 1, sy_alls := (if v = OfAll then sy_alls s + 1 else sy_alls s),
       sy_keys := (\<lambda>k. if rv_keyEpoch r' k = rv_keyEpoch r k then sy_keys s k else sy_keys s k + 1),
       sy_last := (\<lambda>k. if invalidates lib v k then sy_clock s else sy_last s k)\<rparr>)"

inductive resolve_step :: "SchemaLib \<Rightarrow> system \<Rightarrow> system \<Rightarrow> bool" for lib where
  open_call: "openCall lib c d = Inr ca \<Longrightarrow> resolve_step lib s (step_open ca s)"
| look: "i < length (sy_calls s) \<Longrightarrow> ca_phase (sy_calls s ! i) = Looking \<Longrightarrow> iterates iter \<Longrightarrow> resolve_step lib s (step_look iter i s)"
| begin_refresh: "i < length (sy_calls s) \<Longrightarrow> ca_phase (sy_calls s ! i) = Refreshing \<Longrightarrow> iterates iter \<Longrightarrow> resolve_step lib s (step_begin iter i s)"
| wake: "i < length (sy_calls s) \<Longrightarrow> ca_phase (sy_calls s ! i) = Waiting p \<Longrightarrow> rf_result (rv_states (sy_resolver s) ! p) \<noteq> None \<Longrightarrow>
    resolve_step lib s (step_wake i p s)"
| expire: "i < length (sy_calls s) \<Longrightarrow> ca_phase (sy_calls s ! i) = Waiting p \<Longrightarrow> resolve_step lib s (step_expire i s)"
| discover: "i < length (sy_calls s) \<Longrightarrow> ca_phase (sy_calls s ! i) = Discovering p \<Longrightarrow> resolve_step lib s (step_discover c client i p s)"
| finish: "i < length (sy_calls s) \<Longrightarrow> ca_phase (sy_calls s ! i) = Finishing p result answer \<Longrightarrow> iterates iter \<Longrightarrow>
    resolve_step lib s (step_finish iter i p result answer s)"
| check: "i < length (sy_calls s) \<Longrightarrow> ca_phase (sy_calls s ! i) = Checking p res \<Longrightarrow> resolve_step lib s (step_check i p res s)"
| invalidation: "resolve_step lib s (step_invalidate lib v s)"
| passing: "resolve_step lib s (s\<lparr>sy_now := t\<rparr>)"

inductive resolve_reachable :: "SchemaLib \<Rightarrow> ResolverOption list \<Rightarrow> system \<Rightarrow> bool" for lib options where
  start: "resolve_reachable lib options (initial_system options)"
| step: "resolve_reachable lib options s \<Longrightarrow> resolve_step lib s s' \<Longrightarrow> resolve_reachable lib options s'"

text \<open>A batch is the sequence of its calls, each a run of the steps above, given here as the function \<open>resolve\<close>.\<close>

record ResolveOutcome =
  ro_sourceID :: string
  ro_resolution :: "Resolution option"
  ro_err :: "ResolutionError option"

definition batchResolutionError :: "string \<Rightarrow> ResolutionError \<Rightarrow> ResolutionError" where
  "batchResolutionError sid e = sourceScopedResolutionError sid e"

fun ResolveBatch :: "('s \<Rightarrow> ctx \<Rightarrow> SourceDescriptor \<Rightarrow> (ResolutionError, Resolution) res \<times> ctx \<times> 's) \<Rightarrow> 's \<Rightarrow> ctx \<Rightarrow> SourceDescriptor list \<Rightarrow>
    ResolveOutcome list \<times> ctx \<times> 's" where
  "ResolveBatch resolve st c [] = ([], c, st)"
| "ResolveBatch resolve st c (d # ds) =
    (let out = \<lparr>ro_sourceID = sd_sourceID d, ro_resolution = None, ro_err = None\<rparr> in
     case ctx_err c of
       (True, c1) \<Rightarrow>
         (case ResolveBatch resolve st c1 ds of
            (rest, fin) \<Rightarrow> (out\<lparr>ro_err := Some (NewResolutionError (sd_sourceID d) DiscoveryUnavailable)\<rparr> # rest, fin))
     | (False, c1) \<Rightarrow>
         (case resolve st c1 d of
            (answer, c2, st2) \<Rightarrow>
              (case ResolveBatch resolve st2 c2 ds of
                 (rest, fin) \<Rightarrow>
                   ((case answer of
                       Inl e \<Rightarrow> out\<lparr>ro_err := Some (batchResolutionError (sd_sourceID d) e)\<rparr>
                     | Inr r \<Rightarrow> out\<lparr>ro_resolution := Some r\<rparr>) # rest, fin))))"

lemma ResolveBatch_sources:
  "map ro_sourceID (fst (ResolveBatch resolve st c ds)) = map sd_sourceID ds \<and>
   list_all (\<lambda>o'. (ro_resolution o' = None) \<noteq> (ro_err o' = None)) (fst (ResolveBatch resolve st c ds))"
  by (induction resolve st c ds rule: ResolveBatch.induct) (auto simp: Let_def split: prod.splits bool.splits sum.splits)

section \<open>What an operation keeps of the cache\<close>

text \<open>The entries up to their access numbers.\<close>

definition unnumbered :: "cacheEntry \<Rightarrow> cacheEntry" where
  "unnumbered e = e\<lparr>ce_accessSequence := 0\<rparr>"

definition contents :: "(cacheKey \<times> cacheEntry) list \<Rightarrow> cacheKey \<Rightarrow> cacheEntry option" where
  "contents cache k = map_option unnumbered (map_of cache k)"

lemma unnumbered_simps [simp]:
  "unnumbered (e\<lparr>ce_accessSequence := n\<rparr>) = unnumbered e" "ce_resource (unnumbered e) = ce_resource e" "ce_scope (unnumbered e) = ce_scope e"
  "ce_version (unnumbered e) = ce_version e"
  by (simp_all add: unnumbered_def)

lemma contents_update [simp]: "contents (AList.update k e cache) = (contents cache)(k \<mapsto> unnumbered e)"
  by (auto simp: contents_def update_conv')

lemma contents_delete [simp]: "contents (AList.delete k cache) = (contents cache)(k := None)"
  by (auto simp: contents_def delete_conv')

lemma map_of_perm:
  assumes "mset xs = mset ys" "distinct (map fst ys)"
  shows "map_of xs = map_of ys"
proof (rule map_of_inject_set[THEN iffD2])
  have "mset (map fst xs) = mset (map fst ys)" using assms(1) by simp
  then show "distinct (map fst xs)" using assms(2) mset_eq_imp_distinct_iff by blast
  show "set xs = set ys" using assms(1) by (rule mset_eq_setD)
qed (fact assms(2))

lemma renumber_contents:
  "renumber n xs = (m, ys) \<Longrightarrow> map fst ys = map fst xs \<and> contents ys = contents xs"
proof (induction n xs arbitrary: m ys rule: renumber.induct)
  case (2 n k e rest)
  obtain m' out where out: "renumber (n + 1) rest = (m', out)" by (cases "renumber (n + 1) rest")
  then show ?case using 2 by (auto simp: contents_def fun_eq_iff)
qed simp

definition cache_wf :: "Resolver \<Rightarrow> bool" where
  "cache_wf r \<longleftrightarrow> distinct (map fst (rv_cache r)) \<and> 0 < rv_cacheCapacity r \<and> int (length (rv_cache r)) \<le> rv_cacheCapacity r"

text \<open>Everything but the cache and the access number.\<close>

definition same_calls :: "Resolver \<Rightarrow> Resolver \<Rightarrow> bool" where
  "same_calls r r' \<longleftrightarrow> rv_states r' = rv_states r \<and> rv_refreshing r' = rv_refreshing r \<and> rv_cacheCapacity r' = rv_cacheCapacity r \<and>
     rv_invalidationEpoch r' = rv_invalidationEpoch r \<and> rv_keyEpoch r' = rv_keyEpoch r"

lemma same_calls_cache [simp]: "same_calls r (r\<lparr>rv_cache := c\<rparr>)" "same_calls r r"
  by (simp_all add: same_calls_def)

lemma same_calls_trans: "same_calls a b \<Longrightarrow> same_calls b c \<Longrightarrow> same_calls a c"
  by (simp add: same_calls_def)

lemma versionLocked_same: "same_calls r r' \<Longrightarrow> versionLocked r' = versionLocked r"
  by (simp add: same_calls_def versionLocked_def fun_eq_iff)

lemma nextAccess_keeps:
  assumes "iterates iter" "distinct (map fst (rv_cache r))" "nextAccessLocked iter r = (n, r')"
  shows "same_calls r r' \<and> contents (rv_cache r') = contents (rv_cache r) \<and> distinct (map fst (rv_cache r')) \<and>
    length (rv_cache r') = length (rv_cache r)"
proof (cases "rv_accessSequence r + 1 = 0")
  case True
  have m: "mset (iter (rv_cache r)) = mset (rv_cache r)" using assms(1) by (simp add: iterates_def)
  have "mset (map fst (iter (rv_cache r))) = mset (map fst (rv_cache r))" using m by simp
  then have d: "distinct (map fst (iter (rv_cache r)))" using assms(2) mset_eq_imp_distinct_iff by blast
  obtain x ys where r: "renumber 0 (iter (rv_cache r)) = (x, ys)" by (cases "renumber 0 (iter (rv_cache r))")
  note keep = renumber_contents[OF r]
  have "length ys = length (rv_cache r)" using keep m by (metis length_map mset_eq_length)
  moreover have "contents (iter (rv_cache r)) = contents (rv_cache r)" using map_of_perm[OF m assms(2)] by (simp add: contents_def fun_eq_iff)
  ultimately show ?thesis using assms(3) True r keep d by (auto simp: nextAccessLocked_def same_calls_def)
next
  case False
  then show ?thesis using assms by (auto simp: nextAccessLocked_def same_calls_def Let_def)
qed

lemma contents_None: "contents cache k = None \<longleftrightarrow> k \<notin> fst ` set cache"
  by (simp add: contents_def map_of_eq_None_iff)

lemma length_update: "length (AList.update k e cache) = (if k \<in> fst ` set cache then length cache else Suc (length cache))"
  by (induction cache) auto

lemma touch_keeps:
  assumes "iterates iter" "distinct (map fst (rv_cache r))" "touch iter k e r = (e', r')"
  shows "same_calls r r' \<and> contents (rv_cache r') = (contents (rv_cache r))(k \<mapsto> unnumbered e) \<and> distinct (map fst (rv_cache r')) \<and>
    length (rv_cache r') = (if contents (rv_cache r) k = None then Suc (length (rv_cache r)) else length (rv_cache r)) \<and> unnumbered e' = unnumbered e"
proof -
  obtain n r1 where r1: "nextAccessLocked iter r = (n, r1)" by (cases "nextAccessLocked iter r")
  have e: "e' = e\<lparr>ce_accessSequence := n\<rparr>" "r' = r1\<lparr>rv_cache := AList.update k e' (rv_cache r1)\<rparr>" using assms(3) r1 by (auto simp: touch_def)
  note keep = nextAccess_keeps[OF assms(1,2) r1]
  have "k \<in> fst ` set (rv_cache r1) \<longleftrightarrow> contents (rv_cache r) k \<noteq> None" using keep contents_None[of "rv_cache r1" k] by simp
  then show ?thesis using keep same_calls_trans[of r r1 r'] unfolding e
    by (simp add: distinct_update length_update)
qed

lemma delete_length: "length (AList.delete k cache) \<le> length cache"
  by (simp add: AList.delete_eq)

lemma delete_length_less: "k \<in> fst ` set cache \<Longrightarrow> length (AList.delete k cache) < length cache"
proof -
  assume "k \<in> fst ` set cache"
  then obtain e where "(k, e) \<in> set cache" by auto
  then show ?thesis unfolding AList.delete_eq by (rule length_filter_less) simp
qed

lemma victim_cached:
  assumes "iterates iter" "lruVictimLocked iter r = Some v"
  shows "v \<in> fst ` set (rv_cache r)"
proof -
  obtain e where e: "lruLoop (rv_refreshing r) None (iter (rv_cache r)) = Some (v, e)"
    using assms(2) by (auto simp: lruVictimLocked_def)
  have "set (iter (rv_cache r)) = set (rv_cache r)" using assms(1) unfolding iterates_def by (metis set_mset_mset)
  then show ?thesis using lruLoop_least[OF e] by force
qed

lemma retain_keeps:
  assumes "iterates iter" "cache_wf r" "retainEntryLocked iter k e version r = (b, r')" "version = versionLocked r k"
  shows "same_calls r r' \<and> cache_wf r' \<and> contents (rv_cache r') k \<in> {None, Some (unnumbered e)} \<and>
    (\<forall>k'. k' \<noteq> k \<longrightarrow> contents (rv_cache r') k' \<in> {None, contents (rv_cache r) k'})"
proof -
  let ?r1 = "r\<lparr>rv_cache := AList.delete k (rv_cache r)\<rparr>"
  have d: "distinct (map fst (rv_cache r))" "0 < rv_cacheCapacity r" "int (length (rv_cache r)) \<le> rv_cacheCapacity r"
    using assms(2) by (simp_all add: cache_wf_def)
  have none: "contents (rv_cache ?r1) k = None" by simp
  have put: ?thesis if t: "touch iter k e r2 = (e', r')" and r2: "r2 = ?r1\<lparr>rv_cache := c\<rparr>" "distinct (map fst c)"
    "int (length c) < rv_cacheCapacity r" "contents c k = None" "\<forall>k'. contents c k' \<in> {None, contents (rv_cache ?r1) k'}" for r2 c e'
    using touch_keeps[OF assms(1) _ t] r2 d same_calls_trans[of r r2 r'] by (auto simp: cache_wf_def same_calls_def)
  show ?thesis
  proof (cases "rv_cacheCapacity r \<le> int (length (rv_cache ?r1))")
    case False
    then have "r' = snd (touch iter k e ?r1)" using assms(3,4) d by (auto simp: retainEntryLocked_def Let_def)
    then show ?thesis using put[of ?r1 "fst (touch iter k e ?r1)" "rv_cache ?r1"] False d by (simp add: distinct_delete)
  next
    case True
    show ?thesis
    proof (cases "lruVictimLocked iter ?r1")
      case None
      then have "r' = ?r1" using assms(3,4) d True by (auto simp: retainEntryLocked_def Let_def)
      then show ?thesis using d delete_length[of k "rv_cache r"] by (auto simp: cache_wf_def distinct_delete)
    next
      case (Some v)
      let ?r2 = "?r1\<lparr>rv_cache := AList.delete v (rv_cache ?r1)\<rparr>"
      have "int (length (rv_cache ?r2)) < rv_cacheCapacity r"
        using delete_length_less[OF victim_cached[OF assms(1) Some]] delete_length[of k "rv_cache r"] d by simp
      moreover have "r' = snd (touch iter k e ?r2)" using assms(3,4) d True Some by (auto simp: retainEntryLocked_def Let_def)
      ultimately show ?thesis using put[of ?r2 "fst (touch iter k e ?r2)" "rv_cache ?r2"] d by (simp add: distinct_delete)
    qed
  qed
qed

section \<open>Invariant\<close>

abbreviation states_of :: "system \<Rightarrow> refreshState list" where
  "states_of s \<equiv> rv_states (sy_resolver s)"

definition in_range :: "system \<Rightarrow> bool" where
  "in_range s \<longleftrightarrow> sy_alls s < 2 ^ 64 \<and> (\<forall>k. sy_keys s k < 2 ^ 64)"

definition epochs_ok :: "system \<Rightarrow> bool" where
  "epochs_ok s \<longleftrightarrow> rv_invalidationEpoch (sy_resolver s) = of_nat (sy_alls s) \<and> (\<forall>k. rv_keyEpoch (sy_resolver s) k = of_nat (sy_keys s k)) \<and>
     (\<forall>k. sy_last s k < sy_clock s)"

text \<open>Refresh state \<open>p\<close> was made for its key at its counts.\<close>

definition state_ok :: "system \<Rightarrow> nat \<Rightarrow> bool" where
  "state_ok s p \<longleftrightarrow> rf_version (states_of s ! p) = \<lparr>cv_all = of_nat (fst (sy_counts s ! p)), cv_key = of_nat (snd (sy_counts s ! p))\<rparr> \<and>
     fst (sy_counts s ! p) \<le> sy_alls s \<and> snd (sy_counts s ! p) \<le> sy_keys s (sy_stateKey s ! p) \<and> sy_born s ! p < sy_clock s \<and>
     (rf_result (states_of s ! p) = None \<longrightarrow> sy_counts s ! p = (sy_alls s, sy_keys s (sy_stateKey s ! p)) \<longrightarrow>
        map_of (rv_refreshing (sy_resolver s)) (sy_stateKey s ! p) = Some p)"

definition states_ok :: "system \<Rightarrow> bool" where
  "states_ok s \<longleftrightarrow> length (sy_born s) = length (states_of s) \<and> length (sy_counts s) = length (states_of s) \<and>
     length (sy_stateKey s) = length (states_of s) \<and> length (sy_owner s) = length (states_of s) \<and> (\<forall>p < length (states_of s). state_ok s p)"

definition refreshing_ok :: "system \<Rightarrow> bool" where
  "refreshing_ok s \<longleftrightarrow> (\<forall>k p. map_of (rv_refreshing (sy_resolver s)) k = Some p \<longrightarrow> p < length (states_of s) \<and> sy_stateKey s ! p = k \<and>
     (sy_born s ! p \<le> sy_last s k \<longrightarrow> sy_counts s ! p \<noteq> (sy_alls s, sy_keys s k)))"

text \<open>Refresh state \<open>p\<close> found the resource of \<open>e\<close> for \<open>k\<close>.\<close>

definition found_by :: "system \<Rightarrow> nat \<Rightarrow> cacheKey \<Rightarrow> cacheEntry \<Rightarrow> bool" where
  "found_by s p k e \<longleftrightarrow> p < length (states_of s) \<and> sy_stateKey s ! p = k \<and>
     (\<exists>e'. rf_result (states_of s ! p) = Some (Inr e') \<and> ce_resource e' = ce_resource e \<and> ce_scope e' = ce_scope e)"

definition cache_ok :: "system \<Rightarrow> bool" where
  "cache_ok s \<longleftrightarrow> cache_wf (sy_resolver s) \<and> (\<forall>k e. contents (rv_cache (sy_resolver s)) k = Some e \<longrightarrow>
     found_by s (sy_origin s k) k e \<and> sy_last s k < sy_born s ! sy_origin s k)"

definition attends :: "system \<Rightarrow> nat \<Rightarrow> nat \<Rightarrow> bool" where
  "attends s i p \<longleftrightarrow> p < length (states_of s) \<and> sy_stateKey s ! p = ca_key (sy_calls s ! i) \<and> sy_floor s ! i < sy_born s ! p"

fun phase_ok :: "system \<Rightarrow> nat \<Rightarrow> phase \<Rightarrow> bool" where
  "phase_ok s i Looking \<longleftrightarrow> True"
| "phase_ok s i Refreshing \<longleftrightarrow> True"
| "phase_ok s i (Waiting p) \<longleftrightarrow> attends s i p"
| "phase_ok s i (Discovering p) \<longleftrightarrow> attends s i p \<and> sy_owner s ! p = i \<and> rf_result (states_of s ! p) = None"
| "phase_ok s i (Finishing p result answer) \<longleftrightarrow> attends s i p \<and> sy_owner s ! p = i \<and> rf_result (states_of s ! p) = None \<and>
     (case (result, answer) of (Inr e, Inr res) \<Rightarrow> res = resolution e (ca_sourceID (sy_calls s ! i)) | (Inl _, Inl _) \<Rightarrow> True | _ \<Rightarrow> False)"
| "phase_ok s i (Checking p res) \<longleftrightarrow> attends s i p \<and> sy_owner s ! p = i \<and>
     (\<exists>e. rf_result (states_of s ! p) = Some (Inr e) \<and> res = resolution e (ca_sourceID (sy_calls s ! i)))"
| "phase_ok s i (Returned (Inl e)) \<longleftrightarrow> True"
| "phase_ok s i (Returned (Inr res)) \<longleftrightarrow>
     (\<exists>p e. attends s i p \<and> rf_result (states_of s ! p) = Some (Inr e) \<and> res = resolution e (ca_sourceID (sy_calls s ! i)))"

definition calls_ok :: "system \<Rightarrow> bool" where
  "calls_ok s \<longleftrightarrow> length (sy_floor s) = length (sy_calls s) \<and>
     (\<forall>i < length (sy_calls s). phase_ok s i (ca_phase (sy_calls s ! i)) \<and> sy_floor s ! i \<le> sy_last s (ca_key (sy_calls s ! i)))"

definition resolve_inv :: "system \<Rightarrow> bool" where
  "resolve_inv s \<longleftrightarrow> epochs_ok s \<and> states_ok s \<and> refreshing_ok s \<and> cache_ok s \<and> calls_ok s"

lemmas inv_defs = resolve_inv_def epochs_ok_def states_ok_def state_ok_def refreshing_ok_def cache_ok_def calls_ok_def found_by_def

lemma initial_inv: "resolve_inv (initial_system options)"
proof -
  have "rv_cache r = [] \<and> rv_refreshing r = [] \<and> rv_states r = [] \<and> rv_invalidationEpoch r = 0 \<and> rv_keyEpoch r = (\<lambda>_. 0) \<and> 0 < rv_cacheCapacity r
    \<Longrightarrow> rv_cache (fold apply_option os r) = [] \<and> rv_refreshing (fold apply_option os r) = [] \<and> rv_states (fold apply_option os r) = [] \<and>
      rv_invalidationEpoch (fold apply_option os r) = 0 \<and> rv_keyEpoch (fold apply_option os r) = (\<lambda>_. 0) \<and> 0 < rv_cacheCapacity (fold apply_option os r)" for os r
  proof (induction os arbitrary: r)
    case (Cons o' os)
    then show ?case by (cases o') simp_all
  qed simp
  then show ?thesis by (simp add: initial_system_def NewResolver_def DefaultCacheCapacity_def inv_defs cache_wf_def contents_def less_imp_le)
qed

text \<open>The phases depend on the histories, not on each other.\<close>

lemma phase_ok_frame:
  assumes "phase_ok s i ph" "ca_key (sy_calls s' ! i) = ca_key (sy_calls s ! i)" "ca_sourceID (sy_calls s' ! i) = ca_sourceID (sy_calls s ! i)"
    and "sy_floor s' ! i = sy_floor s ! i" "length (states_of s) \<le> length (states_of s')"
    and "\<And>p. p < length (states_of s) \<Longrightarrow> sy_stateKey s' ! p = sy_stateKey s ! p \<and> sy_born s' ! p = sy_born s ! p \<and> sy_owner s' ! p = sy_owner s ! p \<and>
          (rf_result (states_of s' ! p) = rf_result (states_of s ! p) \<or> rf_result (states_of s ! p) = None \<and> sy_owner s ! p \<noteq> i)"
  shows "phase_ok s' i ph"
proof -
  have a: "attends s' i p" if "attends s i p" for p using that assms by (auto simp: attends_def)
  have lt: "p < length (states_of s)" if "attends s i p" for p using that by (simp add: attends_def)
  have r: "rf_result (states_of s' ! p) = Some x" if "attends s i p" "rf_result (states_of s ! p) = Some x" for p x
    using assms(6)[OF lt[OF that(1)]] that(2) by auto
  have o: "sy_owner s' ! p = i \<and> rf_result (states_of s' ! p) = rf_result (states_of s ! p)" if "attends s i p" "sy_owner s ! p = i" for p
    using assms(6)[OF lt[OF that(1)]] that(2) by auto
  show ?thesis
  proof (cases ph)
    case (Returned x)
    then show ?thesis using assms(1,3) a r by (cases x) fastforce+
  next
    case (Waiting p)
    then show ?thesis using assms(1) a[of p] by simp
  next
    case (Discovering p)
    then show ?thesis using assms(1) a[of p] o[of p] by simp
  next
    case (Finishing p result answer)
    then show ?thesis using assms(1,3) a[of p] o[of p] by (simp split: sum.splits)
  next
    case (Checking p res)
    then show ?thesis using assms(1,3) a[of p] o[of p] by simp
  qed simp_all
qed

lemma enter_inv:
  assumes "resolve_inv s" "i < length (sy_calls s)" "phase_ok s i ph"
  shows "resolve_inv (enter i ph s)"
proof -
  let ?s' = "enter i ph s"
  have nth: "ca_key (sy_calls ?s' ! j) = ca_key (sy_calls s ! j) \<and> ca_sourceID (sy_calls ?s' ! j) = ca_sourceID (sy_calls s ! j)" for j
    using assms(2) by (cases "j = i") (simp_all add: enter_def)
  have "phase_ok ?s' j (ca_phase (sy_calls ?s' ! j))" if "j < length (sy_calls s)" for j
  proof -
    have "phase_ok s j (ca_phase (sy_calls ?s' ! j))"
      using assms that by (cases "j = i") (simp_all add: enter_def resolve_inv_def calls_ok_def)
    then show ?thesis by (rule phase_ok_frame) (use nth[of j] in \<open>simp_all add: enter_def\<close>)
  qed
  then show ?thesis using assms(1) nth unfolding inv_defs by (simp add: enter_def)
qed

text \<open>A change of the cache alone that adds no entry.\<close>

lemma shrink_inv:
  assumes "resolve_inv s" "same_calls (sy_resolver s) r'" "cache_wf r'"
    and "\<And>k. contents (rv_cache r') k \<in> {None, contents (rv_cache (sy_resolver s)) k}"
  shows "resolve_inv (s\<lparr>sy_resolver := r'\<rparr>)"
proof -
  let ?s' = "s\<lparr>sy_resolver := r'\<rparr>"
  have st: "states_of ?s' = states_of s" using assms(2) by (simp add: same_calls_def)
  have ph: "phase_ok ?s' i ph" if "phase_ok s i ph" for i ph by (rule phase_ok_frame[OF that]) (simp_all add: st[simplified])
  have c: "contents (rv_cache (sy_resolver s)) k = Some e" if "contents (rv_cache r') k = Some e" for k e using assms(4)[of k] that by auto
  show ?thesis using assms(1-3) c ph unfolding inv_defs by (auto simp: same_calls_def)
qed

lemma fresh_keeps:
  assumes "iterates iter" "cache_wf r" "freshCacheEntry iter now k r = (x, r')"
  shows "same_calls r r' \<and> cache_wf r' \<and> (\<forall>k. contents (rv_cache r') k \<in> {None, contents (rv_cache r) k}) \<and>
    (case x of None \<Rightarrow> True | Some e \<Rightarrow> contents (rv_cache r) k = Some (unnumbered e))"
proof (cases "map_of (rv_cache r) k")
  case None
  then show ?thesis using assms(2,3) by (auto simp: freshCacheEntry_def)
next
  case (Some e)
  have d: "distinct (map fst (rv_cache r))" using assms(2) by (simp add: cache_wf_def)
  consider "ce_version e \<noteq> versionLocked r k" | "ce_version e = versionLocked r k" "\<not> now < ce_expiresAt e"
    | "ce_version e = versionLocked r k" "now < ce_expiresAt e" by blast
  then show ?thesis
  proof cases
    case 1
    then show ?thesis using assms Some delete_length[of k "rv_cache r"] by (auto simp: freshCacheEntry_def cache_wf_def distinct_delete)
  next
    case 2
    then show ?thesis using assms Some by (auto simp: freshCacheEntry_def)
  next
    case 3
    obtain e' where e': "touch iter k e r = (e', r')" "x = Some e'" using 3 assms(3) Some by (auto simp: freshCacheEntry_def split: prod.splits)
    have c: "contents (rv_cache r) k = Some (unnumbered e)" using Some by (simp add: contents_def)
    show ?thesis using touch_keeps[OF assms(1) d e'(1)] c e'(2) assms(2) by (auto simp: cache_wf_def same_calls_def)
  qed
qed

text \<open>A cached entry was found after the last invalidation of its key.\<close>

lemma cached_answer:
  assumes "resolve_inv s" "i < length (sy_calls s)" "contents (rv_cache (sy_resolver s)) (ca_key (sy_calls s ! i)) = Some (unnumbered e)"
  shows "phase_ok s i (Returned (Inr (resolution e (ca_sourceID (sy_calls s ! i)))))"
proof -
  let ?k = "ca_key (sy_calls s ! i)" and ?p = "sy_origin s (ca_key (sy_calls s ! i))"
  have "found_by s ?p ?k (unnumbered e)" "sy_last s ?k < sy_born s ! ?p" "sy_floor s ! i \<le> sy_last s ?k"
    using assms by (auto simp: resolve_inv_def cache_ok_def calls_ok_def)
  then show ?thesis by (auto simp: found_by_def attends_def resolution_def)
qed

lemma step_look_inv:
  assumes "resolve_inv s" "i < length (sy_calls s)" "iterates iter"
  shows "resolve_inv (step_look iter i s)"
proof -
  let ?k = "ca_key (sy_calls s ! i)"
  obtain x r' where x: "freshCacheEntry iter (sy_now s) ?k (sy_resolver s) = (x, r')" by (cases "freshCacheEntry iter (sy_now s) ?k (sy_resolver s)")
  have wf: "cache_wf (sy_resolver s)" using assms(1) by (simp add: resolve_inv_def cache_ok_def)
  note keep = fresh_keeps[OF assms(3) wf x]
  have inv: "resolve_inv (s\<lparr>sy_resolver := r'\<rparr>)" using shrink_inv[OF assms(1)] keep by blast
  have same: "phase_ok (s\<lparr>sy_resolver := r'\<rparr>) i ph" if "phase_ok s i ph" for ph
    by (rule phase_ok_frame[OF that]) (use keep in \<open>simp_all add: same_calls_def\<close>)
  show ?thesis
  proof (cases x)
    case None
    then show ?thesis using x inv assms(2) by (simp add: step_look_def enter_inv)
  next
    case (Some e)
    then have "phase_ok s i (Returned (Inr (resolution e (ca_sourceID (sy_calls s ! i)))))" using cached_answer[OF assms(1,2)] keep by simp
    from same[OF this] show ?thesis using x Some inv assms(2) by (simp add: step_look_def enter_inv)
  qed
qed

text \<open>Versions that agree as words agree as counts while no epoch has wrapped.\<close>

lemma of_nat_64: "a < 2 ^ 64 \<Longrightarrow> b < 2 ^ 64 \<Longrightarrow> (of_nat a :: 64 word) = of_nat b \<longleftrightarrow> a = b"
  by (simp add: word_of_nat_eq_iff take_bit_nat_eq_self)

lemma version_counts:
  assumes "resolve_inv s" "in_range s" "p < length (states_of s)"
  shows "rf_version (states_of s ! p) = versionLocked (sy_resolver s) (sy_stateKey s ! p) \<longleftrightarrow>
    sy_counts s ! p = (sy_alls s, sy_keys s (sy_stateKey s ! p))"
proof -
  have st: "state_ok s p" and ep: "epochs_ok s" using assms by (auto simp: resolve_inv_def states_ok_def)
  have "fst (sy_counts s ! p) < 2 ^ 64" "snd (sy_counts s ! p) < 2 ^ 64" "sy_alls s < 2 ^ 64" "sy_keys s (sy_stateKey s ! p) < 2 ^ 64"
    using st assms(2) by (auto simp: state_ok_def in_range_def intro: le_less_trans)
  then show ?thesis using st ep
    by (cases "sy_counts s ! p") (auto simp: state_ok_def epochs_ok_def versionLocked_def of_nat_64)
qed

lemma start_inv:
  assumes "resolve_inv s" "in_range s" "i < length (sy_calls s)" "k = ca_key (sy_calls s ! i)"
    and free: "\<And>p. map_of (rv_refreshing (sy_resolver s)) k = Some p \<Longrightarrow> rf_version (states_of s ! p) \<noteq> versionLocked (sy_resolver s) k"
  shows "resolve_inv (enter i (Discovering (length (states_of s))) (start_history i k (snd (startRefresh k (sy_resolver s))) s))"
proof -
  let ?p = "length (states_of s)" and ?s' = "start_history i k (snd (startRefresh k (sy_resolver s))) s"
  note ok = assms(1)[unfolded resolve_inv_def]
  have len: "length (sy_born s) = ?p" "length (sy_counts s) = ?p" "length (sy_stateKey s) = ?p" "length (sy_owner s) = ?p"
    using ok by (simp_all add: states_ok_def)
  have st: "states_of ?s' = states_of s @ [\<lparr>rf_result = None, rf_version = versionLocked (sy_resolver s) k\<rparr>]"
    by (simp add: start_history_def startRefresh_def)
  have rf: "map_of (rv_refreshing (sy_resolver ?s')) = (map_of (rv_refreshing (sy_resolver s)))(k \<mapsto> ?p)"
    by (simp add: start_history_def startRefresh_def update_conv')
  have same: "rv_cache (sy_resolver ?s') = rv_cache (sy_resolver s)" "rv_invalidationEpoch (sy_resolver ?s') = rv_invalidationEpoch (sy_resolver s)"
    "rv_keyEpoch (sy_resolver ?s') = rv_keyEpoch (sy_resolver s)" "rv_cacheCapacity (sy_resolver ?s') = rv_cacheCapacity (sy_resolver s)"
    "sy_calls ?s' = sy_calls s" "sy_alls ?s' = sy_alls s" "sy_keys ?s' = sy_keys s" "sy_last ?s' = sy_last s" "sy_floor ?s' = sy_floor s"
    "sy_origin ?s' = sy_origin s" "sy_clock ?s' = Suc (sy_clock s)"
    by (simp_all add: start_history_def startRefresh_def)
  have old: "sy_stateKey ?s' ! p = sy_stateKey s ! p \<and> sy_born ?s' ! p = sy_born s ! p \<and> sy_owner ?s' ! p = sy_owner s ! p \<and>
      sy_counts ?s' ! p = sy_counts s ! p \<and> states_of ?s' ! p = states_of s ! p" if "p < ?p" for p
    using that len by (simp add: start_history_def startRefresh_def nth_append)
  have new: "sy_stateKey ?s' ! ?p = k" "sy_born ?s' ! ?p = sy_clock s" "sy_owner ?s' ! ?p = i" "sy_counts ?s' ! ?p = (sy_alls s, sy_keys s k)"
    using len by (simp_all add: start_history_def nth_append)
  have e: "epochs_ok ?s'" using ok by (auto simp: epochs_ok_def same less_SucI)
  have s: "states_ok ?s'"
  proof -
    have "state_ok ?s' p" if p: "p < Suc ?p" for p
    proof (cases "p = ?p")
      case True
      then show ?thesis using e by (simp add: state_ok_def new st same epochs_ok_def versionLocked_def rf)
    next
      case False
      then have p: "p < ?p" using p by simp
      have o: "state_ok s p" using ok p by (simp add: states_ok_def)
      have "sy_stateKey s ! p \<noteq> k" if "rf_result (states_of s ! p) = None" "sy_counts s ! p = (sy_alls s, sy_keys s (sy_stateKey s ! p))"
        using o that free[of p] version_counts[OF assms(1,2) p] by (auto simp: state_ok_def)
      then show ?thesis using o old[OF p] by (auto simp: state_ok_def same rf)
    qed
    then show ?thesis using len by (simp add: states_ok_def st) (simp add: start_history_def)
  qed
  have lk: "sy_last s k < sy_clock s" using ok by (simp add: epochs_ok_def)
  have r: "refreshing_ok ?s'"
  proof -
    have "p < Suc ?p \<and> sy_stateKey ?s' ! p = k' \<and> (sy_born ?s' ! p \<le> sy_last s k' \<longrightarrow> sy_counts ?s' ! p \<noteq> (sy_alls s, sy_keys s k'))"
      if "map_of (rv_refreshing (sy_resolver ?s')) k' = Some p" for k' p
    proof (cases "k' = k")
      case True
      then show ?thesis using that new lk by (simp add: rf)
    next
      case False
      then have "p < ?p" "sy_stateKey s ! p = k'" "sy_born s ! p \<le> sy_last s k' \<longrightarrow> sy_counts s ! p \<noteq> (sy_alls s, sy_keys s k')"
        using that ok by (simp_all add: rf refreshing_ok_def)
      then show ?thesis using old[of p] by simp
    qed
    then show ?thesis by (simp add: refreshing_ok_def same st)
  qed
  have c: "cache_ok ?s'"
    using ok old by (auto simp: cache_ok_def cache_wf_def found_by_def same st less_Suc_eq)
  have "phase_ok ?s' j ph" if "phase_ok s j ph" for j ph
    by (rule phase_ok_frame[OF that]) (use old in \<open>simp_all add: same st\<close>)
  then have calls: "calls_ok ?s'" using ok by (auto simp: calls_ok_def same)
  have "sy_floor s ! i \<le> sy_last s k" using ok assms(3,4) by (simp add: calls_ok_def)
  then have "phase_ok ?s' i (Discovering ?p)" using new lk by (simp add: attends_def same st flip: assms(4))
  then show ?thesis using e s r c calls assms(3) by (intro enter_inv) (simp_all add: resolve_inv_def same)
qed

lemma step_begin_inv:
  assumes "resolve_inv s" "in_range s" "i < length (sy_calls s)" "iterates iter"
  shows "resolve_inv (step_begin iter i s)"
proof -
  let ?k = "ca_key (sy_calls s ! i)" and ?r = "sy_resolver s"
  have join: "resolve_inv (case joinRefresh ?k r of
       (Cached e, r) \<Rightarrow> enter i (Returned (Inr (resolution e (ca_sourceID (sy_calls s ! i))))) (s\<lparr>sy_resolver := r\<rparr>)
     | (Joined p, r) \<Rightarrow> enter i (Waiting p) (s\<lparr>sy_resolver := r\<rparr>)
     | (Started p, r) \<Rightarrow> enter i (Discovering p) (start_history i ?k r s))"
    if inv: "resolve_inv (s\<lparr>sy_resolver := r\<rparr>)" for r
  proof (cases "\<exists>p. map_of (rv_refreshing r) ?k = Some p \<and> rf_version (rv_states r ! p) = versionLocked r ?k")
    case True
    then obtain p where p: "map_of (rv_refreshing r) ?k = Some p" "rf_version (rv_states r ! p) = versionLocked r ?k" by blast
    let ?s = "s\<lparr>sy_resolver := r\<rparr>"
    have k: "p < length (states_of ?s)" "sy_stateKey ?s ! p = ?k" "sy_born ?s ! p \<le> sy_last ?s ?k \<longrightarrow> sy_counts ?s ! p \<noteq> (sy_alls ?s, sy_keys ?s ?k)"
      using inv p(1) by (auto simp: resolve_inv_def refreshing_ok_def)
    have "sy_counts ?s ! p = (sy_alls ?s, sy_keys ?s ?k)" using version_counts[OF inv _ k(1)] k(2) p(2) assms(2) by (simp add: in_range_def)
    moreover have "sy_floor s ! i \<le> sy_last s ?k" using assms(1,3) by (simp add: resolve_inv_def calls_ok_def)
    ultimately have "phase_ok ?s i (Waiting p)" using k by (auto simp: attends_def)
    then show ?thesis using p inv assms(3) by (simp add: joinRefresh_def enter_inv)
  next
    case False
    let ?s = "s\<lparr>sy_resolver := r\<rparr>"
    have j: "joinRefresh ?k r = startRefresh ?k r" using False by (auto simp: joinRefresh_def split: option.splits)
    have "resolve_inv (enter i (Discovering (length (states_of ?s))) (start_history i ?k (snd (startRefresh ?k (sy_resolver ?s))) ?s))"
      by (rule start_inv[OF inv]) (use False assms(2,3) in \<open>auto simp: in_range_def\<close>)
    then show ?thesis unfolding j by (simp add: startRefresh_def start_history_def)
  qed
  have wf: "cache_wf ?r" using assms(1) by (simp add: resolve_inv_def cache_ok_def)
  have body: "step_begin iter i s = (case beginRefresh iter (sy_now s) ?k ?r of
       (Cached e, r) \<Rightarrow> enter i (Returned (Inr (resolution e (ca_sourceID (sy_calls s ! i))))) (s\<lparr>sy_resolver := r\<rparr>)
     | (Joined p, r) \<Rightarrow> enter i (Waiting p) (s\<lparr>sy_resolver := r\<rparr>)
     | (Started p, r) \<Rightarrow> enter i (Discovering p) (start_history i ?k r s))"
    by (simp add: step_begin_def Let_def)
  have id: "resolve_inv (s\<lparr>sy_resolver := ?r\<rparr>)" using assms(1) by simp
  show ?thesis
  proof (cases "map_of (rv_cache ?r) ?k")
    case None
    then show ?thesis using join[OF id] by (simp add: body beginRefresh_def)
  next
    case (Some e)
    obtain x r' where f: "freshCacheEntry iter (sy_now s) ?k ?r = (x, r')" by (cases "freshCacheEntry iter (sy_now s) ?k ?r")
    note keep = fresh_keeps[OF assms(4) wf f]
    have inv: "resolve_inv (s\<lparr>sy_resolver := r'\<rparr>)" using shrink_inv[OF assms(1)] keep by blast
    show ?thesis
    proof (cases x)
      case None
      then have "beginRefresh iter (sy_now s) ?k ?r = joinRefresh ?k r'"
        using Some f by (auto simp: beginRefresh_def freshCacheEntry_def split: if_splits prod.splits)
      then show ?thesis using join[OF inv] by (simp add: body)
    next
      case (Some e')
      have b: "beginRefresh iter (sy_now s) ?k ?r = (Cached e', r')"
        using \<open>map_of (rv_cache ?r) ?k = Some e\<close> Some f by (auto simp: beginRefresh_def freshCacheEntry_def split: if_splits prod.splits)
      have "phase_ok s i (Returned (Inr (resolution e' (ca_sourceID (sy_calls s ! i)))))" using cached_answer[OF assms(1,3)] keep Some by simp
      then have "phase_ok (s\<lparr>sy_resolver := r'\<rparr>) i (Returned (Inr (resolution e' (ca_sourceID (sy_calls s ! i)))))"
        by (rule phase_ok_frame) (use keep in \<open>simp_all add: same_calls_def\<close>)
      then show ?thesis using inv assms(3) b by (simp add: body enter_inv)
    qed
  qed
qed

text \<open>What finishing a refresh does: it stores the result, ends the registration of the key if it is its own, and may cache the
  result only if it is the registered refresh of the current version.\<close>

definition retains :: "Resolver \<Rightarrow> cacheKey \<Rightarrow> nat \<Rightarrow> (ResolutionError, cacheEntry) res \<Rightarrow> bool" where
  "retains r k p result \<longleftrightarrow> map_of (rv_refreshing r) k = Some p \<and> rf_version (rv_states r ! p) = versionLocked r k \<and> \<not> isl result"

definition finished :: "Resolver \<Rightarrow> cacheKey \<Rightarrow> nat \<Rightarrow> (ResolutionError, cacheEntry) res \<Rightarrow> Resolver \<Rightarrow> bool" where
  "finished r k p result r' \<longleftrightarrow> rv_states r' = (rv_states r)[p := (rv_states r ! p)\<lparr>rf_result := Some result\<rparr>] \<and>
     map_of (rv_refreshing r') = (if map_of (rv_refreshing r) k = Some p then (map_of (rv_refreshing r))(k := None) else map_of (rv_refreshing r)) \<and>
     rv_invalidationEpoch r' = rv_invalidationEpoch r \<and> rv_keyEpoch r' = rv_keyEpoch r \<and> cache_wf r' \<and>
     (\<forall>k' x. contents (rv_cache r') k' = Some x \<longrightarrow>
        (if k' = k \<and> retains r k p result then \<exists>e. result = Inr e \<and> ce_resource x = ce_resource e \<and> ce_scope x = ce_scope e
         else contents (rv_cache r) k' = Some x))"

lemma finished_contents:
  "finished r k p result r' \<Longrightarrow> contents (rv_cache r') k' = Some x \<Longrightarrow>
     if k' = k \<and> retains r k p result then \<exists>e. result = Inr e \<and> ce_resource x = ce_resource e \<and> ce_scope x = ce_scope e
     else contents (rv_cache r) k' = Some x"
  unfolding finished_def by blast

lemma finish_keeps:
  assumes "iterates iter" "cache_wf r"
  shows "finished r k p result (finishRefresh iter k p result r)"
proof -
  let ?r1 = "r\<lparr>rv_states := (rv_states r)[p := (rv_states r ! p)\<lparr>rf_result := Some result\<rparr>]\<rparr>"
  let ?v = "rf_version (rv_states r ! p)" and ?r' = "finishRefresh iter k p result r"
  have wf: "cache_wf ?r1" using assms(2) by (simp add: cache_wf_def)
  have v1: "versionLocked ?r1 = versionLocked r" by (simp add: versionLocked_def fun_eq_iff)
  consider "map_of (rv_refreshing r) k \<noteq> Some p"
    | "map_of (rv_refreshing r) k = Some p" "\<not> retains r k p result"
    | e where "map_of (rv_refreshing r) k = Some p" "retains r k p result" "result = Inr e" "?v = versionLocked r k"
    by (cases result) (auto simp: retains_def)
  then show ?thesis
  proof cases
    case 1
    then have "?r' = ?r1" by (simp add: finishRefresh_def)
    then show ?thesis using 1 wf by (simp add: finished_def retains_def)
  next
    case 2
    then have "?r' = ?r1\<lparr>rv_refreshing := AList.delete k (rv_refreshing ?r1)\<rparr>"
      using v1 by (auto simp: retains_def finishRefresh_def Let_def split: sum.splits)
    then show ?thesis using 2 wf by (simp add: finished_def delete_conv' cache_wf_def)
  next
    case 3
    obtain b r2 where r2: "retainEntryLocked iter k (e\<lparr>ce_version := ?v\<rparr>) ?v ?r1 = (b, r2)"
      by (cases "retainEntryLocked iter k (e\<lparr>ce_version := ?v\<rparr>) ?v ?r1")
    have keep: "same_calls ?r1 r2" "cache_wf r2" "contents (rv_cache r2) k \<in> {None, Some (unnumbered (e\<lparr>ce_version := ?v\<rparr>))}"
      "\<And>k'. k' \<noteq> k \<Longrightarrow> contents (rv_cache r2) k' \<in> {None, contents (rv_cache r) k'}"
      using retain_keeps[OF assms(1) wf r2] v1 3 by simp_all
    have r': "?r' = r2\<lparr>rv_refreshing := AList.delete k (rv_refreshing r2)\<rparr>"
      using 3 r2 v1 by (simp add: finishRefresh_def Let_def)
    have new: "ce_resource x = ce_resource e \<and> ce_scope x = ce_scope e" if "contents (rv_cache r2) k = Some x" for x
      using that keep(3) by auto
    have old: "contents (rv_cache r) k' = Some x" if "contents (rv_cache r2) k' = Some x" "k' \<noteq> k" for k' x
      using that keep(4)[of k'] by auto
    show ?thesis unfolding r' finished_def
    proof (intro conjI allI impI)
      fix k' x
      assume "contents (rv_cache (r2\<lparr>rv_refreshing := AList.delete k (rv_refreshing r2)\<rparr>)) k' = Some x"
      then have x: "contents (rv_cache r2) k' = Some x" by simp
      show "if k' = k \<and> retains r k p result then \<exists>e. result = Inr e \<and> ce_resource x = ce_resource e \<and> ce_scope x = ce_scope e
         else contents (rv_cache r) k' = Some x"
        using new[of x] old[of k' x] x 3(2,3) by (cases "k' = k") simp_all
    qed (use keep(1,2) 3 in \<open>simp_all add: delete_conv' cache_wf_def same_calls_def\<close>)
  qed
qed

lemma step_finish_inv:
  assumes "resolve_inv s" "in_range s" "i < length (sy_calls s)" "iterates iter" "phase_ok s i (Finishing p result answer)"
  shows "resolve_inv (step_finish iter i p result answer s)"
proof -
  let ?k = "ca_key (sy_calls s ! i)" and ?r = "sy_resolver s"
  let ?r' = "finishRefresh iter ?k p result ?r"
  let ?s' = "s\<lparr>sy_resolver := ?r', sy_origin := (if retains ?r ?k p result then (sy_origin s)(?k := p) else sy_origin s)\<rparr>"
  note ok = assms(1)[unfolded resolve_inv_def]
  have p: "p < length (states_of s)" "sy_stateKey s ! p = ?k" "sy_floor s ! i < sy_born s ! p" "sy_owner s ! p = i" "rf_result (states_of s ! p) = None"
    using assms(5) by (simp_all add: attends_def)
  have fin: "finished ?r ?k p result ?r'" using finish_keeps[OF assms(4)] ok by (simp add: cache_ok_def)
  have st: "rv_states ?r' = (states_of s)[p := (states_of s ! p)\<lparr>rf_result := Some result\<rparr>]" using fin by (simp add: finished_def)
  have sth: "rf_version (rv_states ?r' ! q) = rf_version (states_of s ! q) \<and>
      rf_result (rv_states ?r' ! q) = (if q = p then Some result else rf_result (states_of s ! q))" for q
    using p(1) by (simp add: st nth_list_update)
  have rf: "map_of (rv_refreshing ?r') = (if map_of (rv_refreshing ?r) ?k = Some p then (map_of (rv_refreshing ?r))(?k := None) else map_of (rv_refreshing ?r))"
    and ep: "rv_invalidationEpoch ?r' = rv_invalidationEpoch ?r" "rv_keyEpoch ?r' = rv_keyEpoch ?r" "cache_wf ?r'"
    using fin by (simp_all add: finished_def)
  have e: "epochs_ok ?s'" using ok ep by (simp add: epochs_ok_def)
  have "state_ok ?s' q" if "q < length (states_of s)" for q
  proof -
    have o: "state_ok s q" using ok that by (simp add: states_ok_def)
    have "q = p" if "sy_stateKey s ! q = ?k" "map_of (rv_refreshing ?r) ?k = Some p" "map_of (rv_refreshing ?r) (sy_stateKey s ! q) = Some q" using that by simp
    then show ?thesis using o sth[of q] p(5) by (auto simp: state_ok_def rf)
  qed
  then have s: "states_ok ?s'" using ok by (simp add: states_ok_def st)
  have r: "refreshing_ok ?s'" using ok by (auto simp: refreshing_ok_def rf st split: if_splits)
  have c: "cache_ok ?s'"
  proof -
    have "found_by ?s' (sy_origin ?s' k) k x \<and> sy_last s k < sy_born s ! sy_origin ?s' k" if x: "contents (rv_cache ?r') k = Some x" for k x
    proof (cases "k = ?k \<and> retains ?r ?k p result")
      case True
      then obtain e where e: "result = Inr e" "ce_resource x = ce_resource e" "ce_scope x = ce_scope e" using finished_contents[OF fin x] by auto
      have "sy_counts s ! p = (sy_alls s, sy_keys s ?k)" using version_counts[OF assms(1,2) p(1)] p(2) True by (simp add: retains_def)
      then have "sy_last s ?k < sy_born s ! p" using ok True by (force simp: refreshing_ok_def retains_def)
      then show ?thesis using True e p sth[of p] st by (simp add: found_by_def)
    next
      case False
      then have old: "contents (rv_cache ?r) k = Some x" using finished_contents[OF fin x] by (simp split: if_splits)
      have o: "sy_origin ?s' k = sy_origin s k" using False by auto
      have "found_by s (sy_origin s k) k x" "sy_last s k < sy_born s ! sy_origin s k" using ok old by (auto simp: cache_ok_def)
      then show ?thesis unfolding o using sth[of "sy_origin s k"] p(5) by (auto simp: found_by_def st)
    qed
    then show ?thesis using ep(3) by (simp add: cache_ok_def)
  qed
  have frame: "phase_ok ?s' j ph" if "phase_ok s j ph" "j \<noteq> i" for j ph
    by (rule phase_ok_frame[OF that(1)]) (use sth p that(2) in \<open>auto simp: st\<close>)
  have ph: "phase_ok ?s' i (case answer of Inl e \<Rightarrow> Returned (Inl e) | Inr res \<Rightarrow> Checking p res)"
    using assms(5) p sth[of p] by (auto simp: attends_def st split: sum.splits)
  let ?t = "enter i Refreshing s"
  have t: "resolve_inv ?t" using enter_inv[OF assms(1,3)] by simp
  have calls: "calls_ok (enter i (case answer of Inl e \<Rightarrow> Returned (Inl e) | Inr res \<Rightarrow> Checking p res) ?s')"
  proof -
    let ?ph = "case answer of Inl e \<Rightarrow> Returned (Inl e) | Inr res \<Rightarrow> Checking p res" 
    let ?u = "enter i ?ph ?s'"
    have "phase_ok ?u j (ca_phase (sy_calls ?u ! j))" if "j < length (sy_calls s)" for j
    proof -
      have "phase_ok ?s' j (ca_phase (sy_calls ?u ! j))"
        using ph frame[of j] ok that assms(3) by (cases "j = i") (simp_all add: enter_def calls_ok_def)
      then show ?thesis by (rule phase_ok_frame) (use that assms(3) in \<open>cases "j = i"; simp add: enter_def\<close>)+
    qed
    moreover have "sy_floor s ! j \<le> sy_last s (ca_key (sy_calls ?u ! j))" if "j < length (sy_calls s)" for j
      using ok that assms(3) by (cases "j = i") (simp_all add: enter_def calls_ok_def)
    ultimately show ?thesis using ok by (simp add: calls_ok_def enter_def)
  qed
  have "step_finish iter i p result answer s = enter i (case answer of Inl e \<Rightarrow> Returned (Inl e) | Inr res \<Rightarrow> Checking p res) ?s'"
    by (simp add: step_finish_def retains_def Let_def)
  moreover have "epochs_ok (enter i ph ?s')" "states_ok (enter i ph ?s')" "refreshing_ok (enter i ph ?s')" "cache_ok (enter i ph ?s')" for ph
    using e s r c unfolding enter_def inv_defs by simp_all
  ultimately show ?thesis using calls by (simp add: resolve_inv_def)
qed

lemma ensureCache_wf: "cache_wf r \<Longrightarrow> same_calls r (ensureCache r) \<and> cache_wf (ensureCache r) \<and> rv_cache (ensureCache r) = rv_cache r"
  by (simp add: cache_wf_def ensureCache_def same_calls_def)

definition invalidated :: "SchemaLib \<Rightarrow> invalidation \<Rightarrow> Resolver \<Rightarrow> Resolver \<Rightarrow> bool" where
  "invalidated lib v r r' \<longleftrightarrow> rv_states r' = rv_states r \<and> rv_refreshing r' = rv_refreshing r \<and> cache_wf r' \<and>
     (\<forall>k. contents (rv_cache r') k = (if invalidates lib v k then None else contents (rv_cache r) k)) \<and>
     rv_invalidationEpoch r' = (if v = OfAll then rv_invalidationEpoch r + 1 else rv_invalidationEpoch r) \<and>
     (\<forall>k. rv_keyEpoch r' k = rv_keyEpoch r k \<or> rv_keyEpoch r' k = rv_keyEpoch r k + 1) \<and>
     (\<forall>k. invalidates lib v k \<and> map_of (rv_refreshing r) k \<noteq> None \<longrightarrow> v = OfAll \<or> rv_keyEpoch r' k = rv_keyEpoch r k + 1)"

lemma contents_filter: "contents (filter (\<lambda>(k, _). P k) cache) k = (if P k then contents cache k else None)"
  by (induction cache) (auto simp: contents_def)

lemma invalidate_keeps:
  assumes "cache_wf r"
  shows "invalidated lib v r (invalidate lib v r)"
proof -
  let ?r = "ensureCache r"
  note en = ensureCache_wf[OF assms]
  have wf: "cache_wf (?r\<lparr>rv_cache := c, rv_keyEpoch := e, rv_invalidationEpoch := a\<rparr>)" if "distinct (map fst c)" "length c \<le> length (rv_cache r)" for c e a
    using that en by (auto simp: cache_wf_def)
  have d: "distinct (map fst (rv_cache r))" using assms by (simp add: cache_wf_def)
  show ?thesis
  proof (cases v)
    case (OfGroupVersion gv)
    show ?thesis
    proof (cases "canonicalGroupVersion lib gv")
      case None
      then show ?thesis using OfGroupVersion assms by (simp add: invalidated_def InvalidateGroupVersion_def)
    next
      case (Some g)
      let ?c = "filter (\<lambda>(k, _). ck_groupVersion k \<noteq> g) (rv_cache r)"
      have "cache_wf (?r\<lparr>rv_cache := ?c, rv_keyEpoch := e\<rparr>)" for e
        using wf[where c = ?c and e = e and a = "rv_invalidationEpoch ?r"] d by (simp add: distinct_map_filter)
      then show ?thesis using OfGroupVersion Some en
        by (auto simp: invalidated_def InvalidateGroupVersion_def Let_def contents_filter same_calls_def map_of_eq_None_iff)
    qed
  next
    case (OfResource gv kind)
    show ?thesis
    proof (cases "canonicalGroupVersion lib gv = None \<or> kind = []")
      case True
      then show ?thesis using OfResource assms by (auto simp: invalidated_def InvalidateResource_def split: option.splits)
    next
      case False
      then obtain g where g: "canonicalGroupVersion lib gv = Some g" "kind \<noteq> []" by auto
      let ?k = "\<lparr>ck_groupVersion = g, ck_kind = kind\<rparr>"
      have "cache_wf (?r\<lparr>rv_cache := AList.delete ?k (rv_cache r), rv_keyEpoch := e\<rparr>)" for e
        using wf[where c = "AList.delete ?k (rv_cache r)" and e = e and a = "rv_invalidationEpoch ?r"] d delete_length[of ?k "rv_cache r"] by (simp add: distinct_delete)
      moreover have "invalidates lib v k \<longleftrightarrow> k = ?k" for k using OfResource g by (cases k) auto
      ultimately show ?thesis using OfResource g en
        by (auto simp: invalidated_def InvalidateResource_def Let_def same_calls_def)
    qed
  next
    case OfAll
    have "cache_wf (?r\<lparr>rv_cache := [], rv_invalidationEpoch := a\<rparr>)" for a using wf[where c = "[]" and e = "rv_keyEpoch ?r" and a = a] by simp
    then show ?thesis using OfAll en by (auto simp: invalidated_def DiscoveryInvalidateAll_def Let_def same_calls_def contents_def cache_wf_def)
  qed
qed

lemma step_invalidate_inv:
  assumes "resolve_inv s"
  shows "resolve_inv (step_invalidate lib v s)"
proof -
  let ?s' = "step_invalidate lib v s" and ?r = "sy_resolver s" and ?r' = "invalidate lib v (sy_resolver s)"
  note ok = assms[unfolded resolve_inv_def]
  have v: "invalidated lib v ?r ?r'" using invalidate_keeps ok by (simp add: cache_ok_def)
  have same: "sy_resolver ?s' = ?r'" "sy_calls ?s' = sy_calls s" "sy_floor ?s' = sy_floor s" "sy_born ?s' = sy_born s" "sy_counts ?s' = sy_counts s"
    "sy_stateKey ?s' = sy_stateKey s" "sy_owner ?s' = sy_owner s" "sy_origin ?s' = sy_origin s" "sy_clock ?s' = Suc (sy_clock s)"
    "sy_alls ?s' = (if v = OfAll then Suc (sy_alls s) else sy_alls s)"
    "\<And>k. sy_last ?s' k = (if invalidates lib v k then sy_clock s else sy_last s k)"
    by (simp_all add: step_invalidate_def Let_def)
  have st: "rv_states ?r' = states_of s" "rv_refreshing ?r' = rv_refreshing ?r" using v by (simp_all add: invalidated_def)
  have keys: "sy_keys s k \<le> sy_keys ?s' k" for k by (simp add: step_invalidate_def Let_def)
  have grow: "v = OfAll \<or> sy_keys ?s' k = Suc (sy_keys s k)" if "invalidates lib v k" "map_of (rv_refreshing ?r) k \<noteq> None" for k
    using v that by (auto simp: invalidated_def step_invalidate_def Let_def)
  have last: "sy_last s k < sy_clock s" for k using ok by (simp add: epochs_ok_def)
  have "rv_keyEpoch ?r' k = of_nat (sy_keys ?s' k)" for k
    using v ok by (auto simp: invalidated_def epochs_ok_def step_invalidate_def Let_def)
  then have e: "epochs_ok ?s'" using v ok last by (auto simp: epochs_ok_def same invalidated_def less_SucI)
  have old: "sy_counts s ! p = (sy_alls s, sy_keys s (sy_stateKey s ! p)) \<and> sy_alls ?s' = sy_alls s \<and> sy_keys ?s' (sy_stateKey s ! p) = sy_keys s (sy_stateKey s ! p)"
    if "p < length (states_of s)" "sy_counts s ! p = (sy_alls ?s', sy_keys ?s' (sy_stateKey s ! p))" for p
  proof -
    have "state_ok s p" using ok that(1) by (simp add: states_ok_def)
    then have "sy_alls ?s' \<le> sy_alls s" "sy_keys ?s' (sy_stateKey s ! p) \<le> sy_keys s (sy_stateKey s ! p)" using that(2) by (simp_all add: state_ok_def)
    then show ?thesis using that(2) keys[of "sy_stateKey s ! p"] same(10) by (simp split: if_splits)
  qed
  have "state_ok ?s' p" if p: "p < length (states_of s)" for p
  proof -
    have o: "state_ok s p" using ok p by (simp add: states_ok_def)
    have "sy_alls s \<le> sy_alls ?s'" by (simp add: same)
    then show ?thesis using o keys[of "sy_stateKey s ! p"] old[OF p] unfolding state_ok_def same(1,4-9) st by (auto simp: less_SucI)
  qed
  then have s: "states_ok ?s'" using ok by (simp add: states_ok_def same st)
  have r: "refreshing_ok ?s'"
  proof -
    have "p < length (states_of s) \<and> sy_stateKey s ! p = k \<and> (sy_born s ! p \<le> sy_last ?s' k \<longrightarrow> sy_counts s ! p \<noteq> (sy_alls ?s', sy_keys ?s' k))"
      if m: "map_of (rv_refreshing ?r) k = Some p" for k p
    proof -
      have o: "p < length (states_of s)" "sy_stateKey s ! p = k" "sy_born s ! p \<le> sy_last s k \<longrightarrow> sy_counts s ! p \<noteq> (sy_alls s, sy_keys s k)"
        using ok m by (auto simp: refreshing_ok_def)
      show ?thesis using old[OF o(1)] o grow[of k] m same(10) by (cases "invalidates lib v k") (auto simp: same(11) split: if_splits)
    qed
    then show ?thesis by (simp add: refreshing_ok_def same(1,4-6) st)
  qed
  have c: "cache_ok ?s'" using ok v by (auto simp: cache_ok_def invalidated_def found_by_def same split: if_splits)
  have "phase_ok ?s' i ph" if "phase_ok s i ph" for i ph by (rule phase_ok_frame[OF that]) (simp_all add: same st)
  moreover have "sy_last s k \<le> sy_last ?s' k" for k using last[of k] by (simp add: same)
  ultimately have "calls_ok ?s'" using ok unfolding calls_ok_def same(2,3) by (auto intro: order_trans)
  then show ?thesis using e s r c by (simp add: resolve_inv_def)
qed

lemma step_open_inv:
  assumes "resolve_inv s" "ca_phase c = Looking"
  shows "resolve_inv (step_open c s)"
proof -
  let ?s1 = "s\<lparr>sy_resolver := ensureCache (sy_resolver s)\<rparr>"
  have "resolve_inv ?s1"
    using shrink_inv[OF assms(1)] ensureCache_wf[of "sy_resolver s"] assms(1) by (simp add: resolve_inv_def cache_ok_def)
  note ok = this[unfolded resolve_inv_def]
  have "phase_ok (step_open c s) i ph" if "phase_ok ?s1 i ph" "i < length (sy_calls s)" for i ph
    by (rule phase_ok_frame[OF that(1)]) (use that(2) ok in \<open>simp_all add: step_open_def nth_append calls_ok_def\<close>)
  then have "calls_ok (step_open c s)" using ok assms(2)
    by (auto simp: calls_ok_def step_open_def nth_append less_Suc_eq)
  moreover have "epochs_ok (step_open c s)" "states_ok (step_open c s)" "refreshing_ok (step_open c s)" "cache_ok (step_open c s)"
    using ok unfolding inv_defs step_open_def by simp_all
  ultimately show ?thesis by (simp add: resolve_inv_def)
qed

lemma openCall_looking: "openCall lib c d = Inr ca \<Longrightarrow> ca_phase ca = Looking"
  by (auto simp: openCall_def split: option.splits if_splits)

lemma resolve_step_inv:
  assumes "resolve_step lib s s'" "resolve_inv s" "in_range s"
  shows "resolve_inv s'"
  using assms
proof cases
  case (open_call c d ca)
  then show ?thesis using step_open_inv[OF assms(2)] openCall_looking by blast
next
  case (look i iter)
  then show ?thesis using step_look_inv[OF assms(2)] by blast
next
  case (begin_refresh i iter)
  then show ?thesis using step_begin_inv[OF assms(2,3)] by blast
next
  case (wake i p)
  have ph: "phase_ok s i (Waiting p)" using assms(2) wake by (metis calls_ok_def resolve_inv_def)
  obtain x where x: "rf_result (states_of s ! p) = Some x" using wake by auto
  then have "phase_ok s i (Returned (case x of Inl e \<Rightarrow> Inl (sourceScopedResolutionError (ca_sourceID (sy_calls s ! i)) e)
      | Inr e \<Rightarrow> Inr (resolution e (ca_sourceID (sy_calls s ! i)))))" using ph by (cases x) auto
  from enter_inv[OF assms(2) wake(2) this] enter_inv[OF assms(2) wake(2), of Refreshing] show ?thesis
    using wake(1) x by (cases x) (auto simp: step_wake_def Let_def)
next
  case (expire i p)
  then show ?thesis using enter_inv[OF assms(2)] by (simp add: step_expire_def)
next
  case (discover i p c client)
  have ph: "phase_ok s i (Discovering p)" using assms(2) discover by (metis calls_ok_def resolve_inv_def)
  have "res = resolution e (ca_sourceID (sy_calls s ! i))"
    if "resolveFromDiscovery c client \<lparr>sd_sourceID = ca_sourceID (sy_calls s ! i), sd_apiVersion = [], sd_kind = k\<rparr> gv = (Inr res, c')"
      "ce_resource e = res_resource res" "ce_scope e = res_scope res" for k gv res c' e
    using that by (auto simp: resolveFromDiscovery_def resolution_def Let_def split: prod.splits bool.splits option.splits sum.splits list.splits)
  then show ?thesis using enter_inv[OF assms(2) discover(2)] ph discover(1)
    by (auto simp: step_discover_def Let_def split: prod.splits sum.splits)
next
  case (finish i p result answer iter)
  have ph: "phase_ok s i (Finishing p result answer)" using assms(2) finish by (metis calls_ok_def resolve_inv_def)
  then show ?thesis using step_finish_inv[OF assms(2,3) finish(2,4) ph] finish(1) by simp
next
  case (check i p res)
  have ph: "phase_ok s i (Checking p res)" using assms(2) check by (metis calls_ok_def resolve_inv_def)
  then have "phase_ok s i (Returned (Inr res))" by auto
  from enter_inv[OF assms(2) check(2) this] enter_inv[OF assms(2) check(2), of Refreshing] show ?thesis
    using check(1) by (simp add: step_check_def Let_def)
next
  case (invalidation v)
  then show ?thesis using step_invalidate_inv[OF assms(2)] by simp
next
  case (passing t)
  have "phase_ok s' i ph" if "phase_ok s i ph" for i ph by (rule phase_ok_frame[OF that]) (simp_all add: passing)
  then show ?thesis using assms(2) passing unfolding inv_defs by simp
qed

lemma enter_counts [simp]: "sy_alls (enter i p s) = sy_alls s" "sy_keys (enter i p s) = sy_keys s"
  by (simp_all add: enter_def)

lemma resolve_step_range:
  assumes "resolve_step lib s s'" "in_range s'"
  shows "in_range s"
proof -
  have "sy_alls s \<le> sy_alls s' \<and> (\<forall>k. sy_keys s k \<le> sy_keys s' k)"
    using assms(1) by cases
      (auto simp: step_open_def step_look_def step_begin_def start_history_def step_wake_def step_expire_def step_discover_def step_finish_def
        step_check_def step_invalidate_def Let_def split: prod.splits option.splits refresh_start.splits sum.splits)
  then show ?thesis using assms(2) unfolding in_range_def by (meson le_less_trans)
qed

lemma resolve_reachable_inv: "resolve_reachable lib options s \<Longrightarrow> in_range s \<Longrightarrow> resolve_inv s"
proof (induction rule: resolve_reachable.induct)
  case start
  show ?case by (rule initial_inv)
next
  case (step s s')
  then show ?case using resolve_step_inv resolve_step_range by blast
qed

lemma quiet_counts [simp]:
  "sy_alls (step_open c s) = sy_alls s" "sy_keys (step_open c s) = sy_keys s"
  "sy_alls (step_look iter i s) = sy_alls s" "sy_keys (step_look iter i s) = sy_keys s"
  "sy_alls (step_begin iter i s) = sy_alls s" "sy_keys (step_begin iter i s) = sy_keys s"
  "sy_alls (step_discover x client i p s) = sy_alls s" "sy_keys (step_discover x client i p s) = sy_keys s"
  "sy_alls (step_finish iter i p result answer s) = sy_alls s" "sy_keys (step_finish iter i p result answer s) = sy_keys s"
  "sy_alls (step_check i p res s) = sy_alls s" "sy_keys (step_check i p res s) = sy_keys s"
  by (simp_all add: step_open_def step_look_def step_begin_def start_history_def step_discover_def step_finish_def step_check_def Let_def
      split: prod.splits option.splits refresh_start.splits sum.splits)

text \<open>A call that finds an empty cache and asks the client, for the witnesses.\<close>

definition wit_schema :: SchemaLib where
  "wit_schema = \<lparr>ParseGroupVersion = (\<lambda>v. Some \<lparr>gv_group = [], gv_version = v\<rparr>), GroupVersion_String = gv_version\<rparr>"

definition wit_descriptor :: SourceDescriptor where
  "wit_descriptor = \<lparr>sd_sourceID = ''s'', sd_apiVersion = ''v1'', sd_kind = ''Pod''\<rparr>"

definition wit_call :: call where
  "wit_call = \<lparr>ca_sourceID = ''s'', ca_gv = \<lparr>gv_group = [], gv_version = ''v1''\<rparr>, ca_key = \<lparr>ck_groupVersion = ''v1'', ck_kind = ''Pod''\<rparr>,
     ca_phase = Looking\<rparr>"

definition wit_asking :: system where
  "wit_asking = step_begin id 0 (step_look id 0 (step_open wit_call (initial_system [])))"

definition wit_entry_found :: cacheEntry where
  "wit_entry_found = \<lparr>ce_resource = \<lparr>gvr_group = [], gvr_version = ''v1'', gvr_resource = ''pods''\<rparr>, ce_scope = ScopeNamespaced,
     ce_expiresAt = DefaultCacheTTL, ce_accessSequence = 0, ce_version = \<lparr>cv_all = 0, cv_key = 0\<rparr>\<rparr>"

definition wit_answered :: system where
  "wit_answered = step_check 0 0 (resolution wit_entry_found ''s'')
     (step_finish id 0 0 (Inr wit_entry_found) (Inr (resolution wit_entry_found ''s''))
       (step_discover None (Some (Inr (Some [\<lparr>api_name = ''pods'', api_namespaced = True, api_kind = ''Pod''\<rparr>]))) 0 0 wit_asking))"

lemma wit_asking_reachable: "resolve_reachable wit_schema [] wit_asking \<and> in_range wit_asking"
proof -
  let ?a = "step_open wit_call (initial_system [])"
  have o: "openCall wit_schema None wit_descriptor = Inr wit_call" by code_simp
  have ph: "length (sy_calls ?a) = 1" "ca_phase (sy_calls ?a ! 0) = Looking" "length (sy_calls (step_look id 0 ?a)) = 1"
    "ca_phase (sy_calls (step_look id 0 ?a) ! 0) = Refreshing" by code_simp+
  have it: "iterates id" by (simp add: iterates_def)
  have "resolve_reachable wit_schema [] ?a"
    using resolve_reachable.step[OF resolve_reachable.start resolve_step.open_call[OF o]] .
  from resolve_reachable.step[OF this resolve_step.look[of 0]] ph it
  have "resolve_reachable wit_schema [] (step_look id 0 ?a)" by simp
  from resolve_reachable.step[OF this resolve_step.begin_refresh[of 0]] ph it
  have "resolve_reachable wit_schema [] wit_asking" by (simp add: wit_asking_def)
  then show ?thesis by (simp add: in_range_def wit_asking_def initial_system_def)
qed

lemma wit_answered_reachable: "resolve_reachable wit_schema [] wit_answered \<and> in_range wit_answered"
proof -
  let ?client = "Some (Inr (Some [\<lparr>api_name = ''pods'', api_namespaced = True, api_kind = ''Pod''\<rparr>])) :: response option"
  let ?b = "step_discover None ?client 0 0 wit_asking"
  let ?c = "step_finish id 0 0 (Inr wit_entry_found) (Inr (resolution wit_entry_found ''s'')) ?b"
  have ph: "length (sy_calls wit_asking) = 1" "ca_phase (sy_calls wit_asking ! 0) = Discovering 0"
    "length (sy_calls ?b) = 1" "ca_phase (sy_calls ?b ! 0) = Finishing 0 (Inr wit_entry_found) (Inr (resolution wit_entry_found ''s''))"
    "length (sy_calls ?c) = 1" "ca_phase (sy_calls ?c ! 0) = Checking 0 (resolution wit_entry_found ''s'')" by code_simp+
  have it: "iterates id" by (simp add: iterates_def)
  note asking = conjunct1[OF wit_asking_reachable]
  from resolve_reachable.step[OF asking resolve_step.discover[of 0 _ 0 _ None ?client]] ph
  have "resolve_reachable wit_schema [] ?b" by simp
  from resolve_reachable.step[OF this resolve_step.finish[of 0]] ph it have "resolve_reachable wit_schema [] ?c" by simp
  from resolve_reachable.step[OF this resolve_step.check[of 0]] ph have "resolve_reachable wit_schema [] wit_answered" by (simp add: wit_answered_def)
  moreover have "in_range wit_answered" using wit_asking_reachable by (simp add: in_range_def wit_answered_def)
  ultimately show ?thesis by simp
qed

section \<open>Properties of concurrent resolution\<close>

text \<open>C27: whatever calls, discovery responses and invalidations interleave, the metadata that a call returns comes from a discovery
  request for its own type that began after every invalidation of that type which preceded the call, as long as no epoch has been
  advanced \<open>2 ^ 64\<close> times.\<close>

theorem resolution_not_stale:
  assumes "resolve_reachable lib options s" and "in_range s"
    and "i < length (sy_calls s)" and "ca_phase (sy_calls s ! i) = Returned (Inr res)"
  shows "\<exists>p e. p < length (rv_states (sy_resolver s)) \<and> sy_stateKey s ! p = ca_key (sy_calls s ! i) \<and>
    rf_result (rv_states (sy_resolver s) ! p) = Some (Inr e) \<and> res = resolution e (ca_sourceID (sy_calls s ! i)) \<and>
    sy_floor s ! i < sy_born s ! p"
proof -
  have "phase_ok s i (Returned (Inr res))" using resolve_reachable_inv[OF assms(1,2)] assms(3,4) by (metis calls_ok_def resolve_inv_def)
  then show ?thesis by (auto simp: attends_def)
qed

theorem resolution_not_stale_witness:
  "\<exists>p e. rf_result (rv_states (sy_resolver wit_answered) ! p) = Some (Inr e) \<and> resolution wit_entry_found ''s'' = resolution e ''s'' \<and>
    sy_floor wit_answered ! 0 < sy_born wit_answered ! p"
proof -
  have "length (sy_calls wit_answered) = 1" "ca_phase (sy_calls wit_answered ! 0) = Returned (Inr (resolution wit_entry_found ''s''))"
    "ca_sourceID (sy_calls wit_answered ! 0) = ''s''" by code_simp+
  then show ?thesis using resolution_not_stale[of wit_schema "[]" wit_answered 0] wit_answered_reachable by (metis less_one)
qed

text \<open>C28: at most one discovery request for a type is in flight for the current version of its metadata: any two calls that are both
  asking the client for the same type with refresh states of the current version are the same call.  The cache keeps at most its
  capacity.\<close>

theorem discovery_single_flight:
  assumes "resolve_reachable lib options s" and "in_range s"
    and "i < length (sy_calls s)" "ca_phase (sy_calls s ! i) = Discovering p"
    and "j < length (sy_calls s)" "ca_phase (sy_calls s ! j) = Discovering q"
    and "ca_key (sy_calls s ! i) = ca_key (sy_calls s ! j)"
    and "refreshVersionCurrent (ca_key (sy_calls s ! i)) (rf_version (rv_states (sy_resolver s) ! p)) (sy_resolver s)"
    and "refreshVersionCurrent (ca_key (sy_calls s ! j)) (rf_version (rv_states (sy_resolver s) ! q)) (sy_resolver s)"
  shows "i = j \<and> p = q \<and> int (length (rv_cache (sy_resolver s))) \<le> rv_cacheCapacity (sy_resolver s)"
proof -
  have inv: "resolve_inv s" using resolve_reachable_inv assms(1,2) .
  have registered: "map_of (rv_refreshing (sy_resolver s)) (ca_key (sy_calls s ! i)) = Some p \<and> sy_owner s ! p = i"
    if "i < length (sy_calls s)" "ca_phase (sy_calls s ! i) = Discovering p"
      "refreshVersionCurrent (ca_key (sy_calls s ! i)) (rf_version (rv_states (sy_resolver s) ! p)) (sy_resolver s)" for i p
  proof -
    have ph: "phase_ok s i (Discovering p)" using inv that(1,2) by (metis calls_ok_def resolve_inv_def)
    then have p: "p < length (states_of s)" "sy_stateKey s ! p = ca_key (sy_calls s ! i)" by (auto simp: attends_def)
    have "state_ok s p" using inv p(1) by (simp add: resolve_inv_def states_ok_def)
    then show ?thesis using version_counts[OF inv assms(2) p(1)] that(3) ph p(2) by (auto simp: state_ok_def refreshVersionCurrent_def)
  qed
  have "cache_wf (sy_resolver s)" using inv by (simp add: resolve_inv_def cache_ok_def)
  then show ?thesis using registered[OF assms(3,4,8)] registered[OF assms(5,6,9)] assms(7) by (auto simp: cache_wf_def)
qed

theorem discovery_single_flight_witness:
  "ca_phase (sy_calls wit_asking ! 0) = Discovering 0 \<and> int (length (rv_cache (sy_resolver wit_asking))) \<le> rv_cacheCapacity (sy_resolver wit_asking)"
proof -
  have a: "length (sy_calls wit_asking) = 1" "ca_phase (sy_calls wit_asking ! 0) = Discovering 0"
    "refreshVersionCurrent (ca_key (sy_calls wit_asking ! 0)) (rf_version (rv_states (sy_resolver wit_asking) ! 0)) (sy_resolver wit_asking)"
    by code_simp+
  then show ?thesis using discovery_single_flight[of wit_schema "[]" wit_asking 0 0 0 0] wit_asking_reachable by simp
qed

end
