(* ===== verification/Tracker.thy ===== *)
theory Tracker
  imports Authorization
begin

text \<open>
  The freshness tracker (\<^verbatim>\<open>src/internal/reconciliation/tracker.go\<close>): leases, the policy epoch and the
  cancellation of running reconciliations.

  Every method runs under the tracker's mutex, so a concurrent execution is a sequence of atomic
  operations: \<open>tracker_step\<close> is one of them and \<open>tracker_run\<close> an interleaving.  A cancel function is the
  number of the \<^verbatim>\<open>Acquire\<close> call that created it; \<open>tk_cancelled\<close> collects the contexts that were
  cancelled, \<open>tk_released\<close> the release closures that already ran and \<open>tk_closures\<close> the lease each closure
  captured.  Epochs are 64-bit words and wrap.
\<close>

section \<open>State\<close>

record Lease =
  ls_key :: NamespacedName
  ls_uid :: UID
  ls_generation :: int
  ls_policyEpoch :: "64 word"

record activeLease =
  al_lease :: Lease
  al_cancel :: nat

record trackedState =
  st_uid :: UID
  st_generation :: int
  st_deleting :: bool
  st_absent :: bool
  st_policyEpoch :: "64 word"
  st_active :: "activeLease option"

record FreshnessTracker =
  tk_epoch :: "64 word"
  tk_states :: "NamespacedName \<Rightarrow> trackedState option"
  tk_next :: nat
  tk_cancelled :: "nat set"
  tk_released :: "nat set"
  tk_closures :: "nat \<Rightarrow> Lease option"

definition NewFreshnessTracker :: FreshnessTracker where
  "NewFreshnessTracker = \<lparr>tk_epoch = 0, tk_states = (\<lambda>_. None), tk_next = 0, tk_cancelled = {},
     tk_released = {}, tk_closures = (\<lambda>_. None)\<rparr>"

section \<open>Operations\<close>

definition ensureState :: "FreshnessTracker \<Rightarrow> NamespacedName \<Rightarrow> trackedState" where
  "ensureState t key = (case tk_states t key of
      Some s \<Rightarrow> s
    | None \<Rightarrow> \<lparr>st_uid = [], st_generation = 0, st_deleting = False, st_absent = False,
               st_policyEpoch = tk_epoch t, st_active = None\<rparr>)"

definition changedIdentity :: "trackedState \<Rightarrow> UID \<Rightarrow> int \<Rightarrow> bool \<Rightarrow> bool \<Rightarrow> bool" where
  "changedIdentity s uid gen deleting absent \<longleftrightarrow>
     st_uid s \<noteq> uid \<or> st_generation s \<noteq> gen \<or> st_deleting s \<noteq> deleting \<or> st_absent s \<noteq> absent"

text \<open>\<^verbatim>\<open>cancelActive\<close>: the contexts it cancels and the state it leaves.\<close>

definition cancelled_by :: "trackedState \<Rightarrow> nat set" where
  "cancelled_by s = (case st_active s of None \<Rightarrow> {} | Some a \<Rightarrow> {al_cancel a})"

definition cancelActive :: "trackedState \<Rightarrow> trackedState" where
  "cancelActive s = s\<lparr>st_active := None\<rparr>"

definition Observe :: "FreshnessTracker \<Rightarrow> NamespacedName \<Rightarrow> UID \<Rightarrow> int \<Rightarrow> bool \<Rightarrow> FreshnessTracker" where
  "Observe t key uid gen deleting =
    (let s = ensureState t key; changed = changedIdentity s uid gen deleting False;
         s1 = (if changed then cancelActive s else s) in
     t\<lparr>tk_states := (tk_states t)(key \<mapsto> s1\<lparr>st_uid := uid, st_generation := gen, st_deleting := deleting,
         st_absent := False, st_policyEpoch := tk_epoch t\<rparr>),
       tk_cancelled := tk_cancelled t \<union> (if changed then cancelled_by s else {})\<rparr>)"

definition ObserveDelete :: "FreshnessTracker \<Rightarrow> NamespacedName \<Rightarrow> UID \<Rightarrow> FreshnessTracker" where
  "ObserveDelete t key uid =
    (let s = ensureState t key; s1 = cancelActive s;
         s2 = (if uid \<noteq> [] then s1\<lparr>st_uid := uid\<rparr> else s1) in
     t\<lparr>tk_states := (tk_states t)(key \<mapsto> s2\<lparr>st_deleting := True, st_absent := True, st_policyEpoch := tk_epoch t\<rparr>),
       tk_cancelled := tk_cancelled t \<union> cancelled_by s\<rparr>)"

definition MarkAbsent :: "FreshnessTracker \<Rightarrow> NamespacedName \<Rightarrow> FreshnessTracker" where
  "MarkAbsent t key =
    (let s = ensureState t key in
     t\<lparr>tk_states := (tk_states t)(key \<mapsto> (cancelActive s)\<lparr>st_absent := True, st_deleting := True,
         st_policyEpoch := tk_epoch t\<rparr>),
       tk_cancelled := tk_cancelled t \<union> cancelled_by s\<rparr>)"

definition InvalidateAll :: "FreshnessTracker \<Rightarrow> FreshnessTracker" where
  "InvalidateAll t =
    (let e = tk_epoch t + 1 in
     t\<lparr>tk_epoch := e,
       tk_states := (\<lambda>key. map_option (\<lambda>s. (cancelActive s)\<lparr>st_policyEpoch := e\<rparr>) (tk_states t key)),
       tk_cancelled := tk_cancelled t \<union> (\<Union>s \<in> ran (tk_states t). cancelled_by s)\<rparr>)"

datatype acquire_error = AlreadyActive

definition Acquire ::
  "FreshnessTracker \<Rightarrow> NamespacedName \<Rightarrow> UID \<Rightarrow> int \<Rightarrow> FreshnessTracker \<times> (acquire_error, Lease \<times> nat) res" where
  "Acquire t key uid gen =
    (let s = ensureState t key in
     if st_active s \<noteq> None then (t\<lparr>tk_states := (tk_states t)(key \<mapsto> s)\<rparr>, Inl AlreadyActive)
     else
       (let lease = \<lparr>ls_key = key, ls_uid = uid, ls_generation = gen, ls_policyEpoch = tk_epoch t\<rparr>; h = tk_next t in
        (t\<lparr>tk_states := (tk_states t)(key \<mapsto> s\<lparr>st_uid := uid, st_generation := gen, st_deleting := False,
             st_absent := False, st_policyEpoch := tk_epoch t,
             st_active := Some \<lparr>al_lease = lease, al_cancel = h\<rparr>\<rparr>),
           tk_next := Suc h, tk_closures := (tk_closures t)(h \<mapsto> lease)\<rparr>,
         Inr (lease, h))))"

definition release :: "FreshnessTracker \<Rightarrow> nat \<Rightarrow> FreshnessTracker" where
  "release t h = (case tk_closures t h of
      None \<Rightarrow> t
    | Some lease \<Rightarrow>
       if h \<in> tk_released t then t
       else t\<lparr>tk_released := insert h (tk_released t),
          tk_states := (case tk_states t (ls_key lease) of
              None \<Rightarrow> tk_states t
            | Some s \<Rightarrow> (case st_active s of
                 None \<Rightarrow> tk_states t
               | Some a \<Rightarrow>
                   if al_lease a = lease then (tk_states t)(ls_key lease \<mapsto> s\<lparr>st_active := None\<rparr>)
                   else tk_states t)),
          tk_cancelled := insert h (tk_cancelled t)\<rparr>)"

definition IsLeaseCurrent :: "FreshnessTracker \<Rightarrow> Lease \<Rightarrow> bool" where
  "IsLeaseCurrent t lease = (case tk_states t (ls_key lease) of
      None \<Rightarrow> False
    | Some s \<Rightarrow> st_uid s = ls_uid lease \<and> st_generation s = ls_generation lease \<and> \<not> st_deleting s \<and>
        \<not> st_absent s \<and> st_policyEpoch s = ls_policyEpoch lease \<and> tk_epoch t = ls_policyEpoch lease)"

definition lease_of :: "Subject \<Rightarrow> Lease" where
  "lease_of s = \<lparr>ls_key = sub_key s, ls_uid = sub_uid s, ls_generation = sub_generation s,
     ls_policyEpoch = sub_policyEpoch s\<rparr>"

definition Tracker_IsCurrent :: "FreshnessTracker \<Rightarrow> Subject \<Rightarrow> bool" where
  "Tracker_IsCurrent t s = (if isl (Subject_Validate s) then False else IsLeaseCurrent t (lease_of s))"

section \<open>Interleavings\<close>

datatype tracker_event =
    EvObserve NamespacedName UID int bool
  | EvObserveDelete NamespacedName UID
  | EvMarkAbsent NamespacedName
  | EvInvalidateAll
  | EvAcquire NamespacedName UID int
  | EvRelease nat

fun tracker_apply :: "tracker_event \<Rightarrow> FreshnessTracker \<Rightarrow> FreshnessTracker" where
  "tracker_apply (EvObserve key uid gen deleting) t = Observe t key uid gen deleting"
| "tracker_apply (EvObserveDelete key uid) t = ObserveDelete t key uid"
| "tracker_apply (EvMarkAbsent key) t = MarkAbsent t key"
| "tracker_apply EvInvalidateAll t = InvalidateAll t"
| "tracker_apply (EvAcquire key uid gen) t = fst (Acquire t key uid gen)"
| "tracker_apply (EvRelease h) t = release t h"

inductive tracker_run :: "FreshnessTracker \<Rightarrow> tracker_event list \<Rightarrow> FreshnessTracker \<Rightarrow> bool" where
  run_nil: "tracker_run t [] t"
| run_step: "tracker_run t es t' \<Longrightarrow> tracker_run t (es @ [e]) (tracker_apply e t')"

inductive_cases tracker_run_snocE: "tracker_run t (es @ [e]) t'"

text \<open>A handle is live while its context is neither cancelled nor released.\<close>

definition live :: "FreshnessTracker \<Rightarrow> nat \<Rightarrow> bool" where
  "live t h \<longleftrightarrow> tk_closures t h \<noteq> None \<and> h \<notin> tk_cancelled t"

section \<open>Invariant\<close>

definition owner_ok :: "FreshnessTracker \<Rightarrow> NamespacedName \<Rightarrow> trackedState \<Rightarrow> activeLease \<Rightarrow> bool" where
  "owner_ok t key s a \<longleftrightarrow>
     al_lease a = \<lparr>ls_key = key, ls_uid = st_uid s, ls_generation = st_generation s, ls_policyEpoch = tk_epoch t\<rparr> \<and>
     \<not> st_deleting s \<and> \<not> st_absent s \<and> al_cancel a < tk_next t \<and>
     tk_closures t (al_cancel a) = Some (al_lease a) \<and> al_cancel a \<notin> tk_cancelled t \<and> al_cancel a \<notin> tk_released t"

definition tracker_inv :: "FreshnessTracker \<Rightarrow> bool" where
  "tracker_inv t \<longleftrightarrow>
     (\<forall>key s. tk_states t key = Some s \<longrightarrow> st_policyEpoch s = tk_epoch t \<and>
        (\<forall>a. st_active s = Some a \<longrightarrow> owner_ok t key s a)) \<and>
     (\<forall>h. tk_next t \<le> h \<longrightarrow> tk_closures t h = None \<and> h \<notin> tk_cancelled t \<and> h \<notin> tk_released t) \<and>
     tk_released t \<subseteq> tk_cancelled t"

lemma tracker_invI:
  assumes "\<And>key s. tk_states t key = Some s \<Longrightarrow> st_policyEpoch s = tk_epoch t"
    and "\<And>key s a. tk_states t key = Some s \<Longrightarrow> st_active s = Some a \<Longrightarrow> owner_ok t key s a"
    and "\<And>h. tk_next t \<le> h \<Longrightarrow> tk_closures t h = None \<and> h \<notin> tk_cancelled t \<and> h \<notin> tk_released t"
    and "tk_released t \<subseteq> tk_cancelled t"
  shows "tracker_inv t"
  using assms by (auto simp: tracker_inv_def)

lemma tracker_invD:
  assumes "tracker_inv t"
  shows "tk_states t key = Some s \<Longrightarrow> st_policyEpoch s = tk_epoch t"
    and "tk_states t key = Some s \<Longrightarrow> st_active s = Some a \<Longrightarrow> owner_ok t key s a"
    and "tk_next t \<le> h \<Longrightarrow> tk_closures t h = None \<and> h \<notin> tk_cancelled t \<and> h \<notin> tk_released t"
    and "tk_released t \<subseteq> tk_cancelled t"
  using assms by (auto simp: tracker_inv_def)

lemma ensureState_owner:
  assumes "tracker_inv t" "st_active (ensureState t key) = Some a"
  shows "owner_ok t key (ensureState t key) a" "tk_states t key = Some (ensureState t key)"
  using assms tracker_invD(2)[OF assms(1)] by (auto simp: ensureState_def split: option.splits)

text \<open>Two keys never share a cancel function.\<close>

lemma owner_handles_distinct:
  assumes "owner_ok t key s a" "owner_ok t key' s' a'" "al_cancel a = al_cancel a'"
  shows "key = key'"
  using assms by (auto simp: owner_ok_def)

lemma owner_ok_cong:
  assumes "owner_ok t key s a" "al_cancel a \<notin> tk_cancelled t'" "al_cancel a \<notin> tk_released t'"
    "tk_epoch t' = tk_epoch t" "tk_next t \<le> tk_next t'" "tk_closures t' (al_cancel a) = tk_closures t (al_cancel a)"
  shows "owner_ok t' key s a"
  using assms by (auto simp: owner_ok_def)

lemma cancelled_by_fresh:
  assumes "tracker_inv t" "h \<in> cancelled_by (ensureState t key)"
  shows "h < tk_next t"
  using ensureState_owner(1)[OF assms(1)] assms(2) by (auto simp: cancelled_by_def owner_ok_def split: option.splits)

text \<open>Cancelling one key's owner keeps every other owner.\<close>

lemma other_owner_kept:
  assumes inv: "tracker_inv t" and s: "tk_states t key' = Some s" "st_active s = Some a" and ne: "key' \<noteq> key"
    and t': "tk_cancelled t' \<subseteq> tk_cancelled t \<union> cancelled_by (ensureState t key)" "tk_released t' = tk_released t"
    "tk_epoch t' = tk_epoch t" "tk_next t' = tk_next t" "tk_closures t' = tk_closures t"
  shows "owner_ok t' key' s a"
proof (rule owner_ok_cong[OF tracker_invD(2)[OF inv s]])
  have own: "owner_ok t key' s a" by (rule tracker_invD(2)[OF inv s])
  have "al_cancel a \<notin> cancelled_by (ensureState t key)"
  proof
    assume "al_cancel a \<in> cancelled_by (ensureState t key)"
    then obtain b where b: "st_active (ensureState t key) = Some b" "al_cancel a = al_cancel b"
      by (auto simp: cancelled_by_def split: option.splits)
    then show False using owner_handles_distinct[OF own ensureState_owner(1)[OF inv b(1)]] ne by simp
  qed
  then show "al_cancel a \<notin> tk_cancelled t'" using t'(1) own by (auto simp: owner_ok_def)
  show "al_cancel a \<notin> tk_released t'" using t'(2) own by (simp add: owner_ok_def)
qed (use t' in simp_all)

lemma cancel_key_inv:
  assumes inv: "tracker_inv t" and ep: "st_policyEpoch s' = tk_epoch t" and act: "st_active s' = None"
  shows "tracker_inv (t\<lparr>tk_states := (tk_states t)(key \<mapsto> s'),
    tk_cancelled := tk_cancelled t \<union> cancelled_by (ensureState t key)\<rparr>)" (is "tracker_inv ?t")
proof (rule tracker_invI)
  fix key' s
  assume s: "tk_states ?t key' = Some s"
  show "st_policyEpoch s = tk_epoch ?t"
    using s ep tracker_invD(1)[OF inv, of key' s] by (auto split: if_splits)
  fix a
  assume a: "st_active s = Some a"
  with s act have "key' \<noteq> key" "tk_states t key' = Some s" by (auto split: if_splits)
  then show "owner_ok ?t key' s a" using other_owner_kept[OF inv _ a, of key' key ?t] by simp
next
  fix h
  assume "tk_next ?t \<le> h"
  then show "tk_closures ?t h = None \<and> h \<notin> tk_cancelled ?t \<and> h \<notin> tk_released ?t"
    using tracker_invD(3)[OF inv, of h] cancelled_by_fresh[OF inv, of h key] by auto
qed (use tracker_invD(4)[OF inv] in auto)

lemma Observe_inv:
  assumes inv: "tracker_inv t"
  shows "tracker_inv (Observe t key uid gen deleting)"
proof (cases "changedIdentity (ensureState t key) uid gen deleting False")
  case True
  then show ?thesis
    using cancel_key_inv[OF inv, of "(cancelActive (ensureState t key))\<lparr>st_uid := uid, st_generation := gen,
        st_deleting := deleting, st_absent := False, st_policyEpoch := tk_epoch t\<rparr>" key]
    by (simp add: Observe_def Let_def cancelActive_def)
next
  case False
  let ?s = "ensureState t key"
  have same: "?s\<lparr>st_uid := uid, st_generation := gen, st_deleting := deleting, st_absent := False,
      st_policyEpoch := tk_epoch t\<rparr> = ?s"
    using False tracker_invD(1)[OF inv, of key]
    by (auto simp: changedIdentity_def ensureState_def split: option.splits)
  have t': "Observe t key uid gen deleting = t\<lparr>tk_states := (tk_states t)(key \<mapsto> ?s)\<rparr>" (is "_ = ?t")
    using False same by (simp add: Observe_def Let_def)
  show ?thesis unfolding t'
  proof (rule tracker_invI)
    fix key' s
    assume s: "tk_states ?t key' = Some s"
    show "st_policyEpoch s = tk_epoch ?t"
      using s tracker_invD(1)[OF inv] by (auto simp: ensureState_def split: if_splits option.splits)
    fix a
    assume a: "st_active s = Some a"
    have "owner_ok t key' s a"
      using s a tracker_invD(2)[OF inv, of key' s a] ensureState_owner(1)[OF inv, of key a] by (auto split: if_splits)
    then show "owner_ok ?t key' s a" by (simp add: owner_ok_def)
  next
    fix h
    assume "tk_next ?t \<le> h"
    then show "tk_closures ?t h = None \<and> h \<notin> tk_cancelled ?t \<and> h \<notin> tk_released ?t"
      using tracker_invD(3)[OF inv, of h] by auto
  qed (use tracker_invD(4)[OF inv] in auto)
qed

lemma ObserveDelete_inv: "tracker_inv t \<Longrightarrow> tracker_inv (ObserveDelete t key uid)"
  unfolding ObserveDelete_def Let_def by (rule cancel_key_inv) (simp_all add: cancelActive_def)

lemma MarkAbsent_inv: "tracker_inv t \<Longrightarrow> tracker_inv (MarkAbsent t key)"
  unfolding MarkAbsent_def Let_def by (rule cancel_key_inv) (simp_all add: cancelActive_def)

lemma InvalidateAll_inv:
  assumes inv: "tracker_inv t"
  shows "tracker_inv (InvalidateAll t)"
proof (rule tracker_invI)
  fix key s
  assume "tk_states (InvalidateAll t) key = Some s"
  then show "st_policyEpoch s = tk_epoch (InvalidateAll t)" by (auto simp: InvalidateAll_def Let_def)
next
  fix key s a
  assume "tk_states (InvalidateAll t) key = Some s" "st_active s = Some a"
  then show "owner_ok (InvalidateAll t) key s a" by (auto simp: InvalidateAll_def Let_def cancelActive_def)
next
  fix h
  assume h: "tk_next (InvalidateAll t) \<le> h"
  have "h \<notin> cancelled_by s" if "s \<in> ran (tk_states t)" for s
  proof -
    obtain key where "tk_states t key = Some s" using \<open>s \<in> ran (tk_states t)\<close> by (auto simp: ran_def)
    then show ?thesis using tracker_invD(2)[OF inv, of key s] h
      by (auto simp: cancelled_by_def owner_ok_def InvalidateAll_def Let_def split: option.splits)
  qed
  then show "tk_closures (InvalidateAll t) h = None \<and> h \<notin> tk_cancelled (InvalidateAll t) \<and>
      h \<notin> tk_released (InvalidateAll t)"
    using tracker_invD(3)[OF inv, of h] h by (auto simp: InvalidateAll_def Let_def)
qed (use tracker_invD(4)[OF inv] in \<open>auto simp: InvalidateAll_def Let_def\<close>)

lemma Acquire_inv:
  assumes inv: "tracker_inv t"
  shows "tracker_inv (fst (Acquire t key uid gen))"
proof (rule tracker_invI)
  let ?t = "fst (Acquire t key uid gen)" and ?s = "ensureState t key"
  fix key' s
  assume s: "tk_states ?t key' = Some s"
  show "st_policyEpoch s = tk_epoch ?t"
    using s tracker_invD(1)[OF inv]
    by (auto simp: Acquire_def Let_def ensureState_def split: if_splits option.splits)
  fix a
  assume a: "st_active s = Some a"
  show "owner_ok ?t key' s a"
  proof (cases "st_active ?s = None \<and> key' = key")
    case True
    then show ?thesis
      using s a tracker_invD(3)[OF inv, of "tk_next t"] by (auto simp: Acquire_def Let_def owner_ok_def)
  next
    case False
    then have old: "owner_ok t key' s a"
      using s a tracker_invD(2)[OF inv, of key' s a] ensureState_owner(1)[OF inv, of key a]
      by (auto simp: Acquire_def Let_def split: if_splits)
    then show ?thesis by (auto simp: Acquire_def Let_def owner_ok_def)
  qed
next
  fix h
  assume "tk_next (fst (Acquire t key uid gen)) \<le> h"
  then show "tk_closures (fst (Acquire t key uid gen)) h = None \<and> h \<notin> tk_cancelled (fst (Acquire t key uid gen)) \<and>
      h \<notin> tk_released (fst (Acquire t key uid gen))"
    using tracker_invD(3)[OF inv, of h] by (auto simp: Acquire_def Let_def split: if_splits)
qed (use tracker_invD(4)[OF inv] in \<open>auto simp: Acquire_def Let_def\<close>)

lemma release_states:
  assumes "tk_states (release t h) key = Some s" "st_active s = Some a"
  shows "tk_states t key = Some s \<and> (h \<notin> tk_released t \<longrightarrow> tk_closures t h \<noteq> Some (al_lease a) \<or> ls_key (al_lease a) \<noteq> key)"
  using assms by (auto simp: release_def split: option.splits if_splits)

lemma release_epoch:
  assumes "tk_states (release t h) key = Some s"
  shows "\<exists>s0. tk_states t key = Some s0 \<and> st_policyEpoch s0 = st_policyEpoch s"
  using assms by (auto simp: release_def split: option.splits if_splits)

lemma release_inv:
  assumes inv: "tracker_inv t"
  shows "tracker_inv (release t h)"
proof (rule tracker_invI)
  fix key s
  assume s: "tk_states (release t h) key = Some s"
  show "st_policyEpoch s = tk_epoch (release t h)"
    using release_epoch[OF s] tracker_invD(1)[OF inv] by (auto simp: release_def split: option.splits)
  fix a
  assume a: "st_active s = Some a"
  have old: "owner_ok t key s a" using release_states[OF s a] tracker_invD(2)[OF inv] a by blast
  then have keep: "h \<in> tk_released t \<or> tk_closures t h \<noteq> Some (al_lease a)"
    using release_states[OF s a] by (auto simp: owner_ok_def)
  show "owner_ok (release t h) key s a"
    using old keep by (auto simp: owner_ok_def release_def split: option.splits)
next
  fix h'
  assume "tk_next (release t h) \<le> h'"
  then show "tk_closures (release t h) h' = None \<and> h' \<notin> tk_cancelled (release t h) \<and> h' \<notin> tk_released (release t h)"
    using tracker_invD(3)[OF inv, of h'] by (auto simp: release_def split: option.splits)
qed (use tracker_invD(4)[OF inv] in \<open>auto simp: release_def split: option.splits\<close>)

lemma tracker_apply_inv: "tracker_inv t \<Longrightarrow> tracker_inv (tracker_apply e t)"
  by (cases e) (simp_all add: Observe_inv ObserveDelete_inv MarkAbsent_inv InvalidateAll_inv Acquire_inv release_inv)

lemma NewFreshnessTracker_inv: "tracker_inv NewFreshnessTracker"
  by (simp add: tracker_inv_def NewFreshnessTracker_def)

lemma tracker_run_inv: "tracker_run t es t' \<Longrightarrow> tracker_inv t \<Longrightarrow> tracker_inv t'"
  by (induction rule: tracker_run.induct) (simp_all add: tracker_apply_inv)

section \<open>Epochs\<close>

definition invalidations :: "tracker_event list \<Rightarrow> nat" where
  "invalidations es = length (filter (\<lambda>e. e = EvInvalidateAll) es)"

lemma tracker_apply_epoch: "tk_epoch (tracker_apply e t) = tk_epoch t + (if e = EvInvalidateAll then 1 else 0)"
  by (cases e) (auto simp: Observe_def ObserveDelete_def MarkAbsent_def InvalidateAll_def Acquire_def release_def
      Let_def split: option.splits)

lemma tracker_run_epoch: "tracker_run t es t' \<Longrightarrow> tk_epoch t' = tk_epoch t + of_nat (invalidations es)"
  by (induction rule: tracker_run.induct) (auto simp: invalidations_def tracker_apply_epoch)

lemma IsLeaseCurrent_epoch: "IsLeaseCurrent t lease \<Longrightarrow> ls_policyEpoch lease = tk_epoch t"
  by (auto simp: IsLeaseCurrent_def split: option.splits)

text \<open>The contract of \<^verbatim>\<open>authorization.Verifier\<close> as capability holders use it: a subject can only be current
  in the epoch it was issued in.\<close>

locale epoch_verifier =
  fixes is_current :: "'t \<Rightarrow> Subject \<Rightarrow> bool"
    and epoch :: "'t \<Rightarrow> 64 word"
  assumes current_epoch: "is_current t s \<Longrightarrow> ok (Subject_Validate s) \<and> sub_policyEpoch s = epoch t"
begin

lemma capability_epoch:
  "Capability_IsCurrent c (Some (is_current t)) \<Longrightarrow> sub_policyEpoch (cap_subject c) = epoch t"
  using current_epoch by (simp add: Capability_IsCurrent_def)

lemma capability_stale:
  "Capability_IsCurrent c (Some (is_current t)) \<Longrightarrow> epoch t \<noteq> epoch t' \<Longrightarrow> \<not> Capability_IsCurrent c (Some (is_current t'))"
  using capability_epoch by metis

end

interpretation freshness: epoch_verifier Tracker_IsCurrent tk_epoch
  by unfold_locales
    (auto simp: Tracker_IsCurrent_def lease_of_def dest!: IsLeaseCurrent_epoch split: if_splits)

lemma of_nat_64_nonzero: "0 < k \<Longrightarrow> k < 2 ^ 64 \<Longrightarrow> (of_nat k :: 64 word) \<noteq> 0"
  by (simp add: word_of_nat_eq_0_iff nat_dvd_not_less)

section \<open>Owners\<close>

lemma owner_current:
  assumes "tracker_inv t" "tk_states t key = Some s" "st_active s = Some a"
  shows "IsLeaseCurrent t (al_lease a)" "ls_key (al_lease a) = key"
  using tracker_invD(1)[OF assms(1,2)] tracker_invD(2)[OF assms] assms(2)
  by (simp_all add: owner_ok_def IsLeaseCurrent_def)

lemma cancelled_mono: "h \<in> tk_cancelled t \<Longrightarrow> h \<in> tk_cancelled (tracker_apply e t)"
  by (cases e) (auto simp: Observe_def ObserveDelete_def MarkAbsent_def InvalidateAll_def Acquire_def release_def
      Let_def split: option.splits)

text \<open>A step either leaves the owner of a key in place or cancels its context.\<close>

lemma owner_step:
  assumes inv: "tracker_inv t" and s: "tk_states t key = Some s" "st_active s = Some a"
  shows "(\<exists>s'. tk_states (tracker_apply e t) key = Some s' \<and> st_active s' = Some a) \<or>
    al_cancel a \<in> tk_cancelled (tracker_apply e t) \<or>
    (\<exists>h. e = EvRelease h \<and> h \<noteq> al_cancel a \<and> tk_closures t h = Some (al_lease a))"
proof (cases e)
  case (EvRelease h)
  show ?thesis
  proof (cases "tk_closures t h = Some (al_lease a) \<and> h = al_cancel a")
    case True
    moreover have "al_cancel a \<notin> tk_released t" "tk_closures t (al_cancel a) = Some (al_lease a)"
      using tracker_invD(2)[OF inv s] by (simp_all add: owner_ok_def)
    ultimately show ?thesis using EvRelease by (simp add: release_def)
  next
    case False
    then show ?thesis using EvRelease s by (auto simp: release_def split: option.splits)
  qed
next
  case EvInvalidateAll
  then show ?thesis using s by (auto simp: InvalidateAll_def Let_def cancelled_by_def ran_def)
qed (use s in \<open>auto simp: Observe_def ObserveDelete_def MarkAbsent_def Acquire_def Let_def ensureState_def cancelled_by_def\<close>)

section \<open>Properties\<close>

text \<open>In every reachable interleaving the policy epoch of each tracked key is the tracker's, the owner of a
  key holds a current lease for that key, and any step after which this lease is no longer current has cancelled the
  owner's context.\<close>

theorem tracker_owner_safe:
  assumes "tracker_run NewFreshnessTracker es t" and "tk_states t key = Some s" and "st_active s = Some a"
  shows "st_policyEpoch s = tk_epoch t \<and> IsLeaseCurrent t (al_lease a) \<and> ls_key (al_lease a) = key \<and>
    al_cancel a \<notin> tk_cancelled t \<and>
    (\<not> IsLeaseCurrent (tracker_apply e t) (al_lease a) \<longrightarrow> al_cancel a \<in> tk_cancelled (tracker_apply e t))"
proof -
  have inv: "tracker_inv t" by (rule tracker_run_inv[OF assms(1) NewFreshnessTracker_inv])
  have own: "owner_ok t key s a" by (rule tracker_invD(2)[OF inv assms(2,3)])
  have inv': "tracker_inv (tracker_apply e t)" by (rule tracker_apply_inv[OF inv])
  have "al_cancel a \<in> tk_cancelled (tracker_apply e t)" if stale: "\<not> IsLeaseCurrent (tracker_apply e t) (al_lease a)"
    using owner_step[OF inv assms(2,3), of e]
  proof (elim disjE exE conjE)
    fix s' assume "tk_states (tracker_apply e t) key = Some s'" "st_active s' = Some a"
    then show ?thesis using owner_current(1)[OF inv'] stale by simp
  next
    fix h assume h: "e = EvRelease h" "tk_closures t h = Some (al_lease a)"
    have "IsLeaseCurrent (release t h) (al_lease a)"
      using own assms(2) h(2) tracker_invD(1)[OF inv assms(2)]
      by (auto simp: IsLeaseCurrent_def release_def owner_ok_def split: option.splits)
    then show ?thesis using stale h(1) by simp
  qed simp
  then show ?thesis
    using own owner_current[OF inv assms(2,3)] tracker_invD(1)[OF inv assms(2)] by (simp add: owner_ok_def)
qed

definition wit_key :: NamespacedName where
  "wit_key = \<lparr>nn_namespace = ''ns'', nn_name = ''f''\<rparr>"

definition wit_acquired :: FreshnessTracker where
  "wit_acquired = tracker_apply (EvAcquire wit_key ''u'' 1) NewFreshnessTracker"

theorem tracker_owner_safe_witness:
  "\<exists>s a. tk_states wit_acquired wit_key = Some s \<and> st_active s = Some a \<and> IsLeaseCurrent wit_acquired (al_lease a) \<and>
    (\<not> IsLeaseCurrent (tracker_apply EvInvalidateAll wit_acquired) (al_lease a) \<longrightarrow>
      al_cancel a \<in> tk_cancelled (tracker_apply EvInvalidateAll wit_acquired))"
proof -
  have run: "tracker_run NewFreshnessTracker [EvAcquire wit_key ''u'' 1] wit_acquired"
    unfolding wit_acquired_def using run_step[OF run_nil, of NewFreshnessTracker "EvAcquire wit_key ''u'' 1"] by simp
  obtain s a where s: "tk_states wit_acquired wit_key = Some s" "st_active s = Some a"
    by (simp add: wit_acquired_def Acquire_def Let_def ensureState_def NewFreshnessTracker_def)
  note safe = tracker_owner_safe[OF run s, of EvInvalidateAll]
  show ?thesis
    by (rule exI[of _ s], rule exI[of _ a])
      (intro conjI s safe[THEN conjunct2, THEN conjunct1]
        safe[THEN conjunct2, THEN conjunct2, THEN conjunct2, THEN conjunct2])
qed

text \<open>C38: a lease, and every capability issued in its epoch, is never current again after a policy
  invalidation, for fewer than \<open>2^64\<close> invalidations, however the other operations interleave.\<close>

theorem invalidated_never_current:
  assumes "tracker_run t es t'" and "0 < invalidations es" and "invalidations es < 2 ^ 64"
    and "ls_policyEpoch lease = tk_epoch t" and "Capability_IsCurrent c (Some (Tracker_IsCurrent t))"
  shows "\<not> IsLeaseCurrent t' lease \<and> \<not> Capability_IsCurrent c (Some (Tracker_IsCurrent t'))"
proof -
  have ne: "tk_epoch t \<noteq> tk_epoch t'"
    using tracker_run_epoch[OF assms(1)] of_nat_64_nonzero[OF assms(2,3)] by simp
  then have "\<not> IsLeaseCurrent t' lease" using IsLeaseCurrent_epoch assms(4) by metis
  moreover have "\<not> Capability_IsCurrent c (Some (Tracker_IsCurrent t'))"
    by (rule freshness.capability_stale[OF assms(5) ne])
  ultimately show ?thesis by simp
qed

definition wit_lease_subject :: Subject where
  "wit_lease_subject = \<lparr>sub_key = wit_key, sub_uid = ''u'', sub_generation = 1, sub_policyEpoch = 0\<rparr>"

definition wit_current_capability :: Capability where
  "wit_current_capability = \<lparr>cap_subject = wit_lease_subject,
     cap_request = \<lparr>rq_sourceID = ''s'', rq_apiGroup = [], rq_kind = ''Pod'', rq_namespace = ''ns'', rq_scope = ScopeNamespaced\<rparr>,
     cap_record = zero_record\<lparr>rec_kind := RecordPolicyDecision, rec_outcome := OutcomeAllowed,
       rec_reason := PolicyReasonText ReasonAllowed\<rparr>\<rparr>"

theorem invalidated_never_current_witness:
  "Capability_IsCurrent wit_current_capability (Some (Tracker_IsCurrent wit_acquired)) \<and>
   \<not> Capability_IsCurrent wit_current_capability (Some (Tracker_IsCurrent (InvalidateAll wit_acquired)))"
proof -
  have run: "tracker_run wit_acquired [EvInvalidateAll] (InvalidateAll wit_acquired)"
    using run_step[OF run_nil, of wit_acquired EvInvalidateAll] by simp
  have cur: "Capability_IsCurrent wit_current_capability (Some (Tracker_IsCurrent wit_acquired))"
    by (simp add: Capability_IsCurrent_def Capability_Valid_def wit_current_capability_def wit_lease_subject_def
        Subject_Validate_def validRequest_def Tracker_IsCurrent_def IsLeaseCurrent_def lease_of_def wit_acquired_def
        Acquire_def Let_def ensureState_def NewFreshnessTracker_def wit_key_def)
  show ?thesis
    using invalidated_never_current[OF run _ _ _ cur, of "lease_of wit_lease_subject\<lparr>ls_policyEpoch := tk_epoch wit_acquired\<rparr>"] cur
    by (simp add: invalidations_def)
qed

text \<open>Without the gate the guard against a second caller can be defeated: a late release of a
  cancelled lease compares leases by value and frees an equal lease acquired in the meantime, so a third
  caller acquires the key while the second still holds a live context.\<close>

theorem stale_release_frees_new_lease:
  "\<exists>es t h h' lease. tracker_run NewFreshnessTracker es t \<and> h \<noteq> h' \<and> live t h \<and> live t h' \<and>
     tk_closures t h = Some lease \<and> tk_closures t h' = Some lease"
proof -
  let ?a = "EvAcquire wit_key ''u'' 1"
  let ?es = "[?a, EvMarkAbsent wit_key, ?a, EvRelease 0, ?a]"
  let ?t = "tracker_apply ?a (tracker_apply (EvRelease 0) (tracker_apply ?a (tracker_apply (EvMarkAbsent wit_key)
      (tracker_apply ?a NewFreshnessTracker))))"
  have "tracker_run NewFreshnessTracker ((((([] @ [?a]) @ [EvMarkAbsent wit_key]) @ [?a]) @ [EvRelease 0]) @ [?a]) ?t"
    by (intro run_step run_nil)
  then have run: "tracker_run NewFreshnessTracker ?es ?t" by simp
  obtain lease where l: "tk_closures ?t 1 = Some lease" "tk_closures ?t 2 = Some lease" "live ?t 1" "live ?t 2"
    by (simp add: live_def Acquire_def MarkAbsent_def release_def Let_def ensureState_def cancelActive_def
        cancelled_by_def NewFreshnessTracker_def)
  have "(1 :: nat) \<noteq> 2" by simp
  then show ?thesis
    by (intro exI[of _ ?es] exI[of _ ?t] exI[of _ 1] exI[of _ 2] exI[of _ lease] conjI run l)
qed

end
