(* ===== verification/Routes.thy ===== *)
theory Routes
  imports Tracker SelectionPlanning LimitProfile "HOL-Library.AList"
begin

text \<open>
  The registry of source watches (\<^verbatim>\<open>src/internal/reconciliation/routes.go\<close>): exact watch addresses, authorized routes, the two
  indexes of the bindings, one supervisor per watched address within a capacity, and the permits a supervisor obtains before each
  \<^verbatim>\<open>WATCH\<close>.

  Every function below that takes a registry is one section run under the registry's mutex, or one under the mutex of a
  supervisor; \<open>registry_step\<close> interleaves them with changes of the freshness tracker.  A Go map is an association list and
  ranging over it follows the list; no result below depends on this order.  A supervisor is its position in
  \<open>rg_supervisors\<close> and a ready channel its number, so that pointer comparisons are comparisons of numbers; \<open>rg_closed\<close>
  lists the ready channels in the order in which they were closed.
\<close>

section \<open>Addresses, routes and permits\<close>

record WatchAddress =
  wa_gvr :: GroupVersionResource
  wa_scope :: Scope
  wa_namespace :: string

definition WatchAddress_Validate :: "K8sValidation \<Rightarrow> WatchAddress \<Rightarrow> (string, unit) res" where
  "WatchAddress_Validate k a =
    (if gvr_version (wa_gvr a) = [] \<or> gvr_resource (wa_gvr a) = [] then Inl ''watch address requires a group version resource''
     else if \<not> Scope_Valid (wa_scope a) then Inl ''watch address scope is invalid''
     else if wa_scope a = ScopeCluster then
       (if wa_namespace a \<noteq> [] then Inl ''cluster watch address cannot contain a namespace'' else Inr ())
     else if \<not> isDNS1123Label k (wa_namespace a) then Inl ''namespaced watch address requires a valid namespace''
     else Inr ())"

definition AddressForTarget :: "K8sValidation \<Rightarrow> ReadTarget \<Rightarrow> (string, WatchAddress) res" where
  "AddressForTarget k t =
    (let a = \<lparr>wa_gvr = rt_gvr t, wa_scope = rt_scope t, wa_namespace = rt_namespace t\<rparr> in
     res_bind (WatchAddress_Validate k a) (\<lambda>_. Inr a))"

record RouteBinding =
  rb_address :: WatchAddress
  rb_sourceID :: string
  rb_owner :: NamespacedName
  rb_ownerUID :: UID
  rb_generation :: int
  rb_subject :: Subject
  rb_capability :: Capability

record routeBindingKey =
  rk_address :: WatchAddress
  rk_sourceID :: string
  rk_owner :: NamespacedName
  rk_ownerUID :: UID
  rk_generation :: int
  rk_policyEpoch :: "64 word"

definition keyForBinding :: "RouteBinding \<Rightarrow> routeBindingKey" where
  "keyForBinding b = \<lparr>rk_address = rb_address b, rk_sourceID = rb_sourceID b, rk_owner = rb_owner b, rk_ownerUID = rb_ownerUID b,
     rk_generation = rb_generation b, rk_policyEpoch = sub_policyEpoch (rb_subject b)\<rparr>"

text \<open>An authorized route is its binding.\<close>

definition NewAuthorizedRoute :: "K8sValidation \<Rightarrow> ReadTarget \<Rightarrow> Capability \<Rightarrow> (string, RouteBinding) res" where
  "NewAuthorizedRoute k target capability =
    (let subject = cap_subject capability in
     if isl (Subject_Validate subject) then Inl ''authorized route subject is incomplete''
     else if rt_sourceID target = [] then Inl ''authorized route source identity is empty''
     else if \<not> Capability_Valid capability \<or> cap_request capability \<noteq> RequestForTarget target then
       Inl ''authorized route requires a matching allowed capability''
     else res_bind (AddressForTarget k target) (\<lambda>address.
       Inr \<lparr>rb_address = address, rb_sourceID = rt_sourceID target, rb_owner = sub_key subject, rb_ownerUID = sub_uid subject,
            rb_generation = sub_generation subject, rb_subject = subject, rb_capability = capability\<rparr>))"

record WatchPermit =
  wp_address :: WatchAddress
  wp_capabilities :: "Capability list"

definition WatchPermit_valid :: "K8sValidation \<Rightarrow> WatchPermit \<Rightarrow> bool" where
  "WatchPermit_valid k p =
    (if isl (WatchAddress_Validate k (wp_address p)) \<or> wp_capabilities p = [] then False
     else list_all (\<lambda>c. let request = cap_request c in
       Capability_Valid c \<and> rq_apiGroup request = gvr_group (wa_gvr (wp_address p)) \<and> rq_scope request = wa_scope (wp_address p) \<and>
       rq_namespace request = wa_namespace (wp_address p)) (wp_capabilities p))"

text \<open>The metadata watch that reaches the API server: the resource, the namespace of a namespaced resource and the resume
  token.  No selector is sent.\<close>

record WatchRequest =
  wr_gvr :: GroupVersionResource
  wr_namespace :: "string option"
  wr_resourceVersion :: string
  wr_bookmarks :: bool

definition ClientMetadataWatcher_Watch :: "K8sValidation \<Rightarrow> bool \<Rightarrow> WatchPermit \<Rightarrow> string \<Rightarrow> (string, WatchRequest) res" where
  "ClientMetadataWatcher_Watch k configured permit resourceVersion =
    (if \<not> configured then Inl ''metadata watcher client is not configured''
     else if \<not> WatchPermit_valid k permit then Inl ''metadata watch permit is invalid''
     else res_bind (WatchAddress_Validate k (wp_address permit)) (\<lambda>_.
       Inr \<lparr>wr_gvr = wa_gvr (wp_address permit),
            wr_namespace = (if wa_scope (wp_address permit) = ScopeNamespaced then Some (wa_namespace (wp_address permit)) else None),
            wr_resourceVersion = resourceVersion, wr_bookmarks = True\<rparr>))"

fun scope_int :: "Scope \<Rightarrow> int" where
  "scope_int ScopeNamespaced = 0"
| "scope_int ScopeCluster = 1"
| "scope_int (ScopeOther i) = i"

definition watchAddressLess :: "WatchAddress \<Rightarrow> WatchAddress \<Rightarrow> bool" where
  "watchAddressLess l r =
    (if gvr_group (wa_gvr l) \<noteq> gvr_group (wa_gvr r) then gvr_group (wa_gvr l) < gvr_group (wa_gvr r)
     else if gvr_version (wa_gvr l) \<noteq> gvr_version (wa_gvr r) then gvr_version (wa_gvr l) < gvr_version (wa_gvr r)
     else if gvr_resource (wa_gvr l) \<noteq> gvr_resource (wa_gvr r) then gvr_resource (wa_gvr l) < gvr_resource (wa_gvr r)
     else if wa_scope l \<noteq> wa_scope r then scope_int (wa_scope l) < scope_int (wa_scope r)
     else wa_namespace l < wa_namespace r)"

section \<open>Registry\<close>

record routeRegistryOptions =
  ro_watchBackoffBase :: int
  ro_watchBackoffMax :: int
  ro_maxActiveWatches :: int
  ro_establishmentTimeout :: int

definition WithRouteWatchBackoff :: "int \<Rightarrow> int \<Rightarrow> routeRegistryOptions \<Rightarrow> routeRegistryOptions" where
  "WithRouteWatchBackoff base maximum o' =
    (let o1 = (if base > 0 then o'\<lparr>ro_watchBackoffBase := base\<rparr> else o') in
     if maximum > 0 then o1\<lparr>ro_watchBackoffMax := maximum\<rparr> else o1)"

definition WithMaxActiveWatches :: "int \<Rightarrow> routeRegistryOptions \<Rightarrow> routeRegistryOptions" where
  "WithMaxActiveWatches capacity o' = (if capacity > 0 then o'\<lparr>ro_maxActiveWatches := capacity\<rparr> else o')"

definition WithRouteWatchEstablishmentTimeout :: "int \<Rightarrow> routeRegistryOptions \<Rightarrow> routeRegistryOptions" where
  "WithRouteWatchEstablishmentTimeout timeout o' = (if timeout > 0 then o'\<lparr>ro_establishmentTimeout := timeout\<rparr> else o')"

text \<open>\<open>sv_ready\<close> is the number of the ready channel, if there is one.\<close>

record watchSupervisor =
  sv_address :: WatchAddress
  sv_started :: bool
  sv_ready :: "nat option"
  sv_firstAttempt :: bool
  sv_recoveryPending :: bool

type_synonym bindings = "(routeBindingKey \<times> RouteBinding) list"

record RouteRegistry =
  rg_watcher :: bool
  rg_options :: routeRegistryOptions
  rg_byOwner :: "(NamespacedName \<times> bindings) list"
  rg_byTarget :: "(WatchAddress \<times> bindings) list"
  rg_watches :: "(WatchAddress \<times> nat) list"
  rg_deferred :: "(WatchAddress \<times> bool) list"
  rg_started :: bool
  rg_supervisors :: "watchSupervisor list"
  rg_channels :: nat
  rg_closed :: "nat list"

text \<open>Durations are nanoseconds.\<close>

definition defaultRouteOptions :: routeRegistryOptions where
  "defaultRouteOptions = \<lparr>ro_watchBackoffBase = 100000000, ro_watchBackoffMax = 5000000000, ro_maxActiveWatches = 1024,
     ro_establishmentTimeout = 30000000000\<rparr>"

definition NewRouteRegistry :: "bool \<Rightarrow> (routeRegistryOptions \<Rightarrow> routeRegistryOptions) list \<Rightarrow> RouteRegistry" where
  "NewRouteRegistry watcher options =
    (let settings = foldl (\<lambda>s opt. opt s) defaultRouteOptions options;
         settings' = (if ro_watchBackoffMax settings < ro_watchBackoffBase settings
           then settings\<lparr>ro_watchBackoffMax := ro_watchBackoffBase settings\<rparr> else settings) in
     \<lparr>rg_watcher = watcher, rg_options = settings', rg_byOwner = [], rg_byTarget = [], rg_watches = [], rg_deferred = [],
      rg_started = False, rg_supervisors = [], rg_channels = 0, rg_closed = []\<rparr>)"

subsection \<open>Indexes\<close>

text \<open>A missing entry of a map of maps reads as the empty map.\<close>

definition inner :: "('a \<times> ('k \<times> 'v) list) list \<Rightarrow> 'a \<Rightarrow> ('k \<times> 'v) list" where
  "inner m a = (case map_of m a of None \<Rightarrow> [] | Some xs \<Rightarrow> xs)"

definition putInner :: "'a \<Rightarrow> 'k \<Rightarrow> 'v \<Rightarrow> ('a \<times> ('k \<times> 'v) list) list \<Rightarrow> ('a \<times> ('k \<times> 'v) list) list" where
  "putInner a k v m = AList.update a (AList.update k v (inner m a)) m"

definition delInner :: "'a \<Rightarrow> 'k \<Rightarrow> ('a \<times> ('k \<times> 'v) list) list \<Rightarrow> ('a \<times> ('k \<times> 'v) list) list" where
  "delInner a k m =
    (let xs = AList.delete k (inner m a) in if xs = [] then AList.delete a m else AList.update a xs m)"

definition addBindingLocked :: "RouteBinding \<Rightarrow> RouteRegistry \<Rightarrow> RouteRegistry" where
  "addBindingLocked b r = r\<lparr>rg_byOwner := putInner (rb_owner b) (keyForBinding b) b (rg_byOwner r),
     rg_byTarget := putInner (rb_address b) (keyForBinding b) b (rg_byTarget r)\<rparr>"

definition removeBindingLocked :: "RouteBinding \<Rightarrow> RouteRegistry \<Rightarrow> nat option \<times> RouteRegistry" where
  "removeBindingLocked b r =
    (let key = keyForBinding b; a = rb_address b in
     if map_of (rg_byOwner r) (rb_owner b) = None then (None, r)
     else
       let r1 = r\<lparr>rg_byOwner := delInner (rb_owner b) key (rg_byOwner r)\<rparr> in
       if map_of (rg_byTarget r1) a = None then (None, r1)
       else
         let r2 = r1\<lparr>rg_byTarget := delInner a key (rg_byTarget r1)\<rparr> in
         if map_of (rg_byTarget r2) a \<noteq> None then (None, r2)
         else (map_of (rg_watches r2) a,
           r2\<lparr>rg_deferred := AList.delete a (rg_deferred r2), rg_watches := AList.delete a (rg_watches r2)\<rparr>))"

text \<open>The loops that remove bindings collect the supervisors to stop.\<close>

fun removeBindings :: "RouteBinding list \<Rightarrow> RouteRegistry \<Rightarrow> nat list \<times> RouteRegistry" where
  "removeBindings [] r = ([], r)"
| "removeBindings (b # bs) r =
    (case removeBindingLocked b r of (stop, r1) \<Rightarrow>
      (case removeBindings bs r1 of (stops, r2) \<Rightarrow> (case stop of None \<Rightarrow> stops | Some s \<Rightarrow> s # stops, r2)))"

definition watchCapacity :: "RouteRegistry \<Rightarrow> int" where
  "watchCapacity r = (if ro_maxActiveWatches (rg_options r) \<le> 0 then 1024 else ro_maxActiveWatches (rg_options r))"

fun startWatches :: "WatchAddress list \<Rightarrow> RouteRegistry \<Rightarrow> nat list \<times> RouteRegistry" where
  "startWatches [] r = ([], r)"
| "startWatches (a # as) r =
    (if int (length (rg_watches r)) \<ge> watchCapacity r then ([], r)
     else if map_of (rg_watches r) a \<noteq> None then startWatches as r
     else
       let id = length (rg_supervisors r);
           r1 = r\<lparr>rg_deferred := AList.delete a (rg_deferred r),
                  rg_supervisors := rg_supervisors r @ [\<lparr>sv_address = a, sv_started = False, sv_ready = None, sv_firstAttempt = False,
                    sv_recoveryPending = (map_of (rg_deferred r) a = Some True)\<rparr>],
                  rg_watches := AList.update a id (rg_watches r)\<rparr> in
       (case startWatches as r1 of (ids, r2) \<Rightarrow> (id # ids, r2)))"

definition ensureWatchCapacityLocked :: "RouteRegistry \<Rightarrow> nat list \<times> RouteRegistry" where
  "ensureWatchCapacityLocked r = startWatches (sort_by watchAddressLess (map fst (rg_byTarget r))) r"

definition tracker_current :: "FreshnessTracker option \<Rightarrow> Subject \<Rightarrow> bool" where
  "tracker_current t s = (case t of None \<Rightarrow> False | Some t' \<Rightarrow> Tracker_IsCurrent t' s)"

definition pruneStaleLocked :: "FreshnessTracker option \<Rightarrow> WatchAddress \<Rightarrow> RouteRegistry \<Rightarrow> nat list \<times> RouteRegistry" where
  "pruneStaleLocked t a r =
     removeBindings (filter (\<lambda>b. \<not> tracker_current t (rb_subject b)) (map snd (inner (rg_byTarget r) a))) r"

subsection \<open>Supervisors\<close>

definition startWithReady :: "nat \<Rightarrow> RouteRegistry \<Rightarrow> nat option \<times> RouteRegistry" where
  "startWithReady s r =
    (if \<not> rg_watcher r then (None, r)
     else
       let v = rg_supervisors r ! s in
       if sv_started v then (sv_ready v, r)
       else
         let c = rg_channels r in
         (Some c, r\<lparr>rg_channels := Suc c,
            rg_supervisors := (rg_supervisors r)[s := v\<lparr>sv_started := True, sv_ready := Some c, sv_firstAttempt := True\<rparr>]\<rparr>))"

definition close_ready :: "nat option \<Rightarrow> RouteRegistry \<Rightarrow> RouteRegistry" where
  "close_ready c r = (case c of None \<Rightarrow> r | Some n \<Rightarrow> r\<lparr>rg_closed := rg_closed r @ [n]\<rparr>)"

definition stopSupervisor :: "nat \<Rightarrow> RouteRegistry \<Rightarrow> RouteRegistry" where
  "stopSupervisor s r =
    (let v = rg_supervisors r ! s in
     close_ready (sv_ready v) (r\<lparr>rg_supervisors := (rg_supervisors r)[s := v\<lparr>sv_started := False, sv_firstAttempt := False, sv_ready := None\<rparr>]\<rparr>))"

definition signalReady :: "nat \<Rightarrow> RouteRegistry \<Rightarrow> RouteRegistry" where
  "signalReady s r =
    (let v = rg_supervisors r ! s in
     if \<not> sv_firstAttempt v then r
     else close_ready (sv_ready v) (r\<lparr>rg_supervisors := (rg_supervisors r)[s := v\<lparr>sv_firstAttempt := False, sv_ready := None\<rparr>]\<rparr>))"

definition markRecoveryPending :: "nat \<Rightarrow> RouteRegistry \<Rightarrow> RouteRegistry" where
  "markRecoveryPending s r = r\<lparr>rg_supervisors := (rg_supervisors r)[s := (rg_supervisors r ! s)\<lparr>sv_recoveryPending := True\<rparr>]\<rparr>"

definition takeRecoveryPending :: "nat \<Rightarrow> RouteRegistry \<Rightarrow> bool \<times> RouteRegistry" where
  "takeRecoveryPending s r =
    (sv_recoveryPending (rg_supervisors r ! s),
     r\<lparr>rg_supervisors := (rg_supervisors r)[s := (rg_supervisors r ! s)\<lparr>sv_recoveryPending := False\<rparr>]\<rparr>)"

definition registered :: "nat \<Rightarrow> RouteRegistry \<Rightarrow> bool" where
  "registered s r \<longleftrightarrow> rg_started r \<and> map_of (rg_watches r) (sv_address (rg_supervisors r ! s)) = Some s \<and>
     inner (rg_byTarget r) (sv_address (rg_supervisors r ! s)) \<noteq> []"

definition startSupervisor :: "nat \<Rightarrow> RouteRegistry \<Rightarrow> RouteRegistry" where
  "startSupervisor s r = (if registered s r then snd (startWithReady s r) else r)"

text \<open>The section of \<^verbatim>\<open>startSupervisorAndWait\<close> before it waits: the channel to wait for, if any.\<close>

definition startForWait :: "nat \<Rightarrow> RouteRegistry \<Rightarrow> nat option \<times> RouteRegistry" where
  "startForWait s r = (if registered s r then startWithReady s r else (None, r))"

definition supervisorCurrent :: "FreshnessTracker option \<Rightarrow> nat \<Rightarrow> RouteRegistry \<Rightarrow> bool" where
  "supervisorCurrent t s r =
    (if t = None then False
     else if \<not> rg_started r \<or> map_of (rg_watches r) (sv_address (rg_supervisors r ! s)) \<noteq> Some s then False
     else list_ex (\<lambda>b. tracker_current t (rb_subject b)) (map snd (inner (rg_byTarget r) (sv_address (rg_supervisors r ! s)))))"

subsection \<open>Operations\<close>

datatype route_error = RegistryError string | StaleRuntime string

definition Route_Start :: "FreshnessTracker option \<Rightarrow> bool \<Rightarrow> RouteRegistry \<Rightarrow> (string, RouteRegistry) res" where
  "Route_Start t queue r =
    (if \<not> rg_watcher r then Inl ''route registry metadata watcher is required''
     else if t = None then Inl ''route registry freshness tracker is required''
     else if \<not> queue then Inl ''route registry queue is required''
     else if rg_started r then Inl ''route registry cannot be started twice''
     else Inr (fold (\<lambda>s r. snd (startWithReady s r)) (map snd (rg_watches r)) (r\<lparr>rg_started := True\<rparr>)))"

definition lease_current :: "FreshnessTracker option \<Rightarrow> Lease \<Rightarrow> bool" where
  "lease_current t lease = (case t of None \<Rightarrow> True | Some t' \<Rightarrow> IsLeaseCurrent t' lease)"

definition subject_of :: "Lease \<Rightarrow> Subject" where
  "subject_of lease = \<lparr>sub_key = ls_key lease, sub_uid = ls_uid lease, sub_generation = ls_generation lease,
     sub_policyEpoch = ls_policyEpoch lease\<rparr>"

text \<open>The checks of \<^verbatim>\<open>Replace\<close> before it takes the lock: one route, then all, in order.\<close>

definition validateRoute :: "K8sValidation \<Rightarrow> Lease \<Rightarrow> RouteBinding \<Rightarrow> (string, unit) res" where
  "validateRoute k lease b =
    (let c = rb_capability b; q = cap_request c in
     if rb_owner b \<noteq> ls_key lease \<or> rb_ownerUID b \<noteq> ls_uid lease \<or> rb_generation b \<noteq> ls_generation lease \<or> rb_subject b \<noteq> subject_of lease
     then Inl ''authorized route does not match freshness lease''
     else if \<not> Capability_Valid c \<or> cap_subject c \<noteq> rb_subject b \<or> rq_sourceID q \<noteq> rb_sourceID b \<or> rq_scope q \<noteq> wa_scope (rb_address b) \<or>
       rq_namespace q \<noteq> wa_namespace (rb_address b) \<or> rq_apiGroup q \<noteq> gvr_group (wa_gvr (rb_address b))
     then Inl ''authorized route does not contain a matching capability''
     else res_bind (WatchAddress_Validate k (rb_address b)) (\<lambda>_.
       if rb_sourceID b = [] then Inl ''authorized route source identity is empty'' else Inr ()))"

fun validateRoutes :: "K8sValidation \<Rightarrow> Lease \<Rightarrow> bindings \<Rightarrow> RouteBinding list \<Rightarrow> (string, bindings) res" where
  "validateRoutes k lease new [] = Inr new"
| "validateRoutes k lease new (b # bs) =
    res_bind (validateRoute k lease b) (\<lambda>_.
      if map_of new (keyForBinding b) \<noteq> None then Inl ''duplicate authorized route binding''
      else validateRoutes k lease (new @ [(keyForBinding b, b)]) bs)"

definition supervisorsForBindingsLocked :: "bindings \<Rightarrow> RouteRegistry \<Rightarrow> nat list" where
  "supervisorsForBindingsLocked bs r =
     List.map_filter (map_of (rg_watches r)) (sort_by watchAddressLess (remdups (map (rb_address \<circ> snd) bs)))"

text \<open>The locked section: old bindings that are not wanted go, wanted ones that are missing come; a kept key keeps its binding.
  The result also has the supervisors to stop and those to start and wait for.\<close>

definition replaceLocked ::
  "FreshnessTracker option \<Rightarrow> Lease \<Rightarrow> bindings \<Rightarrow> RouteRegistry \<Rightarrow> (route_error, nat list \<times> nat list \<times> RouteRegistry) res" where
  "replaceLocked t lease new r =
    (if \<not> lease_current t lease then Inl (StaleRuntime ''route-replace'')
     else
       let old = inner (rg_byOwner r) (ls_key lease);
           (stops, r1) = removeBindings (map snd (filter (\<lambda>(key, _). map_of new key = None) old)) r;
           kept = filter (\<lambda>(key, _). map_of new key \<noteq> None) old;
           r2 = fold addBindingLocked (map snd (filter (\<lambda>(key, _). map_of kept key = None) new)) r1;
           r3 = (if new = [] then r2\<lparr>rg_byOwner := AList.delete (ls_key lease) (rg_byOwner r2)\<rparr> else r2);
           r4 = snd (ensureWatchCapacityLocked r3);
           r5 = (if rg_started r4
             then r4\<lparr>rg_deferred := fold (\<lambda>a d. if map_of (rg_watches r4) a = None then AList.update a True d else d)
               (map (rb_address \<circ> snd) new) (rg_deferred r4)\<rparr>
             else r4) in
       Inr (stops, supervisorsForBindingsLocked new r5, r5))"

definition pruneStaleOwner :: "FreshnessTracker option \<Rightarrow> NamespacedName \<Rightarrow> RouteRegistry \<Rightarrow> nat list \<times> nat list \<times> RouteRegistry" where
  "pruneStaleOwner t owner r =
    (let (stops, r1) = removeBindings (filter (\<lambda>b. \<not> tracker_current t (rb_subject b)) (map snd (inner (rg_byOwner r) owner))) r;
         (starts, r2) = ensureWatchCapacityLocked r1 in
     (stops, starts, r2))"

text \<open>What follows every locked section: stop and, once the registry runs, start supervisors.\<close>

definition settle :: "nat list \<times> nat list \<times> RouteRegistry \<Rightarrow> RouteRegistry" where
  "settle x = (case x of (stops, starts, r) \<Rightarrow>
     let r1 = fold stopSupervisor stops r in if rg_started r then fold startSupervisor starts r1 else r1)"

text \<open>Waiting for the supervisors in order; \<open>waits c\<close> is the error of the wait on channel \<open>c\<close>, if it ends by a context.\<close>

fun waitAll :: "(nat \<Rightarrow> string option) \<Rightarrow> nat list \<Rightarrow> RouteRegistry \<Rightarrow> string option \<times> RouteRegistry" where
  "waitAll waits [] r = (None, r)"
| "waitAll waits (s # ss) r =
    (case startForWait s r of (ready, r1) \<Rightarrow>
      (case ready of
         None \<Rightarrow> waitAll waits ss r1
       | Some c \<Rightarrow> (case waits c of Some e \<Rightarrow> (Some e, r1) | None \<Rightarrow> waitAll waits ss r1)))"

text \<open>\<open>t\<close>, \<open>t'\<close> and \<open>t''\<close> are the tracker at the first check, at the locked section and after an interrupted wait.\<close>

definition Replace ::
  "K8sValidation \<Rightarrow> FreshnessTracker option \<Rightarrow> FreshnessTracker option \<Rightarrow> FreshnessTracker option \<Rightarrow> (nat \<Rightarrow> string option) \<Rightarrow>
   Lease \<Rightarrow> RouteBinding list \<Rightarrow> RouteRegistry \<Rightarrow> route_error option \<times> RouteRegistry" where
  "Replace k t t' t'' waits lease routes r =
    (if \<not> lease_current t lease then (Some (StaleRuntime ''route-replace''), r)
     else case validateRoutes k lease [] routes of
       Inl e \<Rightarrow> (Some (RegistryError e), r)
     | Inr new \<Rightarrow>
        (case replaceLocked t' lease new r of
           Inl e \<Rightarrow> (Some e, r)
         | Inr (stops, ws, r1) \<Rightarrow>
            let r2 = fold stopSupervisor stops r1 in
            if \<not> rg_started r1 then (None, r2)
            else
              (case waitAll waits ws r2 of
                 (None, r3) \<Rightarrow> (None, r3)
               | (Some e, r3) \<Rightarrow> (Some (RegistryError e), settle (pruneStaleOwner t'' (ls_key lease) r3)))))"

definition removeOwnerLocked :: "NamespacedName \<Rightarrow> RouteRegistry \<Rightarrow> nat list \<times> nat list \<times> RouteRegistry" where
  "removeOwnerLocked owner r =
    (let (stops, r1) = removeBindings (map snd (inner (rg_byOwner r) owner)) r;
         (starts, r2) = ensureWatchCapacityLocked r1 in
     (stops, starts, r2))"

definition RemoveOwner :: "NamespacedName \<Rightarrow> RouteRegistry \<Rightarrow> RouteRegistry" where
  "RemoveOwner owner r = settle (removeOwnerLocked owner r)"

definition removeAllLocked :: "RouteRegistry \<Rightarrow> nat list \<times> nat list \<times> RouteRegistry" where
  "removeAllLocked r = (map snd (rg_watches r), [], r\<lparr>rg_byOwner := [], rg_byTarget := [], rg_watches := []\<rparr>)"

definition RemoveAll :: "RouteRegistry \<Rightarrow> RouteRegistry" where
  "RemoveAll r = settle (removeAllLocked r)"

definition pruneAddressLocked :: "FreshnessTracker option \<Rightarrow> WatchAddress \<Rightarrow> RouteRegistry \<Rightarrow> nat list \<times> nat list \<times> RouteRegistry" where
  "pruneAddressLocked t a r =
    (let (stops, r1) = pruneStaleLocked t a r; (starts, r2) = ensureWatchCapacityLocked r1 in (stops, starts, r2))"

definition binding_less :: "RouteBinding \<Rightarrow> RouteBinding \<Rightarrow> bool" where
  "binding_less l r =
    (if nn_namespace (rb_owner l) \<noteq> nn_namespace (rb_owner r) then nn_namespace (rb_owner l) < nn_namespace (rb_owner r)
     else if nn_name (rb_owner l) \<noteq> nn_name (rb_owner r) then nn_name (rb_owner l) < nn_name (rb_owner r)
     else rb_sourceID l < rb_sourceID r)"

definition currentPermit ::
  "K8sValidation \<Rightarrow> FreshnessTracker option \<Rightarrow> WatchAddress \<Rightarrow> RouteRegistry \<Rightarrow> WatchPermit option \<times> RouteRegistry" where
  "currentPermit k t a r =
    (let x = pruneAddressLocked t a r; r' = settle x;
         ordered = map snd (inner (rg_byTarget (snd (snd x))) a) in
     if ordered = [] then (None, r')
     else
       let permit = \<lparr>wp_address = a, wp_capabilities = map rb_capability (sort_by binding_less ordered)\<rparr> in
       (if WatchPermit_valid k permit then Some permit else None, r'))"

definition owner_less :: "NamespacedName \<Rightarrow> NamespacedName \<Rightarrow> bool" where
  "owner_less l r = (if nn_namespace l \<noteq> nn_namespace r then nn_namespace l < nn_namespace r else nn_name l < nn_name r)"

definition currentOwners :: "FreshnessTracker option \<Rightarrow> WatchAddress \<Rightarrow> RouteRegistry \<Rightarrow> NamespacedName list \<times> RouteRegistry" where
  "currentOwners t a r =
    (let x = pruneAddressLocked t a r in
     (sort_by owner_less (remdups (map (rb_owner \<circ> snd) (inner (rg_byTarget (snd (snd x))) a))), settle x))"

text \<open>The owners that an event at an address enqueues, in order.\<close>

definition routeEvent :: "FreshnessTracker option \<Rightarrow> WatchAddress \<Rightarrow> RouteRegistry \<Rightarrow> NamespacedName list \<times> RouteRegistry" where
  "routeEvent t a r = currentOwners t a r"

definition BindingCount :: "NamespacedName \<Rightarrow> RouteRegistry \<Rightarrow> nat" where
  "BindingCount owner r = length (inner (rg_byOwner r) owner)"

definition WatchCount :: "RouteRegistry \<Rightarrow> nat" where
  "WatchCount r = length (rg_watches r)"


section \<open>Interleavings\<close>

text \<open>Any section of any goroutine may run next, with the tracker as it is at that moment: the locked sections of the registry
  and the sections of one supervisor.\<close>

inductive registry_step :: "K8sValidation \<Rightarrow> RouteRegistry \<Rightarrow> RouteRegistry \<Rightarrow> bool" for k where
  step_replace: "validateRoutes k lease [] routes = Inr new \<Longrightarrow> replaceLocked t lease new r = Inr (stops, ws, r') \<Longrightarrow> registry_step k r r'"
| step_prune_owner: "registry_step k r (snd (snd (pruneStaleOwner t owner r)))"
| step_prune_address: "registry_step k r (snd (snd (pruneAddressLocked t a r)))"
| step_remove_owner: "registry_step k r (snd (snd (removeOwnerLocked owner r)))"
| step_remove_all: "registry_step k r (snd (snd (removeAllLocked r)))"
| step_begin: "registry_step k r (r\<lparr>rg_started := True\<rparr>)"
| step_start: "s < length (rg_supervisors r) \<Longrightarrow> registry_step k r (snd (startWithReady s r))"
| step_stop: "s < length (rg_supervisors r) \<Longrightarrow> registry_step k r (stopSupervisor s r)"
| step_signal: "s < length (rg_supervisors r) \<Longrightarrow> registry_step k r (signalReady s r)"
| step_mark: "s < length (rg_supervisors r) \<Longrightarrow> registry_step k r (markRecoveryPending s r)"
| step_take: "s < length (rg_supervisors r) \<Longrightarrow> registry_step k r (snd (takeRecoveryPending s r))"

inductive registry_reachable :: "K8sValidation \<Rightarrow> RouteRegistry \<Rightarrow> RouteRegistry \<Rightarrow> bool" for k r0 where
  reach_init: "registry_reachable k r0 r0"
| reach_step: "registry_reachable k r0 r \<Longrightarrow> registry_step k r r' \<Longrightarrow> registry_reachable k r0 r'"

section \<open>Lemmas: indexes\<close>

text \<open>An index groups one table of bindings; the group of a binding is determined by its key.\<close>

definition index_ok :: "('b \<Rightarrow> 'a) \<Rightarrow> ('a \<times> ('k \<times> 'b) list) list \<Rightarrow> ('k \<rightharpoonup> 'b) \<Rightarrow> bool" where
  "index_ok g m M \<longleftrightarrow> distinct (map fst m) \<and> (\<forall>a xs. (a, xs) \<in> set m \<longrightarrow> xs \<noteq> [] \<and> distinct (map fst xs)) \<and>
     (\<forall>a key. map_of (inner m a) key = (case M key of None \<Rightarrow> None | Some b \<Rightarrow> if g b = a then Some b else None))"

definition table_ok :: "(routeBindingKey \<rightharpoonup> RouteBinding) \<Rightarrow> bool" where
  "table_ok M \<longleftrightarrow> (\<forall>key b. M key = Some b \<longrightarrow> keyForBinding b = key)"

lemma inner_update: "inner (AList.update a xs m) a' = (if a' = a then xs else inner m a')"
  by (simp add: inner_def update_conv')

lemma inner_delete: "inner (AList.delete a m) a' = (if a' = a then [] else inner m a')"
  by (simp add: inner_def delete_conv')

lemma update_mem: "x \<in> set (AList.update a v m) \<Longrightarrow> x = (a, v) \<or> x \<in> set m"
  by (induction m) (auto split: if_splits)

lemma update_not_Nil: "AList.update a v m \<noteq> []"
  by (induction m) auto

lemma map_of_filter_key: "map_of (filter (\<lambda>(k, _). P k) xs) k = (if P k then map_of xs k else None)"
  by (induction xs) auto

lemma update_append_fresh: "a \<notin> fst ` set m \<Longrightarrow> AList.update a v m = m @ [(a, v)]"
  by (induction m) auto

lemma inner_distinct: "index_ok g m M \<Longrightarrow> distinct (map fst (inner m a))"
  by (auto simp: index_ok_def inner_def split: option.splits dest: map_of_SomeD)

lemma inner_Nil_iff: "index_ok g m M \<Longrightarrow> inner m a = [] \<longleftrightarrow> map_of m a = None"
  by (auto simp: index_ok_def inner_def split: option.splits dest: map_of_SomeD)

lemma inner_mem: "index_ok g m M \<Longrightarrow> (key, b) \<in> set (inner m a) \<longleftrightarrow> M key = Some b \<and> g b = a"
proof -
  assume i: "index_ok g m M"
  have "(key, b) \<in> set (inner m a) \<longleftrightarrow> map_of (inner m a) key = Some b" using inner_distinct[OF i] by simp
  then show ?thesis using i by (auto simp: index_ok_def split: option.splits)
qed

lemma groups_iff: "index_ok g m M \<Longrightarrow> a \<in> set (map fst m) \<longleftrightarrow> (\<exists>key b. M key = Some b \<and> g b = a)"
proof -
  assume i: "index_ok g m M"
  have "a \<in> set (map fst m) \<longleftrightarrow> inner m a \<noteq> []" using inner_Nil_iff[OF i] by (simp add: map_of_eq_None_iff)
  also have "\<dots> \<longleftrightarrow> (\<exists>key b. (key, b) \<in> set (inner m a))" by (cases "inner m a") auto
  finally show ?thesis using inner_mem[OF i] by blast
qed

locale binding_index =
  fixes g :: "RouteBinding \<Rightarrow> 'a" and h :: "routeBindingKey \<Rightarrow> 'a"
  assumes key_group: "h (keyForBinding b) = g b"
begin

lemma put_ok:
  assumes "index_ok g m M" "table_ok M"
  shows "index_ok g (putInner (g b) (keyForBinding b) b m) (M(keyForBinding b \<mapsto> b))"
proof -
  have i: "distinct (map fst m)" "\<And>a xs. (a, xs) \<in> set m \<Longrightarrow> xs \<noteq> [] \<and> distinct (map fst xs)"
    "\<And>a key. map_of (inner m a) key = (case M key of None \<Rightarrow> None | Some b \<Rightarrow> if g b = a then Some b else None)"
    using assms(1) by (auto simp: index_ok_def)
  have same: "g b' = g b" if "M (keyForBinding b) = Some b'" for b'
    using that assms(2) key_group by (metis table_ok_def)
  have "xs \<noteq> [] \<and> distinct (map fst xs)" if "(a, xs) \<in> set (putInner (g b) (keyForBinding b) b m)" for a xs
    using update_mem[OF that[unfolded putInner_def]] i(2) distinct_update[OF inner_distinct[OF assms(1)], of "keyForBinding b" b]
      update_not_Nil[of "keyForBinding b" b] by auto
  moreover have "distinct (map fst (putInner (g b) (keyForBinding b) b m))" using i(1) by (simp add: putInner_def distinct_update)
  moreover have "map_of (inner (putInner (g b) (keyForBinding b) b m) a) key =
      (case (M(keyForBinding b \<mapsto> b)) key of None \<Rightarrow> None | Some b \<Rightarrow> if g b = a then Some b else None)" for a key
    using i(3) same by (auto simp: putInner_def inner_update update_conv' split: option.splits)
  ultimately show ?thesis unfolding index_ok_def by blast
qed

lemma del_ok:
  assumes "index_ok g m M" "table_ok M"
  shows "index_ok g (delInner (g b) (keyForBinding b) m) (M(keyForBinding b := None))"
proof -
  let ?xs = "AList.delete (keyForBinding b) (inner m (g b))"
  have i: "distinct (map fst m)" "\<And>a xs. (a, xs) \<in> set m \<Longrightarrow> xs \<noteq> [] \<and> distinct (map fst xs)"
    "\<And>a key. map_of (inner m a) key = (case M key of None \<Rightarrow> None | Some b \<Rightarrow> if g b = a then Some b else None)"
    using assms(1) by (auto simp: index_ok_def)
  have same: "g b' = g b" if "M (keyForBinding b) = Some b'" for b'
    using that assms(2) key_group by (metis table_ok_def)
  have sub: "set (AList.delete (g b) m) \<subseteq> set m" by (auto simp: AList.delete_eq)
  have d: "distinct (map fst ?xs)" using inner_distinct[OF assms(1), of "g b"] by (simp add: distinct_delete)
  have "xs \<noteq> [] \<and> distinct (map fst xs)" if "(a, xs) \<in> set (delInner (g b) (keyForBinding b) m)" for a xs
  proof (cases "?xs = []")
    case True
    then show ?thesis using that sub i(2) by (auto simp: delInner_def)
  next
    case False
    then have "(a, xs) \<in> set (AList.update (g b) ?xs m)" using that by (simp add: delInner_def Let_def)
    from update_mem[OF this] show ?thesis using False i(2) d by auto
  qed
  moreover have "distinct (map fst (delInner (g b) (keyForBinding b) m))"
    using i(1) by (simp add: delInner_def Let_def distinct_update distinct_delete)
  moreover have m: "map_of (inner (delInner (g b) (keyForBinding b) m) a) key =
      (if a = g b \<and> key = keyForBinding b then None else map_of (inner m a) key)" for a key
  proof (cases "?xs = []")
    case True
    then have "map_of ?xs = Map.empty" by simp
    then have "(map_of (inner m (g b)))(keyForBinding b := None) = Map.empty" by (simp add: delete_conv')
    then show ?thesis using True by (auto simp: delInner_def inner_delete dest: fun_cong[of _ _ key])
  qed (simp add: delInner_def Let_def inner_update delete_conv')
  moreover have "map_of (inner (delInner (g b) (keyForBinding b) m) a) key =
      (case (M(keyForBinding b := None)) key of None \<Rightarrow> None | Some b \<Rightarrow> if g b = a then Some b else None)" for a key
    unfolding m using i(3) same by (auto split: option.splits)
  ultimately show ?thesis unfolding index_ok_def by blast
qed

end

interpretation owner_index: binding_index rb_owner rk_owner
  by unfold_locales (simp add: keyForBinding_def)

interpretation target_index: binding_index rb_address rk_address
  by unfold_locales (simp add: keyForBinding_def)

text \<open>Both indexes of a registry hold the same table.\<close>

definition holds_table :: "RouteRegistry \<Rightarrow> (routeBindingKey \<rightharpoonup> RouteBinding) \<Rightarrow> bool" where
  "holds_table r M \<longleftrightarrow> index_ok rb_owner (rg_byOwner r) M \<and> index_ok rb_address (rg_byTarget r) M \<and> table_ok M"

lemma addBindingLocked_table:
  "holds_table r M \<Longrightarrow> holds_table (addBindingLocked b r) (M(keyForBinding b \<mapsto> b))"
  by (auto simp: holds_table_def addBindingLocked_def table_ok_def intro: owner_index.put_ok target_index.put_ok)

lemma removeBindingLocked_table:
  assumes "holds_table r M"
  shows "holds_table (snd (removeBindingLocked b r)) (M(keyForBinding b := None))"
proof -
  let ?M = "M(keyForBinding b := None)"
  have o: "index_ok rb_owner (rg_byOwner r) M" and t: "index_ok rb_address (rg_byTarget r) M" and k: "table_ok M" "table_ok ?M"
    using assms by (auto simp: holds_table_def table_ok_def)
  have absent: "?M = M" if "map_of (rg_byOwner r) (rb_owner b) = None \<or> map_of (rg_byTarget r) (rb_address b) = None"
  proof -
    have "M (keyForBinding b) \<noteq> Some b'" for b'
    proof
      assume b': "M (keyForBinding b) = Some b'"
      then have "keyForBinding b' = keyForBinding b" using k(1) by (auto simp: table_ok_def)
      then have e: "rb_owner b' = rb_owner b" "rb_address b' = rb_address b" by (auto simp: keyForBinding_def)
      then have "(keyForBinding b, b') \<in> set (inner (rg_byOwner r) (rb_owner b))" "(keyForBinding b, b') \<in> set (inner (rg_byTarget r) (rb_address b))"
        using b' inner_mem[OF o] inner_mem[OF t] by auto
      then show False using that by (auto simp: inner_def)
    qed
    then show ?thesis by (cases "M (keyForBinding b)") auto
  qed
  note od = owner_index.del_ok[OF o k(1), of b] and td = target_index.del_ok[OF t k(1), of b]
  show ?thesis
  proof (cases "map_of (rg_byOwner r) (rb_owner b) = None")
    case True
    then show ?thesis using absent assms by (simp add: removeBindingLocked_def Let_def)
  next
    case False
    show ?thesis
    proof (cases "map_of (rg_byTarget r) (rb_address b) = None")
      case True
      then show ?thesis using False od absent t k by (auto simp: removeBindingLocked_def Let_def holds_table_def)
    next
      case t': False
      then show ?thesis using False od td k(2) by (auto simp: removeBindingLocked_def Let_def holds_table_def)
    qed
  qed
qed

lemma removeBindings_table:
  "holds_table r M \<Longrightarrow> holds_table (snd (removeBindings bs r)) (M |` (- keyForBinding ` set bs))"
proof (induction bs arbitrary: r M)
  case (Cons b bs)
  obtain stop r1 where r1: "removeBindingLocked b r = (stop, r1)" by (cases "removeBindingLocked b r")
  have "holds_table r1 (M(keyForBinding b := None))" using removeBindingLocked_table[OF Cons.prems, of b] r1 by simp
  from Cons.IH[OF this] have "holds_table (snd (removeBindings bs r1)) ((M(keyForBinding b := None)) |` (- keyForBinding ` set bs))" .
  moreover have "(M(keyForBinding b := None)) |` (- keyForBinding ` set bs) = M |` (- keyForBinding ` set (b # bs))"
    by (auto simp: restrict_map_def)
  ultimately show ?case using r1 by (cases "removeBindings bs r1") (simp add: Map.restrict_map_insert del: fun_upd_restrict fun_upd_restrict_conv)
qed (simp add: restrict_map_def)


section \<open>Lemmas: watches\<close>

lemma removeBindings_other:
  "rg_options (snd (removeBindings bs r)) = rg_options r \<and> rg_supervisors (snd (removeBindings bs r)) = rg_supervisors r \<and>
   rg_started (snd (removeBindings bs r)) = rg_started r \<and> rg_channels (snd (removeBindings bs r)) = rg_channels r \<and>
   rg_closed (snd (removeBindings bs r)) = rg_closed r \<and> rg_watcher (snd (removeBindings bs r)) = rg_watcher r"
proof (induction bs arbitrary: r)
  case (Cons b bs)
  obtain stop r1 where r1: "removeBindingLocked b r = (stop, r1)" by (cases "removeBindingLocked b r")
  have "rg_options r1 = rg_options r \<and> rg_supervisors r1 = rg_supervisors r \<and> rg_started r1 = rg_started r \<and>
      rg_channels r1 = rg_channels r \<and> rg_closed r1 = rg_closed r \<and> rg_watcher r1 = rg_watcher r"
    using r1 by (auto simp: removeBindingLocked_def Let_def split: if_splits)
  then show ?case using Cons.IH[of r1] r1 by (cases "removeBindings bs r1") simp
qed simp

text \<open>Every watch has a supervisor of its own, at its address, and watches stay within the capacity.\<close>

definition watches_ok :: "RouteRegistry \<Rightarrow> bool" where
  "watches_ok r \<longleftrightarrow> distinct (map fst (rg_watches r)) \<and> distinct (map snd (rg_watches r)) \<and> int (length (rg_watches r)) \<le> watchCapacity r \<and>
     (\<forall>a s. (a, s) \<in> set (rg_watches r) \<longrightarrow> s < length (rg_supervisors r) \<and> sv_address (rg_supervisors r ! s) = a)"

definition watches_bound :: "RouteRegistry \<Rightarrow> bool" where
  "watches_bound r \<longleftrightarrow> fst ` set (rg_watches r) \<subseteq> fst ` set (rg_byTarget r)"

lemma watches_same:
  "watches_ok r \<Longrightarrow> rg_watches r' = rg_watches r \<Longrightarrow> rg_supervisors r' = rg_supervisors r \<Longrightarrow> rg_options r' = rg_options r \<Longrightarrow> watches_ok r'"
  by (simp only: watches_ok_def watchCapacity_def) blast

lemma delete_watches_ok:
  assumes "watches_ok r" "rg_watches r' = AList.delete a (rg_watches r)" "rg_supervisors r' = rg_supervisors r" "rg_options r' = rg_options r"
  shows "watches_ok r'"
proof -
  have "distinct (map snd (AList.delete a (rg_watches r)))"
    using assms(1) by (simp add: watches_ok_def AList.delete_eq distinct_map_filter)
  moreover have "int (length (AList.delete a (rg_watches r))) \<le> watchCapacity r"
    using assms(1) length_delete_le[of a "rg_watches r"] by (simp add: watches_ok_def)
  moreover have "set (AList.delete a (rg_watches r)) \<subseteq> set (rg_watches r)" by (auto simp: AList.delete_eq)
  ultimately show ?thesis using assms by (auto simp: watches_ok_def watchCapacity_def distinct_delete)
qed

lemma removeBindingLocked_watches:
  assumes "watches_ok r" "watches_bound r"
  shows "watches_ok (snd (removeBindingLocked b r))" "watches_bound (snd (removeBindingLocked b r))"
proof -
  let ?a = "rb_address b"
  let ?m = "delInner ?a (keyForBinding b) (rg_byTarget r)"
  have dom: "fst ` set (rg_byTarget r) - {?a} \<subseteq> fst ` set ?m"
    by (auto simp: delInner_def Let_def AList.delete_eq dom_update image_iff)
  have mem: "?a \<in> fst ` set ?m" if "map_of ?m ?a \<noteq> None" using that by (simp add: map_of_eq_None_iff)
  have d: "fst ` set (AList.delete ?a (rg_watches r)) \<subseteq> fst ` set (rg_watches r) - {?a}" by (auto simp: AList.delete_eq)
  have "rg_supervisors (snd (removeBindingLocked b r)) = rg_supervisors r" "rg_options (snd (removeBindingLocked b r)) = rg_options r" and
    w: "rg_watches (snd (removeBindingLocked b r)) = rg_watches r \<or> rg_watches (snd (removeBindingLocked b r)) = AList.delete ?a (rg_watches r)"
    by (auto simp: removeBindingLocked_def Let_def)
  then show "watches_ok (snd (removeBindingLocked b r))"
    using w assms(1) delete_watches_ok[OF assms(1), of "snd (removeBindingLocked b r)" ?a] by (auto simp: watches_ok_def watchCapacity_def)
  have bound: "fst ` set (rg_watches r) \<subseteq> fst ` set (rg_byTarget r)" using assms(2) by (simp add: watches_bound_def)
  have other: "x \<in> fst ` set ?m" if "x \<in> fst ` set (rg_watches r)" "x \<noteq> ?a" for x
    using subsetD[OF bound that(1)] that(2) by (intro subsetD[OF dom]) simp
  have kept: "fst ` set (rg_watches r) \<subseteq> fst ` set ?m" if "map_of ?m ?a \<noteq> None"
  proof
    fix x
    assume "x \<in> fst ` set (rg_watches r)"
    then show "x \<in> fst ` set ?m" using other mem[OF that] by (cases "x = ?a") simp_all
  qed
  have gone: "fst ` set (AList.delete ?a (rg_watches r)) \<subseteq> fst ` set ?m"
  proof
    fix x
    assume "x \<in> fst ` set (AList.delete ?a (rg_watches r))"
    then have "x \<in> fst ` set (rg_watches r) - {?a}" by (rule subsetD[OF d])
    then show "x \<in> fst ` set ?m" using other by simp
  qed
  let ?r = "snd (removeBindingLocked b r)"
  have "rg_watches ?r = rg_watches r \<and> rg_byTarget ?r = rg_byTarget r \<or> rg_watches ?r = rg_watches r \<and> rg_byTarget ?r = ?m \<and> map_of ?m ?a \<noteq> None \<or>
      rg_watches ?r = AList.delete ?a (rg_watches r) \<and> rg_byTarget ?r = ?m"
    by (auto simp: removeBindingLocked_def Let_def)
  then show "watches_bound ?r" unfolding watches_bound_def using bound kept gone by (elim disjE conjE) simp_all
qed

lemma removeBindings_watches:
  "watches_ok r \<Longrightarrow> watches_bound r \<Longrightarrow> watches_ok (snd (removeBindings bs r)) \<and> watches_bound (snd (removeBindings bs r))"
proof (induction bs arbitrary: r)
  case (Cons b bs)
  obtain stop r1 where r1: "removeBindingLocked b r = (stop, r1)" by (cases "removeBindingLocked b r")
  have "watches_ok r1" "watches_bound r1" using removeBindingLocked_watches[OF Cons.prems, of b] r1 by simp_all
  then show ?case using Cons.IH[of r1] r1 by (cases "removeBindings bs r1") simp
qed simp

lemma add_watch_ok:
  assumes "watches_ok r" "a \<notin> fst ` set (rg_watches r)" "int (length (rg_watches r)) < watchCapacity r" "sv_address v = a"
    and r': "rg_watches r' = rg_watches r @ [(a, length (rg_supervisors r))]" "rg_supervisors r' = rg_supervisors r @ [v]" "rg_options r' = rg_options r"
  shows "watches_ok r'"
proof -
  have ids: "s < length (rg_supervisors r)" "sv_address (rg_supervisors r ! s) = a'" if "(a', s) \<in> set (rg_watches r)" for a' s
    using assms(1) that by (auto simp: watches_ok_def)
  have "length (rg_supervisors r) \<notin> snd ` set (rg_watches r)" by (auto dest: ids(1))
  moreover have "watchCapacity r' = watchCapacity r" using r' by (simp add: watchCapacity_def)
  ultimately show ?thesis unfolding watches_ok_def r'
    using assms(1-4) ids by (auto simp: watches_ok_def nth_append less_SucI)
qed

lemma startWatches_effect:
  assumes "watches_ok r" "distinct as" "startWatches as r = (ids, r')"
  shows "watches_ok r' \<and> fst ` set (rg_watches r') \<subseteq> fst ` set (rg_watches r) \<union> set as \<and> fst ` set (rg_watches r) \<subseteq> fst ` set (rg_watches r') \<and>
    (set as \<subseteq> fst ` set (rg_watches r') \<or> int (length (rg_watches r')) = watchCapacity r') \<and>
    rg_byOwner r' = rg_byOwner r \<and> rg_byTarget r' = rg_byTarget r \<and> rg_options r' = rg_options r \<and> rg_started r' = rg_started r \<and>
    rg_channels r' = rg_channels r \<and> rg_closed r' = rg_closed r \<and> rg_watcher r' = rg_watcher r \<and>
    (\<exists>new. rg_supervisors r' = rg_supervisors r @ new \<and> (\<forall>v \<in> set new. sv_ready v = None))"
  using assms
proof (induction as arbitrary: r ids)
  case (Cons a as)
  show ?case
  proof (cases "int (length (rg_watches r)) \<ge> watchCapacity r")
    case True
    then show ?thesis using Cons.prems by (auto simp: watches_ok_def)
  next
    case room: False
    show ?thesis
    proof (cases "map_of (rg_watches r) a = None")
      case False
      then have a: "a \<in> fst ` set (rg_watches r)" by (simp add: map_of_eq_None_iff)
      have "startWatches as r = (ids, r')" using Cons.prems(3) room False by simp
      from Cons.IH[OF Cons.prems(1) _ this] show ?thesis using Cons.prems(2) a by auto
    next
      case fresh: True
      let ?id = "length (rg_supervisors r)"
      let ?v = "\<lparr>sv_address = a, sv_started = False, sv_ready = None, sv_firstAttempt = False,
                    sv_recoveryPending = (map_of (rg_deferred r) a = Some True)\<rparr>"
      let ?r = "r\<lparr>rg_deferred := AList.delete a (rg_deferred r), rg_supervisors := rg_supervisors r @ [?v],
        rg_watches := AList.update a ?id (rg_watches r)\<rparr>"
      obtain ids' where rest: "startWatches as ?r = (ids', r')" using Cons.prems(3) room fresh by (auto simp: Let_def split: prod.splits)
      have w: "AList.update a ?id (rg_watches r) = rg_watches r @ [(a, ?id)]"
        using fresh by (simp add: map_of_eq_None_iff update_append_fresh)
      have "watches_ok ?r"
        by (rule add_watch_ok[OF Cons.prems(1), where v = ?v]) (use fresh room in \<open>simp_all add: w map_of_eq_None_iff\<close>)
      from Cons.IH[OF this _ rest] show ?thesis using Cons.prems(2) by (auto simp: w)
    qed
  qed
qed simp


lemma ensureWatchCapacity_effect:
  assumes "watches_ok r" "watches_bound r" "distinct (map fst (rg_byTarget r))"
  defines "r' \<equiv> snd (ensureWatchCapacityLocked r)"
  shows "watches_ok r'" "watches_bound r'"
    "fst ` set (rg_watches r') = fst ` set (rg_byTarget r') \<or> int (length (rg_watches r')) = watchCapacity r'"
    "rg_byOwner r' = rg_byOwner r" "rg_byTarget r' = rg_byTarget r" "rg_options r' = rg_options r" "rg_started r' = rg_started r"
    "rg_channels r' = rg_channels r" "rg_closed r' = rg_closed r"
    "\<exists>new. rg_supervisors r' = rg_supervisors r @ new \<and> (\<forall>v \<in> set new. sv_ready v = None)"
proof -
  let ?as = "sort_by watchAddressLess (map fst (rg_byTarget r))"
  have e: "startWatches ?as r = (fst (ensureWatchCapacityLocked r), r')" by (simp add: ensureWatchCapacityLocked_def r'_def)
  have d: "distinct ?as" using assms(3) by simp
  have s: "set ?as = fst ` set (rg_byTarget r)" by simp
  note w = startWatches_effect[OF assms(1) d e, unfolded s]
  show "watches_ok r'" "rg_byOwner r' = rg_byOwner r" "rg_byTarget r' = rg_byTarget r" "rg_options r' = rg_options r" "rg_started r' = rg_started r"
    "rg_channels r' = rg_channels r" "rg_closed r' = rg_closed r"
    "\<exists>new. rg_supervisors r' = rg_supervisors r @ new \<and> (\<forall>v \<in> set new. sv_ready v = None)"
    using w by simp_all
  have t: "rg_byTarget r' = rg_byTarget r" and sub: "fst ` set (rg_watches r') \<subseteq> fst ` set (rg_watches r) \<union> fst ` set (rg_byTarget r)" and
    full: "fst ` set (rg_byTarget r) \<subseteq> fst ` set (rg_watches r') \<or> int (length (rg_watches r')) = watchCapacity r'"
    using w by simp_all
  have u: "fst ` set (rg_watches r) \<union> fst ` set (rg_byTarget r) = fst ` set (rg_byTarget r)"
    using assms(2) unfolding watches_bound_def by (rule Un_absorb1)
  show b: "watches_bound r'" using sub unfolding u watches_bound_def t .
  show "fst ` set (rg_watches r') = fst ` set (rg_byTarget r') \<or> int (length (rg_watches r')) = watchCapacity r'"
    using full b unfolding watches_bound_def t by (elim disjE) (rule disjI1, rule equalityI, assumption+, rule disjI2)
qed

section \<open>Lemmas: ready channels\<close>

text \<open>A channel that was handed out is closed, once, or it is the ready channel of exactly one supervisor, which is started and
  in its first attempt and therefore still to close it.\<close>

definition channels_ok :: "RouteRegistry \<Rightarrow> bool" where
  "channels_ok r \<longleftrightarrow> distinct (rg_closed r) \<and> set (rg_closed r) \<subseteq> {..<rg_channels r} \<and>
     (\<forall>s c. s < length (rg_supervisors r) \<longrightarrow> sv_ready (rg_supervisors r ! s) = Some c \<longrightarrow>
        c < rg_channels r \<and> c \<notin> set (rg_closed r) \<and> sv_started (rg_supervisors r ! s) \<and> sv_firstAttempt (rg_supervisors r ! s)) \<and>
     (\<forall>s s' c. s < length (rg_supervisors r) \<longrightarrow> s' < length (rg_supervisors r) \<longrightarrow> sv_ready (rg_supervisors r ! s) = Some c \<longrightarrow>
        sv_ready (rg_supervisors r ! s') = Some c \<longrightarrow> s = s') \<and>
     (\<forall>c < rg_channels r. c \<in> set (rg_closed r) \<or> (\<exists>s < length (rg_supervisors r). sv_ready (rg_supervisors r ! s) = Some c))"

lemma channels_append:
  assumes "channels_ok r" "rg_supervisors r' = rg_supervisors r @ new" "\<forall>v \<in> set new. sv_ready v = None"
    "rg_channels r' = rg_channels r" "rg_closed r' = rg_closed r"
  shows "channels_ok r'"
proof -
  have n: "sv_ready (rg_supervisors r' ! s) = Some c \<Longrightarrow> s < length (rg_supervisors r') \<Longrightarrow> s < length (rg_supervisors r) \<and> rg_supervisors r' ! s = rg_supervisors r ! s" for s c
    using assms(2,3) by (cases "s < length (rg_supervisors r)") (auto simp: nth_append)
  have o: "s < length (rg_supervisors r) \<Longrightarrow> s < length (rg_supervisors r') \<and> rg_supervisors r' ! s = rg_supervisors r ! s" for s
    using assms(2) by (auto simp: nth_append)
  show ?thesis unfolding channels_ok_def assms(4,5)
  proof (intro conjI allI impI)
    fix c
    assume "c < rg_channels r"
    then have "c \<in> set (rg_closed r) \<or> (\<exists>s < length (rg_supervisors r). sv_ready (rg_supervisors r ! s) = Some c)"
      using assms(1) by (simp add: channels_ok_def)
    then show "c \<in> set (rg_closed r) \<or> (\<exists>s < length (rg_supervisors r'). sv_ready (rg_supervisors r' ! s) = Some c)"
      using o by metis
  next
    fix s c
    assume s: "s < length (rg_supervisors r')" "sv_ready (rg_supervisors r' ! s) = Some c"
    note e = n[OF s(2,1)]
    have "sv_ready (rg_supervisors r ! s) = Some c" using s e by simp
    then show "c < rg_channels r" "c \<notin> set (rg_closed r)" "sv_started (rg_supervisors r' ! s)" "sv_firstAttempt (rg_supervisors r' ! s)"
      using e assms(1) by (auto simp: channels_ok_def)
  next
    fix s s' c
    assume s: "s < length (rg_supervisors r')" "s' < length (rg_supervisors r')" "sv_ready (rg_supervisors r' ! s) = Some c"
      "sv_ready (rg_supervisors r' ! s') = Some c"
    have "sv_ready (rg_supervisors r ! s) = Some c" "sv_ready (rg_supervisors r ! s') = Some c" using n[OF s(3,1)] n[OF s(4,2)] s by simp_all
    then show "s = s'" using n[OF s(3,1)] n[OF s(4,2)] assms(1) by (simp add: channels_ok_def)
  qed (use assms(1) in \<open>auto simp: channels_ok_def\<close>)
qed

lemma channels_same:
  "channels_ok r \<Longrightarrow> rg_supervisors r' = rg_supervisors r \<Longrightarrow> rg_channels r' = rg_channels r \<Longrightarrow> rg_closed r' = rg_closed r \<Longrightarrow> channels_ok r'"
  by (simp add: channels_ok_def)

lemma channels_flag:
  assumes "channels_ok r" "s < length (rg_supervisors r)" "sv_ready v = sv_ready (rg_supervisors r ! s)"
    "sv_started v = sv_started (rg_supervisors r ! s)" "sv_firstAttempt v = sv_firstAttempt (rg_supervisors r ! s)"
  shows "channels_ok (r\<lparr>rg_supervisors := (rg_supervisors r)[s := v]\<rparr>)"
proof -
  have "sv_ready ((rg_supervisors r)[s := v] ! i) = sv_ready (rg_supervisors r ! i)"
    "sv_started ((rg_supervisors r)[s := v] ! i) = sv_started (rg_supervisors r ! i)"
    "sv_firstAttempt ((rg_supervisors r)[s := v] ! i) = sv_firstAttempt (rg_supervisors r ! i)" for i
    using assms by (auto simp: nth_list_update)
  then show ?thesis using assms(1) by (simp add: channels_ok_def)
qed

lemma channels_close:
  assumes "channels_ok r" "s < length (rg_supervisors r)" "sv_ready v = None"
  shows "channels_ok (close_ready (sv_ready (rg_supervisors r ! s)) (r\<lparr>rg_supervisors := (rg_supervisors r)[s := v]\<rparr>))"
proof (cases "sv_ready (rg_supervisors r ! s)")
  case None
  have r: "sv_ready ((rg_supervisors r)[s := v] ! i) = sv_ready (rg_supervisors r ! i)" for i
    using assms None by (cases "i = s") simp_all
  have e: "sv_ready (rg_supervisors r ! i) = Some c \<Longrightarrow> (rg_supervisors r)[s := v] ! i = rg_supervisors r ! i" for i c
    using None by (cases "i = s") simp_all
  show ?thesis using assms(1) r e unfolding close_ready_def None option.case channels_ok_def by simp
next
  case (Some n)
  have n: "n < rg_channels r" "n \<notin> set (rg_closed r)" using assms(1,2) Some by (auto simp: channels_ok_def)
  have u: "i = s" if "i < length (rg_supervisors r)" "sv_ready (rg_supervisors r ! i) = Some n" for i
    using assms(1,2) Some that by (simp add: channels_ok_def)
  have r: "sv_ready ((rg_supervisors r)[s := v] ! i) = Some c \<longleftrightarrow> sv_ready (rg_supervisors r ! i) = Some c \<and> i \<noteq> s" if "i < length (rg_supervisors r)" for i c
    using assms(3) that by (cases "i = s") simp_all
  show ?thesis unfolding close_ready_def Some option.case channels_ok_def
  proof (simp, intro conjI allI impI)
    show "distinct (rg_closed r)" "set (rg_closed r) \<subseteq> {..<rg_channels r}" using assms(1) by (simp_all add: channels_ok_def)
    show "n < rg_channels r" "n \<notin> set (rg_closed r)" using n by simp_all
  next
    fix i c
    assume i: "i < length (rg_supervisors r)" "sv_ready ((rg_supervisors r)[s := v] ! i) = Some c"
    then have c: "sv_ready (rg_supervisors r ! i) = Some c" "i \<noteq> s" using r by simp_all
    then show "c < rg_channels r" "c \<notin> set (rg_closed r)" "sv_started ((rg_supervisors r)[s := v] ! i)" "sv_firstAttempt ((rg_supervisors r)[s := v] ! i)"
      using i(1) assms(1) by (simp_all add: channels_ok_def)
    show "c \<noteq> n" using c u i(1) by auto
  next
    fix i j c
    assume "i < length (rg_supervisors r)" "j < length (rg_supervisors r)" "sv_ready ((rg_supervisors r)[s := v] ! i) = Some c"
      "sv_ready ((rg_supervisors r)[s := v] ! j) = Some c"
    then show "i = j" using r assms(1) by (simp add: channels_ok_def)
  next
    fix c
    assume "c < rg_channels r"
    then consider "c \<in> set (rg_closed r)" | i where "i < length (rg_supervisors r)" "sv_ready (rg_supervisors r ! i) = Some c"
      using assms(1) by (auto simp: channels_ok_def)
    then show "c = n \<or> c \<in> set (rg_closed r) \<or> (\<exists>i < length (rg_supervisors r). sv_ready ((rg_supervisors r)[s := v] ! i) = Some c)"
    proof cases
      case (2 i)
      then show ?thesis using r[OF 2(1)] Some by (cases "i = s") auto
    qed simp
  qed
qed

lemma startWithReady_channels:
  assumes "channels_ok r" "s < length (rg_supervisors r)"
  shows "channels_ok (snd (startWithReady s r))"
proof (cases "rg_watcher r \<and> \<not> sv_started (rg_supervisors r ! s)")
  case True
  then have none: "sv_ready (rg_supervisors r ! s) = None"
    using assms by (cases "sv_ready (rg_supervisors r ! s)") (auto simp: channels_ok_def)
  let ?c = "rg_channels r"
  let ?v = "(rg_supervisors r ! s)\<lparr>sv_started := True, sv_ready := Some ?c, sv_firstAttempt := True\<rparr>"
  have e: "snd (startWithReady s r) = r\<lparr>rg_channels := Suc ?c, rg_supervisors := (rg_supervisors r)[s := ?v]\<rparr>"
    using True by (simp add: startWithReady_def Let_def)
  have old: "c < ?c" if "i < length (rg_supervisors r)" "sv_ready (rg_supervisors r ! i) = Some c" for i c
    using assms(1) that by (simp add: channels_ok_def)
  have closed: "?c \<notin> set (rg_closed r)" using assms(1) by (auto simp: channels_ok_def)
  have r: "sv_ready ((rg_supervisors r)[s := ?v] ! i) = Some c \<longleftrightarrow> (if i = s then c = ?c else sv_ready (rg_supervisors r ! i) = Some c)"
    if "i < length (rg_supervisors r)" for i c
    using that by (auto simp: nth_list_update)
  show ?thesis unfolding e channels_ok_def
  proof (simp, intro conjI allI impI)
    show "distinct (rg_closed r)" "set (rg_closed r) \<subseteq> {..<Suc ?c}" using assms(1) by (auto simp: channels_ok_def)
  next
    fix i c
    assume i: "i < length (rg_supervisors r)" "sv_ready ((rg_supervisors r)[s := ?v] ! i) = Some c"
    show "c < Suc ?c" using i old r by (auto split: if_splits intro: less_SucI)
    show "c \<notin> set (rg_closed r)" "sv_started ((rg_supervisors r)[s := ?v] ! i)" "sv_firstAttempt ((rg_supervisors r)[s := ?v] ! i)"
      using i r closed assms(1) by (cases "i = s"; auto simp: channels_ok_def)+
  next
    fix i j c
    assume "i < length (rg_supervisors r)" "j < length (rg_supervisors r)" "sv_ready ((rg_supervisors r)[s := ?v] ! i) = Some c"
      "sv_ready ((rg_supervisors r)[s := ?v] ! j) = Some c"
    then show "i = j" using r old[of i c] old[of j c] assms(1) by (cases "i = s"; cases "j = s") (auto simp: channels_ok_def)
  next
    fix c
    assume "c < Suc ?c"
    then consider "c = ?c" | "c < ?c" by linarith
    then show "c \<in> set (rg_closed r) \<or> (\<exists>i < length (rg_supervisors r). sv_ready ((rg_supervisors r)[s := ?v] ! i) = Some c)"
    proof cases
      case 1
      then show ?thesis using assms(2) by (intro disjI2 exI[of _ s]) simp
    next
      case 2
      then consider "c \<in> set (rg_closed r)" | i where "i < length (rg_supervisors r)" "sv_ready (rg_supervisors r ! i) = Some c"
        using assms(1) by (auto simp: channels_ok_def)
      then show ?thesis
      proof cases
        case (2 i)
        then have "i \<noteq> s" using none by auto
        then show ?thesis using 2 by (intro disjI2 exI[of _ i]) simp
      qed simp
    qed
  qed
qed (use assms(1) in \<open>auto simp: startWithReady_def Let_def\<close>)


section \<open>Lemmas: the invariant\<close>

text \<open>A stored binding carries a valid capability of its own subject for its own address and source.\<close>

definition binding_ok :: "K8sValidation \<Rightarrow> RouteBinding \<Rightarrow> bool" where
  "binding_ok k b \<longleftrightarrow> ok (WatchAddress_Validate k (rb_address b)) \<and> Capability_Valid (rb_capability b) \<and>
     cap_subject (rb_capability b) = rb_subject b \<and> rb_owner b = sub_key (rb_subject b) \<and> rb_ownerUID b = sub_uid (rb_subject b) \<and>
     rb_generation b = sub_generation (rb_subject b) \<and> rb_sourceID b \<noteq> [] \<and> rq_sourceID (cap_request (rb_capability b)) = rb_sourceID b \<and>
     rq_apiGroup (cap_request (rb_capability b)) = gvr_group (wa_gvr (rb_address b)) \<and>
     rq_scope (cap_request (rb_capability b)) = wa_scope (rb_address b) \<and> rq_namespace (cap_request (rb_capability b)) = wa_namespace (rb_address b)"

definition registry_inv :: "K8sValidation \<Rightarrow> RouteRegistry \<Rightarrow> (routeBindingKey \<rightharpoonup> RouteBinding) \<Rightarrow> bool" where
  "registry_inv k r M \<longleftrightarrow> holds_table r M \<and> (\<forall>key b. M key = Some b \<longrightarrow> binding_ok k b) \<and> watches_ok r \<and> watches_bound r \<and>
     (fst ` set (rg_watches r) = fst ` set (rg_byTarget r) \<or> int (length (rg_watches r)) = watchCapacity r) \<and> channels_ok r"

lemma holds_table_cong:
  "rg_byOwner r' = rg_byOwner r \<Longrightarrow> rg_byTarget r' = rg_byTarget r \<Longrightarrow> holds_table r' M = holds_table r M"
  by (simp add: holds_table_def)

lemma holds_table_distinct: "holds_table r M \<Longrightarrow> distinct (map fst (rg_byTarget r))"
  by (simp add: holds_table_def index_ok_def)

text \<open>Every locked section removes or adds bindings and then fills the free watches.\<close>

lemma ensure_inv:
  assumes "holds_table r M" "\<forall>key b. M key = Some b \<longrightarrow> binding_ok k b" "watches_ok r" "watches_bound r" "channels_ok r"
  shows "registry_inv k (snd (ensureWatchCapacityLocked r)) M"
proof -
  note e = ensureWatchCapacity_effect[OF assms(3,4) holds_table_distinct[OF assms(1)]]
  have "holds_table (snd (ensureWatchCapacityLocked r)) M" using assms(1) holds_table_cong[OF e(4,5)] by simp
  moreover obtain new where "rg_supervisors (snd (ensureWatchCapacityLocked r)) = rg_supervisors r @ new" "\<forall>v \<in> set new. sv_ready v = None"
    using e(10) by blast
  then have "channels_ok (snd (ensureWatchCapacityLocked r))" by (rule channels_append[OF assms(5) _ _ e(8,9)])
  ultimately show ?thesis unfolding registry_inv_def using assms(2) e(1,2,3) by (intro conjI)
qed

lemma remove_inv:
  assumes "registry_inv k r M"
  shows "registry_inv k (snd (ensureWatchCapacityLocked (snd (removeBindings bs r)))) (M |` (- keyForBinding ` set bs))"
proof (rule ensure_inv)
  have i: "holds_table r M" "\<forall>key b. M key = Some b \<longrightarrow> binding_ok k b" "watches_ok r" "watches_bound r" "channels_ok r"
    using assms by (simp_all add: registry_inv_def)
  show "holds_table (snd (removeBindings bs r)) (M |` (- keyForBinding ` set bs))" by (rule removeBindings_table[OF i(1)])
  show "\<forall>key b. (M |` (- keyForBinding ` set bs)) key = Some b \<longrightarrow> binding_ok k b" using i(2) by (auto simp: restrict_map_def)
  show "watches_ok (snd (removeBindings bs r))" "watches_bound (snd (removeBindings bs r))" using removeBindings_watches[OF i(3,4)] by simp_all
  show "channels_ok (snd (removeBindings bs r))" by (rule channels_same[OF i(5)]) (use removeBindings_other[of bs r] in simp_all)
qed

lemma addBindingLocked_other:
  assumes "watches_ok r" "watches_bound r" "channels_ok r"
  shows "watches_ok (addBindingLocked b r) \<and> watches_bound (addBindingLocked b r) \<and> channels_ok (addBindingLocked b r)"
proof -
  have "fst ` set (rg_byTarget r) \<subseteq> fst ` set (rg_byTarget (addBindingLocked b r))" by (auto simp: addBindingLocked_def putInner_def dom_update)
  moreover have "fst ` set (rg_watches r) \<subseteq> fst ` set (rg_byTarget r)" using assms(2) by (simp add: watches_bound_def)
  ultimately have "watches_bound (addBindingLocked b r)" unfolding watches_bound_def by (simp add: addBindingLocked_def)
  moreover have "watches_ok (addBindingLocked b r)" "channels_ok (addBindingLocked b r)"
    by (rule watches_same[OF assms(1)] channels_same[OF assms(3)]; simp add: addBindingLocked_def)+
  ultimately show ?thesis by simp
qed

lemma addBindings_effect:
  "holds_table r M \<Longrightarrow> watches_ok r \<Longrightarrow> watches_bound r \<Longrightarrow> channels_ok r \<Longrightarrow>
   holds_table (fold addBindingLocked bs r) (M ++ map_of (rev (map (\<lambda>b. (keyForBinding b, b)) bs))) \<and>
   watches_ok (fold addBindingLocked bs r) \<and> watches_bound (fold addBindingLocked bs r) \<and> channels_ok (fold addBindingLocked bs r) \<and>
   rg_started (fold addBindingLocked bs r) = rg_started r"
proof (induction bs arbitrary: r M)
  case (Cons b bs)
  have "holds_table (addBindingLocked b r) (M(keyForBinding b \<mapsto> b))" by (rule addBindingLocked_table[OF Cons.prems(1)])
  note IH = Cons.IH[OF this]
  have st: "rg_started (addBindingLocked b r) = rg_started r" by (simp add: addBindingLocked_def)
  have eq: "M ++ map_of (rev (map (\<lambda>b. (keyForBinding b, b)) (b # bs))) =
      M(keyForBinding b \<mapsto> b) ++ map_of (rev (map (\<lambda>b. (keyForBinding b, b)) bs))"
    by (simp add: map_add_def fun_eq_iff split: option.splits)
  have "watches_ok (addBindingLocked b r)" "watches_bound (addBindingLocked b r)" "channels_ok (addBindingLocked b r)"
    using addBindingLocked_other[OF Cons.prems(2-4), of b] by simp_all
  from IH[OF this] show ?case unfolding eq fold_simps st .
qed simp


text \<open>The sections of one supervisor leave the indexes, the watches and the addresses alone.\<close>

definition same_routes :: "RouteRegistry \<Rightarrow> RouteRegistry \<Rightarrow> bool" where
  "same_routes r r' \<longleftrightarrow> rg_byOwner r' = rg_byOwner r \<and> rg_byTarget r' = rg_byTarget r \<and> rg_watches r' = rg_watches r \<and>
     rg_options r' = rg_options r \<and> map sv_address (rg_supervisors r') = map sv_address (rg_supervisors r)"

lemma supervisor_sections:
  shows "same_routes r (snd (startWithReady s r))" "same_routes r (stopSupervisor s r)" "same_routes r (signalReady s r)"
    "same_routes r (markRecoveryPending s r)" "same_routes r (snd (takeRecoveryPending s r))"
proof -
  have a: "map sv_address ((rg_supervisors r)[s := v]) = map sv_address (rg_supervisors r)" if "sv_address v = sv_address (rg_supervisors r ! s)" for v
    using that by (cases "s < length (rg_supervisors r)") (simp_all add: map_update list_update_same_conv list_update_beyond)
  have c: "same_routes r r' \<Longrightarrow> same_routes r (close_ready x r')" for r' x
    by (cases x) (simp_all add: same_routes_def close_ready_def)
  show "same_routes r (snd (startWithReady s r))" using a by (simp add: startWithReady_def Let_def same_routes_def)
  show "same_routes r (stopSupervisor s r)" unfolding stopSupervisor_def Let_def by (rule c) (use a in \<open>simp add: same_routes_def\<close>)
  show "same_routes r (signalReady s r)"
  proof (cases "sv_firstAttempt (rg_supervisors r ! s)")
    case True
    then have "signalReady s r = close_ready (sv_ready (rg_supervisors r ! s))
        (r\<lparr>rg_supervisors := (rg_supervisors r)[s := (rg_supervisors r ! s)\<lparr>sv_firstAttempt := False, sv_ready := None\<rparr>]\<rparr>)"
      by (simp add: signalReady_def Let_def)
    then show ?thesis using c a by (simp add: same_routes_def)
  qed (simp add: signalReady_def Let_def same_routes_def)
  show "same_routes r (markRecoveryPending s r)" "same_routes r (snd (takeRecoveryPending s r))"
    using a by (simp_all add: markRecoveryPending_def takeRecoveryPending_def same_routes_def)
qed

lemma same_routes_inv:
  assumes "registry_inv k r M" "same_routes r r'" "channels_ok r'"
  shows "registry_inv k r' M"
proof -
  have m: "map sv_address (rg_supervisors r') = map sv_address (rg_supervisors r)" using assms(2) by (simp add: same_routes_def)
  then have len: "length (rg_supervisors r') = length (rg_supervisors r)" by (rule map_eq_imp_length_eq)
  have addr: "sv_address (rg_supervisors r' ! s) = sv_address (rg_supervisors r ! s)" if "s < length (rg_supervisors r)" for s
    using arg_cong[OF m, of "\<lambda>xs. xs ! s"] that len by simp
  have cap: "watchCapacity r' = watchCapacity r" using assms(2) by (simp add: watchCapacity_def same_routes_def)
  have "watches_ok r'" using assms(1,2) addr len by (simp add: registry_inv_def same_routes_def watches_ok_def cap)
  then show ?thesis using assms by (simp add: registry_inv_def same_routes_def holds_table_def watches_bound_def cap)
qed

text \<open>The table after a replacement: the owner's bindings are those of the wanted keys, an old one where there was one.\<close>

definition replaced_table ::
  "NamespacedName \<Rightarrow> (routeBindingKey \<rightharpoonup> RouteBinding) \<Rightarrow> (routeBindingKey \<rightharpoonup> RouteBinding) \<Rightarrow> routeBindingKey \<rightharpoonup> RouteBinding" where
  "replaced_table owner new M key =
    (if rk_owner key \<noteq> owner then M key else case new key of None \<Rightarrow> None | Some b \<Rightarrow> (case M key of Some b' \<Rightarrow> Some b' | None \<Rightarrow> Some b))"

text \<open>The list of new routes is keyed by the routes' keys, all of the lease's owner.\<close>

definition new_ok :: "K8sValidation \<Rightarrow> Lease \<Rightarrow> bindings \<Rightarrow> bool" where
  "new_ok k lease new \<longleftrightarrow> distinct (map fst new) \<and>
     (\<forall>key b. (key, b) \<in> set new \<longrightarrow> key = keyForBinding b \<and> binding_ok k b \<and> rb_subject b = subject_of lease)"

lemma new_ok_Nil: "new_ok k lease []"
  by (simp add: new_ok_def)

lemma validateRoute_ok: "validateRoute k lease b = Inr u \<Longrightarrow> binding_ok k b \<and> rb_subject b = subject_of lease"
  by (auto simp: validateRoute_def Let_def binding_ok_def subject_of_def res_bind_def split: if_splits sum.splits)

lemma validateRoutes_ok:
  "validateRoutes k lease acc routes = Inr new \<Longrightarrow> new_ok k lease acc \<Longrightarrow>
   new_ok k lease new \<and> new = acc @ map (\<lambda>b. (keyForBinding b, b)) routes"
proof (induction routes arbitrary: acc)
  case (Cons b bs)
  obtain u where u: "validateRoute k lease b = Inr u" and n: "map_of acc (keyForBinding b) = None"
    and rest: "validateRoutes k lease (acc @ [(keyForBinding b, b)]) bs = Inr new"
    using Cons.prems(1) by (auto simp: res_bind_def split: sum.splits if_splits)
  have "new_ok k lease (acc @ [(keyForBinding b, b)])"
    using Cons.prems(2) validateRoute_ok[OF u] n by (auto simp: new_ok_def map_of_eq_None_iff)
  from Cons.IH[OF rest this] show ?case by (elim conjE) (intro conjI, assumption, simp)
qed simp

lemma binding_key_owner: "binding_ok k b \<Longrightarrow> rk_owner (keyForBinding b) = sub_key (rb_subject b)"
  by (simp add: binding_ok_def keyForBinding_def)

lemma owner_bindings:
  assumes "holds_table r M"
  shows "(key, b) \<in> set (inner (rg_byOwner r) owner) \<longleftrightarrow> M key = Some b \<and> rk_owner key = owner"
proof -
  have i: "index_ok rb_owner (rg_byOwner r) M" "table_ok M" using assms by (simp_all add: holds_table_def)
  have "rk_owner key = rb_owner b" if "M key = Some b" using that i(2) owner_index.key_group by (metis table_ok_def)
  then show ?thesis using inner_mem[OF i(1), of key b owner] by auto
qed

lemma target_bindings:
  assumes "holds_table r M"
  shows "(key, b) \<in> set (inner (rg_byTarget r) a) \<longleftrightarrow> M key = Some b \<and> rk_address key = a"
proof -
  have i: "index_ok rb_address (rg_byTarget r) M" "table_ok M" using assms by (simp_all add: holds_table_def)
  have "rk_address key = rb_address b" if "M key = Some b" using that i(2) target_index.key_group by (metis table_ok_def)
  then show ?thesis using inner_mem[OF i(1), of key b a] by auto
qed


lemma replaced_table_eq:
  assumes "holds_table r M" "new_ok k lease new"
  defines "old \<equiv> inner (rg_byOwner r) (ls_key lease)"
  defines "gone \<equiv> map snd (filter (\<lambda>(key, _). map_of new key = None) old)"
  defines "added \<equiv> map snd (filter (\<lambda>(key, _). map_of (filter (\<lambda>(key, _). map_of new key \<noteq> None) old) key = None) new)"
  shows "(M |` (- keyForBinding ` set gone)) ++ map_of (rev (map (\<lambda>b. (keyForBinding b, b)) added)) = replaced_table (ls_key lease) (map_of new) M"
proof
  fix key
  have old: "(key', b) \<in> set old \<longleftrightarrow> M key' = Some b \<and> rk_owner key' = ls_key lease" for key' b
    unfolding old_def by (rule owner_bindings[OF assms(1)])
  have keyed: "keyForBinding b = key'" if "M key' = Some b" for key' b using assms(1) that by (auto simp: holds_table_def table_ok_def)
  have nk: "key' = keyForBinding b" "rk_owner key' = ls_key lease" if "(key', b) \<in> set new" for key' b
  proof -
    have b: "key' = keyForBinding b" "binding_ok k b" "rb_subject b = subject_of lease" using assms(2) that by (auto simp: new_ok_def)
    then show "key' = keyForBinding b" "rk_owner key' = ls_key lease" using binding_key_owner[OF b(2)] by (simp_all add: subject_of_def)
  qed
  have dn: "distinct (map fst new)" using assms(2) by (simp add: new_ok_def)
  have goneK: "key \<in> keyForBinding ` set gone \<longleftrightarrow> rk_owner key = ls_key lease \<and> M key \<noteq> None \<and> map_of new key = None"
  proof
    assume "key \<in> keyForBinding ` set gone"
    then obtain key' b where "(key', b) \<in> set old" "map_of new key' = None" "key = keyForBinding b" by (auto simp: gone_def)
    then show "rk_owner key = ls_key lease \<and> M key \<noteq> None \<and> map_of new key = None" using old keyed[of key' b] by simp
  next
    assume k: "rk_owner key = ls_key lease \<and> M key \<noteq> None \<and> map_of new key = None"
    then obtain b where b: "M key = Some b" by auto
    then have "(key, b) \<in> set (filter (\<lambda>(key, _). map_of new key = None) old)" using old k by simp
    then have "b \<in> set gone" unfolding gone_def set_map by (rule rev_image_eqI) simp
    then show "key \<in> keyForBinding ` set gone" using keyed[OF b] by (simp add: rev_image_eqI)
  qed
  have kept: "map_of (filter (\<lambda>(key, _). map_of new key \<noteq> None) old) key' = None \<longleftrightarrow> \<not> (rk_owner key' = ls_key lease \<and> M key' \<noteq> None \<and> map_of new key' \<noteq> None)" for key'
    using old by (auto simp: map_of_eq_None_iff image_iff)
  have ke: "map (\<lambda>b. (keyForBinding b, b)) added = filter (\<lambda>(key, _). map_of (filter (\<lambda>(key, _). map_of new key \<noteq> None) old) key = None) new"
    unfolding added_def map_map by (rule map_idI) (use nk in auto)
  have addM: "map_of (rev (map (\<lambda>b. (keyForBinding b, b)) added)) key = (if rk_owner key = ls_key lease \<and> M key \<noteq> None \<and> map_of new key \<noteq> None then None else map_of new key)"
  proof -
    have "distinct (map fst (map (\<lambda>b. (keyForBinding b, b)) added))" unfolding ke using dn by (rule distinct_map_filter)
    then have "map_of (rev (map (\<lambda>b. (keyForBinding b, b)) added)) = map_of (map (\<lambda>b. (keyForBinding b, b)) added)"
      by (subst map_of_inject_set) (simp_all flip: rev_map)
    then show ?thesis unfolding ke using kept by (simp add: map_of_filter_key)
  qed
  have own: "map_of new key \<noteq> None \<Longrightarrow> rk_owner key = ls_key lease" using nk(2) map_of_SomeD[of new key] by auto
  show "((M |` (- keyForBinding ` set gone)) ++ map_of (rev (map (\<lambda>b. (keyForBinding b, b)) added))) key = replaced_table (ls_key lease) (map_of new) M key"
    unfolding map_add_def addM replaced_table_def restrict_map_def using goneK own by (auto split: option.splits)
qed

lemma replaceLocked_inv:
  assumes inv: "registry_inv k r M" and new: "new_ok k lease new" and rep: "replaceLocked t lease new r = Inr (stops, ws, r')"
  shows "registry_inv k r' (replaced_table (ls_key lease) (map_of new) M)"
proof -
  let ?old = "inner (rg_byOwner r) (ls_key lease)"
  let ?gone = "map snd (filter (\<lambda>(key, _). map_of new key = None) ?old)"
  let ?kept = "filter (\<lambda>(key, _). map_of new key \<noteq> None) ?old"
  let ?added = "map snd (filter (\<lambda>(key, _). map_of ?kept key = None) new)"
  have i: "holds_table r M" "watches_ok r" "watches_bound r" "channels_ok r" "\<forall>key b. M key = Some b \<longrightarrow> binding_ok k b"
    using inv by (simp_all add: registry_inv_def)
  define r1 where "r1 = snd (removeBindings ?gone r)"
  define r2 where "r2 = fold addBindingLocked ?added r1"
  define r3 where "r3 = (if new = [] then r2\<lparr>rg_byOwner := AList.delete (ls_key lease) (rg_byOwner r2)\<rparr> else r2)"
  define r4 where "r4 = snd (ensureWatchCapacityLocked r3)"
  let ?M = "replaced_table (ls_key lease) (map_of new) M"
  have M1: "(M |` (- keyForBinding ` set ?gone)) ++ map_of (rev (map (\<lambda>b. (keyForBinding b, b)) ?added)) = ?M"
    using replaced_table_eq[OF i(1) new] .
  have t1: "holds_table r1 (M |` (- keyForBinding ` set ?gone))" unfolding r1_def by (rule removeBindings_table[OF i(1)])
  have w1: "watches_ok r1" "watches_bound r1" unfolding r1_def using removeBindings_watches[OF i(2,3)] by simp_all
  have c1: "channels_ok r1" unfolding r1_def by (rule channels_same[OF i(4)]) (use removeBindings_other[of ?gone r] in simp_all)
  note t2 = addBindings_effect[OF t1 w1 c1, of ?added, folded r2_def, unfolded M1]
  have t3: "holds_table r3 ?M \<and> watches_ok r3 \<and> watches_bound r3 \<and> channels_ok r3"
  proof (cases "new = []")
    case True
    have "map_of (rg_byOwner r2) (ls_key lease) = None"
    proof -
      have x: "index_ok rb_owner (rg_byOwner r2) ?M" using t2 by (simp add: holds_table_def)
      have "inner (rg_byOwner r2) (ls_key lease) = []"
      proof (rule ccontr)
        assume "inner (rg_byOwner r2) (ls_key lease) \<noteq> []"
        then obtain key b where "(key, b) \<in> set (inner (rg_byOwner r2) (ls_key lease))" by (cases "inner (rg_byOwner r2) (ls_key lease)") auto
        then have "?M key = Some b \<and> rk_owner key = ls_key lease" using owner_bindings[of r2 ?M] t2 by simp
        then show False using True by (elim conjE) (simp add: replaced_table_def)
      qed
      then show ?thesis by (simp only: inner_Nil_iff[OF x])
    qed
    then have "AList.delete (ls_key lease) (rg_byOwner r2) = rg_byOwner r2" by (intro delete_id) (simp add: map_of_eq_None_iff)
    then have "r3 = r2" by (simp add: r3_def)
    then show ?thesis using t2 by simp
  qed (use t2 in \<open>simp add: r3_def\<close>)
  have ok: "\<forall>key b. ?M key = Some b \<longrightarrow> binding_ok k b"
    using i(5) new by (auto simp: replaced_table_def new_ok_def split: if_splits option.splits dest: map_of_SomeD)
  have inv4: "registry_inv k r4 ?M" unfolding r4_def using t3 ok by (intro ensure_inv) simp_all
  define r5 where "r5 = (if rg_started r4
     then r4\<lparr>rg_deferred := fold (\<lambda>a d. if map_of (rg_watches r4) a = None then AList.update a True d else d)
       (map (rb_address \<circ> snd) new) (rg_deferred r4)\<rparr> else r4)"
  obtain stops0 where rb: "removeBindings ?gone r = (stops0, r1)" by (cases "removeBindings ?gone r") (simp add: r1_def)
  have cur: "lease_current t lease" using rep by (cases "lease_current t lease") (simp_all add: replaceLocked_def)
  have "replaceLocked t lease new r = Inr (stops0, supervisorsForBindingsLocked new r5, r5)"
    unfolding replaceLocked_def Let_def rb prod.case r5_def r4_def r3_def r2_def by (simp only: cur not_True_eq_False if_False)
  then have "r' = r5" using rep by simp
  then have "same_routes r4 r'" "channels_ok r'" using inv4 channels_same[of r4 r'] by (simp_all add: r5_def same_routes_def registry_inv_def)
  then show ?thesis by (rule same_routes_inv[OF inv4])
qed


lemma supervisor_channels:
  assumes "channels_ok r" "s < length (rg_supervisors r)"
  shows "channels_ok (stopSupervisor s r)" "channels_ok (signalReady s r)" "channels_ok (markRecoveryPending s r)"
    "channels_ok (snd (takeRecoveryPending s r))"
  using assms by (auto simp: stopSupervisor_def signalReady_def markRecoveryPending_def takeRecoveryPending_def Let_def
      intro: channels_close channels_flag)

lemma removeAll_inv:
  assumes "registry_inv k r M"
  shows "registry_inv k (snd (snd (removeAllLocked r))) Map.empty"
proof -
  have "0 \<le> watchCapacity r" using assms by (simp add: watchCapacity_def)
  then show ?thesis using assms
    by (simp add: registry_inv_def removeAllLocked_def holds_table_def index_ok_def inner_def table_ok_def watches_ok_def watchCapacity_def
        watches_bound_def channels_ok_def)
qed

lemma section_forms:
  "snd (snd (pruneStaleOwner t owner r)) = snd (ensureWatchCapacityLocked (snd (removeBindings
     (filter (\<lambda>b. \<not> tracker_current t (rb_subject b)) (map snd (inner (rg_byOwner r) owner))) r)))"
  "snd (snd (pruneAddressLocked t a r)) = snd (ensureWatchCapacityLocked (snd (removeBindings
     (filter (\<lambda>b. \<not> tracker_current t (rb_subject b)) (map snd (inner (rg_byTarget r) a))) r)))"
  "snd (snd (removeOwnerLocked owner r)) = snd (ensureWatchCapacityLocked (snd (removeBindings (map snd (inner (rg_byOwner r) owner)) r)))"
  by (simp_all add: pruneStaleOwner_def pruneAddressLocked_def pruneStaleLocked_def removeOwnerLocked_def split_def Let_def)

lemma step_inv:
  assumes "registry_step k r r'" and inv: "registry_inv k r M" and ch: "channels_ok r"
  shows "\<exists>M. registry_inv k r' M"
  using assms(1)
proof cases
  case (step_replace lease routes new t stops ws)
  have "new_ok k lease new" using validateRoutes_ok[OF step_replace(1) new_ok_Nil] ..
  then show ?thesis using replaceLocked_inv[OF inv _ step_replace(2)] by (intro exI)
next
  case (step_prune_owner t owner)
  then show ?thesis using remove_inv[OF inv] by (intro exI) (simp add: section_forms)
next
  case (step_prune_address t a)
  then show ?thesis using remove_inv[OF inv] by (intro exI) (simp add: section_forms)
next
  case (step_remove_owner owner)
  then show ?thesis using remove_inv[OF inv] by (intro exI) (simp add: section_forms)
next
  case step_remove_all
  then show ?thesis using removeAll_inv[OF inv] by (intro exI) simp
next
  case step_begin
  then have "same_routes r r'" "channels_ok r'" using inv channels_same[of r r'] by (simp_all add: same_routes_def registry_inv_def)
  then show ?thesis using same_routes_inv[OF inv] by (intro exI)
next
  case (step_start s)
  show ?thesis unfolding step_start(1) using same_routes_inv[OF inv supervisor_sections(1) startWithReady_channels[OF ch step_start(2)]] by (intro exI)
next
  case (step_stop s)
  show ?thesis unfolding step_stop(1) using same_routes_inv[OF inv supervisor_sections(2) supervisor_channels(1)[OF ch step_stop(2)]] by (intro exI)
next
  case (step_signal s)
  show ?thesis unfolding step_signal(1) using same_routes_inv[OF inv supervisor_sections(3) supervisor_channels(2)[OF ch step_signal(2)]] by (intro exI)
next
  case (step_mark s)
  show ?thesis unfolding step_mark(1) using same_routes_inv[OF inv supervisor_sections(4) supervisor_channels(3)[OF ch step_mark(2)]] by (intro exI)
next
  case (step_take s)
  show ?thesis unfolding step_take(1) using same_routes_inv[OF inv supervisor_sections(5) supervisor_channels(4)[OF ch step_take(2)]] by (intro exI)
qed


lemma registry_inv_init: "registry_inv k (NewRouteRegistry watcher options) Map.empty"
  by (simp add: registry_inv_def NewRouteRegistry_def Let_def holds_table_def index_ok_def inner_def table_ok_def watches_ok_def
      watches_bound_def channels_ok_def watchCapacity_def)

lemma reachable_inv: "registry_reachable k (NewRouteRegistry watcher options) r \<Longrightarrow> \<exists>M. registry_inv k r M"
proof (induction rule: registry_reachable.induct)
  case reach_init
  show ?case using registry_inv_init by (intro exI)
next
  case (reach_step r r')
  then obtain M where M: "registry_inv k r M" by blast
  then have "channels_ok r" by (simp add: registry_inv_def)
  then show ?case by (rule step_inv[OF reach_step(2) M])
qed

section \<open>Lemmas: permits, events and replacements\<close>

lemma same_routes_trans: "same_routes r r' \<Longrightarrow> same_routes r' r'' \<Longrightarrow> same_routes r r''"
  by (simp add: same_routes_def)

lemma same_routes_refl [simp]: "same_routes r r"
  by (simp add: same_routes_def)

lemma fold_same_routes: "(\<And>s r. same_routes r (f s r)) \<Longrightarrow> same_routes r (fold f ss r)"
  by (induction ss arbitrary: r) (auto intro: same_routes_trans)

lemma settle_same_routes: "same_routes (snd (snd x)) (settle x)"
proof -
  have s: "same_routes r (startSupervisor s r)" for s r using supervisor_sections(1) by (simp add: startSupervisor_def)
  obtain stops starts r where x: "x = (stops, starts, r)" by (cases x) auto
  have stop: "same_routes r (fold stopSupervisor stops r)" by (rule fold_same_routes) (rule supervisor_sections(2))
  have "same_routes r (fold startSupervisor starts (fold stopSupervisor stops r))"
    by (rule same_routes_trans[OF stop fold_same_routes]) (rule s)
  then show ?thesis using stop by (simp add: settle_def x Let_def)
qed

lemma waitAll_same_routes: "waitAll waits ss r = (e, r') \<Longrightarrow> same_routes r r'"
proof (induction ss arbitrary: r)
  case (Cons s ss)
  obtain ready r1 where r1: "startForWait s r = (ready, r1)" by (cases "startForWait s r")
  have "same_routes r r1" using r1 supervisor_sections(1)[of r s] by (auto simp: startForWait_def split: if_splits)
  moreover have "same_routes r1 r'" using Cons.prems r1 Cons.IH[of r1] by (auto split: option.splits)
  ultimately show ?case by (rule same_routes_trans)
qed simp

text \<open>The bindings of an address whose subject the tracker holds current.\<close>

definition current_bindings :: "FreshnessTracker option \<Rightarrow> WatchAddress \<Rightarrow> RouteRegistry \<Rightarrow> RouteBinding list" where
  "current_bindings t a r = filter (\<lambda>b. tracker_current t (rb_subject b)) (map snd (inner (rg_byTarget r) a))"

lemma pruned_bindings:
  assumes inv: "registry_inv k r M"
  shows "set (map snd (inner (rg_byTarget (snd (snd (pruneAddressLocked t a r)))) a)) = set (current_bindings t a r)"
    "\<forall>b \<in> set (current_bindings t a r). binding_ok k b \<and> rb_address b = a"
proof -
  let ?stale = "filter (\<lambda>b. \<not> tracker_current t (rb_subject b)) (map snd (inner (rg_byTarget r) a))"
  let ?r = "snd (snd (pruneAddressLocked t a r))"
  have h: "holds_table r M" and ok: "\<forall>key b. M key = Some b \<longrightarrow> binding_ok k b" and keyed: "\<And>key b. M key = Some b \<Longrightarrow> keyForBinding b = key"
    using inv by (auto simp: registry_inv_def holds_table_def table_ok_def)
  have "registry_inv k ?r (M |` (- keyForBinding ` set ?stale))" unfolding section_forms by (rule remove_inv[OF inv])
  then have h': "holds_table ?r (M |` (- keyForBinding ` set ?stale))" by (simp add: registry_inv_def)
  have stale: "keyForBinding b \<in> keyForBinding ` set ?stale \<longleftrightarrow> \<not> tracker_current t (rb_subject b)" if "M key = Some b" "rk_address key = a" for key b
  proof
    assume "keyForBinding b \<in> keyForBinding ` set ?stale"
    then obtain b' key' where b': "keyForBinding b' = keyForBinding b" "(key', b') \<in> set (inner (rg_byTarget r) a)" "\<not> tracker_current t (rb_subject b')" by auto
    then have "M key' = Some b'" using target_bindings[OF h] by simp
    then have "b' = b" using b'(1) that(1) keyed by (metis option.inject)
    then show "\<not> tracker_current t (rb_subject b)" using b'(3) by simp
  next
    assume "\<not> tracker_current t (rb_subject b)"
    moreover have "(key, b) \<in> set (inner (rg_byTarget r) a)" using target_bindings[OF h] that by simp
    ultimately show "keyForBinding b \<in> keyForBinding ` set ?stale" by (intro imageI) (force simp: image_iff)
  qed
  have mem: "(key, b) \<in> set (inner (rg_byTarget ?r) a) \<longleftrightarrow> (key, b) \<in> set (inner (rg_byTarget r) a) \<and> tracker_current t (rb_subject b)" for key b
    unfolding target_bindings[OF h'] target_bindings[OF h] using stale[of key b] keyed[of key b] by (auto simp: restrict_map_def split: if_splits)
  show "set (map snd (inner (rg_byTarget ?r) a)) = set (current_bindings t a r)"
    unfolding current_bindings_def using mem by (force simp: image_iff)
  show "\<forall>b \<in> set (current_bindings t a r). binding_ok k b \<and> rb_address b = a"
  proof
    fix b
    assume "b \<in> set (current_bindings t a r)"
    then obtain key where "(key, b) \<in> set (inner (rg_byTarget r) a)" by (auto simp: current_bindings_def)
    then have m: "M key = Some b" "rk_address key = a" using target_bindings[OF h] by simp_all
    then show "binding_ok k b \<and> rb_address b = a" using ok keyed[OF m(1)] by (auto simp: keyForBinding_def)
  qed
qed

lemma permit_valid:
  assumes "bs \<noteq> []" "\<forall>b \<in> set bs. binding_ok k b \<and> rb_address b = a"
  shows "WatchPermit_valid k \<lparr>wp_address = a, wp_capabilities = map rb_capability bs\<rparr>"
proof -
  have "\<not> isl (WatchAddress_Validate k a)" using assms by (cases bs) (auto simp: binding_ok_def)
  then show ?thesis using assms by (auto simp: WatchPermit_valid_def list_all_iff Let_def binding_ok_def)
qed


interpretation owner_order: strict_weak_order owner_less
  by unfold_locales (auto simp: owner_less_def split: if_splits)

lemma owner_less_total: "\<not> owner_less r l \<Longrightarrow> l \<noteq> r \<Longrightarrow> owner_less l r"
  by (auto simp: owner_less_def split: if_splits intro: NamespacedName.equality)

lemma currentOwners_sorted:
  "sorted_wrt owner_less (sort_by owner_less (remdups xs))"
proof -
  have "sorted_wrt (\<lambda>a b. \<not> owner_less b a) (sort_by owner_less (remdups xs))"
    by (rule owner_order.sorted_sort_by)
  moreover have "sorted_wrt (\<lambda>a b. a \<noteq> b) (sort_by owner_less (remdups xs))"
    using distinct_map_sorted_wrt[of "\<lambda>x. x" "sort_by owner_less (remdups xs)"] by simp
  ultimately show ?thesis by (rule sorted_wrt_combine) (rule owner_less_total)
qed

lemma replaced_keys:
  assumes "registry_inv k r M" "new_ok k lease new" "replaceLocked t lease new r = Inr (stops, ws, r')"
  shows "fst ` set (inner (rg_byOwner r') (ls_key lease)) = fst ` set new"
    "\<forall>x \<in> set (inner (rg_byOwner r') (ls_key lease)). rb_subject (snd x) = subject_of lease \<and> binding_ok k (snd x)"
    "\<forall>owner. owner \<noteq> ls_key lease \<longrightarrow> set (inner (rg_byOwner r') owner) = set (inner (rg_byOwner r) owner)"
proof -
  let ?M = "replaced_table (ls_key lease) (map_of new) M"
  have inv: "registry_inv k r' ?M" by (rule replaceLocked_inv[OF assms])
  have h: "holds_table r M" "holds_table r' ?M" and ok: "\<And>key b. ?M key = Some b \<Longrightarrow> binding_ok k b \<and> keyForBinding b = key"
    using assms(1) inv by (auto simp: registry_inv_def holds_table_def table_ok_def)
  have nk: "key' = keyForBinding b" "rk_owner key' = ls_key lease" "rk_ownerUID key' = ls_uid lease" "rk_generation key' = ls_generation lease"
    "rk_policyEpoch key' = ls_policyEpoch lease" if "(key', b) \<in> set new" for key' b
  proof -
    have b: "key' = keyForBinding b" "binding_ok k b" "rb_subject b = subject_of lease" using assms(2) that by (auto simp: new_ok_def)
    then show "key' = keyForBinding b" "rk_owner key' = ls_key lease" "rk_ownerUID key' = ls_uid lease" "rk_generation key' = ls_generation lease"
      "rk_policyEpoch key' = ls_policyEpoch lease" by (simp_all add: binding_ok_def keyForBinding_def subject_of_def)
  qed
  have dom: "?M key \<noteq> None \<longleftrightarrow> map_of new key \<noteq> None" if "rk_owner key = ls_key lease" for key
    using that by (auto simp: replaced_table_def split: option.splits)
  have mem: "(key, b) \<in> set (inner (rg_byOwner r') owner) \<longleftrightarrow> ?M key = Some b \<and> rk_owner key = owner" for key b owner by (rule owner_bindings[OF h(2)])
  show "fst ` set (inner (rg_byOwner r') (ls_key lease)) = fst ` set new"
  proof (intro equalityI subsetI)
    fix key
    assume "key \<in> fst ` set (inner (rg_byOwner r') (ls_key lease))"
    then obtain b where "?M key = Some b" "rk_owner key = ls_key lease" using mem by auto
    then show "key \<in> fst ` set new" using dom[of key] by (simp add: map_of_eq_None_iff)
  next
    fix key
    assume key: "key \<in> fst ` set new"
    then have o: "rk_owner key = ls_key lease" using nk(2) by auto
    then have "?M key \<noteq> None" using key dom[of key] by (simp add: map_of_eq_None_iff)
    then obtain b where "?M key = Some b" by auto
    then have "(key, b) \<in> set (inner (rg_byOwner r') (ls_key lease))" using mem o by simp
    then show "key \<in> fst ` set (inner (rg_byOwner r') (ls_key lease))" by (rule rev_image_eqI) simp
  qed
  show "\<forall>x \<in> set (inner (rg_byOwner r') (ls_key lease)). rb_subject (snd x) = subject_of lease \<and> binding_ok k (snd x)"
  proof
    fix x
    assume x: "x \<in> set (inner (rg_byOwner r') (ls_key lease))"
    obtain key b where xb: "x = (key, b)" by (cases x)
    have m: "?M key = Some b" "rk_owner key = ls_key lease" using x xb mem by simp_all
    then obtain b' where "map_of new key = Some b'" using dom[of key] by auto
    then have n: "(key, b') \<in> set new" by (rule map_of_SomeD)
    have b: "binding_ok k b" "keyForBinding b = key" using ok[OF m(1)] by simp_all
    have "rb_subject b = subject_of lease"
      using nk[OF n] b by (intro Subject.equality) (auto simp: binding_ok_def keyForBinding_def subject_of_def)
    then show "rb_subject (snd x) = subject_of lease \<and> binding_ok k (snd x)" using xb b by simp
  qed
  show "\<forall>owner. owner \<noteq> ls_key lease \<longrightarrow> set (inner (rg_byOwner r') owner) = set (inner (rg_byOwner r) owner)"
  proof (intro allI impI)
    fix owner
    assume "owner \<noteq> ls_key lease"
    then have "(key, b) \<in> set (inner (rg_byOwner r') owner) \<longleftrightarrow> (key, b) \<in> set (inner (rg_byOwner r) owner)" for key b
      unfolding mem owner_bindings[OF h(1)] by (auto simp: replaced_table_def)
    then show "set (inner (rg_byOwner r') owner) = set (inner (rg_byOwner r) owner)" by auto
  qed
qed


section \<open>A concrete registry for the witnesses\<close>

definition rw_k8s :: K8sValidation where
  "rw_k8s = \<lparr>isDNS1123Label = (\<lambda>s. s \<noteq> []), isDNS1123Subdomain = (\<lambda>s. s \<noteq> [])\<rparr>"

definition rw_lease :: Lease where
  "rw_lease = \<lparr>ls_key = \<lparr>nn_namespace = ''team'', nn_name = ''f''\<rparr>, ls_uid = ''u'', ls_generation = 1, ls_policyEpoch = 0\<rparr>"

definition rw_tracker :: "FreshnessTracker option" where
  "rw_tracker = Some (Observe NewFreshnessTracker (ls_key rw_lease) (ls_uid rw_lease) (ls_generation rw_lease) False)"

definition rw_target :: ReadTarget where
  "rw_target = \<lparr>rt_sourceID = ''src'', rt_gvr = \<lparr>gvr_group = ''apps'', gvr_version = ''v1'', gvr_resource = ''deployments''\<rparr>,
     rt_kind = ''Deployment'', rt_scope = ScopeNamespaced, rt_namespace = ''team''\<rparr>"

definition rw_capability :: Capability where
  "rw_capability = \<lparr>cap_subject = subject_of rw_lease, cap_request = RequestForTarget rw_target,
     cap_record = zero_record\<lparr>rec_kind := RecordPolicyDecision, rec_outcome := OutcomeAllowed, rec_reason := PolicyReasonText ReasonAllowed\<rparr>\<rparr>"

definition rw_address :: WatchAddress where
  "rw_address = \<lparr>wa_gvr = rt_gvr rw_target, wa_scope = ScopeNamespaced, wa_namespace = ''team''\<rparr>"

definition rw_route :: RouteBinding where
  "rw_route = \<lparr>rb_address = rw_address, rb_sourceID = ''src'', rb_owner = ls_key rw_lease, rb_ownerUID = ''u'', rb_generation = 1,
     rb_subject = subject_of rw_lease, rb_capability = rw_capability\<rparr>"

definition rw_registry :: RouteRegistry where
  "rw_registry = snd (Replace rw_k8s rw_tracker rw_tracker rw_tracker (\<lambda>_. None) rw_lease [rw_route] (NewRouteRegistry True []))"

lemma rw_route_new: "NewAuthorizedRoute rw_k8s rw_target rw_capability = Inr rw_route"
  by code_simp

lemma rw_reachable: "registry_reachable rw_k8s (NewRouteRegistry True []) rw_registry"
proof -
  let ?new = "[(keyForBinding rw_route, rw_route)]"
  have v: "validateRoutes rw_k8s rw_lease [] [rw_route] = Inr ?new" by code_simp
  have l: "lease_current rw_tracker rw_lease" by code_simp
  have "\<exists>ws. replaceLocked rw_tracker rw_lease ?new (NewRouteRegistry True []) = Inr ([], ws, rw_registry) \<and> \<not> rg_started rw_registry"
  proof -
    have "\<not> isl (replaceLocked rw_tracker rw_lease ?new (NewRouteRegistry True []))" by code_simp
    then obtain stops ws r where r: "replaceLocked rw_tracker rw_lease ?new (NewRouteRegistry True []) = Inr (stops, ws, r)"
      by (cases "replaceLocked rw_tracker rw_lease ?new (NewRouteRegistry True [])") auto
    have "fst (projr (replaceLocked rw_tracker rw_lease ?new (NewRouteRegistry True []))) = []"
      "\<not> rg_started (snd (snd (projr (replaceLocked rw_tracker rw_lease ?new (NewRouteRegistry True [])))))" by code_simp+
    then have s: "stops = []" "\<not> rg_started r" using r by simp_all
    then have "rw_registry = r" using r v l by (simp add: rw_registry_def Replace_def Let_def)
    then show ?thesis using r s by blast
  qed
  then obtain ws where "replaceLocked rw_tracker rw_lease ?new (NewRouteRegistry True []) = Inr ([], ws, rw_registry)" by blast
  from step_replace[OF v this] show ?thesis by (rule reach_step[OF reach_init])
qed

section \<open>Properties\<close>

text \<open>C32: under every interleaving of replacements, prunings, removals, starts, stops and watch attempts, with the freshness
  tracker changing at will, the owner index and the address index of the registry hold the same table of bindings, each with a
  valid capability of its own subject for its own address; watches exist only for bound addresses, one supervisor each, within
  the capacity, and an address without a watch only when the capacity is exhausted; and every ready channel handed out is
  closed exactly once or still belongs to a started supervisor that is to close it, so no waiter is forgotten and no channel
  is closed twice.\<close>

theorem registry_coherent:
  assumes "registry_reachable k (NewRouteRegistry watcher options) r"
  shows "\<exists>M. index_ok rb_owner (rg_byOwner r) M \<and> index_ok rb_address (rg_byTarget r) M \<and>
    (\<forall>key b. M key = Some b \<longrightarrow> keyForBinding b = key \<and> binding_ok k b) \<and> watches_ok r \<and> watches_bound r \<and>
    (fst ` set (rg_watches r) = fst ` set (rg_byTarget r) \<or> int (length (rg_watches r)) = watchCapacity r) \<and> channels_ok r"
proof -
  obtain M where "registry_inv k r M" using reachable_inv[OF assms] by blast
  then show ?thesis by (intro exI[of _ M]) (simp add: registry_inv_def holds_table_def table_ok_def)
qed

theorem registry_coherent_witness:
  "WatchCount rw_registry = 1 \<and> BindingCount (ls_key rw_lease) rw_registry = 1 \<and> channels_ok rw_registry"
proof -
  have "WatchCount rw_registry = 1" "BindingCount (ls_key rw_lease) rw_registry = 1" by code_simp+
  then show ?thesis using registry_coherent[OF rw_reachable] by blast
qed

text \<open>C33: a supervisor obtains a permit for its address exactly when some binding of the address is current; the permit
  holds the capabilities of all current bindings and no other, so each is valid, its subject is current when the permit is
  issued, and its request has the group, scope and namespace of the address; and the only request the metadata watcher sends
  for the permit names exactly the resource and namespace of the address.\<close>

theorem currentPermit_exact:
  assumes "registry_reachable k (NewRouteRegistry watcher options) r"
  shows "case fst (currentPermit k t a r) of
      None \<Rightarrow> current_bindings t a r = []
    | Some p \<Rightarrow> wp_address p = a \<and> wp_capabilities p \<noteq> [] \<and> set (wp_capabilities p) = rb_capability ` set (current_bindings t a r) \<and>
        list_all (\<lambda>c. Capability_IsCurrent c (Some (tracker_current t)) \<and> rq_apiGroup (cap_request c) = gvr_group (wa_gvr a) \<and>
          rq_scope (cap_request c) = wa_scope a \<and> rq_namespace (cap_request c) = wa_namespace a) (wp_capabilities p) \<and>
        ClientMetadataWatcher_Watch k True p version =
          Inr \<lparr>wr_gvr = wa_gvr a, wr_namespace = (if wa_scope a = ScopeNamespaced then Some (wa_namespace a) else None),
               wr_resourceVersion = version, wr_bookmarks = True\<rparr>"
proof -
  obtain M where inv: "registry_inv k r M" using reachable_inv[OF assms] by blast
  let ?bs = "map snd (inner (rg_byTarget (snd (snd (pruneAddressLocked t a r)))) a)"
  note p = pruned_bindings[OF inv, of t a]
  show ?thesis
  proof (cases "?bs = []")
    case True
    then have "current_bindings t a r = []" using p(1) by (metis list.set(1) set_empty)
    then show ?thesis using True by (simp add: currentPermit_def Let_def)
  next
    case False
    let ?ord = "sort_by binding_less ?bs"
    let ?p = "\<lparr>wp_address = a, wp_capabilities = map rb_capability ?ord\<rparr>"
    have ne: "?ord \<noteq> []" using False by (metis length_sort_by length_0_conv)
    have s: "set ?ord = set (current_bindings t a r)" unfolding set_sort_by by (rule p(1))
    have ok: "\<forall>b \<in> set ?ord. binding_ok k b \<and> rb_address b = a" unfolding s by (rule p(2))
    have v: "WatchPermit_valid k ?p" by (rule permit_valid[OF ne ok])
    have e: "fst (currentPermit k t a r) = Some ?p" using False v by (simp add: currentPermit_def Let_def del: map_is_Nil_conv)
    have cur: "tracker_current t (rb_subject b)" if "b \<in> set ?ord" for b using that unfolding s by (simp add: current_bindings_def)
    have caps: "list_all (\<lambda>c. Capability_IsCurrent c (Some (tracker_current t)) \<and> rq_apiGroup (cap_request c) = gvr_group (wa_gvr a) \<and>
        rq_scope (cap_request c) = wa_scope a \<and> rq_namespace (cap_request c) = wa_namespace a) (map rb_capability ?ord)"
      unfolding list_all_iff set_map
    proof (rule ballI, elim imageE)
      fix c b
      assume c: "c = rb_capability b" and b: "b \<in> set ?ord"
      have "binding_ok k b" "rb_address b = a" using bspec[OF ok b] by simp_all
      then show "Capability_IsCurrent c (Some (tracker_current t)) \<and> rq_apiGroup (cap_request c) = gvr_group (wa_gvr a) \<and>
          rq_scope (cap_request c) = wa_scope a \<and> rq_namespace (cap_request c) = wa_namespace a"
        using cur[OF b] unfolding c by (simp add: binding_ok_def Capability_IsCurrent_def)
    qed
    have "ClientMetadataWatcher_Watch k True ?p version =
          Inr \<lparr>wr_gvr = wa_gvr a, wr_namespace = (if wa_scope a = ScopeNamespaced then Some (wa_namespace a) else None),
               wr_resourceVersion = version, wr_bookmarks = True\<rparr>"
      using v by (auto simp: ClientMetadataWatcher_Watch_def res_bind_def WatchPermit_valid_def split: sum.splits)
    moreover have "set (map rb_capability ?ord) = rb_capability ` set (current_bindings t a r)" unfolding set_map s ..
    moreover have "map rb_capability ?ord \<noteq> []" using ne by simp
    ultimately show ?thesis unfolding e option.case WatchPermit.select_convs using caps by (intro conjI refl)
  qed
qed

theorem currentPermit_exact_witness:
  "\<exists>p. fst (currentPermit rw_k8s rw_tracker rw_address rw_registry) = Some p \<and>
     set (wp_capabilities p) = rb_capability ` set (current_bindings rw_tracker rw_address rw_registry)"
proof -
  have "fst (currentPermit rw_k8s rw_tracker rw_address rw_registry) \<noteq> None" by code_simp
  then show ?thesis using currentPermit_exact[OF rw_reachable, of rw_tracker rw_address] by (auto split: option.splits)
qed

text \<open>An event at an address enqueues each owner with a current binding there, once and in name order, and nobody else.\<close>

theorem routeEvent_exact:
  assumes "registry_reachable k (NewRouteRegistry watcher options) r"
  shows "set (fst (routeEvent t a r)) = rb_owner ` set (current_bindings t a r) \<and> sorted_wrt owner_less (fst (routeEvent t a r)) \<and>
    distinct (fst (routeEvent t a r))"
proof -
  obtain M where inv: "registry_inv k r M" using reachable_inv[OF assms] by blast
  have "set (map (rb_owner \<circ> snd) (inner (rg_byTarget (snd (snd (pruneAddressLocked t a r)))) a)) = rb_owner ` set (current_bindings t a r)"
    unfolding pruned_bindings(1)[OF inv, symmetric] by (simp add: image_comp)
  then show ?thesis unfolding routeEvent_def currentOwners_def Let_def fst_conv using currentOwners_sorted by simp
qed

theorem routeEvent_exact_witness:
  "fst (routeEvent rw_tracker rw_address rw_registry) = [ls_key rw_lease] \<and>
   set (fst (routeEvent rw_tracker rw_address rw_registry)) = rb_owner ` set (current_bindings rw_tracker rw_address rw_registry)"
proof -
  have "fst (routeEvent rw_tracker rw_address rw_registry) = [ls_key rw_lease]" by code_simp
  then show ?thesis using routeEvent_exact[OF rw_reachable, of rw_tracker rw_address] by blast
qed

text \<open>C34: a replacement that succeeds leaves the owner with bindings for exactly the keys of the given routes, each valid and of
  the lease's subject, which was current inside the critical section, and leaves the bindings of every other owner alone; a
  replacement refused because the lease is stale, or because a route does not validate, changes nothing.\<close>

theorem Replace_exact:
  assumes "registry_reachable k (NewRouteRegistry watcher options) r"
    and "Replace k t t' t'' waits lease routes r = (res, r')"
  shows "(case res of
      None \<Rightarrow> fst ` set (inner (rg_byOwner r') (ls_key lease)) = keyForBinding ` set routes \<and> lease_current t' lease \<and>
        (\<forall>x \<in> set (inner (rg_byOwner r') (ls_key lease)). rb_subject (snd x) = subject_of lease \<and> binding_ok k (snd x)) \<and>
        (\<forall>owner. owner \<noteq> ls_key lease \<longrightarrow> set (inner (rg_byOwner r') owner) = set (inner (rg_byOwner r) owner))
    | Some (StaleRuntime s) \<Rightarrow> r' = r
    | Some (RegistryError e) \<Rightarrow> isl (validateRoutes k lease [] routes) \<longrightarrow> r' = r)"
proof -
  obtain M where inv: "registry_inv k r M" using reachable_inv[OF assms(1)] by blast
  consider (stale) "\<not> lease_current t lease" | (invalid) e where "lease_current t lease" "validateRoutes k lease [] routes = Inl e"
    | (valid) new where "lease_current t lease" "validateRoutes k lease [] routes = Inr new"
    by (cases "lease_current t lease"; cases "validateRoutes k lease [] routes") auto
  then show ?thesis
  proof cases
    case valid
    note new = validateRoutes_ok[OF valid(2) new_ok_Nil, THEN conjunct1]
      validateRoutes_ok[OF valid(2) new_ok_Nil, THEN conjunct2, unfolded append_Nil]
    show ?thesis
    proof (cases "replaceLocked t' lease new r")
      case (Inl e)
      then have "e = StaleRuntime ''route-replace''" by (cases "lease_current t' lease") (simp_all add: replaceLocked_def Let_def split_def)
      then show ?thesis using assms(2) valid Inl by (auto simp: Replace_def)
    next
      case (Inr x)
      obtain stops ws r1 where x: "x = (stops, ws, r1)" by (cases x) auto
      note k = replaced_keys[OF inv new(1) Inr[unfolded x]]
      have cur: "lease_current t' lease" using Inr by (auto simp: replaceLocked_def split: if_splits)
      have keys: "fst ` set new = keyForBinding ` set routes" unfolding new(2) by (simp add: image_comp)
      have "same_routes r1 r'" if "res = None"
      proof -
        have stop: "same_routes r1 (fold stopSupervisor stops r1)" by (rule fold_same_routes) (rule supervisor_sections(2))
        show ?thesis using assms(2) valid Inr x that stop waitAll_same_routes
          by (auto simp: Replace_def Let_def split: if_splits prod.splits option.splits intro: same_routes_trans)
      qed
      then have o: "rg_byOwner r' = rg_byOwner r1" if "res = None" using that by (simp add: same_routes_def)
      show ?thesis
      proof (cases res)
        case None
        show ?thesis unfolding None option.case o[OF None] using k cur unfolding keys by (intro conjI)
      next
        case (Some e)
        then obtain m where "e = RegistryError m" using assms(2) valid Inr x by (auto simp: Replace_def Let_def split: if_splits prod.splits option.splits)
        then show ?thesis using Some valid(2) by simp
      qed
    qed
  qed (use assms(2) in \<open>auto simp: Replace_def\<close>)
qed

theorem Replace_exact_witness:
  "fst ` set (inner (rg_byOwner (snd (Replace rw_k8s rw_tracker rw_tracker rw_tracker (\<lambda>_. None) rw_lease [] rw_registry))) (ls_key rw_lease)) = {} \<and>
   fst ` set (inner (rg_byOwner rw_registry) (ls_key rw_lease)) = {keyForBinding rw_route}"
proof -
  have n: "fst (Replace rw_k8s rw_tracker rw_tracker rw_tracker (\<lambda>_. None) rw_lease [] rw_registry) = None"
    "map fst (inner (rg_byOwner rw_registry) (ls_key rw_lease)) = [keyForBinding rw_route]" by code_simp+
  then obtain r' where r': "Replace rw_k8s rw_tracker rw_tracker rw_tracker (\<lambda>_. None) rw_lease [] rw_registry = (None, r')"
    by (cases "Replace rw_k8s rw_tracker rw_tracker rw_tracker (\<lambda>_. None) rw_lease [] rw_registry") simp
  have "set (map fst (inner (rg_byOwner rw_registry) (ls_key rw_lease))) = {keyForBinding rw_route}" unfolding n(2) by simp
  then show ?thesis using Replace_exact[OF rw_reachable r'] r' by simp
qed

end
