(* ===== verification/Trigger.thy ===== *)
theory Trigger
  imports ApiTypes
begin

text \<open>
  The bounded trigger ingress and the enqueue-all recovery
  (\<^verbatim>\<open>src/internal/reconciliation/trigger.go\<close>).

  Producers, the drain goroutine, the enqueue-all worker and the starter interleave at the mutex of the
  source: \<open>trigger_step\<close> has one transition per critical section or per action between two critical
  sections.  The buffered wake channel of capacity one is \<open>tg_wake\<close>; \<open>tg_drain\<close> and \<open>tg_worker\<close> are the
  program counters of the two goroutines; \<open>tg_starters\<close> counts the callers that are between recording
  an intent and \<^verbatim>\<open>startEnqueueWorker\<close>; \<open>tg_starting\<close> holds while \<^verbatim>\<open>Start\<close> is before its own
  \<^verbatim>\<open>RequestEnqueueAll\<close>.  \<open>tg_queue\<close> is the sequence of keys added to the work queue.  The ghost sets
  \<open>tg_accepted\<close>, \<open>tg_refused\<close> and \<open>tg_recovering\<close> follow what happens to each trigger.
\<close>

section \<open>State\<close>

datatype drain_phase = DrainIdle | DrainWoken | DrainFlushing "NamespacedName list" bool

datatype worker_phase = WorkerNone | WorkerTop | WorkerListing | WorkerBackoff

record TriggerSource =
  tg_started :: bool
  tg_running :: bool
  tg_requested :: bool
  tg_pendingCapacity :: int
  tg_pending :: "NamespacedName list"
  tg_wake :: bool
  tg_overloaded :: bool
  tg_queue :: "NamespacedName list"
  tg_drain :: drain_phase
  tg_worker :: worker_phase
  tg_starters :: nat
  tg_starting :: bool
  tg_done :: bool
  tg_accepted :: "NamespacedName set"
  tg_refused :: "NamespacedName set"
  tg_recovering :: "NamespacedName set"

definition NewTriggerSource :: "int \<Rightarrow> TriggerSource" where
  "NewTriggerSource capacity = \<lparr>tg_started = False, tg_running = False, tg_requested = False,
     tg_pendingCapacity = capacity, tg_pending = [], tg_wake = False, tg_overloaded = False, tg_queue = [],
     tg_drain = DrainIdle, tg_worker = WorkerNone, tg_starters = 0, tg_starting = False, tg_done = False,
     tg_accepted = {}, tg_refused = {}, tg_recovering = {}\<rparr>"

section \<open>Operations\<close>

definition effectiveCapacity :: "int \<Rightarrow> int" where
  "effectiveCapacity c = (if c \<le> 0 then 4096 else c)"

definition signalWakeLocked :: "TriggerSource \<Rightarrow> TriggerSource" where
  "signalWakeLocked s = s\<lparr>tg_wake := True\<rparr>"

definition Enqueue :: "NamespacedName \<Rightarrow> TriggerSource \<Rightarrow> TriggerSource" where
  "Enqueue key s =
    (if nn_name key = [] then s
     else
       (let s1 = s\<lparr>tg_pendingCapacity := effectiveCapacity (tg_pendingCapacity s)\<rparr> in
        if key \<in> set (tg_pending s1) then s1\<lparr>tg_accepted := insert key (tg_accepted s1)\<rparr>
        else if int (length (tg_pending s1)) \<ge> tg_pendingCapacity s1 then
          signalWakeLocked (s1\<lparr>tg_overloaded := True, tg_refused := insert key (tg_refused s1)\<rparr>)
        else
          signalWakeLocked (s1\<lparr>tg_pending := key # tg_pending s1, tg_accepted := insert key (tg_accepted s1)\<rparr>)))"

definition key_less :: "NamespacedName \<Rightarrow> NamespacedName \<Rightarrow> bool" where
  "key_less a b = (if nn_namespace a \<noteq> nn_namespace b then nn_namespace a < nn_namespace b else nn_name a < nn_name b)"

text \<open>The three actions of one turn of \<^verbatim>\<open>drainPending\<close>: receiving the wake token, the critical section that
  takes the pending set, and the hand-over to the queue.\<close>

definition drainWake :: "TriggerSource \<Rightarrow> TriggerSource" where
  "drainWake s = s\<lparr>tg_wake := False, tg_drain := DrainWoken\<rparr>"

definition drainTake :: "TriggerSource \<Rightarrow> TriggerSource" where
  "drainTake s = s\<lparr>tg_drain := DrainFlushing (sort_by key_less (tg_pending s)) (tg_overloaded s),
     tg_pending := [], tg_overloaded := False\<rparr>"

text \<open>The critical section of \<^verbatim>\<open>RequestEnqueueAll\<close>; a started source then goes on to \<^verbatim>\<open>startEnqueueWorker\<close>.\<close>

definition RequestEnqueueAll :: "TriggerSource \<Rightarrow> TriggerSource" where
  "RequestEnqueueAll s = s\<lparr>tg_requested := True,
     tg_starters := (if tg_started s then Suc (tg_starters s) else tg_starters s)\<rparr>"

definition drainFlush :: "NamespacedName list \<Rightarrow> bool \<Rightarrow> TriggerSource \<Rightarrow> TriggerSource" where
  "drainFlush keys overloaded s =
    (let s1 = s\<lparr>tg_queue := tg_queue s @ keys, tg_drain := DrainIdle\<rparr> in
     if overloaded then RequestEnqueueAll s1 else s1)"

definition startEnqueueWorker :: "TriggerSource \<Rightarrow> TriggerSource" where
  "startEnqueueWorker s =
    (if \<not> tg_started s \<or> tg_running s then s else s\<lparr>tg_running := True, tg_worker := WorkerTop\<rparr>)"

definition StartLocked :: "TriggerSource \<Rightarrow> TriggerSource option" where
  "StartLocked s =
    (if tg_started s then None
     else Some (s\<lparr>tg_started := True, tg_pendingCapacity := effectiveCapacity (tg_pendingCapacity s),
       tg_starting := True, tg_starters := tg_starters s + (if tg_requested s then 1 else 0)\<rparr>))"

text \<open>\<^verbatim>\<open>drainEnqueueIntents\<close>: its first critical section, and what follows the listing.\<close>

definition workerTop :: "TriggerSource \<Rightarrow> TriggerSource" where
  "workerTop s =
    (if \<not> tg_requested s then s\<lparr>tg_running := False, tg_worker := WorkerNone\<rparr>
     else s\<lparr>tg_requested := False, tg_worker := WorkerListing,
        tg_recovering := tg_recovering s \<union> tg_refused s, tg_refused := {}\<rparr>)"

fun collectKeys :: "string list \<Rightarrow> NamespacedName list \<Rightarrow> NamespacedName list" where
  "collectKeys seen [] = []"
| "collectKeys seen (f # fs) =
    (if nn_name f = [] \<or> nn_namespace f = [] then collectKeys seen fs
     else if (nn_namespace f @ [CHR 0x00] @ nn_name f) \<in> set seen then collectKeys seen fs
     else f # collectKeys ((nn_namespace f @ [CHR 0x00] @ nn_name f) # seen) fs)"

definition enqueueAll :: "NamespacedName list \<Rightarrow> TriggerSource \<Rightarrow> TriggerSource" where
  "enqueueAll facets s = s\<lparr>tg_queue := tg_queue s @ sort_by key_less (collectKeys [] facets)\<rparr>"

definition workerListed :: "NamespacedName list \<Rightarrow> TriggerSource \<Rightarrow> TriggerSource" where
  "workerListed facets s = (enqueueAll facets s)\<lparr>tg_worker := WorkerTop, tg_recovering := {}\<rparr>"

definition workerRetry :: "TriggerSource \<Rightarrow> TriggerSource" where
  "workerRetry s = s\<lparr>tg_requested := True, tg_worker := WorkerTop,
     tg_refused := tg_refused s \<union> tg_recovering s, tg_recovering := {}\<rparr>"

definition workerStop :: "TriggerSource \<Rightarrow> TriggerSource" where
  "workerStop s = s\<lparr>tg_running := False, tg_worker := WorkerNone\<rparr>"

definition nextBackoff :: "int \<Rightarrow> int \<Rightarrow> int" where
  "nextBackoff current maximum =
    (if current \<le> 0 then maximum
     else if current \<ge> go_div maximum 2 \<or> current > wrap64 (maximum - current) then maximum
     else wrap64 (current * 2))"

section \<open>Interleavings\<close>

inductive trigger_step :: "TriggerSource \<Rightarrow> TriggerSource \<Rightarrow> bool" where
  step_enqueue: "trigger_step s (Enqueue key s)"
| step_start: "StartLocked s = Some s' \<Longrightarrow> trigger_step s s'"
| step_start_request: "tg_starting s \<Longrightarrow> trigger_step s ((RequestEnqueueAll s)\<lparr>tg_starting := False\<rparr>)"
| step_request: "trigger_step s (RequestEnqueueAll s)"
| step_starter: "tg_starters s = Suc n \<Longrightarrow> trigger_step s ((startEnqueueWorker s)\<lparr>tg_starters := n\<rparr>)"
| step_wake: "tg_drain s = DrainIdle \<Longrightarrow> tg_wake s \<Longrightarrow> trigger_step s (drainWake s)"
| step_take: "tg_drain s = DrainWoken \<Longrightarrow> trigger_step s (drainTake s)"
| step_flush: "tg_drain s = DrainFlushing keys ov \<Longrightarrow> trigger_step s (drainFlush keys ov s)"
| step_top: "tg_worker s = WorkerTop \<Longrightarrow> trigger_step s (workerTop s)"
| step_listed: "tg_worker s = WorkerListing \<Longrightarrow> trigger_step s (workerListed facets s)"
| step_failed: "tg_worker s = WorkerListing \<Longrightarrow> trigger_step s (s\<lparr>tg_worker := WorkerBackoff\<rparr>)"
| step_retry: "tg_worker s = WorkerBackoff \<Longrightarrow> trigger_step s (workerRetry s)"
| step_stop: "tg_worker s \<in> {WorkerListing, WorkerBackoff} \<Longrightarrow> tg_done s \<Longrightarrow> trigger_step s (workerStop s)"
| step_done: "trigger_step s (s\<lparr>tg_done := True\<rparr>)"

inductive_cases trigger_stepE: "trigger_step s s'"

inductive trigger_reach :: "int \<Rightarrow> TriggerSource \<Rightarrow> bool" for capacity where
  reach_init: "trigger_reach capacity (NewTriggerSource capacity)"
| reach_step: "trigger_reach capacity s \<Longrightarrow> trigger_step s s' \<Longrightarrow> trigger_reach capacity s'"

section \<open>Invariant\<close>

fun drain_keys :: "drain_phase \<Rightarrow> NamespacedName set" where
  "drain_keys (DrainFlushing keys ov) = set keys"
| "drain_keys _ = {}"

fun drain_overloaded :: "drain_phase \<Rightarrow> bool" where
  "drain_overloaded (DrainFlushing keys ov) = ov"
| "drain_overloaded _ = False"

definition bounded_inv :: "int \<Rightarrow> TriggerSource \<Rightarrow> bool" where
  "bounded_inv capacity s \<longleftrightarrow> distinct (tg_pending s) \<and>
     effectiveCapacity (tg_pendingCapacity s) = effectiveCapacity capacity \<and>
     int (length (tg_pending s)) \<le> effectiveCapacity capacity"

definition wake_inv :: "TriggerSource \<Rightarrow> bool" where
  "wake_inv s \<longleftrightarrow> (tg_pending s \<noteq> [] \<or> tg_overloaded s \<longrightarrow> tg_wake s \<or> tg_drain s = DrainWoken)"

definition worker_inv :: "TriggerSource \<Rightarrow> bool" where
  "worker_inv s \<longleftrightarrow>
     (tg_running s \<longleftrightarrow> tg_worker s \<noteq> WorkerNone) \<and>
     (tg_started s \<and> tg_requested s \<longrightarrow> tg_running s \<or> tg_starters s > 0 \<or> tg_starting s \<or> tg_done s)"

definition account_inv :: "TriggerSource \<Rightarrow> bool" where
  "account_inv s \<longleftrightarrow>
     tg_accepted s \<subseteq> set (tg_pending s) \<union> drain_keys (tg_drain s) \<union> set (tg_queue s) \<and>
     (tg_refused s \<noteq> {} \<longrightarrow> tg_overloaded s \<or> drain_overloaded (tg_drain s) \<or> tg_requested s) \<and>
     (tg_recovering s \<noteq> {} \<longrightarrow> tg_worker s \<in> {WorkerListing, WorkerBackoff} \<or> tg_done s)"

lemma effectiveCapacity_idem [simp]: "effectiveCapacity (effectiveCapacity c) = effectiveCapacity c"
  by (simp add: effectiveCapacity_def)

lemmas trigger_defs = Enqueue_def signalWakeLocked_def StartLocked_def RequestEnqueueAll_def startEnqueueWorker_def
  drainWake_def drainTake_def drainFlush_def workerTop_def workerListed_def enqueueAll_def workerRetry_def
  workerStop_def Let_def

lemma bounded_step: "trigger_step s s' \<Longrightarrow> bounded_inv capacity s \<Longrightarrow> bounded_inv capacity s'"
  by (erule trigger_stepE) (auto simp: bounded_inv_def trigger_defs effectiveCapacity_def split: if_splits)

lemma wake_step: "trigger_step s s' \<Longrightarrow> wake_inv s \<Longrightarrow> wake_inv s'"
  by (erule trigger_stepE) (auto simp: wake_inv_def trigger_defs split: if_splits)

lemma worker_step: "trigger_step s s' \<Longrightarrow> worker_inv s \<Longrightarrow> worker_inv s'"
  by (erule trigger_stepE) (auto simp: worker_inv_def trigger_defs split: if_splits)

lemma account_step: "trigger_step s s' \<Longrightarrow> worker_inv s \<Longrightarrow> account_inv s \<Longrightarrow> account_inv s'"
  by (erule trigger_stepE) (auto simp: account_inv_def worker_inv_def trigger_defs split: if_splits)

lemma trigger_reach_inv:
  assumes "trigger_reach capacity s"
  shows "bounded_inv capacity s" "wake_inv s" "worker_inv s" "account_inv s"
proof -
  have "bounded_inv capacity s \<and> wake_inv s \<and> worker_inv s \<and> account_inv s"
    using assms
  proof induction
    case reach_init
    show ?case
      by (simp add: bounded_inv_def wake_inv_def worker_inv_def account_inv_def NewTriggerSource_def effectiveCapacity_def)
  next
    case (reach_step s s')
    then show ?case using bounded_step wake_step worker_step account_step by simp
  qed
  then show "bounded_inv capacity s" "wake_inv s" "worker_inv s" "account_inv s" by simp_all
qed

interpretation key_order: strict_weak_order key_less
  by unfold_locales (auto simp: key_less_def split: if_splits)

section \<open>Properties\<close>

text \<open>C40: the pending set never grows beyond its capacity, a pending trigger or recorded overload always has a
  wake-up on its way, and no trigger is lost: an accepted key is pending, being flushed or queued, and a refused key is
  covered by an overload flag or an enqueue-all intent that a worker holds, until a listing completes or the source
  stops.\<close>

theorem trigger_bounded_and_lossless:
  assumes "trigger_reach capacity s"
  shows "int (length (tg_pending s)) \<le> effectiveCapacity capacity \<and>
    (tg_pending s \<noteq> [] \<or> tg_overloaded s \<longrightarrow> tg_wake s \<or> tg_drain s = DrainWoken) \<and>
    tg_accepted s \<subseteq> set (tg_pending s) \<union> drain_keys (tg_drain s) \<union> set (tg_queue s) \<and>
    (tg_refused s \<noteq> {} \<longrightarrow> tg_overloaded s \<or> drain_overloaded (tg_drain s) \<or> tg_requested s) \<and>
    (tg_recovering s \<noteq> {} \<longrightarrow> tg_worker s \<in> {WorkerListing, WorkerBackoff} \<or> tg_done s) \<and>
    (tg_started s \<and> tg_requested s \<longrightarrow> tg_running s \<or> tg_starters s > 0 \<or> tg_starting s \<or> tg_done s)"
  using trigger_reach_inv[OF assms]
  unfolding bounded_inv_def wake_inv_def worker_inv_def account_inv_def by (intro conjI) (elim conjE, assumption)+

theorem trigger_bounded_and_lossless_witness:
  "\<exists>s. trigger_reach 1 s \<and> tg_overloaded s \<and> int (length (tg_pending s)) \<le> effectiveCapacity 1"
proof -
  let ?a = "\<lparr>nn_namespace = ''n'', nn_name = ''a''\<rparr>" and ?b = "\<lparr>nn_namespace = ''n'', nn_name = ''b''\<rparr>"
  let ?s = "Enqueue ?b (Enqueue ?a (NewTriggerSource 1))"
  have r: "trigger_reach 1 ?s" by (rule reach_step[OF reach_step[OF reach_init step_enqueue] step_enqueue])
  moreover have "tg_overloaded ?s"
    by (simp add: Enqueue_def signalWakeLocked_def effectiveCapacity_def NewTriggerSource_def Let_def)
  ultimately show ?thesis using trigger_bounded_and_lossless[OF r] by (intro exI[of _ ?s]) simp
qed

text \<open>The retry delay grows at least twofold up to its maximum, never passes it and never overflows.\<close>

theorem nextBackoff_bounds:
  assumes "0 < current" and "current \<le> max_int64" and "0 < maximum" and "maximum \<le> max_int64"
  shows "nextBackoff current maximum \<le> maximum \<and> min (2 * current) maximum \<le> nextBackoff current maximum"
proof -
  have w: "wrap64 (maximum - current) = maximum - current"
    using assms by (intro wrap64_id) (auto simp: int64_range_def max_int64_def min_int64_def)
  have d: "go_div maximum 2 = maximum div 2" using assms by (simp add: go_div_def)
  show ?thesis
  proof (cases "current \<ge> maximum div 2 \<or> current > maximum - current")
    case True
    then show ?thesis using assms by (auto simp: nextBackoff_def w d)
  next
    case False
    then have "wrap64 (current * 2) = current * 2"
      using assms by (intro wrap64_id) (auto simp: int64_range_def max_int64_def min_int64_def)
    then show ?thesis using False assms by (auto simp: nextBackoff_def w d)
  qed
qed

theorem nextBackoff_bounds_witness:
  "nextBackoff 3 100 \<le> 100 \<and> min (2 * 3) 100 \<le> nextBackoff 3 100"
  using nextBackoff_bounds[of 3 100] by (simp add: max_int64_def)

end
