(* ===== verification/RouteWatch.thy ===== *)
theory RouteWatch
  imports Routes Trigger
begin

text \<open>
  One watch supervisor (\<^verbatim>\<open>src/internal/reconciliation/routes.go\<close>, \<^verbatim>\<open>watchSupervisor.run\<close>, \<^verbatim>\<open>consume\<close> and
  \<^verbatim>\<open>watchEstablishment\<close>): it watches, resumes and backs off.

  The registry, the tracker, the API server, the clock and the contexts are the environment: an \<open>attempt\<close> holds what they answer
  during one round of the loop, and a run is a list of attempts.  The effects of the loop on the environment are a trace.  The
  text of an error is left out where nothing reads it.
\<close>

section \<open>Errors and events\<close>

text \<open>The classes of errors that the loop distinguishes.\<close>

datatype watch_error =
    WatchForbidden | WatchExpired | WatchGone | WatchTimeout | WatchCanceled | WatchDeadline | WatchNoStream | WatchFailed

definition isExpiredWatchError :: "watch_error option \<Rightarrow> bool" where
  "isExpiredWatchError e \<longleftrightarrow> e = Some WatchExpired \<or> e = Some WatchGone"

datatype watch_reason = ObservedReadUnavailable | ObservedReadForbidden | ObservedListExpired | ObservedReadInterrupted

definition classifyWatchReason :: "watch_error option \<Rightarrow> watch_reason" where
  "classifyWatchReason e =
    (case e of
       None \<Rightarrow> ObservedReadUnavailable
     | Some err \<Rightarrow>
        if err = WatchForbidden then ObservedReadForbidden
        else if isExpiredWatchError e then ObservedListExpired
        else if err = WatchTimeout \<or> err = WatchCanceled \<or> err = WatchDeadline then ObservedReadInterrupted
        else ObservedReadUnavailable)"

text \<open>The reason of the status object in an error event; \<open>None\<close> for no object or another object.\<close>

definition watchEventError :: "string option \<Rightarrow> watch_error" where
  "watchEventError reason =
    (if reason = Some ''Forbidden'' then WatchForbidden
     else if reason = Some ''Expired'' then WatchExpired
     else if reason = Some ''Timeout'' then WatchTimeout
     else WatchFailed)"

datatype event_type = EventAdded | EventModified | EventDeleted | EventBookmark | EventError "string option" | EventOther

text \<open>An event with the resource version of its object, empty when there is none (\<^verbatim>\<open>objectResourceVersion\<close>).\<close>

record watch_event =
  we_type :: event_type
  we_version :: string

section \<open>Establishment\<close>

text \<open>The race between the timer of an attempt and its result.  \<open>est_cancel\<close> is the transport's cancel function, while held;
  \<open>est_signals\<close> counts the calls of \<^verbatim>\<open>onTimeout\<close> and \<open>est_cancelled\<close> the calls of the cancel function.\<close>

record watchEstablishment =
  est_settled :: bool
  est_timedOut :: bool
  est_cancel :: bool
  est_signals :: nat
  est_cancelled :: nat

definition newWatchEstablishment :: watchEstablishment where
  "newWatchEstablishment = \<lparr>est_settled = False, est_timedOut = False, est_cancel = True, est_signals = 0, est_cancelled = 0\<rparr>"

definition timerFires :: "watchEstablishment \<Rightarrow> watchEstablishment" where
  "timerFires e =
    (if est_settled e then e
     else e\<lparr>est_settled := True, est_timedOut := True, est_cancel := False,
            est_cancelled := est_cancelled e + (if est_cancel e then 1 else 0), est_signals := est_signals e + 1\<rparr>)"

text \<open>Whether the attempt had timed out, and whether the caller now holds the cancel function.\<close>

definition settleEstablishment :: "watchEstablishment \<Rightarrow> (bool \<times> bool) \<times> watchEstablishment" where
  "settleEstablishment e =
    (if est_settled e then ((est_timedOut e, est_cancel e), e\<lparr>est_cancel := False\<rparr>)
     else ((False, est_cancel e), e\<lparr>est_settled := True, est_cancel := False\<rparr>))"

text \<open>The timer may fire before the attempt settles, after it, or not at all.\<close>

definition establish :: "bool \<Rightarrow> (bool \<times> bool) \<times> watchEstablishment" where
  "establish fires = settleEstablishment (if fires then timerFires newWatchEstablishment else newWatchEstablishment)"

section \<open>The loop\<close>

datatype stream_end = StreamClosed | StreamDone

datatype watch_effect =
    Watching WatchPermit string
  | ReadForbiddenRecorded "Capability list"
  | Established
  | Routed
  | Delivered watch_event
  | ReadySignalled
  | Lapsed
  | Observed watch_reason
  | Waiting int

record runState =
  rs_version :: string
  rs_backoff :: int
  rs_recovery :: bool

text \<open>The environment during one round: the context at the top, the permit, whether the timer fired, the answer of the watcher
  (a stream or not, an error or not), the context and the supervisor after establishment, the events and the end of the stream,
  the context after it, the permit then and whether the wait completed.\<close>

record attempt =
  at_done :: bool
  at_permit :: "WatchPermit option"
  at_fires :: bool
  at_stream :: bool
  at_error :: "watch_error option"
  at_done_established :: bool
  at_current :: bool
  at_events :: "watch_event list"
  at_end :: stream_end
  at_done_after :: bool
  at_permit_after :: "WatchPermit option"
  at_waited :: bool

text \<open>The trace of one stream, the version at its end and the error it ends with.\<close>

fun consume :: "stream_end \<Rightarrow> string \<Rightarrow> watch_event list \<Rightarrow> watch_effect list \<times> string \<times> watch_error option" where
  "consume e version [] = ([], version, case e of StreamClosed \<Rightarrow> None | StreamDone \<Rightarrow> Some WatchCanceled)"
| "consume e version (ev # evs) =
    (let version' = (if we_version ev \<noteq> [] then we_version ev else version); delivered = Delivered ev in
     case we_type ev of
       EventError reason \<Rightarrow> ([delivered], version', Some (watchEventError reason))
     | EventBookmark \<Rightarrow> (case consume e version' evs of (tr, r) \<Rightarrow> (delivered # tr, r))
     | EventOther \<Rightarrow> (case consume e version' evs of (tr, r) \<Rightarrow> (delivered # tr, r))
     | _ \<Rightarrow> (case consume e version' evs of (tr, r) \<Rightarrow> (delivered # Routed # tr, r)))"

text \<open>What follows a stream or a failed attempt; the supervisor has marked its recovery as pending.\<close>

definition afterAttempt :: "int \<Rightarrow> runState \<Rightarrow> attempt \<Rightarrow> watch_error option \<Rightarrow> watch_effect list \<times> runState option" where
  "afterAttempt maximum st a err =
    (if at_done_after a then ([], None)
     else
       let routed = (if err \<noteq> None then [Routed] else []);
           st1 = (if isExpiredWatchError err then st\<lparr>rs_version := []\<rparr> else st) in
       if at_permit_after a = None then (routed, None)
       else
         let tr = routed @ [Observed (classifyWatchReason err), Waiting (rs_backoff st)] in
         if \<not> at_waited a then (tr, None)
         else (tr, Some (st1\<lparr>rs_backoff := nextBackoff (rs_backoff st) maximum\<rparr>)))"

definition runAttempt :: "int \<Rightarrow> runState \<Rightarrow> attempt \<Rightarrow> watch_effect list \<times> runState option" where
  "runAttempt maximum st a =
    (if at_done a then ([], None)
     else case at_permit a of
       None \<Rightarrow> ([ReadySignalled], None)
     | Some permit \<Rightarrow>
        let timedOut = fst (fst (establish (at_fires a)));
            st1 = (if timedOut then st\<lparr>rs_recovery := True\<rparr> else st);
            err = (if timedOut \<and> at_error a = None then Some WatchDeadline else at_error a);
            tr = Watching permit (rs_version st) # (if timedOut then [ReadySignalled] else []) @
              (if err = Some WatchForbidden then [ReadForbiddenRecorded (wp_capabilities permit)] else []) in
        if err = None \<and> at_stream a \<and> \<not> timedOut then
          (if at_done_established a \<or> \<not> at_current a then (tr @ [ReadySignalled], None)
           else
             let recovered = (if rs_recovery st1 then [Routed] else []) in
             (case consume (at_end a) (rs_version st1) (at_events a) of
                (events, version, err') \<Rightarrow>
                  (case afterAttempt maximum (st1\<lparr>rs_version := version, rs_recovery := True\<rparr>) a err' of
                     (tr', st') \<Rightarrow> (tr @ ReadySignalled # Established # recovered @ events @ Lapsed # tr', st'))))
        else
          let err' = (if err = None then Some WatchNoStream else err) in
          (case afterAttempt maximum (st1\<lparr>rs_recovery := True\<rparr>) a err' of (tr', st') \<Rightarrow> (tr @ ReadySignalled # Lapsed # tr', st')))"

text \<open>A run, and whether the loop has returned.\<close>

fun run :: "int \<Rightarrow> runState \<Rightarrow> attempt list \<Rightarrow> watch_effect list \<times> runState option" where
  "run maximum st [] = ([], Some st)"
| "run maximum st (a # as) =
    (case runAttempt maximum st a of
       (tr, None) \<Rightarrow> (tr, None)
     | (tr, Some st1) \<Rightarrow> (case run maximum st1 as of (tr', r) \<Rightarrow> (tr @ tr', r)))"

definition startState :: "int \<Rightarrow> bool \<Rightarrow> runState" where
  "startState base recovery = \<lparr>rs_version = [], rs_backoff = base, rs_recovery = recovery\<rparr>"


section \<open>Specification\<close>

text \<open>
  The abstract supervisor, an automaton over the same effects.  Its state says whether the watch has lapsed without being
  reported, whether the owners of the address must be enqueued next, and the version to resume from.  A change event and the
  establishment after a lapse both demand that the owners are enqueued before anything else happens; a watch resumes from the
  last version seen, or from the beginning after an expiry.
\<close>

definition is_change :: "watch_event \<Rightarrow> bool" where
  "is_change ev \<longleftrightarrow> we_type ev = EventAdded \<or> we_type ev = EventModified \<or> we_type ev = EventDeleted"

fun watch_spec :: "bool \<times> bool \<times> string \<Rightarrow> watch_effect \<Rightarrow> (bool \<times> bool \<times> string) option" where
  "watch_spec (lapsed, True, v) e = (if e = Routed then Some (lapsed, False, v) else None)"
| "watch_spec (lapsed, False, v) (Watching permit w) = (if w = v then Some (lapsed, False, v) else None)"
| "watch_spec (lapsed, False, v) Established = Some (False, lapsed, v)"
| "watch_spec (lapsed, False, v) (Delivered ev) = Some (lapsed, is_change ev, if we_version ev \<noteq> [] then we_version ev else v)"
| "watch_spec (lapsed, False, v) Lapsed = Some (True, False, v)"
| "watch_spec (lapsed, False, v) (Observed r) = Some (lapsed, False, if r = ObservedListExpired then [] else v)"
| "watch_spec (lapsed, False, v) e = Some (lapsed, False, v)"

fun conforms :: "bool \<times> bool \<times> string \<Rightarrow> watch_effect list \<Rightarrow> (bool \<times> bool \<times> string) option" where
  "conforms s [] = Some s"
| "conforms s (e # tr) = Option.bind (watch_spec s e) (\<lambda>s'. conforms s' tr)"

fun waits :: "watch_effect list \<Rightarrow> int list" where
  "waits [] = []"
| "waits (Waiting d # tr) = d # waits tr"
| "waits (e # tr) = waits tr"

section \<open>Lemmas\<close>

lemma conforms_append: "conforms s (tr @ tr') = Option.bind (conforms s tr) (\<lambda>s'. conforms s' tr')"
  by (induction tr arbitrary: s) (auto split: bind_splits)

lemma waits_append [simp]: "waits (tr @ tr') = waits tr @ waits tr'"
  by (induction tr rule: waits.induct) auto

lemma consume_conforms:
  "consume e v evs = (tr, v', err) \<Longrightarrow> conforms (lapsed, False, v) tr = Some (lapsed, False, v') \<and> waits tr = []"
proof (induction evs arbitrary: v tr)
  case (Cons ev evs)
  let ?v = "if we_version ev \<noteq> [] then we_version ev else v"
  obtain tr1 w err1 where c: "consume e ?v evs = (tr1, w, err1)" by (cases "consume e ?v evs") auto
  note IH = Cons.IH[of ?v]
  show ?case using Cons.prems c IH by (cases "we_type ev") (auto simp: Let_def is_change_def)
qed auto

text \<open>An attempt of the establishment: the timer decides, and the transport is cancelled or handed over, never both.\<close>

lemma establish_simp [simp]: "fst (fst (establish fires)) = fires"
  by (simp add: establish_def settleEstablishment_def timerFires_def newWatchEstablishment_def)

lemma establish_once:
  "est_cancelled (snd (establish fires)) + (if snd (fst (establish fires)) then 1 else 0) = 1 \<and>
   est_signals (snd (establish fires)) = (if fires then 1 else 0) \<and> timerFires (snd (establish fires)) = snd (establish fires)"
  by (simp add: establish_def settleEstablishment_def timerFires_def newWatchEstablishment_def)

lemma classify_expired: "classifyWatchReason err = ObservedListExpired \<longleftrightarrow> isExpiredWatchError err"
  by (auto simp: classifyWatchReason_def isExpiredWatchError_def split: option.splits)

lemma afterAttempt_conforms:
  assumes "afterAttempt maximum st a err = (tr, st')"
  shows "\<exists>v. conforms (rs_recovery st, False, rs_version st) tr = Some (rs_recovery st, False, v) \<and>
      (\<forall>st2. st' = Some st2 \<longrightarrow> rs_recovery st2 = rs_recovery st \<and> rs_version st2 = v \<and> rs_backoff st2 = nextBackoff (rs_backoff st) maximum)"
    and "set (waits tr) \<subseteq> {rs_backoff st}"
  using assms by (auto simp: afterAttempt_def Let_def classify_expired split: if_splits)


lemma runAttempt_conforms:
  assumes "runAttempt maximum st a = (tr, st')"
  shows "\<exists>s. conforms (rs_recovery st, False, rs_version st) tr = Some s \<and>
      (\<forall>st2. st' = Some st2 \<longrightarrow> s = (rs_recovery st2, False, rs_version st2) \<and> rs_backoff st2 = nextBackoff (rs_backoff st) maximum)"
    and "set (waits tr) \<subseteq> {rs_backoff st}"
proof -
  let ?P = "(\<exists>s. conforms (rs_recovery st, False, rs_version st) tr = Some s \<and>
      (\<forall>st2. st' = Some st2 \<longrightarrow> s = (rs_recovery st2, False, rs_version st2) \<and> rs_backoff st2 = nextBackoff (rs_backoff st) maximum)) \<and>
      set (waits tr) \<subseteq> {rs_backoff st}"
  have ?P
  proof (cases "at_done a \<or> at_permit a = None")
    case True
    then show ?thesis using assms by (auto simp: runAttempt_def split: if_splits)
  next
    case False
    then obtain permit where permit: "at_permit a = Some permit" and nd: "\<not> at_done a" by auto
    let ?fires = "at_fires a"
    let ?err = "if ?fires \<and> at_error a = None then Some WatchDeadline else at_error a"
    let ?tr = "Watching permit (rs_version st) # (if ?fires then [ReadySignalled] else []) @
      (if ?err = Some WatchForbidden then [ReadForbiddenRecorded (wp_capabilities permit)] else [])"
    have head: "conforms (rs_recovery st, False, rs_version st) ?tr = Some (rs_recovery st, False, rs_version st)" "waits ?tr = []" by auto
    show ?thesis
    proof (cases "?err = None \<and> at_stream a \<and> \<not> ?fires")
      case True
      show ?thesis
      proof (cases "at_done_established a \<or> \<not> at_current a")
        case stopped: True
        then have "tr = ?tr @ [ReadySignalled]" "st' = None" using assms nd permit True by (auto simp: runAttempt_def Let_def)
        then show ?thesis using True by (auto simp: conforms_append)
      next
        case go: False
        obtain events version err' where c: "consume (at_end a) (rs_version st) (at_events a) = (events, version, err')"
          by (cases "consume (at_end a) (rs_version st) (at_events a)") auto
        let ?st = "st\<lparr>rs_version := version, rs_recovery := True\<rparr>"
        obtain tr2 st2 where af: "afterAttempt maximum ?st a err' = (tr2, st2)" by (cases "afterAttempt maximum ?st a err'")
        have t: "tr = ?tr @ ReadySignalled # Established # (if rs_recovery st then [Routed] else []) @ events @ Lapsed # tr2" "st' = st2"
          using assms nd permit True go c af by (auto simp: runAttempt_def Let_def)
        note e = consume_conforms[OF c, of False] and f = afterAttempt_conforms[OF af]
        show ?thesis using e f head unfolding t by (cases "rs_recovery st") (auto simp: conforms_append)
      qed
    next
      case failed: False
      let ?st = "(if ?fires then st\<lparr>rs_recovery := True\<rparr> else st)\<lparr>rs_recovery := True\<rparr>"
      let ?e = "if ?err = None then Some WatchNoStream else ?err"
      obtain tr2 st2 where af: "afterAttempt maximum ?st a ?e = (tr2, st2)" by (cases "afterAttempt maximum ?st a ?e")
      have t: "tr = ?tr @ ReadySignalled # Lapsed # tr2" "st' = st2"
        using assms nd permit af unfolding runAttempt_def Let_def establish_simp permit option.case if_not_P[OF nd] if_not_P[OF failed] by simp_all
      note f = afterAttempt_conforms[OF af]
      have st: "rs_recovery ?st" "rs_version ?st = rs_version st" "rs_backoff ?st = rs_backoff st" by simp_all
      show ?thesis using f head unfolding t st by (auto simp: conforms_append)
    qed
  qed
  then show "\<exists>s. conforms (rs_recovery st, False, rs_version st) tr = Some s \<and>
      (\<forall>st2. st' = Some st2 \<longrightarrow> s = (rs_recovery st2, False, rs_version st2) \<and> rs_backoff st2 = nextBackoff (rs_backoff st) maximum)"
    "set (waits tr) \<subseteq> {rs_backoff st}" by simp_all
qed

lemma nextBackoff_range:
  assumes "0 < base" "base \<le> d" "d \<le> maximum" "maximum \<le> max_int64"
  shows "base \<le> nextBackoff d maximum" "nextBackoff d maximum \<le> maximum"
  using nextBackoff_bounds[of d maximum] assms by auto

lemma run_conforms:
  assumes "0 < base" "maximum \<le> max_int64"
  shows "base \<le> rs_backoff st \<Longrightarrow> rs_backoff st \<le> maximum \<Longrightarrow>
    conforms (rs_recovery st, False, rs_version st) (fst (run maximum st as)) \<noteq> None \<and>
    list_all (\<lambda>d. base \<le> d \<and> d \<le> maximum) (waits (fst (run maximum st as)))"
proof (induction as arbitrary: st)
  case (Cons a as)
  obtain tr st' where r: "runAttempt maximum st a = (tr, st')" by (cases "runAttempt maximum st a")
  note s = runAttempt_conforms[OF r]
  have w: "list_all (\<lambda>d. base \<le> d \<and> d \<le> maximum) (waits tr)" using s(2) Cons.prems by (auto simp: list_all_iff)
  show ?case
  proof (cases st')
    case None
    then show ?thesis using r s(1) w by auto
  next
    case (Some st1)
    obtain tr' res where t: "run maximum st1 as = (tr', res)" by (cases "run maximum st1 as")
    have b: "rs_backoff st1 = nextBackoff (rs_backoff st) maximum"
      "conforms (rs_recovery st, False, rs_version st) tr = Some (rs_recovery st1, False, rs_version st1)" using s(1) Some by auto
    have "conforms (rs_recovery st1, False, rs_version st1) tr' \<noteq> None \<and> list_all (\<lambda>d. base \<le> d \<and> d \<le> maximum) (waits tr')"
      using Cons.IH[of st1] nextBackoff_range[OF assms(1) Cons.prems assms(2)] b(1) t by simp
    then show ?thesis using r Some t w b(2) by (simp add: conforms_append)
  qed
qed simp

section \<open>Properties\<close>

text \<open>C35: whatever the API server, the registry and the clock do, a watch supervisor behaves like its specification: every
  change event enqueues the owners of the address before anything else happens, the first stream after any lapse of the watch
  (and after a deferred start) does so too, so no change between two streams goes unreported; every attempt resumes from the
  last version it has seen, or from the beginning once that version has expired; and every wait between attempts lies between
  the base and the maximum of the back-off.\<close>

theorem run_refines_spec:
  assumes "0 < base" and "base \<le> maximum" and "maximum \<le> max_int64"
  shows "conforms (recovery, False, []) (fst (run maximum (startState base recovery) attempts)) \<noteq> None \<and>
    list_all (\<lambda>d. base \<le> d \<and> d \<le> maximum) (waits (fst (run maximum (startState base recovery) attempts)))"
  using run_conforms[OF assms(1,3), of "startState base recovery" attempts] assms(2) by (simp add: startState_def)

definition rw_attempt :: "watch_event list \<Rightarrow> attempt" where
  "rw_attempt evs = \<lparr>at_done = False, at_permit = Some \<lparr>wp_address = rw_address, wp_capabilities = [rw_capability]\<rparr>, at_fires = False,
     at_stream = True, at_error = None, at_done_established = False, at_current = True, at_events = evs, at_end = StreamClosed,
     at_done_after = False, at_permit_after = Some \<lparr>wp_address = rw_address, wp_capabilities = [rw_capability]\<rparr>, at_waited = True\<rparr>"

theorem run_refines_spec_witness:
  "fst (run 500 (startState 100 False) [rw_attempt [\<lparr>we_type = EventAdded, we_version = ''7''\<rparr>], rw_attempt []]) =
     [Watching (the (at_permit (rw_attempt []))) [], ReadySignalled, Established, Delivered \<lparr>we_type = EventAdded, we_version = ''7''\<rparr>, Routed, Lapsed,
      Observed ObservedReadUnavailable, Waiting 100,
      Watching (the (at_permit (rw_attempt []))) ''7'', ReadySignalled, Established, Routed, Lapsed, Observed ObservedReadUnavailable, Waiting 200] \<and>
   conforms (False, False, []) (fst (run 500 (startState 100 False) [rw_attempt [\<lparr>we_type = EventAdded, we_version = ''7''\<rparr>], rw_attempt []])) \<noteq> None"
proof -
  have "fst (run 500 (startState 100 False) [rw_attempt [\<lparr>we_type = EventAdded, we_version = ''7''\<rparr>], rw_attempt []]) =
     [Watching (the (at_permit (rw_attempt []))) [], ReadySignalled, Established, Delivered \<lparr>we_type = EventAdded, we_version = ''7''\<rparr>, Routed, Lapsed,
      Observed ObservedReadUnavailable, Waiting 100,
      Watching (the (at_permit (rw_attempt []))) ''7'', ReadySignalled, Established, Routed, Lapsed, Observed ObservedReadUnavailable, Waiting 200]"
    by code_simp
  moreover have "(0::int) < 100" "(100::int) \<le> 500" "(500::int) \<le> max_int64" by (simp_all add: max_int64_def)
  ultimately show ?thesis using run_refines_spec by blast
qed

end
