(* ===== verification/Status.thy ===== *)
theory Status
  imports ApiTypes
begin

text \<open>
  Status composition of \<^verbatim>\<open>src/internal/status\<close>: the values derived from a result (\<^verbatim>\<open>result.go\<close>) and the canonical conditions and
  their merge into the persisted ones (\<^verbatim>\<open>conditions.go\<close>).  A nil and an empty collection are one value here, so
  \<^verbatim>\<open>NormalizeResult\<close> has no counterpart.  The hash of a result is the parameter \<open>hash\<close> (\<open>None\<close>: the encoding
  fails), \<^verbatim>\<open>meta.SetStatusCondition\<close> the parameter \<open>put\<close>, whose documented behaviour is \<open>sets_condition\<close>.
\<close>

section \<open>Types\<close>

record Condition =
  cd_type :: string
  cd_status :: string
  cd_observedGeneration :: int
  cd_lastTransitionTime :: int
  cd_reason :: string
  cd_message :: string

record FacetStatus =
  st_observedGeneration :: int
  st_conditions :: "Condition list"
  st_summary :: "FacetSummary option"
  st_resultHash :: string
  st_result :: "FacetResult option"

definition empty_status :: "int \<Rightarrow> FacetStatus" where
  "empty_status generation = \<lparr>st_observedGeneration = generation, st_conditions = [], st_summary = None, st_resultHash = [], st_result = None\<rparr>"

record SourceAssessment =
  sa_index :: int
  sa_configuration :: string
  sa_authorization :: string
  sa_resolution :: string

record Evaluation =
  ev_result :: "FacetResult option"
  ev_sources :: "SourceAssessment list"
  ev_globalAuthorization :: "string option"
  ev_resultUnavailable :: bool
  ev_resultLimitExceeded :: bool
  ev_configurationBudgetExceeded :: bool

section \<open>Derived values\<close>

record DerivedResult =
  dr_result :: "FacetResult option"
  dr_summary :: "FacetSummary option"
  dr_resultHash :: string
  dr_degraded :: bool

definition HasResultErrors :: "FacetResult \<Rightarrow> bool" where
  "HasResultErrors result = list_ex (\<lambda>source.
     fsr_state source = ''error'' \<or> fsr_error source \<noteq> None \<or> fsr_fieldErrors source \<noteq> [] \<or>
     list_ex (\<lambda>resource. frr_error resource \<noteq> None \<or>
       list_ex (\<lambda>field. ffr_state field = ''error'' \<or> ffr_error field \<noteq> None) (frr_fields resource)) (fsr_resources source) \<or>
     list_ex (\<lambda>aggregate. far_state aggregate = ''degraded'' \<or> far_state aggregate = ''error'' \<or> far_error aggregate \<noteq> None \<or>
       far_failures aggregate \<noteq> []) (fsr_aggregates source)) result"

text \<open>The guard of \<^verbatim>\<open>addCount\<close> compares without overflow because the counter is never negative.\<close>

definition addCount :: "int \<Rightarrow> int \<Rightarrow> (string, int) res" where
  "addCount counter n =
    (if n < 0 \<or> n mod 2 ^ 64 > (max_int64 - counter) mod 2 ^ 64 then Inl ''count overflows int64'' else Inr (wrap64 (counter + n)))"

definition increment :: "int \<Rightarrow> (string, int) res" where
  "increment counter = addCount counter 1"

definition countSource :: "FacetSummary \<Rightarrow> FacetSourceResult \<Rightarrow> (string, FacetSummary) res" where
  "countSource s source =
    res_bind
      (if fsr_state source = ''values'' then
         res_bind (increment (sum_successfulSources s)) (\<lambda>n. Inr (s\<lparr>sum_successfulSources := n\<rparr>))
       else if fsr_state source = ''error'' then
         res_bind (increment (sum_failedSources s)) (\<lambda>n. Inr (s\<lparr>sum_failedSources := n\<rparr>))
       else Inr s)
      (\<lambda>s1. res_bind (addCount (sum_matchedResources s1) (int (length (fsr_resources source))))
        (\<lambda>n. Inr (s1\<lparr>sum_matchedResources := n\<rparr>)))"

fun countSources :: "FacetSummary \<Rightarrow> FacetResult \<Rightarrow> (string, FacetSummary) res" where
  "countSources s [] = Inr s"
| "countSources s (source # rest) = res_bind (countSource s source) (\<lambda>s1. countSources s1 rest)"

definition summaryForResult :: "FacetResult \<Rightarrow> (string, FacetSummary) res" where
  "summaryForResult result = countSources \<lparr>sum_successfulSources = 0, sum_failedSources = 0, sum_matchedResources = 0\<rparr> result"

definition DeriveResult :: "(FacetResult \<Rightarrow> string option) \<Rightarrow> FacetResult option \<Rightarrow> (string, DerivedResult) res" where
  "DeriveResult hash result =
    (case result of
       None \<Rightarrow> Inr \<lparr>dr_result = None, dr_summary = None, dr_resultHash = [], dr_degraded = False\<rparr>
     | Some r \<Rightarrow>
        res_bind (summaryForResult r) (\<lambda>summary.
          case hash r of
            None \<Rightarrow> Inl ''marshal normalized result''
          | Some h \<Rightarrow> Inr \<lparr>dr_result = Some r, dr_summary = Some summary, dr_resultHash = h, dr_degraded = HasResultErrors r\<rparr>))"

section \<open>Conditions\<close>

definition condition :: "string \<Rightarrow> string \<Rightarrow> string \<Rightarrow> string \<Rightarrow> int \<Rightarrow> Condition" where
  "condition conditionType conditionStatus reason message generation =
     \<lparr>cd_type = conditionType, cd_status = conditionStatus, cd_observedGeneration = generation, cd_lastTransitionTime = 0,
      cd_reason = reason, cd_message = message\<rparr>"

definition validConfigurationOutcome :: "string \<Rightarrow> bool" where
  "validConfigurationOutcome o' \<longleftrightarrow> o' = ''accepted'' \<or> o' = ''invalid''"

definition validAuthorizationOutcome :: "string \<Rightarrow> bool" where
  "validAuthorizationOutcome o' \<longleftrightarrow>
     o' \<in> set [''allowed'', ''denied'', ''policy-missing'', ''policy-invalid'', ''read-forbidden'', ''unavailable'', ''not-evaluated'']"

definition validResolutionOutcome :: "string \<Rightarrow> bool" where
  "validResolutionOutcome o' \<longleftrightarrow> o' \<in> set [''resolved'', ''failed'', ''unavailable'', ''not-evaluated'']"

fun validateSources :: "int \<Rightarrow> SourceAssessment list \<Rightarrow> string option" where
  "validateSources i [] = None"
| "validateSources i (a # as) =
    (if sa_index a \<noteq> i then Some ''status source assessment index is not declaration index''
     else if \<not> validConfigurationOutcome (sa_configuration a) then Some ''invalid configuration outcome''
     else if \<not> validAuthorizationOutcome (sa_authorization a) then Some ''invalid authorization outcome''
     else if \<not> validResolutionOutcome (sa_resolution a) then Some ''invalid resolution outcome''
     else validateSources (i + 1) as)"

definition validateShape :: "Evaluation \<Rightarrow> string option" where
  "validateShape ev =
    (if ev_configurationBudgetExceeded ev then
       if ev_result ev \<noteq> None \<or> ev_resultUnavailable ev \<or> ev_resultLimitExceeded ev then
         Some ''configuration budget evaluation cannot contain a result or alternate terminal state''
       else if ev_sources ev \<noteq> [] \<or> ev_globalAuthorization ev \<noteq> None then
         Some ''configuration budget evaluation cannot contain source or authorization assessments''
       else None
     else if ev_resultLimitExceeded ev then
       if ev_result ev \<noteq> None \<or> ev_resultUnavailable ev then Some ''status limit evaluation cannot contain a result or unavailable state'' else None
     else if ev_result ev \<noteq> None \<and> ev_resultUnavailable ev then Some ''status evaluation cannot contain both a result and unavailable state''
     else if ev_result ev = None \<and> \<not> ev_resultUnavailable ev then Some ''status evaluation without a result must be unavailable''
     else None)"

definition validateEvaluation :: "Evaluation \<Rightarrow> string option" where
  "validateEvaluation ev =
    (case validateShape ev of
       Some e \<Rightarrow> Some e
     | None \<Rightarrow>
        (case validateSources 0 (ev_sources ev) of
           Some e \<Rightarrow> Some e
         | None \<Rightarrow>
            (case ev_globalAuthorization ev of
               None \<Rightarrow> None
             | Some g \<Rightarrow> if validAuthorizationOutcome g then None else Some ''invalid global authorization outcome'')))"

definition generationText :: "int \<Rightarrow> string" where
  "generationText generation = ''generation '' @ show_int generation"

definition authorizationMessage :: "string \<Rightarrow> string" where
  "authorizationMessage reason =
    (if reason = ''AuthorizationSucceeded'' then ''succeeded''
     else if reason = ''AuthorizationDenied'' then ''denied''
     else if reason = ''PolicyMissing'' then ''blocked because policy is missing''
     else if reason = ''PolicyInvalid'' then ''blocked because policy is invalid''
     else if reason = ''ReadForbidden'' then ''forbidden by Kubernetes access''
     else if reason = ''AuthorizationUnavailable'' then ''unavailable''
     else ''not evaluated'')"

definition authorizationStatus :: "string \<Rightarrow> string \<times> string" where
  "authorizationStatus o' =
    (if o' = ''allowed'' then (''True'', ''AuthorizationSucceeded'')
     else if o' = ''denied'' then (''False'', ''AuthorizationDenied'')
     else if o' = ''policy-missing'' then (''False'', ''PolicyMissing'')
     else if o' = ''policy-invalid'' then (''False'', ''PolicyInvalid'')
     else if o' = ''read-forbidden'' then (''False'', ''ReadForbidden'')
     else if o' = ''unavailable'' then (''Unknown'', ''AuthorizationUnavailable'')
     else (''Unknown'', ''AuthorizationNotEvaluated''))"

definition authorizationConditionForOutcome :: "int \<Rightarrow> string \<Rightarrow> int \<Rightarrow> bool \<Rightarrow> Condition" where
  "authorizationConditionForOutcome generation o' ordinal sourceScoped =
    (case authorizationStatus o' of
       (status, reason) \<Rightarrow> condition ''Authorized'' status reason
         (generationText generation @ '' authorization '' @ authorizationMessage reason @
           (if sourceScoped then '' at source '' @ show_int ordinal else [])) generation)"

definition acceptedCondition :: "int \<Rightarrow> SourceAssessment list \<Rightarrow> Condition" where
  "acceptedCondition generation sources =
    (case find (\<lambda>s. sa_configuration s = ''invalid'') sources of
       Some s \<Rightarrow> condition ''Accepted'' ''False'' ''InvalidConfiguration''
         (generationText generation @ '' contains invalid configuration at source '' @ show_int (sa_index s + 1)) generation
     | None \<Rightarrow> condition ''Accepted'' ''True'' ''ConfigurationAccepted'' (generationText generation @ '' configuration accepted'') generation)"

definition authorizedCondition :: "int \<Rightarrow> Evaluation \<Rightarrow> Condition" where
  "authorizedCondition generation ev =
    (case ev_globalAuthorization ev of
       Some g \<Rightarrow> authorizationConditionForOutcome generation g 0 False
     | None \<Rightarrow>
        (case find (\<lambda>s. sa_authorization s \<noteq> ''allowed'') (ev_sources ev) of
           Some s \<Rightarrow> authorizationConditionForOutcome generation (sa_authorization s) (sa_index s + 1) True
         | None \<Rightarrow> condition ''Authorized'' ''True'' ''AuthorizationSucceeded'' (generationText generation @ '' authorization succeeded'') generation))"

definition resolutionStatus :: "string \<Rightarrow> string \<times> string \<times> string" where
  "resolutionStatus o' =
    (if o' = ''failed'' then (''False'', ''ResolutionFailed'', ''resolution failed'')
     else if o' = ''unavailable'' then (''Unknown'', ''ResolutionUnavailable'', ''resolution is unavailable'')
     else (''Unknown'', ''ResolutionNotEvaluated'', ''resolution was not evaluated''))"

definition resolutionCondition :: "int \<Rightarrow> SourceAssessment list \<Rightarrow> Condition" where
  "resolutionCondition generation sources =
    (case find (\<lambda>s. sa_resolution s \<noteq> ''resolved'') sources of
       Some s \<Rightarrow> (case resolutionStatus (sa_resolution s) of
         (status, reason, message) \<Rightarrow> condition ''SourcesResolved'' status reason
           (generationText generation @ '' source '' @ show_int (sa_index s + 1) @ '' '' @ message) generation)
     | None \<Rightarrow> condition ''SourcesResolved'' ''True'' ''ResolutionSucceeded'' (generationText generation @ '' source resolution succeeded'') generation)"

definition resultCountsMessage :: "FacetSummary option \<Rightarrow> string" where
  "resultCountsMessage summary =
    (case summary of
       None \<Rightarrow> ''result unavailable''
     | Some s \<Rightarrow> show_int (sum_successfulSources s) @ '' successful sources, '' @ show_int (sum_failedSources s) @ '' failed sources, '' @
         show_int (sum_matchedResources s) @ '' matched resources'')"

definition evaluationCondition :: "int \<Rightarrow> Evaluation \<Rightarrow> DerivedResult \<Rightarrow> Condition" where
  "evaluationCondition generation ev derived =
    (if ev_resultUnavailable ev then
       condition ''Ready'' ''False'' ''EvaluationUnavailable'' (generationText generation @ '' evaluation is unavailable'') generation
     else if dr_degraded derived then
       condition ''Ready'' ''False'' ''EvaluationDegraded''
         (generationText generation @ '' evaluation is degraded: '' @ resultCountsMessage (dr_summary derived)) generation
     else condition ''Ready'' ''True'' ''EvaluationSucceeded''
         (generationText generation @ '' evaluation succeeded: '' @ resultCountsMessage (dr_summary derived)) generation)"

definition degradedCondition :: "int \<Rightarrow> Evaluation \<Rightarrow> DerivedResult \<Rightarrow> Condition" where
  "degradedCondition generation ev derived =
    (if ev_resultUnavailable ev then
       condition ''Degraded'' ''True'' ''EvaluationUnavailable'' (generationText generation @ '' evaluation is unavailable'') generation
     else if dr_degraded derived then
       condition ''Degraded'' ''True'' ''EvaluationDegraded''
         (generationText generation @ '' evaluation is degraded: '' @ resultCountsMessage (dr_summary derived)) generation
     else condition ''Degraded'' ''False'' ''EvaluationSucceeded''
         (generationText generation @ '' evaluation is not degraded: '' @ resultCountsMessage (dr_summary derived)) generation)"

definition desiredConditions :: "int \<Rightarrow> Evaluation \<Rightarrow> DerivedResult \<Rightarrow> Condition list" where
  "desiredConditions generation ev derived =
     [acceptedCondition generation (ev_sources ev), authorizedCondition generation ev, resolutionCondition generation (ev_sources ev),
      evaluationCondition generation ev derived, degradedCondition generation ev derived]"

section \<open>Compact statuses\<close>

definition compactAcceptedCondition :: "int \<Rightarrow> SourceAssessment list \<Rightarrow> Condition" where
  "compactAcceptedCondition generation sources =
    (if list_ex (\<lambda>s. sa_configuration s = ''invalid'') sources then
       condition ''Accepted'' ''False'' ''InvalidConfiguration'' (generationText generation @ '' configuration is invalid'') generation
     else condition ''Accepted'' ''True'' ''ConfigurationAccepted'' (generationText generation @ '' configuration accepted'') generation)"

definition compactAuthorizationCondition :: "int \<Rightarrow> Evaluation \<Rightarrow> Condition" where
  "compactAuthorizationCondition generation ev =
    (case ev_globalAuthorization ev of
       Some g \<Rightarrow> authorizationConditionForOutcome generation g 0 False
     | None \<Rightarrow>
        (case find (\<lambda>s. sa_authorization s \<noteq> ''allowed'') (ev_sources ev) of
           Some s \<Rightarrow> authorizationConditionForOutcome generation (sa_authorization s) 0 False
         | None \<Rightarrow> authorizationConditionForOutcome generation ''allowed'' 0 False))"

definition compactResolutionCondition :: "int \<Rightarrow> SourceAssessment list \<Rightarrow> Condition" where
  "compactResolutionCondition generation sources =
    (case find (\<lambda>s. sa_resolution s \<noteq> ''resolved'') sources of
       Some s \<Rightarrow> (case resolutionStatus (sa_resolution s) of
         (status, reason, message) \<Rightarrow> condition ''SourcesResolved'' status reason (generationText generation @ '' '' @ message) generation)
     | None \<Rightarrow> condition ''SourcesResolved'' ''True'' ''ResolutionSucceeded'' (generationText generation @ '' source resolution succeeded'') generation)"

definition compactLimitConditions :: "int \<Rightarrow> Evaluation \<Rightarrow> Condition list" where
  "compactLimitConditions generation ev =
     [compactAcceptedCondition generation (ev_sources ev), compactAuthorizationCondition generation ev,
      compactResolutionCondition generation (ev_sources ev),
      condition ''Ready'' ''False'' ''ResultLimitExceeded'' (generationText generation @ '' result exceeds the configured status limit'') generation,
      condition ''Degraded'' ''True'' ''ResultLimitExceeded'' (generationText generation @ '' result exceeds the configured status limit'') generation]"

definition configurationBudgetConditions :: "int \<Rightarrow> Condition list" where
  "configurationBudgetConditions generation =
     [condition ''Accepted'' ''False'' ''ConfigurationBudgetExceeded'' ''configuration exceeds the effective budget'' generation,
      condition ''Authorized'' ''Unknown'' ''AuthorizationNotEvaluated'' ''authorization was not evaluated'' generation,
      condition ''SourcesResolved'' ''Unknown'' ''ResolutionNotEvaluated'' ''resolution was not evaluated'' generation,
      condition ''Ready'' ''False'' ''ConfigurationBudgetExceeded'' ''configuration exceeds the effective budget'' generation,
      condition ''Degraded'' ''True'' ''EvaluationUnavailable'' ''evaluation is unavailable'' generation]"

section \<open>Merging\<close>

definition canonicalConditionOrder :: "string list" where
  "canonicalConditionOrder = [''Accepted'', ''Authorized'', ''SourcesResolved'', ''Ready'', ''Degraded'']"

definition isCanonicalCondition :: "string \<Rightarrow> bool" where
  "isCanonicalCondition t \<longleftrightarrow> t \<in> set canonicalConditionOrder"

definition NormalizeConditions :: "Condition list \<Rightarrow> Condition list" where
  "NormalizeConditions conditions =
     concat (map (\<lambda>t. filter (\<lambda>c. cd_type c = t) conditions) canonicalConditionOrder) @
     filter (\<lambda>c. \<not> isCanonicalCondition (cd_type c)) conditions"

fun firstCanonical :: "string list \<Rightarrow> Condition list \<Rightarrow> Condition list" where
  "firstCanonical seen [] = []"
| "firstCanonical seen (c # cs) =
    (if isCanonicalCondition (cd_type c) then
       if cd_type c \<in> set seen then firstCanonical seen cs else c # firstCanonical (cd_type c # seen) cs
     else c # firstCanonical seen cs)"

text \<open>The last condition of a type, as the map \<^verbatim>\<open>byType\<close> keeps it.\<close>

definition byType :: "Condition list \<Rightarrow> string \<Rightarrow> Condition option" where
  "byType working t = find (\<lambda>c. cd_type c = t) (rev working)"

definition mergeConditions :: "(Condition \<Rightarrow> Condition list \<Rightarrow> Condition list) \<Rightarrow> Condition list \<Rightarrow> Condition list \<Rightarrow> Condition list" where
  "mergeConditions put persisted desired =
    (let working = fold put desired (firstCanonical [] persisted) in
     List.map_filter (byType working) canonicalConditionOrder @ filter (\<lambda>c. \<not> isCanonicalCondition (cd_type c)) working)"

section \<open>Composition\<close>

definition Compose ::
  "(FacetResult \<Rightarrow> string option) \<Rightarrow> (Condition \<Rightarrow> Condition list \<Rightarrow> Condition list) \<Rightarrow> int \<Rightarrow> Condition list \<Rightarrow> Evaluation \<Rightarrow>
   (string, FacetStatus) res" where
  "Compose hash put generation persisted ev =
    (if generation < 0 then Inl ''status generation must be non-negative''
     else
       case validateEvaluation ev of
         Some e \<Rightarrow> Inl e
       | None \<Rightarrow>
          if ev_configurationBudgetExceeded ev then
            Inr ((empty_status generation)\<lparr>st_conditions := mergeConditions put persisted (configurationBudgetConditions generation)\<rparr>)
          else if ev_resultLimitExceeded ev then
            Inr ((empty_status generation)\<lparr>st_conditions := mergeConditions put persisted (compactLimitConditions generation ev)\<rparr>)
          else
            res_bind (DeriveResult hash (ev_result ev)) (\<lambda>derived.
              Inr \<lparr>st_observedGeneration = generation,
                   st_conditions = mergeConditions put persisted (desiredConditions generation ev derived),
                   st_summary = dr_summary derived, st_resultHash = dr_resultHash derived, st_result = dr_result derived\<rparr>))"

definition ComposeResultLimitExceeded ::
  "(FacetResult \<Rightarrow> string option) \<Rightarrow> (Condition \<Rightarrow> Condition list \<Rightarrow> Condition list) \<Rightarrow> int \<Rightarrow> Condition list \<Rightarrow> Evaluation \<Rightarrow>
   (string, FacetStatus) res" where
  "ComposeResultLimitExceeded hash put generation persisted ev =
     Compose hash put generation persisted (ev\<lparr>ev_result := None, ev_resultUnavailable := False, ev_resultLimitExceeded := True\<rparr>)"

definition empty_evaluation :: Evaluation where
  "empty_evaluation = \<lparr>ev_result = None, ev_sources = [], ev_globalAuthorization = None, ev_resultUnavailable = False, ev_resultLimitExceeded = False,
     ev_configurationBudgetExceeded = False\<rparr>"

definition ComposeConfigurationBudgetExceeded ::
  "(FacetResult \<Rightarrow> string option) \<Rightarrow> (Condition \<Rightarrow> Condition list \<Rightarrow> Condition list) \<Rightarrow> int \<Rightarrow> Condition list \<Rightarrow> (string, FacetStatus) res" where
  "ComposeConfigurationBudgetExceeded hash put generation persisted =
     Compose hash put generation persisted (empty_evaluation\<lparr>ev_configurationBudgetExceeded := True\<rparr>)"

text \<open>\<open>encodedSize\<close> is the length of the JSON encoding.\<close>

definition CompactStatusSize ::
  "(FacetResult \<Rightarrow> string option) \<Rightarrow> (Condition \<Rightarrow> Condition list \<Rightarrow> Condition list) \<Rightarrow> (FacetStatus \<Rightarrow> int option) \<Rightarrow> (string, int) res" where
  "CompactStatusSize hash put encodedSize =
    res_bind (ComposeResultLimitExceeded hash put max_int64 []
        (empty_evaluation\<lparr>ev_sources := [\<lparr>sa_index = 0, sa_configuration = ''invalid'', sa_authorization = ''policy-invalid'',
           sa_resolution = ''failed''\<rparr>], ev_globalAuthorization := Some ''policy-invalid''\<rparr>))
      (\<lambda>status. case encodedSize status of None \<Rightarrow> Inl ''marshal compact status'' | Some n \<Rightarrow> Inr n)"

definition ValidateCompactStatusLimit ::
  "(FacetResult \<Rightarrow> string option) \<Rightarrow> (Condition \<Rightarrow> Condition list \<Rightarrow> Condition list) \<Rightarrow> (FacetStatus \<Rightarrow> int option) \<Rightarrow> int \<Rightarrow> string option" where
  "ValidateCompactStatusLimit hash put encodedSize maxBytes =
    (if maxBytes \<le> 0 then Some ''status limit must be positive''
     else (case CompactStatusSize hash put encodedSize of
             Inl e \<Rightarrow> Some e
           | Inr n \<Rightarrow> if n > maxBytes then Some ''compact status requires more bytes'' else None))"

section \<open>Lemmas\<close>

definition sets_condition :: "(Condition \<Rightarrow> Condition list \<Rightarrow> Condition list) \<Rightarrow> bool" where
  "sets_condition put \<longleftrightarrow> (\<forall>c cs.
     (cd_type c \<notin> cd_type ` set cs \<longrightarrow> (\<exists>t. put c cs = cs @ [c\<lparr>cd_lastTransitionTime := t\<rparr>])) \<and>
     (\<forall>pre old post. cs = pre @ old # post \<and> cd_type c \<notin> cd_type ` set pre \<and> cd_type old = cd_type c \<longrightarrow>
        (\<exists>t. put c cs = pre @ c\<lparr>cd_lastTransitionTime := t\<rparr> # post \<and> (cd_status old = cd_status c \<longrightarrow> t = cd_lastTransitionTime old))))"

abbreviation of_type :: "string \<Rightarrow> Condition list \<Rightarrow> Condition list" where
  "of_type t \<equiv> filter (\<lambda>c. cd_type c = t)"

abbreviation others :: "Condition list \<Rightarrow> Condition list" where
  "others \<equiv> filter (\<lambda>c. \<not> isCanonicalCondition (cd_type c))"

text \<open>Condition \<open>c\<close> is \<open>d\<close> with the transition time that belongs to it after the persisted conditions \<open>old\<close> of its type.\<close>

definition stamped :: "Condition \<Rightarrow> Condition list \<Rightarrow> Condition \<Rightarrow> bool" where
  "stamped d old c \<longleftrightarrow> c = d\<lparr>cd_lastTransitionTime := cd_lastTransitionTime c\<rparr> \<and>
     (case old of o' # _ \<Rightarrow> cd_status o' = cd_status d \<longrightarrow> cd_lastTransitionTime c = cd_lastTransitionTime o' | [] \<Rightarrow> True)"

lemma put_condition:
  assumes "sets_condition put" "isCanonicalCondition (cd_type c)" "length (of_type (cd_type c) cs) \<le> 1"
  shows "others (put c cs) = others cs \<and> (\<forall>t. t \<noteq> cd_type c \<longrightarrow> of_type t (put c cs) = of_type t cs) \<and>
    (\<exists>c'. of_type (cd_type c) (put c cs) = [c'] \<and> stamped c (of_type (cd_type c) cs) c')"
proof (cases "cd_type c \<in> cd_type ` set cs")
  case False
  then obtain t where "put c cs = cs @ [c\<lparr>cd_lastTransitionTime := t\<rparr>]" using assms(1) unfolding sets_condition_def by blast
  moreover have "of_type (cd_type c) cs = []" using False by (auto simp: filter_empty_conv image_iff)
  ultimately show ?thesis using assms(2) by (auto simp: stamped_def)
next
  case True
  then have "\<exists>x \<in> set cs. cd_type x = cd_type c" by auto
  then obtain pre old post where cs: "cs = pre @ old # post" "cd_type old = cd_type c" "\<forall>x \<in> set pre. cd_type x \<noteq> cd_type c"
    using split_list_first_prop[of cs "\<lambda>x. cd_type x = cd_type c"] by blast
  then have "cd_type c \<notin> cd_type ` set pre" by auto
  then obtain t where t: "put c cs = pre @ c\<lparr>cd_lastTransitionTime := t\<rparr> # post" "cd_status old = cd_status c \<longrightarrow> t = cd_lastTransitionTime old"
    using assms(1) cs unfolding sets_condition_def by blast
  have pre: "of_type (cd_type c) pre = []" using cs(3) by (auto simp: filter_empty_conv)
  then have "of_type (cd_type c) post = []" using assms(3) cs(1,2) by simp
  then show ?thesis using t cs(1,2) pre assms(2) by (auto simp: stamped_def)
qed

lemma put_conditions:
  assumes "sets_condition put" "list_all (\<lambda>d. isCanonicalCondition (cd_type d)) ds" "distinct (map cd_type ds)"
    and "list_all (\<lambda>d. length (of_type (cd_type d) cs) \<le> 1) ds"
  shows "others (fold put ds cs) = others cs \<and> (\<forall>t. t \<notin> cd_type ` set ds \<longrightarrow> of_type t (fold put ds cs) = of_type t cs) \<and>
    (\<forall>d \<in> set ds. \<exists>c. of_type (cd_type d) (fold put ds cs) = [c] \<and> stamped d (of_type (cd_type d) cs) c)"
  using assms(2-)
proof (induction ds arbitrary: cs)
  case (Cons d ds)
  have one: "others (put d cs) = others cs" "\<And>t. t \<noteq> cd_type d \<Longrightarrow> of_type t (put d cs) = of_type t cs"
    "\<exists>c'. of_type (cd_type d) (put d cs) = [c'] \<and> stamped d (of_type (cd_type d) cs) c'"
    using put_condition[OF assms(1), of d cs] Cons.prems by auto
  have ne: "cd_type x \<noteq> cd_type d" if "x \<in> set ds" for x using Cons.prems(2) imageI[OF that, of cd_type] by auto
  have "list_all (\<lambda>x. length (of_type (cd_type x) (put d cs)) \<le> 1) ds"
    using Cons.prems(3) one(2)[OF ne] by (simp add: list_all_iff)
  then have ih: "others (fold put ds (put d cs)) = others (put d cs)"
    "\<And>t. t \<notin> cd_type ` set ds \<Longrightarrow> of_type t (fold put ds (put d cs)) = of_type t (put d cs)"
    "\<And>x. x \<in> set ds \<Longrightarrow> \<exists>c. of_type (cd_type x) (fold put ds (put d cs)) = [c] \<and> stamped x (of_type (cd_type x) (put d cs)) c"
    using Cons.IH[of "put d cs"] Cons.prems by auto
  have "\<exists>c. of_type (cd_type x) (fold put ds (put d cs)) = [c] \<and> stamped x (of_type (cd_type x) cs) c" if "x \<in> set (d # ds)" for x
  proof (cases "x \<in> set ds")
    case True
    then show ?thesis using ih(3)[OF True] one(2)[OF ne[OF True]] by simp
  next
    case False
    then have "x = d" using that by simp
    moreover have "cd_type d \<notin> cd_type ` set ds" using Cons.prems(2) by simp
    ultimately show ?thesis using ih(2)[of "cd_type d"] one(3) by simp
  qed
  then show ?case using ih(1,2) one(1,2) by simp
qed simp

lemma firstCanonical_others: "others (firstCanonical seen cs) = others cs"
  by (induction seen cs rule: firstCanonical.induct) auto

lemma firstCanonical_type:
  "isCanonicalCondition t \<Longrightarrow> of_type t (firstCanonical seen cs) = (if t \<in> set seen then [] else case of_type t cs of [] \<Rightarrow> [] | c # _ \<Rightarrow> [c])"
  by (induction seen cs rule: firstCanonical.induct) auto

lemma find_filter: "find P xs = (case filter P xs of [] \<Rightarrow> None | x # _ \<Rightarrow> Some x)"
  by (induction xs) auto

lemma byType_only: "of_type t cs = [c] \<Longrightarrow> byType cs t = Some c"
  unfolding byType_def find_filter by (simp flip: rev_filter)

lemma map_filter_found: "(\<And>d. d \<in> set ds \<Longrightarrow> f (g d) \<noteq> None) \<Longrightarrow> List.map_filter f (map g ds) = map (\<lambda>d. the (f (g d))) ds"
proof (induction ds)
  case (Cons d ds)
  obtain y where "f (g d) = Some y" using Cons.prems[of d] by auto
  then show ?case using Cons by (simp add: List.map_filter_simps)
qed (simp add: List.map_filter_simps)

lemma merge_conditions:
  assumes "sets_condition put" "map cd_type ds = canonicalConditionOrder"
  shows "\<exists>cs. mergeConditions put persisted ds = cs @ others persisted \<and>
    list_all2 (\<lambda>d c. stamped d (of_type (cd_type d) persisted) c) ds cs"
proof -
  let ?start = "firstCanonical [] persisted"
  let ?w = "fold put ds ?start"
  have canon: "list_all (\<lambda>d. isCanonicalCondition (cd_type d)) ds"
    using assms(2) unfolding list_all_iff isCanonicalCondition_def by (metis image_eqI list.set_map)
  have dist: "distinct (map cd_type ds)" unfolding assms(2) canonicalConditionOrder_def by simp
  have type0: "of_type (cd_type d) ?start = (case of_type (cd_type d) persisted of [] \<Rightarrow> [] | c # _ \<Rightarrow> [c])" if "d \<in> set ds" for d
    using firstCanonical_type[of "cd_type d" "[]" persisted] canon that by (simp add: list_all_iff)
  then have "list_all (\<lambda>d. length (of_type (cd_type d) ?start) \<le> 1) ds" by (auto simp: list_all_iff split: list.splits)
  from put_conditions[OF assms(1) canon dist this] have w: "others ?w = others persisted"
    "\<And>d. d \<in> set ds \<Longrightarrow> \<exists>c. of_type (cd_type d) ?w = [c] \<and> stamped d (of_type (cd_type d) ?start) c"
    by (auto simp: firstCanonical_others)
  have by_type: "\<exists>c. byType ?w (cd_type d) = Some c \<and> stamped d (of_type (cd_type d) persisted) c" if d: "d \<in> set ds" for d
  proof -
    obtain c where "of_type (cd_type d) ?w = [c]" "stamped d (of_type (cd_type d) ?start) c" using w(2)[OF d] by blast
    then show ?thesis using byType_only type0[OF d] by (auto simp: stamped_def split: list.splits)
  qed
  then have "stamped d (of_type (cd_type d) persisted) (the (byType ?w (cd_type d)))" if "d \<in> set ds" for d using that by force
  then have "list_all2 (\<lambda>d c. stamped d (of_type (cd_type d) persisted) c) ds (map (\<lambda>d. the (byType ?w (cd_type d))) ds)"
    by (simp add: list_all2_conv_all_nth)
  moreover have "List.map_filter (byType ?w) canonicalConditionOrder = map (\<lambda>d. the (byType ?w (cd_type d))) ds"
  proof -
    have "List.map_filter (byType ?w) (map cd_type ds) = map (\<lambda>d. the (byType ?w (cd_type d))) ds"
      by (rule map_filter_found) (use by_type in force)
    then show ?thesis by (simp add: assms(2))
  qed
  ultimately show ?thesis using w(1) by (auto simp: mergeConditions_def Let_def)
qed

text \<open>What the five conditions of an evaluation must say.\<close>

definition condition_holds :: "Evaluation \<Rightarrow> string \<Rightarrow> bool" where
  "condition_holds ev t =
    (if t = ''Accepted'' then \<not> ev_configurationBudgetExceeded ev \<and> list_all (\<lambda>s. sa_configuration s = ''accepted'') (ev_sources ev)
     else if t = ''Authorized'' then \<not> ev_configurationBudgetExceeded ev \<and>
       (case ev_globalAuthorization ev of Some g \<Rightarrow> g = ''allowed'' | None \<Rightarrow> list_all (\<lambda>s. sa_authorization s = ''allowed'') (ev_sources ev))
     else if t = ''SourcesResolved'' then \<not> ev_configurationBudgetExceeded ev \<and> list_all (\<lambda>s. sa_resolution s = ''resolved'') (ev_sources ev)
     else if t = ''Ready'' then (case ev_result ev of Some r \<Rightarrow> \<not> HasResultErrors r | None \<Rightarrow> False)
     else (case ev_result ev of Some r \<Rightarrow> HasResultErrors r | None \<Rightarrow> True))"

definition conditions_for :: "int \<Rightarrow> Evaluation \<Rightarrow> Condition list \<Rightarrow> bool" where
  "conditions_for generation ev ds \<longleftrightarrow> map cd_type ds = canonicalConditionOrder \<and>
     list_all (\<lambda>d. cd_observedGeneration d = generation \<and> (cd_status d = ''True'' \<longleftrightarrow> condition_holds ev (cd_type d))) ds"

lemma validateSources_accepted:
  "validateSources i as = None \<Longrightarrow> list_all (\<lambda>s. sa_configuration s = ''accepted'' \<or> sa_configuration s = ''invalid'') as"
  by (induction i as rule: validateSources.induct) (auto simp: validConfigurationOutcome_def split: if_splits)

lemma authorization_true: "fst (authorizationStatus o') = ''True'' \<longleftrightarrow> o' = ''allowed''"
  by (simp add: authorizationStatus_def)

lemma authorization_condition:
  "cd_type (authorizationConditionForOutcome g o' n b) = ''Authorized''" "cd_observedGeneration (authorizationConditionForOutcome g o' n b) = g"
  "cd_status (authorizationConditionForOutcome g o' n b) = fst (authorizationStatus o')"
  by (simp_all add: authorizationConditionForOutcome_def condition_def split: prod.splits)

lemma resolution_not_true: "resolutionStatus o' = (s, r, m) \<Longrightarrow> s \<noteq> ''True''"
  by (auto simp: resolutionStatus_def split: if_splits)

lemma find_not: "find (\<lambda>s. P s) xs = None \<longleftrightarrow> list_all (\<lambda>s. \<not> P s) xs"
  by (auto simp: find_None_iff list_all_iff)

lemma find_holds: "find P xs = Some x \<Longrightarrow> x \<in> set xs \<and> P x"
  by (auto simp: find_Some_iff)

lemmas find_results = find_not find_holds

lemma none_invalid:
  "list_all (\<lambda>s. sa_configuration s = ''accepted'' \<or> sa_configuration s = ''invalid'') as \<Longrightarrow>
     list_ex (\<lambda>s. sa_configuration s = ''invalid'') as \<longleftrightarrow> \<not> list_all (\<lambda>s. sa_configuration s = ''accepted'') as"
  by (induction as) auto

lemma accepted_condition:
  assumes "validateSources 0 sources = None"
  shows "cd_type (acceptedCondition g sources) = ''Accepted'' \<and> cd_observedGeneration (acceptedCondition g sources) = g \<and>
    (cd_status (acceptedCondition g sources) = ''True'' \<longleftrightarrow> list_all (\<lambda>s. sa_configuration s = ''accepted'') sources)"
    "cd_type (compactAcceptedCondition g sources) = ''Accepted'' \<and> cd_observedGeneration (compactAcceptedCondition g sources) = g \<and>
    (cd_status (compactAcceptedCondition g sources) = ''True'' \<longleftrightarrow> list_all (\<lambda>s. sa_configuration s = ''accepted'') sources)"
proof -
  note v = validateSources_accepted[OF assms]
  show "cd_type (acceptedCondition g sources) = ''Accepted'' \<and> cd_observedGeneration (acceptedCondition g sources) = g \<and>
    (cd_status (acceptedCondition g sources) = ''True'' \<longleftrightarrow> list_all (\<lambda>s. sa_configuration s = ''accepted'') sources)"
  proof (cases "find (\<lambda>s. sa_configuration s = ''invalid'') sources")
    case None
    have "list_all (\<lambda>s. sa_configuration s = ''accepted'') sources" using None[unfolded find_not] v by (auto simp: list_all_iff)
    then show ?thesis using None by (simp add: acceptedCondition_def condition_def)
  next
    case (Some s)
    then have "\<not> list_all (\<lambda>s. sa_configuration s = ''accepted'') sources" using find_holds[OF Some] by (auto simp: list_all_iff intro!: bexI[of _ s])
    then show ?thesis using Some by (simp add: acceptedCondition_def condition_def)
  qed
  show "cd_type (compactAcceptedCondition g sources) = ''Accepted'' \<and> cd_observedGeneration (compactAcceptedCondition g sources) = g \<and>
    (cd_status (compactAcceptedCondition g sources) = ''True'' \<longleftrightarrow> list_all (\<lambda>s. sa_configuration s = ''accepted'') sources)"
    using none_invalid[OF v] by (simp add: compactAcceptedCondition_def condition_def)
qed

lemma authorized_condition:
  "cd_type (authorizedCondition g ev) = ''Authorized'' \<and> cd_observedGeneration (authorizedCondition g ev) = g \<and>
    (cd_status (authorizedCondition g ev) = ''True'' \<longleftrightarrow>
      (case ev_globalAuthorization ev of Some o' \<Rightarrow> o' = ''allowed'' | None \<Rightarrow> list_all (\<lambda>s. sa_authorization s = ''allowed'') (ev_sources ev)))"
  "cd_type (compactAuthorizationCondition g ev) = ''Authorized'' \<and> cd_observedGeneration (compactAuthorizationCondition g ev) = g \<and>
    (cd_status (compactAuthorizationCondition g ev) = ''True'' \<longleftrightarrow>
      (case ev_globalAuthorization ev of Some o' \<Rightarrow> o' = ''allowed'' | None \<Rightarrow> list_all (\<lambda>s. sa_authorization s = ''allowed'') (ev_sources ev)))"
  by (auto simp: authorizedCondition_def compactAuthorizationCondition_def authorization_condition authorization_true condition_def find_not
      list_all_iff split: option.splits dest!: find_holds)

lemma resolved_condition:
  "cd_type (resolutionCondition g sources) = ''SourcesResolved'' \<and> cd_observedGeneration (resolutionCondition g sources) = g \<and>
    (cd_status (resolutionCondition g sources) = ''True'' \<longleftrightarrow> list_all (\<lambda>s. sa_resolution s = ''resolved'') sources)"
  "cd_type (compactResolutionCondition g sources) = ''SourcesResolved'' \<and> cd_observedGeneration (compactResolutionCondition g sources) = g \<and>
    (cd_status (compactResolutionCondition g sources) = ''True'' \<longleftrightarrow> list_all (\<lambda>s. sa_resolution s = ''resolved'') sources)"
  by (auto simp: resolutionCondition_def compactResolutionCondition_def condition_def find_not list_all_iff
      split: option.splits prod.splits dest!: find_holds dest: resolution_not_true)

lemma desired_conditions_for:
  assumes "validateEvaluation ev = None" "\<not> ev_configurationBudgetExceeded ev" "\<not> ev_resultLimitExceeded ev" "DeriveResult hash (ev_result ev) = Inr derived"
  shows "conditions_for g ev (desiredConditions g ev derived)"
proof -
  have v: "validateSources 0 (ev_sources ev) = None" using assms(1) by (auto simp: validateEvaluation_def split: option.splits)
  have u: "ev_result ev = None \<longleftrightarrow> ev_resultUnavailable ev"
    using assms(1-3) by (auto simp: validateEvaluation_def validateShape_def split: option.splits if_splits)
  have d: "dr_degraded derived = (case ev_result ev of Some r \<Rightarrow> HasResultErrors r | None \<Rightarrow> False)"
    using assms(4) by (auto simp: DeriveResult_def res_simps split: option.splits)
  have e: "cd_type (evaluationCondition g ev derived) = ''Ready'' \<and> cd_observedGeneration (evaluationCondition g ev derived) = g \<and>
      (cd_status (evaluationCondition g ev derived) = ''True'' \<longleftrightarrow> (case ev_result ev of Some r \<Rightarrow> \<not> HasResultErrors r | None \<Rightarrow> False))"
    "cd_type (degradedCondition g ev derived) = ''Degraded'' \<and> cd_observedGeneration (degradedCondition g ev derived) = g \<and>
      (cd_status (degradedCondition g ev derived) = ''True'' \<longleftrightarrow> (case ev_result ev of Some r \<Rightarrow> HasResultErrors r | None \<Rightarrow> True))"
    using u d by (auto simp: evaluationCondition_def degradedCondition_def condition_def split: option.splits)
  show ?thesis using e accepted_condition(1)[OF v, of g] authorized_condition(1)[of g ev] resolved_condition(1)[of g "ev_sources ev"] assms(2)
    by (simp add: conditions_for_def desiredConditions_def canonicalConditionOrder_def condition_holds_def)
qed

lemma limit_conditions_for:
  assumes "validateEvaluation ev = None" "\<not> ev_configurationBudgetExceeded ev" "ev_resultLimitExceeded ev"
  shows "conditions_for g ev (compactLimitConditions g ev)"
proof -
  have v: "validateSources 0 (ev_sources ev) = None" using assms(1) by (auto simp: validateEvaluation_def split: option.splits)
  have u: "ev_result ev = None" using assms by (auto simp: validateEvaluation_def validateShape_def split: option.splits if_splits)
  show ?thesis using u accepted_condition(2)[OF v, of g] authorized_condition(2)[of g ev] resolved_condition(2)[of g "ev_sources ev"] assms(2)
    by (simp add: conditions_for_def compactLimitConditions_def canonicalConditionOrder_def condition_holds_def) (simp add: condition_def)
qed

lemma budget_conditions_for:
  assumes "validateEvaluation ev = None" "ev_configurationBudgetExceeded ev"
  shows "conditions_for g ev (configurationBudgetConditions g)"
proof -
  have "ev_result ev = None" using assms by (auto simp: validateEvaluation_def validateShape_def split: option.splits if_splits)
  then show ?thesis using assms(2)
    by (simp add: conditions_for_def configurationBudgetConditions_def canonicalConditionOrder_def condition_holds_def condition_def)
qed

definition state_count :: "string \<Rightarrow> FacetResult \<Rightarrow> int" where
  "state_count state r = int (length (filter (\<lambda>s. fsr_state s = state) r))"

definition resource_count :: "FacetResult \<Rightarrow> int" where
  "resource_count r = int (sum_list (map (\<lambda>s. length (fsr_resources s)) r))"

lemma addCount_exact: "0 \<le> a \<Longrightarrow> a \<le> max_int64 \<Longrightarrow> 0 \<le> n \<Longrightarrow> n \<le> max_int64 \<Longrightarrow>
  addCount a n = (if a + n \<le> max_int64 then Inr (a + n) else Inl ''count overflows int64'')"
  by (auto simp: addCount_def max_int64_def wrap64_id int64_range_def min_int64_def)

lemma countSources_exact:
  assumes "0 \<le> sum_successfulSources s" "0 \<le> sum_failedSources s" "0 \<le> sum_matchedResources s"
    and "sum_successfulSources s + state_count ''values'' r \<le> max_int64" "sum_failedSources s + state_count ''error'' r \<le> max_int64"
    and "sum_matchedResources s + resource_count r \<le> max_int64"
  shows "countSources s r = Inr \<lparr>sum_successfulSources = sum_successfulSources s + state_count ''values'' r,
    sum_failedSources = sum_failedSources s + state_count ''error'' r, sum_matchedResources = sum_matchedResources s + resource_count r\<rparr>"
  using assms
proof (induction r arbitrary: s)
  case Nil
  then show ?case by (simp add: state_count_def resource_count_def)
next
  case (Cons x r)
  have n: "0 \<le> state_count t r" "0 \<le> resource_count r" for t by (simp_all add: state_count_def resource_count_def)
  have m: "(1 :: int) \<le> max_int64" by (simp add: max_int64_def)
  have c: "state_count t (x # r) = (if fsr_state x = t then 1 else 0) + state_count t r"
    "resource_count (x # r) = int (length (fsr_resources x)) + resource_count r" for t
    by (simp_all add: state_count_def resource_count_def)
  define s1 where "s1 = s\<lparr>sum_successfulSources := sum_successfulSources s + (if fsr_state x = ''values'' then 1 else 0),
    sum_failedSources := sum_failedSources s + (if fsr_state x = ''error'' then 1 else 0),
    sum_matchedResources := sum_matchedResources s + int (length (fsr_resources x))\<rparr>"
  have "countSource s x = Inr s1"
    using Cons.prems n(1)[of "''values''"] n(1)[of "''error''"] n(2) m unfolding c countSource_def increment_def s1_def
    by (cases "fsr_state x = ''values''"; cases "fsr_state x = ''error''") (simp_all add: addCount_exact)
  moreover have "countSources s1 r = Inr \<lparr>sum_successfulSources = sum_successfulSources s1 + state_count ''values'' r,
      sum_failedSources = sum_failedSources s1 + state_count ''error'' r, sum_matchedResources = sum_matchedResources s1 + resource_count r\<rparr>"
    using Cons.prems unfolding c by (intro Cons.IH) (simp_all add: s1_def)
  ultimately show ?case by (simp add: c s1_def)
qed

text \<open>\<^verbatim>\<open>meta.SetStatusCondition\<close> at time \<open>now\<close>, for the witnesses.\<close>

fun set_status_condition :: "int \<Rightarrow> Condition \<Rightarrow> Condition list \<Rightarrow> Condition list" where
  "set_status_condition now c [] = [c\<lparr>cd_lastTransitionTime := now\<rparr>]"
| "set_status_condition now c (x # xs) =
    (if cd_type x = cd_type c
     then c\<lparr>cd_lastTransitionTime := (if cd_status x = cd_status c then cd_lastTransitionTime x else now)\<rparr> # xs
     else x # set_status_condition now c xs)"

lemma set_status_condition_new:
  "cd_type c \<notin> cd_type ` set cs \<Longrightarrow> set_status_condition now c cs = cs @ [c\<lparr>cd_lastTransitionTime := now\<rparr>]"
  by (induction cs) auto

lemma set_status_condition_old:
  "cd_type c \<notin> cd_type ` set pre \<Longrightarrow> cd_type old = cd_type c \<Longrightarrow> set_status_condition now c (pre @ old # post) =
     pre @ c\<lparr>cd_lastTransitionTime := (if cd_status old = cd_status c then cd_lastTransitionTime old else now)\<rparr> # post"
  by (induction pre) auto

lemma set_status_condition_sets: "sets_condition (set_status_condition now)"
  unfolding sets_condition_def by (auto simp: set_status_condition_new set_status_condition_old)

lemma compose_conditions:
  assumes "Compose hash put generation persisted ev = Inr st" and "sets_condition put"
  shows "\<exists>ds cs. conditions_for generation ev ds \<and> st_conditions st = cs @ others persisted \<and>
    list_all2 (\<lambda>d c. stamped d (of_type (cd_type d) persisted) c) ds cs \<and>
    st_observedGeneration st = generation \<and> st_result st = ev_result ev \<and> (st_summary st = None \<longleftrightarrow> ev_result ev = None)"
proof -
  have v: "validateEvaluation ev = None" "\<not> generation < 0" using assms(1) by (auto simp: Compose_def split: if_splits option.splits)
  have merged: "\<exists>cs. mergeConditions put persisted ds = cs @ others persisted \<and> list_all2 (\<lambda>d c. stamped d (of_type (cd_type d) persisted) c) ds cs"
    if "conditions_for generation ev ds" for ds using merge_conditions[OF assms(2)] that by (simp add: conditions_for_def)
  have none: "ev_result ev = None" if "ev_configurationBudgetExceeded ev \<or> ev_resultLimitExceeded ev"
    using v(1) that by (auto simp: validateEvaluation_def validateShape_def split: option.splits if_splits)
  consider "ev_configurationBudgetExceeded ev" | "\<not> ev_configurationBudgetExceeded ev" "ev_resultLimitExceeded ev"
    | derived where "\<not> ev_configurationBudgetExceeded ev" "\<not> ev_resultLimitExceeded ev" "DeriveResult hash (ev_result ev) = Inr derived"
    using assms(1) v by (cases "DeriveResult hash (ev_result ev)") (auto simp: Compose_def split: if_splits)
  then show ?thesis
  proof cases
    case 1
    have c: "conditions_for generation ev (configurationBudgetConditions generation)" using budget_conditions_for v(1) 1 .
    show ?thesis using merged[OF c] c none 1 assms(1) v by (auto simp: Compose_def empty_status_def)
  next
    case 2
    have c: "conditions_for generation ev (compactLimitConditions generation ev)" using limit_conditions_for v(1) 2 .
    show ?thesis using merged[OF c] c none 2 assms(1) v by (auto simp: Compose_def empty_status_def)
  next
    case (3 derived)
    have c: "conditions_for generation ev (desiredConditions generation ev derived)" using desired_conditions_for v(1) 3 .
    have d: "dr_result derived = ev_result ev" "dr_summary derived = None \<longleftrightarrow> ev_result ev = None"
      using 3(3) by (auto simp: DeriveResult_def res_simps split: option.splits)
    show ?thesis using merged[OF c] c d 3 assms(1) v by (auto simp: Compose_def)
  qed
qed

section \<open>Properties\<close>

text \<open>C30: a composed status has the five canonical conditions once each, in order, for the reconciled generation, each true exactly when
  the evaluation says so: Ready exactly when there is a result without errors, Degraded exactly otherwise.  A condition whose status
  did not change keeps its transition time, and every other persisted condition is kept, in order, behind them.  The result, its
  summary and its hash are published exactly when there is a result within the limits.\<close>

theorem Compose_conditions:
  assumes "Compose hash put generation persisted ev = Inr st" and "sets_condition put"
  shows "\<exists>ds cs. conditions_for generation ev ds \<and> st_conditions st = cs @ others persisted \<and>
    list_all2 (\<lambda>d c. stamped d (of_type (cd_type d) persisted) c) ds cs \<and>
    st_observedGeneration st = generation \<and> st_result st = ev_result ev \<and> (st_summary st = None \<longleftrightarrow> ev_result ev = None)"
  using assms by (rule compose_conditions)

theorem Compose_conditions_witness:
  "\<exists>st. Compose (\<lambda>_. Some ''h'') (set_status_condition 9) 3 [\<lparr>cd_type = ''Ready'', cd_status = ''True'', cd_observedGeneration = 2,
       cd_lastTransitionTime = 4, cd_reason = [], cd_message = []\<rparr>] (empty_evaluation\<lparr>ev_result := Some []\<rparr>) = Inr st \<and>
     length (st_conditions st) = 5 \<and> st_summary st \<noteq> None"
proof -
  let ?p = "[\<lparr>cd_type = ''Ready'', cd_status = ''True'', cd_observedGeneration = 2, cd_lastTransitionTime = 4, cd_reason = [], cd_message = []\<rparr>]"
  let ?ev = "empty_evaluation\<lparr>ev_result := Some []\<rparr>"
  have "\<not> isl (Compose (\<lambda>_. Some ''h'') (set_status_condition 9) 3 ?p ?ev)" by code_simp
  then obtain st where st: "Compose (\<lambda>_. Some ''h'') (set_status_condition 9) 3 ?p ?ev = Inr st"
    by (cases "Compose (\<lambda>_. Some ''h'') (set_status_condition 9) 3 ?p ?ev") auto
  obtain ds cs where d: "conditions_for 3 ?ev ds" "st_conditions st = cs @ others ?p" "list_all2 (\<lambda>d c. stamped d (of_type (cd_type d) ?p) c) ds cs"
    "st_summary st \<noteq> None" using Compose_conditions[OF st set_status_condition_sets] by auto
  have "map cd_type ds = canonicalConditionOrder" using d(1) by (simp add: conditions_for_def)
  then have "length ds = 5" using length_map[of cd_type ds] by (simp add: canonicalConditionOrder_def)
  moreover have "others ?p = []" by code_simp
  ultimately show ?thesis using st d list_all2_lengthD[OF d(3)] by auto
qed

text \<open>The summary counts exactly the sources in the value and error states and the resources of all sources, as long as each count
  fits in 64 bits.\<close>

theorem summaryForResult_exact:
  assumes "state_count ''values'' r \<le> max_int64" and "state_count ''error'' r \<le> max_int64" and "resource_count r \<le> max_int64"
  shows "summaryForResult r = Inr \<lparr>sum_successfulSources = state_count ''values'' r, sum_failedSources = state_count ''error'' r,
    sum_matchedResources = resource_count r\<rparr>"
  using countSources_exact[of "\<lparr>sum_successfulSources = 0, sum_failedSources = 0, sum_matchedResources = 0\<rparr>" r] assms
  by (simp add: summaryForResult_def)

theorem summaryForResult_exact_witness:
  "summaryForResult [\<lparr>fsr_id = ''a'', fsr_state = ''error'', fsr_fieldErrors = [], fsr_resources = [], fsr_aggregates = [], fsr_error = None\<rparr>] =
     Inr \<lparr>sum_successfulSources = 0, sum_failedSources = 1, sum_matchedResources = 0\<rparr>"
  using summaryForResult_exact[of "[\<lparr>fsr_id = ''a'', fsr_state = ''error'', fsr_fieldErrors = [], fsr_resources = [], fsr_aggregates = [], fsr_error = None\<rparr>]"]
  by (simp add: state_count_def resource_count_def max_int64_def)

end
