(* ===== verification/Publisher.thy ===== *)
theory Publisher
  imports Routes Status
begin

text \<open>
  Error values and guarded status publication of \<^verbatim>\<open>src/internal/reconciliation\<close>: \<^verbatim>\<open>errors.go\<close> and \<^verbatim>\<open>status.go\<close>.  One call of
  \<^verbatim>\<open>Publish\<close> runs against an environment that answers each read of the shared world at the moment the code makes it: the context,
  the freshness tracker before the read, after it and just before the write, the API read, and the write.  The result has the
  error, the objects handed to the status writer in order, and what the observer is told.
\<close>

section \<open>Errors\<close>

datatype api_reason = ApiNotFound | ApiConflict | ApiForbidden | ApiInvalid | ApiOther

datatype go_error =
    Canceled
  | DeadlineExceeded
  | ErrStaleLease
  | OtherError string
  | ApiError api_reason
  | SelectionErr SelectionError
  | ResolutionErr ResolutionError
  | AuthorizationErr string
  | WrappedError go_error
  | RuntimeError (rte_stage: string) (rte_sourceID: string) (rte_reason: string) (rte_message: string) (rte_retryable: bool) (rte_cause: "go_error option")
  | JoinedError "go_error list"

text \<open>The nodes of an error tree in the order \<^verbatim>\<open>errors.Is\<close> and \<^verbatim>\<open>errors.As\<close> visit them.\<close>

fun error_nodes :: "go_error \<Rightarrow> go_error list" where
  "error_nodes (WrappedError e) = WrappedError e # error_nodes e"
| "error_nodes (RuntimeError stage sid reason message retryable (Some e)) =
     RuntimeError stage sid reason message retryable (Some e) # error_nodes e"
| "error_nodes (JoinedError es) = JoinedError es # concat (map error_nodes es)"
| "error_nodes e = [e]"

definition errors_Is :: "go_error \<Rightarrow> go_error \<Rightarrow> bool" where
  "errors_Is e target \<longleftrightarrow> target \<in> set (error_nodes e)"

definition as_runtime :: "go_error \<Rightarrow> go_error option" where
  "as_runtime e = find (\<lambda>n. case n of RuntimeError _ _ _ _ _ _ \<Rightarrow> True | _ \<Rightarrow> False) (error_nodes e)"

text \<open>\<^verbatim>\<open>apierrors.ReasonForError\<close>: the reason of the first API status error of the tree.\<close>

definition api_reason_of :: "go_error \<Rightarrow> api_reason option" where
  "api_reason_of e = (case find (\<lambda>n. case n of ApiError _ \<Rightarrow> True | _ \<Rightarrow> False) (error_nodes e) of
     Some (ApiError r) \<Rightarrow> Some r | _ \<Rightarrow> None)"

definition interrupted_error :: "go_error \<Rightarrow> bool" where
  "interrupted_error e \<longleftrightarrow> errors_Is e Canceled \<or> errors_Is e DeadlineExceeded"

definition IsRetryable :: "go_error option \<Rightarrow> bool" where
  "IsRetryable err = (case err of None \<Rightarrow> False | Some e \<Rightarrow> (case as_runtime e of None \<Rightarrow> False | Some n \<Rightarrow> rte_retryable n))"

definition staleRuntimeError :: "string \<Rightarrow> go_error" where
  "staleRuntimeError stage = RuntimeError stage [] ''StaleLease'' ''candidate is no longer current'' False (Some ErrStaleLease)"

definition transientRuntimeError :: "string \<Rightarrow> string \<Rightarrow> string \<Rightarrow> string \<Rightarrow> go_error option \<Rightarrow> go_error" where
  "transientRuntimeError stage sid reason message cause = RuntimeError stage sid reason message True cause"

definition terminalRuntimeError :: "string \<Rightarrow> string \<Rightarrow> string \<Rightarrow> go_error option \<Rightarrow> go_error" where
  "terminalRuntimeError stage reason message cause = RuntimeError stage [] reason message False cause"

section \<open>Status comparison\<close>

record StatusProjection =
  sj_observedGeneration :: int
  sj_conditions :: "Condition list"
  sj_summary :: "FacetSummary option"
  sj_resultHash :: string
  sj_result :: "FacetResult option"

definition ProjectStatus :: "FacetStatus \<Rightarrow> StatusProjection" where
  "ProjectStatus s = \<lparr>sj_observedGeneration = st_observedGeneration s, sj_conditions = NormalizeConditions (st_conditions s),
     sj_summary = st_summary s, sj_resultHash = st_resultHash s, sj_result = st_result s\<rparr>"

definition SemanticallyEqualStatus :: "FacetStatus \<Rightarrow> FacetStatus \<Rightarrow> bool" where
  "SemanticallyEqualStatus left right \<longleftrightarrow> ProjectStatus left = ProjectStatus right"

section \<open>Publisher\<close>

record StatusPublisher =
  sp_reader :: bool
  sp_writer :: bool
  sp_observer :: bool
  sp_maxStatusBytes :: int

definition DefaultMaxStatusBytes :: int where
  "DefaultMaxStatusBytes = 524288"

text \<open>The options are the functions the caller passes; a nil option is skipped.\<close>

definition WithStatusObserver :: "bool \<Rightarrow> StatusPublisher \<Rightarrow> StatusPublisher" where
  "WithStatusObserver observer p = p\<lparr>sp_observer := observer\<rparr>"

definition WithMaxStatusBytes :: "int \<Rightarrow> StatusPublisher \<Rightarrow> StatusPublisher" where
  "WithMaxStatusBytes maxBytes p = p\<lparr>sp_maxStatusBytes := maxBytes\<rparr>"

definition NewStatusPublisher :: "bool \<Rightarrow> bool \<Rightarrow> (StatusPublisher \<Rightarrow> StatusPublisher) option list \<Rightarrow> StatusPublisher" where
  "NewStatusPublisher reader writer options = fold (\<lambda>opt p. case opt of None \<Rightarrow> p | Some f \<Rightarrow> f p) options
     \<lparr>sp_reader = reader, sp_writer = writer, sp_observer = False, sp_maxStatusBytes = DefaultMaxStatusBytes\<rparr>"

datatype StatusOutcome = StatusWritten | StatusSkipped | StatusConflicted | StatusFailed

text \<open>A Facet as the publisher reads and writes it.\<close>

record CurrentFacet =
  cf_uid :: UID
  cf_generation :: int
  cf_deleting :: bool
  cf_status :: FacetStatus

datatype status_observation =
    ObserveLimit string int
  | ObserveStatus StatusOutcome string
  | RecordStatusEvent CurrentFacet

definition normalizedStatusCeiling :: "int \<Rightarrow> int" where
  "normalizedStatusCeiling bytes = (if bytes < 0 then 0 else bytes)"

definition statusLimitObservation :: "go_error \<Rightarrow> int \<Rightarrow> status_observation option" where
  "statusLimitObservation e bytes = (case as_runtime e of
     None \<Rightarrow> None
   | Some n \<Rightarrow> if rte_reason n = ''StatusLimitInvalid'' then Some (ObserveLimit ''StatusLimitInvalid'' (normalizedStatusCeiling bytes)) else None)"

definition statusContainsReason :: "Condition list \<Rightarrow> string \<Rightarrow> bool" where
  "statusContainsReason conditions reason = list_ex (\<lambda>c. cd_reason c = reason) conditions"

text \<open>\<open>encodedSize\<close> is \<^verbatim>\<open>limits.CanonicalSize\<close>, the length of the JSON encoding (\<open>None\<close>: it fails).\<close>

definition composeBoundedStatus ::
  "(FacetResult \<Rightarrow> string option) \<Rightarrow> (Condition \<Rightarrow> Condition list \<Rightarrow> Condition list) \<Rightarrow> (FacetStatus \<Rightarrow> int option) \<Rightarrow> int \<Rightarrow>
   int \<Rightarrow> Condition list \<Rightarrow> Evaluation \<Rightarrow> (go_error, FacetStatus) res" where
  "composeBoundedStatus hash put encodedSize maxBytes generation persisted ev =
    (if maxBytes \<le> 0 then Inl (terminalRuntimeError ''status-compose'' ''StatusLimitInvalid'' ''configured status limit is invalid'' None)
     else case Compose hash put generation persisted ev of
       Inl e \<Rightarrow> Inl (terminalRuntimeError ''status-compose'' ''BuildFailure'' ''status composition failed'' (Some (OtherError e)))
     | Inr composed \<Rightarrow>
        (case encodedSize composed of
           None \<Rightarrow> Inl (terminalRuntimeError ''status-compose'' ''StatusLimitInvalid'' ''status candidate could not be measured''
             (Some (OtherError ''marshal'')))
         | Some n \<Rightarrow>
            if n \<le> maxBytes then Inr composed
            else if ev_configurationBudgetExceeded ev then
              Inl (terminalRuntimeError ''status-compose'' ''StatusLimitInvalid'' ''configured status limit cannot contain configuration rejection'' None)
            else
              (case ComposeResultLimitExceeded hash put generation persisted ev of
                 Inl e \<Rightarrow> Inl (terminalRuntimeError ''status-compose'' ''BuildFailure'' ''compact status composition failed'' (Some (OtherError e)))
               | Inr small \<Rightarrow>
                  (case encodedSize small of
                     None \<Rightarrow> Inl (terminalRuntimeError ''status-compose'' ''StatusLimitInvalid''
                       ''configured status limit cannot contain compact status'' (Some (OtherError ''marshal'')))
                   | Some m \<Rightarrow>
                      if m > maxBytes then Inl (terminalRuntimeError ''status-compose'' ''StatusLimitInvalid''
                        ''configured status limit cannot contain compact status'' None)
                      else Inr small))))"

definition classifyStatusPublication :: "go_error option \<Rightarrow> StatusOutcome \<times> string" where
  "classifyStatusPublication err = (case err of
     None \<Rightarrow> (StatusSkipped, ''EvaluationSucceeded'')
   | Some e \<Rightarrow>
      if interrupted_error e then (StatusSkipped, ''ReadInterrupted'')
      else if errors_Is e ErrStaleLease then (StatusSkipped, ''StaleLease'')
      else if api_reason_of e = Some ApiConflict then (StatusConflicted, ''StatusConflict'')
      else (case as_runtime e of
         None \<Rightarrow> (StatusFailed, ''StatusUnavailable'')
       | Some n \<Rightarrow> if rte_reason n = ''StatusConflict'' then (StatusConflicted, ''StatusConflict'') else (StatusFailed, rte_reason n)))"

text \<open>The inner loop over the conditions of one type: an early reason (\<open>Inl\<close>), or whether one was found.\<close>

fun conditionReason :: "string \<Rightarrow> bool \<Rightarrow> Condition list \<Rightarrow> string + bool" where
  "conditionReason t found [] = Inr found"
| "conditionReason t found (c # cs) =
    (if cd_type c \<noteq> t then conditionReason t found cs
     else if found \<or> cd_reason c = [] then Inl ''InternalError''
     else if cd_status c \<noteq> ''True'' then Inl (cd_reason c)
     else conditionReason t True cs)"

fun conditionReasons :: "string list \<Rightarrow> Condition list \<Rightarrow> string" where
  "conditionReasons [] conditions = ''EvaluationSucceeded''"
| "conditionReasons (t # ts) conditions = (case conditionReason t False conditions of
     Inl reason \<Rightarrow> reason
   | Inr found \<Rightarrow> if found then conditionReasons ts conditions else ''InternalError'')"

definition statusReasonFromConditions :: "Condition list \<Rightarrow> string" where
  "statusReasonFromConditions = conditionReasons [''Accepted'', ''Authorized'', ''SourcesResolved'', ''Ready'']"

definition classifyStatusWriteError :: "go_error \<Rightarrow> go_error" where
  "classifyStatusWriteError e =
    (if interrupted_error e then e
     else if api_reason_of e = Some ApiConflict then
       transientRuntimeError ''status-write'' [] ''StatusConflict'' ''status update conflicted with a newer resource version'' (Some e)
     else if api_reason_of e = Some ApiForbidden \<or> api_reason_of e = Some ApiInvalid then
       terminalRuntimeError ''status-write'' ''StatusUnavailable'' ''status update was rejected'' (Some e)
     else transientRuntimeError ''status-write'' [] ''StatusUnavailable'' ''status update is temporarily unavailable'' (Some e))"

record PublishEnv =
  pe_ctxStart :: "go_error option"
  pe_trackerStart :: "FreshnessTracker option"
  pe_get :: "(go_error, CurrentFacet) res"
  pe_ctxRead :: "go_error option"
  pe_trackerRead :: "FreshnessTracker option"
  pe_ctxWrite :: "go_error option"
  pe_trackerWrite :: "FreshnessTracker option"
  pe_update :: "CurrentFacet \<Rightarrow> go_error option"

record Publication =
  pb_err :: "go_error option"
  pb_writes :: "CurrentFacet list"
  pb_observed :: "status_observation list"

text \<open>The return of \<^verbatim>\<open>Publish\<close>, with its deferred observation.\<close>

definition publish_return ::
  "StatusPublisher \<Rightarrow> go_error option \<Rightarrow> StatusOutcome \<Rightarrow> string \<Rightarrow> CurrentFacet list \<Rightarrow> status_observation list \<Rightarrow> Publication" where
  "publish_return p err publication reason writes observed = \<lparr>pb_err = err, pb_writes = writes,
     pb_observed = (if \<not> sp_observer p then []
       else observed @ (case err of
          None \<Rightarrow> [ObserveStatus publication reason]
        | Some e \<Rightarrow> (case statusLimitObservation e (sp_maxStatusBytes p) of None \<Rightarrow> [] | Some o' \<Rightarrow> [o']) @
            [case classifyStatusPublication err of (outcome, r) \<Rightarrow> ObserveStatus outcome r]))\<rparr>"

abbreviation publish_fails :: "StatusPublisher \<Rightarrow> go_error \<Rightarrow> CurrentFacet list \<Rightarrow> status_observation list \<Rightarrow> Publication" where
  "publish_fails p e writes observed \<equiv> publish_return p (Some e) StatusFailed ''StatusUnavailable'' writes observed"

text \<open>\<^verbatim>\<open>Publish\<close> from the composed status on.\<close>

definition publishComposed :: "StatusPublisher \<Rightarrow> PublishEnv \<Rightarrow> Lease \<Rightarrow> CurrentFacet \<Rightarrow> FacetStatus \<Rightarrow> Publication" where
  "publishComposed p env lease current composed =
    (let observed = (if statusContainsReason (st_conditions composed) ''ResultLimitExceeded''
           then [ObserveLimit ''ResultLimitExceeded'' (normalizedStatusCeiling (sp_maxStatusBytes p))] else []);
         candidate = current\<lparr>cf_status := composed\<rparr>;
         reason = statusReasonFromConditions (st_conditions composed) in
     if SemanticallyEqualStatus (cf_status current) (cf_status candidate) then publish_return p None StatusSkipped reason [] observed
     else case pe_ctxWrite env of
       Some e \<Rightarrow> publish_fails p e [] observed
     | None \<Rightarrow>
        if \<not> lease_current (pe_trackerWrite env) lease then publish_fails p (staleRuntimeError ''status-publish'') [] observed
        else case pe_update env candidate of
          Some e \<Rightarrow> publish_fails p (classifyStatusWriteError e) [candidate] observed
        | None \<Rightarrow> publish_return p None StatusWritten reason [candidate] (observed @ [RecordStatusEvent candidate]))"

definition Publish ::
  "(FacetResult \<Rightarrow> string option) \<Rightarrow> (Condition \<Rightarrow> Condition list \<Rightarrow> Condition list) \<Rightarrow> (FacetStatus \<Rightarrow> int option) \<Rightarrow>
   StatusPublisher \<Rightarrow> PublishEnv \<Rightarrow> Lease \<Rightarrow> Evaluation \<Rightarrow> Publication" where
  "Publish hash put encodedSize p env lease ev =
    (if \<not> sp_reader p \<or> \<not> sp_writer p then publish_fails p (OtherError ''status publisher dependencies are not configured'') [] []
     else case pe_ctxStart env of
       Some e \<Rightarrow> publish_fails p e [] []
     | None \<Rightarrow>
        if \<not> lease_current (pe_trackerStart env) lease then publish_fails p (staleRuntimeError ''status-publish'') [] []
        else case pe_get env of
          Inl e \<Rightarrow>
            if api_reason_of e = Some ApiNotFound \<or> pe_ctxRead env \<noteq> None then publish_fails p e [] []
            else publish_fails p (transientRuntimeError ''status-read'' [] ''StatusUnavailable'' ''current Facet status is unavailable'' (Some e)) [] []
        | Inr current \<Rightarrow>
            if cf_deleting current then publish_return p None StatusSkipped ''ObjectDeleting'' [] []
            else if ls_uid lease \<noteq> cf_uid current then publish_fails p (staleRuntimeError ''status-publish'') [] []
            else if cf_generation current \<noteq> ls_generation lease then publish_fails p (staleRuntimeError ''status-publish'') [] []
            else if \<not> lease_current (pe_trackerRead env) lease then publish_fails p (staleRuntimeError ''status-publish'') [] []
            else case composeBoundedStatus hash put encodedSize (sp_maxStatusBytes p) (ls_generation lease) (st_conditions (cf_status current)) ev of
              Inl e \<Rightarrow> publish_fails p e [] []
            | Inr composed \<Rightarrow> publishComposed p env lease current composed)"

section \<open>Lemmas\<close>

lemma stamped_type: "stamped d old c \<Longrightarrow> cd_type c = cd_type d \<and> cd_status c = cd_status d"
  unfolding stamped_def by (metis Condition.select_convs(1,2) Condition.surjective Condition.update_convs(4))

lemma stamped_again: "stamped d old c \<Longrightarrow> stamped d [c] c' \<Longrightarrow> c' = c"
  using stamped_type[of d old c] by (simp add: stamped_def) (metis Condition.surjective Condition.update_convs(4))

lemma stamped_list_types: "list_all2 (\<lambda>d c. stamped d (f d) c) ds cs \<Longrightarrow> map cd_type cs = map cd_type ds"
  by (induction rule: list_all2_induct) (auto dest: stamped_type)

lemma filter_distinct_nth: "distinct (map f xs) \<Longrightarrow> i < length xs \<Longrightarrow> filter (\<lambda>x. f x = f (xs ! i)) xs = [xs ! i]"
proof (induction xs arbitrary: i)
  case (Cons a xs)
  show ?case
  proof (cases i)
    case 0
    then show ?thesis using Cons.prems by (auto simp: filter_empty_conv image_iff)
  next
    case (Suc j)
    then have "f a \<noteq> f (xs ! j)" using Cons.prems by (metis distinct.simps(2) image_eqI length_Cons list.set_map list.simps(9) nth_mem Suc_less_eq)
    then show ?thesis using Cons Suc by simp
  qed
qed simp

lemma of_type_canonical:
  assumes "map cd_type cs = canonicalConditionOrder" "i < length cs"
  shows "of_type (cd_type (cs ! i)) (cs @ others ps) = [cs ! i]"
proof -
  have d: "distinct (map cd_type cs)" using assms(1) by (simp add: canonicalConditionOrder_def)
  have "isCanonicalCondition (cd_type (cs ! i))" unfolding isCanonicalCondition_def using assms by (metis length_map nth_map nth_mem)
  then have "of_type (cd_type (cs ! i)) (others ps) = []" by (auto simp: filter_empty_conv)
  moreover have "of_type (cd_type (cs ! i)) cs = [cs ! i]" using filter_distinct_nth[OF d assms(2)] .
  ultimately show ?thesis by simp
qed

text \<open>Merging the same conditions again changes nothing, whatever the time of the second merge.\<close>

lemma merge_again:
  assumes put: "sets_condition put" "sets_condition put'" and ds: "map cd_type ds = canonicalConditionOrder"
  shows "mergeConditions put' (mergeConditions put persisted ds) ds = mergeConditions put persisted ds"
proof -
  obtain cs where cs: "mergeConditions put persisted ds = cs @ others persisted"
    "list_all2 (\<lambda>d c. stamped d (of_type (cd_type d) persisted) c) ds cs" using merge_conditions[OF put(1) ds] by blast
  obtain cs' where cs': "mergeConditions put' (cs @ others persisted) ds = cs' @ others (cs @ others persisted)"
    "list_all2 (\<lambda>d c. stamped d (of_type (cd_type d) (cs @ others persisted)) c) ds cs'" using merge_conditions[OF put(2) ds] by blast
  have types: "map cd_type cs = canonicalConditionOrder" using stamped_list_types[OF cs(2)] ds by simp
  have len: "length cs = length ds" "length cs' = length ds" using cs(2) cs'(2) by (auto dest: list_all2_lengthD)
  have "cs' ! i = cs ! i" if i: "i < length ds" for i
  proof -
    have s: "stamped (ds ! i) (of_type (cd_type (ds ! i)) persisted) (cs ! i)" using cs(2) i by (simp add: list_all2_conv_all_nth)
    have "stamped (ds ! i) (of_type (cd_type (cs ! i)) (cs @ others persisted)) (cs' ! i)"
      using cs'(2) i stamped_type[OF s] by (simp add: list_all2_conv_all_nth)
    then have "stamped (ds ! i) [cs ! i] (cs' ! i)" using of_type_canonical[OF types] i len by simp
    then show ?thesis using stamped_again[OF s] by simp
  qed
  then have "cs' = cs" using len by (auto intro: nth_equalityI)
  moreover have "others cs = []"
    unfolding filter_empty_conv isCanonicalCondition_def types[symmetric] by simp
  ultimately show ?thesis using cs(1) cs'(1) by simp
qed

lemma compose_again:
  assumes "sets_condition put" "sets_condition put'" "Compose hash put generation persisted ev = Inr st"
  shows "Compose hash put' generation (st_conditions st) ev = Inr st"
proof -
  have v: "validateEvaluation ev = None" "\<not> generation < 0" using assms(3) by (auto simp: Compose_def split: if_splits option.splits)
  have again: "mergeConditions put' (mergeConditions put persisted ds) ds = mergeConditions put persisted ds" if "conditions_for generation ev ds" for ds
    using merge_again[OF assms(1,2)] that by (simp add: conditions_for_def)
  consider "ev_configurationBudgetExceeded ev" | "\<not> ev_configurationBudgetExceeded ev" "ev_resultLimitExceeded ev"
    | derived where "\<not> ev_configurationBudgetExceeded ev" "\<not> ev_resultLimitExceeded ev" "DeriveResult hash (ev_result ev) = Inr derived"
    using assms(3) v by (cases "DeriveResult hash (ev_result ev)") (auto simp: Compose_def split: if_splits)
  then show ?thesis
  proof cases
    case 1
    show ?thesis using again[OF budget_conditions_for[OF v(1) 1]] 1 assms(3) v by (auto simp: Compose_def)
  next
    case 2
    show ?thesis using again[OF limit_conditions_for[OF v(1) 2]] 2 assms(3) v by (auto simp: Compose_def)
  next
    case (3 derived)
    show ?thesis using again[OF desired_conditions_for[OF v(1) 3]] 3 assms(3) v by (auto simp: Compose_def)
  qed
qed

text \<open>The bounded composition answers the full status when it fits and the compact one when only that fits.\<close>

abbreviation compact_evaluation :: "Evaluation \<Rightarrow> Evaluation" where
  "compact_evaluation ev \<equiv> ev\<lparr>ev_result := None, ev_resultUnavailable := False, ev_resultLimitExceeded := True\<rparr>"

definition fits_status :: "(FacetStatus \<Rightarrow> int option) \<Rightarrow> int \<Rightarrow> FacetStatus \<Rightarrow> bool" where
  "fits_status encodedSize maxBytes st = (case encodedSize st of None \<Rightarrow> False | Some n \<Rightarrow> n \<le> maxBytes)"

lemma composeBounded_exact:
  "composeBoundedStatus hash put encodedSize maxBytes generation persisted ev = Inr st \<longleftrightarrow>
     maxBytes > 0 \<and> fits_status encodedSize maxBytes st \<and>
     (Compose hash put generation persisted ev = Inr st \<or>
      (\<exists>full n. Compose hash put generation persisted ev = Inr full \<and> encodedSize full = Some n \<and> n > maxBytes \<and> \<not> ev_configurationBudgetExceeded ev \<and>
        Compose hash put generation persisted (compact_evaluation ev) = Inr st))"
  by (auto simp: composeBoundedStatus_def ComposeResultLimitExceeded_def fits_status_def split: sum.splits option.splits if_splits)

lemma publish_return_fields [simp]:
  "pb_err (publish_return p err o' r ws obs) = err" "pb_writes (publish_return p err o' r ws obs) = ws"
  by (simp_all add: publish_return_def)

lemma publish_writes:
  "w \<in> set (pb_writes (Publish hash put encodedSize p env lease ev)) \<longleftrightarrow>
    (\<exists>current st. sp_reader p \<and> sp_writer p \<and> pe_ctxStart env = None \<and> lease_current (pe_trackerStart env) lease \<and> pe_get env = Inr current \<and>
      \<not> cf_deleting current \<and> cf_uid current = ls_uid lease \<and> cf_generation current = ls_generation lease \<and> lease_current (pe_trackerRead env) lease \<and>
      composeBoundedStatus hash put encodedSize (sp_maxStatusBytes p) (ls_generation lease) (st_conditions (cf_status current)) ev = Inr st \<and>
      \<not> SemanticallyEqualStatus (cf_status current) st \<and> pe_ctxWrite env = None \<and> lease_current (pe_trackerWrite env) lease \<and>
      w = current\<lparr>cf_status := st\<rparr>)"
  by (auto simp: Publish_def publishComposed_def Let_def split: sum.splits option.splits if_splits)

lemma publish_at_most_once: "length (pb_writes (Publish hash put encodedSize p env lease ev)) \<le> 1"
  by (simp add: Publish_def publishComposed_def Let_def split: sum.splits option.splits)

section \<open>Composition at another time\<close>

text \<open>Transition times are the only part of a status that depends on when it is composed.  \<open>0\<close> is the zero time: \<^verbatim>\<open>meta.SetStatusCondition\<close>
  puts the current time in its place (\<open>dates_conditions\<close>), and \<^verbatim>\<open>metav1.Time\<close> encodes every other time as RFC 3339 text to the second, which has
  one length (\<open>sized_without_times\<close>).\<close>

abbreviation untime :: "Condition \<Rightarrow> Condition" where
  "untime c \<equiv> c\<lparr>cd_lastTransitionTime := 0\<rparr>"

definition untimed :: "FacetStatus \<Rightarrow> FacetStatus" where
  "untimed st = st\<lparr>st_conditions := map untime (st_conditions st)\<rparr>"

definition dated :: "Condition list \<Rightarrow> bool" where
  "dated cs \<longleftrightarrow> (\<forall>c \<in> set cs. cd_lastTransitionTime c \<noteq> 0)"

definition dates_conditions :: "(Condition \<Rightarrow> Condition list \<Rightarrow> Condition list) \<Rightarrow> bool" where
  "dates_conditions put \<longleftrightarrow> (\<forall>c cs. dated cs \<longrightarrow> dated (put c cs))"

definition sized_without_times :: "(FacetStatus \<Rightarrow> int option) \<Rightarrow> bool" where
  "sized_without_times encodedSize \<longleftrightarrow> (\<forall>a b. dated (st_conditions a) \<longrightarrow> dated (st_conditions b) \<longrightarrow> untimed a = untimed b \<longrightarrow>
     encodedSize a = encodedSize b)"

lemma firstCanonical_subset: "set (firstCanonical seen cs) \<subseteq> set cs"
  by (induction seen cs rule: firstCanonical.induct) auto

lemma fold_put_dated: "dates_conditions put \<Longrightarrow> dated cs \<Longrightarrow> dated (fold put ds cs)"
  by (induction ds arbitrary: cs) (auto simp: dates_conditions_def)

lemma byType_member: "byType cs t = Some c \<Longrightarrow> c \<in> set cs"
  by (auto simp: byType_def dest: find_holds)

lemma map_filter_byType: "set (List.map_filter (byType cs) ts) \<subseteq> set cs"
  by (induction ts) (auto simp: List.map_filter_simps dest: byType_member split: option.splits)

lemma merge_dated:
  assumes "dates_conditions put" "dated persisted"
  shows "dated (mergeConditions put persisted ds)"
proof -
  have "dated (firstCanonical [] persisted)" using assms(2) firstCanonical_subset[of "[]" persisted] by (auto simp: dated_def)
  then have "dated (fold put ds (firstCanonical [] persisted))" by (rule fold_put_dated[OF assms(1)])
  then show ?thesis
    using map_filter_byType by (fastforce simp: mergeConditions_def Let_def dated_def)
qed

lemma stamped_untime:
  assumes "stamped d old c"
  shows "untime c = untime d"
proof -
  have "c = d\<lparr>cd_lastTransitionTime := cd_lastTransitionTime c\<rparr>" using assms by (simp add: stamped_def)
  then have "untime c = untime (d\<lparr>cd_lastTransitionTime := cd_lastTransitionTime c\<rparr>)" by (rule arg_cong)
  then show ?thesis by simp
qed

lemma stamped_list_untime: "list_all2 (\<lambda>d c. stamped d (f d) c) ds cs \<Longrightarrow> map untime cs = map untime ds"
  by (induction rule: list_all2_induct) (auto dest: stamped_untime)

lemma merge_untimed:
  assumes "sets_condition put" "map cd_type ds = canonicalConditionOrder"
  shows "map untime (mergeConditions put persisted ds) = map untime ds @ map untime (others persisted)"
  using merge_conditions[OF assms, of persisted] stamped_list_untime by fastforce

lemma compose_dated:
  assumes "Compose hash put generation persisted ev = Inr st" "dates_conditions put" "dated persisted"
  shows "dated (st_conditions st)"
  using assms(1) merge_dated[OF assms(2,3)] by (auto simp: Compose_def res_simps split: option.splits if_splits sum.splits)

lemma compose_others:
  assumes "Compose hash put generation persisted ev = Inr st" "sets_condition put"
  shows "others (st_conditions st) = others persisted"
proof -
  obtain ds cs where c: "conditions_for generation ev ds" "st_conditions st = cs @ others persisted"
    "list_all2 (\<lambda>d c. stamped d (of_type (cd_type d) persisted) c) ds cs" using compose_conditions[OF assms] by blast
  then have "map cd_type cs = canonicalConditionOrder" using stamped_list_types[OF c(3)] by (simp add: conditions_for_def)
  then have "others cs = []" unfolding filter_empty_conv isCanonicalCondition_def by (metis image_eqI list.set_map)
  then show ?thesis using c(2) by simp
qed

text \<open>Composing over persisted conditions with the same foreign ones gives the same status up to transition times.\<close>

lemma compose_retimed:
  assumes put: "sets_condition put" "sets_condition put'" and st: "Compose hash put generation persisted ev = Inr st"
    and same: "others persisted' = others persisted"
  obtains st' where "Compose hash put' generation persisted' ev = Inr st'" "untimed st' = untimed st"
proof -
  have v: "validateEvaluation ev = None" "\<not> generation < 0" using st by (auto simp: Compose_def split: if_splits option.splits)
  have again: "map untime (mergeConditions put' persisted' ds) = map untime (mergeConditions put persisted ds)" if "conditions_for generation ev ds" for ds
    using merge_untimed[OF put(1)] merge_untimed[OF put(2)] that same by (simp add: conditions_for_def)
  consider "ev_configurationBudgetExceeded ev" | "\<not> ev_configurationBudgetExceeded ev" "ev_resultLimitExceeded ev"
    | derived where "\<not> ev_configurationBudgetExceeded ev" "\<not> ev_resultLimitExceeded ev" "DeriveResult hash (ev_result ev) = Inr derived"
    using st v by (cases "DeriveResult hash (ev_result ev)") (auto simp: Compose_def split: if_splits)
  then show ?thesis
  proof cases
    case 1
    show ?thesis using that again[OF budget_conditions_for[OF v(1) 1]] 1 st v by (auto simp: Compose_def untimed_def)
  next
    case 2
    show ?thesis using that again[OF limit_conditions_for[OF v(1) 2]] 2 st v by (auto simp: Compose_def untimed_def)
  next
    case (3 derived)
    show ?thesis using that again[OF desired_conditions_for[OF v(1) 3]] 3 st v by (auto simp: Compose_def untimed_def)
  qed
qed

lemma bounded_again:
  assumes put: "sets_condition put" "sets_condition put'" "dates_conditions put" "dates_conditions put'"
    and size: "sized_without_times encodedSize" and old: "dated persisted"
    and st: "composeBoundedStatus hash put encodedSize maxBytes generation persisted ev = Inr st"
  shows "composeBoundedStatus hash put' encodedSize maxBytes generation (st_conditions st) ev = Inr st"
proof -
  have fits: "maxBytes > 0" "fits_status encodedSize maxBytes st" using st unfolding composeBounded_exact by simp_all
  consider "Compose hash put generation persisted ev = Inr st"
    | full n where "Compose hash put generation persisted ev = Inr full" "encodedSize full = Some n" "n > maxBytes"
      "\<not> ev_configurationBudgetExceeded ev" "Compose hash put generation persisted (compact_evaluation ev) = Inr st"
    using st unfolding composeBounded_exact by blast
  then show ?thesis
  proof cases
    case 1
    then show ?thesis using fits compose_again[OF put(1,2)] unfolding composeBounded_exact by blast
  next
    case (2 full n)
    obtain full' where full': "Compose hash put' generation (st_conditions st) ev = Inr full'" "untimed full' = untimed full"
      by (rule compose_retimed[OF put(1,2) 2(1) compose_others[OF 2(5) put(1)]])
    have "dated (st_conditions st)" by (rule compose_dated[OF 2(5) put(3) old])
    then have "dated (st_conditions full')" "dated (st_conditions full)"
      using compose_dated[OF full'(1) put(4)] compose_dated[OF 2(1) put(3) old] by simp_all
    then have "encodedSize full' = Some n" using size full'(2) 2(2) unfolding sized_without_times_def by metis
    moreover have "Compose hash put' generation (st_conditions st) (compact_evaluation ev) = Inr st"
      by (rule compose_again[OF put(1,2) 2(5)])
    ultimately show ?thesis using fits full'(1) 2(3,4) unfolding composeBounded_exact by blast
  qed
qed

lemma set_status_condition_dates: "now \<noteq> 0 \<Longrightarrow> dates_conditions (set_status_condition now)"
proof -
  assume "now \<noteq> 0"
  then have "dated (set_status_condition now c cs)" if "dated cs" for c cs using that by (induction cs) (auto simp: dated_def)
  then show ?thesis by (simp add: dates_conditions_def)
qed

section \<open>Properties\<close>

text \<open>C3: a publication hands at most one object to the status writer, and only when the object read back is not being deleted and has the UID
  and generation of the lease, the lease was current after that read and again right before the write, and the context was still open.
  The object differs from the one read in its status alone, that status is within the configured size and semantically new.  Its
  conditions are those of the evaluation, or of its compact form when the full status does not fit; transition times
  and conditions of other owners are kept.\<close>

theorem Publish_write_safe:
  assumes "sets_condition put" and "w \<in> set (pb_writes (Publish hash put encodedSize p env lease ev))"
  shows "pb_writes (Publish hash put encodedSize p env lease ev) = [w] \<and>
    (\<exists>current ev' ds cs. pe_get env = Inr current \<and> \<not> cf_deleting current \<and> cf_uid current = ls_uid lease \<and> cf_generation current = ls_generation lease \<and>
       lease_current (pe_trackerRead env) lease \<and> lease_current (pe_trackerWrite env) lease \<and> pe_ctxWrite env = None \<and>
       w = current\<lparr>cf_status := cf_status w\<rparr> \<and> \<not> SemanticallyEqualStatus (cf_status current) (cf_status w) \<and>
       fits_status encodedSize (sp_maxStatusBytes p) (cf_status w) \<and>
       (ev' = ev \<or> ev' = compact_evaluation ev \<and> (\<exists>full. Compose hash put (ls_generation lease) (st_conditions (cf_status current)) ev = Inr full \<and>
          \<not> fits_status encodedSize (sp_maxStatusBytes p) full)) \<and>
       conditions_for (ls_generation lease) ev' ds \<and> st_conditions (cf_status w) = cs @ others (st_conditions (cf_status current)) \<and>
       list_all2 (\<lambda>d c. stamped d (of_type (cd_type d) (st_conditions (cf_status current))) c) ds cs \<and>
       st_observedGeneration (cf_status w) = ls_generation lease \<and> st_result (cf_status w) = ev_result ev')"
proof -
  obtain current st where g: "pe_get env = Inr current" "\<not> cf_deleting current" "cf_uid current = ls_uid lease" "cf_generation current = ls_generation lease"
    "lease_current (pe_trackerRead env) lease" "lease_current (pe_trackerWrite env) lease" "pe_ctxWrite env = None"
    "\<not> SemanticallyEqualStatus (cf_status current) st" and w: "w = current\<lparr>cf_status := st\<rparr>"
    and c: "composeBoundedStatus hash put encodedSize (sp_maxStatusBytes p) (ls_generation lease) (st_conditions (cf_status current)) ev = Inr st"
    using assms(2) unfolding publish_writes by blast
  have one: "pb_writes (Publish hash put encodedSize p env lease ev) = [w]"
    using publish_at_most_once[of hash put encodedSize p env lease ev] assms(2)
    by (cases "pb_writes (Publish hash put encodedSize p env lease ev)") auto
  have f: "fits_status encodedSize (sp_maxStatusBytes p) st" using c composeBounded_exact by blast
  obtain ev' where e: "Compose hash put (ls_generation lease) (st_conditions (cf_status current)) ev' = Inr st"
    "ev' = ev \<or> ev' = compact_evaluation ev \<and> (\<exists>full. Compose hash put (ls_generation lease) (st_conditions (cf_status current)) ev = Inr full \<and>
       \<not> fits_status encodedSize (sp_maxStatusBytes p) full)"
    using c unfolding composeBounded_exact by (auto simp: fits_status_def split: option.splits)
  obtain ds cs where d: "conditions_for (ls_generation lease) ev' ds" "st_conditions st = cs @ others (st_conditions (cf_status current))"
    "list_all2 (\<lambda>d c. stamped d (of_type (cd_type d) (st_conditions (cf_status current))) c) ds cs"
    "st_observedGeneration st = ls_generation lease" "st_result st = ev_result ev'"
    using compose_conditions[OF e(1) assms(1)] by blast
  have s: "cf_status w = st" "w = current\<lparr>cf_status := cf_status w\<rparr>" using w by simp_all
  show ?thesis using one g f e(2) d s(2) unfolding s(1) by blast
qed

text \<open>A reconciled Facet of generation 1 whose status is still empty, and a tracker that has leased it.\<close>

definition pub_lease :: Lease where
  "pub_lease = \<lparr>ls_key = \<lparr>nn_namespace = ''ns'', nn_name = ''f''\<rparr>, ls_uid = ''u'', ls_generation = 1, ls_policyEpoch = 0\<rparr>"

definition pub_tracker :: FreshnessTracker where
  "pub_tracker = fst (Acquire NewFreshnessTracker (ls_key pub_lease) ''u'' 1)"

definition pub_env :: "FacetStatus \<Rightarrow> PublishEnv" where
  "pub_env st = \<lparr>pe_ctxStart = None, pe_trackerStart = Some pub_tracker,
     pe_get = Inr \<lparr>cf_uid = ''u'', cf_generation = 1, cf_deleting = False, cf_status = st\<rparr>, pe_ctxRead = None, pe_trackerRead = Some pub_tracker,
     pe_ctxWrite = None, pe_trackerWrite = Some pub_tracker, pe_update = (\<lambda>_. None)\<rparr>"

definition pub_publisher :: StatusPublisher where
  "pub_publisher = NewStatusPublisher True True [Some (WithStatusObserver True), None]"

abbreviation pub_evaluation :: Evaluation where
  "pub_evaluation \<equiv> empty_evaluation\<lparr>ev_result := Some []\<rparr>"

lemma pub_current: "lease_current (Some pub_tracker) pub_lease"
  by (simp add: lease_current_def IsLeaseCurrent_def pub_tracker_def Acquire_def ensureState_def NewFreshnessTracker_def pub_lease_def Let_def)

lemma pub_composed:
  obtains st where "Compose (\<lambda>_. Some ''h'') (set_status_condition 9) 1 [] pub_evaluation = Inr st" "st_resultHash st = ''h''"
proof -
  have "(case Compose (\<lambda>_. Some ''h'') (set_status_condition 9) 1 [] pub_evaluation of Inl _ \<Rightarrow> False | Inr st \<Rightarrow> st_resultHash st = ''h'')" by code_simp
  then show ?thesis using that by (auto split: sum.splits)
qed

lemma pub_publishes:
  assumes "Compose (\<lambda>_. Some ''h'') (set_status_condition 9) 1 [] pub_evaluation = Inr st" "st_resultHash st = ''h''"
  shows "pb_writes (Publish (\<lambda>_. Some ''h'') (set_status_condition 9) (\<lambda>_. Some 10) pub_publisher (pub_env (empty_status 0)) pub_lease pub_evaluation) =
    [\<lparr>cf_uid = ''u'', cf_generation = 1, cf_deleting = False, cf_status = st\<rparr>]"
proof -
  have p: "sp_reader pub_publisher" "sp_writer pub_publisher" "sp_maxStatusBytes pub_publisher = 524288"
    by (simp_all add: pub_publisher_def NewStatusPublisher_def WithStatusObserver_def DefaultMaxStatusBytes_def)
  have "composeBoundedStatus (\<lambda>_. Some ''h'') (set_status_condition 9) (\<lambda>_. Some 10) (sp_maxStatusBytes pub_publisher) 1 [] pub_evaluation = Inr st"
    unfolding composeBounded_exact p fits_status_def using assms(1) by simp
  moreover have "\<not> SemanticallyEqualStatus (empty_status 0) st"
    using assms(2) by (simp add: SemanticallyEqualStatus_def ProjectStatus_def empty_status_def)
  moreover have "ls_uid pub_lease = ''u''" "ls_generation pub_lease = 1" "st_conditions (empty_status 0) = []"
    by (simp_all add: pub_lease_def empty_status_def)
  ultimately show ?thesis using p(1,2) pub_current by (simp add: Publish_def publishComposed_def pub_env_def Let_def)
qed

theorem Publish_write_safe_witness:
  "\<exists>w. pb_writes (Publish (\<lambda>_. Some ''h'') (set_status_condition 9) (\<lambda>_. Some 10) pub_publisher (pub_env (empty_status 0)) pub_lease pub_evaluation) = [w] \<and>
     st_observedGeneration (cf_status w) = 1 \<and> fits_status (\<lambda>_. Some 10) (sp_maxStatusBytes pub_publisher) (cf_status w)"
proof -
  obtain st where st: "Compose (\<lambda>_. Some ''h'') (set_status_condition 9) 1 [] pub_evaluation = Inr st" "st_resultHash st = ''h''" by (rule pub_composed)
  let ?w = "\<lparr>cf_uid = ''u'', cf_generation = 1, cf_deleting = False, cf_status = st\<rparr>"
  have m: "?w \<in> set (pb_writes (Publish (\<lambda>_. Some ''h'') (set_status_condition 9) (\<lambda>_. Some 10) pub_publisher (pub_env (empty_status 0)) pub_lease
    pub_evaluation))" unfolding pub_publishes[OF st] by simp
  note safe = Publish_write_safe[OF set_status_condition_sets m]
  have g: "ls_generation pub_lease = 1" by (simp add: pub_lease_def)
  show ?thesis using safe unfolding g by blast
qed

text \<open>C6: publication converges: after a successful write, of the full status or of the compact one that replaces a status too large to
  publish, the next publication of the same evaluation for the same lease reads that object back and writes nothing, whatever time
  it runs at.\<close>

theorem republish_writes_nothing:
  assumes "sets_condition put" and "sets_condition put'" and "dates_conditions put" and "dates_conditions put'"
    and "sized_without_times encodedSize"
    and "pe_get env = Inr current" and "dated (st_conditions (cf_status current))"
    and "pb_writes (Publish hash put encodedSize p env lease ev) = [w]"
    and "pe_get env' = Inr w" and "pe_ctxStart env' = None"
    and "lease_current (pe_trackerStart env') lease" and "lease_current (pe_trackerRead env') lease"
  shows "pb_writes (Publish hash put' encodedSize p env' lease ev) = [] \<and> pb_err (Publish hash put' encodedSize p env' lease ev) = None"
proof -
  have "w \<in> set (pb_writes (Publish hash put encodedSize p env lease ev))" using assms(8) by simp
  then obtain st where g: "sp_reader p" "sp_writer p" "\<not> cf_deleting current" "cf_uid current = ls_uid lease" "cf_generation current = ls_generation lease"
    and w: "w = current\<lparr>cf_status := st\<rparr>"
    and c: "composeBoundedStatus hash put encodedSize (sp_maxStatusBytes p) (ls_generation lease) (st_conditions (cf_status current)) ev = Inr st"
    unfolding publish_writes using assms(6) by auto
  have "composeBoundedStatus hash put' encodedSize (sp_maxStatusBytes p) (ls_generation lease) (st_conditions (cf_status w)) ev = Inr (cf_status w)"
    using bounded_again[OF assms(1-5,7) c] w by simp
  moreover have "\<not> cf_deleting w" "cf_uid w = ls_uid lease" "cf_generation w = ls_generation lease" using g w by simp_all
  ultimately show ?thesis using g(1,2) assms(9-12)
    by (simp add: Publish_def publishComposed_def SemanticallyEqualStatus_def Let_def)
qed

text \<open>A result too large to publish: the compact status is written once.\<close>

definition pub_size :: "FacetStatus \<Rightarrow> int option" where
  "pub_size st = Some (if st_result st = None then 10 else 1000000)"

lemma pub_size_untimed: "sized_without_times pub_size"
proof -
  have "pub_size a = pub_size b" if "untimed a = untimed b" for a b
    using arg_cong[OF that, of st_result] by (simp add: untimed_def pub_size_def)
  then show ?thesis unfolding sized_without_times_def by blast
qed

abbreviation pub_compact :: "int \<Rightarrow> FacetStatus \<Rightarrow> Publication" where
  "pub_compact now st \<equiv> Publish (\<lambda>_. Some ''h'') (set_status_condition now) pub_size pub_publisher (pub_env st) pub_lease pub_evaluation"

theorem republish_writes_nothing_witness:
  "\<exists>w. pb_writes (pub_compact 9 (empty_status 0)) = [w] \<and> st_result (cf_status w) = None \<and>
     statusContainsReason (st_conditions (cf_status w)) ''ResultLimitExceeded'' \<and>
     pb_writes (pub_compact 20 (cf_status w)) = []"
proof -
  obtain full where full: "Compose (\<lambda>_. Some ''h'') (set_status_condition 9) 1 [] pub_evaluation = Inr full" by (rule pub_composed)
  have "(case Compose (\<lambda>_. Some ''h'') (set_status_condition 9) 1 [] (compact_evaluation pub_evaluation) of
      Inl _ \<Rightarrow> False | Inr st \<Rightarrow> statusContainsReason (st_conditions st) ''ResultLimitExceeded'')" by code_simp
  then obtain st where st: "Compose (\<lambda>_. Some ''h'') (set_status_condition 9) 1 [] (compact_evaluation pub_evaluation) = Inr st"
    "statusContainsReason (st_conditions st) ''ResultLimitExceeded''" by (auto split: sum.splits)
  have none: "st_result st = None" "st_result full = Some []" "st_observedGeneration st = 1"
    using compose_conditions[OF st(1) set_status_condition_sets] compose_conditions[OF full set_status_condition_sets] by auto
  have c: "composeBoundedStatus (\<lambda>_. Some ''h'') (set_status_condition 9) pub_size (sp_maxStatusBytes pub_publisher) 1 [] pub_evaluation = Inr st"
    unfolding composeBounded_exact using full st(1) none
    by (simp add: fits_status_def pub_size_def pub_publisher_def NewStatusPublisher_def WithStatusObserver_def DefaultMaxStatusBytes_def empty_evaluation_def)
  have new: "\<not> SemanticallyEqualStatus (empty_status 0) st"
    using none(3) by (simp add: SemanticallyEqualStatus_def ProjectStatus_def empty_status_def)
  let ?w = "\<lparr>cf_uid = ''u'', cf_generation = 1, cf_deleting = False, cf_status = st\<rparr>"
  have p: "sp_reader pub_publisher" "sp_writer pub_publisher"
    by (simp_all add: pub_publisher_def NewStatusPublisher_def WithStatusObserver_def)
  have l: "ls_uid pub_lease = ''u''" "ls_generation pub_lease = 1" "st_conditions (empty_status 0) = []"
    by (simp_all add: pub_lease_def empty_status_def)
  have wr: "pb_writes (pub_compact 9 (empty_status 0)) = [?w]"
    using p l pub_current c new by (simp add: Publish_def publishComposed_def pub_env_def Let_def)
  have old: "pe_get (pub_env (empty_status 0)) = Inr \<lparr>cf_uid = ''u'', cf_generation = 1, cf_deleting = False, cf_status = empty_status 0\<rparr>"
    "dated (st_conditions (cf_status \<lparr>cf_uid = ''u'', cf_generation = 1, cf_deleting = False, cf_status = empty_status 0\<rparr>))"
    by (simp_all add: pub_env_def dated_def empty_status_def)
  have e: "pe_get (pub_env st) = Inr ?w" "pe_ctxStart (pub_env st) = None"
    "lease_current (pe_trackerStart (pub_env st)) pub_lease" "lease_current (pe_trackerRead (pub_env st)) pub_lease"
    using pub_current by (simp_all add: pub_env_def)
  have dates: "dates_conditions (set_status_condition 9)" "dates_conditions (set_status_condition 20)"
    by (simp_all add: set_status_condition_dates)
  have "pb_writes (pub_compact 20 st) = []"
    using republish_writes_nothing[OF set_status_condition_sets set_status_condition_sets dates pub_size_untimed old wr e] by blast
  then show ?thesis using wr st(2) none(1) by (intro exI[of _ ?w]) simp
qed

end
