(* ===== verification/Admission.thy ===== *)
theory Admission
  imports Aggregation Discovery
begin

text \<open>
  Admission of proposed objects, \<^verbatim>\<open>src/internal/admission\<close>: the budgets (\<^verbatim>\<open>budgets.go\<close>), the checks that need no cluster
  (\<^verbatim>\<open>semantic.go\<close>), the staged validator with current discovery and policy (\<^verbatim>\<open>validator.go\<close>), the ordered issues
  (\<^verbatim>\<open>contracts.go\<close>) and the status of a refusal (\<^verbatim>\<open>webhook.go\<close>).  The validators of the other components are the ones that
  evaluation runs.  The lengths of the JSON encodings, the Kubernetes name grammars, the API version parser and the selector
  parsers are parameters.  A Facet is its namespace and its sources.
\<close>

section \<open>Issues\<close>

datatype Class = Invalid | Forbidden | Unavailable

fun class_text :: "Class \<Rightarrow> string" where
  "class_text Invalid = ''Invalid''"
| "class_text Forbidden = ''Forbidden''"
| "class_text Unavailable = ''ValidationUnavailable''"

record Issue =
  is_path :: string
  is_reason :: string
  is_message :: string
  is_class :: Class

definition invalidIssue :: "string \<Rightarrow> string \<Rightarrow> string \<Rightarrow> Issue" where
  "invalidIssue path reason message = \<lparr>is_path = path, is_reason = reason, is_message = message, is_class = Invalid\<rparr>"

definition admissionIssue_less :: "Issue \<Rightarrow> Issue \<Rightarrow> bool" where
  "admissionIssue_less a b =
    (if is_path a \<noteq> is_path b then is_path a < is_path b
     else if is_reason a \<noteq> is_reason b then is_reason a < is_reason b
     else if is_message a \<noteq> is_message b then is_message a < is_message b
     else class_text (is_class a) < class_text (is_class b))"

definition SortIssues :: "Issue list \<Rightarrow> Issue list" where
  "SortIssues issues = sort_by admissionIssue_less issues"

definition result :: "Issue list \<Rightarrow> Issue list" where
  "result issues = SortIssues issues"

definition Result_Valid :: "Issue list \<Rightarrow> bool" where
  "Result_Valid r \<longleftrightarrow> r = []"

text \<open>\<open>None\<close> is the empty class.\<close>

fun Result_Class :: "Class option \<Rightarrow> Issue list \<Rightarrow> Class option" where
  "Result_Class c [] = c"
| "Result_Class c (i # is) =
    (case is_class i of
       Invalid \<Rightarrow> Some Invalid
     | Forbidden \<Rightarrow> Result_Class (Some Forbidden) is
     | Unavailable \<Rightarrow> Result_Class (if c = None then Some Unavailable else c) is)"

section \<open>Budgets\<close>

definition AdmLimitsFromProfile :: "Profile \<Rightarrow> AdmissionBudgets" where
  "AdmLimitsFromProfile p = admission p"

definition AdmDefaultLimits :: AdmissionBudgets where
  "AdmDefaultLimits = AdmLimitsFromProfile DefaultProfile"

definition AdmNormalizeLimits :: "AdmissionBudgets \<Rightarrow> AdmissionBudgets" where
  "AdmNormalizeLimits input =
    (let d = AdmDefaultLimits; pick = (\<lambda>f. if f input \<le> (0 :: int) then f d else f input) in
     \<lparr>MaxFacetSources = pick MaxFacetSources, MaxSourceNamespaces = pick MaxSourceNamespaces, MaxSourceFields = pick MaxSourceFields,
      MaxFieldOperators = pick MaxFieldOperators, MaxOperatorValues = pick MaxOperatorValues,
      MaxSourceAggregations = pick MaxSourceAggregations, MaxAggregationGroupBy = pick MaxAggregationGroupBy,
      MaxSelectorMatchExpressions = pick MaxSelectorMatchExpressions, MaxSelectorExpressionValues = pick MaxSelectorExpressionValues,
      MaxSelectorMatchLabels = pick MaxSelectorMatchLabels, MaxPolicyNamespaceNames = pick MaxPolicyNamespaceNames,
      MaxPolicyResourceRules = pick MaxPolicyResourceRules, MaxPolicyAPIGroups = pick MaxPolicyAPIGroups, MaxPolicyKinds = pick MaxPolicyKinds,
      MaxFacetSpecBytes = pick MaxFacetSpecBytes, MaxAccessPolicySpecBytes = pick MaxAccessPolicySpecBytes\<rparr>)"

text \<open>The budget validator shared with reconciliation; \<open>None\<close> is the nil validator.\<close>

definition NewBudgetValidator :: "AdmissionBudgets \<Rightarrow> AdmissionBudgets option" where
  "NewBudgetValidator lims = Some (AdmNormalizeLimits lims)"

definition BudgetValidator_Limits :: "AdmissionBudgets option \<Rightarrow> AdmissionBudgets" where
  "BudgetValidator_Limits v = (case v of None \<Rightarrow> AdmDefaultLimits | Some lims \<Rightarrow> lims)"

record BudgetIssue =
  bi_path :: string
  bi_reason :: string
  bi_message :: string

definition at_index :: "string \<Rightarrow> nat \<Rightarrow> string" where
  "at_index path i = path @ ''['' @ show_nat i @ '']''"

definition cardinalityIssue :: "string \<Rightarrow> nat \<Rightarrow> int \<Rightarrow> BudgetIssue list" where
  "cardinalityIssue path size_of limit =
    (if int size_of \<le> limit then []
     else [\<lparr>bi_path = path @ ''['' @ show_int limit @ '']'', bi_reason = ''ConfigurationBudgetExceeded'',
            bi_message = ''must contain at most '' @ show_int limit @ '' entries''\<rparr>])"

definition specSizeIssue :: "string \<Rightarrow> int option \<Rightarrow> int \<Rightarrow> BudgetIssue list" where
  "specSizeIssue path encoded limit =
    (case encoded of
       None \<Rightarrow> [\<lparr>bi_path = path, bi_reason = ''ConfigurationBudgetExceeded'', bi_message = ''cannot be encoded within the configuration budget''\<rparr>]
     | Some n \<Rightarrow>
        if n \<le> limit then []
        else [\<lparr>bi_path = path, bi_reason = ''ConfigurationBudgetExceeded'',
               bi_message = ''canonical JSON encoding must be at most '' @ show_int limit @ '' bytes''\<rparr>])"

definition indexed :: "'a list \<Rightarrow> ('a \<times> nat) list" where
  "indexed xs = zip xs [0..<length xs]"

definition fieldBudgets :: "AdmissionBudgets \<Rightarrow> string \<Rightarrow> FacetField \<times> nat \<Rightarrow> BudgetIssue list" where
  "fieldBudgets lims prefix x = (case x of (f, i) \<Rightarrow>
     let fieldPrefix = at_index (prefix @ ''.fields'') i in
     cardinalityIssue (fieldPrefix @ ''.operators'') (length (ff_operators f)) (MaxFieldOperators lims) @
     concat (map (\<lambda>(op, j). cardinalityIssue (at_index (fieldPrefix @ ''.operators'') j @ ''.values'') (length (fo_values op)) (MaxOperatorValues lims))
       (indexed (ff_operators f))))"

definition selectorBudgets :: "AdmissionBudgets \<Rightarrow> string \<Rightarrow> ResourceSelector option \<Rightarrow> BudgetIssue list" where
  "selectorBudgets lims prefix selector = (case selector of
      None \<Rightarrow> []
    | Some s \<Rightarrow>
       cardinalityIssue (prefix @ ''.selector.matchExpressions'') (length (rs_matchExpressions s)) (MaxSelectorMatchExpressions lims) @
       cardinalityIssue (prefix @ ''.selector.matchLabels'') (length (rs_matchLabels s)) (MaxSelectorMatchLabels lims) @
       concat (map (\<lambda>(e, j). cardinalityIssue (at_index (prefix @ ''.selector.matchExpressions'') j @ ''.values'') (length (lsr_values e))
           (MaxSelectorExpressionValues lims)) (indexed (rs_matchExpressions s))))"

definition sourceBudgets :: "AdmissionBudgets \<Rightarrow> FacetSource \<times> nat \<Rightarrow> BudgetIssue list" where
  "sourceBudgets lims x = (case x of (s, i) \<Rightarrow>
     let prefix = at_index ''spec.sources'' i in
     (case fs_namespaces s of None \<Rightarrow> [] | Some names \<Rightarrow> cardinalityIssue (prefix @ ''.namespaces.names'') (length names) (MaxSourceNamespaces lims)) @
     cardinalityIssue (prefix @ ''.fields'') (length (fs_fields s)) (MaxSourceFields lims) @
     concat (map (fieldBudgets lims prefix) (indexed (fs_fields s))) @
     cardinalityIssue (prefix @ ''.aggregations'') (length (fs_aggregations s)) (MaxSourceAggregations lims) @
     concat (map (\<lambda>(a, j). cardinalityIssue (at_index (prefix @ ''.aggregations'') j @ ''.groupBy'') (length (fa_groupBy a)) (MaxAggregationGroupBy lims))
       (indexed (fs_aggregations s))) @
     selectorBudgets lims prefix (fs_selector s))"

definition ValidateFacetBudgetsWithLimits :: "(FacetSource list \<Rightarrow> int option) \<Rightarrow> AdmissionBudgets \<Rightarrow> FacetSource list option \<Rightarrow> BudgetIssue list" where
  "ValidateFacetBudgetsWithLimits encodedSize input object = (case object of
      None \<Rightarrow> []
    | Some sources \<Rightarrow>
       let lims = AdmNormalizeLimits input in
       cardinalityIssue ''spec.sources'' (length sources) (MaxFacetSources lims) @
       concat (map (sourceBudgets lims) (indexed sources)) @
       specSizeIssue ''spec'' (encodedSize sources) (MaxFacetSpecBytes lims))"

definition ValidateAccessPolicyBudgetsWithLimits ::
  "(FacetAccessPolicy \<Rightarrow> int option) \<Rightarrow> AdmissionBudgets \<Rightarrow> FacetAccessPolicy option \<Rightarrow> BudgetIssue list" where
  "ValidateAccessPolicyBudgetsWithLimits encodedSize input object = (case object of
      None \<Rightarrow> []
    | Some p \<Rightarrow>
       let lims = AdmNormalizeLimits input; ns = fap_namespaces p in
       cardinalityIssue ''spec.namespaces.include'' (length (np_include ns)) (MaxPolicyNamespaceNames lims) @
       cardinalityIssue ''spec.namespaces.exclude'' (length (np_exclude ns)) (MaxPolicyNamespaceNames lims) @
       cardinalityIssue ''spec.namespaces.systemNamespaces'' (case np_systemNamespaces ns of None \<Rightarrow> 0 | Some xs \<Rightarrow> length xs) (MaxPolicyNamespaceNames lims) @
       cardinalityIssue ''spec.resources'' (length (fap_resources p)) (MaxPolicyResourceRules lims) @
       concat (map (\<lambda>(r, i).
         cardinalityIssue (at_index ''spec.resources'' i @ ''.apiGroups'') (length (rr_apiGroups r)) (MaxPolicyAPIGroups lims) @
         cardinalityIssue (at_index ''spec.resources'' i @ ''.kinds'') (length (rr_kinds r)) (MaxPolicyKinds lims)) (indexed (fap_resources p))) @
       specSizeIssue ''spec'' (encodedSize p) (MaxAccessPolicySpecBytes lims))"

definition BudgetValidator_ValidateFacet ::
  "(FacetSource list \<Rightarrow> int option) \<Rightarrow> AdmissionBudgets option \<Rightarrow> FacetSource list option \<Rightarrow> BudgetIssue list" where
  "BudgetValidator_ValidateFacet encodedSize v object = ValidateFacetBudgetsWithLimits encodedSize (BudgetValidator_Limits v) object"

definition BudgetValidator_ValidateAccessPolicy ::
  "(FacetAccessPolicy \<Rightarrow> int option) \<Rightarrow> AdmissionBudgets option \<Rightarrow> FacetAccessPolicy option \<Rightarrow> BudgetIssue list" where
  "BudgetValidator_ValidateAccessPolicy encodedSize v object = ValidateAccessPolicyBudgetsWithLimits encodedSize (BudgetValidator_Limits v) object"

section \<open>Semantics\<close>

definition validateSourceIdentity :: "K8sValidation \<Rightarrow> SchemaLib \<Rightarrow> string \<Rightarrow> FacetSource \<Rightarrow> Issue list" where
  "validateSourceIdentity k schema prefix s =
    (if fs_id s = [] \<or> length (fs_id s) > 63 \<or> \<not> isDNS1123Label k (fs_id s)
     then [invalidIssue (prefix @ ''.id'') ''InvalidSourceID'' ''source id must be a valid DNS-1123 label''] else []) @
    (let v = ref_apiVersion (fs_resource s) in
     if trimmed_empty v
     then [invalidIssue (prefix @ ''.resource.apiVersion'') ''InvalidAPIVersion'' ''apiVersion must be a non-empty Kubernetes group-version'']
     else if (case ParseGroupVersion schema v of None \<Rightarrow> True | Some gv \<Rightarrow> gv_version gv = [])
     then [invalidIssue (prefix @ ''.resource.apiVersion'') ''InvalidAPIVersion'' ''apiVersion must be a valid Kubernetes group-version'']
     else []) @
    (if ref_kind (fs_resource s) = [] \<or> \<not> kindPattern (ref_kind (fs_resource s))
     then [invalidIssue (prefix @ ''.resource.kind'') ''InvalidKind'' ''Kind must be a valid CamelCase Kubernetes identifier''] else [])"

text \<open>The index of the first declaration of each name seen so far is the value of \<open>seen\<close>.\<close>

fun validateNames :: "K8sValidation \<Rightarrow> string \<Rightarrow> (string \<times> nat) list \<Rightarrow> (string \<times> nat) list \<Rightarrow> Issue list" where
  "validateNames k prefix seen [] = []"
| "validateNames k prefix seen ((n, i) # rest) =
    (let path = at_index (prefix @ ''.namespaces.names'') i in
     (case lookup seen n of
        Some previous \<Rightarrow> [invalidIssue path ''DuplicateNamespace'' (''namespace must be unique; first declared at index '' @ show_nat previous)]
      | None \<Rightarrow> []) @
     (if \<not> isDNS1123Label k n then [invalidIssue path ''InvalidNamespace'' ''namespace must be a valid DNS-1123 label''] else []) @
     validateNames k prefix (if lookup seen n = None then (n, i) # seen else seen) rest)"

definition validateNamespaces :: "K8sValidation \<Rightarrow> string \<Rightarrow> FacetSource \<Rightarrow> Issue list" where
  "validateNamespaces k prefix s = (case fs_namespaces s of None \<Rightarrow> [] | Some names \<Rightarrow> validateNames k prefix [] (indexed names))"

definition validateSelector :: "K8sValidation \<Rightarrow> 'f SelectorLib \<Rightarrow> string \<Rightarrow> FacetSource \<Rightarrow> Issue list" where
  "validateSelector k lib prefix s = (case fs_selector s of
      None \<Rightarrow> []
    | Some sel \<Rightarrow>
       (if rs_name sel \<noteq> [] \<and> \<not> isDNS1123Subdomain k (rs_name sel)
        then [invalidIssue (prefix @ ''.selector.name'') ''InvalidResourceName'' ''name must be a valid Kubernetes resource-name path segment''] else []) @
       (if sel_label lib (rs_matchLabels sel) (rs_matchExpressions sel) = None
        then [invalidIssue (prefix @ ''.selector'') ''InvalidLabelSelector'' ''label selector is invalid under Kubernetes selector rules''] else []) @
       (if sel_parse_field lib (rs_fieldSelector sel) = None
        then [invalidIssue (prefix @ ''.selector.fieldSelector'') ''InvalidFieldSelector'' ''field selector is invalid under Kubernetes selector rules'']
        else []))"

fun duplicateNames :: "(string \<Rightarrow> nat \<Rightarrow> nat \<Rightarrow> Issue) \<Rightarrow> (string \<times> nat) list \<Rightarrow> (string \<times> nat) list \<Rightarrow> Issue list" where
  "duplicateNames issue seen [] = []"
| "duplicateNames issue seen ((n, i) # rest) =
    (case lookup seen n of
       Some previous \<Rightarrow> issue n i previous # duplicateNames issue seen rest
     | None \<Rightarrow> duplicateNames issue ((n, i) # seen) rest)"

definition firstIndex :: "('a \<Rightarrow> string) \<Rightarrow> 'a list \<Rightarrow> string \<Rightarrow> nat" where
  "firstIndex name xs n = (case find_first (\<lambda>(x, _). name x = n) (indexed xs) of None \<Rightarrow> 0 | Some (_, i) \<Rightarrow> i)"

definition fieldIndexOf :: "FacetSource \<Rightarrow> int \<Rightarrow> string \<Rightarrow> nat" where
  "fieldIndexOf s i name = (if i < 0 \<or> i \<ge> int (length (fs_fields s)) then firstIndex ff_name (fs_fields s) name else nat i)"

definition extractionIssue :: "string \<Rightarrow> FacetSource \<Rightarrow> ExtractionError \<Rightarrow> Issue" where
  "extractionIssue prefix s e =
    (let fieldPath = at_index (prefix @ ''.fields'') (fieldIndexOf s (int (ee_fieldIndex e)) (ee_fieldName e)) in
     if str_contains (ee_message e) ''field name''
     then invalidIssue (fieldPath @ ''.name'') (ex_reason_text (ee_reason e)) ''field name must be a valid unique identifier''
     else invalidIssue (fieldPath @ ''.path'') (ex_reason_text (ee_reason e)) ''field path is invalid'')"

definition typedFieldMessage :: "ConversionErrorReason \<Rightarrow> string" where
  "typedFieldMessage r = (if r = CvMissingType then ''field type is required'' else if r = CvUnsupportedType then ''field type is unsupported''
     else ''field type is invalid'')"

definition typedIssue :: "string \<Rightarrow> FacetSource \<Rightarrow> ConversionError \<Rightarrow> Issue" where
  "typedIssue prefix s e =
     invalidIssue (at_index (prefix @ ''.fields'') (fieldIndexOf s (ce_fieldIndex e) (ce_fieldName e)) @ ''.type'')
       (cv_reason_text (ce_reason e)) (typedFieldMessage (ce_reason e))"

definition operatorMessage :: "OpReason \<Rightarrow> string" where
  "operatorMessage r =
    (if r = OpUnsupportedOperator then ''operator is not supported''
     else if r = OpIncompatibleOperator then ''operator is incompatible with field type''
     else if r = OpInvalidArity then ''operator operand arity is invalid''
     else if r = OpInvalidPattern then ''regular expression is invalid''
     else ''operator operand is invalid'')"

definition operatorIssue :: "string \<Rightarrow> FacetSource \<Rightarrow> OperatorError \<Rightarrow> Issue list" where
  "operatorIssue prefix s e =
    (if oe_operatorIndex e < 0 then []
     else
       let i = fieldIndexOf s (oe_fieldIndex e) (oe_fieldName e) in
       if i \<ge> length (fs_fields s) \<or> ff_type (fs_fields s ! i) = [] then []
       else
         let path = at_index (at_index (prefix @ ''.fields'') i @ ''.operators'') (nat (oe_operatorIndex e)) in
         [invalidIssue
            (if oe_valueIndex e \<ge> 0 then at_index (path @ ''.values'') (nat (oe_valueIndex e))
             else if oe_reason e = OpInvalidOperand then path @ ''.value'' else path @ ''.operator'')
            (op_reason_text (oe_reason e)) (operatorMessage (oe_reason e))])"

definition aggregationMessage :: "string \<Rightarrow> string" where
  "aggregationMessage reason =
    (if reason = ''duplicate-aggregate'' then ''aggregate name must be unique''
     else if reason = ''unknown-field'' then ''aggregate must reference a declared field''
     else if reason = ''incompatible-function'' then ''aggregate function is incompatible with the target field type''
     else if reason = ''invalid-average-options'' then ''average options are invalid for the aggregate function''
     else ''aggregate declaration is invalid'')"

definition aggregationIssue :: "string \<Rightarrow> FacetSource \<Rightarrow> (AggregateError, AggregatePlan) res \<Rightarrow> Issue list" where
  "aggregationIssue prefix s entry = (case entry of
      Inr _ \<Rightarrow> []
    | Inl e \<Rightarrow>
       if ae_groupByIndex e \<ge> 0 then []
       else
         let i = (if ae_aggregateIndex e < 0 \<or> ae_aggregateIndex e \<ge> int (length (fs_aggregations s))
                  then firstIndex fa_name (fs_aggregations s) (ae_aggregateName e) else nat (ae_aggregateIndex e));
             base = at_index (prefix @ ''.aggregations'') i;
             path = (if ae_reason e = ''unknown-field'' \<or> ae_reason e = ''target-field-error'' then base @ ''.field''
                     else if ae_reason e = ''incompatible-function'' then base @ ''.function''
                     else if ae_reason e = ''invalid-average-options'' then base else base @ ''.name'') in
         [invalidIssue path (ae_reason e) (aggregationMessage (ae_reason e))])"

definition supportedGroupingType :: "string \<Rightarrow> bool" where
  "supportedGroupingType t \<longleftrightarrow> t \<in> set [''string'', ''integer'', ''number'', ''boolean'', ''timestamp'', ''duration'', ''quantity'']"

fun validateGroupBy :: "(string \<Rightarrow> string option) \<Rightarrow> string \<Rightarrow> (string \<times> nat) list \<Rightarrow> (string \<times> nat) list \<Rightarrow> Issue list" where
  "validateGroupBy types prefix seen [] = []"
| "validateGroupBy types prefix seen ((g, i) # rest) =
    (let path = at_index (prefix @ ''.groupBy'') i in
     (case lookup seen g of
        Some previous \<Rightarrow> [invalidIssue path ''duplicate-group-field'' (''grouping field must be unique; first declared at index '' @ show_nat previous)]
      | None \<Rightarrow> []) @
     (case types g of
        None \<Rightarrow> [invalidIssue path ''unknown-field'' ''grouping field must reference a declared field'']
      | Some t \<Rightarrow> if \<not> supportedGroupingType t then [invalidIssue path ''unsupported-group-type'' ''grouping field type is not supported as a key''] else []) @
     validateGroupBy types prefix (if lookup seen g = None then (g, i) # seen else seen) rest)"

definition validateGroupingFields :: "string \<Rightarrow> FacetSource \<Rightarrow> Issue list" where
  "validateGroupingFields prefix s =
     concat (map (\<lambda>(a, i). validateGroupBy (fieldTypes (fs_fields s)) (at_index (prefix @ ''.aggregations'') i) [] (indexed (fa_groupBy a)))
       (indexed (fs_aggregations s)))"

definition ExtractionValidateSource :: "FacetSource \<Rightarrow> ExtractionError list" where
  "ExtractionValidateSource s = snd (CompileSourceAll s)"

definition validateSourceDeclarations :: "'q TypedLib \<Rightarrow> 'r OpLib \<Rightarrow> string \<Rightarrow> FacetSource \<Rightarrow> Issue list" where
  "validateSourceDeclarations lib rx prefix s =
     duplicateNames (\<lambda>n i previous. invalidIssue (at_index (prefix @ ''.fields'') i @ ''.name'') ''DuplicateFieldName''
         (''field name must be unique; first declared at index '' @ show_nat previous)) [] (indexed (map ff_name (fs_fields s))) @
     map (extractionIssue prefix s) (ExtractionValidateSource s) @
     map (typedIssue prefix s) (po_failures (TypedCompileSource s)) @
     concat (map (operatorIssue prefix s) (opo_failures (OpCompileSource lib rx s))) @
     concat (map (aggregationIssue prefix s) (apo_entries (PlanSource s DefaultLimits))) @
     validateGroupingFields prefix s"

record ('q, 'r, 'f) AdmissionLib =
  al_k8s :: K8sValidation
  al_schema :: SchemaLib
  al_selectors :: "'f SelectorLib"
  al_typed :: "'q TypedLib"
  al_operators :: "'r OpLib"
  al_facetSize :: "FacetSource list \<Rightarrow> int option"
  al_policySize :: "FacetAccessPolicy \<Rightarrow> int option"

definition validateOneSource :: "('q, 'r, 'f) AdmissionLib \<Rightarrow> FacetSource \<times> nat \<Rightarrow> Issue list" where
  "validateOneSource l x = (case x of (s, i) \<Rightarrow>
     let prefix = at_index ''spec.sources'' i in
     validateSourceIdentity (al_k8s l) (al_schema l) prefix s @ validateNamespaces (al_k8s l) prefix s @
     validateSelector (al_k8s l) (al_selectors l) prefix s @ validateSourceDeclarations (al_typed l) (al_operators l) prefix s)"

text \<open>An empty identifier is never remembered.\<close>

fun validateSourceList :: "('q, 'r, 'f) AdmissionLib \<Rightarrow> (string \<times> nat) list \<Rightarrow> (FacetSource \<times> nat) list \<Rightarrow> Issue list" where
  "validateSourceList l seen [] = []"
| "validateSourceList l seen ((s, i) # rest) =
    (case lookup seen (fs_id s) of
       Some previous \<Rightarrow> [invalidIssue (at_index ''spec.sources'' i @ ''.id'') ''DuplicateSourceID''
         (''source identifier must be unique; first declared at index '' @ show_nat previous)]
     | None \<Rightarrow> []) @
    validateOneSource l (s, i) @
    validateSourceList l (if lookup seen (fs_id s) = None \<and> fs_id s \<noteq> [] then (fs_id s, i) # seen else seen) rest"

definition ValidateFacetSemantics :: "('q, 'r, 'f) AdmissionLib \<Rightarrow> FacetSource list option \<Rightarrow> Issue list" where
  "ValidateFacetSemantics l object = (case object of
      None \<Rightarrow> result [invalidIssue ''spec'' ''MissingObject'' ''object must be provided'']
    | Some sources \<Rightarrow> result (validateSourceList l [] (indexed sources)))"

fun policy_reason_text :: "PolicyReason \<Rightarrow> string" where
  "policy_reason_text NoReason = []"
| "policy_reason_text ReasonAllowed = ''Allowed''"
| "policy_reason_text ReasonPolicyMissing = ''PolicyMissing''"
| "policy_reason_text ReasonPolicyInvalid = ''PolicyInvalid''"
| "policy_reason_text ReasonPolicyUnavailable = ''PolicyUnavailable''"
| "policy_reason_text ReasonInvalidRequest = ''InvalidRequest''"
| "policy_reason_text ReasonResourceDenied = ''ResourceDenied''"
| "policy_reason_text ReasonClusterScopeDenied = ''ClusterScopeDenied''"
| "policy_reason_text ReasonNamespaceDenied = ''NamespaceDenied''"

definition ValidateAccessPolicySemantics :: "K8sValidation \<Rightarrow> FacetAccessPolicy option \<Rightarrow> Issue list" where
  "ValidateAccessPolicySemantics k object =
     result (map (\<lambda>e. invalidIssue (pe_field e) (policy_reason_text (pe_reason e)) (pe_message e)) (Validate k object))"

section \<open>The staged validator\<close>

definition budgetValidator :: "AdmissionBudgets option \<Rightarrow> AdmissionBudgets option" where
  "budgetValidator budgets = (case budgets of None \<Rightarrow> NewBudgetValidator AdmDefaultLimits | Some lims \<Rightarrow> Some lims)"

definition budgetIssues :: "BudgetIssue list \<Rightarrow> Issue list" where
  "budgetIssues bs = map (\<lambda>b. invalidIssue (bi_path b) (bi_reason b) (bi_message b)) bs"

definition selectionIssue :: "nat \<Rightarrow> plan_error \<Rightarrow> Issue" where
  "selectionIssue i e =
    (let path = at_index ''spec.sources'' i;
         issue = (\<lambda>reason message c. \<lparr>is_path = path, is_reason = reason, is_message = message, is_class = c\<rparr>);
         other = issue ''InvalidSelection'' ''source selection is invalid'' Invalid in
     case e of
       PlanResolutionError r \<Rightarrow>
         (case re_reason r of
            UnknownType \<Rightarrow> issue ''UnknownResource'' ''resource apiVersion and Kind are not served by current discovery'' Invalid
          | DiscoveryUnavailable \<Rightarrow> issue ''ValidationUnavailable'' ''current Kubernetes discovery is unavailable'' Unavailable
          | AmbiguousResource \<Rightarrow> issue ''AmbiguousResource'' ''resource identity resolves to more than one served resource'' Invalid
          | _ \<Rightarrow> other)
     | PlanSelectionError r \<Rightarrow>
         (case se_reason r of
            SelInvalidNamespaceScope \<Rightarrow> issue ''InvalidNamespaceScope'' ''source namespace scope is incompatible with the discovered resource'' Invalid
          | SelInvalidSelector \<Rightarrow> issue ''InvalidSelector'' ''source selector is invalid'' Invalid
          | SelInvalidSource \<Rightarrow> issue ''InvalidSource'' ''source declaration is invalid'' Invalid
          | _ \<Rightarrow> other))"

definition policyTerminalIssue :: "PolicyReason \<Rightarrow> Issue" where
  "policyTerminalIssue r =
    (case r of
       ReasonPolicyMissing \<Rightarrow> \<lparr>is_path = ''spec'', is_reason = ''PolicyMissing'', is_message = ''installation access policy is missing'', is_class = Forbidden\<rparr>
     | ReasonPolicyInvalid \<Rightarrow> \<lparr>is_path = ''spec'', is_reason = ''PolicyInvalid'', is_message = ''installation access policy is invalid'', is_class = Forbidden\<rparr>
     | _ \<Rightarrow> \<lparr>is_path = ''spec'', is_reason = ''ValidationUnavailable'', is_message = ''installation access policy is unavailable'', is_class = Unavailable\<rparr>)"

definition policyDecisionIssue :: "nat \<Rightarrow> FacetSource \<Rightarrow> ReadTarget \<Rightarrow> Decision \<Rightarrow> Issue" where
  "policyDecisionIssue i s t d =
    (let resourcePath = at_index ''spec.sources'' i @ ''.resource'';
         path = (case fs_namespaces s of
                   None \<Rightarrow> resourcePath
                 | Some names \<Rightarrow>
                    if dec_reason d = ReasonNamespaceDenied then
                      (case find_first (\<lambda>(n, _). n = rt_namespace t) (indexed names) of
                         None \<Rightarrow> resourcePath
                       | Some (_, j) \<Rightarrow> at_index (at_index ''spec.sources'' i @ ''.namespaces.names'') j)
                    else resourcePath);
         issue = (\<lambda>reason message. \<lparr>is_path = path, is_reason = reason, is_message = message, is_class = Forbidden\<rparr>) in
     if dec_reason d = ReasonClusterScopeDenied then
       issue ''ClusterScopeDenied'' ''cluster-scoped target is disabled by the installation access policy''
     else if dec_reason d = ReasonNamespaceDenied then
       issue ''NamespaceDenied'' ''requested namespace is outside the installation access policy''
     else issue ''PolicyDenied'' ''requested resource target is outside the installation access policy'')"

definition policyIssues :: "K8sValidation \<Rightarrow> Snapshot \<Rightarrow> (FacetSource \<times> SelectionPlan) \<times> nat \<Rightarrow> Issue list" where
  "policyIssues k snapshot x = (case x of ((s, plan), i) \<Rightarrow>
     List.map_filter (\<lambda>t. let d = Evaluate k snapshot (RequestForTarget t) in
       if dec_allowed d then None else Some (policyDecisionIssue i s t d)) (pl_targets plan))"

definition plannedSources ::
  "('q, 'r, 'f) AdmissionLib \<Rightarrow> (SourceDescriptor \<Rightarrow> (ResolutionError, Resolution) res) \<Rightarrow> string \<Rightarrow> FacetSource list \<Rightarrow> (plan_error, SelectionPlan) res list" where
  "plannedSources l resolver namespace sources = map (Plan (al_k8s l) (al_selectors l) (Some resolver) namespace) sources"

definition ValidateFacet ::
  "('q, 'r, 'f) AdmissionLib \<Rightarrow> AdmissionBudgets option \<Rightarrow> (SourceDescriptor \<Rightarrow> (ResolutionError, Resolution) res) option \<Rightarrow>
   (source_error, FacetAccessPolicy option) res option \<Rightarrow> (string \<times> FacetSource list) option \<Rightarrow> Issue list" where
  "ValidateFacet l budgets resolver policy object =
    (let issues = budgetIssues (BudgetValidator_ValidateFacet (al_facetSize l) (budgetValidator budgets) (map_option snd object)) in
     if issues \<noteq> [] then result issues
     else
       let semantic = ValidateFacetSemantics l (map_option snd object) in
       if semantic \<noteq> [] then semantic
       else case object of
         None \<Rightarrow> semantic
       | Some (namespace, sources) \<Rightarrow>
          (case resolver of
             None \<Rightarrow> result [\<lparr>is_path = ''spec'', is_reason = ''ValidationUnavailable'',
               is_message = ''current Kubernetes discovery is unavailable'', is_class = Unavailable\<rparr>]
           | Some resolve \<Rightarrow>
              let planned = plannedSources l resolve namespace sources;
                  failures = List.map_filter (\<lambda>(p, i). case p of Inl e \<Rightarrow> Some (selectionIssue i e) | Inr _ \<Rightarrow> None) (indexed planned) in
              if failures \<noteq> [] then result failures
              else
                let snapshot = Load (al_k8s l) policy in
                if snap_terminalReason snapshot \<noteq> NoReason then result [policyTerminalIssue (snap_terminalReason snapshot)]
                else result (concat (map (policyIssues (al_k8s l) snapshot) (indexed (zip sources (map projr planned)))))))"

definition ValidateAccessPolicy :: "('q, 'r, 'f) AdmissionLib \<Rightarrow> AdmissionBudgets option \<Rightarrow> FacetAccessPolicy option \<Rightarrow> Issue list" where
  "ValidateAccessPolicy l budgets object =
    (let issues = budgetIssues (BudgetValidator_ValidateAccessPolicy (al_policySize l) (budgetValidator budgets) object) in
     if issues \<noteq> [] then result issues else ValidateAccessPolicySemantics (al_k8s l) object)"

section \<open>Refusals\<close>

record StatusError =
  se_code :: int
  se_statusReason :: string
  se_statusMessage :: string
  se_causes :: "(string \<times> string \<times> string) list"

definition resultError :: "string \<Rightarrow> Issue list \<Rightarrow> StatusError option" where
  "resultError kind r =
    (if Result_Valid r then None
     else
       let issues = SortIssues r;
           (code, reason) = (case Result_Class None r of
              Some Forbidden \<Rightarrow> (403, ''Forbidden'') | Some Unavailable \<Rightarrow> (503, ''ServiceUnavailable'') | _ \<Rightarrow> (422, ''Invalid'')) in
       Some \<lparr>se_code = code, se_statusReason = reason,
         se_statusMessage = kind @ '' admission validation failed with '' @ show_nat (length issues) @ '' issue(s)'',
         se_causes = map (\<lambda>i. (is_reason i, is_path i, is_message i)) issues\<rparr>)"

definition unavailableError :: "string \<Rightarrow> StatusError option" where
  "unavailableError kind = resultError kind (result [\<lparr>is_path = ''spec'', is_reason = ''ValidationUnavailable'',
     is_message = ''admission validation is unavailable'', is_class = Unavailable\<rparr>])"


text \<open>The webhook handlers; \<open>None\<close> is a missing validator.  An update is validated like a creation and a deletion is never refused.\<close>

definition facetWebhook_validate :: "('o \<Rightarrow> Issue list) option \<Rightarrow> 'o \<Rightarrow> StatusError option" where
  "facetWebhook_validate v object = (case v of None \<Rightarrow> unavailableError ''Facet'' | Some validate \<Rightarrow> resultError ''Facet'' (validate object))"

definition facetWebhook_ValidateCreate :: "('o \<Rightarrow> Issue list) option \<Rightarrow> 'o \<Rightarrow> StatusError option" where
  "facetWebhook_ValidateCreate v object = facetWebhook_validate v object"

definition facetWebhook_ValidateUpdate :: "('o \<Rightarrow> Issue list) option \<Rightarrow> 'o \<Rightarrow> 'o \<Rightarrow> StatusError option" where
  "facetWebhook_ValidateUpdate v old object = facetWebhook_validate v object"

definition facetWebhook_ValidateDelete :: "'o \<Rightarrow> StatusError option" where
  "facetWebhook_ValidateDelete object = None"

definition accessPolicyWebhook_validate :: "('o \<Rightarrow> Issue list) option \<Rightarrow> 'o \<Rightarrow> StatusError option" where
  "accessPolicyWebhook_validate v object =
    (case v of None \<Rightarrow> unavailableError ''FacetAccessPolicy'' | Some validate \<Rightarrow> resultError ''FacetAccessPolicy'' (validate object))"

definition accessPolicyWebhook_ValidateCreate :: "('o \<Rightarrow> Issue list) option \<Rightarrow> 'o \<Rightarrow> StatusError option" where
  "accessPolicyWebhook_ValidateCreate v object = accessPolicyWebhook_validate v object"

definition accessPolicyWebhook_ValidateUpdate :: "('o \<Rightarrow> Issue list) option \<Rightarrow> 'o \<Rightarrow> 'o \<Rightarrow> StatusError option" where
  "accessPolicyWebhook_ValidateUpdate v old object = accessPolicyWebhook_validate v object"

definition accessPolicyWebhook_ValidateDelete :: "'o \<Rightarrow> StatusError option" where
  "accessPolicyWebhook_ValidateDelete object = None"

section \<open>Lemmas: issue lists\<close>

lemma result_Nil_iff [simp]: "result issues = [] \<longleftrightarrow> issues = []"
  using length_sort_by[of admissionIssue_less issues] by (auto simp: result_def SortIssues_def simp del: length_sort_by)

lemma map_filter_Nil_iff: "List.map_filter f xs = [] \<longleftrightarrow> (\<forall>x \<in> set xs. f x = None)"
  by (induction xs) (auto simp: List.map_filter_simps split: option.splits)

lemma map_fst_indexed [simp]: "map fst (indexed xs) = xs"
  by (simp add: indexed_def)

lemma length_indexed [simp]: "length (indexed xs) = length xs"
  by (simp add: indexed_def)

lemma set_indexed: "(x, i) \<in> set (indexed xs) \<longleftrightarrow> i < length xs \<and> xs ! i = x"
  by (auto simp: indexed_def set_zip)

lemma all_indexed: "(\<forall>y \<in> set (indexed xs). P (fst y)) \<longleftrightarrow> (\<forall>x \<in> set xs. P x)"
  by (metis (mono_tags, lifting) image_iff list.set_map map_fst_indexed)

lemma cardinalityIssue_Nil [simp]: "cardinalityIssue path n limit = [] \<longleftrightarrow> int n \<le> limit"
  by (simp add: cardinalityIssue_def)

lemma specSizeIssue_Nil [simp]: "specSizeIssue path encoded limit = [] \<longleftrightarrow> (\<exists>n. encoded = Some n \<and> n \<le> limit)"
  by (auto simp: specSizeIssue_def split: option.splits)

lemma budgetIssues_Nil [simp]: "budgetIssues bs = [] \<longleftrightarrow> bs = []"
  by (simp add: budgetIssues_def)

lemma lookup_Some_dom: "lookup m k = Some v \<Longrightarrow> k \<in> fst ` set m"
  using lookup_None_iff[of m k] by auto

lemma duplicateNames_Nil:
  "duplicateNames issue seen xs = [] \<longleftrightarrow> distinct (map fst xs) \<and> fst ` set xs \<inter> fst ` set seen = {}"
  by (induction issue seen xs rule: duplicateNames.induct)
    (auto simp: lookup_None_iff dest: lookup_Some_dom split: option.splits)

lemma validateNames_Nil:
  "validateNames k prefix seen xs = [] \<longleftrightarrow>
     distinct (map fst xs) \<and> fst ` set xs \<inter> fst ` set seen = {} \<and> list_all (isDNS1123Label k) (map fst xs)"
  by (induction k prefix seen xs rule: validateNames.induct)
    (auto simp: Let_def lookup_None_iff dest: lookup_Some_dom split: option.splits)

section \<open>Lemmas: budgets\<close>

definition selector_within :: "AdmissionBudgets \<Rightarrow> ResourceSelector option \<Rightarrow> bool" where
  "selector_within lims selector \<longleftrightarrow> (\<forall>s. selector = Some s \<longrightarrow>
     int (length (rs_matchExpressions s)) \<le> MaxSelectorMatchExpressions lims \<and> int (length (rs_matchLabels s)) \<le> MaxSelectorMatchLabels lims \<and>
     (\<forall>e \<in> set (rs_matchExpressions s). int (length (lsr_values e)) \<le> MaxSelectorExpressionValues lims))"

definition source_within :: "AdmissionBudgets \<Rightarrow> FacetSource \<Rightarrow> bool" where
  "source_within lims s \<longleftrightarrow>
     (\<forall>names. fs_namespaces s = Some names \<longrightarrow> int (length names) \<le> MaxSourceNamespaces lims) \<and>
     int (length (fs_fields s)) \<le> MaxSourceFields lims \<and>
     (\<forall>f \<in> set (fs_fields s). int (length (ff_operators f)) \<le> MaxFieldOperators lims \<and>
        (\<forall>op \<in> set (ff_operators f). int (length (fo_values op)) \<le> MaxOperatorValues lims)) \<and>
     int (length (fs_aggregations s)) \<le> MaxSourceAggregations lims \<and>
     (\<forall>a \<in> set (fs_aggregations s). int (length (fa_groupBy a)) \<le> MaxAggregationGroupBy lims) \<and>
     selector_within lims (fs_selector s)"

lemma concat_indexed_Nil:
  assumes "\<And>x i. f (x, i) = [] \<longleftrightarrow> P x"
  shows "concat (map f (indexed xs)) = [] \<longleftrightarrow> (\<forall>x \<in> set xs. P x)"
proof -
  have "concat (map f (indexed xs)) = [] \<longleftrightarrow> (\<forall>y \<in> set (indexed xs). P (fst y))" using assms by (auto simp: concat_eq_Nil_conv)
  then show ?thesis by (simp only: all_indexed)
qed

lemma fieldBudgets_Nil:
  "fieldBudgets lims prefix (f, i) = [] \<longleftrightarrow> int (length (ff_operators f)) \<le> MaxFieldOperators lims \<and>
     (\<forall>op \<in> set (ff_operators f). int (length (fo_values op)) \<le> MaxOperatorValues lims)"
  unfolding fieldBudgets_def prod.case Let_def append_is_Nil_conv cardinalityIssue_Nil
  by (subst concat_indexed_Nil[where P = "\<lambda>op. int (length (fo_values op)) \<le> MaxOperatorValues lims"]) simp_all

lemma selectorBudgets_Nil: "selectorBudgets lims prefix selector = [] \<longleftrightarrow> selector_within lims selector"
proof (cases selector)
  case (Some s)
  show ?thesis unfolding selectorBudgets_def selector_within_def Some option.case append_is_Nil_conv cardinalityIssue_Nil
    by (subst concat_indexed_Nil[where P = "\<lambda>e. int (length (lsr_values e)) \<le> MaxSelectorExpressionValues lims"]) auto
qed (simp add: selectorBudgets_def selector_within_def)

lemma sourceBudgets_Nil: "sourceBudgets lims (s, i) = [] \<longleftrightarrow> source_within lims s"
proof -
  let ?p = "at_index ''spec.sources'' i"
  have f: "concat (map (fieldBudgets lims ?p) (indexed (fs_fields s))) = [] \<longleftrightarrow>
      (\<forall>f \<in> set (fs_fields s). int (length (ff_operators f)) \<le> MaxFieldOperators lims \<and>
        (\<forall>op \<in> set (ff_operators f). int (length (fo_values op)) \<le> MaxOperatorValues lims))"
    by (rule concat_indexed_Nil) (rule fieldBudgets_Nil)
  have a: "concat (map (\<lambda>(a, j). cardinalityIssue (at_index (?p @ ''.aggregations'') j @ ''.groupBy'') (length (fa_groupBy a)) (MaxAggregationGroupBy lims))
       (indexed (fs_aggregations s))) = [] \<longleftrightarrow> (\<forall>a \<in> set (fs_aggregations s). int (length (fa_groupBy a)) \<le> MaxAggregationGroupBy lims)"
    by (rule concat_indexed_Nil) simp
  show ?thesis unfolding sourceBudgets_def prod.case Let_def append_is_Nil_conv f a cardinalityIssue_Nil selectorBudgets_Nil source_within_def
    by (auto split: option.splits)
qed

lemma defaults_positive:
  "0 < MaxFacetSources AdmDefaultLimits" "0 < MaxSourceNamespaces AdmDefaultLimits" "0 < MaxSourceFields AdmDefaultLimits"
  "0 < MaxFieldOperators AdmDefaultLimits" "0 < MaxOperatorValues AdmDefaultLimits" "0 < MaxSourceAggregations AdmDefaultLimits"
  "0 < MaxAggregationGroupBy AdmDefaultLimits" "0 < MaxSelectorMatchExpressions AdmDefaultLimits"
  "0 < MaxSelectorExpressionValues AdmDefaultLimits" "0 < MaxSelectorMatchLabels AdmDefaultLimits"
  "0 < MaxPolicyNamespaceNames AdmDefaultLimits" "0 < MaxPolicyResourceRules AdmDefaultLimits" "0 < MaxPolicyAPIGroups AdmDefaultLimits"
  "0 < MaxPolicyKinds AdmDefaultLimits" "0 < MaxFacetSpecBytes AdmDefaultLimits" "0 < MaxAccessPolicySpecBytes AdmDefaultLimits"
  by (simp_all add: AdmDefaultLimits_def AdmLimitsFromProfile_def DefaultProfile_def defaultAdmission_def)

lemma pick_idem: "0 < d \<Longrightarrow> (if (if x \<le> 0 then d else x) \<le> 0 then d else if x \<le> 0 then d else x) = (if x \<le> 0 then d else x :: int)"
  by simp

lemma AdmNormalizeLimits_idem: "AdmNormalizeLimits (AdmNormalizeLimits lims) = AdmNormalizeLimits lims"
  by (simp only: AdmNormalizeLimits_def Let_def AdmissionBudgets.select_convs defaults_positive[THEN pick_idem])

lemma FacetBudgets_Nil:
  "ValidateFacetBudgetsWithLimits encodedSize input (Some sources) = [] \<longleftrightarrow>
     int (length sources) \<le> MaxFacetSources (AdmNormalizeLimits input) \<and>
     (\<forall>s \<in> set sources. source_within (AdmNormalizeLimits input) s) \<and>
     (\<exists>n. encodedSize sources = Some n \<and> n \<le> MaxFacetSpecBytes (AdmNormalizeLimits input))"
  unfolding ValidateFacetBudgetsWithLimits_def option.case Let_def append_is_Nil_conv cardinalityIssue_Nil specSizeIssue_Nil
  by (subst concat_indexed_Nil[where P = "source_within (AdmNormalizeLimits input)"]) (simp_all add: sourceBudgets_Nil)

section \<open>Lemmas: declarations\<close>

lemma CompileSource_ok_iff: "(\<exists>plan. CompileSource s = Inr plan) \<longleftrightarrow> ExtractionValidateSource s = []"
  by (auto simp: CompileSource_def ExtractionValidateSource_def split: prod.splits list.splits)

lemma planFields_ok: "snd (planFields sid xs) = [] \<longleftrightarrow> (\<forall>x \<in> set xs. ff_type (fst x) \<noteq> [] \<and> IsSupportedType (ff_type (fst x)))"
  by (induction sid xs rule: planFields.induct) (auto split: prod.splits)

lemma all_fst_zip: "(\<forall>x \<in> set (zip xs [0..<length xs]). P (fst x)) \<longleftrightarrow> (\<forall>x \<in> set xs. P x)"
  using all_indexed[of xs P] by (simp only: indexed_def)

lemma TypedCompileSource_ok:
  "po_failures (TypedCompileSource s) = [] \<longleftrightarrow> (\<forall>f \<in> set (fs_fields s). ff_type f \<noteq> [] \<and> IsSupportedType (ff_type f))"
proof -
  let ?xs = "zip (fs_fields s) [0..<length (fs_fields s)]"
  have "po_failures (TypedCompileSource s) = snd (planFields (fs_id s) (sort_by (\<lambda>a b. ff_name (fst a) < ff_name (fst b)) ?xs))"
    by (simp add: TypedCompileSource_def split: prod.splits)
  then show ?thesis unfolding planFields_ok set_sort_by
    by (simp only: planFields_ok set_sort_by all_fst_zip[where P = "\<lambda>f. ff_type f \<noteq> [] \<and> IsSupportedType (ff_type f)"])
qed

lemma decodeOperand_index: "decodeOperand lib rx sid f i v name operand = Inl e \<Longrightarrow> oe_operatorIndex e = i"
  by (auto simp: decodeOperand_def Let_def operandPlanningError_def NewOperatorError_def split: if_splits list.splits prod.splits option.splits sum.splits)

lemma res_map_list_InlD: "res_map_list f xs = Inl e \<Longrightarrow> \<exists>x \<in> set xs. f x = Inl e"
  by (induction xs) (auto simp: res_bind_def split: sum.splits)

lemma planOperator_index: "planOperator lib rx sid f i d = Inl e \<Longrightarrow> oe_operatorIndex e = int i"
  by (auto simp: planOperator_def Let_def NewOperatorError_def dest!: decodeOperand_index res_map_list_InlD
    split: if_splits option.splits sum.splits prod.splits)

lemma planOperators_index: "planOperators lib rx sid f i ds = (plans, failures) \<Longrightarrow> e \<in> set failures \<Longrightarrow> 0 \<le> oe_operatorIndex e"
  by (induction lib rx sid f i ds arbitrary: plans failures rule: planOperators.induct)
    (auto dest!: planOperator_index split: prod.splits sum.splits)

text \<open>With the names and types that admission has already checked, every failure of the operator compiler names an operator of
  a declared field, so admission reports it.\<close>

lemma opCompileFields_failures:
  "\<lbrakk>opCompileFields lib rx sid seen xs = (plans, failures); distinct (map (ff_name \<circ> fst) xs); (ff_name \<circ> fst) ` set xs \<inter> set seen = {};
    \<forall>x \<in> set xs. ff_name (fst x) \<noteq> [] \<and> ff_type (fst x) \<noteq> [] \<and> IsSupportedType (ff_type (fst x)); e \<in> set failures\<rbrakk> \<Longrightarrow>
   0 \<le> oe_operatorIndex e \<and> (\<exists>x \<in> set xs. oe_fieldIndex e = int (snd x))"
proof (induction xs arbitrary: seen plans failures)
  case (Cons x xs)
  obtain f i where x: "x = (f, i)" by (cases x)
  obtain plans' rest where rest: "opCompileFields lib rx sid (ff_name f # seen) xs = (plans', rest)"
    by (cases "opCompileFields lib rx sid (ff_name f # seen) xs")
  obtain ops own where ops: "planOperators lib rx sid f 0 (ff_operators f) = (ops, own)"
    by (cases "planOperators lib rx sid f 0 (ff_operators f)")
  have clean: "fieldFailures sid f = []" and t: "\<not> (ff_type f \<noteq> [] \<and> \<not> IsSupportedType (ff_type f))" and n: "ff_name f \<notin> set seen"
    using Cons.prems(3,4) x by (auto simp: fieldFailures_def)
  have "failures = map (atField i) own @ rest"
    using Cons.prems(1) by (simp add: x rest ops clean n t)
  then consider (own) e' where "e' \<in> set own" "e = atField i e'" | (rest) "e \<in> set rest" using Cons.prems(5) by auto
  then show ?case
  proof cases
    case own
    then show ?thesis using planOperators_index[OF ops own(1)] x by (auto simp: atField_def)
  next
    case rest': rest
    have "0 \<le> oe_operatorIndex e \<and> (\<exists>x \<in> set xs. oe_fieldIndex e = int (snd x))"
      by (rule Cons.IH[OF rest _ _ _ rest']) (use Cons.prems x in auto)
    then show ?thesis by auto
  qed
qed simp

lemma operatorIssue_reported:
  assumes "0 \<le> oe_operatorIndex e" "oe_fieldIndex e = int i" "i < length (fs_fields s)" "ff_type (fs_fields s ! i) \<noteq> []"
  shows "operatorIssue prefix s e \<noteq> []"
  using assms by (simp add: operatorIssue_def fieldIndexOf_def Let_def)

lemma operators_ok:
  assumes "fs_id s \<noteq> []" and names: "distinct (map ff_name (fs_fields s))" "\<forall>f \<in> set (fs_fields s). ff_name f \<noteq> []"
    and types: "\<forall>f \<in> set (fs_fields s). ff_type f \<noteq> [] \<and> IsSupportedType (ff_type f)"
  shows "concat (map (operatorIssue prefix s) (opo_failures (OpCompileSource lib rx s))) = [] \<longleftrightarrow> OPlan_Valid (OpCompileSource lib rx s)"
proof -
  let ?zs = "zip (fs_fields s) [0..<length (fs_fields s)]"
  let ?xs = "sort_by (\<lambda>a b. ff_name (fst a) < ff_name (fst b)) ?zs"
  obtain plans failures where c: "opCompileFields lib rx (fs_id s) [] ?xs = (plans, failures)"
    by (cases "opCompileFields lib rx (fs_id s) [] ?xs")
  have f: "opo_failures (OpCompileSource lib rx s) = failures" and sid: "opo_sourceID (OpCompileSource lib rx s) = fs_id s"
    using c assms(1) by (simp_all add: OpCompileSource_def)
  have d: "distinct (map (ff_name \<circ> fst) ?xs)"
    using names(1) unfolding distinct_map_sort_by by (simp flip: map_map)
  have w: "\<forall>x \<in> set ?xs. ff_name (fst x) \<noteq> [] \<and> ff_type (fst x) \<noteq> [] \<and> IsSupportedType (ff_type (fst x))"
    using names(2) types by (auto dest: set_zip_leftD)
  have "operatorIssue prefix s e \<noteq> []" if e: "e \<in> set failures" for e
  proof -
    obtain x where x: "x \<in> set ?zs" "oe_fieldIndex e = int (snd x)" and o: "0 \<le> oe_operatorIndex e"
      using opCompileFields_failures[OF c d _ w e] by auto
    have i: "snd x < length (fs_fields s)" using x(1) by (auto simp: set_zip)
    show ?thesis by (rule operatorIssue_reported[OF o x(2) i]) (use types i in simp)
  qed
  then show ?thesis using f sid assms(1) by (auto simp: OPlan_Valid_def concat_eq_Nil_conv)
qed


lemma supportedGroupingType_eq: "supportedGroupingType = supportedGroupType"
  by (rule ext) (simp only: supportedGroupingType_def supportedGroupType_def)

lemma validateGroupBy_Nil:
  "set seen' = fst ` set seen \<Longrightarrow>
   validateGroupBy types prefix seen gs = [] \<longleftrightarrow> (\<exists>r. planGroupBy sid d types seen' i (map fst gs) = Inr r)"
proof (induction types prefix seen gs arbitrary: seen' i rule: validateGroupBy.induct)
  case (2 types prefix seen g j rest)
  show ?case
  proof (cases "g \<in> set seen' \<or> types g = None \<or> \<not> supportedGroupType (the (types g))")
    case True
    then show ?thesis using 2(2)
      by (auto simp: Let_def supportedGroupingType_eq lookup_None_iff split: option.splits)
  next
    case False
    then obtain t where t: "types g = Some t" "supportedGroupType t" "g \<notin> set seen'" by auto
    then have l: "lookup seen g = None" using 2(2) by (simp add: lookup_None_iff)
    have "validateGroupBy types prefix ((g, j) # seen) rest = [] \<longleftrightarrow> (\<exists>r. planGroupBy sid d types (g # seen') (Suc i) (map fst rest) = Inr r)"
      using 2(1)[OF refl, of "g # seen'" "Suc i"] 2(2) l by simp
    then show ?thesis using t l by (auto simp: Let_def supportedGroupingType_eq res_bind_def split: sum.splits)
  qed
qed simp

lemma planGroupBy_index: "planGroupBy sid d types seen i gs = Inl e \<Longrightarrow> 0 \<le> ae_groupByIndex e"
  by (induction sid d types seen i gs rule: planGroupBy.induct) (auto simp: Let_def res_bind_def split: if_splits option.splits sum.splits)

lemma planDeclaration_Inl:
  assumes "planDeclaration sid d types lims = Inl e" "planGroupBy sid d types [] 0 (fa_groupBy d) = Inr r"
  shows "ae_groupByIndex e < 0"
  using assms by (auto simp: planDeclaration_def Let_def NewAggregateError_def split: if_splits option.splits sum.splits prod.splits)

lemma planDeclaration_groupBy:
  "planDeclaration sid d types lims = Inr p \<Longrightarrow> \<exists>r. planGroupBy sid d types [] 0 (fa_groupBy d) = Inr r"
  by (auto simp: planDeclaration_def Let_def split: if_splits option.splits sum.splits)

lemma planDeclaration_limits:
  "(\<exists>p. planDeclaration sid d types lims = Inr p) \<longleftrightarrow> (\<exists>p. planDeclaration sid d types lims' = Inr p)"
  by (auto simp: planDeclaration_def Let_def split: option.splits sum.splits)

lemma planEntry_limits: "(\<exists>p. planEntry s lims x = Inr p) \<longleftrightarrow> (\<exists>p. planEntry s lims' x = Inr p)"
proof (cases x)
  case (Pair d i)
  show ?thesis using planDeclaration_limits[of "fs_id s" d "fieldTypes (fs_fields s)" lims lims']
    by (auto simp: planEntry_def Pair split: sum.splits)
qed

lemma planEntry_issue:
  assumes "\<exists>r. planGroupBy (fs_id s) (fst x) (fieldTypes (fs_fields s)) [] 0 (fa_groupBy (fst x)) = Inr r"
  shows "aggregationIssue prefix s (planEntry s lims x) = [] \<longleftrightarrow> (\<exists>p. planEntry s lims x = Inr p)"
proof -
  have "ae_groupByIndex e < 0" if e: "planEntry s lims x = Inl e" for e
  proof (cases x)
    case (Pair d i)
    from assms Pair obtain r where r: "planGroupBy (fs_id s) d (fieldTypes (fs_fields s)) [] 0 (fa_groupBy d) = Inr r" by auto
    show ?thesis using e planDeclaration_Inl[OF _ r]
      by (auto simp: planEntry_def Pair atAggregate_def NewAggregateError_def split: if_splits sum.splits)
  qed
  then show ?thesis by (cases "planEntry s lims x") (force simp: aggregationIssue_def Let_def)+
qed

lemma PlanSource_entries:
  assumes "fs_id s \<noteq> []"
  shows "(\<forall>e \<in> set (apo_entries (PlanSource s lims)). P e) \<longleftrightarrow>
    (\<forall>x \<in> set (indexed (fs_aggregations s)). P (planEntry s (normalizeLimits lims) x))"
  using assms by (auto simp: PlanSource_def Let_def indexed_def)

definition aggregations_planned :: "FacetSource \<Rightarrow> AggregationBudgets \<Rightarrow> bool" where
  "aggregations_planned s lims \<longleftrightarrow> (\<forall>e \<in> set (apo_entries (PlanSource s lims)). \<exists>p. e = Inr p)"

lemma aggregations_planned_limits:
  assumes "fs_id s \<noteq> []"
  shows "aggregations_planned s lims \<longleftrightarrow> aggregations_planned s lims'"
  unfolding aggregations_planned_def PlanSource_entries[OF assms]
  using planEntry_limits[of s "normalizeLimits lims" _ "normalizeLimits lims'"] by blast

lemma validateGroupingFields_Nil:
  "validateGroupingFields prefix s = [] \<longleftrightarrow>
     (\<forall>a \<in> set (fs_aggregations s). \<exists>r. planGroupBy (fs_id s) a (fieldTypes (fs_fields s)) [] 0 (fa_groupBy a) = Inr r)"
  unfolding validateGroupingFields_def
proof (rule concat_indexed_Nil)
  fix a i
  show "(case (a, i) of (a, i) \<Rightarrow> validateGroupBy (fieldTypes (fs_fields s)) (at_index (prefix @ ''.aggregations'') i) [] (indexed (fa_groupBy a))) = [] \<longleftrightarrow>
      (\<exists>r. planGroupBy (fs_id s) a (fieldTypes (fs_fields s)) [] 0 (fa_groupBy a) = Inr r)"
    using validateGroupBy_Nil[where seen = "[]" and seen' = "[]" and i = 0 and sid = "fs_id s" and d = a and gs = "indexed (fa_groupBy a)"] by simp
qed

lemma aggregations_ok:
  assumes "fs_id s \<noteq> []"
  shows "concat (map (aggregationIssue prefix s) (apo_entries (PlanSource s DefaultLimits))) = [] \<and> validateGroupingFields prefix s = [] \<longleftrightarrow>
    aggregations_planned s DefaultLimits"
proof -
  have issues: "concat (map (aggregationIssue prefix s) (apo_entries (PlanSource s DefaultLimits))) = [] \<longleftrightarrow>
      (\<forall>e \<in> set (apo_entries (PlanSource s DefaultLimits)). aggregationIssue prefix s e = [])" by (auto simp: concat_eq_Nil_conv)
  let ?G = "\<lambda>a. \<exists>r. planGroupBy (fs_id s) a (fieldTypes (fs_fields s)) [] 0 (fa_groupBy a) = Inr r"
  let ?P = "\<lambda>x. \<exists>p. planEntry s (normalizeLimits DefaultLimits) x = Inr p"
  have g: "(\<forall>a \<in> set (fs_aggregations s). ?G a) \<longleftrightarrow> (\<forall>x \<in> set (indexed (fs_aggregations s)). ?G (fst x))"
    by (rule all_indexed[symmetric])
  have p: "?P x \<Longrightarrow> ?G (fst x)" for x
    by (cases x) (auto simp: planEntry_def dest!: planDeclaration_groupBy split: if_splits sum.splits)
  have i: "?G (fst x) \<Longrightarrow> (aggregationIssue prefix s (planEntry s (normalizeLimits DefaultLimits) x) = []) = ?P x" for x
    by (rule planEntry_issue)
  show ?thesis unfolding issues validateGroupingFields_Nil aggregations_planned_def PlanSource_entries[OF assms] g
    using p i by blast
qed

section \<open>Lemmas: one source\<close>

definition source_identified :: "('q, 'r, 'f) AdmissionLib \<Rightarrow> FacetSource \<Rightarrow> bool" where
  "source_identified l s \<longleftrightarrow> fs_id s \<noteq> [] \<and> length (fs_id s) \<le> 63 \<and> isDNS1123Label (al_k8s l) (fs_id s) \<and>
     \<not> trimmed_empty (ref_apiVersion (fs_resource s)) \<and>
     (\<exists>gv. ParseGroupVersion (al_schema l) (ref_apiVersion (fs_resource s)) = Some gv \<and> gv_version gv \<noteq> []) \<and>
     ref_kind (fs_resource s) \<noteq> [] \<and> kindPattern (ref_kind (fs_resource s)) \<and>
     (\<forall>names. fs_namespaces s = Some names \<longrightarrow> distinct names \<and> list_all (isDNS1123Label (al_k8s l)) names) \<and>
     (\<forall>sel. fs_selector s = Some sel \<longrightarrow> (rs_name sel = [] \<or> isDNS1123Subdomain (al_k8s l) (rs_name sel)) \<and>
        sel_label (al_selectors l) (rs_matchLabels sel) (rs_matchExpressions sel) \<noteq> None \<and>
        sel_parse_field (al_selectors l) (rs_fieldSelector sel) \<noteq> None)"

text \<open>Each later stage accepts the declarations: paths compile, types are supported, operators and aggregates have plans,
  whatever the aggregation limits.\<close>

definition source_evaluable :: "('q, 'r, 'f) AdmissionLib \<Rightarrow> FacetSource \<Rightarrow> bool" where
  "source_evaluable l s \<longleftrightarrow> (\<exists>plan. CompileSource s = Inr plan) \<and> po_failures (TypedCompileSource s) = [] \<and>
     OPlan_Valid (OpCompileSource (al_typed l) (al_operators l) s) \<and> (\<forall>lims. aggregations_planned s lims)"

lemma identity_Nil:
  "validateSourceIdentity (al_k8s l) (al_schema l) prefix s @ validateNamespaces (al_k8s l) prefix s @
     validateSelector (al_k8s l) (al_selectors l) prefix s = [] \<longleftrightarrow> source_identified l s"
proof -
  have i: "validateSourceIdentity (al_k8s l) (al_schema l) prefix s = [] \<longleftrightarrow> fs_id s \<noteq> [] \<and> length (fs_id s) \<le> 63 \<and> isDNS1123Label (al_k8s l) (fs_id s) \<and>
     \<not> trimmed_empty (ref_apiVersion (fs_resource s)) \<and>
     (\<exists>gv. ParseGroupVersion (al_schema l) (ref_apiVersion (fs_resource s)) = Some gv \<and> gv_version gv \<noteq> []) \<and>
     ref_kind (fs_resource s) \<noteq> [] \<and> kindPattern (ref_kind (fs_resource s))"
    by (auto simp: validateSourceIdentity_def Let_def not_less split: option.splits)
  have n: "validateNamespaces (al_k8s l) prefix s = [] \<longleftrightarrow>
     (\<forall>names. fs_namespaces s = Some names \<longrightarrow> distinct names \<and> list_all (isDNS1123Label (al_k8s l)) names)"
    by (auto simp: validateNamespaces_def validateNames_Nil split: option.splits)
  have e: "validateSelector (al_k8s l) (al_selectors l) prefix s = [] \<longleftrightarrow>
     (\<forall>sel. fs_selector s = Some sel \<longrightarrow> (rs_name sel = [] \<or> isDNS1123Subdomain (al_k8s l) (rs_name sel)) \<and>
        sel_label (al_selectors l) (rs_matchLabels sel) (rs_matchExpressions sel) \<noteq> None \<and>
        sel_parse_field (al_selectors l) (rs_fieldSelector sel) \<noteq> None)"
    by (auto simp: validateSelector_def split: option.splits)
  show ?thesis unfolding append_is_Nil_conv i n e source_identified_def by blast
qed

lemma compileField_name: "compileField source seen f i = (Inr p, seen') \<Longrightarrow> ff_name f \<noteq> []"
  by (auto simp: compileField_def split: if_splits)

lemma compileFields_names: "snd (compileFields source seen xs) = [] \<Longrightarrow> x \<in> set xs \<Longrightarrow> ff_name (fst x) \<noteq> []"
  by (induction source seen xs rule: compileFields.induct) (auto dest: compileField_name split: prod.splits sum.splits)

lemma CompileSource_names:
  assumes "CompileSource s = Inr plan"
  shows "distinct (map ff_name (fs_fields s))" "\<forall>f \<in> set (fs_fields s). ff_name f \<noteq> []"
proof -
  have "distinct (map xf_name (xp_fields plan))" using CompileSource_Inr(3)[OF assms] by (simp add: strict_sorted_iff)
  then show "distinct (map ff_name (fs_fields s))" using CompileSource_Inr(2)[OF assms] mset_eq_imp_distinct_iff by blast
  let ?ix = "sort_by (\<lambda>a b. ff_name (fst a) < ff_name (fst b)) (zip (fs_fields s) [0..<length (fs_fields s)])"
  have "sort_by failure_less (snd (compileFields s [] ?ix)) = []"
    using assms by (auto simp: CompileSource_def CompileSourceAll_def Let_def split: prod.splits list.splits)
  then have "snd (compileFields s [] ?ix) = []" using length_sort_by[of failure_less] by (metis length_0_conv)
  then have "\<forall>x \<in> set (zip (fs_fields s) [0..<length (fs_fields s)]). ff_name (fst x) \<noteq> []"
    using compileFields_names[where xs = ?ix] by simp
  then show "\<forall>f \<in> set (fs_fields s). ff_name f \<noteq> []" by (rule all_fst_zip[where P = "\<lambda>f. ff_name f \<noteq> []", THEN iffD1])
qed

lemma declarations_Nil:
  assumes "fs_id s \<noteq> []"
  shows "validateSourceDeclarations (al_typed l) (al_operators l) prefix s = [] \<longleftrightarrow> source_evaluable l s"
proof (cases "(\<exists>plan. CompileSource s = Inr plan) \<and> po_failures (TypedCompileSource s) = []")
  case True
  then obtain plan where plan: "CompileSource s = Inr plan" and typed: "po_failures (TypedCompileSource s) = []" by blast
  note names = CompileSource_names[OF plan]
  have ex: "ExtractionValidateSource s = []" using plan CompileSource_ok_iff by blast
  have dup: "duplicateNames issue [] (indexed (map ff_name (fs_fields s))) = []" for issue
    unfolding duplicateNames_Nil using names(1) by simp
  have ops: "concat (map (operatorIssue prefix s) (opo_failures (OpCompileSource (al_typed l) (al_operators l) s))) = [] \<longleftrightarrow>
      OPlan_Valid (OpCompileSource (al_typed l) (al_operators l) s)"
    by (rule operators_ok[OF assms names]) (use typed TypedCompileSource_ok in blast)
  have agg: "aggregations_planned s DefaultLimits \<longleftrightarrow> (\<forall>lims. aggregations_planned s lims)"
    using aggregations_planned_limits[OF assms] by blast
  show ?thesis unfolding validateSourceDeclarations_def append_is_Nil_conv dup ex typed ops list.map source_evaluable_def
    using aggregations_ok[OF assms, of prefix] agg True by blast
next
  case False
  then show ?thesis using CompileSource_ok_iff by (auto simp: validateSourceDeclarations_def source_evaluable_def)
qed

lemma validateOneSource_Nil: "validateOneSource l (s, i) = [] \<longleftrightarrow> source_identified l s \<and> source_evaluable l s"
proof -
  have "validateOneSource l (s, i) = [] \<longleftrightarrow> source_identified l s \<and>
      validateSourceDeclarations (al_typed l) (al_operators l) (at_index ''spec.sources'' i) s = []"
    unfolding validateOneSource_def prod.case Let_def identity_Nil[of l _ s, symmetric, where prefix = "at_index ''spec.sources'' i"] by simp
  then show ?thesis using declarations_Nil by (auto simp: source_identified_def)
qed

lemma validateSourceList_Nil:
  "validateSourceList l seen xs = [] \<longleftrightarrow> distinct (map (fs_id \<circ> fst) xs) \<and> (fs_id \<circ> fst) ` set xs \<inter> fst ` set seen = {} \<and>
     (\<forall>x \<in> set xs. source_identified l (fst x) \<and> source_evaluable l (fst x))"
proof (induction l seen xs rule: validateSourceList.induct)
  case (2 l seen s i rest)
  show ?case
  proof (cases "lookup seen (fs_id s) = None \<and> fs_id s \<noteq> []")
    case True
    then have "lookup seen (fs_id s) = None" "fs_id s \<noteq> []" "fs_id s \<notin> fst ` set seen" by (simp_all add: lookup_None_iff)
    then show ?thesis using 2 by (auto simp: validateOneSource_Nil)
  next
    case False
    then consider (seen) previous where "lookup seen (fs_id s) = Some previous" | (empty) "\<not> source_identified l s"
      by (auto simp: source_identified_def)
    then show ?thesis
    proof cases
      case seen
      then show ?thesis using lookup_Some_dom[OF seen] by simp
    qed (simp add: validateOneSource_Nil)
  qed
qed simp

lemma FacetSemantics_Nil:
  "ValidateFacetSemantics l (Some sources) = [] \<longleftrightarrow> distinct (map fs_id sources) \<and>
     (\<forall>s \<in> set sources. source_identified l s \<and> source_evaluable l s)"
proof -
  have m: "map (fs_id \<circ> fst) (indexed sources) = map fs_id sources" by (simp flip: map_map)
  show ?thesis unfolding ValidateFacetSemantics_def option.case result_Nil_iff validateSourceList_Nil m
      all_indexed[where P = "\<lambda>s. source_identified l s \<and> source_evaluable l s"] by simp
qed


section \<open>Lemmas: the staged validator\<close>

text \<open>What admission promises of a Facet: the budgets hold, the source identifiers are distinct and well formed, every
  declaration can be evaluated, every source has a selection plan under current discovery, and the current policy allows every
  target of these plans.\<close>

definition source_allowed ::
  "('q, 'r, 'f) AdmissionLib \<Rightarrow> (SourceDescriptor \<Rightarrow> (ResolutionError, Resolution) res) \<Rightarrow>
   (source_error, FacetAccessPolicy option) res option \<Rightarrow> string \<Rightarrow> FacetSource \<Rightarrow> bool" where
  "source_allowed l resolve policy namespace s \<longleftrightarrow> (\<exists>p. Plan (al_k8s l) (al_selectors l) (Some resolve) namespace s = Inr p \<and>
     (\<forall>t \<in> set (pl_targets p). dec_allowed (Evaluate (al_k8s l) (Load (al_k8s l) policy) (RequestForTarget t))))"

definition facet_admissible ::
  "('q, 'r, 'f) AdmissionLib \<Rightarrow> AdmissionBudgets \<Rightarrow> (SourceDescriptor \<Rightarrow> (ResolutionError, Resolution) res) \<Rightarrow>
   (source_error, FacetAccessPolicy option) res option \<Rightarrow> string \<Rightarrow> FacetSource list \<Rightarrow> bool" where
  "facet_admissible l lims resolve policy namespace sources \<longleftrightarrow>
     int (length sources) \<le> MaxFacetSources lims \<and> (\<exists>n. al_facetSize l sources = Some n \<and> n \<le> MaxFacetSpecBytes lims) \<and>
     distinct (map fs_id sources) \<and> snap_terminalReason (Load (al_k8s l) policy) = NoReason \<and>
     (\<forall>s \<in> set sources. source_within lims s \<and> source_identified l s \<and> source_evaluable l s \<and> source_allowed l resolve policy namespace s)"

lemma policyIssues_Nil:
  "policyIssues k snapshot ((s, plan), i) = [] \<longleftrightarrow> (\<forall>t \<in> set (pl_targets plan). dec_allowed (Evaluate k snapshot (RequestForTarget t)))"
  by (simp add: policyIssues_def map_filter_Nil_iff Let_def)

lemma planned_Nil:
  "List.map_filter (\<lambda>(p, i). case p of Inl e \<Rightarrow> Some (selectionIssue i e) | Inr _ \<Rightarrow> None) (indexed (plannedSources l resolve namespace sources)) = [] \<longleftrightarrow>
    (\<forall>s \<in> set sources. \<exists>p. Plan (al_k8s l) (al_selectors l) (Some resolve) namespace s = Inr p)"
proof -
  have "List.map_filter (\<lambda>(p, i). case p of Inl e \<Rightarrow> Some (selectionIssue i e) | Inr _ \<Rightarrow> None) (indexed (plannedSources l resolve namespace sources)) = [] \<longleftrightarrow>
    (\<forall>x \<in> set (indexed (plannedSources l resolve namespace sources)). \<exists>p. fst x = Inr p)"
    unfolding map_filter_Nil_iff by (rule ball_cong[OF refl]) (auto split: sum.splits)
  also have "\<dots> \<longleftrightarrow> (\<forall>x \<in> set (plannedSources l resolve namespace sources). \<exists>p. x = Inr p)" by (rule all_indexed)
  finally show ?thesis by (simp add: plannedSources_def)
qed

lemma allowed_Nil:
  assumes "\<forall>s \<in> set sources. \<exists>p. Plan (al_k8s l) (al_selectors l) (Some resolve) namespace s = Inr p"
  shows "concat (map (policyIssues (al_k8s l) (Load (al_k8s l) policy)) (indexed (zip sources (map projr (plannedSources l resolve namespace sources))))) = [] \<longleftrightarrow>
    (\<forall>s \<in> set sources. source_allowed l resolve policy namespace s)"
proof -
  let ?A = "\<lambda>y. \<forall>t \<in> set (pl_targets (snd y)). dec_allowed (Evaluate (al_k8s l) (Load (al_k8s l) policy) (RequestForTarget t))"
  let ?plan = "\<lambda>s. projr (Plan (al_k8s l) (al_selectors l) (Some resolve) namespace s)"
  have z: "zip sources (map projr (plannedSources l resolve namespace sources)) = map (\<lambda>s. (s, ?plan s)) sources"
    by (simp add: plannedSources_def zip_map2 zip_same_conv_map)
  have "concat (map (policyIssues (al_k8s l) (Load (al_k8s l) policy)) (indexed (zip sources (map projr (plannedSources l resolve namespace sources))))) = [] \<longleftrightarrow>
    (\<forall>y \<in> set (map (\<lambda>s. (s, ?plan s)) sources). ?A y)"
    unfolding z by (rule concat_indexed_Nil) (metis policyIssues_Nil prod.collapse snd_conv)
  also have "\<dots> \<longleftrightarrow> (\<forall>s \<in> set sources. source_allowed l resolve policy namespace s)"
    using assms by (auto simp: source_allowed_def)
  finally show ?thesis .
qed

lemma Result_Class_cases:
  "Result_Class c r = (if \<exists>i \<in> set r. is_class i = Invalid then Some Invalid else if \<exists>i \<in> set r. is_class i = Forbidden then Some Forbidden
     else if r \<noteq> [] \<and> c = None then Some Unavailable else c)"
proof (induction c r rule: Result_Class.induct)
  case (2 c i r)
  then show ?case by (cases "is_class i") auto
qed simp

section \<open>Properties\<close>

text \<open>C31: admission of a Facet accepts exactly the Facets that every later stage can handle: a proposed Facet has no issue if and
  only if its sizes respect the effective budgets, its source identifiers are well formed and distinct, all its field paths
  compile, its types are supported, its operators and aggregates have complete plans (whatever the aggregation limits in force
  later), every source has a selection plan under current discovery, the installation policy is usable, and that policy
  allows every target of these plans.\<close>

theorem ValidateFacet_exact:
  "ValidateFacet l (NewBudgetValidator input) (Some resolve) policy (Some (namespace, sources)) = [] \<longleftrightarrow>
   facet_admissible l (AdmNormalizeLimits input) resolve policy namespace sources"
proof -
  let ?planned = "\<forall>s \<in> set sources. \<exists>p. Plan (al_k8s l) (al_selectors l) (Some resolve) namespace s = Inr p"
  have v: "BudgetValidator_ValidateFacet (al_facetSize l) (budgetValidator (NewBudgetValidator input)) (Some sources) =
      ValidateFacetBudgetsWithLimits (al_facetSize l) (AdmNormalizeLimits input) (Some sources)"
    by (simp add: BudgetValidator_ValidateFacet_def budgetValidator_def NewBudgetValidator_def BudgetValidator_Limits_def)
  have "ValidateFacet l (NewBudgetValidator input) (Some resolve) policy (Some (namespace, sources)) = [] \<longleftrightarrow>
    ValidateFacetBudgetsWithLimits (al_facetSize l) (AdmNormalizeLimits input) (Some sources) = [] \<and> ValidateFacetSemantics l (Some sources) = [] \<and>
    ?planned \<and> snap_terminalReason (Load (al_k8s l) policy) = NoReason \<and>
    concat (map (policyIssues (al_k8s l) (Load (al_k8s l) policy)) (indexed (zip sources (map projr (plannedSources l resolve namespace sources))))) = []"
    unfolding ValidateFacet_def Let_def option.case prod.case option.map snd_conv v planned_Nil[symmetric]
    by (simp only: result_Nil_iff budgetIssues_Nil list.distinct split: if_split) blast
  also have "\<dots> \<longleftrightarrow> facet_admissible l (AdmNormalizeLimits input) resolve policy namespace sources"
    unfolding FacetBudgets_Nil FacetSemantics_Nil facet_admissible_def AdmNormalizeLimits_idem
    using allowed_Nil[of sources l resolve namespace policy] by (auto simp: source_allowed_def)
  finally show ?thesis .
qed

text \<open>A concrete Facet with an operator, an aggregate and an admitting policy.\<close>

definition adm_lib :: "(string, string, string) AdmissionLib" where
  "adm_lib = \<lparr>al_k8s = \<lparr>isDNS1123Label = (\<lambda>_. True), isDNS1123Subdomain = (\<lambda>_. True)\<rparr>,
     al_schema = \<lparr>ParseGroupVersion = (\<lambda>v. Some \<lparr>gv_group = [], gv_version = v\<rparr>), GroupVersion_String = gv_version\<rparr>,
     al_selectors = wit_selector_lib, al_typed = sample_lib, al_operators = sample_rx, al_facetSize = (\<lambda>_. Some 300), al_policySize = (\<lambda>_. Some 100)\<rparr>"

definition adm_source :: FacetSource where
  "adm_source = (op_source 2)\<lparr>fs_aggregations := [\<lparr>fa_name = ''total'', fa_function = ''sum'', fa_field = ''age'', fa_groupBy = [''name''],
     fa_includeProvenance = False, fa_precision = None, fa_roundingMode = []\<rparr>]\<rparr>"

definition adm_resolve :: "SourceDescriptor \<Rightarrow> (ResolutionError, Resolution) res" where
  "adm_resolve d = Inr \<lparr>res_sourceID = sd_sourceID d, res_resource = \<lparr>gvr_group = [], gvr_version = ''v1'', gvr_resource = ''pods''\<rparr>,
     res_scope = ScopeNamespaced\<rparr>"

definition adm_policy :: FacetAccessPolicy where
  "adm_policy = \<lparr>fap_name = ''installation-access-ceiling'', fap_uid = ''u'', fap_generation = 1,
     fap_namespaces = \<lparr>np_mode = ''All'', np_include = [], np_exclude = [], np_systemNamespaces = None\<rparr>,
     fap_resources = [\<lparr>rr_apiGroups = [[]], rr_kinds = [''Pod'']\<rparr>], fap_allowClusterScoped = False\<rparr>"

theorem ValidateFacet_exact_witness:
  "facet_admissible adm_lib (AdmNormalizeLimits AdmDefaultLimits) adm_resolve (Some (Inr (Some adm_policy))) ''own'' [adm_source] \<and>
   \<not> facet_admissible adm_lib (AdmNormalizeLimits AdmDefaultLimits) adm_resolve (Some (Inr (Some adm_policy))) ''own'' [adm_source, adm_source]"
proof -
  have "ValidateFacet adm_lib (NewBudgetValidator AdmDefaultLimits) (Some adm_resolve) (Some (Inr (Some adm_policy))) (Some (''own'', [adm_source])) = []"
    "ValidateFacet adm_lib (NewBudgetValidator AdmDefaultLimits) (Some adm_resolve) (Some (Inr (Some adm_policy))) (Some (''own'', [adm_source, adm_source])) \<noteq> []"
    by code_simp+
  then show ?thesis by (simp only: ValidateFacet_exact simp_thms)
qed

text \<open>A refusal carries the most serious class of its issues (422 if any issue is a defect of the object, else 403 if
  any is a policy denial, else 503), and its causes are all the issues, in their order; without issues there is no refusal.\<close>

theorem resultError_class:
  "resultError kind r =
    (if r = [] then None
     else Some \<lparr>se_code = (if list_ex (\<lambda>i. is_class i = Invalid) r then 422 else if list_ex (\<lambda>i. is_class i = Forbidden) r then 403 else 503),
       se_statusReason = (if list_ex (\<lambda>i. is_class i = Invalid) r then ''Invalid'' else if list_ex (\<lambda>i. is_class i = Forbidden) r then ''Forbidden'' else ''ServiceUnavailable''),
       se_statusMessage = kind @ '' admission validation failed with '' @ show_nat (length r) @ '' issue(s)'',
       se_causes = map (\<lambda>i. (is_reason i, is_path i, is_message i)) (SortIssues r)\<rparr>)"
  by (simp add: resultError_def Result_Valid_def Result_Class_cases SortIssues_def Let_def list_ex_iff)

end
