(* ===== verification/Pipeline.thy ===== *)
theory Pipeline
  imports Publisher SelectionExecution Aggregation Admission
begin

text \<open>
  One reconciliation attempt, \<^verbatim>\<open>src/internal/reconciliation/pipeline.go\<close>.  The packages it calls directly (planning, binding, extraction,
  conversion, operators, aggregation, budgets) are the definitions of their theories.  What it reaches through a port or a context is
  the environment \<open>PipelineEnv\<close>: the Facet read, the lease, the policy source, discovery, the route manager, the list
  executor, the publisher, and for the \<open>n\<close>-th evaluation of \<^verbatim>\<open>evaluationState\<close> the \<open>n\<close>-th moment of contexts and tracker.  An attempt
  has the error and terminal it returns and the port calls it makes, in order.  Spans and metrics are left out.
\<close>

section \<open>Classification\<close>

record Terminal =
  tm_outcome :: string
  tm_reason :: string
  tm_scheduled :: bool

abbreviation terminal :: "string \<Rightarrow> string \<Rightarrow> Terminal" where
  "terminal outcome reason \<equiv> \<lparr>tm_outcome = outcome, tm_reason = reason, tm_scheduled = False\<rparr>"

fun resolution_reason_text :: "ResolutionErrorReason \<Rightarrow> string" where
  "resolution_reason_text UnknownType = ''UnknownType''"
| "resolution_reason_text DiscoveryUnavailable = ''DiscoveryUnavailable''"
| "resolution_reason_text InvalidDescriptor = ''InvalidDescriptor''"
| "resolution_reason_text AmbiguousResource = ''AmbiguousResource''"
| "resolution_reason_text InvalidScope = ''InvalidScope''"

text \<open>The \<^verbatim>\<open>errors.As\<close> chain: the first runtime error, else the first selection error, and so on.\<close>

definition reasonForRuntimeError :: "go_error \<Rightarrow> string" where
  "reasonForRuntimeError e = (case as_runtime e of
     Some n \<Rightarrow> rte_reason n
   | None \<Rightarrow>
      (case List.map_filter (\<lambda>n. case n of SelectionErr s \<Rightarrow> Some (sel_reason_text (se_reason s)) | _ \<Rightarrow> None) (error_nodes e) of
         r # _ \<Rightarrow> r
       | [] \<Rightarrow>
          (case List.map_filter (\<lambda>n. case n of ResolutionErr s \<Rightarrow> Some (resolution_reason_text (re_reason s)) | _ \<Rightarrow> None) (error_nodes e) of
             r # _ \<Rightarrow> r
           | [] \<Rightarrow>
              (case List.map_filter (\<lambda>n. case n of AuthorizationErr r \<Rightarrow> Some r | _ \<Rightarrow> None) (error_nodes e) of
                 r # _ \<Rightarrow> r
               | [] \<Rightarrow> ''InternalError''))))"

definition terminalForError :: "go_error option \<Rightarrow> Terminal" where
  "terminalForError err = (case err of
     None \<Rightarrow> terminal ''completed'' ''EvaluationSucceeded''
   | Some e \<Rightarrow>
      if errors_Is e ErrStaleLease then terminal ''skipped'' ''StaleLease''
      else if interrupted_error e then terminal ''skipped'' ''ReadInterrupted''
      else if IsRetryable err then \<lparr>tm_outcome = ''retry'', tm_reason = reasonForRuntimeError e, tm_scheduled = True\<rparr>
      else terminal ''failed'' (reasonForRuntimeError e))"

definition terminalForResult :: "FacetResult \<Rightarrow> Terminal" where
  "terminalForResult built =
     (if HasResultErrors built then terminal ''degraded'' ''EvaluationDegraded'' else terminal ''completed'' ''EvaluationSucceeded'')"

definition configurationBudgetRuntimeError :: "BudgetIssue list \<Rightarrow> go_error" where
  "configurationBudgetRuntimeError issues = terminalRuntimeError ''configuration-budget'' ''ConfigurationBudgetExceeded''
     (case issues of [] \<Rightarrow> ''current Facet exceeds the configured admission budget'' | i # _ \<Rightarrow> bi_path i @ '': '' @ bi_message i) None"

definition mapPlanningError :: "string \<Rightarrow> plan_error \<Rightarrow> SelectionError" where
  "mapPlanningError sid err = (case err of
     PlanSelectionError e \<Rightarrow> NewSelectionError sid (se_reason e) (se_message e)
   | PlanResolutionError e \<Rightarrow> NewSelectionError sid SelInvalidSource (''source discovery failed: '' @ resolution_reason_text (re_reason e)))"

definition isDiscoveryUnavailable :: "plan_error \<Rightarrow> bool" where
  "isDiscoveryUnavailable err = (case err of PlanResolutionError e \<Rightarrow> re_reason e = DiscoveryUnavailable | PlanSelectionError _ \<Rightarrow> False)"

definition mapBindingError :: "string \<Rightarrow> SelectionError \<Rightarrow> SelectionError" where
  "mapBindingError sid e = NewSelectionError sid (se_reason e) (se_message e)"

definition policyDecisionMessage :: "Decision \<Rightarrow> string" where
  "policyDecisionMessage decision =
    (if policy_reason_text (dec_reason decision) = [] then ''source target is denied by the installation policy''
     else ''source target is denied by installation policy: '' @ policy_reason_text (dec_reason decision))"

definition retryableSelectionError :: "SelectionError \<Rightarrow> bool" where
  "retryableSelectionError e \<longleftrightarrow> se_reason e = SelReadUnavailable \<or> se_reason e = SelListExpired"

definition AggPlan_Valid :: "AggPlanOutcome \<Rightarrow> bool" where
  "AggPlan_Valid o' \<longleftrightarrow> apo_sourceID o' \<noteq> [] \<and> list_all (\<lambda>e. \<not> isl e) (apo_entries o')"

definition configurationOutcome :: "'q TypedLib \<Rightarrow> 'r OpLib \<Rightarrow> FacetSource \<Rightarrow> AggregationBudgets \<Rightarrow> string" where
  "configurationOutcome lib rx source lims =
    (if isl (CompileSource source) then ''invalid''
     else if po_failures (TypedCompileSource source) \<noteq> [] then ''invalid''
     else if \<not> OPlan_Valid (OpCompileSource lib rx source) then ''invalid''
     else if \<not> AggPlan_Valid (PlanSource source lims) then ''invalid''
     else ''accepted'')"

definition assessmentForPlanningError :: "SourceAssessment \<Rightarrow> plan_error \<Rightarrow> SourceAssessment" where
  "assessmentForPlanningError a err = (case err of
     PlanResolutionError e \<Rightarrow>
       (case re_reason e of
          DiscoveryUnavailable \<Rightarrow> a\<lparr>sa_authorization := ''unavailable'', sa_resolution := ''unavailable''\<rparr>
        | UnknownType \<Rightarrow> a\<lparr>sa_authorization := ''not-evaluated'', sa_resolution := ''failed''\<rparr>
        | AmbiguousResource \<Rightarrow> a\<lparr>sa_authorization := ''not-evaluated'', sa_resolution := ''failed''\<rparr>
        | _ \<Rightarrow> a\<lparr>sa_configuration := ''invalid'', sa_authorization := ''not-evaluated'', sa_resolution := ''not-evaluated''\<rparr>)
   | PlanSelectionError e \<Rightarrow>
       (if se_reason e = SelInvalidSelector \<or> se_reason e = SelInvalidNamespaceScope
        then a\<lparr>sa_configuration := ''invalid'', sa_authorization := ''not-evaluated'', sa_resolution := ''resolved''\<rparr>
        else a\<lparr>sa_configuration := ''invalid'', sa_authorization := ''not-evaluated'', sa_resolution := ''not-evaluated''\<rparr>))"

definition authorizationOutcomeForDecision :: "Decision \<Rightarrow> string" where
  "authorizationOutcomeForDecision decision =
    (if dec_allowed decision \<and> dec_reason decision = ReasonAllowed then ''allowed''
     else case dec_reason decision of
       ReasonPolicyMissing \<Rightarrow> ''policy-missing''
     | ReasonPolicyInvalid \<Rightarrow> ''policy-invalid''
     | ReasonPolicyUnavailable \<Rightarrow> ''unavailable''
     | _ \<Rightarrow> ''denied'')"

definition globalAuthorizationOutcome :: "PolicyReason \<Rightarrow> nat \<Rightarrow> string option" where
  "globalAuthorizationOutcome reason sourceCount =
    (if sourceCount = 0 then None
     else case reason of
       ReasonPolicyMissing \<Rightarrow> Some ''policy-missing''
     | ReasonPolicyInvalid \<Rightarrow> Some ''policy-invalid''
     | ReasonPolicyUnavailable \<Rightarrow> Some ''unavailable''
     | _ \<Rightarrow> None)"

definition sourceHasResultFailure :: "FacetSourceResult \<Rightarrow> bool" where
  "sourceHasResultFailure source \<longleftrightarrow>
     fsr_state source = ''error'' \<or> fsr_error source \<noteq> None \<or> fsr_fieldErrors source \<noteq> [] \<or>
     list_ex (\<lambda>resource. frr_error resource \<noteq> None \<or>
       list_ex (\<lambda>field. ffr_state field = ''error'' \<or> ffr_error field \<noteq> None) (frr_fields resource)) (fsr_resources source) \<or>
     list_ex (\<lambda>aggregate. far_state aggregate = ''degraded'' \<or> far_state aggregate = ''error'' \<or> far_error aggregate \<noteq> None \<or>
       far_failures aggregate \<noteq> []) (fsr_aggregates source)"

text \<open>The reasons of a source result in the order \<^verbatim>\<open>sourceResultReason\<close> looks at them.\<close>

definition result_reasons :: "FacetSourceResult \<Rightarrow> string list" where
  "result_reasons source =
     (case fsr_error source of None \<Rightarrow> [] | Some e \<Rightarrow> [fre_reason e]) @ map ffe_reason (fsr_fieldErrors source) @
     concat (map (\<lambda>resource. (case frr_error resource of None \<Rightarrow> [] | Some e \<Rightarrow> [fre_reason e]) @
       List.map_filter (\<lambda>field. map_option fre_reason (ffr_error field)) (frr_fields resource)) (fsr_resources source)) @
     concat (map (\<lambda>aggregate. (case far_error aggregate of None \<Rightarrow> [] | Some e \<Rightarrow> [fre_reason e]) @
       map (\<lambda>failure. fre_reason (farf_error failure)) (far_failures aggregate)) (fsr_aggregates source))"

definition sourceResultReason :: "FacetSourceResult \<Rightarrow> string" where
  "sourceResultReason source = (case find (\<lambda>r. r \<noteq> []) (result_reasons source) of None \<Rightarrow> ''InternalError'' | Some r \<Rightarrow> r)"

definition evaluationTimedOutSourceResult :: "string \<Rightarrow> FacetSourceResult" where
  "evaluationTimedOutSourceResult sid = \<lparr>fsr_id = sid, fsr_state = ''error'', fsr_fieldErrors = [], fsr_resources = [], fsr_aggregates = [],
     fsr_error = Some \<lparr>fre_reason = ''EvaluationTimedOut'', fre_message = ''evaluation deadline exceeded''\<rparr>\<rparr>"

definition allSourcesCompleted :: "bool list \<Rightarrow> bool" where
  "allSourcesCompleted completed = list_all (\<lambda>d. d) completed"

section \<open>State\<close>

record Facet =
  fc_namespace :: string
  fc_uid :: UID
  fc_generation :: int
  fc_deleting :: bool
  fc_sources :: "FacetSource list"

record Moment =
  mo_leaseErr :: "go_error option"
  mo_tracker :: "FreshnessTracker option"
  mo_evalErr :: "go_error option"

datatype eval_state = Running | TimedOut | Interrupted

definition evaluationState :: "Moment \<Rightarrow> Lease \<Rightarrow> eval_state" where
  "evaluationState m lease =
    (if mo_leaseErr m \<noteq> None then Interrupted
     else if \<not> lease_current (mo_tracker m) lease then Interrupted
     else case mo_evalErr m of
       None \<Rightarrow> Running
     | Some e \<Rightarrow> if errors_Is e DeadlineExceeded then TimedOut else Interrupted)"

definition skippedTerminal :: "go_error option \<Rightarrow> Terminal" where
  "skippedTerminal ctxErr = (if ctxErr \<noteq> None then terminal ''skipped'' ''ReadInterrupted'' else terminal ''skipped'' ''StaleLease'')"

text \<open>\<^verbatim>\<open>plannedSource\<close> without its two fields that are only written.\<close>

record ('q, 'r) plannedSource =
  ps_source :: FacetSource
  ps_authorized :: "AuthorizedPlan option"
  ps_selectionErr :: "SelectionError option"
  ps_canExecute :: bool
  ps_authorizedSet :: "RouteBinding list"
  ps_authorizations :: "DecisionOutcome list"
  ps_operatorPlan :: "('q, 'r) OPlanOutcome"
  ps_aggregationPlan :: AggPlanOutcome
  ps_assessment :: SourceAssessment

datatype publish_ctx = LeaseCtx | EvaluationCtx

datatype pipeline_call =
    CallObserve UID int
  | CallMarkAbsent
  | CallRemoveOwner
  | CallAcquire UID int
  | CallLoadPolicy
  | CallResolve SourceDescriptor
  | CallAuthorize Subject "Request list"
  | CallReplace Lease "RouteBinding list"
  | CallExecute AuthorizedPlan
  | CallPublish publish_ctx Lease Evaluation
  | CallRelease

record ('q, 'r) Run =
  rn_clock :: nat
  rn_planned :: "('q, 'r) plannedSource list"
  rn_result :: FacetResult
  rn_completed :: "bool list"
  rn_policy :: PolicyReason
  rn_retryable :: "go_error list"
  rn_calls :: "pipeline_call list"

record Attempt =
  at_err :: "go_error option"
  at_terminal :: Terminal
  at_calls :: "pipeline_call list"

type_synonym json_object = "(string \<times> JValue) list option"

record ('q, 'r, 'f) PipelineLib =
  lb_k8s :: K8sValidation
  lb_typed :: "'q TypedLib"
  lb_ops :: "'r OpLib"
  lb_selectors :: "'f SelectorLib"
  lb_profile :: Profile
  lb_budgets :: "AdmissionBudgets option"
  lb_facetSize :: "FacetSource list \<Rightarrow> int option"
  lb_policySize :: "FacetAccessPolicy \<Rightarrow> int option"
  lb_outcomeSize :: "ResourceOutcome \<Rightarrow> nat option"
  lb_resourceSize :: "FacetResourceResult \<Rightarrow> nat option"
  lb_aggregateSize :: "FacetAggregateResult \<Rightarrow> nat option"

record PipelineEnv =
  en_get :: "(go_error, Facet) res"
  en_ctx :: "go_error option"
  en_acquire :: "(go_error, Lease) res"
  en_moment :: "nat \<Rightarrow> Moment"
  en_policy :: "(source_error, FacetAccessPolicy option) res option"
  en_resolve :: "nat \<Rightarrow> (SourceDescriptor \<Rightarrow> (ResolutionError, Resolution) res) option"
  en_authorizeCtx :: "nat \<Rightarrow> ctx"
  en_replace :: "RouteBinding list \<Rightarrow> go_error option"
  en_execute :: "nat \<Rightarrow> AuthorizedPlan \<Rightarrow> json_object SelectionOutcome"
  en_extractCtx :: "nat \<Rightarrow> ctx"
  en_convertCtx :: "nat \<Rightarrow> ctx"
  en_operateCtx :: "nat \<Rightarrow> ctx"
  en_aggregateCtx :: "nat \<Rightarrow> ctx"
  en_publish :: "Evaluation \<Rightarrow> go_error option"

section \<open>Checkpoints\<close>

definition tick :: "('q, 'r) Run \<Rightarrow> ('q, 'r) Run" where
  "tick r = r\<lparr>rn_clock := Suc (rn_clock r)\<rparr>"

definition port_call :: "pipeline_call \<Rightarrow> ('q, 'r) Run \<Rightarrow> ('q, 'r) Run" where
  "port_call c r = r\<lparr>rn_calls := rn_calls r @ [c]\<rparr>"

definition skip_error :: "go_error \<Rightarrow> bool" where
  "skip_error e \<longleftrightarrow> errors_Is e ErrStaleLease \<or> interrupted_error e"

definition skipped :: "PipelineEnv \<Rightarrow> ('q, 'r) Run \<Rightarrow> Attempt" where
  "skipped env r = \<lparr>at_err = None, at_terminal = skippedTerminal (mo_leaseErr (en_moment env (rn_clock r))), at_calls = rn_calls r\<rparr>"

definition returns :: "go_error \<Rightarrow> ('q, 'r) Run \<Rightarrow> Attempt" where
  "returns e r = \<lparr>at_err = Some e, at_terminal = terminalForError (Some e), at_calls = rn_calls r\<rparr>"

definition assessmentsForPlanned :: "('q, 'r) plannedSource list \<Rightarrow> SourceAssessment list" where
  "assessmentsForPlanned planned = map ps_assessment planned"

definition result_evaluation :: "FacetResult \<Rightarrow> nat \<Rightarrow> ('q, 'r) Run \<Rightarrow> Evaluation" where
  "result_evaluation built n r = \<lparr>ev_result = Some built, ev_sources = assessmentsForPlanned (rn_planned r),
     ev_globalAuthorization = globalAuthorizationOutcome (rn_policy r) n, ev_resultUnavailable = False, ev_resultLimitExceeded = False,
     ev_configurationBudgetExceeded = False\<rparr>"

definition timeout_error :: go_error where
  "timeout_error = transientRuntimeError ''evaluation'' [] ''EvaluationTimedOut'' ''evaluation deadline exceeded'' None"

definition timed_out_result :: "FacetSource list \<Rightarrow> ('q, 'r) Run \<Rightarrow> FacetResult" where
  "timed_out_result sources r = map (\<lambda>i. if rn_completed r ! i then rn_result r ! i else evaluationTimedOutSourceResult (fs_id (sources ! i)))
     [0..<length sources]"

definition finishTimedOutEvaluation :: "PipelineEnv \<Rightarrow> Lease \<Rightarrow> FacetSource list \<Rightarrow> ('q, 'r) Run \<Rightarrow> Attempt" where
  "finishTimedOutEvaluation env lease sources r =
    (let m = en_moment env (rn_clock r); r1 = tick r in
     if mo_leaseErr m \<noteq> None \<or> \<not> lease_current (mo_tracker m) lease then skipped env r1
     else
       let ev = result_evaluation (timed_out_result sources r1) (length sources) r1;
           r2 = port_call (CallPublish LeaseCtx lease ev) r1 in
       case en_publish env ev of
         Some e \<Rightarrow> if skip_error e then skipped env r2 else returns (JoinedError [timeout_error, e]) r2
       | None \<Rightarrow> returns timeout_error r2)"

definition checkpoint :: "PipelineEnv \<Rightarrow> Lease \<Rightarrow> FacetSource list \<Rightarrow> ('q, 'r) Run \<Rightarrow> Attempt + ('q, 'r) Run" where
  "checkpoint env lease sources r = (case evaluationState (en_moment env (rn_clock r)) lease of
     Running \<Rightarrow> Inr (tick r)
   | TimedOut \<Rightarrow> Inl (finishTimedOutEvaluation env lease sources (tick r))
   | Interrupted \<Rightarrow> Inl (skipped env (tick r)))"

text \<open>The checkpoints behind a completed source: a deadline no longer matters once all sources are completed.\<close>

definition completed_checkpoint :: "PipelineEnv \<Rightarrow> Lease \<Rightarrow> FacetSource list \<Rightarrow> ('q, 'r) Run \<Rightarrow> Attempt + ('q, 'r) Run" where
  "completed_checkpoint env lease sources r = (case evaluationState (en_moment env (rn_clock r)) lease of
     Running \<Rightarrow> Inr (tick r)
   | TimedOut \<Rightarrow> if allSourcesCompleted (rn_completed r) then Inr (tick r) else Inl (finishTimedOutEvaluation env lease sources (tick r))
   | Interrupted \<Rightarrow> Inl (skipped env (tick r)))"

section \<open>Planning and authorization\<close>

definition zero_source_result :: FacetSourceResult where
  "zero_source_result = \<lparr>fsr_id = [], fsr_state = [], fsr_fieldErrors = [], fsr_resources = [], fsr_aggregates = [], fsr_error = None\<rparr>"

definition initialEntry :: "('q, 'r, 'f) PipelineLib \<Rightarrow> nat \<Rightarrow> FacetSource \<Rightarrow> ('q, 'r) plannedSource" where
  "initialEntry lib i source =
    (let lims = LimitsFromProfile (lb_profile lib) in
     \<lparr>ps_source = source, ps_authorized = None, ps_selectionErr = None, ps_canExecute = False, ps_authorizedSet = [], ps_authorizations = [],
      ps_operatorPlan = OpCompileSource (lb_typed lib) (lb_ops lib) source, ps_aggregationPlan = PlanSource source lims,
      ps_assessment = \<lparr>sa_index = int i, sa_configuration = configurationOutcome (lb_typed lib) (lb_ops lib) source lims,
        sa_authorization = ''not-evaluated'', sa_resolution = ''not-evaluated''\<rparr>\<rparr>)"

definition initialRun :: "('q, 'r, 'f) PipelineLib \<Rightarrow> FacetSource list \<Rightarrow> pipeline_call list \<Rightarrow> nat \<Rightarrow> ('q, 'r) Run" where
  "initialRun lib sources calls clock = \<lparr>rn_clock = clock,
     rn_planned = map (\<lambda>i. initialEntry lib i (sources ! i)) [0..<length sources],
     rn_result = replicate (length sources) zero_source_result, rn_completed = replicate (length sources) False, rn_policy = NoReason,
     rn_retryable = [], rn_calls = calls\<rparr>"

definition set_authorization :: "string \<Rightarrow> ('q, 'r) plannedSource \<Rightarrow> ('q, 'r) plannedSource" where
  "set_authorization o' entry = entry\<lparr>ps_assessment := (ps_assessment entry)\<lparr>sa_authorization := o'\<rparr>\<rparr>"

definition applyDecision :: "string \<Rightarrow> DecisionOutcome \<Rightarrow> ('q, 'r) plannedSource \<Rightarrow> ('q, 'r) plannedSource" where
  "applyDecision sid outcome entry =
    (let decision = do_decision outcome in
     if dec_allowed decision then entry
     else (set_authorization (authorizationOutcomeForDecision decision) entry)\<lparr>ps_selectionErr :=
       (case ps_selectionErr entry of
          Some e \<Rightarrow> Some e
        | None \<Rightarrow> Some (NewSelectionError sid SelAuthorizationDenied (policyDecisionMessage decision)))\<rparr>)"

text \<open>The routes of the targets until one fails, and the failure.\<close>

fun buildRoutes :: "K8sValidation \<Rightarrow> string \<Rightarrow> (ReadTarget \<times> DecisionOutcome) list \<Rightarrow> RouteBinding list \<times> SelectionError option" where
  "buildRoutes k sid [] = ([], None)"
| "buildRoutes k sid ((target, outcome) # rest) = (case do_capability outcome of
     None \<Rightarrow> ([], Some (NewSelectionError sid SelAuthorizationMismatch ''authorized route has no matching capability''))
   | Some capability \<Rightarrow>
      (case NewAuthorizedRoute k target capability of
         Inl _ \<Rightarrow> ([], Some (NewSelectionError sid SelAuthorizationMismatch ''authorized route could not be constructed''))
       | Inr route \<Rightarrow> (case buildRoutes k sid rest of (routes, failure) \<Rightarrow> (route # routes, failure))))"

definition authorizeEntry ::
  "K8sValidation \<Rightarrow> SelectionPlan \<Rightarrow> DecisionOutcome list \<Rightarrow> ('q, 'r) plannedSource \<Rightarrow> ('q, 'r) plannedSource" where
  "authorizeEntry k plan outcomes entry =
    (let sid = fs_id (ps_source entry);
         e1 = fold (applyDecision sid) outcomes (entry\<lparr>ps_authorizations := outcomes\<rparr>);
         e2 = (if sa_authorization (ps_assessment e1) = ''not-evaluated'' then set_authorization ''allowed'' e1 else e1);
         auth = sa_authorization (ps_assessment e2) in
     case BindCapabilities plan outcomes of
       Inl b \<Rightarrow>
         (if auth = ''allowed'' \<or> auth = ''not-evaluated'' then set_authorization ''unavailable'' e2 else e2)
           \<lparr>ps_selectionErr := (case ps_selectionErr e2 of Some e \<Rightarrow> Some e | None \<Rightarrow> Some (mapBindingError sid b))\<rparr>
     | Inr bound \<Rightarrow>
         (case buildRoutes k sid (zip (pl_targets plan) outcomes) of
            (routes, failure) \<Rightarrow> e2\<lparr>ps_authorized := Some bound, ps_canExecute := (failure = None), ps_authorizedSet := routes,
              ps_selectionErr := (case failure of Some e \<Rightarrow> Some e | None \<Rightarrow> ps_selectionErr e2)\<rparr>))"

definition store :: "nat \<Rightarrow> ('q, 'r) plannedSource \<Rightarrow> ('q, 'r) Run \<Rightarrow> ('q, 'r) Run" where
  "store i entry r = r\<lparr>rn_planned := (rn_planned r)[i := entry]\<rparr>"

definition descriptor_of :: "FacetSource \<Rightarrow> SourceDescriptor" where
  "descriptor_of source = \<lparr>sd_sourceID = fs_id source, sd_apiVersion = ref_apiVersion (fs_resource source), sd_kind = ref_kind (fs_resource source)\<rparr>"

text \<open>The planner asks discovery only for a well-formed source.\<close>

definition resolve_call :: "('q, 'r, 'f) PipelineLib \<Rightarrow> PipelineEnv \<Rightarrow> nat \<Rightarrow> FacetSource \<Rightarrow> ('q, 'r) Run \<Rightarrow> ('q, 'r) Run" where
  "resolve_call lib env i source r =
    (if isl (validateSource (lb_k8s lib) source) \<or> en_resolve env i = None then r else port_call (CallResolve (descriptor_of source)) r)"

definition planEntryFailed :: "nat \<Rightarrow> ('q, 'r) plannedSource \<Rightarrow> plan_error \<Rightarrow> ('q, 'r) Run \<Rightarrow> ('q, 'r) Run" where
  "planEntryFailed i entry err r =
    (let sid = fs_id (ps_source entry);
         r1 = store i (entry\<lparr>ps_selectionErr := Some (mapPlanningError sid err), ps_assessment := assessmentForPlanningError (ps_assessment entry) err\<rparr>) r in
     if isDiscoveryUnavailable err
     then r1\<lparr>rn_retryable := rn_retryable r1 @ [transientRuntimeError ''discovery'' sid ''ReadUnavailable'' ''source discovery is unavailable'' None]\<rparr>
     else r1)"

definition authorizeSourceAt ::
  "('q, 'r, 'f) PipelineLib \<Rightarrow> PipelineEnv \<Rightarrow> Lease \<Rightarrow> Subject \<Rightarrow> Snapshot \<Rightarrow> FacetSource list \<Rightarrow> nat \<Rightarrow> SelectionPlan \<Rightarrow> ('q, 'r) plannedSource \<Rightarrow>
   ('q, 'r) Run \<Rightarrow> Attempt + ('q, 'r) Run" where
  "authorizeSourceAt lib env lease subject snapshot sources i plan entry r =
    (let requests = map RequestForTarget (pl_targets plan); r1 = port_call (CallAuthorize subject requests) r in
     case fst (EvaluateBatch (lb_k8s lib) (en_authorizeCtx env i) subject snapshot requests) of
       Inl _ \<Rightarrow> res_bind (checkpoint env lease sources r1) (\<lambda>r2.
         Inr (store i (entry\<lparr>ps_selectionErr := Some (NewSelectionError (fs_id (sources ! i)) SelAuthorizationMismatch
           ''source authorization could not be evaluated'')\<rparr>) r2))
     | Inr outcomes \<Rightarrow> Inr (store i (authorizeEntry (lb_k8s lib) plan outcomes entry) r1))"

definition planReadySource ::
  "('q, 'r, 'f) PipelineLib \<Rightarrow> PipelineEnv \<Rightarrow> Lease \<Rightarrow> string \<Rightarrow> Subject \<Rightarrow> Snapshot \<Rightarrow> FacetSource list \<Rightarrow> nat \<Rightarrow> ('q, 'r) Run \<Rightarrow>
   Attempt + ('q, 'r) Run" where
  "planReadySource lib env lease namespace subject snapshot sources i r =
    (let entry = rn_planned r ! i; r1 = resolve_call lib env i (sources ! i) r in
     if \<not> OPlan_Valid (ps_operatorPlan entry) then
       Inr (store i (entry\<lparr>ps_assessment := (ps_assessment entry)\<lparr>sa_configuration := ''invalid''\<rparr>\<rparr>) r)
     else case Plan (lb_k8s lib) (lb_selectors lib) (en_resolve env i) namespace (sources ! i) of
       Inl err \<Rightarrow> Inr (planEntryFailed i entry err r1)
     | Inr plan \<Rightarrow> authorizeSourceAt lib env lease subject snapshot sources i plan
         (entry\<lparr>ps_assessment := (ps_assessment entry)\<lparr>sa_resolution := ''resolved''\<rparr>\<rparr>) r1)"

definition planSourceAt ::
  "('q, 'r, 'f) PipelineLib \<Rightarrow> PipelineEnv \<Rightarrow> Lease \<Rightarrow> string \<Rightarrow> Subject \<Rightarrow> Snapshot \<Rightarrow> FacetSource list \<Rightarrow> nat \<Rightarrow> ('q, 'r) Run \<Rightarrow>
   Attempt + ('q, 'r) Run" where
  "planSourceAt lib env lease namespace subject snapshot sources i r =
     res_bind (checkpoint env lease sources r) (planReadySource lib env lease namespace subject snapshot sources i)"

fun planSources ::
  "('q, 'r, 'f) PipelineLib \<Rightarrow> PipelineEnv \<Rightarrow> Lease \<Rightarrow> string \<Rightarrow> Subject \<Rightarrow> Snapshot \<Rightarrow> FacetSource list \<Rightarrow> nat list \<Rightarrow> ('q, 'r) Run \<Rightarrow>
   Attempt + ('q, 'r) Run" where
  "planSources lib env lease namespace subject snapshot sources [] r = Inr r"
| "planSources lib env lease namespace subject snapshot sources (i # is) r =
    res_bind (planSourceAt lib env lease namespace subject snapshot sources i r)
      (\<lambda>r'. planSources lib env lease namespace subject snapshot sources is r')"

section \<open>Routes\<close>

definition planned_routes :: "('q, 'r) plannedSource list \<Rightarrow> RouteBinding list" where
  "planned_routes planned = concat (map ps_authorizedSet (filter (\<lambda>e. ps_canExecute e \<and> ps_selectionErr e = None) planned))"

definition installRoutes :: "PipelineEnv \<Rightarrow> Lease \<Rightarrow> FacetSource list \<Rightarrow> ('q, 'r) Run \<Rightarrow> Attempt + ('q, 'r) Run" where
  "installRoutes env lease sources r =
    (let routes = planned_routes (rn_planned r); r1 = port_call (CallReplace lease routes) r in
     res_bind (checkpoint env lease sources r1) (\<lambda>r2.
       case en_replace env routes of
         None \<Rightarrow> Inr r2
       | Some e \<Rightarrow>
           if errors_Is e ErrStaleLease \<or> \<not> IsRetryable (Some e) \<and> \<not> lease_current (mo_tracker (en_moment env (rn_clock r2))) lease
           then Inl (skipped env (tick r2))
           else Inl (returns e (tick r2))))"

definition replaceRoutes :: "PipelineEnv \<Rightarrow> Lease \<Rightarrow> FacetSource list \<Rightarrow> ('q, 'r) Run \<Rightarrow> Attempt + ('q, 'r) Run" where
  "replaceRoutes env lease sources r = res_bind (checkpoint env lease sources r) (installRoutes env lease sources)"

section \<open>Evaluation\<close>

definition selectSource :: "PipelineEnv \<Rightarrow> nat \<Rightarrow> ('q, 'r) Run \<Rightarrow> json_object SelectionOutcome \<times> ('q, 'r) Run" where
  "selectSource env i r =
    (let entry = rn_planned r ! i; sid = fs_id (ps_source entry) in
     case (if ps_canExecute entry \<and> ps_selectionErr entry = None then ps_authorized entry else None) of
       None \<Rightarrow> (\<lparr>so_sourceID = sid, so_resources = [], so_err = ps_selectionErr entry\<rparr>, r)
     | Some plan \<Rightarrow>
         let outcome = en_execute env i plan; r1 = port_call (CallExecute plan) r in
         (outcome,
          case so_err outcome of
            None \<Rightarrow> r1
          | Some e \<Rightarrow>
              let r2 = (if se_reason e = SelReadForbidden then store i (set_authorization ''read-forbidden'' entry) r1 else r1) in
              if retryableSelectionError e
              then r2\<lparr>rn_retryable := rn_retryable r2 @ [transientRuntimeError ''selection'' sid ''ReadUnavailable''
                ''source selection is temporarily unavailable'' (Some (SelectionErr e))]\<rparr>
              else r2))"

definition extractStage :: "('q, 'r, 'f) PipelineLib \<Rightarrow> PipelineEnv \<Rightarrow> nat \<Rightarrow> FacetSource \<Rightarrow> json_object SelectionOutcome \<Rightarrow> SourceOutcome" where
  "extractStage lib env i source selection =
     ExtractBatchWithLimit (lb_outcomeSize lib) (maxProducedValueBytes (lb_profile lib)) (en_extractCtx env i) [(source, selection)] ! 0"

definition convertStage :: "('q, 'r, 'f) PipelineLib \<Rightarrow> PipelineEnv \<Rightarrow> nat \<Rightarrow> FacetSource \<Rightarrow> SourceOutcome \<Rightarrow> 'q TSourceOutcome" where
  "convertStage lib env i source extracted =
     ConvertBatchWithLimit (lb_typed lib) (lb_resourceSize lib) (maxProducedValueBytes (lb_profile lib)) (en_convertCtx env i) [(source, extracted)] ! 0"

definition operateStage :: "('q, 'r, 'f) PipelineLib \<Rightarrow> PipelineEnv \<Rightarrow> nat \<Rightarrow> ('q, 'r) OPlanOutcome \<Rightarrow> 'q TSourceOutcome \<Rightarrow> 'q OSourceOutcome" where
  "operateStage lib env i plan converted =
     EvaluateBatchWithLimit (lb_typed lib) (lb_ops lib) (lb_resourceSize lib) (maxProducedValueBytes (lb_profile lib)) (en_operateCtx env i)
       [(plan, converted)] ! 0"

definition aggregateStage :: "('q, 'r, 'f) PipelineLib \<Rightarrow> PipelineEnv \<Rightarrow> nat \<Rightarrow> AggPlanOutcome \<Rightarrow> 'q OSourceOutcome \<Rightarrow> 'q AggSourceOutcome" where
  "aggregateStage lib env i plan operated =
     AggEvaluateBatchWithLimit (lb_typed lib) (lb_aggregateSize lib) (maxProducedValueBytes (lb_profile lib)) (en_aggregateCtx env i)
       [\<lparr>ai_plan = plan, ai_operators = operated, ai_operator = zeroOperator\<rparr>] ! 0"

definition complete :: "nat \<Rightarrow> FacetSourceResult \<Rightarrow> ('q, 'r) Run \<Rightarrow> ('q, 'r) Run" where
  "complete i source r = r\<lparr>rn_result := (rn_result r)[i := source], rn_completed := (rn_completed r)[i := True]\<rparr>"

text \<open>The projection of one source; the second component is the construction error that ends the loop.\<close>

definition projectSource ::
  "('q, 'r, 'f) PipelineLib \<Rightarrow> PipelineEnv \<Rightarrow> Lease \<Rightarrow> FacetSource list \<Rightarrow> nat \<Rightarrow> 'q AggSourceOutcome \<Rightarrow> ('q, 'r) Run \<Rightarrow>
   Attempt + ('q, 'r) Run \<times> string option" where
  "projectSource lib env lease sources i aggregated r = (case BuildResultChecked (lb_typed lib) [aggregated] of
      Inl e \<Rightarrow> Inr (r, Some e)
    | Inr [source] \<Rightarrow> res_bind (completed_checkpoint env lease sources (complete i source r)) (\<lambda>r1. Inr (r1, None))
    | Inr _ \<Rightarrow> Inr (r, Some ''source result projection returned an unexpected source count''))"

text \<open>The stages behind the selection, with a checkpoint before each.\<close>

definition evaluateStages ::
  "('q, 'r, 'f) PipelineLib \<Rightarrow> PipelineEnv \<Rightarrow> Lease \<Rightarrow> FacetSource list \<Rightarrow> nat \<Rightarrow> ('q, 'r) plannedSource \<Rightarrow>
   json_object SelectionOutcome \<times> ('q, 'r) Run \<Rightarrow> Attempt + ('q, 'r) Run \<times> string option" where
  "evaluateStages lib env lease sources i entry selected =
    res_bind (checkpoint env lease sources (snd selected)) (\<lambda>r1.
    let extracted = extractStage lib env i (ps_source entry) (fst selected) in
    res_bind (checkpoint env lease sources r1) (\<lambda>r2.
    let converted = convertStage lib env i (ps_source entry) extracted in
    res_bind (checkpoint env lease sources r2) (\<lambda>r3.
    let operated = operateStage lib env i (ps_operatorPlan entry) converted in
    res_bind (checkpoint env lease sources r3) (\<lambda>r4.
    let aggregated = aggregateStage lib env i (ps_aggregationPlan entry) operated in
    res_bind (checkpoint env lease sources r4) (projectSource lib env lease sources i aggregated)))))"

definition evaluateSourceAt ::
  "('q, 'r, 'f) PipelineLib \<Rightarrow> PipelineEnv \<Rightarrow> Lease \<Rightarrow> FacetSource list \<Rightarrow> nat \<Rightarrow> ('q, 'r) Run \<Rightarrow> Attempt + ('q, 'r) Run \<times> string option" where
  "evaluateSourceAt lib env lease sources i r =
     res_bind (checkpoint env lease sources r) (\<lambda>r1. evaluateStages lib env lease sources i (rn_planned r1 ! i) (selectSource env i r1))"

fun evaluateSourcesFrom ::
  "('q, 'r, 'f) PipelineLib \<Rightarrow> PipelineEnv \<Rightarrow> Lease \<Rightarrow> FacetSource list \<Rightarrow> nat list \<Rightarrow> ('q, 'r) Run \<Rightarrow> Attempt + ('q, 'r) Run \<times> string option" where
  "evaluateSourcesFrom lib env lease sources [] r = Inr (r, None)"
| "evaluateSourcesFrom lib env lease sources (i # is) r =
    res_bind (evaluateSourceAt lib env lease sources i r) (\<lambda>(r', buildErr).
      if buildErr = None then evaluateSourcesFrom lib env lease sources is r' else Inr (r', buildErr))"

section \<open>Publication\<close>

definition publishUnavailable :: "PipelineEnv \<Rightarrow> Lease \<Rightarrow> nat \<Rightarrow> string \<Rightarrow> ('q, 'r) Run \<Rightarrow> Attempt" where
  "publishUnavailable env lease n message r =
    (let e = transientRuntimeError ''result-build'' [] ''BuildFailure'' ''candidate result construction failed'' (Some (OtherError message));
         ev = \<lparr>ev_result = None, ev_sources = assessmentsForPlanned (rn_planned r),
           ev_globalAuthorization = globalAuthorizationOutcome (rn_policy r) n, ev_resultUnavailable = True, ev_resultLimitExceeded = False,
           ev_configurationBudgetExceeded = False\<rparr>;
         r1 = port_call (CallPublish EvaluationCtx lease ev) r in
     case en_publish env ev of
       None \<Rightarrow> returns e r1
     | Some p \<Rightarrow> if skip_error p then returns e r1 else returns (JoinedError [e, p]) r1)"

definition publishResult :: "PipelineEnv \<Rightarrow> Lease \<Rightarrow> nat \<Rightarrow> ('q, 'r) Run \<Rightarrow> Attempt" where
  "publishResult env lease n r =
    (let ev = result_evaluation (rn_result r) n r;
         c = (if mo_evalErr (en_moment env (rn_clock r)) \<noteq> None then LeaseCtx else EvaluationCtx);
         r1 = port_call (CallPublish c lease ev) (tick r);
         finish = (\<lambda>retryable. if retryable \<noteq> [] then returns (JoinedError retryable) r1
           else \<lparr>at_err = None, at_terminal = terminalForResult (rn_result r), at_calls = rn_calls r1\<rparr>) in
     case en_publish env ev of
       None \<Rightarrow> finish (rn_retryable r1)
     | Some e \<Rightarrow>
         if skip_error e then skipped env r1
         else if IsRetryable (Some e) then finish (rn_retryable r1 @ [e])
         else returns e r1)"

definition rejectBudget :: "PipelineEnv \<Rightarrow> Lease \<Rightarrow> BudgetIssue list \<Rightarrow> ('q, 'r) Run \<Rightarrow> Attempt" where
  "rejectBudget env lease issues r =
    (let ev = empty_evaluation\<lparr>ev_configurationBudgetExceeded := True\<rparr>;
         r1 = port_call (CallPublish LeaseCtx lease ev) (port_call CallRemoveOwner r) in
     case en_publish env ev of
       None \<Rightarrow> returns (configurationBudgetRuntimeError issues) r1
     | Some e \<Rightarrow> if skip_error e then skipped env r1 else returns e r1)"

section \<open>The attempt\<close>

definition policy_guard :: "('q, 'r, 'f) PipelineLib \<Rightarrow> FacetAccessPolicy \<Rightarrow> bool" where
  "policy_guard lib policy = (BudgetValidator_ValidateAccessPolicy (lb_policySize lib) (lb_budgets lib) (Some policy) = [])"

definition zero_snapshot :: Snapshot where
  "zero_snapshot = \<lparr>snap_policy = None, snap_terminalReason = NoReason, snap_terminalMessage = [], snap_policyIdentity = None\<rparr>"

text \<open>Loading the policy: not for a Facet without sources.\<close>

definition loadPolicy ::
  "('q, 'r, 'f) PipelineLib \<Rightarrow> PipelineEnv \<Rightarrow> Lease \<Rightarrow> FacetSource list \<Rightarrow> ('q, 'r) Run \<Rightarrow> Attempt + Snapshot \<times> ('q, 'r) Run" where
  "loadPolicy lib env lease sources r =
    (if sources = [] then Inr (zero_snapshot, r)
     else
       let snapshot = LoadWithValidation (lb_k8s lib) (en_policy env) (Some (policy_guard lib));
           r1 = (port_call CallLoadPolicy r)\<lparr>rn_policy := snap_terminalReason snapshot\<rparr> in
       res_bind (checkpoint env lease sources r1) (\<lambda>r2.
         Inr (snapshot, if snap_terminalReason snapshot = ReasonPolicyUnavailable
           then r2\<lparr>rn_retryable := rn_retryable r2 @ [transientRuntimeError ''policy-load'' [] ''PolicyUnavailable'' ''installation policy is unavailable'' None]\<rparr>
           else r2)))"

definition finishAttempt :: "PipelineEnv \<Rightarrow> Lease \<Rightarrow> FacetSource list \<Rightarrow> ('q, 'r) Run \<times> string option \<Rightarrow> Attempt" where
  "finishAttempt env lease sources rb = (case rb of
     (r, Some message) \<Rightarrow> publishUnavailable env lease (length sources) message r
   | (r, None) \<Rightarrow>
      (case completed_checkpoint env lease sources r of
         Inl a \<Rightarrow> a
       | Inr r' \<Rightarrow> publishResult env lease (length sources) r'))"

text \<open>The attempt from planning on: plan and authorize, install the routes, evaluate, publish.\<close>

definition runSources ::
  "('q, 'r, 'f) PipelineLib \<Rightarrow> PipelineEnv \<Rightarrow> Lease \<Rightarrow> string \<Rightarrow> FacetSource list \<Rightarrow> Subject \<Rightarrow> Snapshot \<Rightarrow> ('q, 'r) Run \<Rightarrow> Attempt + Attempt" where
  "runSources lib env lease namespace sources subject snapshot r =
    res_bind (planSources lib env lease namespace subject snapshot sources [0..<length sources] r) (\<lambda>r1.
    res_bind (replaceRoutes env lease sources r1) (\<lambda>r2.
    res_bind (evaluateSourcesFrom lib env lease sources [0..<length sources] r2) (\<lambda>rb.
    Inr (finishAttempt env lease sources rb))))"

text \<open>A subject that cannot be built ends the attempt without an error.\<close>

definition runSubject ::
  "('q, 'r, 'f) PipelineLib \<Rightarrow> PipelineEnv \<Rightarrow> Lease \<Rightarrow> string \<Rightarrow> FacetSource list \<Rightarrow> Snapshot \<times> ('q, 'r) Run \<Rightarrow> Attempt + Attempt" where
  "runSubject lib env lease namespace sources loaded =
    (let subject = NewSubject (ls_key lease) (ls_uid lease) (ls_generation lease) (ls_policyEpoch lease) in
     if sources \<noteq> [] \<and> isl subject then
       Inl \<lparr>at_err = None, at_terminal = terminalForError (Some (OtherError ''subject'')), at_calls = rn_calls (snd loaded)\<rparr>
     else runSources lib env lease namespace sources (projr subject) (fst loaded) (snd loaded))"

text \<open>The attempt below the lease.\<close>

definition evaluateFacet :: "('q, 'r, 'f) PipelineLib \<Rightarrow> PipelineEnv \<Rightarrow> Lease \<Rightarrow> Facet \<Rightarrow> pipeline_call list \<Rightarrow> Attempt" where
  "evaluateFacet lib env lease object calls =
    (let sources = fc_sources object; r0 = initialRun lib sources calls 1;
         issues = BudgetValidator_ValidateFacet (lb_facetSize lib) (lb_budgets lib) (Some sources) in
     if evaluationState (en_moment env 0) lease = Interrupted then skipped env r0
     else if issues \<noteq> [] then rejectBudget env lease issues r0
     else case_sum id id
       (res_bind (checkpoint env lease sources r0) (\<lambda>r1.
        res_bind (loadPolicy lib env lease sources r1) (runSubject lib env lease (fc_namespace object) sources))))"

definition reconcileKey :: "('q, 'r, 'f) PipelineLib \<Rightarrow> PipelineEnv \<Rightarrow> Attempt" where
  "reconcileKey lib env = (case en_get env of
     Inl e \<Rightarrow>
       if api_reason_of e = Some ApiNotFound then
         \<lparr>at_err = None, at_terminal = terminal ''skipped'' ''ObjectAbsent'', at_calls = [CallRemoveOwner, CallMarkAbsent]\<rparr>
       else if en_ctx env \<noteq> None then \<lparr>at_err = None, at_terminal = skippedTerminal (en_ctx env), at_calls = []\<rparr>
       else (let e' = transientRuntimeError ''kubefacet-read'' [] ''ReadUnavailable'' ''Facet is unavailable'' (Some e) in
             \<lparr>at_err = Some e', at_terminal = terminalForError (Some e'), at_calls = []\<rparr>)
   | Inr object \<Rightarrow>
       if fc_deleting object then
         \<lparr>at_err = None, at_terminal = terminal ''skipped'' ''ObjectDeleting'',
          at_calls = [CallObserve (fc_uid object) (fc_generation object), CallRemoveOwner, CallMarkAbsent]\<rparr>
       else
         (let acquired = [CallAcquire (fc_uid object) (fc_generation object)] in
          case en_acquire env of
            Inl e \<Rightarrow>
              if errors_Is e ErrStaleLease \<or> en_ctx env \<noteq> None
              then \<lparr>at_err = None, at_terminal = skippedTerminal (en_ctx env), at_calls = acquired\<rparr>
              else \<lparr>at_err = Some e, at_terminal = terminalForError (Some e), at_calls = acquired\<rparr>
          | Inr lease \<Rightarrow>
              let a = evaluateFacet lib env lease object acquired in a\<lparr>at_calls := at_calls a @ [CallRelease]\<rparr>))"

end
