(* ===== verification/PipelineSafety.thy ===== *)
theory PipelineSafety
  imports Pipeline
begin

text \<open>
  What one reconciliation attempt may do: every list call follows a route replacement that covers it and carries a capability of
  the attempt's lease that the loaded policy allows, and the publisher gets at most one evaluation, which it can compose.
\<close>

section \<open>Invariants\<close>

definition attempt_snapshot :: "('q, 'r, 'f) PipelineLib \<Rightarrow> PipelineEnv \<Rightarrow> Snapshot" where
  "attempt_snapshot lib env = LoadWithValidation (lb_k8s lib) (en_policy env) (Some (policy_guard lib))"

text \<open>A read the lease and the policy allow, with a route among \<open>routes\<close> for its own capability and address.\<close>

definition read_covered :: "('q, 'r, 'f) PipelineLib \<Rightarrow> PipelineEnv \<Rightarrow> Lease \<Rightarrow> RouteBinding list \<Rightarrow> AuthorizedRead \<Rightarrow> bool" where
  "read_covered lib env lease routes read \<longleftrightarrow> AuthorizedRead_Valid read \<and> cap_subject (ar_capability read) = subject_of lease \<and>
     dec_allowed (Evaluate (lb_k8s lib) (attempt_snapshot lib env) (RequestForTarget (ar_target read))) \<and>
     list_ex (\<lambda>b. rb_capability b = ar_capability read \<and> AddressForTarget (lb_k8s lib) (ar_target read) = Inr (rb_address b)) routes"

definition entry_ok :: "('q, 'r, 'f) PipelineLib \<Rightarrow> PipelineEnv \<Rightarrow> Lease \<Rightarrow> ('q, 'r) plannedSource \<Rightarrow> bool" where
  "entry_ok lib env lease entry \<longleftrightarrow> (ps_canExecute entry \<longrightarrow>
     (\<exists>bound. ps_authorized entry = Some bound \<and> list_all (read_covered lib env lease (ps_authorizedSet entry)) (ap_reads bound)))"

definition assessment_ok :: "nat \<Rightarrow> SourceAssessment \<Rightarrow> bool" where
  "assessment_ok i a \<longleftrightarrow> sa_index a = int i \<and> validConfigurationOutcome (sa_configuration a) \<and> validAuthorizationOutcome (sa_authorization a) \<and>
     validResolutionOutcome (sa_resolution a)"

definition publishes :: "pipeline_call list \<Rightarrow> (Lease \<times> Evaluation) list" where
  "publishes calls = List.map_filter (\<lambda>c. case c of CallPublish _ l ev \<Rightarrow> Some (l, ev) | _ \<Rightarrow> None) calls"

definition executes_covered :: "('q, 'r, 'f) PipelineLib \<Rightarrow> PipelineEnv \<Rightarrow> Lease \<Rightarrow> pipeline_call list \<Rightarrow> bool" where
  "executes_covered lib env lease calls \<longleftrightarrow> (\<forall>pre plan post. calls = pre @ CallExecute plan # post \<longrightarrow>
     (\<exists>routes. CallReplace lease routes \<in> set pre \<and> en_replace env routes = None \<and> list_all (read_covered lib env lease routes) (ap_reads plan)))"

text \<open>What the publisher accepts; what it says of the sources is the subject of \<open>PipelineResults\<close>.\<close>

definition evaluation_ok :: "Evaluation \<Rightarrow> bool" where
  "evaluation_ok ev \<longleftrightarrow> validateEvaluation ev = None"

definition attempt_ok :: "('q, 'r, 'f) PipelineLib \<Rightarrow> PipelineEnv \<Rightarrow> Lease \<Rightarrow> Attempt \<Rightarrow> bool" where
  "attempt_ok lib env lease a \<longleftrightarrow> executes_covered lib env lease (at_calls a) \<and>
     (publishes (at_calls a) = [] \<or> (\<exists>ev. publishes (at_calls a) = [(lease, ev)] \<and> evaluation_ok ev))"

definition run_ok :: "('q, 'r, 'f) PipelineLib \<Rightarrow> PipelineEnv \<Rightarrow> Lease \<Rightarrow> FacetSource list \<Rightarrow> ('q, 'r) Run \<Rightarrow> bool" where
  "run_ok lib env lease sources r \<longleftrightarrow>
     length (rn_planned r) = length sources \<and> length (rn_result r) = length sources \<and> length (rn_completed r) = length sources \<and>
     (\<forall>i < length sources. entry_ok lib env lease (rn_planned r ! i) \<and> assessment_ok i (ps_assessment (rn_planned r ! i))) \<and>
     executes_covered lib env lease (rn_calls r) \<and> publishes (rn_calls r) = []"

text \<open>Once the routes are replaced, they cover the entries that may execute.\<close>

definition routed :: "PipelineEnv \<Rightarrow> Lease \<Rightarrow> ('q, 'r) Run \<Rightarrow> bool" where
  "routed env lease r \<longleftrightarrow> (\<exists>routes. CallReplace lease routes \<in> set (rn_calls r) \<and> en_replace env routes = None \<and>
     set (planned_routes (rn_planned r)) \<subseteq> set routes)"

section \<open>Calls\<close>

lemma case_sum_bind:
  "case_sum A R x \<Longrightarrow> (\<And>r. R r \<Longrightarrow> case_sum A S (f r)) \<Longrightarrow> case_sum A S (res_bind x f)"
  by (cases x) simp_all

lemma publishes_append [simp]:
  "publishes [] = []" "publishes (cs @ ds) = publishes cs @ publishes ds"
  by (simp_all add: publishes_def List.map_filter_def)

lemma publishes_single [simp]: "publishes [c] = (case c of CallPublish _ l ev \<Rightarrow> [(l, ev)] | _ \<Rightarrow> [])"
  by (simp add: publishes_def List.map_filter_def split: pipeline_call.splits)

lemma executes_covered_nil [simp]: "executes_covered lib env lease []"
  by (simp add: executes_covered_def)

lemma executes_covered_snoc:
  assumes "executes_covered lib env lease cs"
    and "\<And>plan. c = CallExecute plan \<Longrightarrow> \<exists>routes. CallReplace lease routes \<in> set cs \<and> en_replace env routes = None \<and>
      list_all (read_covered lib env lease routes) (ap_reads plan)"
  shows "executes_covered lib env lease (cs @ [c])"
  unfolding executes_covered_def
proof (intro allI impI)
  fix pre plan post
  assume e: "cs @ [c] = pre @ CallExecute plan # post"
  show "\<exists>routes. CallReplace lease routes \<in> set pre \<and> en_replace env routes = None \<and> list_all (read_covered lib env lease routes) (ap_reads plan)"
  proof (cases post rule: rev_cases)
    case Nil
    then have "c = CallExecute plan" "pre = cs" using e by simp_all
    then show ?thesis using assms(2) by simp
  next
    case (snoc post' d)
    then have "cs = pre @ CallExecute plan # post'" using e by simp
    then show ?thesis using assms(1) unfolding executes_covered_def by simp
  qed
qed

abbreviation plain :: "pipeline_call \<Rightarrow> bool" where
  "plain c \<equiv> (case c of CallExecute _ \<Rightarrow> False | CallPublish _ _ _ \<Rightarrow> False | _ \<Rightarrow> True)"

lemma run_ok_tick [simp]: "run_ok lib env lease sources (tick r) = run_ok lib env lease sources r"
  by (simp add: run_ok_def tick_def)

lemma run_ok_retryable [simp]: "run_ok lib env lease sources (r\<lparr>rn_retryable := es\<rparr>) = run_ok lib env lease sources r"
  by (simp add: run_ok_def)

lemma run_ok_policy [simp]: "run_ok lib env lease sources (r\<lparr>rn_policy := p\<rparr>) = run_ok lib env lease sources r"
  by (simp add: run_ok_def)

lemma run_ok_plain: "run_ok lib env lease sources r \<Longrightarrow> plain c \<Longrightarrow> run_ok lib env lease sources (port_call c r)"
  by (auto simp: run_ok_def port_call_def intro!: executes_covered_snoc split: pipeline_call.splits)

lemma run_ok_store:
  assumes "run_ok lib env lease sources r" "i < length sources" "entry_ok lib env lease e" "assessment_ok i (ps_assessment e)"
  shows "run_ok lib env lease sources (store i e r)"
  using assms by (auto simp: run_ok_def store_def nth_list_update)

lemma run_ok_complete: "run_ok lib env lease sources r \<Longrightarrow> run_ok lib env lease sources (complete i s r)"
  by (simp add: run_ok_def complete_def)

lemma run_ok_entry:
  "run_ok lib env lease sources r \<Longrightarrow> i < length sources \<Longrightarrow>
     entry_ok lib env lease (rn_planned r ! i) \<and> assessment_ok i (ps_assessment (rn_planned r ! i))"
  by (simp add: run_ok_def)

section \<open>Ends of an attempt\<close>

lemma attempt_skipped: "run_ok lib env lease sources r \<Longrightarrow> attempt_ok lib env lease (skipped env r)"
  by (simp add: attempt_ok_def skipped_def run_ok_def)

lemma attempt_returns: "run_ok lib env lease sources r \<Longrightarrow> attempt_ok lib env lease (returns e r)"
  by (simp add: attempt_ok_def returns_def run_ok_def)

lemma published_attempt:
  assumes "run_ok lib env lease sources r" "evaluation_ok ev" "at_calls a = rn_calls (port_call (CallPublish c lease ev) r)"
  shows "attempt_ok lib env lease a"
  using assms by (auto simp: attempt_ok_def run_ok_def port_call_def intro!: executes_covered_snoc)

lemma validateSources_indexed:
  assumes "\<And>i. i < length as \<Longrightarrow> assessment_ok (k + i) (as ! i)"
  shows "validateSources (int k) as = None"
  using assms
proof (induction as arbitrary: k)
  case (Cons a as)
  have "assessment_ok k a" using Cons.prems[of 0] by simp
  moreover have "validateSources (int (Suc k)) as = None" using Cons.prems[of "Suc _"] by (intro Cons.IH) force
  ultimately show ?case by (simp add: assessment_ok_def add.commute)
qed simp

lemma global_valid: "globalAuthorizationOutcome p n = Some g \<Longrightarrow> validAuthorizationOutcome g"
  by (auto simp: globalAuthorizationOutcome_def validAuthorizationOutcome_def split: if_splits PolicyReason.splits)

lemma run_sources_valid: "run_ok lib env lease sources r \<Longrightarrow> validateSources 0 (assessmentsForPlanned (rn_planned r)) = None"
  using validateSources_indexed[of "assessmentsForPlanned (rn_planned r)" 0] by (simp add: run_ok_def assessmentsForPlanned_def)

lemma result_evaluation_ok:
  assumes "run_ok lib env lease sources r"
  shows "evaluation_ok (result_evaluation built n r)"
  using run_sources_valid[OF assms] global_valid
  by (auto simp: evaluation_ok_def result_evaluation_def validateEvaluation_def validateShape_def split: option.splits)

lemma unavailable_evaluation_ok:
  assumes "run_ok lib env lease sources r"
  shows "evaluation_ok \<lparr>ev_result = None, ev_sources = assessmentsForPlanned (rn_planned r),
    ev_globalAuthorization = globalAuthorizationOutcome (rn_policy r) n, ev_resultUnavailable = True, ev_resultLimitExceeded = False,
    ev_configurationBudgetExceeded = False\<rparr>"
  using run_sources_valid[OF assms] global_valid
  by (auto simp: evaluation_ok_def validateEvaluation_def validateShape_def split: option.splits)

lemma rejection_evaluation_ok: "evaluation_ok (empty_evaluation\<lparr>ev_configurationBudgetExceeded := True\<rparr>)"
  by (simp add: evaluation_ok_def validateEvaluation_def validateShape_def empty_evaluation_def)

lemmas end_calls = skipped_def returns_def

lemma timed_out_attempt:
  assumes "run_ok lib env lease sources r"
  shows "attempt_ok lib env lease (finishTimedOutEvaluation env lease sources r)"
proof -
  let ?ev = "result_evaluation (timed_out_result sources (tick r)) (length sources) (tick r)"
  have ok: "run_ok lib env lease sources (tick r)" using assms by simp
  have ev: "evaluation_ok ?ev" using result_evaluation_ok[OF ok] .
  show ?thesis unfolding finishTimedOutEvaluation_def Let_def
    using attempt_skipped[OF ok] published_attempt[OF ok ev, where c = LeaseCtx]
    by (simp add: end_calls split: option.splits)
qed

lemma checkpoint_ok:
  "run_ok lib env lease sources r \<Longrightarrow>
     case_sum (attempt_ok lib env lease) (\<lambda>r'. r' = tick r) (checkpoint env lease sources r)"
  using attempt_skipped[of lib env lease sources "tick r"] timed_out_attempt[of lib env lease sources "tick r"]
  by (simp add: checkpoint_def split: eval_state.splits)

lemma completed_checkpoint_ok:
  "run_ok lib env lease sources r \<Longrightarrow>
     case_sum (attempt_ok lib env lease) (\<lambda>r'. r' = tick r) (completed_checkpoint env lease sources r)"
  using attempt_skipped[of lib env lease sources "tick r"] timed_out_attempt[of lib env lease sources "tick r"]
  by (simp add: completed_checkpoint_def split: eval_state.splits)

section \<open>Planning\<close>

lemma initial_ok: "publishes calls = [] \<Longrightarrow> executes_covered lib env lease calls \<Longrightarrow> run_ok lib env lease sources (initialRun lib sources calls clock)"
  by (auto simp: run_ok_def initialRun_def initialEntry_def Let_def entry_ok_def assessment_ok_def validConfigurationOutcome_def
      configurationOutcome_def validAuthorizationOutcome_def validResolutionOutcome_def)

lemma decision_outcome_valid: "validAuthorizationOutcome (authorizationOutcomeForDecision d)"
  by (auto simp: authorizationOutcomeForDecision_def validAuthorizationOutcome_def split: PolicyReason.splits)

lemma set_authorization_ok:
  "assessment_ok i (ps_assessment e) \<Longrightarrow> validAuthorizationOutcome o' \<Longrightarrow> assessment_ok i (ps_assessment (set_authorization o' e))"
  by (simp add: assessment_ok_def set_authorization_def)

lemma set_authorization_fields [simp]:
  "ps_canExecute (set_authorization o' e) = ps_canExecute e" "ps_authorized (set_authorization o' e) = ps_authorized e"
  "ps_authorizedSet (set_authorization o' e) = ps_authorizedSet e" "ps_selectionErr (set_authorization o' e) = ps_selectionErr e"
  "ps_source (set_authorization o' e) = ps_source e"
  by (simp_all add: set_authorization_def)

lemma applyDecision_fields [simp]:
  "ps_canExecute (applyDecision sid d e) = ps_canExecute e" "ps_authorized (applyDecision sid d e) = ps_authorized e"
  "ps_authorizedSet (applyDecision sid d e) = ps_authorizedSet e"
  by (simp_all add: applyDecision_def Let_def)

lemma applyDecision_ok: "assessment_ok i (ps_assessment e) \<Longrightarrow> assessment_ok i (ps_assessment (applyDecision sid d e))"
  using set_authorization_ok[of i e] decision_outcome_valid by (simp add: applyDecision_def Let_def)

lemma applyDecisions_ok:
  "assessment_ok i (ps_assessment e) \<Longrightarrow> assessment_ok i (ps_assessment (fold (applyDecision sid) ds e)) \<and>
     ps_canExecute (fold (applyDecision sid) ds e) = ps_canExecute e"
  by (induction ds arbitrary: e) (simp_all add: applyDecision_ok)

lemma buildRoutes_covers:
  assumes "buildRoutes k sid (zip targets (map (decide k subject snapshot) (map RequestForTarget targets))) = (routes, None)" "t \<in> set targets"
  shows "\<exists>b \<in> set routes. do_capability (decide k subject snapshot (RequestForTarget t)) = Some (rb_capability b) \<and>
    AddressForTarget k t = Inr (rb_address b)"
  using assms
proof (induction targets arbitrary: routes)
  case (Cons u us)
  obtain cap where cap: "do_capability (decide k subject snapshot (RequestForTarget u)) = Some cap" using Cons.prems(1) by (auto split: option.splits)
  obtain b where b: "NewAuthorizedRoute k u cap = Inr b" using Cons.prems(1) cap by (auto split: sum.splits)
  obtain rest failure where rest: "buildRoutes k sid (zip us (map (decide k subject snapshot) (map RequestForTarget us))) = (rest, failure)" by fastforce
  then have routes: "routes = b # rest" "failure = None" using Cons.prems(1) cap b by simp_all
  have "rb_capability b = cap" "AddressForTarget k u = Inr (rb_address b)"
    using b by (auto simp: NewAuthorizedRoute_def Let_def res_simps split: if_splits)
  then show ?case using Cons.IH[of rest] rest routes Cons.prems(2) cap by auto
qed simp

lemma authorizeEntry_ok:
  assumes outs: "outcomes = map (decide (lb_k8s lib) (subject_of lease) (attempt_snapshot lib env)) (map RequestForTarget (pl_targets plan))"
    and e: "assessment_ok i (ps_assessment entry)" "\<not> ps_canExecute entry"
  shows "entry_ok lib env lease (authorizeEntry (lb_k8s lib) plan outcomes entry) \<and>
    assessment_ok i (ps_assessment (authorizeEntry (lb_k8s lib) plan outcomes entry))"
proof -
  define sid where "sid = fs_id (ps_source entry)"
  define e1 where "e1 = fold (applyDecision sid) outcomes (entry\<lparr>ps_authorizations := outcomes\<rparr>)"
  define e2 where "e2 = (if sa_authorization (ps_assessment e1) = ''not-evaluated'' then set_authorization ''allowed'' e1 else e1)"
  have e1: "assessment_ok i (ps_assessment e1)" "\<not> ps_canExecute e1"
    using applyDecisions_ok[of i "entry\<lparr>ps_authorizations := outcomes\<rparr>" sid outcomes] e by (simp_all add: e1_def)
  have valid: "validAuthorizationOutcome ''allowed''" "validAuthorizationOutcome ''unavailable''" by (simp_all add: validAuthorizationOutcome_def)
  have e2: "assessment_ok i (ps_assessment e2)" "\<not> ps_canExecute e2" using e1 set_authorization_ok[OF e1(1) valid(1)] by (simp_all add: e2_def)
  have a: "authorizeEntry (lb_k8s lib) plan outcomes entry = (case BindCapabilities plan outcomes of
      Inl b \<Rightarrow> (if sa_authorization (ps_assessment e2) = ''allowed'' \<or> sa_authorization (ps_assessment e2) = ''not-evaluated''
        then set_authorization ''unavailable'' e2 else e2)
          \<lparr>ps_selectionErr := (case ps_selectionErr e2 of Some e \<Rightarrow> Some e | None \<Rightarrow> Some (mapBindingError sid b))\<rparr>
    | Inr bound \<Rightarrow> (case buildRoutes (lb_k8s lib) sid (zip (pl_targets plan) outcomes) of
        (routes, failure) \<Rightarrow> e2\<lparr>ps_authorized := Some bound, ps_canExecute := (failure = None), ps_authorizedSet := routes,
          ps_selectionErr := (case failure of Some e \<Rightarrow> Some e | None \<Rightarrow> ps_selectionErr e2)\<rparr>))"
    unfolding authorizeEntry_def Let_def e2_def e1_def sid_def by (simp split: sum.splits)
  show ?thesis
  proof (cases "BindCapabilities plan outcomes")
    case (Inl b)
    then show ?thesis unfolding a using e2 set_authorization_ok[OF e2(1) valid(2)] by (simp add: entry_ok_def)
  next
    case (Inr bound)
    obtain routes failure where br: "buildRoutes (lb_k8s lib) sid (zip (pl_targets plan) outcomes) = (routes, failure)" by fastforce
    have "list_all (read_covered lib env lease routes) (ap_reads bound)" if none: "failure = None"
      unfolding list_all_iff
    proof
      fix read assume read: "read \<in> set (ap_reads bound)"
      note v = BindCapabilities_reads_valid[OF Inr read]
      obtain r where r: "do_capability (decide (lb_k8s lib) (subject_of lease) (attempt_snapshot lib env) r) = Some (ar_capability read)"
        using v(3) unfolding outs by auto
      have cap: "dec_allowed (Evaluate (lb_k8s lib) (attempt_snapshot lib env) r)" "cap_subject (ar_capability read) = subject_of lease"
        "cap_request (ar_capability read) = r" using r unfolding decide_capability_iff by simp_all
      have rq: "r = RequestForTarget (ar_target read)" using v(2) cap(3) by (simp add: AuthorizedRead_Valid_def)
      obtain b where b: "b \<in> set routes" "rb_capability b = ar_capability read" "AddressForTarget (lb_k8s lib) (ar_target read) = Inr (rb_address b)"
        using buildRoutes_covers[OF br[unfolded outs none] v(1)] r unfolding rq by auto
      show "read_covered lib env lease routes read" unfolding read_covered_def list_ex_iff
        using v(2) cap(1,2) b unfolding rq by auto
    qed
    then show ?thesis unfolding a Inr using br e2 by (simp add: entry_ok_def)
  qed
qed

text \<open>An entry that is not planned yet cannot execute.\<close>

definition unplanned :: "nat list \<Rightarrow> ('q, 'r) Run \<Rightarrow> bool" where
  "unplanned is r \<longleftrightarrow> list_all (\<lambda>i. \<not> ps_canExecute (rn_planned r ! i)) is"

lemma unplanned_store: "i \<notin> set is \<Longrightarrow> unplanned (i # is) r \<Longrightarrow> unplanned is (store i e r)"
  unfolding unplanned_def store_def list_all_iff by (simp) (metis nth_list_update_neq)

lemma unplanned_same [simp]:
  "unplanned is (tick r) = unplanned is r" "unplanned is (port_call c r) = unplanned is r" "unplanned is (r\<lparr>rn_retryable := es\<rparr>) = unplanned is r"
  "unplanned is (r\<lparr>rn_policy := p\<rparr>) = unplanned is r"
  by (simp_all add: unplanned_def tick_def port_call_def)

lemma planning_assessment_ok: "assessment_ok i a \<Longrightarrow> assessment_ok i (assessmentForPlanningError a err)"
  by (auto simp: assessment_ok_def assessmentForPlanningError_def validConfigurationOutcome_def validAuthorizationOutcome_def validResolutionOutcome_def
      split: plan_error.splits ResolutionErrorReason.splits)

lemma resolve_call_ok:
  "run_ok lib env lease sources r \<Longrightarrow> unplanned is r \<Longrightarrow>
     run_ok lib env lease sources (resolve_call lib env i s r) \<and> unplanned is (resolve_call lib env i s r) \<and>
     rn_planned (resolve_call lib env i s r) = rn_planned r"
  using run_ok_plain[of lib env lease sources r "CallResolve (descriptor_of s)"] by (simp add: resolve_call_def port_call_def unplanned_def)

lemma planEntryFailed_ok:
  assumes "run_ok lib env lease sources r" "unplanned (i # is) r" "i < length sources" "i \<notin> set is"
  shows "run_ok lib env lease sources (planEntryFailed i (rn_planned r ! i) err r) \<and> unplanned is (planEntryFailed i (rn_planned r ! i) err r)"
proof -
  let ?e = "(rn_planned r ! i)\<lparr>ps_selectionErr := Some (mapPlanningError (fs_id (ps_source (rn_planned r ! i))) err),
    ps_assessment := assessmentForPlanningError (ps_assessment (rn_planned r ! i)) err\<rparr>"
  have "entry_ok lib env lease ?e" using assms(2) by (simp add: entry_ok_def unplanned_def)
  moreover have "assessment_ok i (ps_assessment ?e)" using run_ok_entry[OF assms(1,3)] by (simp add: planning_assessment_ok)
  ultimately have "run_ok lib env lease sources (store i ?e r)" using run_ok_store[OF assms(1,3)] by simp
  moreover have "unplanned is (store i ?e r)" using unplanned_store[OF assms(4,2)] .
  ultimately show ?thesis by (simp add: planEntryFailed_def Let_def)
qed

lemma stored_ok:
  assumes "run_ok lib env lease sources r" "unplanned (i # is) r" "i < length sources" "i \<notin> set is" "entry_ok lib env lease e"
    and "assessment_ok i (ps_assessment e)"
  shows "run_ok lib env lease sources (store i e r) \<and> unplanned is (store i e r)"
  using run_ok_store[OF assms(1,3,5,6)] unplanned_store[OF assms(4,2)] by simp

lemma authorizeSourceAt_ok:
  assumes r: "run_ok lib env lease sources r" "unplanned (i # is) r" "i < length sources" "i \<notin> set is"
    and e: "assessment_ok i (ps_assessment entry)" "\<not> ps_canExecute entry"
  shows "case_sum (attempt_ok lib env lease) (\<lambda>r. run_ok lib env lease sources r \<and> unplanned is r)
    (authorizeSourceAt lib env lease (subject_of lease) (attempt_snapshot lib env) sources i plan entry r)"
proof -
  let ?r1 = "port_call (CallAuthorize (subject_of lease) (map RequestForTarget (pl_targets plan))) r"
  have r1: "run_ok lib env lease sources ?r1" "unplanned (i # is) ?r1" using run_ok_plain[OF r(1)] r(2) by simp_all
  have t: "run_ok lib env lease sources (tick ?r1)" "unplanned (i # is) (tick ?r1)" using r1 by simp_all
  obtain x recorded where eb: "EvaluateBatch (lb_k8s lib) (en_authorizeCtx env i) (subject_of lease) (attempt_snapshot lib env)
    (map RequestForTarget (pl_targets plan)) = (x, recorded)" by fastforce
  show ?thesis
  proof (cases x)
    case (Inl err)
    have "entry_ok lib env lease (entry\<lparr>ps_selectionErr := se\<rparr>)" "assessment_ok i (ps_assessment (entry\<lparr>ps_selectionErr := se\<rparr>))" for se
      using e by (simp_all add: entry_ok_def)
    then show ?thesis unfolding authorizeSourceAt_def Let_def eb Inl fst_conv sum.case(1)
      by (intro case_sum_bind[OF checkpoint_ok[OF r1(1)]]) (use stored_ok[OF t r(3,4)] in simp)
  next
    case (Inr outcomes)
    note outs = EvaluateBatch_Inr(2)[OF eb[unfolded Inr]]
    show ?thesis unfolding authorizeSourceAt_def Let_def eb Inr fst_conv using stored_ok[OF r1 r(3,4)] authorizeEntry_ok[OF outs e] by simp
  qed
qed

lemma planReadySource_ok:
  assumes r: "run_ok lib env lease sources r" "unplanned (i # is) r" "i < length sources" "i \<notin> set is"
  shows "case_sum (attempt_ok lib env lease) (\<lambda>r. run_ok lib env lease sources r \<and> unplanned is r)
    (planReadySource lib env lease namespace (subject_of lease) (attempt_snapshot lib env) sources i r)"
proof -
  define entry where "entry = rn_planned r ! i"
  define r1 where "r1 = resolve_call lib env i (sources ! i) r"
  have e: "assessment_ok i (ps_assessment entry)" "\<not> ps_canExecute entry"
    using run_ok_entry[OF r(1,3)] r(2) by (simp_all add: entry_def unplanned_def)
  have r1: "run_ok lib env lease sources r1" "unplanned (i # is) r1" "rn_planned r1 ! i = entry"
    using resolve_call_ok[OF r(1,2), of i "sources ! i"] by (simp_all add: r1_def entry_def)
  have invalid: "run_ok lib env lease sources (store i (entry\<lparr>ps_assessment := (ps_assessment entry)\<lparr>sa_configuration := ''invalid''\<rparr>\<rparr>) r) \<and>
    unplanned is (store i (entry\<lparr>ps_assessment := (ps_assessment entry)\<lparr>sa_configuration := ''invalid''\<rparr>\<rparr>) r)"
    using e by (intro stored_ok r) (simp_all add: entry_ok_def assessment_ok_def validConfigurationOutcome_def)
  have failed: "run_ok lib env lease sources (planEntryFailed i entry err r1) \<and> unplanned is (planEntryFailed i entry err r1)" for err
    using planEntryFailed_ok[OF r1(1,2) r(3,4)] unfolding r1(3) .
  have "assessment_ok i (ps_assessment (entry\<lparr>ps_assessment := (ps_assessment entry)\<lparr>sa_resolution := ''resolved''\<rparr>\<rparr>))"
    "\<not> ps_canExecute (entry\<lparr>ps_assessment := (ps_assessment entry)\<lparr>sa_resolution := ''resolved''\<rparr>\<rparr>)"
    using e by (simp_all add: assessment_ok_def validResolutionOutcome_def)
  note authorized = authorizeSourceAt_ok[OF r1(1,2) r(3,4) this]
  show ?thesis unfolding planReadySource_def Let_def entry_def[symmetric] r1_def[symmetric]
    using invalid failed authorized by (cases "Plan (lb_k8s lib) (lb_selectors lib) (en_resolve env i) namespace (sources ! i)") simp_all
qed

lemma planSourceAt_ok:
  assumes "run_ok lib env lease sources r" "unplanned (i # is) r" "i < length sources" "i \<notin> set is"
  shows "case_sum (attempt_ok lib env lease) (\<lambda>r. run_ok lib env lease sources r \<and> unplanned is r)
    (planSourceAt lib env lease namespace (subject_of lease) (attempt_snapshot lib env) sources i r)"
  unfolding planSourceAt_def
  by (rule case_sum_bind[OF checkpoint_ok[OF assms(1)]]) (use planReadySource_ok[of lib env lease sources "tick r"] assms in simp)

lemma planSources_ok:
  assumes "run_ok lib env lease sources r" "unplanned is r" "distinct is" "list_all (\<lambda>i. i < length sources) is"
  shows "case_sum (attempt_ok lib env lease) (run_ok lib env lease sources)
    (planSources lib env lease namespace (subject_of lease) (attempt_snapshot lib env) sources is r)"
  using assms
proof (induction "is" arbitrary: r)
  case (Cons i "is")
  then have step: "case_sum (attempt_ok lib env lease) (\<lambda>r. run_ok lib env lease sources r \<and> unplanned is r)
    (planSourceAt lib env lease namespace (subject_of lease) (attempt_snapshot lib env) sources i r)" by (intro planSourceAt_ok) simp_all
  show ?case unfolding planSources.simps
    by (rule case_sum_bind[OF step]) (rule Cons.IH; use Cons.prems in simp)
qed simp

section \<open>Routes\<close>

abbreviation routed_run :: "('q, 'r, 'f) PipelineLib \<Rightarrow> PipelineEnv \<Rightarrow> Lease \<Rightarrow> FacetSource list \<Rightarrow> ('q, 'r) Run \<Rightarrow> bool" where
  "routed_run lib env lease sources r \<equiv> run_ok lib env lease sources r \<and> routed env lease r"

lemma routed_same [simp]: "routed env lease (tick r) = routed env lease r" "routed env lease (r\<lparr>rn_retryable := es\<rparr>) = routed env lease r"
  "routed env lease (complete i s r) = routed env lease r"
  by (simp_all add: routed_def tick_def complete_def)

lemma routed_call: "routed env lease r \<Longrightarrow> routed env lease (port_call c r)"
  by (auto simp: routed_def port_call_def)

lemma routed_checkpoint:
  "routed_run lib env lease sources r \<Longrightarrow>
     case_sum (attempt_ok lib env lease) (routed_run lib env lease sources) (checkpoint env lease sources r)"
  using checkpoint_ok[of lib env lease sources r] by (auto split: sum.splits)

lemma routed_completed_checkpoint:
  "routed_run lib env lease sources r \<Longrightarrow>
     case_sum (attempt_ok lib env lease) (routed_run lib env lease sources) (completed_checkpoint env lease sources r)"
  using completed_checkpoint_ok[of lib env lease sources r] by (auto split: sum.splits)

lemma installRoutes_ok:
  assumes "run_ok lib env lease sources r"
  shows "case_sum (attempt_ok lib env lease) (routed_run lib env lease sources) (installRoutes env lease sources r)"
proof -
  define routes where "routes = planned_routes (rn_planned r)"
  define r1 where "r1 = port_call (CallReplace lease routes) r"
  have r1: "run_ok lib env lease sources r1" using assms run_ok_plain[of lib env lease sources r] by (simp add: r1_def)
  have ends: "attempt_ok lib env lease (skipped env (tick (tick r1)))"
    "attempt_ok lib env lease (returns e (tick (tick r1)))" for e
    using r1 attempt_skipped attempt_returns by (metis run_ok_tick)+
  have routed: "en_replace env routes = None \<Longrightarrow> routed env lease (tick r1)"
    unfolding routed_same by (auto simp: routed_def r1_def port_call_def routes_def)
  show ?thesis unfolding installRoutes_def Let_def routes_def[symmetric] r1_def[symmetric]
    by (rule case_sum_bind[OF checkpoint_ok[OF r1]]) (use r1 ends routed in \<open>simp split: option.splits\<close>)
qed

lemma replaceRoutes_ok:
  "run_ok lib env lease sources r \<Longrightarrow>
     case_sum (attempt_ok lib env lease) (routed_run lib env lease sources) (replaceRoutes env lease sources r)"
  unfolding replaceRoutes_def
  by (rule case_sum_bind[OF checkpoint_ok]) (use installRoutes_ok[of lib env lease sources "tick r"] in simp_all)

section \<open>Evaluation\<close>

lemma planned_routes_covers:
  assumes "e \<in> set planned" "ps_canExecute e" "ps_selectionErr e = None"
  shows "set (ps_authorizedSet e) \<subseteq> set (planned_routes planned)"
  using assms by (auto simp: planned_routes_def)

lemma read_covered_mono: "read_covered lib env lease routes read \<Longrightarrow> set routes \<subseteq> set routes' \<Longrightarrow> read_covered lib env lease routes' read"
  unfolding read_covered_def list_ex_iff by (meson subsetD)

lemma planned_routes_set_authorization:
  assumes "i < length planned"
  shows "planned_routes (planned[i := set_authorization o' (planned ! i)]) = planned_routes planned"
proof -
  let ?e = "\<lambda>e. if ps_canExecute e \<and> ps_selectionErr e = None then ps_authorizedSet e else []"
  have p: "planned_routes ps = concat (map ?e ps)" for ps :: "('a, 'b) plannedSource list"
    by (induction ps) (simp_all add: planned_routes_def)
  have "map ?e (planned[i := set_authorization o' (planned ! i)]) = map ?e planned"
    using assms by (auto intro!: nth_equalityI simp: nth_list_update)
  then show ?thesis by (simp add: p)
qed

lemma forbidden_ok:
  assumes "routed_run lib env lease sources r" "i < length sources"
  shows "routed_run lib env lease sources (store i (set_authorization ''read-forbidden'' (rn_planned r ! i)) r)"
proof -
  have e: "entry_ok lib env lease (set_authorization ''read-forbidden'' (rn_planned r ! i))"
    "assessment_ok i (ps_assessment (set_authorization ''read-forbidden'' (rn_planned r ! i)))"
    using run_ok_entry[OF _ assms(2), of lib env lease r] assms(1) set_authorization_ok[of i "rn_planned r ! i" "''read-forbidden''"]
    by (simp_all add: entry_ok_def validAuthorizationOutcome_def)
  have "length (rn_planned r) = length sources" using assms(1) by (simp add: run_ok_def)
  then have "routed env lease (store i (set_authorization ''read-forbidden'' (rn_planned r ! i)) r)"
    using assms planned_routes_set_authorization[of i "rn_planned r"] by (simp add: routed_def store_def)
  then show ?thesis using run_ok_store[OF _ assms(2) e] assms(1) by simp
qed

lemma execute_ok:
  assumes "routed_run lib env lease sources r" "i < length sources" "ps_canExecute (rn_planned r ! i)" "ps_selectionErr (rn_planned r ! i) = None"
    and "ps_authorized (rn_planned r ! i) = Some plan"
  shows "routed_run lib env lease sources (port_call (CallExecute plan) r)"
proof -
  let ?e = "rn_planned r ! i"
  have len: "length (rn_planned r) = length sources" using assms(1) by (simp add: run_ok_def)
  obtain routes where routes: "CallReplace lease routes \<in> set (rn_calls r)" "en_replace env routes = None"
    "set (planned_routes (rn_planned r)) \<subseteq> set routes" using assms(1) by (auto simp: routed_def)
  have "set (ps_authorizedSet ?e) \<subseteq> set routes"
    using planned_routes_covers[of ?e "rn_planned r"] assms(2-4) len routes(3) by (metis nth_mem subset_trans)
  moreover have "list_all (read_covered lib env lease (ps_authorizedSet ?e)) (ap_reads plan)"
    using run_ok_entry[OF conjunct1[OF assms(1)] assms(2)] assms(3,5) by (simp add: entry_ok_def)
  ultimately have "list_all (read_covered lib env lease routes) (ap_reads plan)"
    by (auto simp: list_all_iff intro: read_covered_mono)
  then have "executes_covered lib env lease (rn_calls r @ [CallExecute plan])"
    using assms(1) routes by (intro executes_covered_snoc) (auto simp: run_ok_def)
  then show ?thesis using assms(1) routed_call[of env lease r] by (simp add: run_ok_def port_call_def)
qed

lemma selectSource_ok:
  assumes "routed_run lib env lease sources r" "i < length sources"
  shows "routed_run lib env lease sources (snd (selectSource env i r))"
proof (cases "ps_canExecute (rn_planned r ! i) \<and> ps_selectionErr (rn_planned r ! i) = None")
  case True
  then obtain plan where plan: "ps_authorized (rn_planned r ! i) = Some plan"
    using run_ok_entry[OF conjunct1[OF assms(1)] assms(2)] by (auto simp: entry_ok_def)
  let ?r1 = "port_call (CallExecute plan) r"
  have r1: "routed_run lib env lease sources ?r1" using execute_ok[OF assms conjunct1[OF True] conjunct2[OF True] plan] .
  have same: "rn_planned ?r1 = rn_planned r" by (simp add: port_call_def)
  have f: "routed_run lib env lease sources (store i (set_authorization ''read-forbidden'' (rn_planned r ! i)) ?r1)"
    using forbidden_ok[OF r1 assms(2)] unfolding same .
  show ?thesis unfolding selectSource_def Let_def using True plan r1 f by (simp split: option.splits)
next
  case False
  show ?thesis unfolding selectSource_def Let_def if_not_P[OF False] using assms(1) by simp
qed

text \<open>A stage between two checkpoints keeps the run; its intermediate values are irrelevant here.\<close>

lemma staged:
  assumes "routed_run lib env lease sources r"
    and "\<And>r'. routed_run lib env lease sources r' \<Longrightarrow> case_sum (attempt_ok lib env lease) S (f r')"
  shows "case_sum (attempt_ok lib env lease) S (res_bind (checkpoint env lease sources r) f)"
  using case_sum_bind[OF routed_checkpoint[OF assms(1)]] assms(2) by blast

abbreviation evaluated_run :: "('q, 'r, 'f) PipelineLib \<Rightarrow> PipelineEnv \<Rightarrow> Lease \<Rightarrow> FacetSource list \<Rightarrow> Attempt + ('q, 'r) Run \<times> string option \<Rightarrow> bool" where
  "evaluated_run lib env lease sources \<equiv> case_sum (attempt_ok lib env lease) (\<lambda>(r, _). routed_run lib env lease sources r)"

lemma projectSource_ok:
  assumes "routed_run lib env lease sources r"
  shows "evaluated_run lib env lease sources (projectSource lib env lease sources i aggregated r)"
proof -
  have "routed_run lib env lease sources (complete i source r)" for source using assms run_ok_complete[of lib env lease sources r] by simp
  then have "evaluated_run lib env lease sources
      (res_bind (completed_checkpoint env lease sources (complete i source r)) (\<lambda>r1. Inr (r1, None)))" for source
    by (intro case_sum_bind[OF routed_completed_checkpoint]) simp_all
  then show ?thesis unfolding projectSource_def using assms
    by (cases "BuildResultChecked (lb_typed lib) [aggregated]") (simp_all split: list.split)
qed

lemma evaluateStages_ok:
  "routed_run lib env lease sources (snd selected) \<Longrightarrow> evaluated_run lib env lease sources (evaluateStages lib env lease sources i entry selected)"
  unfolding evaluateStages_def Let_def by (intro staged projectSource_ok)

lemma evaluateSourceAt_ok:
  "routed_run lib env lease sources r \<Longrightarrow> i < length sources \<Longrightarrow> evaluated_run lib env lease sources (evaluateSourceAt lib env lease sources i r)"
  unfolding evaluateSourceAt_def by (intro staged evaluateStages_ok selectSource_ok)

lemma evaluateSourcesFrom_ok:
  "routed_run lib env lease sources r \<Longrightarrow> list_all (\<lambda>i. i < length sources) is \<Longrightarrow>
     evaluated_run lib env lease sources (evaluateSourcesFrom lib env lease sources is r)"
proof (induction "is" arbitrary: r)
  case (Cons i "is")
  have step: "evaluated_run lib env lease sources (evaluateSourceAt lib env lease sources i r)"
    by (rule evaluateSourceAt_ok) (use Cons.prems in simp_all)
  show ?case unfolding evaluateSourcesFrom.simps
  proof (rule case_sum_bind[OF step])
    fix x :: "('a, 'b) Run \<times> string option"
    assume x: "case x of (r', _) \<Rightarrow> routed_run lib env lease sources r'"
    show "evaluated_run lib env lease sources (case x of (r', buildErr) \<Rightarrow>
        if buildErr = None then evaluateSourcesFrom lib env lease sources is r' else Inr (r', buildErr))"
      using x Cons.IH Cons.prems(2) by (cases x) simp
  qed
qed simp

section \<open>Publication\<close>

lemma publishUnavailable_ok:
  assumes "run_ok lib env lease sources r"
  shows "attempt_ok lib env lease (publishUnavailable env lease n message r)"
  using published_attempt[OF assms unavailable_evaluation_ok[OF assms], where c = EvaluationCtx]
  by (simp add: publishUnavailable_def Let_def returns_def split: option.splits)

lemma publishResult_ok:
  assumes "run_ok lib env lease sources r"
  shows "attempt_ok lib env lease (publishResult env lease n r)"
proof -
  have t: "run_ok lib env lease sources (tick r)" using assms by simp
  note p = published_attempt[OF t result_evaluation_ok[OF assms]]
  show ?thesis unfolding publishResult_def Let_def using p by (simp add: end_calls split: option.splits)
qed

lemma rejectBudget_ok:
  assumes "run_ok lib env lease sources r"
  shows "attempt_ok lib env lease (rejectBudget env lease issues r)"
proof -
  have r1: "run_ok lib env lease sources (port_call CallRemoveOwner r)" using run_ok_plain[OF assms] by simp
  note p = published_attempt[OF r1 rejection_evaluation_ok]
  show ?thesis unfolding rejectBudget_def Let_def using p by (simp add: end_calls split: option.splits)
qed

lemma finishAttempt_ok:
  assumes "routed_run lib env lease sources (fst rb)"
  shows "attempt_ok lib env lease (finishAttempt env lease sources rb)"
proof (cases rb)
  case (Pair r buildErr)
  then have r: "run_ok lib env lease sources r" using assms by simp
  show ?thesis using publishUnavailable_ok[OF r] completed_checkpoint_ok[OF r] publishResult_ok[of lib env lease sources "tick r"] r Pair
    by (auto simp: finishAttempt_def split: option.splits sum.splits)
qed

lemma loadPolicy_ok:
  assumes "run_ok lib env lease sources r" "unplanned is r"
  shows "case_sum (attempt_ok lib env lease)
    (\<lambda>(snapshot, r'). run_ok lib env lease sources r' \<and> unplanned is r' \<and> (sources \<noteq> [] \<longrightarrow> snapshot = attempt_snapshot lib env))
    (loadPolicy lib env lease sources r)"
proof (cases "sources = []")
  case False
  let ?r1 = "(port_call CallLoadPolicy r)\<lparr>rn_policy := snap_terminalReason (attempt_snapshot lib env)\<rparr>"
  have r1: "run_ok lib env lease sources ?r1" "unplanned is ?r1" using run_ok_plain[OF assms(1)] assms(2) by (simp_all add: unplanned_def port_call_def)
  show ?thesis unfolding loadPolicy_def attempt_snapshot_def[symmetric] Let_def if_not_P[OF False]
    by (rule case_sum_bind[OF checkpoint_ok[OF r1(1)]]) (use r1 in simp)
qed (use assms in \<open>simp add: loadPolicy_def\<close>)

lemma runSources_ok:
  assumes "run_ok lib env lease sources r" "unplanned [0..<length sources] r"
    and "sources = [] \<or> snapshot = attempt_snapshot lib env \<and> subject = subject_of lease"
  shows "case_sum (attempt_ok lib env lease) (attempt_ok lib env lease)
    (runSources lib env lease ns sources subject snapshot r)"
proof -
  have "case_sum (attempt_ok lib env lease) (run_ok lib env lease sources)
    (planSources lib env lease ns subject snapshot sources [0..<length sources] r)"
    using planSources_ok[OF assms(1,2), of ns] assms(1,3) by (cases "sources = []") (simp_all add: list_all_iff)
  moreover have "evaluated_run lib env lease sources (evaluateSourcesFrom lib env lease sources [0..<length sources] r2)"
    if "routed_run lib env lease sources r2" for r2 :: "('a, 'b) Run" using evaluateSourcesFrom_ok[OF that] by (simp add: list_all_iff)
  moreover have "attempt_ok lib env lease (finishAttempt env lease sources rb)"
    if "case rb of (r, _) \<Rightarrow> routed_run lib env lease sources r" for rb :: "('a, 'b) Run \<times> string option"
    using finishAttempt_ok[of lib env lease sources rb] that by (simp add: split_def)
  ultimately show ?thesis unfolding runSources_def
    by (elim case_sum_bind) (rule case_sum_bind[OF replaceRoutes_ok], assumption, rule case_sum_bind, blast, simp)
qed

lemma runSubject_ok:
  assumes "run_ok lib env lease sources (snd loaded)" "unplanned [0..<length sources] (snd loaded)" "sources \<noteq> [] \<longrightarrow> fst loaded = attempt_snapshot lib env"
  shows "case_sum (attempt_ok lib env lease) (attempt_ok lib env lease) (runSubject lib env lease ns sources loaded)"
proof -
  let ?subject = "NewSubject (ls_key lease) (ls_uid lease) (ls_generation lease) (ls_policyEpoch lease)"
  have "projr ?subject = subject_of lease" if "\<not> isl ?subject"
    using that by (auto simp: NewSubject_def Let_def subject_of_def res_bind_def split: sum.splits)
  then show ?thesis using runSources_ok[OF assms(1,2)] assms(1,3) by (auto simp: runSubject_def Let_def attempt_ok_def run_ok_def)
qed

lemma evaluateFacet_ok:
  assumes "executes_covered lib env lease calls" "publishes calls = []"
  shows "attempt_ok lib env lease (evaluateFacet lib env lease object calls)"
proof -
  define sources where "sources = fc_sources object"
  define r0 where "r0 = initialRun lib sources calls 1"
  let ?ok = "attempt_ok lib env lease"
  have r0: "run_ok lib env lease sources r0" using initial_ok assms by (simp add: r0_def)
  have "unplanned [0..<length sources] r0" by (simp add: unplanned_def r0_def initialRun_def initialEntry_def Let_def list_all_iff)
  then have un: "unplanned [0..<length sources] (tick r0)" by simp
  have t: "run_ok lib env lease sources (tick r0)" using r0 by simp
  have "case_sum ?ok ?ok (res_bind (loadPolicy lib env lease sources (tick r0)) (runSubject lib env lease (fc_namespace object) sources))"
    by (rule case_sum_bind[OF loadPolicy_ok[OF t un]]) (rule runSubject_ok; simp add: split_def)
  then have "case_sum ?ok ?ok (res_bind (checkpoint env lease sources r0) (\<lambda>r1.
      res_bind (loadPolicy lib env lease sources r1) (runSubject lib env lease (fc_namespace object) sources)))"
    by (intro case_sum_bind[OF checkpoint_ok[OF r0]]) simp
  then have "?ok (case_sum id id (res_bind (checkpoint env lease sources r0) (\<lambda>r1.
      res_bind (loadPolicy lib env lease sources r1) (runSubject lib env lease (fc_namespace object) sources))))"
    by (auto split: sum.splits)
  then show ?thesis unfolding evaluateFacet_def Let_def sources_def[symmetric] r0_def[symmetric]
    using attempt_skipped[OF r0] rejectBudget_ok[OF r0] by simp
qed

lemma leased_attempt:
  assumes "en_get env = Inr object" "\<not> fc_deleting object" "en_acquire env = Inr lease"
  obtains a where "at_calls (reconcileKey lib env) = at_calls a @ [CallRelease]" "attempt_ok lib env lease a"
proof -
  let ?calls = "[CallAcquire (fc_uid object) (fc_generation object)]"
  have "executes_covered lib env lease ?calls"
    using executes_covered_snoc[of lib env lease "[]" "CallAcquire (fc_uid object) (fc_generation object)"] by simp
  then have "attempt_ok lib env lease (evaluateFacet lib env lease object ?calls)" by (rule evaluateFacet_ok) simp
  moreover have "at_calls (reconcileKey lib env) = at_calls (evaluateFacet lib env lease object ?calls) @ [CallRelease]"
    using assms by (simp add: reconcileKey_def Let_def)
  ultimately show ?thesis using that by blast
qed

section \<open>A concrete attempt\<close>

text \<open>One source of pods in one namespace, allowed by the policy; the lease ends right after the list call.\<close>

definition flow_lib :: "(unit, unit, string) PipelineLib" where
  "flow_lib = \<lparr>lb_k8s = \<lparr>isDNS1123Label = (\<lambda>_. True), isDNS1123Subdomain = (\<lambda>_. True)\<rparr>,
     lb_typed = \<lparr>FormatFloat = (\<lambda>_. []), timeParse = (\<lambda>_. None), formatTime = (\<lambda>_. []), ParseDuration = (\<lambda>_. None), durationString = (\<lambda>_. []),
       ParseQuantity = (\<lambda>_. None), quantityAsDec = (\<lambda>_. []), quantityCmp = (\<lambda>_ _. 0), quantityString = (\<lambda>_. []), marshalString = (\<lambda>_. []),
       jsonValid = (\<lambda>_. False)\<rparr>,
     lb_ops = \<lparr>regexpCompile = (\<lambda>_. None), MatchString = (\<lambda>_ _. False), decodeNext = (\<lambda>_. None)\<rparr>,
     lb_selectors = \<lparr>sel_label_everything = [], sel_field_everything = [], sel_label = (\<lambda>_ _. Some []), sel_parse_field = Some,
       sel_field_string = (\<lambda>s. s), sel_one_term_equal = (\<lambda>k v. k @ ''='' @ v), sel_and = (\<lambda>a b. a @ '','' @ b)\<rparr>,
     lb_profile = DefaultProfile, lb_budgets = None, lb_facetSize = (\<lambda>_. Some 10), lb_policySize = (\<lambda>_. Some 10),
     lb_outcomeSize = (\<lambda>_. Some 0), lb_resourceSize = (\<lambda>_. Some 0), lb_aggregateSize = (\<lambda>_. Some 0)\<rparr>"

definition flow_source :: FacetSource where
  "flow_source = \<lparr>fs_id = ''pods'', fs_resource = \<lparr>ref_apiVersion = ''v1'', ref_kind = ''Pod''\<rparr>, fs_namespaces = Some [''a''], fs_selector = None,
     fs_fields = [], fs_aggregations = []\<rparr>"

definition flow_policy :: FacetAccessPolicy where
  "flow_policy = \<lparr>fap_name = ''installation-access-ceiling'', fap_uid = ''p'', fap_generation = 1,
     fap_namespaces = \<lparr>np_mode = ''All'', np_include = [], np_exclude = [], np_systemNamespaces = None\<rparr>,
     fap_resources = [\<lparr>rr_apiGroups = [[]], rr_kinds = [''Pod'']\<rparr>], fap_allowClusterScoped = False\<rparr>"

definition flow_env :: PipelineEnv where
  "flow_env = \<lparr>en_get = Inr \<lparr>fc_namespace = ''ns'', fc_uid = ''u'', fc_generation = 1, fc_deleting = False, fc_sources = [flow_source]\<rparr>, en_ctx = None,
     en_acquire = Inr pub_lease, en_moment = (\<lambda>n. \<lparr>mo_leaseErr = (if n < 7 then None else Some Canceled), mo_tracker = None, mo_evalErr = None\<rparr>), en_policy = Some (Inr (Some flow_policy)),
     en_resolve = (\<lambda>_. Some (\<lambda>_. Inr \<lparr>res_sourceID = ''pods'', res_resource = \<lparr>gvr_group = [], gvr_version = ''v1'', gvr_resource = ''pods''\<rparr>,
       res_scope = ScopeNamespaced\<rparr>)),
     en_authorizeCtx = (\<lambda>_. None), en_replace = (\<lambda>_. None), en_execute = (\<lambda>_ _. \<lparr>so_sourceID = ''pods'', so_resources = [], so_err = None\<rparr>),
     en_extractCtx = (\<lambda>_. None), en_convertCtx = (\<lambda>_. None), en_operateCtx = (\<lambda>_. None), en_aggregateCtx = (\<lambda>_. None), en_publish = (\<lambda>_. None)\<rparr>"





definition flow_plan :: SelectionPlan where
  "flow_plan = \<lparr>pl_sourceID = ''pods'', pl_apiVersion = ''v1'', pl_kind = ''Pod'', pl_targets = [\<lparr>rt_sourceID = ''pods'',
     rt_gvr = \<lparr>gvr_group = [], gvr_version = ''v1'', gvr_resource = ''pods''\<rparr>, rt_kind = ''Pod'', rt_scope = ScopeNamespaced, rt_namespace = ''a''\<rparr>],
     pl_labelSelector = [], pl_fieldSelector = []\<rparr>"

definition flow_outcome :: DecisionOutcome where
  "flow_outcome = decide (lb_k8s flow_lib) (subject_of pub_lease) (attempt_snapshot flow_lib flow_env) (RequestForTarget (pl_targets flow_plan ! 0))"

lemma flow_planned: "Plan (lb_k8s flow_lib) (lb_selectors flow_lib) (en_resolve flow_env 0) ''ns'' flow_source = Inr flow_plan"
  by code_simp

lemma flow_authorized:
  "fst (EvaluateBatch (lb_k8s flow_lib) (en_authorizeCtx flow_env 0) (subject_of pub_lease) (attempt_snapshot flow_lib flow_env)
     (map RequestForTarget (pl_targets flow_plan))) = Inr [flow_outcome]"
  by (simp add: EvaluateBatch_def Subject_Validate_def subject_of_def pub_lease_def flow_env_def flow_plan_def flow_outcome_def)

lemma flow_allowed: "dec_allowed (do_decision flow_outcome)" by code_simp

lemma flow_bound: "(case BindCapabilities flow_plan [flow_outcome] of Inl _ \<Rightarrow> False | Inr bound \<Rightarrow> length (ap_reads bound) = 1)" by code_simp

lemma flow_routed: "snd (buildRoutes (lb_k8s flow_lib) ''pods'' (zip (pl_targets flow_plan) [flow_outcome])) = None" by code_simp

lemma flow_operators: "OPlan_Valid (OpCompileSource (lb_typed flow_lib) (lb_ops flow_lib) flow_source)"
  by (simp add: OPlan_Valid_def OpCompileSource_def flow_source_def)

lemma flow_entry:
  assumes "ps_source entry = flow_source" "ps_selectionErr entry = None" "sa_authorization (ps_assessment entry) = ''not-evaluated''"
  obtains bound where "ps_canExecute (authorizeEntry (lb_k8s flow_lib) flow_plan [flow_outcome] entry)"
    "ps_selectionErr (authorizeEntry (lb_k8s flow_lib) flow_plan [flow_outcome] entry) = None"
    "ps_authorized (authorizeEntry (lb_k8s flow_lib) flow_plan [flow_outcome] entry) = Some bound" "ap_reads bound \<noteq> []"
proof -
  obtain bound where "BindCapabilities flow_plan [flow_outcome] = Inr bound" "length (ap_reads bound) = 1" using flow_bound by (auto split: sum.splits)
  then have b: "BindCapabilities flow_plan [flow_outcome] = Inr bound" "ap_reads bound \<noteq> []" by auto
  obtain routes where r: "buildRoutes (lb_k8s flow_lib) ''pods'' (zip (pl_targets flow_plan) [flow_outcome]) = (routes, None)"
    using flow_routed by (metis prod.collapse)
  have sid: "fs_id (ps_source entry) = ''pods''" using assms(1) by (simp add: flow_source_def)
  have "authorizeEntry (lb_k8s flow_lib) flow_plan [flow_outcome] entry =
    (set_authorization ''allowed'' (entry\<lparr>ps_authorizations := [flow_outcome]\<rparr>))
      \<lparr>ps_authorized := Some bound, ps_canExecute := True, ps_authorizedSet := routes, ps_selectionErr := None\<rparr>"
    unfolding authorizeEntry_def sid Let_def using assms(2,3) flow_allowed b(1) r
    by (simp add: applyDecision_def set_authorization_def)
  then show ?thesis using that[of bound] b(2) by simp
qed

lemma flow_running: "rn_clock r < 7 \<Longrightarrow> checkpoint flow_env pub_lease sources r = Inr (tick r)"
  by (simp add: checkpoint_def evaluationState_def flow_env_def lease_current_def)

lemma flow_interrupted: "rn_clock r = 7 \<Longrightarrow> checkpoint flow_env pub_lease sources r = Inl (skipped flow_env (tick r))"
  by (simp add: checkpoint_def evaluationState_def flow_env_def)

abbreviation flow_calls :: "pipeline_call list" where
  "flow_calls \<equiv> [CallAcquire ''u'' 1]"

definition flow_run2 :: "(unit, unit) Run" where
  "flow_run2 = tick ((port_call CallLoadPolicy (tick (initialRun flow_lib [flow_source] flow_calls 1)))
     \<lparr>rn_policy := snap_terminalReason (attempt_snapshot flow_lib flow_env)\<rparr>)"

lemma flow_available: "snap_terminalReason (attempt_snapshot flow_lib flow_env) \<noteq> ReasonPolicyUnavailable" by code_simp

lemma flow_loaded:
  "loadPolicy flow_lib flow_env pub_lease [flow_source] (tick (initialRun flow_lib [flow_source] flow_calls 1)) = Inr (attempt_snapshot flow_lib flow_env, flow_run2)"
  unfolding loadPolicy_def attempt_snapshot_def[symmetric] Let_def
  by (subst flow_running) (simp_all add: tick_def port_call_def initialRun_def flow_run2_def flow_available)

lemma flow_subject: "NewSubject (ls_key pub_lease) (ls_uid pub_lease) (ls_generation pub_lease) (ls_policyEpoch pub_lease) = Inr (subject_of pub_lease)"
  by (simp add: NewSubject_def Subject_Validate_def subject_of_def pub_lease_def)

lemma flow_planned_run:
  obtains r e bound where "planSources flow_lib flow_env pub_lease ''ns'' (subject_of pub_lease) (attempt_snapshot flow_lib flow_env) [flow_source] [0] flow_run2 = Inr r"
    "rn_clock r = 4" "rn_planned r = [e]" "ps_canExecute e" "ps_selectionErr e = None" "ps_authorized e = Some bound" "ap_reads bound \<noteq> []"
proof -
  define e0 where "e0 = initialEntry flow_lib 0 flow_source"
  define e1 where "e1 = e0\<lparr>ps_assessment := (ps_assessment e0)\<lparr>sa_resolution := ''resolved''\<rparr>\<rparr>"
  define e where "e = authorizeEntry (lb_k8s flow_lib) flow_plan [flow_outcome] e1"
  have e1: "ps_source e1 = flow_source" "ps_selectionErr e1 = None" "sa_authorization (ps_assessment e1) = ''not-evaluated''"
    by (simp_all add: e1_def e0_def initialEntry_def Let_def)
  obtain bound where b: "ps_canExecute e" "ps_selectionErr e = None" "ps_authorized e = Some bound" "ap_reads bound \<noteq> []"
    unfolding e_def by (rule flow_entry[OF e1])
  have run: "rn_clock flow_run2 = 3" "rn_planned flow_run2 = [e0]" by (simp_all add: flow_run2_def tick_def port_call_def initialRun_def e0_def)
  have valid: "OPlan_Valid (ps_operatorPlan e0)" using flow_operators by (simp add: e0_def initialEntry_def Let_def)
  define r1 where "r1 = resolve_call flow_lib flow_env 0 flow_source (tick flow_run2)"
  have r1: "rn_clock r1 = 4" "rn_planned r1 = [e0]" using run by (simp_all add: r1_def resolve_call_def port_call_def tick_def)
  define r where "r = store 0 e (port_call (CallAuthorize (subject_of pub_lease) (map RequestForTarget (pl_targets flow_plan))) r1)"
  have "planReadySource flow_lib flow_env pub_lease ''ns'' (subject_of pub_lease) (attempt_snapshot flow_lib flow_env) [flow_source] 0 (tick flow_run2) = Inr r"
    unfolding planReadySource_def Let_def nth_Cons_0 using run(2) valid flow_planned
    by (simp add: tick_def authorizeSourceAt_def flow_authorized Let_def r_def e_def e1_def r1_def)
  then have "planSources flow_lib flow_env pub_lease ''ns'' (subject_of pub_lease) (attempt_snapshot flow_lib flow_env) [flow_source] [0] flow_run2 = Inr r"
    using flow_running[of flow_run2] run(1) by (simp add: planSourceAt_def)
  moreover have "rn_clock r = 4" "rn_planned r = [e]" using r1 by (simp_all add: r_def store_def port_call_def)
  ultimately show ?thesis using that b by blast
qed

lemma flow_budget: "BudgetValidator_ValidateFacet (lb_facetSize flow_lib) (lb_budgets flow_lib) (Some [flow_source]) = []" by code_simp

lemma flow_executes:
  obtains pre bound where "at_calls (reconcileKey flow_lib flow_env) = pre @ [CallExecute bound, CallRelease]" "ap_reads bound \<noteq> []"
proof -
  obtain r e bound where r: "planSources flow_lib flow_env pub_lease ''ns'' (subject_of pub_lease) (attempt_snapshot flow_lib flow_env) [flow_source] [0]
    flow_run2 = Inr r" "rn_clock r = 4" "rn_planned r = [e]" and e: "ps_canExecute e" "ps_selectionErr e = None" "ps_authorized e = Some bound"
    and b: "ap_reads bound \<noteq> []" by (rule flow_planned_run)
  define r4 where "r4 = tick (port_call (CallReplace pub_lease (planned_routes [e])) (tick r))"
  have r4: "replaceRoutes flow_env pub_lease [flow_source] r = Inr r4" "rn_clock r4 = 6" "rn_planned r4 = [e]"
  proof -
    have c: "rn_clock (port_call (CallReplace pub_lease (planned_routes [e])) (tick r)) < 7" "rn_planned (tick r) = [e]"
      using r by (simp_all add: port_call_def tick_def)
    show "replaceRoutes flow_env pub_lease [flow_source] r = Inr r4"
      using flow_running[of r] flow_running[OF c(1)] r(2) c(2) by (simp add: replaceRoutes_def installRoutes_def Let_def r4_def flow_env_def)
  qed (use r in \<open>simp_all add: r4_def port_call_def tick_def\<close>)
  define r6 where "r6 = port_call (CallExecute bound) (tick r4)"
  have sel: "selectSource flow_env 0 (tick r4) = (en_execute flow_env 0 bound, r6)" "rn_clock r6 = 7"
    using r4(2,3) e by (simp_all add: selectSource_def tick_def Let_def r6_def flow_env_def port_call_def)
  have "evaluateSourcesFrom flow_lib flow_env pub_lease [flow_source] [0] r4 = Inl (skipped flow_env (tick r6))"
    using flow_running[of r4] flow_interrupted[of r6] r4(2) sel by (simp add: evaluateSourceAt_def evaluateStages_def)
  then have run: "runSources flow_lib flow_env pub_lease ''ns'' [flow_source] (subject_of pub_lease) (attempt_snapshot flow_lib flow_env) flow_run2 =
    Inl (skipped flow_env (tick r6))" using r(1) r4(1) by (simp add: runSources_def)
  have "evaluateFacet flow_lib flow_env pub_lease \<lparr>fc_namespace = ''ns'', fc_uid = ''u'', fc_generation = 1, fc_deleting = False, fc_sources = [flow_source]\<rparr>
    flow_calls = skipped flow_env (tick r6)"
    using flow_running[of "initialRun flow_lib [flow_source] flow_calls 1"] flow_loaded run flow_subject flow_budget
    by (simp add: evaluateFacet_def Let_def runSubject_def initialRun_def evaluationState_def lease_current_def flow_env_def)
  then have "at_calls (reconcileKey flow_lib flow_env) = rn_calls (tick r4) @ [CallExecute bound, CallRelease]"
    by (simp add: reconcileKey_def flow_env_def Let_def skipped_def r6_def port_call_def tick_def)
  then show ?thesis using that b by blast
qed

section \<open>Properties\<close>

text \<open>C2: an attempt lists objects only under a lease, and each list call comes after a route replacement of that lease that succeeded.
  Every read of its plan carries a capability of the lease's own identity for exactly its target, which the access policy of
  the attempt allows, and one of the installed routes watches that target's address under the same capability.\<close>

theorem attempt_reads_authorized:
  assumes "at_calls (reconcileKey lib env) = pre @ CallExecute plan # post"
  shows "\<exists>lease routes. en_acquire env = Inr lease \<and> CallReplace lease routes \<in> set pre \<and> en_replace env routes = None \<and>
    list_all (\<lambda>read. AuthorizedRead_Valid read \<and> cap_subject (ar_capability read) = subject_of lease \<and>
      dec_allowed (Evaluate (lb_k8s lib) (attempt_snapshot lib env) (RequestForTarget (ar_target read))) \<and>
      list_ex (\<lambda>b. rb_capability b = ar_capability read \<and> AddressForTarget (lb_k8s lib) (ar_target read) = Inr (rb_address b)) routes) (ap_reads plan)"
proof -
  have m: "CallExecute plan \<in> set (at_calls (reconcileKey lib env))" using assms by simp
  obtain object lease where o: "en_get env = Inr object" "\<not> fc_deleting object" "en_acquire env = Inr lease"
    using m by (auto simp: reconcileKey_def Let_def split: sum.splits if_splits)
  obtain a where a: "at_calls (reconcileKey lib env) = at_calls a @ [CallRelease]" "attempt_ok lib env lease a"
    using leased_attempt[OF o] .
  have "executes_covered lib env lease (at_calls a @ [CallRelease])" using a(2) by (intro executes_covered_snoc) (simp_all add: attempt_ok_def)
  then obtain routes where "CallReplace lease routes \<in> set pre" "en_replace env routes = None"
    "list_all (read_covered lib env lease routes) (ap_reads plan)" using assms unfolding a(1)[symmetric] executes_covered_def by metis
  then show ?thesis using o(3) unfolding read_covered_def by blast
qed

theorem attempt_reads_authorized_witness:
  "\<exists>pre plan routes. at_calls (reconcileKey flow_lib flow_env) = pre @ [CallExecute plan, CallRelease] \<and> ap_reads plan \<noteq> [] \<and>
     CallReplace pub_lease routes \<in> set pre \<and> cap_subject (ar_capability (hd (ap_reads plan))) = subject_of pub_lease"
proof -
  obtain pre plan where p: "at_calls (reconcileKey flow_lib flow_env) = pre @ [CallExecute plan, CallRelease]" "ap_reads plan \<noteq> []" by (rule flow_executes)
  have l: "en_acquire flow_env = Inr pub_lease" by (simp add: flow_env_def)
  show ?thesis using p attempt_reads_authorized[of flow_lib flow_env pre plan "[CallRelease]"] l
    by (cases "ap_reads plan") auto
qed

text \<open>C7: a Facet over its configured budget is isolated: the attempt never loads the policy, discovers, authorizes, routes or lists anything.  Unless
  it is interrupted at once, it drops the owner's routes and hands the publisher the budget rejection, once and under its lease.  When that is
  published, the attempt returns the budget error, which \<^verbatim>\<open>IsRetryable\<close> does not count as retryable; a publication that lost the lease or its context
  ends the attempt without an error, and any other publication error is returned itself.\<close>

theorem budget_rejection_isolated:
  assumes "en_get env = Inr object" and "en_acquire env = Inr lease" and "\<not> fc_deleting object"
    and "BudgetValidator_ValidateFacet (lb_facetSize lib) (lb_budgets lib) (Some (fc_sources object)) = issues" and "issues \<noteq> []"
  shows "if evaluationState (en_moment env 0) lease = Interrupted
    then at_calls (reconcileKey lib env) = [CallAcquire (fc_uid object) (fc_generation object), CallRelease] \<and>
      at_err (reconcileKey lib env) = None \<and> tm_outcome (at_terminal (reconcileKey lib env)) = ''skipped''
    else at_calls (reconcileKey lib env) = [CallAcquire (fc_uid object) (fc_generation object), CallRemoveOwner,
        CallPublish LeaseCtx lease (empty_evaluation\<lparr>ev_configurationBudgetExceeded := True\<rparr>), CallRelease] \<and>
      (case en_publish env (empty_evaluation\<lparr>ev_configurationBudgetExceeded := True\<rparr>) of
         None \<Rightarrow> at_err (reconcileKey lib env) = Some (configurationBudgetRuntimeError issues) \<and> \<not> IsRetryable (at_err (reconcileKey lib env)) \<and>
           tm_outcome (at_terminal (reconcileKey lib env)) = ''failed'' \<and> tm_reason (at_terminal (reconcileKey lib env)) = ''ConfigurationBudgetExceeded''
       | Some e \<Rightarrow> at_err (reconcileKey lib env) = (if errors_Is e ErrStaleLease \<or> interrupted_error e then None else Some e))"
proof (cases "evaluationState (en_moment env 0) lease = Interrupted")
  case True
  then show ?thesis using assms
    by (simp add: reconcileKey_def evaluateFacet_def skipped_def skippedTerminal_def initialRun_def Let_def)
next
  case False
  then have a: "reconcileKey lib env = (let a = rejectBudget env lease issues (initialRun lib (fc_sources object)
      [CallAcquire (fc_uid object) (fc_generation object)] 1) in a\<lparr>at_calls := at_calls a @ [CallRelease]\<rparr>)"
    using assms by (simp add: reconcileKey_def evaluateFacet_def Let_def)
  show ?thesis unfolding if_not_P[OF False] a Let_def
    by (simp add: rejectBudget_def returns_def skipped_def skip_error_def initialRun_def port_call_def Let_def IsRetryable_def as_runtime_def
      configurationBudgetRuntimeError_def terminalRuntimeError_def terminalForError_def errors_Is_def interrupted_error_def reasonForRuntimeError_def
      split: option.split)
qed

theorem budget_rejection_isolated_witness:
  "at_calls (reconcileKey (flow_lib\<lparr>lb_facetSize := (\<lambda>_. None)\<rparr>) flow_env) = [CallAcquire ''u'' 1, CallRemoveOwner,
     CallPublish LeaseCtx pub_lease (empty_evaluation\<lparr>ev_configurationBudgetExceeded := True\<rparr>), CallRelease] \<and>
   at_err (reconcileKey (flow_lib\<lparr>lb_facetSize := (\<lambda>_. None)\<rparr>) flow_env) \<noteq> None"
proof -
  let ?lib = "flow_lib\<lparr>lb_facetSize := (\<lambda>_. None)\<rparr>"
  let ?object = "\<lparr>fc_namespace = ''ns'', fc_uid = ''u'', fc_generation = 1, fc_deleting = False, fc_sources = [flow_source]\<rparr>"
  have g: "en_get flow_env = Inr ?object" "en_acquire flow_env = Inr pub_lease" "\<not> fc_deleting ?object" by (simp_all add: flow_env_def)
  have b: "BudgetValidator_ValidateFacet (lb_facetSize ?lib) (lb_budgets ?lib) (Some (fc_sources ?object)) \<noteq> []" by code_simp
  have "evaluationState (en_moment flow_env 0) pub_lease \<noteq> Interrupted" "en_publish flow_env e = None" for e
    by (simp_all add: evaluationState_def flow_env_def lease_current_def)
  then show ?thesis using budget_rejection_isolated[OF g refl b] by simp
qed

end
