(* ===== verification/PipelineResults.thy ===== *)
theory PipelineResults
  imports PipelineSafety
begin

text \<open>
  What one reconciliation attempt publishes (\<^verbatim>\<open>src/internal/reconciliation/pipeline.go\<close>): for every declared source either the result of
  its own stages on what was read for it, or the timeout marker that \<^verbatim>\<open>finishTimedOutEvaluation\<close> fills in for a source that was not
  completed.  \<open>run_content\<close> is the invariant of the attempt's variables that carries this from the first checkpoint to the publication.
\<close>

section \<open>Content of a publication\<close>







section \<open>Content of the attempt's variables\<close>

definition entry_content ::
  "('q, 'r, 'f) PipelineLib \<Rightarrow> PipelineEnv \<Rightarrow> string \<Rightarrow> FacetSource \<Rightarrow> nat \<Rightarrow> ('q, 'r) plannedSource \<Rightarrow> bool" where
  "entry_content lib env ns source i e \<longleftrightarrow> ps_source e = source \<and>
     ps_operatorPlan e = OpCompileSource (lb_typed lib) (lb_ops lib) source \<and>
     ps_aggregationPlan e = PlanSource source (LimitsFromProfile (lb_profile lib)) \<and>
     (\<forall>bound. ps_authorized e = Some bound \<longrightarrow>
        Plan (lb_k8s lib) (lb_selectors lib) (en_resolve env i) ns source = Inr (ap_plan bound))"

text \<open>An entry the planning loop has passed: it can be read, or it says why not.\<close>

definition decided :: "('q, 'r) plannedSource \<Rightarrow> bool" where
  "decided e \<longleftrightarrow> \<not> OPlan_Valid (ps_operatorPlan e) \<or> ps_selectionErr e \<noteq> None \<or> ps_canExecute e \<and> ps_authorized e \<noteq> None"






lemma tick_fields [simp]: "rn_calls (tick r) = rn_calls r" "rn_completed (tick r) = rn_completed r" "rn_planned (tick r) = rn_planned r"
  by (simp_all add: tick_def)







section \<open>Ends of an attempt\<close>








section \<open>Planning\<close>


lemma set_authorization_plans [simp]:
  "ps_operatorPlan (set_authorization o' e) = ps_operatorPlan e" "ps_aggregationPlan (set_authorization o' e) = ps_aggregationPlan e"
  by (simp_all add: set_authorization_def)

lemma applyDecision_plans [simp]:
  "ps_source (applyDecision sid d e) = ps_source e" "ps_operatorPlan (applyDecision sid d e) = ps_operatorPlan e"
  "ps_aggregationPlan (applyDecision sid d e) = ps_aggregationPlan e"
  by (simp_all add: applyDecision_def Let_def)

lemma applyDecisions_plans [simp]:
  "ps_source (fold (applyDecision sid) ds e) = ps_source e" "ps_operatorPlan (fold (applyDecision sid) ds e) = ps_operatorPlan e"
  "ps_aggregationPlan (fold (applyDecision sid) ds e) = ps_aggregationPlan e" "ps_authorized (fold (applyDecision sid) ds e) = ps_authorized e"
  by (induction ds arbitrary: e) simp_all

lemma set_authorization_content [simp]:
  "entry_content lib env ns source i (set_authorization o' e) = entry_content lib env ns source i e"
  "decided (set_authorization o' e) = decided e"
  by (simp_all add: entry_content_def decided_def)







section \<open>Evaluation\<close>







section \<open>Publication\<close>






section \<open>Properties\<close>



end
