(* ===== verification/PipelineObservation.thy ===== *)
theory PipelineObservation
  imports Pipeline
begin

text \<open>
  What an attempt reports about its result: the classification helpers of \<^verbatim>\<open>pipeline.go\<close> and \<^verbatim>\<open>observeRuntimeResult\<close>, as the list of
  observations handed to the observer.  \<open>toLower\<close> is \<^verbatim>\<open>strings.ToLower\<close>.  The extraction outcomes argument is nil in both callers.
\<close>

section \<open>Classification\<close>

text \<open>The messages in the order they are looked at; the flag says that the message is taken even when it is empty.\<close>

definition result_messages :: "FacetSourceResult \<Rightarrow> (string \<times> bool) list" where
  "result_messages source =
     (case fsr_error source of None \<Rightarrow> [] | Some e \<Rightarrow> [(fre_message e, True)]) @
     map (\<lambda>e. (ffe_message e, False)) (fsr_fieldErrors source) @
     concat (map (\<lambda>resource. (case frr_error resource of None \<Rightarrow> [] | Some e \<Rightarrow> [(fre_message e, True)]) @
       List.map_filter (\<lambda>field. map_option (\<lambda>e. (fre_message e, True)) (ffr_error field)) (frr_fields resource)) (fsr_resources source)) @
     concat (map (\<lambda>aggregate. (case far_error aggregate of None \<Rightarrow> [] | Some e \<Rightarrow> [(fre_message e, True)]) @
       map (\<lambda>failure. (fre_message (farf_error failure), False)) (far_failures aggregate)) (fsr_aggregates source))"

definition sourceResultMessage :: "FacetSourceResult \<Rightarrow> string" where
  "sourceResultMessage source = (case find (\<lambda>(m, always). always \<or> m \<noteq> []) (result_messages source) of None \<Rightarrow> [] | Some (m, _) \<Rightarrow> m)"

definition stageForResultReason :: "string \<Rightarrow> string" where
  "stageForResultReason reason =
    (if reason \<in> set [''ReadUnavailable'', ''ReadForbidden'', ''ReadInterrupted'', ''ListExpired'', ''UnsupportedSelector'', ''InvalidObject'']
     then ''read''
     else if reason \<in> set [''InvalidExpression'', ''UnsupportedExpression'', ''EvaluationTypeMismatch'', ''InvalidResource'', ''InvalidInput'',
       ''ExtractionInterrupted'', ''MissingType'', ''UnsupportedType'', ''ConversionTypeMismatch'', ''InvalidValue'', ''ConversionOverflow'',
       ''ForbiddenConversion'', ''ConversionInterrupted'']
     then ''extract''
     else if reason \<in> set [''unsupported-operator'', ''incompatible-operator'', ''invalid-arity'', ''invalid-operand'', ''invalid-pattern'',
       ''invalid-input'', ''operator-interrupted'', ''OperatorFailed'']
     then ''validate''
     else if reason \<in> set [''duplicate-aggregate'', ''unknown-field'', ''duplicate-group-field'', ''unsupported-group-type'', ''incompatible-function'',
       ''invalid-average-options'', ''invalid-group-key'', ''target-field-error'', ''overflow'', ''cardinality-exceeded'', ''aggregation-interrupted'',
       ''AggregationInterrupted'', ''InvalidGroupKey'', ''TargetFieldError'', ''Overflow'', ''CardinalityExceeded'']
     then ''aggregate''
     else ''validate'')"

record LimitObservation =
  lo_sourceID :: string
  lo_stage :: string
  lo_reason :: string
  lo_dimension :: string
  lo_ceiling :: int
  lo_scheduled :: bool

definition contains :: "string \<Rightarrow> string \<Rightarrow> bool" where
  "contains s part = list_ex (\<lambda>i. take (length part) (drop i s) = part) [0..<Suc (length s)]"

definition aggregationDimension :: "AggregationBudgets \<Rightarrow> string \<Rightarrow> string \<times> int" where
  "aggregationDimension lims message =
    (if contains message ''group'' then (''aggregation_groups'', MaxGroups lims)
     else if contains message ''collection'' then (''aggregation_collected_values'', MaxCollectedValues lims)
     else if contains message ''distinct'' then (''aggregation_distinct_values'', MaxDistinctValues lims)
     else if contains message ''provenance'' then (''aggregation_provenance'', MaxProvenanceEntries lims)
     else (''aggregation_contributions'', MaxContributions lims))"

text \<open>The timeout is in nanoseconds; its milliseconds are truncated.\<close>

definition limitObservationForSource ::
  "(string \<Rightarrow> string) \<Rightarrow> Profile \<Rightarrow> FacetSourceResult \<Rightarrow> string \<Rightarrow> LimitObservation option" where
  "limitObservationForSource toLower profile source reason =
    (let message = toLower (sourceResultMessage source);
         observation = \<lparr>lo_sourceID = fsr_id source, lo_stage = stageForResultReason reason, lo_reason = reason, lo_dimension = [], lo_ceiling = 0,
           lo_scheduled = False\<rparr> in
     if reason = ''EvaluationTimedOut'' then
       (let ms = go_div (evaluationTimeout profile) 1000000 in
        Some (observation\<lparr>lo_stage := ''compose'', lo_scheduled := True, lo_dimension := ''evaluation_timeout_ms'',
          lo_ceiling := (if ms \<le> 0 then 1 else ms)\<rparr>))
     else if reason = ''SelectionLimitExceeded'' then
       (if contains message ''byte''
        then Some (observation\<lparr>lo_stage := ''read'', lo_dimension := ''selected_input_bytes'', lo_ceiling := maxSelectedInputBytes profile\<rparr>)
        else Some (observation\<lparr>lo_stage := ''read'', lo_dimension := ''matched_resources'', lo_ceiling := maxMatchedResources profile\<rparr>))
     else if reason = ''ValueLimitExceeded'' then
       Some (observation\<lparr>lo_stage := ''extract'', lo_dimension := ''produced_value_bytes'', lo_ceiling := maxProducedValueBytes profile\<rparr>)
     else if reason = ''cardinality-exceeded'' then
       (case aggregationDimension (aggregation profile) message of
          (dimension, bound) \<Rightarrow> Some (observation\<lparr>lo_stage := ''aggregate'', lo_dimension := dimension, lo_ceiling := bound\<rparr>))
     else None)"

section \<open>Observation\<close>

datatype result_observation =
    ObservedResult string
  | ObservedLimit LimitObservation
  | ObservedSourceFailure string string string

text \<open>The loop over the sources; a timeout is reported once, without a source.\<close>

fun observeSources :: "(string \<Rightarrow> string) \<Rightarrow> Profile \<Rightarrow> bool \<Rightarrow> FacetResult \<Rightarrow> result_observation list" where
  "observeSources toLower profile timeoutObserved [] = []"
| "observeSources toLower profile timeoutObserved (source # rest) =
    (if \<not> sourceHasResultFailure source then observeSources toLower profile timeoutObserved rest
     else
       let reason = sourceResultReason source in
       case limitObservationForSource toLower profile source reason of
         Some observation \<Rightarrow>
           if lo_reason observation = ''EvaluationTimedOut'' then
             if timeoutObserved then observeSources toLower profile timeoutObserved rest
             else ObservedLimit (observation\<lparr>lo_sourceID := []\<rparr>) # observeSources toLower profile True rest
           else ObservedLimit observation # observeSources toLower profile timeoutObserved rest
       | None \<Rightarrow> ObservedSourceFailure (fsr_id source) (stageForResultReason reason) reason # observeSources toLower profile timeoutObserved rest)"

definition observeRuntimeResult ::
  "(FacetResult \<Rightarrow> string option) \<Rightarrow> (string \<Rightarrow> string) \<Rightarrow> bool \<Rightarrow> Profile \<Rightarrow> FacetResult \<Rightarrow> result_observation list" where
  "observeRuntimeResult hash toLower observer profile built =
    (if \<not> observer then []
     else (case DeriveResult hash (Some built) of
         Inl _ \<Rightarrow> []
       | Inr derived \<Rightarrow> [ObservedResult (if dr_degraded derived then ''degraded'' else ''completed'')]) @
       observeSources toLower profile False built)"

section \<open>Properties\<close>

text \<open>A result is degraded exactly when one of its sources has a failure to report.\<close>

theorem result_errors_iff: "HasResultErrors built = list_ex sourceHasResultFailure built"
  unfolding HasResultErrors_def sourceHasResultFailure_def[abs_def] ..

lemma limit_reason: "limitObservationForSource toLower profile source reason = Some o' \<Longrightarrow> lo_reason o' = reason"
  by (auto simp: limitObservationForSource_def Let_def split: if_splits prod.splits)

text \<open>Every failing source is reported once and in order, timeouts once for all of them, and nothing else is.\<close>

theorem observeSources_complete:
  "length (observeSources toLower profile seen built) =
     length (filter (\<lambda>s. sourceHasResultFailure s \<and> sourceResultReason s \<noteq> ''EvaluationTimedOut'') built) +
     (if \<not> seen \<and> list_ex (\<lambda>s. sourceHasResultFailure s \<and> sourceResultReason s = ''EvaluationTimedOut'') built then 1 else 0)"
proof (induction toLower profile seen built rule: observeSources.induct)
  case (2 toLower profile seen source rest)
  have t: "limitObservationForSource toLower profile source ''EvaluationTimedOut'' \<noteq> None" by (simp add: limitObservationForSource_def Let_def)
  show ?case using 2 t limit_reason by (auto simp: Let_def split: option.splits)
qed simp

end
