(* ===== verification/Events.thy ===== *)
theory Events
  imports Publisher Trigger
begin

text \<open>
  Event handlers and options of \<^verbatim>\<open>src/internal/reconciliation\<close>: \<^verbatim>\<open>events.go\<close> and the normalisation of \<^verbatim>\<open>contracts.go\<close>.  A handler
  works on the tracker, the route registry and the trigger source it was built with (\<open>None\<close>: not configured) and on the work queue.  Each call on
  one of these is atomic under its own lock; a handler is the sequence of its calls.
\<close>

section \<open>State\<close>

record Controller =
  ct_tracker :: "FreshnessTracker option"
  ct_routes :: "RouteRegistry option"
  ct_trigger :: "TriggerSource option"
  ct_queue :: "NamespacedName list option"

record EventObject =
  eo_key :: NamespacedName
  eo_uid :: UID
  eo_generation :: int
  eo_deleting :: bool

record PolicyObject =
  po_name :: string
  po_uid :: UID
  po_generation :: int
  po_deleting :: bool

section \<open>Facet events\<close>

definition enqueueObject :: "NamespacedName \<Rightarrow> Controller \<Rightarrow> Controller" where
  "enqueueObject key c = (case ct_queue c of
     Some q \<Rightarrow> if nn_name key \<noteq> [] then c\<lparr>ct_queue := Some (q @ [key])\<rparr> else c
   | None \<Rightarrow> c)"

definition facetLifecycleChanged :: "EventObject option \<Rightarrow> EventObject option \<Rightarrow> bool" where
  "facetLifecycleChanged oldObject newObject = (case (oldObject, newObject) of
     (Some old, Some new) \<Rightarrow>
       if eo_uid old \<noteq> eo_uid new \<or> eo_generation old \<noteq> eo_generation new then True else \<not> eo_deleting old \<and> eo_deleting new
   | (None, None) \<Rightarrow> False
   | _ \<Rightarrow> True)"

definition FacetPredicate_Create :: "EventObject option \<Rightarrow> bool" where
  "FacetPredicate_Create object \<longleftrightarrow> object \<noteq> None"

definition FacetPredicate_Delete :: "EventObject option \<Rightarrow> bool" where
  "FacetPredicate_Delete object \<longleftrightarrow> object \<noteq> None"

definition FacetPredicate_Generic :: "EventObject option \<Rightarrow> bool" where
  "FacetPredicate_Generic object \<longleftrightarrow> object \<noteq> None"

definition FacetPredicate_Update :: "EventObject option \<Rightarrow> EventObject option \<Rightarrow> bool" where
  "FacetPredicate_Update old new \<longleftrightarrow> facetLifecycleChanged old new"

definition Lifecycle_enqueue :: "NamespacedName \<Rightarrow> Controller \<Rightarrow> Controller" where
  "Lifecycle_enqueue key c = (case ct_trigger c of
     Some g \<Rightarrow> c\<lparr>ct_trigger := Some (Enqueue key g)\<rparr>
   | None \<Rightarrow> enqueueObject key c)"

definition observe_object :: "EventObject \<Rightarrow> Controller \<Rightarrow> Controller" where
  "observe_object o' c = c\<lparr>ct_tracker := map_option (\<lambda>t. Observe t (eo_key o') (eo_uid o') (eo_generation o') (eo_deleting o')) (ct_tracker c)\<rparr>"

definition remove_owner :: "NamespacedName \<Rightarrow> Controller \<Rightarrow> Controller" where
  "remove_owner key c = c\<lparr>ct_routes := map_option (RemoveOwner key) (ct_routes c)\<rparr>"

definition Lifecycle_Create :: "EventObject option \<Rightarrow> Controller \<Rightarrow> Controller" where
  "Lifecycle_Create object c = (case object of
     None \<Rightarrow> c
   | Some o' \<Rightarrow>
      let c1 = observe_object o' c; c2 = (if eo_deleting o' then remove_owner (eo_key o') c1 else c1) in
      Lifecycle_enqueue (eo_key o') c2)"

definition Lifecycle_Update :: "EventObject option \<Rightarrow> EventObject option \<Rightarrow> Controller \<Rightarrow> Controller" where
  "Lifecycle_Update old new c = (case new of
     None \<Rightarrow> c
   | Some o' \<Rightarrow>
      if \<not> facetLifecycleChanged old new then c
      else
        let c1 = observe_object o' c;
            c2 = (if eo_deleting o' \<or> (case old of None \<Rightarrow> False | Some old' \<Rightarrow> eo_uid old' \<noteq> eo_uid o') then remove_owner (eo_key o') c1 else c1) in
        Lifecycle_enqueue (eo_key o') c2)"

definition Lifecycle_Delete :: "EventObject option \<Rightarrow> Controller \<Rightarrow> Controller" where
  "Lifecycle_Delete object c = (case object of
     None \<Rightarrow> c
   | Some o' \<Rightarrow>
      let c1 = c\<lparr>ct_tracker := map_option (\<lambda>t. ObserveDelete t (eo_key o') (eo_uid o')) (ct_tracker c)\<rparr> in
      Lifecycle_enqueue (eo_key o') (remove_owner (eo_key o') c1))"

definition Lifecycle_Generic :: "EventObject option \<Rightarrow> Controller \<Rightarrow> Controller" where
  "Lifecycle_Generic object c = (case object of None \<Rightarrow> c | Some o' \<Rightarrow> Lifecycle_enqueue (eo_key o') (observe_object o' c))"

section \<open>Policy events\<close>

definition InstallationAccessCeilingName :: string where
  "InstallationAccessCeilingName = ''installation-access-ceiling''"

definition PolicyPredicate_Create :: "PolicyObject option \<Rightarrow> bool" where
  "PolicyPredicate_Create object = (case object of None \<Rightarrow> False | Some p \<Rightarrow> po_name p = InstallationAccessCeilingName)"

definition PolicyPredicate_Delete :: "PolicyObject option \<Rightarrow> bool" where
  "PolicyPredicate_Delete object = (case object of None \<Rightarrow> False | Some p \<Rightarrow> po_name p = InstallationAccessCeilingName)"

definition PolicyPredicate_Generic :: "PolicyObject option \<Rightarrow> bool" where
  "PolicyPredicate_Generic object = (case object of None \<Rightarrow> False | Some p \<Rightarrow> po_name p = InstallationAccessCeilingName)"

definition PolicyPredicate_Update :: "PolicyObject option \<Rightarrow> PolicyObject option \<Rightarrow> bool" where
  "PolicyPredicate_Update old new = (case new of
     None \<Rightarrow> False
   | Some p \<Rightarrow>
      if po_name p \<noteq> InstallationAccessCeilingName then False
      else case old of
        None \<Rightarrow> True
      | Some q \<Rightarrow> po_uid q \<noteq> po_uid p \<or> po_generation q \<noteq> po_generation p \<or> \<not> po_deleting q \<and> po_deleting p)"

definition Policy_changed :: "PolicyObject option \<Rightarrow> Controller \<Rightarrow> Controller" where
  "Policy_changed object c = (case object of
     None \<Rightarrow> c
   | Some p \<Rightarrow>
      if po_name p \<noteq> InstallationAccessCeilingName then c
      else
        let c1 = c\<lparr>ct_tracker := map_option InvalidateAll (ct_tracker c)\<rparr>;
            c2 = c1\<lparr>ct_routes := map_option RemoveAll (ct_routes c1)\<rparr> in
        c2\<lparr>ct_trigger := map_option RequestEnqueueAll (ct_trigger c2)\<rparr>)"

definition Policy_Create :: "PolicyObject option \<Rightarrow> Controller \<Rightarrow> Controller" where
  "Policy_Create object c = Policy_changed object c"

definition Policy_Update :: "PolicyObject option \<Rightarrow> PolicyObject option \<Rightarrow> Controller \<Rightarrow> Controller" where
  "Policy_Update old new c = (if \<not> PolicyPredicate_Update old new then c else Policy_changed new c)"

definition Policy_Delete :: "PolicyObject option \<Rightarrow> Controller \<Rightarrow> Controller" where
  "Policy_Delete object c = Policy_changed object c"

definition Policy_Generic :: "PolicyObject option \<Rightarrow> Controller \<Rightarrow> Controller" where
  "Policy_Generic object c = Policy_changed object c"

section \<open>Options\<close>

text \<open>Durations in nanoseconds.\<close>

record Options =
  op_safetyInterval :: int
  op_watchBackoffBase :: int
  op_watchBackoffMax :: int
  op_enqueueBackoffBase :: int
  op_enqueueBackoffMax :: int

definition Options_normalized :: "Options \<Rightarrow> (string, Options) res" where
  "Options_normalized o' =
    (if op_safetyInterval o' \<le> 0 then Inl ''reconciliation safety interval must be positive''
     else
       let o1 = (if op_watchBackoffBase o' \<le> 0 then o'\<lparr>op_watchBackoffBase := 100000000\<rparr> else o');
           o2 = (if op_watchBackoffMax o1 \<le> 0 then o1\<lparr>op_watchBackoffMax := 5000000000\<rparr> else o1) in
       if op_watchBackoffMax o2 < op_watchBackoffBase o2 then Inl ''watch backoff maximum must be at least its base''
       else
         let o3 = (if op_enqueueBackoffBase o2 \<le> 0 then o2\<lparr>op_enqueueBackoffBase := 100000000\<rparr> else o2);
             o4 = (if op_enqueueBackoffMax o3 \<le> 0 then o3\<lparr>op_enqueueBackoffMax := 5000000000\<rparr> else o3) in
         if op_enqueueBackoffMax o4 < op_enqueueBackoffBase o4 then Inl ''enqueue backoff maximum must be at least its base''
         else Inr o4)"

section \<open>Lemmas\<close>

lemma remove_all_routes: "rg_byOwner (RemoveAll r) = [] \<and> rg_byTarget (RemoveAll r) = [] \<and> rg_watches (RemoveAll r) = []"
  using settle_same_routes[of "removeAllLocked r"] by (simp add: RemoveAll_def removeAllLocked_def same_routes_def)

lemma remove_owner_routes:
  assumes "registry_reachable k (NewRouteRegistry watcher options) r"
  shows "inner (rg_byOwner (RemoveOwner owner r)) owner = [] \<and>
    (\<forall>other. other \<noteq> owner \<longrightarrow> set (inner (rg_byOwner (RemoveOwner owner r)) other) = set (inner (rg_byOwner r) other))"
proof -
  obtain M where inv: "registry_inv k r M" using reachable_inv[OF assms] by blast
  let ?bs = "map snd (inner (rg_byOwner r) owner)"
  let ?M = "M |` (- keyForBinding ` set ?bs)"
  have h: "holds_table r M" using inv by (simp add: registry_inv_def)
  have l: "holds_table (snd (snd (removeOwnerLocked owner r))) ?M"
    unfolding section_forms(3) using conjunct1[OF remove_inv[OF inv, of ?bs, unfolded registry_inv_def]] .
  have s: "rg_byOwner (RemoveOwner owner r) = rg_byOwner (snd (snd (removeOwnerLocked owner r)))"
    "rg_byTarget (RemoveOwner owner r) = rg_byTarget (snd (snd (removeOwnerLocked owner r)))"
    unfolding RemoveOwner_def using settle_same_routes[of "removeOwnerLocked owner r", unfolded same_routes_def] by (rule conjunct1, blast)
  have h': "holds_table (RemoveOwner owner r) ?M" using l unfolding holds_table_cong[OF s] .
  have key: "keyForBinding b = key" if "M key = Some b" for key b using h that by (simp add: holds_table_def table_ok_def)
  have mem: "key \<in> keyForBinding ` set ?bs \<longleftrightarrow> rk_owner key = owner" if m: "M key = Some b" for key b
  proof
    assume "key \<in> keyForBinding ` set ?bs"
    then obtain key' b' where k: "(key', b') \<in> set (inner (rg_byOwner r) owner)" "key = keyForBinding b'" by auto
    have "M key' = Some b'" "rk_owner key' = owner" using k(1) unfolding owner_bindings[OF h] by simp_all
    then show "rk_owner key = owner" using key k(2) by simp
  next
    assume "rk_owner key = owner"
    then have "(key, b) \<in> set (inner (rg_byOwner r) owner)" using m unfolding owner_bindings[OF h] by simp
    then have "b \<in> set ?bs" by (force simp: image_iff)
    then show "key \<in> keyForBinding ` set ?bs" using key[OF m] by (rule rev_image_eqI[OF _ sym])
  qed
  have "(key, b) \<in> set (inner (rg_byOwner (RemoveOwner owner r)) other) \<longleftrightarrow> M key = Some b \<and> rk_owner key = other \<and> other \<noteq> owner" for key b other
    unfolding owner_bindings[OF h'] using mem[of key b] by (cases "key \<in> keyForBinding ` set ?bs") (auto simp: restrict_map_def)
  then have e: "set (inner (rg_byOwner (RemoveOwner owner r)) other) = (if other = owner then {} else set (inner (rg_byOwner r) other))" for other
    unfolding set_eq_iff split_paired_All using owner_bindings[OF h] by simp
  have "set (inner (rg_byOwner (RemoveOwner owner r)) owner) = {}" unfolding e by simp
  moreover have "set (inner (rg_byOwner (RemoveOwner owner r)) other) = set (inner (rg_byOwner r) other)" if "other \<noteq> owner" for other
    unfolding e using that by simp
  ultimately show ?thesis by simp
qed

lemma enqueued: "nn_name key \<noteq> [] \<Longrightarrow> key \<in> set (tg_pending (Enqueue key g)) \<or> tg_overloaded (Enqueue key g)"
  by (auto simp: Enqueue_def Let_def signalWakeLocked_def)

lemma observed_current:
  "ls_key lease = key \<Longrightarrow> IsLeaseCurrent (Observe t key uid gen deleting) lease \<Longrightarrow> ls_uid lease = uid \<and> ls_generation lease = gen \<and> \<not> deleting"
  by (simp add: Observe_def IsLeaseCurrent_def Let_def)

lemma deleted_not_current: "ls_key lease = key \<Longrightarrow> \<not> IsLeaseCurrent (ObserveDelete t key uid) lease"
  by (simp add: ObserveDelete_def IsLeaseCurrent_def Let_def)

lemma invalidated_not_current: "IsLeaseCurrent t lease \<Longrightarrow> \<not> IsLeaseCurrent (InvalidateAll t) lease"
  by (auto simp: InvalidateAll_def IsLeaseCurrent_def Let_def split: option.splits)

lemma stale_publish: "\<not> lease_current (pe_trackerStart env) lease \<Longrightarrow> pb_writes (Publish hash put encodedSize p env lease ev) = []"
  by (simp add: Publish_def split: option.splits)

section \<open>Properties\<close>

text \<open>C5: a change of the installation policy revokes everything granted under the old one: no route or watch is left, no lease that was current
  still is, a route replacement or a status publication for such a lease is refused without any effect, and a new evaluation of every
  Facet is requested.  An update that changes neither identity, generation nor deletion does nothing.\<close>

theorem policy_change_revokes:
  assumes "ct_tracker c = Some t" and "ct_routes c = Some r" and "ct_trigger c = Some g" and "po_name new = InstallationAccessCeilingName"
  shows "(if po_uid old \<noteq> po_uid new \<or> po_generation old \<noteq> po_generation new \<or> \<not> po_deleting old \<and> po_deleting new
     then (\<exists>t' r' g'. Policy_Update (Some old) (Some new) c = c\<lparr>ct_tracker := Some t', ct_routes := Some r', ct_trigger := Some g'\<rparr> \<and>
        rg_byOwner r' = [] \<and> rg_byTarget r' = [] \<and> rg_watches r' = [] \<and> tg_requested g' \<and> tg_pending g' = tg_pending g \<and>
        (\<forall>lease. IsLeaseCurrent t lease \<longrightarrow> \<not> IsLeaseCurrent t' lease \<and>
          Replace k (Some t') t1 t2 waits lease routes r' = (Some (StaleRuntime ''route-replace''), r') \<and>
          pb_writes (Publish hash put encodedSize p (env\<lparr>pe_trackerStart := Some t'\<rparr>) lease ev) = []))
     else Policy_Update (Some old) (Some new) c = c)"
proof (cases "po_uid old \<noteq> po_uid new \<or> po_generation old \<noteq> po_generation new \<or> \<not> po_deleting old \<and> po_deleting new")
  case True
  let ?t = "InvalidateAll t" and ?r = "RemoveAll r" and ?g = "RequestEnqueueAll g"
  have "Policy_Update (Some old) (Some new) c = c\<lparr>ct_tracker := Some ?t, ct_routes := Some ?r, ct_trigger := Some ?g\<rparr>"
    using assms True by (auto simp: Policy_Update_def PolicyPredicate_Update_def Policy_changed_def Let_def)
  moreover have "\<not> IsLeaseCurrent ?t lease \<and> Replace k (Some ?t) t1 t2 waits lease routes ?r = (Some (StaleRuntime ''route-replace''), ?r) \<and>
      pb_writes (Publish hash put encodedSize p (env\<lparr>pe_trackerStart := Some ?t\<rparr>) lease ev) = []" if "IsLeaseCurrent t lease" for lease
    using invalidated_not_current[OF that] stale_publish[of "env\<lparr>pe_trackerStart := Some ?t\<rparr>" lease] by (simp add: Replace_def lease_current_def)
  moreover have "tg_requested ?g" "tg_pending ?g = tg_pending g" by (simp_all add: RequestEnqueueAll_def)
  ultimately show ?thesis unfolding if_P[OF True] using remove_all_routes[of r]
    by (intro exI[of _ ?t] exI[of _ ?r] exI[of _ ?g]) simp
next
  case False
  then show ?thesis unfolding if_not_P[OF False] using assms(4) by (simp add: Policy_Update_def PolicyPredicate_Update_def)
qed

definition event_controller :: Controller where
  "event_controller = \<lparr>ct_tracker = Some pub_tracker, ct_routes = Some rw_registry, ct_trigger = Some (NewTriggerSource 4), ct_queue = None\<rparr>"

theorem policy_change_revokes_witness:
  "\<exists>t' r' g'. Policy_Update (Some \<lparr>po_name = InstallationAccessCeilingName, po_uid = ''p'', po_generation = 1, po_deleting = False\<rparr>)
      (Some \<lparr>po_name = InstallationAccessCeilingName, po_uid = ''p'', po_generation = 2, po_deleting = False\<rparr>) event_controller =
      event_controller\<lparr>ct_tracker := Some t', ct_routes := Some r', ct_trigger := Some g'\<rparr> \<and>
    IsLeaseCurrent pub_tracker pub_lease \<and> \<not> IsLeaseCurrent t' pub_lease \<and> rg_byOwner r' = [] \<and> tg_requested g'"
proof -
  have c: "ct_tracker event_controller = Some pub_tracker" "ct_routes event_controller = Some rw_registry"
    "ct_trigger event_controller = Some (NewTriggerSource 4)" by (simp_all add: event_controller_def)
  have l: "IsLeaseCurrent pub_tracker pub_lease" using pub_current by (simp add: lease_current_def)
  let ?new = "\<lparr>po_name = InstallationAccessCeilingName, po_uid = ''p'', po_generation = 2, po_deleting = False\<rparr>"
  have n: "po_name ?new = InstallationAccessCeilingName" by simp
  show ?thesis
    using policy_change_revokes[OF c n, of "\<lparr>po_name = InstallationAccessCeilingName, po_uid = ''p'', po_generation = 1, po_deleting = False\<rparr>"] l by simp blast
qed

text \<open>An update of a Facet that changes its UID, generation or deletion leaves no lease of its key current except one for exactly
  the new live object, removes its routes when it is being deleted or was replaced, leaves the routes of other Facets alone and
  schedules the key or an evaluation of all; any other update, such as one of the status, has no effect.\<close>

theorem lifecycle_update_revokes:
  assumes "ct_tracker c = Some t" and "ct_routes c = Some r" and "ct_trigger c = Some g"
    and "registry_reachable k (NewRouteRegistry watcher options) r" and "nn_name (eo_key new) \<noteq> []"
  shows "(if eo_uid old \<noteq> eo_uid new \<or> eo_generation old \<noteq> eo_generation new \<or> \<not> eo_deleting old \<and> eo_deleting new
     then (\<exists>t' r' g'. Lifecycle_Update (Some old) (Some new) c = c\<lparr>ct_tracker := Some t', ct_routes := Some r', ct_trigger := Some g'\<rparr> \<and>
        (\<forall>lease. ls_key lease = eo_key new \<and> IsLeaseCurrent t' lease \<longrightarrow>
           ls_uid lease = eo_uid new \<and> ls_generation lease = eo_generation new \<and> \<not> eo_deleting new) \<and>
        (eo_deleting new \<or> eo_uid old \<noteq> eo_uid new \<longrightarrow> inner (rg_byOwner r') (eo_key new) = []) \<and>
        (\<forall>owner. owner \<noteq> eo_key new \<longrightarrow> set (inner (rg_byOwner r') owner) = set (inner (rg_byOwner r) owner)) \<and>
        (eo_key new \<in> set (tg_pending g') \<or> tg_overloaded g'))
     else Lifecycle_Update (Some old) (Some new) c = c)"
proof (cases "eo_uid old \<noteq> eo_uid new \<or> eo_generation old \<noteq> eo_generation new \<or> \<not> eo_deleting old \<and> eo_deleting new")
  case True
  let ?t = "Observe t (eo_key new) (eo_uid new) (eo_generation new) (eo_deleting new)"
  let ?r = "if eo_deleting new \<or> eo_uid old \<noteq> eo_uid new then RemoveOwner (eo_key new) r else r" and ?g = "Enqueue (eo_key new) g"
  have u: "Lifecycle_Update (Some old) (Some new) c = c\<lparr>ct_tracker := Some ?t, ct_routes := Some ?r, ct_trigger := Some ?g\<rparr>"
    using assms(1-3) True by (auto simp: Lifecycle_Update_def facetLifecycleChanged_def observe_object_def remove_owner_def Lifecycle_enqueue_def Let_def)
  have "eo_deleting new \<or> eo_uid old \<noteq> eo_uid new \<longrightarrow> inner (rg_byOwner ?r) (eo_key new) = []"
    "\<forall>owner. owner \<noteq> eo_key new \<longrightarrow> set (inner (rg_byOwner ?r) owner) = set (inner (rg_byOwner r) owner)"
    using remove_owner_routes[OF assms(4), of "eo_key new"] by simp_all
  then show ?thesis unfolding if_P[OF True] using u enqueued[OF assms(5)] observed_current
    by (intro exI[of _ ?t] exI[of _ ?r] exI[of _ ?g]) blast
next
  case False
  then show ?thesis unfolding if_not_P[OF False] by (simp add: Lifecycle_Update_def facetLifecycleChanged_def)
qed

theorem lifecycle_update_revokes_witness:
  "\<exists>t' r' g'. Lifecycle_Update (Some \<lparr>eo_key = ls_key pub_lease, eo_uid = ''u'', eo_generation = 1, eo_deleting = False\<rparr>)
      (Some \<lparr>eo_key = ls_key pub_lease, eo_uid = ''u'', eo_generation = 2, eo_deleting = True\<rparr>) event_controller =
      event_controller\<lparr>ct_tracker := Some t', ct_routes := Some r', ct_trigger := Some g'\<rparr> \<and>
    \<not> IsLeaseCurrent t' pub_lease \<and> inner (rg_byOwner r') (ls_key pub_lease) = []"
proof -
  have c: "ct_tracker event_controller = Some pub_tracker" "ct_routes event_controller = Some rw_registry"
    "ct_trigger event_controller = Some (NewTriggerSource 4)" by (simp_all add: event_controller_def)
  let ?new = "\<lparr>eo_key = ls_key pub_lease, eo_uid = ''u'', eo_generation = 2, eo_deleting = True\<rparr>"
  have n: "nn_name (eo_key ?new) \<noteq> []" by (simp add: pub_lease_def)
  show ?thesis using lifecycle_update_revokes[OF c rw_reachable n, of "\<lparr>eo_key = ls_key pub_lease, eo_uid = ''u'', eo_generation = 1, eo_deleting = False\<rparr>"]
    by simp blast
qed

text \<open>A deletion leaves no lease of the key current and none of its routes, and schedules the key.\<close>

theorem lifecycle_delete_revokes:
  assumes "ct_tracker c = Some t" and "ct_routes c = Some r" and "ct_trigger c = Some g"
    and "registry_reachable k (NewRouteRegistry watcher options) r" and "nn_name (eo_key object) \<noteq> []"
  shows "\<exists>t' r' g'. Lifecycle_Delete (Some object) c = c\<lparr>ct_tracker := Some t', ct_routes := Some r', ct_trigger := Some g'\<rparr> \<and>
    (\<forall>lease. ls_key lease = eo_key object \<longrightarrow> \<not> IsLeaseCurrent t' lease) \<and> inner (rg_byOwner r') (eo_key object) = [] \<and>
    (eo_key object \<in> set (tg_pending g') \<or> tg_overloaded g')"
proof -
  let ?t = "ObserveDelete t (eo_key object) (eo_uid object)" and ?r = "RemoveOwner (eo_key object) r" and ?g = "Enqueue (eo_key object) g"
  have "Lifecycle_Delete (Some object) c = c\<lparr>ct_tracker := Some ?t, ct_routes := Some ?r, ct_trigger := Some ?g\<rparr>"
    using assms(1-3) by (simp add: Lifecycle_Delete_def remove_owner_def Lifecycle_enqueue_def Let_def)
  then show ?thesis using remove_owner_routes[OF assms(4)] enqueued[OF assms(5)] deleted_not_current
    by (intro exI[of _ ?t] exI[of _ ?r] exI[of _ ?g]) blast
qed

end
