(* ===== verification/Purge.thy ===== *)
theory Purge
  imports Publisher
begin

text \<open>
  The purge client of \<^verbatim>\<open>src/internal/purge\<close>.  The kubeconfig file and the API server are parameters; a request to the server names the
  collection, the namespace the client was built for and the object.  \<open>polls\<close> is the number of polls before the purge context ends.  URL parsing and
  \<^verbatim>\<open>strings.TrimSpace\<close> are the parameter \<open>UrlLib\<close>.
\<close>

section \<open>Options and targets\<close>

record PurgeOptions =
  pg_kubeconfigPath :: string
  pg_contextName :: string
  pg_confirmContext :: string
  pg_confirmServer :: string
  pg_confirmation :: string
  pg_timeout :: int

record PurgeTarget =
  pt_context :: string
  pt_server :: string

record PurgeResult =
  pz_target :: string
  pz_action :: string
  pz_outcome :: string
  pz_error :: string

record purgeCollection =
  pc_target :: string
  pc_gvr :: GroupVersionResource
  pc_crdName :: string
  pc_namespaced :: bool

definition facetCollection :: purgeCollection where
  "facetCollection = \<lparr>pc_target = ''facets.kubefacet.steeltanuki.it'',
     pc_gvr = \<lparr>gvr_group = ''kubefacet.steeltanuki.it'', gvr_version = ''v1alpha1'', gvr_resource = ''facets''\<rparr>,
     pc_crdName = ''facets.kubefacet.steeltanuki.it'', pc_namespaced = True\<rparr>"

definition accessPolicyCollection :: purgeCollection where
  "accessPolicyCollection = \<lparr>pc_target = ''facetaccesspolicies.kubefacet.steeltanuki.it'',
     pc_gvr = \<lparr>gvr_group = ''kubefacet.steeltanuki.it'', gvr_version = ''v1alpha1'', gvr_resource = ''facetaccesspolicies''\<rparr>,
     pc_crdName = ''facetaccesspolicies.kubefacet.steeltanuki.it'', pc_namespaced = False\<rparr>"

definition purgeCollections :: "purgeCollection list" where
  "purgeCollections = [facetCollection, accessPolicyCollection]"

record 'u UrlLib =
  ul_trimSpace :: "string \<Rightarrow> string"
  ul_parse :: "string \<Rightarrow> 'u option"
  ul_scheme :: "'u \<Rightarrow> string"
  ul_host :: "'u \<Rightarrow> string"
  ul_path :: "'u \<Rightarrow> string"
  ul_string :: "'u \<Rightarrow> string \<Rightarrow> string"

definition trimRightSlash :: "string \<Rightarrow> string" where
  "trimRightSlash s = rev (dropWhile (\<lambda>c. c = CHR ''/'') (rev s))"

text \<open>\<open>ul_string u path\<close> is the text of \<open>u\<close> with that path and no query or fragment.\<close>

definition normalizeServer :: "'u UrlLib \<Rightarrow> string \<Rightarrow> string" where
  "normalizeServer lib s =
    (let t = ul_trimSpace lib s in
     case ul_parse lib t of
       Some u \<Rightarrow> if ul_scheme lib u \<noteq> [] \<and> ul_host lib u \<noteq> [] then trimRightSlash (ul_string lib u (trimRightSlash (ul_path lib u))) else trimRightSlash t
     | None \<Rightarrow> trimRightSlash t)"

definition validateOptions :: "'u UrlLib \<Rightarrow> PurgeOptions \<Rightarrow> string option" where
  "validateOptions lib o' =
    (if ul_trimSpace lib (pg_kubeconfigPath o') = [] then Some ''--kubeconfig is required''
     else if ul_trimSpace lib (pg_contextName o') = [] then Some ''--context is required''
     else if ul_trimSpace lib (pg_confirmContext o') = [] then Some ''--confirm-context is required''
     else if ul_trimSpace lib (pg_confirmServer o') = [] then Some ''--confirm-server is required''
     else if pg_confirmation o' \<noteq> ''purge-kubefacet-crds'' then Some ''exact destructive confirmation token is required''
     else if pg_timeout o' \<le> 0 then Some ''purge timeout must be positive''
     else None)"

text \<open>The kubeconfig: whether its path is absolute, whether it exists and is a regular file, its contexts with their clusters and the clusters with
  their servers (\<open>None\<close>: it cannot be read), and the host of the resolved client configuration.\<close>

record Kubeconfig =
  kc_absolute :: bool
  kc_regular :: "bool option"
  kc_contexts :: "(string \<Rightarrow> string option) option"
  kc_clusters :: "string \<Rightarrow> string option"
  kc_host :: "string option"

definition ResolveTarget :: "'u UrlLib \<Rightarrow> Kubeconfig \<Rightarrow> PurgeOptions \<Rightarrow> (string, PurgeTarget) res" where
  "ResolveTarget lib kc o' = (case validateOptions lib o' of
     Some e \<Rightarrow> Inl e
   | None \<Rightarrow>
      if \<not> kc_absolute kc then Inl ''kubeconfig path must be absolute''
      else case kc_regular kc of
        None \<Rightarrow> Inl ''explicit kubeconfig path is unavailable''
      | Some False \<Rightarrow> Inl ''explicit kubeconfig path is not a regular file''
      | Some True \<Rightarrow>
         (case kc_contexts kc of
            None \<Rightarrow> Inl ''explicit kubeconfig could not be read''
          | Some contexts \<Rightarrow>
             (case contexts (pg_contextName o') of
                None \<Rightarrow> Inl ''explicit Kubernetes context is unavailable''
              | Some cluster \<Rightarrow>
                 if ul_trimSpace lib cluster = [] then Inl ''explicit Kubernetes context is unavailable''
                 else case kc_clusters kc cluster of
                   None \<Rightarrow> Inl ''explicit Kubernetes context has no server''
                 | Some server \<Rightarrow>
                    if ul_trimSpace lib server = [] then Inl ''explicit Kubernetes context has no server''
                    else case kc_host kc of
                      None \<Rightarrow> Inl ''explicit Kubernetes context could not be resolved''
                    | Some host \<Rightarrow>
                       let server' = normalizeServer lib host in
                       if server' = [] \<or> normalizeServer lib (pg_confirmServer o') \<noteq> server' then
                         Inl ''confirmed cluster server does not match the resolved target''
                       else if pg_confirmContext o' \<noteq> pg_contextName o' then
                         Inl ''confirmed Kubernetes context does not match the resolved target''
                       else Inr \<lparr>pt_context = pg_contextName o', pt_server = server'\<rparr>)))"

section \<open>Deletion\<close>

record 's PurgeServer =
  pv_list :: "purgeCollection \<Rightarrow> string \<Rightarrow> 's \<Rightarrow> (go_error, (string \<times> string) list) res \<times> 's"
  pv_delete :: "purgeCollection \<Rightarrow> string \<Rightarrow> string \<Rightarrow> 's \<Rightarrow> go_error option \<times> 's"
  pv_getCRD :: "string \<Rightarrow> 's \<Rightarrow> go_error option \<times> 's"
  pv_deleteCRD :: "string \<Rightarrow> 's \<Rightarrow> go_error option \<times> 's"

record 's PurgeRun =
  pr_state :: 's
  pr_results :: "PurgeResult list"
  pr_deletedCRDs :: "string list"

definition purgeSanitizeError :: "go_error option \<Rightarrow> string" where
  "purgeSanitizeError err = (case err of
     None \<Rightarrow> []
   | Some e \<Rightarrow>
      if errors_Is e DeadlineExceeded then ''operation timed out''
      else if api_reason_of e = Some ApiForbidden then ''operation forbidden''
      else if api_reason_of e = Some ApiConflict then ''operation conflicted''
      else if api_reason_of e = Some ApiNotFound then ''target already absent''
      else ''operation failed'')"

abbreviation absent :: "go_error \<Rightarrow> bool" where
  "absent e \<equiv> api_reason_of e = Some ApiNotFound"

definition report :: "string \<Rightarrow> string \<Rightarrow> string \<Rightarrow> go_error option \<Rightarrow> 's PurgeRun \<Rightarrow> 's PurgeRun" where
  "report target action outcome err r = r\<lparr>pr_results := pr_results r @
     [\<lparr>pz_target = target, pz_action = action, pz_outcome = outcome, pz_error = purgeSanitizeError err\<rparr>]\<rparr>"

text \<open>The namespace of the resource client: \<^verbatim>\<open>metav1.NamespaceAll\<close> for a namespaced collection, and none otherwise.\<close>

definition NamespaceAll :: string where
  "NamespaceAll = []"

definition clientNamespace :: "purgeCollection \<Rightarrow> string" where
  "clientNamespace c = (if pc_namespaced c then NamespaceAll else [])"

definition objectTarget :: "string \<times> string \<Rightarrow> string" where
  "objectTarget object = (if fst object \<noteq> [] then fst object @ ''/'' @ snd object else snd object)"

text \<open>\<^verbatim>\<open>wait.PollUntilContextCancel\<close> with an immediate first poll.\<close>

fun pollUntil :: "nat \<Rightarrow> ('s \<Rightarrow> (go_error, bool) res \<times> 's) \<Rightarrow> 's \<Rightarrow> go_error option \<times> 's" where
  "pollUntil 0 poll s = (Some DeadlineExceeded, s)"
| "pollUntil (Suc n) poll s = (case poll s of
     (Inl e, s') \<Rightarrow> (Some e, s')
   | (Inr finished, s') \<Rightarrow> if finished then (None, s') else pollUntil n poll s')"

definition waitCollectionEmpty :: "'s PurgeServer \<Rightarrow> nat \<Rightarrow> purgeCollection \<Rightarrow> 's \<Rightarrow> go_error option \<times> 's" where
  "waitCollectionEmpty srv polls c = pollUntil polls (\<lambda>s. case pv_list srv c (clientNamespace c) s of
     (Inl e, s') \<Rightarrow> (if absent e then Inr True else Inl e, s')
   | (Inr objects, s') \<Rightarrow> (Inr (objects = []), s'))"

fun deleteObjects :: "'s PurgeServer \<Rightarrow> purgeCollection \<Rightarrow> (string \<times> string) list \<Rightarrow> 's PurgeRun \<Rightarrow> go_error option \<times> 's PurgeRun" where
  "deleteObjects srv c [] r = (None, r)"
| "deleteObjects srv c (object # objects) r =
    (case pv_delete srv c (clientNamespace c) (snd object) (pr_state r) of
       (None, s) \<Rightarrow> deleteObjects srv c objects (report (objectTarget object) ''delete'' ''deleted'' None (r\<lparr>pr_state := s\<rparr>))
     | (Some e, s) \<Rightarrow>
        if absent e then deleteObjects srv c objects (report (objectTarget object) ''delete'' ''already absent'' None (r\<lparr>pr_state := s\<rparr>))
        else (Some e, report (objectTarget object) ''delete'' ''failed'' (Some e) (r\<lparr>pr_state := s\<rparr>)))"

definition purgeCollectionObjects :: "'s PurgeServer \<Rightarrow> nat \<Rightarrow> purgeCollection \<Rightarrow> 's PurgeRun \<Rightarrow> go_error option \<times> 's PurgeRun" where
  "purgeCollectionObjects srv polls c r =
    (case pv_list srv c (clientNamespace c) (pr_state r) of
       (Inl e, s) \<Rightarrow>
         if absent e then (None, report (pc_target c) ''delete'' ''already absent'' None (r\<lparr>pr_state := s\<rparr>))
         else (Some e, report (pc_target c) ''list'' ''failed'' (Some e) (r\<lparr>pr_state := s\<rparr>))
     | (Inr objects, s) \<Rightarrow>
         if objects = [] then (None, report (pc_target c) ''delete'' ''already absent'' None (r\<lparr>pr_state := s\<rparr>))
         else case deleteObjects srv c objects (r\<lparr>pr_state := s\<rparr>) of
           (Some e, r1) \<Rightarrow> (Some e, r1)
         | (None, r1) \<Rightarrow>
            (case waitCollectionEmpty srv polls c (pr_state r1) of
               (None, s1) \<Rightarrow> (None, r1\<lparr>pr_state := s1\<rparr>)
             | (Some e, s1) \<Rightarrow> (Some e, report (pc_target c) ''wait-empty'' ''retained/blocked'' (Some e) (r1\<lparr>pr_state := s1\<rparr>))))"

definition purgeCRD :: "'s PurgeServer \<Rightarrow> nat \<Rightarrow> string \<Rightarrow> 's PurgeRun \<Rightarrow> go_error option \<times> 's PurgeRun" where
  "purgeCRD srv polls name r = (case pv_getCRD srv name (pr_state r) of
     (Some e, s) \<Rightarrow>
       if absent e then (None, report name ''delete'' ''already absent'' None (r\<lparr>pr_state := s\<rparr>))
       else (Some e, report name ''get'' ''failed'' (Some e) (r\<lparr>pr_state := s\<rparr>))
   | (None, s) \<Rightarrow>
       (case pv_deleteCRD srv name s of
          (Some e, s1) \<Rightarrow>
            let r1 = r\<lparr>pr_state := s1, pr_deletedCRDs := pr_deletedCRDs r @ [name]\<rparr> in
            if absent e then (None, report name ''delete'' ''already absent'' None r1)
            else (Some e, report name ''delete'' ''failed'' (Some e) r1)
        | (None, s1) \<Rightarrow>
            let r1 = r\<lparr>pr_state := s1, pr_deletedCRDs := pr_deletedCRDs r @ [name]\<rparr> in
            (case pollUntil polls (\<lambda>s. case pv_getCRD srv name s of
                 (Some e, s') \<Rightarrow> (if absent e then Inr True else Inl e, s')
               | (None, s') \<Rightarrow> (Inr False, s')) s1 of
               (None, s2) \<Rightarrow> (None, report name ''delete'' ''deleted'' None (r1\<lparr>pr_state := s2\<rparr>))
             | (Some e, s2) \<Rightarrow> (Some e, report name ''wait-absent'' ''retained/blocked'' (Some e) (r1\<lparr>pr_state := s2\<rparr>)))))"

fun purgeEach ::
  "(purgeCollection \<Rightarrow> 's PurgeRun \<Rightarrow> go_error option \<times> 's PurgeRun) \<Rightarrow> (purgeCollection \<Rightarrow> string) \<Rightarrow> purgeCollection list \<Rightarrow> 's PurgeRun \<Rightarrow>
   string option \<times> 's PurgeRun" where
  "purgeEach step label [] r = (None, r)"
| "purgeEach step label (c # cs) r = (case step c r of
     (None, r1) \<Rightarrow> purgeEach step label cs r1
   | (Some e, r1) \<Rightarrow> (Some (''purge stopped at '' @ label c @ '': '' @ purgeSanitizeError (Some e)), r1))"

text \<open>\<open>clients\<close> says which of the REST configuration, the dynamic and the definition client could be built.\<close>

definition PurgeExecute ::
  "'u UrlLib \<Rightarrow> 's PurgeServer \<Rightarrow> nat \<Rightarrow> bool \<times> bool \<times> bool \<Rightarrow> PurgeOptions \<Rightarrow> PurgeTarget \<Rightarrow> 's \<Rightarrow> string option \<times> 's PurgeRun" where
  "PurgeExecute lib srv polls clients o' target s =
    (let r = \<lparr>pr_state = s, pr_results = [], pr_deletedCRDs = []\<rparr> in
     if \<not> fst clients then (Some ''REST config is required'', r)
     else case validateOptions lib o' of
       Some e \<Rightarrow> (Some e, r)
     | None \<Rightarrow>
        if pt_context target \<noteq> pg_contextName o' \<or> normalizeServer lib (pt_server target) \<noteq> normalizeServer lib (pg_confirmServer o')
        then (Some ''purge target does not match explicit confirmation'', r)
        else if \<not> fst (snd clients) then (Some ''create purge client failed'', r)
        else if \<not> snd (snd clients) then (Some ''create CRD purge client failed'', r)
        else case purgeEach (purgeCollectionObjects srv polls) pc_target purgeCollections r of
          (Some e, r1) \<Rightarrow> (Some e, r1)
        | (None, r1) \<Rightarrow> purgeEach (\<lambda>c. purgeCRD srv polls (pc_crdName c)) pc_crdName purgeCollections r1)"

section \<open>Lemmas\<close>

lemma report_fields [simp]:
  "pr_state (report t a o' e r) = pr_state r" "pr_deletedCRDs (report t a o' e r) = pr_deletedCRDs r"
  by (simp_all add: report_def)

lemma deleteObjects_crds: "pr_deletedCRDs (snd (deleteObjects srv c objects r)) = pr_deletedCRDs r"
  by (induction srv c objects r rule: deleteObjects.induct) (simp_all split: prod.splits option.splits)

lemma collection_crds: "pr_deletedCRDs (snd (purgeCollectionObjects srv polls c r)) = pr_deletedCRDs r"
proof -
  have d: "pr_deletedCRDs r1 = pr_deletedCRDs r" if "deleteObjects srv c objects (r\<lparr>pr_state := s\<rparr>) = (x, r1)" for objects s x r1
    using deleteObjects_crds[of srv c objects "r\<lparr>pr_state := s\<rparr>"] that by simp
  show ?thesis unfolding purgeCollectionObjects_def using d by (auto split: prod.splits sum.splits option.splits)
qed

lemma deleteObjects_unreachable:
  assumes "\<And>name. pv_delete srv c (clientNamespace c) name (pr_state r) = (Some (ApiError ApiNotFound), pr_state r)"
  shows "deleteObjects srv c objects r = (None, r\<lparr>pr_results := pr_results r @ map (\<lambda>object. \<lparr>pz_target = objectTarget object, pz_action = ''delete'',
    pz_outcome = ''already absent'', pz_error = []\<rparr>) objects\<rparr>)"
  using assms
proof (induction objects arbitrary: r)
  case (Cons object objects)
  have "pr_state (report (objectTarget object) ''delete'' ''already absent'' None (r\<lparr>pr_state := pr_state r\<rparr>)) = pr_state r" by simp
  from Cons.IH[of "report (objectTarget object) ''delete'' ''already absent'' None (r\<lparr>pr_state := pr_state r\<rparr>)"] Cons.prems
  show ?case by (simp add: api_reason_of_def report_def purgeSanitizeError_def)
qed simp

lemma pollUntil_never: "poll s = (Inr False, s) \<Longrightarrow> pollUntil n poll s = (Some DeadlineExceeded, s)"
  by (induction n) simp_all

lemma purgeEach_crds:
  assumes "\<And>c r. pr_deletedCRDs (snd (step c r)) = pr_deletedCRDs r"
  shows "pr_deletedCRDs (snd (purgeEach step label cs r)) = pr_deletedCRDs r"
proof (induction cs arbitrary: r)
  case (Cons c cs)
  then show ?case using assms[of c r] by (cases "step c r") (simp split: option.splits)
qed simp

text \<open>The documented answer of the API server to a delete of a namespaced object without its namespace.\<close>

definition delete_needs_namespace :: "'s PurgeServer \<Rightarrow> purgeCollection \<Rightarrow> bool" where
  "delete_needs_namespace srv c \<longleftrightarrow> (\<forall>name s. pc_namespaced c \<longrightarrow> pv_delete srv c [] name s = (Some (ApiError ApiNotFound), s))"

section \<open>Properties\<close>

text \<open>A resource definition is deleted only after both collections were purged; a failure there keeps both definitions.\<close>

theorem purge_definitions_last:
  assumes "pr_deletedCRDs (snd (PurgeExecute lib srv polls clients o' target s)) \<noteq> []"
  shows "fst (purgeEach (purgeCollectionObjects srv polls) pc_target purgeCollections \<lparr>pr_state = s, pr_results = [], pr_deletedCRDs = []\<rparr>) = None \<and>
    validateOptions lib o' = None \<and> pt_context target = pg_contextName o' \<and>
    normalizeServer lib (pt_server target) = normalizeServer lib (pg_confirmServer o')"
proof -
  let ?r = "\<lparr>pr_state = s, pr_results = [], pr_deletedCRDs = []\<rparr>"
  have c: "pr_deletedCRDs (snd (purgeEach (purgeCollectionObjects srv polls) pc_target purgeCollections ?r)) = []"
    using purgeEach_crds[where step = "purgeCollectionObjects srv polls", OF collection_crds] by simp
  obtain x r1 where e: "purgeEach (purgeCollectionObjects srv polls) pc_target purgeCollections ?r = (x, r1)" by fastforce
  show ?thesis using assms c e unfolding PurgeExecute_def Let_def by (auto split: if_splits option.splits)
qed

text \<open>C25: the purge client cannot remove a Facet.  It sends the deletes of a namespaced collection without a namespace; the API server answers
  that it does not find the object, the client reports every Facet as already absent, and then waits for an empty collection
  until its timeout: with any Facet present a confirmed purge deletes nothing and fails.\<close>

theorem purge_blocked_by_facets:
  assumes "delete_needs_namespace srv facetCollection" and "pv_list srv facetCollection [] s = (Inr objects, s)" and "objects \<noteq> []"
    and "validateOptions lib o' = None" and "pt_context target = pg_contextName o'"
    and "normalizeServer lib (pt_server target) = normalizeServer lib (pg_confirmServer o')"
  shows "PurgeExecute lib srv polls (True, True, True) o' target s =
    (Some ''purge stopped at facets.kubefacet.steeltanuki.it: operation timed out'',
     \<lparr>pr_state = s,
      pr_results = map (\<lambda>object. \<lparr>pz_target = objectTarget object, pz_action = ''delete'', pz_outcome = ''already absent'', pz_error = []\<rparr>) objects @
        [\<lparr>pz_target = ''facets.kubefacet.steeltanuki.it'', pz_action = ''wait-empty'', pz_outcome = ''retained/blocked'', pz_error = ''operation timed out''\<rparr>],
      pr_deletedCRDs = []\<rparr>)"
proof -
  let ?r = "\<lparr>pr_state = s, pr_results = [], pr_deletedCRDs = []\<rparr>"
  have ns: "clientNamespace facetCollection = []" by (simp add: clientNamespace_def NamespaceAll_def)
  have del: "pv_delete srv facetCollection (clientNamespace facetCollection) name (pr_state ?r) = (Some (ApiError ApiNotFound), pr_state ?r)" for name
    using assms(1) unfolding delete_needs_namespace_def ns by (simp add: facetCollection_def)
  have wait: "waitCollectionEmpty srv polls facetCollection s = (Some DeadlineExceeded, s)"
    unfolding waitCollectionEmpty_def by (rule pollUntil_never) (use assms(2,3) ns in simp)
  have "purgeCollectionObjects srv polls facetCollection ?r = (Some DeadlineExceeded, \<lparr>pr_state = s,
      pr_results = map (\<lambda>object. \<lparr>pz_target = objectTarget object, pz_action = ''delete'', pz_outcome = ''already absent'', pz_error = []\<rparr>) objects @
        [\<lparr>pz_target = pc_target facetCollection, pz_action = ''wait-empty'', pz_outcome = ''retained/blocked'', pz_error = ''operation timed out''\<rparr>],
      pr_deletedCRDs = []\<rparr>)"
    unfolding purgeCollectionObjects_def ns using assms(2,3) deleteObjects_unreachable[OF del, of objects] wait
    by (simp add: report_def purgeSanitizeError_def errors_Is_def)
  then show ?thesis using assms(4-6)
    by (simp add: PurgeExecute_def Let_def purgeCollections_def purgeSanitizeError_def errors_Is_def facetCollection_def)
qed

definition purge_url :: "unit UrlLib" where
  "purge_url = \<lparr>ul_trimSpace = (\<lambda>s. s), ul_parse = (\<lambda>_. None), ul_scheme = (\<lambda>_. []), ul_host = (\<lambda>_. []), ul_path = (\<lambda>_. []), ul_string = (\<lambda>_ p. p)\<rparr>"

text \<open>A server that holds a list of Facets and deletes only with a namespace.\<close>

definition purge_server :: "(string \<times> string) list PurgeServer" where
  "purge_server = \<lparr>pv_list = (\<lambda>c ns s. (Inr (if pc_namespaced c then s else []), s)),
     pv_delete = (\<lambda>c ns name s. if ns = [] \<or> (ns, name) \<notin> set s then (Some (ApiError ApiNotFound), s) else (None, removeAll (ns, name) s)),
     pv_getCRD = (\<lambda>_ s. (None, s)), pv_deleteCRD = (\<lambda>_ s. (None, s))\<rparr>"

definition purge_options :: PurgeOptions where
  "purge_options = \<lparr>pg_kubeconfigPath = ''/k'', pg_contextName = ''c'', pg_confirmContext = ''c'', pg_confirmServer = ''h'',
     pg_confirmation = ''purge-kubefacet-crds'', pg_timeout = 1\<rparr>"

theorem purge_blocked_by_facets_witness:
  "fst (PurgeExecute purge_url purge_server 3 (True, True, True) purge_options \<lparr>pt_context = ''c'', pt_server = ''h''\<rparr> [(''ns'', ''f'')]) =
     Some ''purge stopped at facets.kubefacet.steeltanuki.it: operation timed out''"
proof -
  have "delete_needs_namespace purge_server facetCollection" by (simp add: delete_needs_namespace_def purge_server_def)
  moreover have "pv_list purge_server facetCollection [] [(''ns'', ''f'')] = (Inr [(''ns'', ''f'')], [(''ns'', ''f'')])"
    by (simp add: purge_server_def facetCollection_def)
  moreover have "validateOptions purge_url purge_options = None" by (simp add: validateOptions_def purge_url_def purge_options_def)
  ultimately show ?thesis
    using purge_blocked_by_facets[of purge_server "[(''ns'', ''f'')]" "[(''ns'', ''f'')]" purge_url purge_options "\<lparr>pt_context = ''c'', pt_server = ''h''\<rparr>" 3]
    by (simp add: purge_options_def)
qed

end
