(* ===== verification/ExecutionGate.thy ===== *)
theory ExecutionGate
  imports Tracker
begin

text \<open>
  The per-key execution gate (\<^verbatim>\<open>executionGate\<close> of \<^verbatim>\<open>src/internal/reconciliation/tracker.go\<close>) and the
  reconciliations that pass through it (\<^verbatim>\<open>Reconcile\<close> of \<^verbatim>\<open>src/internal/reconciliation/pipeline.go\<close>).

  A \<^verbatim>\<open>*sync.Mutex\<close> is the number of its allocation; \<open>eg_held\<close> are the locked ones.  \<open>lock\<close> is two atomic
  sections: the lookup under \<open>g.mu\<close> (\<open>gate_mutex\<close>) and the acquisition of the mutex found (\<open>mutex_lock\<close>,
  \<open>None\<close> while it blocks); the closure it returns is \<open>mutex_unlock\<close>.  \<open>gate_step\<close> interleaves any number of
  reconciliations of any keys, section by section, with the events that other goroutines deliver to the tracker.
  Nothing is assumed about the order of the sections: that one key has one execution is what the invariant shows.
\<close>

section \<open>The gate\<close>

record executionGate =
  eg_locks :: "NamespacedName \<Rightarrow> nat option"
  eg_next :: nat
  eg_held :: "nat set"

definition newExecutionGate :: executionGate where
  "newExecutionGate = \<lparr>eg_locks = (\<lambda>_. None), eg_next = 0, eg_held = {}\<rparr>"

definition gate_mutex :: "executionGate \<Rightarrow> NamespacedName \<Rightarrow> nat \<times> executionGate" where
  "gate_mutex g key = (case eg_locks g key of
      Some m \<Rightarrow> (m, g)
    | None \<Rightarrow> (eg_next g, g\<lparr>eg_locks := (eg_locks g)(key \<mapsto> eg_next g), eg_next := Suc (eg_next g)\<rparr>))"

definition mutex_lock :: "executionGate \<Rightarrow> nat \<Rightarrow> executionGate option" where
  "mutex_lock g m = (if m \<in> eg_held g then None else Some (g\<lparr>eg_held := insert m (eg_held g)\<rparr>))"

definition mutex_unlock :: "executionGate \<Rightarrow> nat \<Rightarrow> executionGate" where
  "mutex_unlock g m = g\<lparr>eg_held := eg_held g - {m}\<rparr>"

section \<open>Reconciliations\<close>

text \<open>Where a call of \<^verbatim>\<open>Reconcile\<close> stands: it knows its mutex and waits for it, holds it without a lease, holds it
  with the lease of a handle, holds it after its lease was released (or was never acquired), or has returned.\<close>

datatype gate_phase = Waiting nat | Locked nat | Running nat nat | Finished nat | Returned

record execution =
  ex_key :: NamespacedName
  ex_phase :: gate_phase

record gate_world =
  gw_tracker :: FreshnessTracker
  gw_gate :: executionGate
  gw_executions :: "nat \<Rightarrow> execution option"

definition initial_world :: gate_world where
  "initial_world = \<lparr>gw_tracker = NewFreshnessTracker, gw_gate = newExecutionGate, gw_executions = (\<lambda>_. None)\<rparr>"

definition set_execution :: "gate_world \<Rightarrow> nat \<Rightarrow> NamespacedName \<Rightarrow> gate_phase \<Rightarrow> gate_world" where
  "set_execution w i key p = w\<lparr>gw_executions := (gw_executions w)(i \<mapsto> \<lparr>ex_key = key, ex_phase = p\<rparr>)\<rparr>"

text \<open>The events that reach the tracker without a lease: watch events, absence seen by a read, policy changes.\<close>

fun lease_free :: "tracker_event \<Rightarrow> bool" where
  "lease_free (EvAcquire key uid gen) = False"
| "lease_free (EvRelease h) = False"
| "lease_free _ = True"

inductive gate_step :: "gate_world \<Rightarrow> gate_world \<Rightarrow> bool" where
  step_arrive: "gw_executions w i = None \<Longrightarrow> gate_mutex (gw_gate w) key = (m, g) \<Longrightarrow>
    gate_step w (set_execution (w\<lparr>gw_gate := g\<rparr>) i key (Waiting m))"
| step_enter: "gw_executions w i = Some \<lparr>ex_key = key, ex_phase = Waiting m\<rparr> \<Longrightarrow>
    mutex_lock (gw_gate w) m = Some g \<Longrightarrow> gate_step w (set_execution (w\<lparr>gw_gate := g\<rparr>) i key (Locked m))"
| step_acquire: "gw_executions w i = Some \<lparr>ex_key = key, ex_phase = Locked m\<rparr> \<Longrightarrow>
    Acquire (gw_tracker w) key uid gen = (t, Inr (lease, h)) \<Longrightarrow>
    gate_step w (set_execution (w\<lparr>gw_tracker := t\<rparr>) i key (Running m h))"
| step_refused: "gw_executions w i = Some \<lparr>ex_key = key, ex_phase = Locked m\<rparr> \<Longrightarrow>
    Acquire (gw_tracker w) key uid gen = (t, Inl e) \<Longrightarrow>
    gate_step w (set_execution (w\<lparr>gw_tracker := t\<rparr>) i key (Finished m))"
| step_skip: "gw_executions w i = Some \<lparr>ex_key = key, ex_phase = Locked m\<rparr> \<Longrightarrow>
    gate_step w (set_execution w i key (Finished m))"
| step_release: "gw_executions w i = Some \<lparr>ex_key = key, ex_phase = Running m h\<rparr> \<Longrightarrow>
    gate_step w (set_execution (w\<lparr>gw_tracker := release (gw_tracker w) h\<rparr>) i key (Finished m))"
| step_return: "gw_executions w i = Some \<lparr>ex_key = key, ex_phase = Finished m\<rparr> \<Longrightarrow>
    gate_step w (set_execution (w\<lparr>gw_gate := mutex_unlock (gw_gate w) m\<rparr>) i key Returned)"
| step_event: "lease_free e \<Longrightarrow> gate_step w (w\<lparr>gw_tracker := tracker_apply e (gw_tracker w)\<rparr>)"

inductive gate_reachable :: "gate_world \<Rightarrow> bool" where
  reach_init: "gate_reachable initial_world"
| reach_step: "gate_reachable w \<Longrightarrow> gate_step w w' \<Longrightarrow> gate_reachable w'"

section \<open>Contexts and their owners\<close>

text \<open>One closure per key is still to be released.\<close>

definition single_open :: "FreshnessTracker \<Rightarrow> bool" where
  "single_open t \<longleftrightarrow> (\<forall>h h' l l'. tk_closures t h = Some l \<longrightarrow> tk_closures t h' = Some l' \<longrightarrow> ls_key l = ls_key l' \<longrightarrow>
     h \<notin> tk_released t \<longrightarrow> h' \<notin> tk_released t \<longrightarrow> h = h')"

text \<open>A context that is not cancelled is the owner of its key.\<close>

definition live_owns :: "FreshnessTracker \<Rightarrow> bool" where
  "live_owns t \<longleftrightarrow> (\<forall>h lease. tk_closures t h = Some lease \<longrightarrow> h \<notin> tk_cancelled t \<longrightarrow>
     (\<exists>s. tk_states t (ls_key lease) = Some s \<and> st_active s = Some \<lparr>al_lease = lease, al_cancel = h\<rparr>))"

lemma cancel_key_live_owns:
  assumes lo: "live_owns t"
  shows "live_owns (t\<lparr>tk_states := (tk_states t)(key \<mapsto> s'),
    tk_cancelled := tk_cancelled t \<union> cancelled_by (ensureState t key)\<rparr>)"
  unfolding live_owns_def
proof (intro allI impI)
  fix h lease
  let ?t = "t\<lparr>tk_states := (tk_states t)(key \<mapsto> s'), tk_cancelled := tk_cancelled t \<union> cancelled_by (ensureState t key)\<rparr>"
  assume c: "tk_closures ?t h = Some lease" and live: "h \<notin> tk_cancelled ?t"
  then obtain s where s: "tk_states t (ls_key lease) = Some s" "st_active s = Some \<lparr>al_lease = lease, al_cancel = h\<rparr>"
    using lo by (auto simp: live_owns_def)
  have "ls_key lease \<noteq> key"
    using s live by (auto simp: cancelled_by_def ensureState_def)
  then show "\<exists>s. tk_states ?t (ls_key lease) = Some s \<and> st_active s = Some \<lparr>al_lease = lease, al_cancel = h\<rparr>"
    using s by simp
qed

lemma Observe_live_owns:
  assumes "live_owns t"
  shows "live_owns (Observe t key uid gen deleting)"
proof (cases "changedIdentity (ensureState t key) uid gen deleting False")
  case True
  then show ?thesis using cancel_key_live_owns[OF assms, of key] by (simp add: Observe_def Let_def)
next
  case False
  show ?thesis unfolding live_owns_def
  proof (intro allI impI)
    fix h lease
    assume "tk_closures (Observe t key uid gen deleting) h = Some lease" "h \<notin> tk_cancelled (Observe t key uid gen deleting)"
    then obtain s where s: "tk_states t (ls_key lease) = Some s" "st_active s = Some \<lparr>al_lease = lease, al_cancel = h\<rparr>"
      using assms False by (auto simp: live_owns_def Observe_def Let_def)
    then show "\<exists>s. tk_states (Observe t key uid gen deleting) (ls_key lease) = Some s \<and>
        st_active s = Some \<lparr>al_lease = lease, al_cancel = h\<rparr>"
      using False by (auto simp: Observe_def Let_def ensureState_def)
  qed
qed

lemma InvalidateAll_live_owns: "live_owns t \<Longrightarrow> live_owns (InvalidateAll t)"
  by (fastforce simp: live_owns_def InvalidateAll_def Let_def cancelled_by_def ran_def)

lemma Acquire_live_owns:
  assumes lo: "live_owns t" and inv: "tracker_inv t" 
    and closed: "\<And>h lease. tk_closures t h = Some lease \<Longrightarrow> ls_key lease = key \<Longrightarrow> h \<in> tk_released t"
  shows "live_owns (fst (Acquire t key uid gen))"
  unfolding live_owns_def
proof (intro allI impI)
  fix h lease
  let ?t = "fst (Acquire t key uid gen)"
  assume c: "tk_closures ?t h = Some lease" and live: "h \<notin> tk_cancelled ?t"
  show "\<exists>s. tk_states ?t (ls_key lease) = Some s \<and> st_active s = Some \<lparr>al_lease = lease, al_cancel = h\<rparr>"
  proof (cases "st_active (ensureState t key) = None \<and> h = tk_next t")
    case True
    then show ?thesis using c by (auto simp: Acquire_def Let_def)
  next
    case False
    then have old: "tk_closures t h = Some lease" "h \<notin> tk_cancelled t"
      using c live by (auto simp: Acquire_def Let_def split: if_splits)
    then obtain s where s: "tk_states t (ls_key lease) = Some s" "st_active s = Some \<lparr>al_lease = lease, al_cancel = h\<rparr>"
      using lo by (auto simp: live_owns_def)
    have "ls_key lease \<noteq> key"
      using old closed tracker_invD(4)[OF inv] by auto
    then show ?thesis using s by (auto simp: Acquire_def Let_def)
  qed
qed

lemma release_live_owns:
  assumes lo: "live_owns t" and inv: "tracker_inv t" and so: "single_open t"
  shows "live_owns (release t h)"
  unfolding live_owns_def
proof (intro allI impI)
  fix g lease
  assume c: "tk_closures (release t h) g = Some lease" and live: "g \<notin> tk_cancelled (release t h)"
  then have old: "tk_closures t g = Some lease" "g \<notin> tk_cancelled t"
    by (auto simp: release_def split: option.splits if_splits)
  then obtain s where s: "tk_states t (ls_key lease) = Some s" "st_active s = Some \<lparr>al_lease = lease, al_cancel = g\<rparr>"
    using lo by (auto simp: live_owns_def)
  have nr: "g \<notin> tk_released t" using old tracker_invD(4)[OF inv] by auto
  have "h \<in> tk_released t \<or> tk_closures t h \<noteq> Some lease"
  proof (rule ccontr)
    assume "\<not> ?thesis"
    then have "h = g" using so old nr by (auto simp: single_open_def)
    with live \<open>\<not> ?thesis\<close> show False by (auto simp: release_def)
  qed
  then have "tk_states (release t h) (ls_key lease) = Some s"
    using s by (auto simp: release_def split: option.splits)
  then show "\<exists>s. tk_states (release t h) (ls_key lease) = Some s \<and> st_active s = Some \<lparr>al_lease = lease, al_cancel = g\<rparr>"
    using s by blast
qed

lemma Acquire_single_open:
  assumes "single_open t"
    and "\<And>h lease. tk_closures t h = Some lease \<Longrightarrow> ls_key lease = key \<Longrightarrow> h \<in> tk_released t"
  shows "single_open (fst (Acquire t key uid gen))"
  using assms by (fastforce simp: single_open_def Acquire_def Let_def split: if_splits)

lemma release_single_open: "single_open t \<Longrightarrow> single_open (release t h)"
  by (auto simp: single_open_def release_def split: option.splits)

text \<open>Events without a lease keep the closures and what was released, and cancel the owner they remove.\<close>

lemma lease_free_frame:
  assumes "lease_free e"
  shows "tk_closures (tracker_apply e t) = tk_closures t" "tk_released (tracker_apply e t) = tk_released t"
  using assms by (cases e; simp add: Observe_def ObserveDelete_def MarkAbsent_def InvalidateAll_def Let_def)+

lemma lease_free_live_owns: "lease_free e \<Longrightarrow> live_owns t \<Longrightarrow> live_owns (tracker_apply e t)"
  by (cases e) (simp_all add: Observe_live_owns InvalidateAll_live_owns ObserveDelete_def MarkAbsent_def Let_def
      cancel_key_live_owns)

section \<open>Invariant\<close>

fun inside :: "gate_phase \<Rightarrow> nat option" where
  "inside (Locked m) = Some m"
| "inside (Running m h) = Some m"
| "inside (Finished m) = Some m"
| "inside _ = None"

fun mutex_of :: "gate_phase \<Rightarrow> nat option" where
  "mutex_of (Waiting m) = Some m"
| "mutex_of p = inside p"

lemma mutex_of_inside: "inside p = Some m \<Longrightarrow> mutex_of p = Some m"
  by (cases p) simp_all

text \<open>The gate: one mutex per key, executions use the mutex of their key, and a mutex is held exactly while one
  execution is inside.\<close>

definition insiders :: "(nat \<Rightarrow> execution option) \<Rightarrow> nat \<Rightarrow> nat set" where
  "insiders xs m = {i. \<exists>x. xs i = Some x \<and> inside (ex_phase x) = Some m}"

definition gate_ok :: "executionGate \<Rightarrow> (nat \<Rightarrow> execution option) \<Rightarrow> bool" where
  "gate_ok g xs \<longleftrightarrow>
     (\<forall>key m. eg_locks g key = Some m \<longrightarrow> m < eg_next g) \<and>
     (\<forall>key key' m. eg_locks g key = Some m \<longrightarrow> eg_locks g key' = Some m \<longrightarrow> key = key') \<and>
     (\<forall>i x m. xs i = Some x \<longrightarrow> mutex_of (ex_phase x) = Some m \<longrightarrow> eg_locks g (ex_key x) = Some m) \<and>
     (\<forall>m. if m \<in> eg_held g then \<exists>i. insiders xs m = {i} else insiders xs m = {})"

text \<open>The leases: a running execution's closure is still to be released, and every such closure has its execution.\<close>

definition leases_ok :: "FreshnessTracker \<Rightarrow> (nat \<Rightarrow> execution option) \<Rightarrow> bool" where
  "leases_ok t xs \<longleftrightarrow>
     (\<forall>i key m h. xs i = Some \<lparr>ex_key = key, ex_phase = Running m h\<rparr> \<longrightarrow>
        (\<exists>lease. tk_closures t h = Some lease \<and> ls_key lease = key \<and> h \<notin> tk_released t)) \<and>
     (\<forall>h lease. tk_closures t h = Some lease \<longrightarrow> h \<notin> tk_released t \<longrightarrow>
        (\<exists>i m. xs i = Some \<lparr>ex_key = ls_key lease, ex_phase = Running m h\<rparr>))"

definition world_ok :: "gate_world \<Rightarrow> bool" where
  "world_ok w \<longleftrightarrow> tracker_inv (gw_tracker w) \<and> single_open (gw_tracker w) \<and> live_owns (gw_tracker w) \<and>
     gate_ok (gw_gate w) (gw_executions w) \<and> leases_ok (gw_tracker w) (gw_executions w)"

lemma insiders_update [simp]:
  "insiders (xs(i \<mapsto> x)) m = (if inside (ex_phase x) = Some m then insert i (insiders xs m) else insiders xs m - {i})"
  by (auto simp: insiders_def)

lemma gate_okD:
  assumes "gate_ok g xs"
  shows "eg_locks g key = Some m \<Longrightarrow> m < eg_next g"
    and "eg_locks g key = Some m \<Longrightarrow> eg_locks g key' = Some m \<Longrightarrow> key = key'"
    and "xs i = Some x \<Longrightarrow> mutex_of (ex_phase x) = Some m \<Longrightarrow> eg_locks g (ex_key x) = Some m"
    and "m \<notin> eg_held g \<Longrightarrow> insiders xs m = {}"
    and "m \<in> eg_held g \<Longrightarrow> \<exists>i. insiders xs m = {i}"
  using assms by (auto simp: gate_ok_def split: if_splits)

lemma gate_ok_inside:
  assumes "gate_ok g xs" "xs i = Some x" "inside (ex_phase x) = Some m"
  shows "m \<in> eg_held g" "insiders xs m = {i}"
proof -
  have i: "i \<in> insiders xs m" using assms(2,3) by (simp add: insiders_def)
  then show "m \<in> eg_held g" using gate_okD(4)[OF assms(1), of m] by blast
  then show "insiders xs m = {i}" using gate_okD(5)[OF assms(1), of m] i by auto
qed

lemma gate_exclusive:
  assumes ok: "gate_ok g xs" and x: "xs i = Some x" "inside (ex_phase x) = Some m"
    and y: "xs j = Some y" "inside (ex_phase y) = Some m'" and key: "ex_key x = ex_key y"
  shows "i = j"
proof -
  have "m = m'"
    using gate_okD(3)[OF ok x(1) mutex_of_inside[OF x(2)]] gate_okD(3)[OF ok y(1) mutex_of_inside[OF y(2)]] key by simp
  then show ?thesis
    using gate_ok_inside(2)[OF ok x] gate_ok_inside(2)[OF ok y] by simp
qed

lemma gate_okI:
  assumes "\<And>key m. eg_locks g key = Some m \<Longrightarrow> m < eg_next g"
    and "\<And>key key' m. eg_locks g key = Some m \<Longrightarrow> eg_locks g key' = Some m \<Longrightarrow> key = key'"
    and "\<And>i x m. xs i = Some x \<Longrightarrow> mutex_of (ex_phase x) = Some m \<Longrightarrow> eg_locks g (ex_key x) = Some m"
    and "\<And>m. m \<notin> eg_held g \<Longrightarrow> insiders xs m = {}"
    and "\<And>m. m \<in> eg_held g \<Longrightarrow> \<exists>i. insiders xs m = {i}"
  shows "gate_ok g xs"
  using assms by (auto simp: gate_ok_def)

text \<open>Moves of one execution that stay inside keep the gate.\<close>

lemma gate_ok_move:
  assumes ok: "gate_ok g xs" and x: "xs i = Some \<lparr>ex_key = key, ex_phase = q\<rparr>" "inside q = Some m"
    and p: "inside p = Some m"
  shows "gate_ok g (xs(i \<mapsto> \<lparr>ex_key = key, ex_phase = p\<rparr>))"
proof -
  have only: "m \<in> eg_held g" "insiders xs m = {i}" using gate_ok_inside[OF ok x(1)] x(2) by simp_all
  have none: "i \<notin> insiders xs k" if "k \<noteq> m" for k using that x by (auto simp: insiders_def)
  show ?thesis
  proof (rule gate_okI)
    fix j y k
    assume "(xs(i \<mapsto> \<lparr>ex_key = key, ex_phase = p\<rparr>)) j = Some y" "mutex_of (ex_phase y) = Some k"
    then show "eg_locks g (ex_key y) = Some k"
      using gate_okD(3)[OF ok, of j y k] gate_okD(3)[OF ok x(1), of m] mutex_of_inside[OF x(2)] mutex_of_inside[OF p]
      by (auto split: if_splits)
  next
    fix k assume "k \<in> eg_held g"
    then show "\<exists>j. insiders (xs(i \<mapsto> \<lparr>ex_key = key, ex_phase = p\<rparr>)) k = {j}"
      using only none[of k] p gate_okD(5)[OF ok, of k] by (cases "k = m") auto
  qed (use ok only p gate_okD in auto)
qed

lemma gate_ok_arrive:
  assumes ok: "gate_ok g xs" and new: "xs i = None" and m: "gate_mutex g key = (m, g')"
  shows "gate_ok g' (xs(i \<mapsto> \<lparr>ex_key = key, ex_phase = Waiting m\<rparr>))"
proof -
  have none: "insiders xs k - {i} = insiders xs k" for k using new by (auto simp: insiders_def)
  have g': "eg_held g' = eg_held g" "eg_locks g' key = Some m" "m < eg_next g'"
    using m gate_okD(1)[OF ok, of key m] by (auto simp: gate_mutex_def split: option.splits)
  have keep: "eg_locks g k = Some n \<Longrightarrow> eg_locks g' k = Some n" for k n
    using m by (auto simp: gate_mutex_def split: option.splits)
  show ?thesis
  proof (rule gate_okI)
    fix k k' n
    assume "eg_locks g' k = Some n" "eg_locks g' k' = Some n"
    then show "k = k'"
      using m gate_okD(2)[OF ok, of k n k'] gate_okD(1)[OF ok, of _ n]
      by (fastforce simp: gate_mutex_def split: option.splits if_splits)
  next
    fix k n
    assume "eg_locks g' k = Some n"
    then show "n < eg_next g'"
      using m gate_okD(1)[OF ok, of k n] by (auto simp: gate_mutex_def split: option.splits if_splits)
  next
    fix j y n
    assume "(xs(i \<mapsto> \<lparr>ex_key = key, ex_phase = Waiting m\<rparr>)) j = Some y" "mutex_of (ex_phase y) = Some n"
    then show "eg_locks g' (ex_key y) = Some n"
      using g'(2) keep gate_okD(3)[OF ok, of j y n] by (auto split: if_splits)
  qed (use none g'(1) gate_okD(4)[OF ok] gate_okD(5)[OF ok] in auto)
qed

lemma gate_ok_enter:
  assumes ok: "gate_ok g xs" and x: "xs i = Some \<lparr>ex_key = key, ex_phase = Waiting m\<rparr>" and m: "mutex_lock g m = Some g'"
  shows "gate_ok g' (xs(i \<mapsto> \<lparr>ex_key = key, ex_phase = Locked m\<rparr>))"
proof -
  have g': "g' = g\<lparr>eg_held := insert m (eg_held g)\<rparr>" "m \<notin> eg_held g" using m by (auto simp: mutex_lock_def split: if_splits)
  have out: "i \<notin> insiders xs k" for k using x by (simp add: insiders_def)
  show ?thesis
  proof (rule gate_okI)
    fix j y n
    assume "(xs(i \<mapsto> \<lparr>ex_key = key, ex_phase = Locked m\<rparr>)) j = Some y" "mutex_of (ex_phase y) = Some n"
    then show "eg_locks g' (ex_key y) = Some n"
      using g'(1) gate_okD(3)[OF ok, of j y n] gate_okD(3)[OF ok x, of m] by (auto split: if_splits)
  next
    fix k assume "k \<in> eg_held g'"
    then show "\<exists>j. insiders (xs(i \<mapsto> \<lparr>ex_key = key, ex_phase = Locked m\<rparr>)) k = {j}"
      using g' gate_okD(4)[OF ok, of m] gate_okD(5)[OF ok, of k] out[of k] by (cases "k = m") auto
  qed (use g' ok gate_okD in auto)
qed

lemma gate_ok_return:
  assumes ok: "gate_ok g xs" and x: "xs i = Some \<lparr>ex_key = key, ex_phase = Finished m\<rparr>"
  shows "gate_ok (mutex_unlock g m) (xs(i \<mapsto> \<lparr>ex_key = key, ex_phase = Returned\<rparr>))"
proof -
  have only: "insiders xs m = {i}" using gate_ok_inside(2)[OF ok x] by simp
  have none: "i \<notin> insiders xs k" if "k \<noteq> m" for k using that x by (auto simp: insiders_def)
  show ?thesis
  proof (rule gate_okI)
    fix j y n
    assume "(xs(i \<mapsto> \<lparr>ex_key = key, ex_phase = Returned\<rparr>)) j = Some y" "mutex_of (ex_phase y) = Some n"
    then show "eg_locks (mutex_unlock g m) (ex_key y) = Some n"
      using gate_okD(3)[OF ok, of j y n] by (auto simp: mutex_unlock_def split: if_splits)
  next
    fix k assume "k \<in> eg_held (mutex_unlock g m)"
    then show "\<exists>j. insiders (xs(i \<mapsto> \<lparr>ex_key = key, ex_phase = Returned\<rparr>)) k = {j}"
      using none[of k] gate_okD(5)[OF ok, of k] by (auto simp: mutex_unlock_def)
  next
    fix k assume "k \<notin> eg_held (mutex_unlock g m)"
    then show "insiders (xs(i \<mapsto> \<lparr>ex_key = key, ex_phase = Returned\<rparr>)) k = {}"
      using only gate_okD(4)[OF ok, of k] by (auto simp: mutex_unlock_def)
  qed (use gate_okD[OF ok] in \<open>auto simp: mutex_unlock_def\<close>)
qed

section \<open>The invariant holds in every interleaving\<close>

lemma leases_okD:
  assumes "leases_ok t xs"
  shows "xs i = Some \<lparr>ex_key = key, ex_phase = Running m h\<rparr> \<Longrightarrow>
      \<exists>lease. tk_closures t h = Some lease \<and> ls_key lease = key \<and> h \<notin> tk_released t"
    and "tk_closures t h = Some lease \<Longrightarrow> h \<notin> tk_released t \<Longrightarrow>
      \<exists>i m. xs i = Some \<lparr>ex_key = ls_key lease, ex_phase = Running m h\<rparr>"
  using assms unfolding leases_ok_def by blast+

lemma leases_ok_waiting:
  assumes "leases_ok t xs" "xs i = None \<or> (\<exists>key q. xs i = Some \<lparr>ex_key = key, ex_phase = q\<rparr> \<and> (\<forall>m h. q \<noteq> Running m h))"
    "\<forall>m h. p \<noteq> Running m h"
  shows "leases_ok t (xs(i \<mapsto> \<lparr>ex_key = key', ex_phase = p\<rparr>))"
  unfolding leases_ok_def
proof (intro conjI allI impI)
  fix h lease
  assume "tk_closures t h = Some lease" "h \<notin> tk_released t"
  then obtain j m where j: "xs j = Some \<lparr>ex_key = ls_key lease, ex_phase = Running m h\<rparr>"
    using leases_okD(2)[OF assms(1)] by blast
  then have "j \<noteq> i" using assms(2) by auto
  then show "\<exists>j m. (xs(i \<mapsto> \<lparr>ex_key = key', ex_phase = p\<rparr>)) j = Some \<lparr>ex_key = ls_key lease, ex_phase = Running m h\<rparr>"
    using j by (intro exI[of _ j] exI[of _ m]) simp
qed (use assms in \<open>auto simp: leases_ok_def split: if_splits\<close>)

text \<open>An execution inside the gate without a lease meets no unreleased closure of its key.\<close>

lemma locked_closed:
  assumes w: "gate_ok g xs" "leases_ok t xs" and x: "xs i = Some \<lparr>ex_key = key, ex_phase = Locked m\<rparr>"
    and c: "tk_closures t h = Some lease" "ls_key lease = key"
  shows "h \<in> tk_released t"
proof (rule ccontr)
  assume "h \<notin> tk_released t"
  then obtain j n where j: "xs j = Some \<lparr>ex_key = key, ex_phase = Running n h\<rparr>"
    using leases_okD(2)[OF w(2) c(1)] c(2) by blast
  have "i = j" by (rule gate_exclusive[OF w(1) x _ j]) simp_all
  then show False using x j by simp
qed

lemma locked_unowned:
  assumes "tracker_inv t" "gate_ok g xs" "leases_ok t xs" "xs i = Some \<lparr>ex_key = key, ex_phase = Locked m\<rparr>"
  shows "st_active (ensureState t key) = None"
proof (rule ccontr)
  assume "st_active (ensureState t key) \<noteq> None"
  then obtain a where "st_active (ensureState t key) = Some a" by auto
  then have "owner_ok t key (ensureState t key) a" by (rule ensureState_owner(1)[OF assms(1)])
  then show False
    using locked_closed[OF assms(2-4), of "al_cancel a" "al_lease a"] by (simp add: owner_ok_def)
qed

lemma Acquire_leases_ok:
  assumes inv: "tracker_inv t" and ok: "leases_ok t xs" and x: "xs i = Some \<lparr>ex_key = key, ex_phase = Locked m\<rparr>"
    and acq: "Acquire t key uid gen = (t', Inr (lease, h))"
  shows "leases_ok t' (xs(i \<mapsto> \<lparr>ex_key = key, ex_phase = Running m h\<rparr>))" (is "leases_ok t' ?xs")
proof -
  have t': "tk_closures t' = (tk_closures t)(h \<mapsto> lease)" "tk_released t' = tk_released t" "h = tk_next t" "ls_key lease = key"
    using acq by (auto simp: Acquire_def Let_def split: if_splits)
  have fresh: "tk_closures t h = None" "h \<notin> tk_released t" using tracker_invD(3)[OF inv, of h] t'(3) by simp_all
  show ?thesis unfolding leases_ok_def
  proof (intro conjI allI impI)
    fix g lease'
    assume g: "tk_closures t' g = Some lease'" "g \<notin> tk_released t'"
    show "\<exists>j m. ?xs j = Some \<lparr>ex_key = ls_key lease', ex_phase = Running m g\<rparr>"
    proof (cases "g = h")
      case True
      then show ?thesis using g t' by (intro exI[of _ i] exI[of _ m]) simp
    next
      case False
      then obtain j n where j: "xs j = Some \<lparr>ex_key = ls_key lease', ex_phase = Running n g\<rparr>"
        using g t' leases_okD(2)[OF ok, of g lease'] by auto
      then have "j \<noteq> i" using x by auto
      then show ?thesis using j by (intro exI[of _ j] exI[of _ n]) simp
    qed
  next
    fix j k n g
    assume j: "?xs j = Some \<lparr>ex_key = k, ex_phase = Running n g\<rparr>"
    show "\<exists>lease. tk_closures t' g = Some lease \<and> ls_key lease = k \<and> g \<notin> tk_released t'"
    proof (cases "j = i")
      case True
      then show ?thesis using j t' fresh by simp
    next
      case False
      then obtain l where l: "tk_closures t g = Some l" "ls_key l = k" "g \<notin> tk_released t"
        using j leases_okD(1)[OF ok, of j k n g] by auto
      then have "g \<noteq> h" using fresh by (intro notI) simp
      then show ?thesis using l t' by simp
    qed
  qed
qed

lemma release_leases_ok:
  assumes ok: "gate_ok g xs" "leases_ok t xs" and x: "xs i = Some \<lparr>ex_key = key, ex_phase = Running m h\<rparr>"
  shows "leases_ok (release t h) (xs(i \<mapsto> \<lparr>ex_key = key, ex_phase = Finished m\<rparr>))" (is "leases_ok ?t ?xs")
proof -
  obtain lease where c: "tk_closures t h = Some lease" "ls_key lease = key" using leases_okD(1)[OF ok(2) x] by blast
  then have t': "tk_closures ?t = tk_closures t" "tk_released ?t = insert h (tk_released t)"
    by (auto simp: release_def)
  show ?thesis unfolding leases_ok_def
  proof (intro conjI allI impI)
    fix f lease'
    assume f: "tk_closures ?t f = Some lease'" "f \<notin> tk_released ?t"
    then obtain j n where j: "xs j = Some \<lparr>ex_key = ls_key lease', ex_phase = Running n f\<rparr>"
      using t' leases_okD(2)[OF ok(2), of f lease'] by auto
    have "f \<noteq> h" using f(2) t'(2) by simp
    then have "j \<noteq> i" using x j by (intro notI) simp
    then show "\<exists>j m. ?xs j = Some \<lparr>ex_key = ls_key lease', ex_phase = Running m f\<rparr>"
      using j by (intro exI[of _ j] exI[of _ n]) simp
  next
    fix j k n f
    assume j: "?xs j = Some \<lparr>ex_key = k, ex_phase = Running n f\<rparr>"
    then have j': "xs j = Some \<lparr>ex_key = k, ex_phase = Running n f\<rparr>" "j \<noteq> i" by (auto split: if_splits)
    then obtain l where l: "tk_closures t f = Some l" "ls_key l = k" "f \<notin> tk_released t"
      using leases_okD(1)[OF ok(2) j'(1)] by blast
    have "f \<noteq> h"
    proof
      assume "f = h"
      then have "k = key" using l c by simp
      then have "i = j" using gate_exclusive[OF ok(1) x _ j'(1)] by simp
      with j'(2) show False by simp
    qed
    then show "\<exists>lease. tk_closures ?t f = Some lease \<and> ls_key lease = k \<and> f \<notin> tk_released ?t"
      using l t' by auto
  qed
qed

lemma initial_world_ok: "world_ok initial_world"
  by (simp add: world_ok_def initial_world_def NewFreshnessTracker_inv gate_ok_def leases_ok_def single_open_def
      live_owns_def insiders_def newExecutionGate_def) (simp add: NewFreshnessTracker_def)

lemma gate_step_ok:
  assumes "gate_step w w'" "world_ok w"
  shows "world_ok w'"
  using assms
proof (induction rule: gate_step.induct)
  case (step_arrive w i key m g)
  then show ?case
    using gate_ok_arrive[of "gw_gate w" "gw_executions w" i key m g] leases_ok_waiting[of "gw_tracker w" "gw_executions w" i "Waiting m" key]
    by (simp add: world_ok_def set_execution_def)
next
  case (step_enter w i key m g)
  then show ?case
    using gate_ok_enter[of "gw_gate w" "gw_executions w" i key m g] leases_ok_waiting[of "gw_tracker w" "gw_executions w" i "Locked m" key]
    by (simp add: world_ok_def set_execution_def)
next
  case (step_acquire w i key m uid gen t lease h)
  have t: "t = fst (Acquire (gw_tracker w) key uid gen)" using step_acquire.hyps(2) by simp
  have closed: "\<And>h lease. tk_closures (gw_tracker w) h = Some lease \<Longrightarrow> ls_key lease = key \<Longrightarrow> h \<in> tk_released (gw_tracker w)"
    by (rule locked_closed[where g = "gw_gate w" and xs = "gw_executions w" and i = i and m = m and key = key])
      (use step_acquire in \<open>simp_all add: world_ok_def\<close>)
  have w: "tracker_inv (gw_tracker w)" "single_open (gw_tracker w)" "live_owns (gw_tracker w)"
      "gate_ok (gw_gate w) (gw_executions w)" "leases_ok (gw_tracker w) (gw_executions w)"
    using step_acquire.prems by (simp_all add: world_ok_def)
  have "leases_ok t ((gw_executions w)(i \<mapsto> \<lparr>ex_key = key, ex_phase = Running m h\<rparr>))"
    using w(1,5) step_acquire.hyps by (rule Acquire_leases_ok)
  moreover have "gate_ok (gw_gate w) ((gw_executions w)(i \<mapsto> \<lparr>ex_key = key, ex_phase = Running m h\<rparr>))"
    by (rule gate_ok_move[OF w(4) step_acquire.hyps(1)]) simp_all
  moreover have "single_open t" "live_owns t" "tracker_inv t"
    unfolding t using w(1-3) closed by (simp_all add: Acquire_single_open Acquire_live_owns Acquire_inv)
  ultimately show ?case by (simp add: world_ok_def set_execution_def)
next
  case (step_refused w i key m uid gen t e)
  have "st_active (ensureState (gw_tracker w) key) = None"
    by (rule locked_unowned[where g = "gw_gate w" and xs = "gw_executions w" and i = i and m = m])
      (use step_refused in \<open>simp_all add: world_ok_def\<close>)
  then show ?case using step_refused.hyps(2) by (simp add: Acquire_def Let_def)
next
  case (step_skip w i key m)
  then show ?case
    using gate_ok_move[of "gw_gate w" "gw_executions w" i key "Locked m" m "Finished m"]
      leases_ok_waiting[of "gw_tracker w" "gw_executions w" i "Finished m" key]
    by (simp add: world_ok_def set_execution_def)
next
  case (step_release w i key m h)
  then show ?case
    using gate_ok_move[of "gw_gate w" "gw_executions w" i key "Running m h" m "Finished m"]
      release_leases_ok[of "gw_gate w" "gw_executions w" "gw_tracker w" i key m h]
    by (simp add: world_ok_def set_execution_def release_inv release_single_open release_live_owns)
next
  case (step_return w i key m)
  then show ?case
    using gate_ok_return[of "gw_gate w" "gw_executions w" i key m]
      leases_ok_waiting[of "gw_tracker w" "gw_executions w" i Returned key]
    by (simp add: world_ok_def set_execution_def)
next
  case (step_event e w)
  then show ?case
    using lease_free_frame[OF step_event.hyps, of "gw_tracker w"]
    by (simp add: world_ok_def tracker_apply_inv lease_free_live_owns) (simp add: single_open_def leases_ok_def)
qed

lemma gate_reachable_ok: "gate_reachable w \<Longrightarrow> world_ok w"
  by (induction rule: gate_reachable.induct) (auto intro: initial_world_ok gate_step_ok)

section \<open>Properties\<close>

text \<open>C39: however the reconciliations of all keys and the events of the tracker interleave, at most one
  reconciliation of a key is inside the execution gate, and a waiting one can enter as soon as none is; a
  context that is not cancelled belongs to exactly one running reconciliation, whose lease is current and is its key's
  active lease; a reconciliation inside the gate is never refused a lease; and while a key has an active lease,
  \<^verbatim>\<open>Acquire\<close> refuses another one and leaves the tracked states alone.\<close>

theorem gated_leases_exclusive:
  assumes "gate_reachable w"
  shows "(\<forall>i j x y m m'. gw_executions w i = Some x \<and> gw_executions w j = Some y \<and> ex_key x = ex_key y \<and>
      inside (ex_phase x) = Some m \<and> inside (ex_phase y) = Some m' \<longrightarrow> i = j) \<and>
    (\<forall>i x m. gw_executions w i = Some x \<and> ex_phase x = Waiting m \<and>
      (\<forall>j y. gw_executions w j = Some y \<and> ex_key y = ex_key x \<longrightarrow> inside (ex_phase y) = None) \<longrightarrow>
      mutex_lock (gw_gate w) m \<noteq> None) \<and>
    (\<forall>h lease. live (gw_tracker w) h \<and> tk_closures (gw_tracker w) h = Some lease \<longrightarrow>
      IsLeaseCurrent (gw_tracker w) lease \<and>
      (\<exists>s. tk_states (gw_tracker w) (ls_key lease) = Some s \<and> st_active s = Some \<lparr>al_lease = lease, al_cancel = h\<rparr>) \<and>
      (\<exists>!i. \<exists>m. gw_executions w i = Some \<lparr>ex_key = ls_key lease, ex_phase = Running m h\<rparr>)) \<and>
    (\<forall>i x m uid gen. gw_executions w i = Some x \<and> ex_phase x = Locked m \<longrightarrow>
      ok (snd (Acquire (gw_tracker w) (ex_key x) uid gen))) \<and>
    (\<forall>key s a uid gen. tk_states (gw_tracker w) key = Some s \<and> st_active s = Some a \<longrightarrow>
      snd (Acquire (gw_tracker w) key uid gen) = Inl AlreadyActive \<and>
      tk_states (fst (Acquire (gw_tracker w) key uid gen)) = tk_states (gw_tracker w))"
    (is "?one \<and> ?enter \<and> ?live \<and> ?granted \<and> ?guard")
proof -
  let ?t = "gw_tracker w" and ?xs = "gw_executions w"
  have w: "tracker_inv ?t" "live_owns ?t" "gate_ok (gw_gate w) ?xs" "leases_ok ?t ?xs"
    using gate_reachable_ok[OF assms] by (simp_all add: world_ok_def)
  have one: ?one using gate_exclusive[OF w(3)] by metis
  have enter: ?enter
  proof (intro allI impI, elim conjE)
    fix i x m
    assume x: "?xs i = Some x" "ex_phase x = Waiting m"
      and free: "\<forall>j y. ?xs j = Some y \<and> ex_key y = ex_key x \<longrightarrow> inside (ex_phase y) = None"
    have lx: "eg_locks (gw_gate w) (ex_key x) = Some m" using gate_okD(3)[OF w(3) x(1)] x(2) by simp
    have "m \<notin> eg_held (gw_gate w)"
    proof
      assume "m \<in> eg_held (gw_gate w)"
      then obtain j y where y: "?xs j = Some y" "inside (ex_phase y) = Some m"
        using gate_okD(5)[OF w(3), of m] unfolding insiders_def by blast
      then have "ex_key y = ex_key x"
        using gate_okD(2)[OF w(3) lx gate_okD(3)[OF w(3) y(1) mutex_of_inside[OF y(2)]]] by simp
      then show False using free y by simp
    qed
    then show "mutex_lock (gw_gate w) m \<noteq> None" by (simp add: mutex_lock_def)
  qed
  have live: ?live
  proof (intro allI impI, elim conjE)
    fix h lease
    assume h: "live ?t h" "tk_closures ?t h = Some lease"
    obtain s where s: "tk_states ?t (ls_key lease) = Some s" "st_active s = Some \<lparr>al_lease = lease, al_cancel = h\<rparr>"
      using w(2) h by (auto simp: live_owns_def live_def)
    have "h \<notin> tk_released ?t" using h(1) tracker_invD(4)[OF w(1)] by (auto simp: live_def)
    then obtain i m where i: "?xs i = Some \<lparr>ex_key = ls_key lease, ex_phase = Running m h\<rparr>"
      using leases_okD(2)[OF w(4) h(2)] by blast
    have "\<exists>!i. \<exists>m. ?xs i = Some \<lparr>ex_key = ls_key lease, ex_phase = Running m h\<rparr>"
      by (rule ex1I[of _ i]) (use i in \<open>auto intro: gate_exclusive[OF w(3)]\<close>)
    then show "IsLeaseCurrent ?t lease \<and>
      (\<exists>s. tk_states ?t (ls_key lease) = Some s \<and> st_active s = Some \<lparr>al_lease = lease, al_cancel = h\<rparr>) \<and>
      (\<exists>!i. \<exists>m. ?xs i = Some \<lparr>ex_key = ls_key lease, ex_phase = Running m h\<rparr>)"
      using owner_current(1)[OF w(1) s] s by simp
  qed
  have granted: ?granted
  proof (intro allI impI, elim conjE)
    fix i x m uid gen
    assume x: "?xs i = Some x" "ex_phase x = Locked m"
    then have "?xs i = Some \<lparr>ex_key = ex_key x, ex_phase = Locked m\<rparr>" by (cases x) simp
    then show "ok (snd (Acquire ?t (ex_key x) uid gen))"
      using locked_unowned[OF w(1,3,4)] by (simp add: Acquire_def Let_def)
  qed
  have guard: ?guard
    by (auto simp: Acquire_def Let_def ensureState_def fun_upd_idem)
  show ?thesis by (intro conjI one enter live granted guard)
qed

definition wit_blocked :: gate_world where
  "wit_blocked = (let w1 = set_execution (initial_world\<lparr>gw_gate := snd (gate_mutex newExecutionGate wit_key)\<rparr>) 0 wit_key (Waiting 0);
      w2 = set_execution (w1\<lparr>gw_gate := the (mutex_lock (gw_gate w1) 0)\<rparr>) 0 wit_key (Locked 0);
      w3 = set_execution (w2\<lparr>gw_tracker := wit_acquired\<rparr>) 0 wit_key (Running 0 0) in
     set_execution w3 1 wit_key (Waiting 0))"

lemmas gate_eval = wit_blocked_def set_execution_def initial_world_def newExecutionGate_def gate_mutex_def mutex_lock_def
  wit_acquired_def Acquire_def ensureState_def NewFreshnessTracker_def Let_def

lemma wit_blocked_reachable: "gate_reachable wit_blocked"
proof -
  let ?w1 = "set_execution (initial_world\<lparr>gw_gate := snd (gate_mutex newExecutionGate wit_key)\<rparr>) 0 wit_key (Waiting 0)"
  let ?w2 = "set_execution (?w1\<lparr>gw_gate := the (mutex_lock (gw_gate ?w1) 0)\<rparr>) 0 wit_key (Locked 0)"
  let ?w3 = "set_execution (?w2\<lparr>gw_tracker := wit_acquired\<rparr>) 0 wit_key (Running 0 0)"
  have "gate_step initial_world ?w1" by (rule step_arrive) (simp_all add: gate_eval)
  moreover have "gate_step ?w1 ?w2" by (rule step_enter) (simp_all add: gate_eval)
  moreover have "gate_step ?w2 ?w3"
    by (rule step_acquire[where uid = "''u''" and gen = 1]) (simp_all add: gate_eval)
  moreover have "gate_step ?w3 (set_execution (?w3\<lparr>gw_gate := gw_gate ?w3\<rparr>) 1 wit_key (Waiting 0))"
    by (rule step_arrive) (simp_all add: gate_eval)
  ultimately have "gate_reachable (set_execution (?w3\<lparr>gw_gate := gw_gate ?w3\<rparr>) 1 wit_key (Waiting 0))"
    by (intro reach_step[OF reach_step[OF reach_step[OF reach_step[OF reach_init]]]])
  then show ?thesis unfolding wit_blocked_def Let_def by simp
qed

theorem gated_leases_exclusive_witness:
  "\<exists>lease. live (gw_tracker wit_blocked) 0 \<and> tk_closures (gw_tracker wit_blocked) 0 = Some lease \<and>
     IsLeaseCurrent (gw_tracker wit_blocked) lease \<and>
     gw_executions wit_blocked 1 = Some \<lparr>ex_key = wit_key, ex_phase = Waiting 0\<rparr> \<and>
     mutex_lock (gw_gate wit_blocked) 0 = None"
proof -
  have l: "live (gw_tracker wit_blocked) 0" by (simp add: live_def gate_eval)
  obtain lease where c: "tk_closures (gw_tracker wit_blocked) 0 = Some lease" by (simp add: gate_eval)
  have "IsLeaseCurrent (gw_tracker wit_blocked) lease"
    using gated_leases_exclusive[OF wit_blocked_reachable, THEN conjunct2, THEN conjunct2, THEN conjunct1] l c by blast
  then show ?thesis using l c by (intro exI[of _ lease] conjI) (simp_all add: gate_eval)
qed

end
