(* ===== verification/Spec2Isabelle.thy ===== *)
theory Spec2Isabelle
  imports AggregationReducers DiscoveryCalls RouteWatch PipelineResults PipelineObservation Events Purge ExecutionGate
begin

text \<open>
  \<^bold>\<open>KubeFacet: a verification development.\<close>

  KubeFacet is a Kubernetes controller.  A Facet declares sources (resource type, namespaces, selector), fields extracted from the
  selected objects by path, operators that filter and transform the typed values, and aggregates over them; the controller keeps the
  result in the status of the Facet.  One FacetAccessPolicy of the installation bounds what any Facet may observe.

  \<^bold>\<open>The program and the theories.\<close>  An attempt reads a Facet, takes a lease for it, checks its budgets, loads the policy, plans and
  authorizes each source, installs watch routes for the authorized targets, lists the objects, extracts, converts, operates and
  aggregates, and publishes a status; events of Facets, of the policy and of watched objects trigger further attempts.

  \<^item> \<open>Prelude\<close>: results with errors, wrap-around of 64 bit integers, Go division, contexts that end after a number of reads, stable sorting,
    and the rewrite rules the other theories use.
  \<^item> \<open>ApiTypes\<close> (\<^verbatim>\<open>src/api/v1alpha1\<close>): declarations and result structures as records.
  \<^item> \<open>LimitProfile\<close> (\<^verbatim>\<open>src/internal/limits\<close>): defaults, override resolution, and the byte accountant with its overflow guards.
  \<^item> \<open>AccessPolicy\<close> (\<^verbatim>\<open>src/internal/accesspolicy\<close>): validation, compilation, evaluation and fail-closed loading.
  \<^item> \<open>Authorization\<close> (\<^verbatim>\<open>src/internal/authorization\<close>): subjects, decisions, records and capabilities.
  \<^item> \<open>SelectionPlanning\<close>, \<open>SelectionExecution\<close> (\<^verbatim>\<open>src/internal/selection\<close>): plans, binding of capabilities to targets, paginated
    reads with budgets, de-duplication and order.
  \<^item> \<open>Native\<close>, \<open>FieldExtraction\<close> (\<^verbatim>\<open>src/internal/extraction\<close>): the path parser, its compilation and evaluation.
  \<^item> \<open>Decimal\<close>, \<open>TypedValues\<close>, \<open>ExactResults\<close>, \<open>TypedOutcomes\<close> (\<^verbatim>\<open>src/internal/typedoutput\<close>): exact decimals and rationals, conversion,
    keys, comparison, which rationals each type can represent, batches and projection.
  \<^item> \<open>Operators\<close> (\<^verbatim>\<open>src/internal/operators\<close>): planning and evaluation of predicates and transformations.
  \<^item> \<open>Aggregation\<close>, \<open>AggregationGrouping\<close>, \<open>AggregationReducers\<close> (\<^verbatim>\<open>src/internal/aggregation\<close>): planning, grouping, reducers, limits,
    projection; the first has the definitions, the others the proofs.
  \<^item> \<open>Discovery\<close>, \<open>DiscoveryCalls\<close> (\<^verbatim>\<open>src/internal/discovery\<close>): the metadata cache with its refreshes and epochs, and concurrent calls as a
    step relation over the sections run under the mutex.
  \<^item> \<open>Status\<close> (\<^verbatim>\<open>src/internal/status\<close>): derived summary and the canonical conditions with their merge.
  \<^item> \<open>Admission\<close> (\<^verbatim>\<open>src/internal/admission\<close>): budgets, the staged validator and the webhook handlers.
  \<^item> \<open>Tracker\<close>, \<open>ExecutionGate\<close>, \<open>Trigger\<close>, \<open>Routes\<close>, \<open>RouteWatch\<close>, \<open>Events\<close>, \<open>Publisher\<close>, \<open>Pipeline\<close>, \<open>PipelineSafety\<close>, \<open>PipelineResults\<close>,
    \<open>PipelineObservation\<close> (\<^verbatim>\<open>src/internal/reconciliation\<close>): leases and their invalidation, and the per-key lock that
    reconciliations pass through (\<^verbatim>\<open>tracker.go\<close>); the bounded trigger (\<^verbatim>\<open>trigger.go\<close>); the route registry
    and the loop of a watch supervisor (\<^verbatim>\<open>routes.go\<close>); event handlers (\<^verbatim>\<open>events.go\<close>); error values and guarded publication
    (\<^verbatim>\<open>errors.go\<close>, \<^verbatim>\<open>status.go\<close>); the attempt, what it may do, what it publishes and what it reports (\<^verbatim>\<open>pipeline.go\<close>).
  \<^item> \<open>Purge\<close> (\<^verbatim>\<open>src/internal/purge\<close>): the separate client that removes Facets, policies and their definitions; it shows that
    definitions go last, and that the client cannot delete a Facet.

  Definitions keep the names of the Go functions, with a prefix where two packages share one; records stand for structs, strings for Go
  strings, \<open>int\<close> for integers whose range matters only at the guards that are written out, and words where wrap-around matters (policy
  epochs).  An error is the left side of a sum or an option.  A mutex is a step: state that goroutines share changes by the sections run
  under the lock, and the step relations of \<open>Tracker\<close>, \<open>ExecutionGate\<close>, \<open>Trigger\<close>, \<open>DiscoveryCalls\<close> and \<open>Routes\<close> interleave them freely.  A
  function that reads shared state several times (\<open>Replace\<close>, \<open>Publish\<close>, \<open>reconcileKey\<close>, \<open>run\<close>) takes each answer separately, so a
  theorem about it holds for whatever happens between the reads.

  \<^bold>\<open>What is shown.\<close>
  \<^item> Access: this theory composes loading, deciding, binding and reading, and shows that a list call reaches the API server only for a target the policy
    permits while the subject is current.  \<open>PipelineSafety\<close> shows the same of a whole attempt, together with the order of
    route installation and reading; \<open>Events\<close> shows that a policy change revokes what the old policy granted; \<open>Tracker\<close> that it
    stays revoked; \<open>Routes\<close> that watches are opened only under current capabilities.
  \<^item> Values: paths select what a depth-first reading selects; conversion, keys of scalars, comparison and reducers are exact over the rationals, and a sum
    fails exactly when its type cannot represent it;
    operators accept exactly the values their meaning accepts; grouping is the partition by key.
  \<^item> Atomicity, order and bounds of every batch, of pages, values, groups, watches, pending triggers, cache entries and status bytes.
  \<^item> Concurrency: single flight and freshness of discovery, coherence of the two route indexes, one reconciliation and one live lease per key
    (from the lock, not assumed), no lost trigger, no missed watch event; the cache refines a list in order of use and the supervisor loop an automaton.
  \<^item> Publication: conditions say exactly what the evaluation says; each source is published with the result of its own stages or
    its timeout marker; at most one guarded write per attempt; writing again, the compact status included, is a no-op.
  \<^item> Admission accepts exactly the Facets every later stage compiles and the policy allows.

  Interfaces are locales, interpreted on the definitions of the model where they are provided: \<open>strict_weak_order\<close> for the
  comparators of sorting, \<open>byte_budget\<close> for the accountant, \<open>resource_lister\<close> for the lister the executor calls, \<open>epoch_verifier\<close> for
  the tracker behind the freshness checks, and \<open>binding_index\<close> for the route registry.

  \<^bold>\<open>Bounds and fuel.\<close>  Recursion is structural or has a termination proof.  A paginated read consumes one reply of the server per round and has no
  result while a reply is outstanding; \<open>SelectionExecution\<close> shows that it returns when the server ends its pages or lets the list expire twice (the code restarts an expired list once).  A context is the
  number of reads after which it ends, or never; every statement holds for all of them.

  \<^bold>\<open>Parameters\<close>, with what the code relies on as hypotheses where a theorem needs it: float printing, time, duration and quantity parsing, JSON
  encoding (sizes, hash, strings) and decoding, regular expressions, label and field selectors, name grammars, the API version parser,
  \<^verbatim>\<open>meta.SetStatusCondition\<close>, iteration order of Go maps, clocks, contexts and the API server.

  \<^bold>\<open>Not modelled\<close>: \<^verbatim>\<open>internal/managerapp\<close>, \<^verbatim>\<open>reconciliation/setup.go\<close> and \<^verbatim>\<open>cmd\<close> wire the process into controller-runtime; \<^verbatim>\<open>internal/observability\<close>
  produces metrics, spans and logs; \<^verbatim>\<open>internal/localprobe\<close> is process and network I/O; \<^verbatim>\<open>hack\<close> is release tooling; deep copies
  are generated and values are immutable here.  Texts of errors that interpolate a value are shortened, private causes of errors that no
  caller inspects are left out, and a nil and an empty collection are one value.
\<close>

section \<open>Reads reach the API server only through the access policy\<close>

text \<open>A small installation used by the witnesses.\<close>

definition wit_k8s :: K8sValidation where
  "wit_k8s = \<lparr>isDNS1123Label = (\<lambda>s. s \<noteq> [] \<and> length s \<le> 63 \<and> list_all (\<lambda>c. is_lower c \<or> is_digit c \<or> c = CHR ''-'') s),
              isDNS1123Subdomain = (\<lambda>s. s \<noteq> [] \<and> list_all (\<lambda>c. is_lower c \<or> is_digit c \<or> c = CHR ''-'' \<or> c = CHR ''.'') s)\<rparr>"

definition wit_policy :: FacetAccessPolicy where
  "wit_policy = \<lparr>fap_name = ''installation-access-ceiling'', fap_uid = ''p1'', fap_generation = 3,
     fap_namespaces = \<lparr>np_mode = ''AllNonSystem'', np_include = [], np_exclude = [''secret''], np_systemNamespaces = None\<rparr>,
     fap_resources = [\<lparr>rr_apiGroups = [''apps''], rr_kinds = [''Deployment'']\<rparr>], fap_allowClusterScoped = False\<rparr>"

definition wit_subject :: Subject where
  "wit_subject = \<lparr>sub_key = \<lparr>nn_namespace = ''team'', nn_name = ''f''\<rparr>, sub_uid = ''u1'', sub_generation = 1, sub_policyEpoch = 2\<rparr>"

definition wit_target :: ReadTarget where
  "wit_target = \<lparr>rt_sourceID = ''src'', rt_gvr = \<lparr>gvr_group = ''apps'', gvr_version = ''v1'', gvr_resource = ''deployments''\<rparr>,
     rt_kind = ''Deployment'', rt_scope = ScopeNamespaced, rt_namespace = ''team''\<rparr>"

definition wit_plan :: SelectionPlan where
  "wit_plan = \<lparr>pl_sourceID = ''src'', pl_apiVersion = ''apps/v1'', pl_kind = ''Deployment'', pl_targets = [wit_target],
     pl_labelSelector = [], pl_fieldSelector = []\<rparr>"

definition wit_snapshot :: Snapshot where
  "wit_snapshot = LoadWithValidation wit_k8s (Some (Inr (Some wit_policy))) None"

definition wit_outcomes :: "DecisionOutcome list" where
  "wit_outcomes = map (decide wit_k8s wit_subject wit_snapshot) [RequestForTarget wit_target]"

definition wit_bound :: AuthorizedPlan where
  "wit_bound = (case BindCapabilities wit_plan wit_outcomes of
      Inr ap \<Rightarrow> ap | Inl e \<Rightarrow> \<lparr>ap_plan = wit_plan, ap_reads = []\<rparr>)"

definition wit_env :: "unit iteration list" where
  "wit_env = [\<lparr>w_ctx_head = False, w_current_head = (\<lambda>s. s = wit_subject), w_ctx_list = False,
     w_current_list = (\<lambda>s. s = wit_subject),
     w_reply = Inr (Some \<lparr>lr_items = [\<lparr>li_name = ''d'', li_namespace = ''team'', li_uid = ''x'', li_object = ()\<rparr>], lr_continue = []\<rparr>),
     w_ctx_after = False, w_ctx_map = False\<rparr>]"

definition wit_executor :: Executor where
  "wit_executor = NewExecutor [Some (WithVerifier True)]"

text \<open>C1: a LIST request that reaches the API server while a batch of bound plans executes was made for a
  resource and namespace that the loaded, well-formed access policy permits, addresses exactly that
  resource and namespace, and was sent while the freshness verifier still confirmed the subject.\<close>

theorem no_unauthorized_read:
  assumes bound: "\<And>ap. ap \<in> set aps \<Longrightarrow> \<exists>plan requests c outs recorded.
      EvaluateBatch k c subject (LoadWithValidation k source validate) requests = (Inr outs, recorded) \<and>
      BindCapabilities plan outs = Inr ap"
    and call: "call \<in> set (snd (SelectBatch configured (DynamicList l) canonicalSize ex cancelled 0 aps ws))"
  shows "\<exists>p t. source = Some (Inr (Some p)) \<and> well_formed_policy k p \<and>
    policy_permits p (RequestForTarget t) \<and> wc_gvr call = rt_gvr t \<and>
    wc_namespace call = (if rt_scope t = ScopeCluster then None else Some (rt_namespace t)) \<and>
    wc_current call subject"
proof -
  obtain ap read where ap: "ap \<in> set aps" "read \<in> set (ap_reads ap)" and g: "guarded_call read call"
    using dynamic.SelectBatch_guarded[OF _ call] by (metis prod.collapse)
  obtain plan requests c outs recorded where
    ev: "EvaluateBatch k c subject (LoadWithValidation k source validate) requests = (Inr outs, recorded)" and
    bind: "BindCapabilities plan outs = Inr ap"
    using bound[OF ap(1)] by blast
  obtain out where out: "out \<in> set outs" "do_capability out = Some (ar_capability read)"
    using BindCapabilities_reads_valid(3)[OF bind ap(2)] by blast
  then obtain r where r: "out = decide k subject (LoadWithValidation k source validate) r"
    using EvaluateBatch_Inr(2)[OF ev] by auto
  have cap: "dec_allowed (Evaluate k (LoadWithValidation k source validate) r)"
    "cap_request (ar_capability read) = r" "cap_subject (ar_capability read) = subject"
    using out(2) unfolding r decide_capability_iff by simp_all
  have "r = RequestForTarget (ar_target read)"
    using BindCapabilities_reads_valid(2)[OF bind ap(2)] cap(2) by (simp add: AuthorizedRead_Valid_def)
  then show ?thesis
    using cap(1,3) g unfolding LoadWithValidation_allowed_iff guarded_call_def Capability_IsCurrent_def
    by auto
qed

theorem no_unauthorized_read_witness:
  "length (snd (SelectBatch True (DynamicList \<lparr>dl_client = True, dl_verifier = True\<rparr>) (\<lambda>_. Some 5) wit_executor
      (\<lambda>_. False) 0 [wit_bound] wit_env)) = 1 \<and>
   (\<exists>p t. Some (Inr (Some wit_policy)) = Some (Inr (Some p) :: (source_error, FacetAccessPolicy option) res) \<and>
    well_formed_policy wit_k8s p \<and>
    policy_permits p (RequestForTarget t) \<and>
    wc_current (hd (snd (SelectBatch True (DynamicList \<lparr>dl_client = True, dl_verifier = True\<rparr>) (\<lambda>_. Some 5) wit_executor
      (\<lambda>_. False) 0 [wit_bound] wit_env))) wit_subject)"
proof -
  let ?calls = "snd (SelectBatch True (DynamicList \<lparr>dl_client = True, dl_verifier = True\<rparr>) (\<lambda>_. Some 5) wit_executor
      (\<lambda>_. False) 0 [wit_bound] wit_env)"
  have len: "length ?calls = 1" by code_simp
  then have mem: "hd ?calls \<in> set ?calls" by (metis hd_in_set length_0_conv zero_neq_one)
  have ev: "EvaluateBatch wit_k8s None wit_subject (LoadWithValidation wit_k8s (Some (Inr (Some wit_policy))) None)
      [RequestForTarget wit_target] = (Inr wit_outcomes, Some (map do_record wit_outcomes))"
    by code_simp
  have bd: "BindCapabilities wit_plan wit_outcomes = Inr wit_bound" by code_simp
  have bound: "\<exists>plan requests c outs recorded.
      EvaluateBatch wit_k8s c wit_subject (LoadWithValidation wit_k8s (Some (Inr (Some wit_policy))) None) requests
        = (Inr outs, recorded) \<and> BindCapabilities plan outs = Inr ap" if "ap \<in> set [wit_bound]" for ap
  proof -
    have "ap = wit_bound" using that by simp
    with ev bd show ?thesis by blast
  qed
  from no_unauthorized_read[OF bound mem] len show ?thesis by blast
qed

end
